(* ===== verification/Tab_Records.thy ===== *)
theory Tab_Records
  imports Chuzz_Prelude "HOL-Library.AList"
begin

text \<open>
  The tab registry of \<^verbatim>\<open>src/apps/chuzz/src/tab_records.rs\<close>: one record per tab, bounded in
  number, with the residency each tab has reached. The \<open>BTreeMap\<close> is an association list with
  distinct keys. The locale \<open>tab_registry\<close> is the contract the browser relies on; it is
  interpreted on the registry below.
\<close>

section \<open>Records and registry\<close>

datatype residency = Dormant | Loading | Live | Discarding | Sleeping | Waking

record tab_record =
  rec_id :: nat
  rec_generation :: nat
  rec_residency :: residency

record registry =
  reg_records :: "(nat \<times> tab_record) list"
  reg_limit :: nat
  reg_warn_at :: nat

text \<open>\<open>TabRegistry::new\<close>; \<open>None\<close> where its assertion fails.\<close>

definition new_registry :: "nat \<Rightarrow> nat \<Rightarrow> registry option" where
  "new_registry limit warn_at =
     (if 0 < limit \<and> 0 < warn_at \<and> warn_at \<le> limit
      then Some \<lparr>reg_records = [], reg_limit = limit, reg_warn_at = warn_at\<rparr> else None)"

definition default_registry :: registry where
  "default_registry = \<lparr>reg_records = [], reg_limit = 20000, reg_warn_at = 16000\<rparr>"

definition record_of :: "registry \<Rightarrow> nat \<Rightarrow> tab_record option" where
  "record_of r i = map_of (reg_records r) i"

definition admit :: "registry \<Rightarrow> nat \<Rightarrow> str + registry" where
  "admit r i =
     (if record_of r i \<noteq> None then Inl (S ''tab-id-already-present'')
      else if reg_limit r \<le> length (reg_records r) then Inl (S ''tab-record-budget'')
      else Inr (r\<lparr>reg_records := AList.update i
              \<lparr>rec_id = i, rec_generation = 0, rec_residency = Dormant\<rparr> (reg_records r)\<rparr>))"

definition loading :: "registry \<Rightarrow> nat \<Rightarrow> nat \<Rightarrow> registry" where
  "loading r i g =
     (case record_of r i of None \<Rightarrow> r
      | Some t \<Rightarrow> r\<lparr>reg_records := AList.update i
            (t\<lparr>rec_generation := g, rec_residency := Loading\<rparr>) (reg_records r)\<rparr>)"

definition attached :: "registry \<Rightarrow> nat \<Rightarrow> nat \<Rightarrow> registry" where
  "attached r i g =
     (case record_of r i of None \<Rightarrow> r
      | Some t \<Rightarrow> if rec_generation t = g
            then r\<lparr>reg_records := AList.update i (t\<lparr>rec_residency := Live\<rparr>) (reg_records r)\<rparr>
            else r)"

definition sleeping :: "registry \<Rightarrow> nat \<Rightarrow> registry" where
  "sleeping r i =
     (case record_of r i of None \<Rightarrow> r
      | Some t \<Rightarrow> r\<lparr>reg_records := AList.update i (t\<lparr>rec_residency := Sleeping\<rparr>) (reg_records r)\<rparr>)"

definition remove :: "registry \<Rightarrow> nat \<Rightarrow> registry" where
  "remove r i = r\<lparr>reg_records := AList.delete i (reg_records r)\<rparr>"

definition reg_warning :: "registry \<Rightarrow> bool" where
  "reg_warning r \<longleftrightarrow> reg_warn_at r \<le> length (reg_records r)"

section \<open>Invariant\<close>

definition registry_inv :: "registry \<Rightarrow> bool" where
  "registry_inv r \<longleftrightarrow>
     distinct (map fst (reg_records r)) \<and> length (reg_records r) \<le> reg_limit r
     \<and> list_all (\<lambda>(i, t). rec_id t = i) (reg_records r)"

definition reg_ids :: "registry \<Rightarrow> nat set" where
  "reg_ids r = fst ` set (reg_records r)"

lemma reg_ids_dom: "reg_ids r = dom (record_of r)"
  by (simp add: reg_ids_def record_of_def [abs_def] dom_map_of_conv_image_fst)

lemma update_length_present: "map_of al k \<noteq> None \<Longrightarrow> length (AList.update k v al) = length al"
  by (induction al) (auto split: if_splits)

lemma update_length_absent: "map_of al k = None \<Longrightarrow> length (AList.update k v al) = Suc (length al)"
  by (induction al) (auto split: if_splits)

lemma set_update_rec:
  "list_all P al \<Longrightarrow> P (k, v) \<Longrightarrow> list_all P (AList.update k v al)"
  by (induction al) auto

lemma list_all_delete: "list_all P al \<Longrightarrow> list_all P (AList.delete k al)"
  by (induction al) auto

lemma record_of_id:
  "registry_inv r \<Longrightarrow> record_of r i = Some t \<Longrightarrow> rec_id t = i"
  by (fastforce simp: registry_inv_def record_of_def list_all_iff dest: map_of_SomeD)

lemmas registry_defs =
  admit_def loading_def attached_def sleeping_def remove_def record_of_def

lemma registry_inv_default [inv_intros]: "registry_inv default_registry"
  by (simp add: registry_inv_def default_registry_def)

lemma registry_inv_put:
  assumes "registry_inv r" and "record_of r i = Some t" and "rec_id t' = rec_id t"
  shows "registry_inv (r\<lparr>reg_records := AList.update i t' (reg_records r)\<rparr>)"
  using assms record_of_id [OF assms(1,2)]
  by (auto simp: registry_inv_def record_of_def update_length_present
      intro!: set_update_rec distinct_update)

lemma registry_inv_admit [inv_intros]:
  assumes "registry_inv r" and "admit r i = Inr r'"
  shows "registry_inv r'"
proof -
  let ?t = "\<lparr>rec_id = i, rec_generation = 0, rec_residency = Dormant\<rparr>"
  from assms(2) have new: "map_of (reg_records r) i = None"
    and room: "length (reg_records r) < reg_limit r"
    and r': "r' = r\<lparr>reg_records := AList.update i ?t (reg_records r)\<rparr>"
    by (auto simp: admit_def record_of_def split: if_splits simp del: map_of_eq_None_iff)
  from assms(1) room show ?thesis
    by (simp add: r' registry_inv_def update_length_absent [OF new] distinct_update set_update_rec)
qed

lemma registry_inv_loading [inv_intros]: "registry_inv r \<Longrightarrow> registry_inv (loading r i g)"
  by (auto simp: loading_def intro: registry_inv_put split: option.splits)

lemma registry_inv_attached [inv_intros]: "registry_inv r \<Longrightarrow> registry_inv (attached r i g)"
  by (auto simp: attached_def intro: registry_inv_put split: option.splits)

lemma registry_inv_sleeping [inv_intros]: "registry_inv r \<Longrightarrow> registry_inv (sleeping r i)"
  by (auto simp: sleeping_def intro: registry_inv_put split: option.splits)

lemma registry_inv_remove [inv_intros]: "registry_inv r \<Longrightarrow> registry_inv (remove r i)"
  using length_delete_le [of i "reg_records r"]
  by (auto simp: registry_inv_def remove_def intro: distinct_delete list_all_delete)

section \<open>Lookup after each operation\<close>

lemma record_of_admit:
  "admit r i = Inr r' \<Longrightarrow>
   record_of r' = (record_of r)(i \<mapsto> \<lparr>rec_id = i, rec_generation = 0, rec_residency = Dormant\<rparr>)"
  by (auto simp: registry_defs update_conv' split: if_splits)

lemma record_of_loading:
  "record_of (loading r i g) =
     (case record_of r i of None \<Rightarrow> record_of r
      | Some t \<Rightarrow> (record_of r)(i \<mapsto> t\<lparr>rec_generation := g, rec_residency := Loading\<rparr>))"
  by (auto simp: registry_defs update_conv' split: option.splits)

lemma record_of_attached:
  "record_of (attached r i g) =
     (case record_of r i of None \<Rightarrow> record_of r
      | Some t \<Rightarrow> if rec_generation t = g then (record_of r)(i \<mapsto> t\<lparr>rec_residency := Live\<rparr>)
                  else record_of r)"
  by (auto simp: registry_defs update_conv' split: option.splits)

lemma record_of_sleeping:
  "record_of (sleeping r i) =
     (case record_of r i of None \<Rightarrow> record_of r
      | Some t \<Rightarrow> (record_of r)(i \<mapsto> t\<lparr>rec_residency := Sleeping\<rparr>))"
  by (auto simp: registry_defs update_conv' split: option.splits)

lemma record_of_remove: "record_of (remove r i) = (record_of r)(i := None)"
  by (auto simp: registry_defs delete_conv')

lemmas record_of_simps =
  record_of_loading record_of_attached record_of_sleeping record_of_remove

lemma reg_ids_ops [simp]:
  "reg_ids (loading r i g) = reg_ids r"
  "reg_ids (attached r i g) = reg_ids r"
  "reg_ids (sleeping r i) = reg_ids r"
  "reg_ids (remove r i) = reg_ids r - {i}"
  by (auto simp: reg_ids_dom record_of_simps split: option.splits if_splits)

lemma reg_ids_admit: "admit r i = Inr r' \<Longrightarrow> reg_ids r' = insert i (reg_ids r) \<and> i \<notin> reg_ids r"
  by (auto simp: reg_ids_dom record_of_admit) (auto simp: admit_def split: if_splits)

section \<open>The contract\<close>

locale tab_registry =
  fixes lookup :: "'r \<Rightarrow> nat \<Rightarrow> tab_record option"
    and start_load :: "'r \<Rightarrow> nat \<Rightarrow> nat \<Rightarrow> 'r"
    and attach :: "'r \<Rightarrow> nat \<Rightarrow> nat \<Rightarrow> 'r"
    and drop_record :: "'r \<Rightarrow> nat \<Rightarrow> 'r"
  assumes lookup_start_load:
      "lookup (start_load r i g) j =
        (if j = i then map_option (\<lambda>t. t\<lparr>rec_generation := g, rec_residency := Loading\<rparr>) (lookup r i)
         else lookup r j)"
    and lookup_attach:
      "lookup (attach r i g) j =
        (if j = i then map_option (\<lambda>t. if rec_generation t = g then t\<lparr>rec_residency := Live\<rparr> else t)
                         (lookup r i)
         else lookup r j)"
    and lookup_drop: "lookup (drop_record r i) j = (if j = i then None else lookup r j)"
begin

text \<open>A completion for a load that a newer one has replaced cannot make a record live.\<close>

lemma stale_attach:
  assumes "lookup r i = Some t" and "old \<noteq> new"
  shows "lookup (attach (start_load r i new) i old) i = Some (t\<lparr>rec_generation := new, rec_residency := Loading\<rparr>)"
  using assms by (simp add: lookup_start_load lookup_attach)

lemma current_attach:
  assumes "lookup r i = Some t"
  shows "lookup (attach (start_load r i g) i g) i = Some (t\<lparr>rec_generation := g, rec_residency := Live\<rparr>)"
  using assms by (simp add: lookup_start_load lookup_attach)

text \<open>Nothing that arrives after a tab closed brings its record back.\<close>

lemma closed_stays_closed:
  "lookup (attach (start_load (drop_record r i) i g) i h) i = None"
  by (simp add: lookup_start_load lookup_attach lookup_drop)

end

interpretation reg: tab_registry record_of loading attached remove
  by unfold_locales (auto simp: record_of_simps split: option.splits)

text \<open>
  A completed load that a newer load of the same tab has replaced cannot make the tab's record
  live, the completion of the newest load does, and nothing that arrives for a closed tab brings
  its record back.
\<close>

theorem attach_only_newest:
  assumes "record_of r i = Some t" and "old \<noteq> new"
  shows "record_of (attached (loading r i new) i old) i
           = Some (t\<lparr>rec_generation := new, rec_residency := Loading\<rparr>)
    \<and> record_of (attached (loading r i new) i new) i
           = Some (t\<lparr>rec_generation := new, rec_residency := Live\<rparr>)
    \<and> record_of (attached (loading (remove r i) i new) i new) i = None"
  using reg.stale_attach [OF assms] reg.current_attach [OF assms(1)] reg.closed_stays_closed by blast

theorem attach_only_newest_witness:
  "\<exists>r. admit default_registry 4 = Inr r
    \<and> record_of (attached (loading r 4 2) 4 1) 4
        = Some \<lparr>rec_id = 4, rec_generation = 2, rec_residency = Loading\<rparr>"
proof -
  obtain r where r: "admit default_registry 4 = Inr r"
    by (simp add: admit_def record_of_def default_registry_def)
  then have "record_of r 4 = Some \<lparr>rec_id = 4, rec_generation = 0, rec_residency = Dormant\<rparr>"
    by (simp add: record_of_admit)
  from attach_only_newest [OF this, of 1 2] r show ?thesis by simp
qed

section \<open>Runs of the registry\<close>

datatype registry_op = Admit nat | StartLoad nat nat | Attach nat nat | Sleep nat | Remove nat

fun registry_step :: "registry \<Rightarrow> registry_op \<Rightarrow> registry" where
  "registry_step r (Admit i) = (case admit r i of Inl _ \<Rightarrow> r | Inr r' \<Rightarrow> r')"
| "registry_step r (StartLoad i g) = loading r i g"
| "registry_step r (Attach i g) = attached r i g"
| "registry_step r (Sleep i) = sleeping r i"
| "registry_step r (Remove i) = remove r i"

lemma registry_step_inv:
  "registry_inv r \<Longrightarrow> registry_inv (registry_step r x) \<and> reg_limit (registry_step r x) = reg_limit r"
  by (cases x) (auto simp: admit_def loading_def attached_def sleeping_def remove_def
      intro: registry_inv_admit registry_inv_put registry_inv_remove [unfolded remove_def]
      split: sum.splits option.splits if_splits)

lemma registry_run_inv:
  "registry_inv r \<Longrightarrow> registry_inv (foldl registry_step r xs) \<and> reg_limit (foldl registry_step r xs) = reg_limit r"
  by (induction xs arbitrary: r) (auto simp: registry_step_inv)

text \<open>
  The registry never holds two records for one tab nor more records than its limit: whatever
  sequence of operations runs, admission is refused before the budget is passed.
\<close>

theorem registry_bounded:
  "distinct (map fst (reg_records (foldl registry_step default_registry xs)))
   \<and> length (reg_records (foldl registry_step default_registry xs)) \<le> 20000"
  using registry_run_inv [OF registry_inv_default, of xs]
  by (simp add: registry_inv_def) (simp add: default_registry_def)

end
