(* ===== verification/Nav.thy ===== *)
theory Nav
  imports Chuzz_Prelude
begin

text \<open>
  The values that travel between the browser and its network provider, and the address-bar
  policy of \<^verbatim>\<open>src/apps/chuzz/src/nav.rs\<close>. \<open>Url\<close>, \<open>Request\<close> and \<open>Initiator\<close> belong to crates
  outside the repository: a value of them is the record of the accessors the sources call,
  and the functions that build them are the fields of \<open>net_ext\<close>, an argument of every
  definition that uses them. \<open>request_laws\<close> states the documented behaviour of
  \<open>Request::get\<close> that some properties rely on.
\<close>

section \<open>Values of the network crates\<close>

datatype origin = Opaque nat | Tuple str str nat

record url =
  url_str :: str
  url_scheme :: str
  url_path :: str
  url_host :: "str option"
  url_fragment :: "str option"
  url_origin :: origin

datatype initiator = Browser url | Document nat

record request =
  rq_url :: url
  rq_method :: str
  rq_destination :: nat
  rq_headers :: "(str \<times> str) list"
  rq_initiator :: initiator
  rq_signal :: "nat option"
  rq_rest :: str

text \<open>
  \<open>rq_rest\<close> stands for every other field of the request: the body and the credentials.
\<close>

record net_ext =
  url_parse :: "str \<Rightarrow> url option"
  request_get :: "url \<Rightarrow> request"
  policy_browser :: "url \<Rightarrow> initiator"

definition request_laws :: "net_ext \<Rightarrow> bool" where
  "request_laws ext \<longleftrightarrow> (\<forall>u. rq_url (request_get ext u) = u \<and> rq_method (request_get ext u) = S ''GET'')"

section \<open>Address-bar policy\<close>

definition HOME_URL :: str where
  "HOME_URL = S ''https://24x.ai/''"

definition NEW_TAB_URL :: str where
  "NEW_TAB_URL = S ''about:blank''"

definition browser_request :: "net_ext \<Rightarrow> url \<Rightarrow> request" where
  "browser_request ext u = (request_get ext u)\<lparr>rq_initiator := policy_browser ext u\<rparr>"

definition looks_like_hostname :: "str \<Rightarrow> bool" where
  "looks_like_hostname input =
     (if list_ex is_whitespace input then False
      else if input = S ''localhost'' \<or> starts_with input (S ''localhost:'')
              \<or> starts_with input (S ''localhost/'') then True
      else
        (let host = takeWhile (\<lambda>c. c \<noteq> of_char CHR '':'')
               (takeWhile (\<lambda>c. c \<notin> set (S ''/?#'')) input);
             dot = of_char CHR ''.''
         in dot \<in> set host \<and> \<not> starts_with host [dot] \<and> \<not> ends_with host [dot]))"

definition request_from_input :: "net_ext \<Rightarrow> str \<Rightarrow> request option" where
  "request_from_input ext raw =
     (let input = trim raw;
          as_host = (if looks_like_hostname input
                     then map_option (browser_request ext) (url_parse ext (S ''https://'' @ input))
                     else None)
      in if input = [] then None
         else case url_parse ext input of
                Some u \<Rightarrow> if url_scheme u \<noteq> S ''localhost'' then Some (browser_request ext u)
                          else as_host
              | None \<Rightarrow> as_host)"

definition display_title :: "str \<Rightarrow> url \<Rightarrow> str" where
  "display_title title u = (if trim title = [] then url_str u else title)"

section \<open>What the policy guarantees\<close>

lemma browser_request_simps [simp]:
  "request_laws ext \<Longrightarrow> rq_url (browser_request ext u) = u"
  "request_laws ext \<Longrightarrow> rq_method (browser_request ext u) = S ''GET''"
  "rq_initiator (browser_request ext u) = policy_browser ext u"
  by (simp_all add: browser_request_def request_laws_def)

lemma looks_like_hostname_no_space:
  "looks_like_hostname input \<Longrightarrow> c \<in> set input \<Longrightarrow> \<not> is_whitespace c"
  by (auto simp: looks_like_hostname_def list_ex_iff split: if_splits)

text \<open>
  A host that is not \<open>localhost\<close> begins with a label, a dot and a further character before any
  path, query, fragment or port.
\<close>

lemma looks_like_hostname_shape:
  assumes "looks_like_hostname input"
    and "\<not> starts_with input (S ''localhost'')"
  obtains label rest where "input = label @ of_char CHR ''.'' # rest"
    and "label \<noteq> []" and "set label \<inter> set (S ''/?#:'') = {}"
proof -
  let ?dot = "of_char CHR ''.'' :: nat"
  let ?seg = "takeWhile (\<lambda>c. c \<notin> set (S ''/?#'')) input"
  let ?host = "takeWhile (\<lambda>c. c \<noteq> of_char CHR '':'') ?seg"
  from assms(2) have nl: "input \<noteq> S ''localhost''" "\<not> starts_with input (S ''localhost:'')"
    "\<not> starts_with input (S ''localhost/'')"
    by (auto simp: starts_with_iff)
  with assms(1) have h: "?dot \<in> set ?host" "\<not> starts_with ?host [?dot]"
    by (auto simp: looks_like_hostname_def Let_def split: if_splits)
  define label where "label = takeWhile (\<lambda>c. c \<noteq> ?dot) ?host"
  have lbl: "?host = label @ ?dot # tl (dropWhile (\<lambda>c. c \<noteq> ?dot) ?host)"
  proof -
    from h(1) have ne: "dropWhile (\<lambda>c. c \<noteq> ?dot) ?host \<noteq> []"
      by (auto simp: dropWhile_eq_Nil_conv)
    then have "hd (dropWhile (\<lambda>c. c \<noteq> ?dot) ?host) = ?dot"
      using hd_dropWhile by blast
    with ne show ?thesis
      by (metis label_def list.collapse takeWhile_dropWhile_id)
  qed
  obtain tl1 where t1: "?seg = ?host @ tl1"
    by (metis takeWhile_dropWhile_id)
  obtain tl2 where t2: "input = ?seg @ tl2"
    by (metis takeWhile_dropWhile_id)
  have "input = label @ ?dot # (tl (dropWhile (\<lambda>c. c \<noteq> ?dot) ?host) @ tl1 @ tl2)"
    using t1 t2 lbl by (metis append.assoc append_Cons)
  moreover have "label \<noteq> []"
  proof
    assume "label = []"
    with lbl have "?host = ?dot # tl (dropWhile (\<lambda>c. c \<noteq> ?dot) ?host)" by simp
    with h(2) show False by (metis append_Cons append_Nil starts_with_append)
  qed
  moreover have "set label \<subseteq> set ?host"
    by (auto simp: label_def dest: set_takeWhileD)
  then have "set label \<inter> set (S ''/?#:'') = {}"
    by (fastforce dest: set_takeWhileD)
  ultimately show thesis by (rule that)
qed

lemma request_from_input_cases:
  assumes "request_laws ext" and "request_from_input ext raw = Some r"
  shows "(url_parse ext (trim raw) = Some (rq_url r) \<and> url_scheme (rq_url r) \<noteq> S ''localhost'') \<or>
         (looks_like_hostname (trim raw) \<and> url_parse ext (S ''https://'' @ trim raw) = Some (rq_url r))"
  using assms(2)
  by (auto simp: request_from_input_def Let_def assms(1) split: if_splits option.splits)

lemma request_from_input_prose:
  assumes "url_parse ext (trim raw) = None" and "\<exists>c\<in>set (trim raw). is_whitespace c"
  shows "request_from_input ext raw = None"
  using assms looks_like_hostname_no_space [of "trim raw"]
  by (auto simp: request_from_input_def Let_def)

text \<open>
  An instance of the externals for the closed examples: a parser that knows two HTTPS addresses.
\<close>

definition demo_url :: "str \<Rightarrow> url" where
  "demo_url host = \<lparr>url_str = S ''https://'' @ host @ S ''/'', url_scheme = S ''https'', url_path = S ''/'',
     url_host = Some host, url_fragment = None, url_origin = Tuple (S ''https'') host 443\<rparr>"

definition demo_ext :: net_ext where
  "demo_ext = \<lparr>url_parse = (\<lambda>s. if s = S ''https://a.io'' then Some (demo_url (S ''a.io''))
                 else if s = S ''https://b.io'' then Some (demo_url (S ''b.io'')) else None),
     request_get = (\<lambda>u. \<lparr>rq_url = u, rq_method = S ''GET'', rq_destination = 0, rq_headers = [],
        rq_initiator = Document 0, rq_signal = None, rq_rest = []\<rparr>),
     policy_browser = Browser\<rparr>"

lemma demo_ext_laws: "request_laws demo_ext"
  by (simp add: request_laws_def demo_ext_def)

text \<open>
  A typed string becomes a request only for the URL it parses to (whose scheme is then not the
  pseudo-scheme \<open>localhost\<close>), or, when it looks like a host, for that host over HTTPS, in which
  case it holds no white space. The request is then a plain \<open>GET\<close> the browser itself initiates;
  there is no search fallback.
\<close>

theorem request_from_input_sound:
  assumes "request_laws ext" and "request_from_input ext raw = Some r"
  shows "r = browser_request ext (rq_url r)
    \<and> trim raw \<noteq> []
    \<and> ((url_parse ext (trim raw) = Some (rq_url r) \<and> url_scheme (rq_url r) \<noteq> S ''localhost'')
       \<or> (looks_like_hostname (trim raw) \<and> list_all (\<lambda>c. \<not> is_whitespace c) (trim raw)
          \<and> url_parse ext (S ''https://'' @ trim raw) = Some (rq_url r)))"
proof -
  have "r = browser_request ext (rq_url r)"
    using assms by (auto simp: request_from_input_def Let_def split: if_splits option.splits)
  moreover have "trim raw \<noteq> []"
    using assms(2) by (auto simp: request_from_input_def Let_def split: if_splits)
  moreover note request_from_input_cases [OF assms]
  ultimately show ?thesis
    by (auto simp: list_all_iff dest: looks_like_hostname_no_space)
qed

theorem request_from_input_sound_witness:
  "browser_request demo_ext (demo_url (S ''a.io'')) = browser_request demo_ext (rq_url (browser_request demo_ext (demo_url (S ''a.io''))))
   \<and> trim (S '' a.io '') \<noteq> []"
proof -
  have "request_from_input demo_ext (S '' a.io '') = Some (browser_request demo_ext (demo_url (S ''a.io'')))"
    by (simp add: request_from_input_def demo_ext_def trim_def is_whitespace_def looks_like_hostname_def
        starts_with_def ends_with_def Let_def)
  from request_from_input_sound [OF demo_ext_laws this] show ?thesis by blast
qed

end
