(* ===== verification/Tab_Stash.thy ===== *)
theory Tab_Stash
  imports Nav "HOL-Library.AList"
begin

text \<open>
  What a sleeping tab keeps, after \<^verbatim>\<open>src/apps/chuzz/src/tab_stash.rs\<close> and the
  compare-exchange loop of \<^verbatim>\<open>src/apps/chuzz/src/atomic_update.rs\<close>: captured text, the byte budget
  shared by all sleeping tabs, sealed session storage, sealed page state and paint previews.

  A \<open>Charge\<close> lives inside the value it pays for and is returned when the last \<open>Arc\<close> to that
  value is dropped. The ledger therefore carries, beside the counter the code has, the live
  charges with their sizes and reference counts, which is what the Rust runtime keeps in the
  \<open>Arc\<close> headers. Sizes the compiler chooses (\<open>size_of\<close>) are the fields of \<open>layout\<close>.
\<close>

section \<open>Compare-exchange updates\<close>

text \<open>
  \<open>update_u64\<close> and \<open>update_usize\<close>: \<open>obs\<close> lists the values the failed compare-exchanges
  observe, in order. Success returns the value replaced and the value stored; the
  compare-exchange makes that pair one atomic step of the cell.
\<close>

fun update_usize :: "(nat \<Rightarrow> nat option) \<Rightarrow> nat \<Rightarrow> nat list \<Rightarrow> nat + (nat \<times> nat)" where
  "update_usize f current [] =
     (case f current of None \<Rightarrow> Inl current | Some next \<Rightarrow> Inr (current, next))"
| "update_usize f current (observed # obs) =
     (case f current of None \<Rightarrow> Inl current | Some next \<Rightarrow> update_usize f observed obs)"

lemma update_usize_atomic:
  "update_usize f current obs = Inr (prev, next) \<Longrightarrow> f prev = Some next \<and> prev = last (current # obs)"
  by (induction f current obs rule: update_usize.induct) (auto split: option.splits if_splits)

lemma update_usize_refused:
  "update_usize f current obs = Inl v \<Longrightarrow> f v = None \<and> v \<in> set (current # obs)"
  by (induction f current obs rule: update_usize.induct) (auto split: option.splits)

section \<open>Captured text\<close>

text \<open>A vector of UTF-16 code units and the capacity it was allocated with.\<close>

record text_buf =
  txt_units :: "nat list"
  txt_capacity :: nat

definition utf16_char :: "nat \<Rightarrow> nat list" where
  "utf16_char c =
     (if c < 65536 then [c]
      else [55296 + (c - 65536) div 1024, 56320 + (c - 65536) mod 1024])"

definition utf16 :: "str \<Rightarrow> nat list" where
  "utf16 s = concat (map utf16_char s)"

text \<open>
  \<open>Text::capture\<close>: the loop stops at the first unit that does not fit. \<open>hint\<close> is the upper bound
  of the iterator's \<open>size_hint\<close>.
\<close>

fun capture_loop :: "nat list \<Rightarrow> nat \<Rightarrow> nat list \<Rightarrow> nat list option" where
  "capture_loop acc capacity [] = Some acc"
| "capture_loop acc capacity (unit # rest) =
     (if capacity \<le> length acc then None else capture_loop (acc @ [unit]) capacity rest)"

definition text_capture :: "nat list \<Rightarrow> nat option \<Rightarrow> nat \<Rightarrow> text_buf option" where
  "text_capture units hint limit =
     (let capacity = min (case hint of Some h \<Rightarrow> h | None \<Rightarrow> limit div 2) (limit div 2)
      in map_option (\<lambda>us. \<lparr>txt_units = us, txt_capacity = capacity\<rparr>) (capture_loop [] capacity units))"

definition text_bytes :: "text_buf \<Rightarrow> nat" where
  "text_bytes t = txt_capacity t * 2"

definition zeroize_text :: "text_buf \<Rightarrow> text_buf" where
  "zeroize_text t = t\<lparr>txt_units := []\<rparr>"

lemma capture_loop_iff:
  "capture_loop acc capacity units =
     (if length acc + length units \<le> capacity \<or> units = [] then Some (acc @ units) else None)"
  by (induction acc capacity units rule: capture_loop.induct) auto

lemma text_capture_Some:
  "text_capture units hint limit = Some t \<Longrightarrow>
     txt_units t = units \<and> length units \<le> txt_capacity t \<and> text_bytes t \<le> limit"
  by (auto simp: text_capture_def Let_def capture_loop_iff text_bytes_def split: if_splits option.splits)

lemma text_capture_total:
  "length units \<le> limit div 2 \<Longrightarrow> (\<And>h. hint = Some h \<Longrightarrow> length units \<le> h) \<Longrightarrow>
     \<exists>t. text_capture units hint limit = Some t \<and> txt_units t = units"
  by (auto simp: text_capture_def Let_def capture_loop_iff split: option.splits)

text \<open>UTF-16 is injective on Unicode scalar values, so equal units mean equal strings.\<close>

fun utf16_decode :: "nat list \<Rightarrow> str" where
  "utf16_decode [] = []"
| "utf16_decode [u] = [u]"
| "utf16_decode (u # v # us) =
     (if 55296 \<le> u \<and> u < 56320 then (65536 + (u - 55296) * 1024 + (v - 56320)) # utf16_decode us
      else u # utf16_decode (v # us))"

lemma utf16_decode_bmp: "u < 55296 \<or> 56320 \<le> u \<Longrightarrow> utf16_decode (u # us) = u # utf16_decode us"
  by (cases us) auto

lemma utf16_decode_char: "scalar_value c \<Longrightarrow> utf16_decode (utf16_char c @ us) = c # utf16_decode us"
proof (cases "c < 65536")
  case True
  moreover assume "scalar_value c"
  ultimately show ?thesis by (auto simp: utf16_char_def scalar_value_def utf16_decode_bmp)
next
  case False
  moreover assume "scalar_value c"
  ultimately have "c - 65536 < 1048576" by (auto simp: scalar_value_def)
  then have "(c - 65536) div 1024 < 1024" by simp
  with False show ?thesis by (simp add: utf16_char_def)
qed

lemma utf16_inverse: "list_all scalar_value s \<Longrightarrow> utf16_decode (utf16 s) = s"
  by (induction s) (simp_all add: utf16_def utf16_decode_char)

lemma utf16_inject:
  "list_all scalar_value s \<Longrightarrow> list_all scalar_value t \<Longrightarrow> utf16 s = utf16 t \<longleftrightarrow> s = t"
  by (metis utf16_inverse)

section \<open>Owned bytes\<close>

text \<open>\<open>Bytes\<close>: \<open>extend\<close> asserts that the vector never reallocates; \<open>None\<close> is the failed assertion.\<close>

record owned_bytes =
  ob_bytes :: bytes
  ob_capacity :: nat

definition ob_extend :: "owned_bytes \<Rightarrow> bytes \<Rightarrow> owned_bytes option" where
  "ob_extend b extra =
     (if length (ob_bytes b) + length extra \<le> ob_capacity b
      then Some (b\<lparr>ob_bytes := ob_bytes b @ extra\<rparr>) else None)"

definition ob_allocated :: "owned_bytes \<Rightarrow> nat" where
  "ob_allocated b = ob_capacity b"

text \<open>The memory a dropped \<open>Bytes\<close> leaves behind: resized to its capacity and zeroed.\<close>

definition ob_drop :: "owned_bytes \<Rightarrow> bytes" where
  "ob_drop b = replicate (ob_capacity b) 0"

section \<open>The sleeping budget\<close>

definition SLEEPING_BYTES :: nat where "SLEEPING_BYTES = 256 * 1024 * 1024"
definition STATE_BYTES :: nat where "STATE_BYTES = 64 * 1024"
definition PREVIEW_TARGET :: nat where "PREVIEW_TARGET = 128 * 1024"
definition PREVIEW_HARD :: nat where "PREVIEW_HARD = 256 * 1024"

record ledger =
  lg_used :: nat
  lg_cap :: nat
  lg_warn_at :: nat
  lg_live :: "(nat \<times> nat \<times> nat) list" \<comment> \<open>charge, bytes, strong references\<close>
  lg_next :: nat

text \<open>\<open>SleepingBudget::new\<close>; \<open>None\<close> is its failed assertion.\<close>

definition new_budget :: "nat \<Rightarrow> ledger option" where
  "new_budget cap =
     (if 0 < cap then Some \<lparr>lg_used = 0, lg_cap = cap, lg_warn_at = cap - cap div 5,
        lg_live = [], lg_next = 0\<rparr> else None)"

definition default_budget :: ledger where
  "default_budget = \<lparr>lg_used = 0, lg_cap = SLEEPING_BYTES,
     lg_warn_at = SLEEPING_BYTES - SLEEPING_BYTES div 5, lg_live = [], lg_next = 0\<rparr>"

definition lg_warning :: "ledger \<Rightarrow> bool" where
  "lg_warning l \<longleftrightarrow> lg_warn_at l \<le> lg_used l"

text \<open>The closure \<open>reserve\<close> passes to \<open>update_usize\<close>.\<close>

definition fits :: "nat \<Rightarrow> nat \<Rightarrow> nat \<Rightarrow> nat option" where
  "fits cap bytes used =
     (case checked_add used bytes of
        Some next \<Rightarrow> if next \<le> cap then Some next else None
      | None \<Rightarrow> None)"

definition reserve :: "ledger \<Rightarrow> nat \<Rightarrow> str + (nat \<times> ledger)" where
  "reserve l bytes =
     (case update_usize (fits (lg_cap l) bytes) (lg_used l) [] of
        Inl _ \<Rightarrow> Inl (S ''sleeping-tab-budget'')
      | Inr (_, next) \<Rightarrow>
          Inr (lg_next l, l\<lparr>lg_used := next, lg_live := (lg_next l, bytes, 1) # lg_live l,
                            lg_next := Suc (lg_next l)\<rparr>))"

text \<open>\<open>Arc::clone\<close> and the drop of one \<open>Arc\<close>; the last drop runs \<open>Charge::drop\<close>, whose
  \<open>fetch_sub\<close> wraps.\<close>

definition arc_clone :: "ledger \<Rightarrow> nat \<Rightarrow> ledger" where
  "arc_clone l c =
     (case map_of (lg_live l) c of None \<Rightarrow> l
      | Some (bytes, refs) \<Rightarrow> l\<lparr>lg_live := AList.update c (bytes, Suc refs) (lg_live l)\<rparr>)"

definition charge_drop :: "ledger \<Rightarrow> nat \<Rightarrow> ledger" where
  "charge_drop l bytes = l\<lparr>lg_used := (lg_used l + 2 ^ 64 - bytes) mod 2 ^ 64\<rparr>"

definition arc_drop :: "ledger \<Rightarrow> nat \<Rightarrow> ledger \<times> bool" where
  "arc_drop l c =
     (case map_of (lg_live l) c of None \<Rightarrow> (l, False)
      | Some (bytes, refs) \<Rightarrow>
          if refs \<le> 1
          then ((charge_drop l bytes)\<lparr>lg_live := AList.delete c (lg_live l)\<rparr>, True)
          else (l\<lparr>lg_live := AList.update c (bytes, refs - 1) (lg_live l)\<rparr>, False))"

definition live_bytes :: "ledger \<Rightarrow> nat" where
  "live_bytes l = sum_list (map (\<lambda>(c, bytes, refs). bytes) (lg_live l))"

definition ledger_inv :: "ledger \<Rightarrow> bool" where
  "ledger_inv l \<longleftrightarrow>
     distinct (map fst (lg_live l)) \<and> lg_used l = live_bytes l \<and> lg_used l \<le> lg_cap l
     \<and> lg_cap l \<le> u64_max \<and> list_all (\<lambda>(c, bytes, refs). c < lg_next l \<and> 1 \<le> refs) (lg_live l)"

section \<open>The ledger keeps its books\<close>

lemma reserve_iff:
  "reserve l bytes =
     (if lg_used l + bytes \<le> min u64_max (lg_cap l)
      then Inr (lg_next l, l\<lparr>lg_used := lg_used l + bytes,
             lg_live := (lg_next l, bytes, 1) # lg_live l, lg_next := Suc (lg_next l)\<rparr>)
      else Inl (S ''sleeping-tab-budget''))"
  by (auto simp: reserve_def fits_def checked_add_def)

lemma ledger_inv_cap: "ledger_inv l \<Longrightarrow> lg_used l \<le> lg_cap l"
  by (simp add: ledger_inv_def)

lemma ledger_inv_default [inv_intros]: "ledger_inv default_budget"
  by (simp add: ledger_inv_def default_budget_def live_bytes_def SLEEPING_BYTES_def u64_max_def)

lemma ledger_inv_reserve [inv_intros]:
  assumes "ledger_inv l" and "reserve l bytes = Inr (c, l')"
  shows "ledger_inv l'"
proof -
  from assms(1) have "list_all (\<lambda>(c, bytes, refs). c < Suc (lg_next l) \<and> 1 \<le> refs) (lg_live l)"
    and "lg_next l \<notin> fst ` set (lg_live l)"
    by (fastforce simp: ledger_inv_def list_all_iff)+
  with assms show ?thesis
    by (auto simp: reserve_iff ledger_inv_def live_bytes_def split: if_splits)
qed

lemma live_bytes_update:
  "map_of al c = Some (bytes, refs) \<Longrightarrow>
   sum_list (map (\<lambda>(c, b, r). b) (AList.update c (bytes, refs') al)) = sum_list (map (\<lambda>(c, b, r). b) al)"
  by (induction al) (auto split: if_splits)

lemma live_bytes_delete:
  "distinct (map fst al) \<Longrightarrow> map_of al c = Some (bytes :: nat, refs) \<Longrightarrow>
   sum_list (map (\<lambda>(c, b, r). b) (AList.delete c al)) + bytes = sum_list (map (\<lambda>(c, b, r). b) al)"
proof (induction al)
  case (Cons x al)
  then show ?case
    by (cases x) (auto split: if_splits simp: delete_idem)
qed simp

lemma list_all_update: "list_all P al \<Longrightarrow> P (k, v) \<Longrightarrow> list_all P (AList.update k v al)"
  by (induction al) auto

lemma list_all_live: "list_all P al \<Longrightarrow> map_of al k = Some v \<Longrightarrow> P (k, v)"
  by (auto simp: list_all_iff dest: map_of_SomeD)

lemma ledger_inv_refs:
  assumes "ledger_inv l" and "map_of (lg_live l) c = Some (bytes, refs)" and "1 \<le> refs'"
  shows "ledger_inv (l\<lparr>lg_live := AList.update c (bytes, refs') (lg_live l)\<rparr>)"
proof -
  let ?P = "\<lambda>(c, bytes :: nat, refs :: nat). c < lg_next l \<and> 1 \<le> refs"
  from assms(1) have all: "list_all ?P (lg_live l)" by (simp add: ledger_inv_def)
  from list_all_live [OF all assms(2)] assms(3) have "?P (c, bytes, refs')" by simp
  with all have "list_all ?P (AList.update c (bytes, refs') (lg_live l))"
    by (rule list_all_update)
  with assms(1,2) show ?thesis
    by (auto simp: ledger_inv_def live_bytes_def live_bytes_update distinct_update)
qed

lemma ledger_inv_clone [inv_intros]: "ledger_inv l \<Longrightarrow> ledger_inv (arc_clone l c)"
  by (auto simp: arc_clone_def intro: ledger_inv_refs split: option.splits)

lemma list_all_delete_live: "list_all P al \<Longrightarrow> list_all P (AList.delete k al)"
  by (induction al) auto

lemma arc_drop_used:
  assumes "ledger_inv l" and "map_of (lg_live l) c = Some (bytes, refs)" and "refs \<le> 1"
  shows "lg_used (fst (arc_drop l c)) + bytes = lg_used l"
proof -
  from assms(1,2) have le: "bytes \<le> lg_used l"
    using live_bytes_delete [of "lg_live l" c bytes refs] by (simp add: ledger_inv_def live_bytes_def)
  then have eq: "lg_used l + 2 ^ 64 - bytes = (lg_used l - bytes) + 2 ^ 64" by simp
  from assms(1) have "lg_used l \<le> u64_max"
    by (auto simp: ledger_inv_def)
  then have "lg_used l - bytes < 2 ^ 64"
    by (simp add: u64_max_def)
  then have "(lg_used l + 2 ^ 64 - bytes) mod 2 ^ 64 = lg_used l - bytes"
    by (simp only: eq mod_add_self2 mod_less)
  then have "lg_used (charge_drop l bytes) = lg_used l - bytes"
    by (simp only: charge_drop_def) simp
  with le show ?thesis
    using assms(2,3) by (simp add: arc_drop_def)
qed

lemma ledger_inv_drop [inv_intros]:
  assumes "ledger_inv l"
  shows "ledger_inv (fst (arc_drop l c))"
proof (cases "map_of (lg_live l) c")
  case None
  with assms show ?thesis by (simp add: arc_drop_def)
next
  case (Some br)
  obtain bytes refs where br: "br = (bytes, refs)" by fastforce
  with Some have m: "map_of (lg_live l) c = Some (bytes, refs)" by simp
  show ?thesis
  proof (cases "refs \<le> 1")
    case True
    let ?l = "fst (arc_drop l c)"
    have used: "lg_used ?l + bytes = lg_used l"
      using assms m True by (rule arc_drop_used)
    have live: "lg_live ?l = AList.delete c (lg_live l)" and same: "lg_cap ?l = lg_cap l"
      "lg_next ?l = lg_next l"
      using m True by (simp_all add: arc_drop_def charge_drop_def)
    have "live_bytes ?l + bytes = lg_used l"
      using live_bytes_delete [OF _ m] assms live by (simp add: ledger_inv_def live_bytes_def)
    with used have "lg_used ?l = live_bytes ?l" by simp
    with assms used show ?thesis
      by (auto simp: ledger_inv_def live same intro: list_all_delete_live distinct_delete)
  next
    case False
    then have "1 \<le> refs - 1" by simp
    with assms m False show ?thesis
      by (simp add: arc_drop_def ledger_inv_refs)
  qed
qed

lemma arc_drop_cap [simp]: "lg_cap (fst (arc_drop l c)) = lg_cap l"
  by (auto simp: arc_drop_def charge_drop_def split: option.splits)

lemma arc_clone_simps [simp]:
  "lg_cap (arc_clone l c) = lg_cap l" "lg_used (arc_clone l c) = lg_used l"
  by (auto simp: arc_clone_def split: option.splits)

text \<open>With every charge dropped the counter is back at zero: the budget leaks nothing.\<close>

lemma ledger_empty: "ledger_inv l \<Longrightarrow> lg_live l = [] \<Longrightarrow> lg_used l = 0"
  by (simp add: ledger_inv_def live_bytes_def)

end
