(* ===== verification/Page_Stash.thy ===== *)
theory Page_Stash
  imports Tab_Stash
begin

text \<open>
  The sealed state of one sleeping tab (second half of
  \<^verbatim>\<open>src/apps/chuzz/src/tab_stash.rs\<close>): form state, session buckets, the page stash with its restore
  check, and the paint preview. Every \<open>seal\<close> takes the budget ledger and returns it: a sealed
  value holds exactly one charge, a refused one holds none. The locale \<open>charge_budget\<close> is the
  contract these operations and the tab lifecycle rely on; it is interpreted on the ledger.
\<close>

section \<open>The budget contract\<close>

datatype budget_op = Take nat | Give nat

locale charge_budget =
  fixes inv :: "'l \<Rightarrow> bool"
    and take_charge :: "'l \<Rightarrow> nat \<Rightarrow> str + (nat \<times> 'l)"
    and give_back :: "'l \<Rightarrow> nat \<Rightarrow> 'l"
    and used :: "'l \<Rightarrow> nat"
    and cap :: "'l \<Rightarrow> nat"
  assumes inv_cap: "inv l \<Longrightarrow> used l \<le> cap l"
    and take_inv: "inv l \<Longrightarrow> take_charge l n = Inr (c, l') \<Longrightarrow> inv l'"
    and take_used: "take_charge l n = Inr (c, l') \<Longrightarrow> used l' = used l + n \<and> cap l' = cap l"
    and take_refused: "inv l \<Longrightarrow> take_charge l n = Inl e \<Longrightarrow> cap l < used l + n"
    and give_inv: "inv l \<Longrightarrow> inv (give_back l c)"
    and give_cap: "cap (give_back l c) = cap l"
begin

definition budget_step :: "'l \<Rightarrow> budget_op \<Rightarrow> 'l" where
  "budget_step l x =
     (case x of
        Take n \<Rightarrow> (case take_charge l n of Inl e \<Rightarrow> l | Inr (c, l') \<Rightarrow> l')
      | Give c \<Rightarrow> give_back l c)"

lemma budget_step_inv: "inv l \<Longrightarrow> inv (budget_step l x)"
  by (auto simp: budget_step_def intro: take_inv give_inv split: budget_op.splits sum.splits)

lemma budget_step_cap: "cap (budget_step l x) = cap l"
  by (auto simp: budget_step_def give_cap take_used split: budget_op.splits sum.splits)

lemma budget_run: "inv l \<Longrightarrow> inv (foldl budget_step l ops) \<and> cap (foldl budget_step l ops) = cap l"
  by (induction ops arbitrary: l) (auto simp: budget_step_inv budget_step_cap)

lemma budget_run_within_cap: "inv l \<Longrightarrow> used (foldl budget_step l ops) \<le> cap l"
  using budget_run [of l ops] inv_cap [of "foldl budget_step l ops"] by simp

end

interpretation stash_budget: charge_budget ledger_inv reserve "\<lambda>l c. fst (arc_drop l c)" lg_used lg_cap
proof unfold_locales
  fix l n c l'
  show "ledger_inv l \<Longrightarrow> reserve l n = Inr (c, l') \<Longrightarrow> ledger_inv l'"
    by (rule ledger_inv_reserve)
next
  fix l n e
  assume "ledger_inv l" "reserve l n = Inl e"
  then show "lg_cap l < lg_used l + n"
    by (auto simp: reserve_iff ledger_inv_def split: if_splits)
qed (auto simp: reserve_iff intro: ledger_inv_drop ledger_inv_cap split: if_splits)

section \<open>Sizes the compiler chooses\<close>

record layout =
  sz_form_state :: nat
  sz_session_pair :: nat
  sz_session_bucket :: nat
  sz_page_stash :: nat
  sz_paint_snapshot :: nat
  sz_tab_state :: nat
  sz_request :: nat

definition arc_header :: nat where
  "arc_header = 2 * 8"

section \<open>Form state\<close>

datatype field_kind = FieldText | FieldTextarea | FieldCheckbox | FieldRadio | FieldSelect

record form_locator =
  fl_form :: text_buf
  fl_field :: text_buf
  fl_action :: text_buf
  fl_kind :: field_kind

record form_state =
  fs_locator :: form_locator
  fs_value :: text_buf
  fs_checked :: bool
  fs_selection :: "(nat \<times> nat) option"

definition form_bytes :: "form_state \<Rightarrow> nat" where
  "form_bytes f =
     text_bytes (fl_form (fs_locator f)) + text_bytes (fl_field (fs_locator f))
     + text_bytes (fl_action (fs_locator f)) + text_bytes (fs_value f)"

definition zeroize_form :: "form_state \<Rightarrow> form_state" where
  "zeroize_form f = f\<lparr>
     fs_locator := (fs_locator f)\<lparr>fl_form := zeroize_text (fl_form (fs_locator f)),
        fl_field := zeroize_text (fl_field (fs_locator f)),
        fl_action := zeroize_text (fl_action (fs_locator f))\<rparr>,
     fs_value := zeroize_text (fs_value f), fs_checked := False, fs_selection := None\<rparr>"

text \<open>\<open>scrub_origin\<close> empties the scheme and the host and zeroes the port.\<close>

fun scrub_origin :: "origin \<Rightarrow> origin" where
  "scrub_origin (Opaque n) = Opaque n"
| "scrub_origin (Tuple scheme host port) = Tuple [] [] 0"

section \<open>Session buckets\<close>

record session_pair =
  sp_key :: text_buf
  sp_value :: text_buf

definition zeroize_pair :: "session_pair \<Rightarrow> session_pair" where
  "zeroize_pair p = p\<lparr>sp_key := zeroize_text (sp_key p), sp_value := zeroize_text (sp_value p)\<rparr>"

record session_bucket =
  sb_origin :: origin
  sb_pairs :: "session_pair list"
  sb_capacity :: nat
  sb_charge :: nat

definition pair_bytes :: "session_pair \<Rightarrow> nat" where
  "pair_bytes p = text_bytes (sp_key p) + text_bytes (sp_value p)"

definition is_tuple :: "origin \<Rightarrow> bool" where
  "is_tuple o' = (case o' of Tuple _ _ _ \<Rightarrow> True | Opaque _ \<Rightarrow> False)"

definition bucket_seal ::
  "layout \<Rightarrow> ledger \<Rightarrow> origin \<Rightarrow> session_pair list \<Rightarrow> nat \<Rightarrow> ledger \<times> (str + session_bucket)" where
  "bucket_seal lay l org pairs capacity =
     (if \<not> is_tuple org \<or> 256 < length pairs
         \<or> list_ex (\<lambda>p. 2048 < text_bytes (sp_key p) \<or> 8 * 1024 < text_bytes (sp_value p)) pairs
      then (l, Inl (S ''stash-session-budget''))
      else
        (let bytes = capacity * sz_session_pair lay + sum_list (map pair_bytes pairs)
         in if 32 * 1024 < bytes then (l, Inl (S ''stash-session-budget''))
            else case reserve l (bytes + sz_session_bucket lay + arc_header) of
                   Inl e \<Rightarrow> (l, Inl e)
                 | Inr (c, l') \<Rightarrow>
                     (l', Inr \<lparr>sb_origin = org, sb_pairs = pairs, sb_capacity = capacity, sb_charge = c\<rparr>)))"

definition bucket_bytes :: "layout \<Rightarrow> session_bucket \<Rightarrow> nat" where
  "bucket_bytes lay b = sb_capacity b * sz_session_pair lay + sum_list (map pair_bytes (sb_pairs b))"

definition bucket_scrub :: "session_bucket \<Rightarrow> session_bucket" where
  "bucket_scrub b = b\<lparr>sb_pairs := map zeroize_pair (sb_pairs b), sb_origin := scrub_origin (sb_origin b)\<rparr>"

text \<open>Dropping an \<open>Option<Arc<SessionBucket>>\<close>.\<close>

definition drop_bucket :: "ledger \<Rightarrow> session_bucket option \<Rightarrow> ledger" where
  "drop_bucket l b = (case b of None \<Rightarrow> l | Some s \<Rightarrow> fst (arc_drop l (sb_charge s)))"

section \<open>Page stashes\<close>

type_synonym f64 = "64 word"

record scroll_state =
  sc_x :: f64
  sc_y :: f64

record stash_location =
  loc_url :: url
  loc_entry :: nat
  loc_generation :: nat

record page_stash =
  ps_origin :: origin
  ps_route :: text_buf
  ps_entry :: nat
  ps_generation :: nat
  ps_replayable :: bool
  ps_forms :: "form_state list"
  ps_session :: "session_bucket option"
  ps_scroll :: scroll_state
  ps_charge :: nat

text \<open>
  \<open>PageStash::seal\<close>. The session bucket is moved in: when the seal is refused it is dropped.
  \<open>hint\<close> is the \<open>size_hint\<close> of the UTF-16 iterator over the URL.
\<close>

definition page_seal ::
  "layout \<Rightarrow> nat option \<Rightarrow> ledger \<Rightarrow> stash_location \<Rightarrow> bool \<Rightarrow> form_state list \<Rightarrow> nat \<Rightarrow>
   session_bucket option \<Rightarrow> scroll_state \<Rightarrow> nat \<Rightarrow> ledger \<times> (str + page_stash)" where
  "page_seal lay hint l location replayable forms forms_cap session scroll record_bytes =
     (let refuse = (\<lambda>e. (drop_bucket l session, Inl e)); u = loc_url location
      in if \<not> is_tuple (url_origin u) then refuse (S ''stash-opaque-origin'')
         else if 256 < length forms \<or> 32 * 1024 < record_bytes then refuse (S ''stash-record-budget'')
         else case text_capture (utf16 (url_str u)) hint (32 * 1024) of
                None \<Rightarrow> refuse (S ''stash-route-budget'')
              | Some route \<Rightarrow>
                  let fbytes = forms_cap * sz_form_state lay + sum_list (map form_bytes forms);
                      sbytes = (case session of None \<Rightarrow> 0 | Some b \<Rightarrow> bucket_bytes lay b)
                  in if 24 * 1024 < fbytes \<or> 32 * 1024 < sbytes
                        \<or> (case session of None \<Rightarrow> False
                           | Some b \<Rightarrow> 256 < length (sb_pairs b) \<or> sb_origin b \<noteq> url_origin u
                               \<or> list_ex (\<lambda>p. 8 * 1024 < text_bytes (sp_value p)) (sb_pairs b))
                        \<or> STATE_BYTES < fbytes + sbytes
                     then refuse (S ''stash-state-budget'')
                     else case reserve l (sz_page_stash lay + arc_header + text_bytes route
                                          + fbytes + record_bytes) of
                            Inl e \<Rightarrow> refuse e
                          | Inr (c, l') \<Rightarrow>
                              (l', Inr \<lparr>ps_origin = url_origin u, ps_route = route,
                                 ps_entry = loc_entry location, ps_generation = loc_generation location,
                                 ps_replayable = replayable, ps_forms = forms, ps_session = session,
                                 ps_scroll = scroll, ps_charge = c\<rparr>))"

definition stash_accepts :: "page_stash \<Rightarrow> url \<Rightarrow> nat \<Rightarrow> bool" where
  "stash_accepts st destination entry \<longleftrightarrow>
     ps_entry st = entry \<and> ps_origin st = url_origin destination
     \<and> txt_units (ps_route st) = utf16 (url_str destination)"

definition stash_restore :: "page_stash \<Rightarrow> url \<Rightarrow> nat \<Rightarrow> str + page_stash" where
  "stash_restore st destination entry =
     (if \<not> ps_replayable st then Inl (S ''reload-requires-resubmission'')
      else if \<not> stash_accepts st destination entry then Inl (S ''stash-origin-or-entry-mismatch'')
      else Inr st)"

text \<open>What \<open>PageStash::drop\<close> leaves of the stash itself, and dropping an \<open>Option<Arc<PageStash>>\<close>:
  the last reference gives the session bucket back as well.\<close>

definition stash_scrub :: "page_stash \<Rightarrow> page_stash" where
  "stash_scrub st = st\<lparr>ps_forms := map zeroize_form (ps_forms st),
     ps_route := zeroize_text (ps_route st), ps_origin := scrub_origin (ps_origin st)\<rparr>"

definition drop_stash :: "ledger \<Rightarrow> page_stash option \<Rightarrow> ledger" where
  "drop_stash l st =
     (case st of None \<Rightarrow> l
      | Some s \<Rightarrow>
          (case arc_drop l (ps_charge s) of
             (l', True) \<Rightarrow> drop_bucket l' (ps_session s)
           | (l', False) \<Rightarrow> l'))"

section \<open>Paint previews\<close>

record paint_snapshot =
  pt_width :: nat
  pt_height :: nat
  pt_captured_at :: nat
  pt_encoded :: owned_bytes
  pt_charge :: nat

definition paint_seal ::
  "layout \<Rightarrow> ledger \<Rightarrow> nat \<Rightarrow> nat \<Rightarrow> nat \<Rightarrow> owned_bytes \<Rightarrow> ledger \<times> (str + paint_snapshot)" where
  "paint_seal lay l width height captured_at encoded =
     (if width = 0 \<or> height = 0 \<or> 512 < width \<or> 288 < height \<or> PREVIEW_HARD < ob_allocated encoded
      then (l, Inl (S ''stash-preview-budget''))
      else case reserve l (sz_paint_snapshot lay + arc_header + ob_allocated encoded) of
             Inl e \<Rightarrow> (l, Inl e)
           | Inr (c, l') \<Rightarrow>
               (l', Inr \<lparr>pt_width = width, pt_height = height, pt_captured_at = captured_at,
                         pt_encoded = encoded, pt_charge = c\<rparr>))"

definition drop_paint :: "ledger \<Rightarrow> paint_snapshot option \<Rightarrow> ledger" where
  "drop_paint l p = (case p of None \<Rightarrow> l | Some s \<Rightarrow> fst (arc_drop l (pt_charge s)))"

section \<open>Sealing keeps the ledger\<close>

lemma ledger_inv_drop_bucket [inv_intros]: "ledger_inv l \<Longrightarrow> ledger_inv (drop_bucket l b)"
  by (auto simp: drop_bucket_def intro: ledger_inv_drop split: option.splits)

lemma ledger_inv_drop_stash [inv_intros]: "ledger_inv l \<Longrightarrow> ledger_inv (drop_stash l st)"
  using ledger_inv_drop [of l]
  by (auto simp: drop_stash_def intro!: ledger_inv_drop_bucket split: option.splits prod.splits bool.splits)
     (metis fst_conv)+

lemma ledger_inv_drop_paint [inv_intros]: "ledger_inv l \<Longrightarrow> ledger_inv (drop_paint l p)"
  by (auto simp: drop_paint_def intro: ledger_inv_drop split: option.splits)

lemma bucket_seal_inv [inv_intros]: "ledger_inv l \<Longrightarrow> ledger_inv (fst (bucket_seal lay l org pairs n))"
  by (auto simp: bucket_seal_def Let_def intro: ledger_inv_reserve split: sum.splits)

lemma page_seal_inv [inv_intros]:
  "ledger_inv l \<Longrightarrow>
   ledger_inv (fst (page_seal lay hint l location replayable forms n session scroll record_bytes))"
  by (auto simp: page_seal_def Let_def intro: ledger_inv_reserve ledger_inv_drop_bucket
      split: sum.splits option.splits)

lemma paint_seal_inv [inv_intros]: "ledger_inv l \<Longrightarrow> ledger_inv (fst (paint_seal lay l w h t e))"
  by (auto simp: paint_seal_def intro: ledger_inv_reserve split: sum.splits)

lemma bucket_seal_ok:
  assumes "bucket_seal lay l org pairs n = (l', Inr b)"
  shows "is_tuple org \<and> sb_origin b = org \<and> sb_pairs b = pairs \<and> length pairs \<le> 256
    \<and> bucket_bytes lay b \<le> 32 * 1024
    \<and> list_all (\<lambda>p. text_bytes (sp_key p) \<le> 2048 \<and> text_bytes (sp_value p) \<le> 8 * 1024) pairs
    \<and> lg_used l' = lg_used l + bucket_bytes lay b + sz_session_bucket lay + arc_header"
  using assms
  by (auto simp: bucket_seal_def Let_def bucket_bytes_def reserve_iff list_ex_iff list_all_iff
      not_less split: if_splits sum.splits)

lemma bucket_seal_refused: "bucket_seal lay l org pairs n = (l', Inl e) \<Longrightarrow> l' = l"
  by (auto simp: bucket_seal_def Let_def split: if_splits sum.splits)

lemma page_seal_refused:
  "page_seal lay hint l location replayable forms n session scroll rb = (l', Inl e) \<Longrightarrow>
   l' = drop_bucket l session"
  by (auto simp: page_seal_def Let_def split: if_splits sum.splits option.splits)

lemma page_seal_InrE:
  assumes "page_seal lay hint l location replayable forms n session scroll rb = (l', Inr st)"
  obtains route c where
    "is_tuple (url_origin (loc_url location))"
    "text_capture (utf16 (url_str (loc_url location))) hint (32 * 1024) = Some route"
    "n * sz_form_state lay + sum_list (map form_bytes forms) \<le> 24 * 1024"
    "rb \<le> 32 * 1024"
    "\<And>b. session = Some b \<Longrightarrow> sb_origin b = url_origin (loc_url location)"
    "reserve l (sz_page_stash lay + arc_header + text_bytes route
        + (n * sz_form_state lay + sum_list (map form_bytes forms)) + rb) = Inr (c, l')"
    "st = \<lparr>ps_origin = url_origin (loc_url location), ps_route = route,
       ps_entry = loc_entry location, ps_generation = loc_generation location,
       ps_replayable = replayable, ps_forms = forms, ps_session = session,
       ps_scroll = scroll, ps_charge = c\<rparr>"
  using assms
  by (auto simp: page_seal_def Let_def not_less split: if_splits sum.splits option.splits)

lemma page_seal_ok:
  assumes "page_seal lay hint l location replayable forms n session scroll rb = (l', Inr st)"
  shows "is_tuple (url_origin (loc_url location)) \<and> ps_origin st = url_origin (loc_url location)
    \<and> txt_units (ps_route st) = utf16 (url_str (loc_url location))
    \<and> ps_entry st = loc_entry location \<and> ps_replayable st = replayable
    \<and> ps_forms st = forms \<and> ps_session st = session
    \<and> (\<forall>b. session = Some b \<longrightarrow> sb_origin b = ps_origin st)"
  using assms by (elim page_seal_InrE) (auto dest: text_capture_Some)

lemma page_seal_charge:
  assumes "page_seal lay hint l location replayable forms n session scroll rb = (l', Inr st)"
  shows "lg_used l \<le> lg_used l'
    \<and> lg_used l' \<le> lg_used l + sz_page_stash lay + arc_header + 88 * 1024 \<and> lg_used l' \<le> lg_cap l"
  using assms
proof (rule page_seal_InrE)
  fix route c
  let ?f = "n * sz_form_state lay + sum_list (map form_bytes forms)"
  assume "text_capture (utf16 (url_str (loc_url location))) hint (32 * 1024) = Some route"
  then have route: "text_bytes route \<le> 32 * 1024" by (simp add: text_capture_Some)
  assume "?f \<le> 24 * 1024" "rb \<le> 32 * 1024"
    and "reserve l (sz_page_stash lay + arc_header + text_bytes route + ?f + rb) = Inr (c, l')"
  with route show ?thesis
    by (auto simp: reserve_iff split: if_splits)
qed

text \<open>
  A stash restores exactly into the document it was sealed from: the same history entry, the same
  URL, in the same origin, and only when that document can be requested again without resubmission.
\<close>

lemma stash_restore_iff:
  assumes "page_seal lay hint l location replayable forms n session scroll rb = (l', Inr st)"
    and "list_all scalar_value (url_str (loc_url location))"
    and "list_all scalar_value (url_str destination)"
  shows "stash_restore st destination entry = Inr st \<longleftrightarrow>
    replayable \<and> entry = loc_entry location \<and> url_str destination = url_str (loc_url location)
    \<and> url_origin destination = url_origin (loc_url location)"
proof -
  note ok = page_seal_ok [OF assms(1)]
  have "stash_restore st destination entry = Inr st \<longleftrightarrow> ps_replayable st \<and> stash_accepts st destination entry"
    by (simp add: stash_restore_def)
  also have "stash_accepts st destination entry \<longleftrightarrow>
      entry = loc_entry location \<and> url_origin (loc_url location) = url_origin destination
      \<and> url_str (loc_url location) = url_str destination"
    using ok utf16_inject [OF assms(2,3)] by (simp only: stash_accepts_def) blast
  finally show ?thesis
    using ok by (simp only: eq_commute [of "url_str destination"] eq_commute [of "url_origin destination"]) blast
qed

text \<open>Nothing the user typed survives the drop of a stash.\<close>

lemma stash_scrub_empty:
  "txt_units (ps_route (stash_scrub st)) = []
   \<and> list_all (\<lambda>f. txt_units (fs_value f) = [] \<and> \<not> fs_checked f \<and> fs_selection f = None
        \<and> txt_units (fl_form (fs_locator f)) = [] \<and> txt_units (fl_field (fs_locator f)) = []
        \<and> txt_units (fl_action (fs_locator f)) = []) (ps_forms (stash_scrub st))"
  by (simp add: stash_scrub_def zeroize_text_def zeroize_form_def list_all_iff)

section \<open>Properties\<close>

definition ledger_step :: "ledger \<Rightarrow> budget_op \<Rightarrow> ledger" where
  "ledger_step l x =
     (case x of
        Take n \<Rightarrow> (case reserve l n of Inl e \<Rightarrow> l | Inr (c, l') \<Rightarrow> l')
      | Give c \<Rightarrow> fst (arc_drop l c))"

lemma ledger_step_budget: "ledger_step = stash_budget.budget_step"
  by (simp add: fun_eq_iff ledger_step_def stash_budget.budget_step_def)

text \<open>
  Whatever sleeping tabs reserve and give back, in any order, the budget counter never passes its
  256 MiB cap and always equals the bytes of the charges still alive, so it neither leaks nor wraps.
\<close>

theorem sleeping_budget_bounded:
  "lg_used (foldl ledger_step default_budget ops) \<le> SLEEPING_BYTES
   \<and> lg_used (foldl ledger_step default_budget ops) = live_bytes (foldl ledger_step default_budget ops)"
proof -
  have "lg_cap default_budget = SLEEPING_BYTES" by (simp add: default_budget_def)
  moreover have "ledger_inv (foldl ledger_step default_budget ops)"
    using stash_budget.budget_run [OF ledger_inv_default] by (simp add: ledger_step_budget)
  ultimately show ?thesis
    using stash_budget.budget_run_within_cap [OF ledger_inv_default, of ops]
    by (simp add: ledger_step_budget ledger_inv_def)
qed

definition demo_layout :: layout where
  "demo_layout = \<lparr>sz_form_state = 120, sz_session_pair = 48, sz_session_bucket = 96, sz_page_stash = 200,
     sz_paint_snapshot = 64, sz_tab_state = 300, sz_request = 200\<rparr>"

definition demo_location :: stash_location where
  "demo_location = \<lparr>loc_url = demo_url (S ''a.io''), loc_entry = 3, loc_generation = 7\<rparr>"

definition demo_scroll :: scroll_state where
  "demo_scroll = \<lparr>sc_x = 0, sc_y = 0\<rparr>"

text \<open>
  A sealed page stash restores exactly into the document it was taken from: the same history
  entry with the same URL in the same origin, and only if that document can be fetched again
  without resubmitting a form.
\<close>

theorem stash_restores_same_document:
  assumes "page_seal lay hint l location replayable forms n session scroll rb = (l', Inr st)"
    and "list_all scalar_value (url_str (loc_url location))"
    and "list_all scalar_value (url_str destination)"
  shows "stash_restore st destination entry = Inr st \<longleftrightarrow>
    replayable \<and> entry = loc_entry location \<and> url_str destination = url_str (loc_url location)
    \<and> url_origin destination = url_origin (loc_url location)"
  using assms by (rule stash_restore_iff)

theorem stash_restores_same_document_witness:
  "\<exists>l' st. page_seal demo_layout None default_budget demo_location True [] 0 None demo_scroll 0 = (l', Inr st)
     \<and> stash_restore st (demo_url (S ''a.io'')) 3 = Inr st
     \<and> stash_restore st (demo_url (S ''b.io'')) 3 \<noteq> Inr st"
proof -
  let ?seal = "page_seal demo_layout None default_budget demo_location True [] 0 None demo_scroll 0"
  obtain l' st where st: "?seal = (l', Inr st)"
    by (simp add: page_seal_def demo_location_def demo_url_def is_tuple_def text_capture_def
        capture_loop_iff utf16_def utf16_char_def reserve_iff default_budget_def demo_layout_def
        text_bytes_def arc_header_def u64_max_def SLEEPING_BYTES_def STATE_BYTES_def)
  have sv: "list_all scalar_value (url_str (demo_url (S ''a.io'')))"
    "list_all scalar_value (url_str (demo_url (S ''b.io'')))"
    by (simp_all add: demo_url_def scalar_value_def)
  have loc: "loc_url demo_location = demo_url (S ''a.io'')" "loc_entry demo_location = 3"
    by (simp_all add: demo_location_def)
  from stash_restores_same_document [OF st, unfolded loc, OF sv(1) sv(1), of 3]
    stash_restores_same_document [OF st, unfolded loc, OF sv(1) sv(2), of 3] st
  show ?thesis by (auto simp: demo_url_def)
qed

text \<open>
  Sealing a page is all or nothing for the budget: a sealed stash adds at most its fixed header and
  88 KiB and stays under the cap; a refused seal holds no charge and gives back the session
  bucket that was moved into it.
\<close>

theorem page_seal_budget:
  assumes "ledger_inv l"
  shows "case page_seal lay hint l location replayable forms n session scroll rb of
      (l', Inr st) \<Rightarrow> ledger_inv l' \<and> lg_used l' \<le> lg_cap l
          \<and> lg_used l' \<le> lg_used l + sz_page_stash lay + arc_header + 88 * 1024
    | (l', Inl e) \<Rightarrow> ledger_inv l' \<and> l' = drop_bucket l session"
proof -
  obtain l' r where r: "page_seal lay hint l location replayable forms n session scroll rb = (l', r)"
    by fastforce
  moreover have "ledger_inv l'"
    using page_seal_inv [OF assms] r by (metis fst_conv)
  ultimately show ?thesis
    by (cases r) (auto dest: page_seal_charge page_seal_refused)
qed

theorem page_seal_budget_witness:
  "ledger_inv default_budget \<and>
   (case page_seal demo_layout None default_budget demo_location True [] 0 None demo_scroll 0 of
      (l', Inr st) \<Rightarrow> lg_used l' \<le> 200 + 16 + 88 * 1024 | (l', Inl e) \<Rightarrow> l' = default_budget)"
  using page_seal_budget [OF ledger_inv_default, where lay = demo_layout and hint = None and location = demo_location
        and replayable = True and forms = "[]" and n = 0 and session = None and scroll = demo_scroll and rb = 0]
    ledger_inv_default
  by (auto simp: default_budget_def demo_layout_def arc_header_def drop_bucket_def
      split: prod.splits sum.splits)

end
