(* ===== verification/Tab_Session.thy ===== *)
theory Tab_Session
  imports Page_Stash
begin

text \<open>
  The \<open>sessionStorage\<close> of one page, after \<^verbatim>\<open>src/apps/chuzz/src/tab_session.rs\<close>: a store that
  starts either empty or on a sealed bucket of a sleeping tab, copies that bucket on the first
  write, enforces the quota, and is sealed again when the tab sleeps, without the keys the page
  marked as sensitive. Every operation takes and returns the budget ledger, because taking a
  bucket apart gives its charge back. Parameters: \<open>slack\<close> says by how much the upper size hint of
  the engine's string iterator exceeds the units it yields (\<open>None\<close>: it gives no upper hint), and
  \<open>grow\<close> is the capacity a full vector gets when it is pushed to.
\<close>

section \<open>The store\<close>

record session_store =
  ss_origin :: origin
  ss_backing :: "session_bucket option"
  ss_entries :: "session_pair list"
  ss_entries_cap :: nat
  ss_sensitive :: "text_buf list"
  ss_no_stash :: bool

datatype js_value = JsUndefined | JsNull | JsNumber nat | JsString "nat list"

definition QUOTA_MESSAGE :: str where
  "QUOTA_MESSAGE = S ''sessionStorage quota exceeded''"

definition ss_pairs :: "session_store \<Rightarrow> session_pair list" where
  "ss_pairs st = (case ss_backing st of None \<Rightarrow> ss_entries st | Some b \<Rightarrow> sb_pairs b)"

definition key_is :: "nat list \<Rightarrow> session_pair \<Rightarrow> bool" where
  "key_is k p \<longleftrightarrow> txt_units (sp_key p) = k"

text \<open>The copy of one pair; \<open>None\<close> is the failed \<open>expect\<close>.\<close>

definition copy_pair :: "session_pair \<Rightarrow> session_pair option" where
  "copy_pair p =
     do { k \<leftarrow> text_capture (txt_units (sp_key p)) (Some (length (txt_units (sp_key p)))) 2048;
          v \<leftarrow> text_capture (txt_units (sp_value p)) (Some (length (txt_units (sp_value p)))) 8192;
          Some \<lparr>sp_key = k, sp_value = v\<rparr> }"

fun copy_pairs :: "session_pair list \<Rightarrow> session_pair list option" where
  "copy_pairs [] = Some []"
| "copy_pairs (p # ps) = do { q \<leftarrow> copy_pair p; qs \<leftarrow> copy_pairs ps; Some (q # qs) }"

definition sole_owner :: "ledger \<Rightarrow> session_bucket \<Rightarrow> bool" where
  "sole_owner l b = (case map_of (lg_live l) (sb_charge b) of Some (bytes, refs) \<Rightarrow> refs = 1 | None \<Rightarrow> False)"

definition make_mut :: "ledger \<Rightarrow> session_store \<Rightarrow> (ledger \<times> session_store) option" where
  "make_mut l st =
     (case ss_backing st of
        None \<Rightarrow> Some (l, st)
      | Some b \<Rightarrow>
          if sole_owner l b
          then Some (fst (arc_drop l (sb_charge b)),
                 st\<lparr>ss_backing := None, ss_entries := sb_pairs b, ss_entries_cap := sb_capacity b\<rparr>)
          else do { ps \<leftarrow> copy_pairs (sb_pairs b);
                    Some (fst (arc_drop l (sb_charge b)),
                      st\<lparr>ss_backing := None, ss_entries := ps, ss_entries_cap := length ps\<rparr>) })"

definition capture_store ::
  "layout \<Rightarrow> ledger \<Rightarrow> session_store \<Rightarrow> (ledger \<times> session_store \<times> session_bucket option) option" where
  "capture_store lay l st =
     (if ss_no_stash st
      then Some (drop_bucket l (ss_backing st), st\<lparr>ss_backing := None, ss_entries := []\<rparr>, None)
      else if ss_sensitive st = [] \<and> ss_backing st \<noteq> None
      then Some (l, st\<lparr>ss_backing := None\<rparr>, ss_backing st)
      else do { (l1, st1) \<leftarrow> make_mut l st;
                let kept = filter (\<lambda>p. \<not> list_ex (\<lambda>k. txt_units k = txt_units (sp_key p)) (ss_sensitive st1))
                             (ss_entries st1);
                case bucket_seal lay l1 (ss_origin st1) kept (ss_entries_cap st1) of
                  (l2, res) \<Rightarrow>
                    Some (l2, st1\<lparr>ss_entries := [], ss_entries_cap := 0\<rparr>,
                          (case res of Inl _ \<Rightarrow> None | Inr b \<Rightarrow> Some b)) })"

section \<open>The operations the page calls\<close>

definition set_entry ::
  "(nat \<Rightarrow> nat) \<Rightarrow> session_store \<Rightarrow> text_buf \<Rightarrow> text_buf \<Rightarrow> str + session_store" where
  "set_entry grow st key value =
     (let entries = ss_entries st;
          bytes = sum_list (map pair_bytes (filter (\<lambda>p. \<not> key_is (txt_units key) p) entries));
          replacing = position (key_is (txt_units key)) entries;
          pair = \<lparr>sp_key = key, sp_value = value\<rparr>
      in if 24 * 1024 < bytes + text_bytes key + text_bytes value
            \<or> replacing = None \<and> 256 \<le> length entries
         then Inl QUOTA_MESSAGE
         else case replacing of
                Some i \<Rightarrow> Inr (st\<lparr>ss_entries := entries[i := pair]\<rparr>)
              | None \<Rightarrow> Inr (st\<lparr>ss_entries := entries @ [pair],
                    ss_entries_cap := (if length entries < ss_entries_cap st then ss_entries_cap st
                                       else grow (ss_entries_cap st))\<rparr>))"

definition remove_entry :: "session_store \<Rightarrow> nat list \<Rightarrow> session_store" where
  "remove_entry st key = st\<lparr>ss_entries := filter (\<lambda>p. \<not> key_is key p) (ss_entries st)\<rparr>"

definition mark_sensitive :: "session_store \<Rightarrow> text_buf \<Rightarrow> session_store" where
  "mark_sensitive st key =
     (if list_ex (\<lambda>old. txt_units old = txt_units key) (ss_sensitive st) then st
      else if 256 \<le> length (ss_sensitive st) then st\<lparr>ss_no_stash := True\<rparr>
      else st\<lparr>ss_sensitive := ss_sensitive st @ [key]\<rparr>)"

definition js_hint :: "(nat list \<Rightarrow> nat option) \<Rightarrow> nat list \<Rightarrow> nat option" where
  "js_hint slack units = map_option (\<lambda>d. length units + d) (slack units)"

text \<open>
  The native entry point \<open>session\<close>, with the arguments already converted by the engine: operation
  code, index, key units and value units. The outer \<open>option\<close> is a panic, the sum a thrown
  \<open>RangeError\<close>.
\<close>

definition session ::
  "(nat list \<Rightarrow> nat option) \<Rightarrow> (nat \<Rightarrow> nat) \<Rightarrow> nat \<Rightarrow> nat \<Rightarrow> nat list \<Rightarrow> nat list \<Rightarrow>
   ledger \<Rightarrow> session_store \<Rightarrow> ((str + js_value) \<times> ledger \<times> session_store) option" where
  "session slack grow op index key_units value_units l st =
     (if op = 0 then Some (Inr (JsNumber (length (ss_pairs st))), l, st)
      else if op = 1 then
        Some (Inr (if index < length (ss_pairs st)
                   then JsString (txt_units (sp_key (ss_pairs st ! index))) else JsNull), l, st)
      else if op = 5 then
        Some (Inr JsUndefined, drop_bucket l (ss_backing st), st\<lparr>ss_backing := None, ss_entries := []\<rparr>)
      else case text_capture key_units (js_hint slack key_units) 2048 of
        None \<Rightarrow> Some (Inl QUOTA_MESSAGE, l, st)
      | Some key \<Rightarrow>
          if op = 2 then
            Some (Inr (case find (key_is (txt_units key)) (ss_pairs st) of
                         Some p \<Rightarrow> JsString (txt_units (sp_value p)) | None \<Rightarrow> JsNull), l, st)
          else if op = 3 then
            (case text_capture value_units (js_hint slack value_units) 8192 of
               None \<Rightarrow> Some (Inl QUOTA_MESSAGE, l, st)
             | Some value \<Rightarrow>
                 do { (l1, st1) \<leftarrow> make_mut l st;
                      case set_entry grow st1 key value of
                        Inl e \<Rightarrow> Some (Inl e, l1, st1)
                      | Inr st2 \<Rightarrow> Some (Inr JsUndefined, l1, st2) })
          else if op = 6 then Some (Inr JsUndefined, l, mark_sensitive st key)
          else do { (l1, st1) \<leftarrow> make_mut l st;
                    Some (Inr JsUndefined, l1, remove_entry st1 (txt_units key)) })"

definition install_store :: "origin \<Rightarrow> session_bucket option \<Rightarrow> session_store" where
  "install_store org backing =
     \<lparr>ss_origin = org, ss_backing = backing, ss_entries = [], ss_entries_cap = 0,
      ss_sensitive = [], ss_no_stash = False\<rparr>"

section \<open>Invariant\<close>

definition text_ok :: "nat \<Rightarrow> text_buf \<Rightarrow> bool" where
  "text_ok limit t \<longleftrightarrow> length (txt_units t) \<le> txt_capacity t \<and> text_bytes t \<le> limit"

definition pairs_ok :: "session_pair list \<Rightarrow> bool" where
  "pairs_ok ps \<longleftrightarrow>
     distinct (map (\<lambda>p. txt_units (sp_key p)) ps) \<and> length ps \<le> 256
     \<and> sum_list (map pair_bytes ps) \<le> 24 * 1024
     \<and> list_all (\<lambda>p. text_ok 2048 (sp_key p) \<and> text_ok 8192 (sp_value p)) ps"

definition store_inv :: "session_store \<Rightarrow> bool" where
  "store_inv st \<longleftrightarrow> pairs_ok (ss_pairs st) \<and> length (ss_sensitive st) \<le> 256"

text \<open>What the page can read: the association of key units with value units.\<close>

definition pair_units :: "session_pair \<Rightarrow> nat list \<times> nat list" where
  "pair_units p = (txt_units (sp_key p), txt_units (sp_value p))"

definition content :: "session_store \<Rightarrow> nat list \<rightharpoonup> nat list" where
  "content st = map_of (map pair_units (ss_pairs st))"

lemma text_capture_ok: "text_capture us h limit = Some t \<Longrightarrow> text_ok limit t"
  using text_capture_Some [of us h limit t] by (simp add: text_ok_def)

lemma content_find:
  "content st k = map_option (\<lambda>p. txt_units (sp_value p)) (find (key_is k) (ss_pairs st))"
proof -
  have "map_of (map pair_units ps) k = map_option (\<lambda>p. txt_units (sp_value p)) (find (key_is k) ps)" for ps
    by (induction ps) (auto simp: pair_units_def key_is_def)
  then show ?thesis by (simp add: content_def)
qed

lemma copy_pair_ok:
  assumes "text_ok 2048 (sp_key p)" and "text_ok 8192 (sp_value p)"
  shows "\<exists>q. copy_pair p = Some q \<and> pair_units q = pair_units p \<and> pair_bytes q \<le> pair_bytes p
     \<and> text_ok 2048 (sp_key q) \<and> text_ok 8192 (sp_value q)"
  using assms
  by (auto simp: copy_pair_def text_capture_def capture_loop_iff text_ok_def pair_units_def
      pair_bytes_def text_bytes_def Let_def)

lemma copy_pairs_ok:
  "list_all (\<lambda>p. text_ok 2048 (sp_key p) \<and> text_ok 8192 (sp_value p)) ps \<Longrightarrow>
   \<exists>qs. copy_pairs ps = Some qs \<and> map pair_units qs = map pair_units ps
     \<and> sum_list (map pair_bytes qs) \<le> sum_list (map pair_bytes ps)
     \<and> list_all (\<lambda>p. text_ok 2048 (sp_key p) \<and> text_ok 8192 (sp_value p)) qs"
proof (induction ps)
  case (Cons p ps)
  then obtain qs where "copy_pairs ps = Some qs" "map pair_units qs = map pair_units ps"
    "sum_list (map pair_bytes qs) \<le> sum_list (map pair_bytes ps)"
    "list_all (\<lambda>p. text_ok 2048 (sp_key p) \<and> text_ok 8192 (sp_value p)) qs"
    by auto
  moreover obtain q where "copy_pair p = Some q" "pair_units q = pair_units p"
    "pair_bytes q \<le> pair_bytes p" "text_ok 2048 (sp_key q)" "text_ok 8192 (sp_value q)"
    using Cons.prems copy_pair_ok [of p] by auto
  ultimately show ?case by simp
qed simp

lemma pairs_ok_keys: "pairs_ok ps \<longleftrightarrow>
     distinct (map fst (map pair_units ps)) \<and> length ps \<le> 256
     \<and> sum_list (map pair_bytes ps) \<le> 24 * 1024
     \<and> list_all (\<lambda>p. text_ok 2048 (sp_key p) \<and> text_ok 8192 (sp_value p)) ps"
  by (simp add: pairs_ok_def pair_units_def comp_def)

lemma pairs_ok_copy:
  assumes "pairs_ok ps" and "copy_pairs ps = Some qs"
  shows "pairs_ok qs \<and> map pair_units qs = map pair_units ps"
proof -
  from assms(1) have "list_all (\<lambda>p. text_ok 2048 (sp_key p) \<and> text_ok 8192 (sp_value p)) ps"
    by (simp add: pairs_ok_def)
  from copy_pairs_ok [OF this] assms(2) have q: "map pair_units qs = map pair_units ps"
    "sum_list (map pair_bytes qs) \<le> sum_list (map pair_bytes ps)"
    "list_all (\<lambda>p. text_ok 2048 (sp_key p) \<and> text_ok 8192 (sp_value p)) qs"
    by auto
  then have "length qs = length ps" by (metis length_map)
  with assms(1) q show ?thesis by (simp add: pairs_ok_keys del: map_map)
qed

lemma make_mut_total: "store_inv st \<Longrightarrow> make_mut l st \<noteq> None"
  using copy_pairs_ok
  by (fastforce simp: make_mut_def store_inv_def ss_pairs_def pairs_ok_def split: option.splits)

lemma make_mut_ok:
  assumes "store_inv st" and "make_mut l st = Some (l', st')"
  shows "store_inv st' \<and> content st' = content st \<and> ss_backing st' = None
    \<and> ss_sensitive st' = ss_sensitive st \<and> ss_no_stash st' = ss_no_stash st \<and> ss_origin st' = ss_origin st"
proof (cases "ss_backing st")
  case None
  with assms show ?thesis by (simp add: make_mut_def)
next
  case (Some b)
  show ?thesis
  proof (cases "sole_owner l b")
    case True
    with Some assms show ?thesis
      by (auto simp: make_mut_def store_inv_def content_def ss_pairs_def)
  next
    case False
    with Some assms(2) obtain qs where "copy_pairs (sb_pairs b) = Some qs"
      and st': "st' = st\<lparr>ss_backing := None, ss_entries := qs, ss_entries_cap := length qs\<rparr>"
      by (auto simp: make_mut_def split: bind_splits)
    with pairs_ok_copy [of "sb_pairs b" qs] assms(1) Some show ?thesis
      by (auto simp: store_inv_def content_def ss_pairs_def)
  qed
qed

lemma make_mut_ledger: "ledger_inv l \<Longrightarrow> make_mut l st = Some (l', st') \<Longrightarrow> ledger_inv l'"
  by (auto simp: make_mut_def intro: ledger_inv_drop split: option.splits if_splits bind_splits)

section \<open>Writing\<close>

lemma key_is_units: "key_is k p \<longleftrightarrow> fst (pair_units p) = k"
  by (simp add: key_is_def pair_units_def)

lemma replace_units:
  "position (key_is k) ps = Some i \<Longrightarrow> fst (pair_units q) = k \<Longrightarrow>
   map fst (map pair_units (ps[i := q])) = map fst (map pair_units ps)
   \<and> map_of (map pair_units (ps[i := q])) = (map_of (map pair_units ps))(k \<mapsto> snd (pair_units q))"
proof (induction ps arbitrary: i)
  case (Cons p ps)
  show ?case
  proof (cases "key_is k p")
    case True
    with Cons.prems show ?thesis
      by (cases "pair_units p"; cases "pair_units q") (auto simp: key_is_units)
  next
    case False
    with Cons.prems(1) obtain j where "i = Suc j" "position (key_is k) ps = Some j" by auto
    note ih = Cons.IH [OF \<open>position (key_is k) ps = Some j\<close> Cons.prems(2)]
    from False have "fst (pair_units p) \<noteq> k" by (simp add: key_is_units)
    with ih \<open>i = Suc j\<close> show ?thesis
      by (cases "pair_units p") (auto simp: fun_upd_twist)
  qed
qed simp

lemma sum_others:
  "distinct (map fst (map pair_units ps)) \<Longrightarrow> i < length ps \<Longrightarrow> key_is k (ps ! i) \<Longrightarrow>
   sum_list (map pair_bytes ps)
     = sum_list (map pair_bytes (filter (\<lambda>p. \<not> key_is k p) ps)) + pair_bytes (ps ! i)"
proof (induction ps arbitrary: i)
  case (Cons p ps)
  show ?case
  proof (cases i)
    case 0
    with Cons.prems have "key_is k p" "\<forall>q\<in>set ps. \<not> key_is k q"
      by (auto simp: key_is_units rev_image_eqI)
    with 0 show ?thesis by simp
  next
    case (Suc j)
    with Cons.prems have "\<not> key_is k p"
      by (force simp: key_is_units)
    with Suc Cons.IH [of j] Cons.prems show ?thesis by simp
  qed
qed simp

lemma others_update:
  "position (key_is k) ps = Some i \<Longrightarrow> key_is k q \<Longrightarrow>
   filter (\<lambda>p. \<not> key_is k p) (ps[i := q]) = filter (\<lambda>p. \<not> key_is k p) ps"
  by (induction ps arbitrary: i) (auto split: if_splits nat.splits)

lemma filter_absent: "position (key_is k) ps = None \<Longrightarrow> filter (\<lambda>p. \<not> key_is k p) ps = ps"
  by (simp add: position_None)

lemma set_entry_ok:
  assumes inv: "pairs_ok (ss_entries st)" and b: "ss_backing st = None"
    and k: "text_ok 2048 key" and v: "text_ok 8192 value"
    and set: "set_entry grow st key value = Inr st'"
  shows "pairs_ok (ss_entries st') \<and> ss_backing st' = None
    \<and> content st' = (content st)(txt_units key \<mapsto> txt_units value)"
proof -
  let ?ps = "ss_entries st" and ?q = "\<lparr>sp_key = key, sp_value = value\<rparr>"
  let ?P = "\<lambda>p. text_ok 2048 (sp_key p) \<and> text_ok 8192 (sp_value p)"
  have q: "fst (pair_units ?q) = txt_units key" "snd (pair_units ?q) = txt_units value"
    "key_is (txt_units key) ?q" "pair_bytes ?q = text_bytes key + text_bytes value" "?P ?q"
    using k v by (simp_all add: pair_units_def key_is_def pair_bytes_def)
  from set have room: "sum_list (map pair_bytes (filter (\<lambda>p. \<not> key_is (txt_units key) p) ?ps))
      + pair_bytes ?q \<le> 24 * 1024"
    by (auto simp: set_entry_def Let_def q split: if_splits)
  show ?thesis
  proof (cases "position (key_is (txt_units key)) ?ps")
    case None
    with set have st': "ss_entries st' = ?ps @ [?q]" "ss_backing st' = None" "length ?ps < 256"
      using b by (auto simp: set_entry_def Let_def split: if_splits)
    from None have new: "txt_units key \<notin> fst ` set (map pair_units ?ps)"
      by (auto simp: position_None key_is_units)
    from None room have "sum_list (map pair_bytes (?ps @ [?q])) \<le> 24 * 1024"
      by (simp add: filter_absent)
    with inv st' new q have "pairs_ok (?ps @ [?q])"
      by (auto simp: pairs_ok_keys simp del: map_map)
    moreover have "map_of (map pair_units (?ps @ [?q])) = (map_of (map pair_units ?ps))(txt_units key \<mapsto> txt_units value)"
    proof -
      have "map_of (map pair_units ?ps) (txt_units key) = None"
        using new by (simp add: map_of_eq_None_iff)
      then show ?thesis
        by (cases "pair_units ?q") (use q in \<open>auto simp: map_add_def fun_eq_iff split: option.splits\<close>)
    qed
    ultimately show ?thesis
      using st' b by (simp add: content_def ss_pairs_def)
  next
    case (Some i)
    with set have st': "ss_entries st' = ?ps[i := ?q]" "ss_backing st' = None"
      using b by (auto simp: set_entry_def Let_def split: if_splits)
    have i: "i < length ?ps" using position_SomeD [OF Some] by simp
    note ru = replace_units [OF Some q(1)]
    have "distinct (map fst (map pair_units (?ps[i := ?q])))"
      using ru inv by (simp add: pairs_ok_keys del: map_map)
    from sum_others [OF this, of i "txt_units key"] i q(3) room
    have "sum_list (map pair_bytes (?ps[i := ?q])) \<le> 24 * 1024"
      by (simp add: others_update [OF Some q(3)])
    moreover have "list_all ?P (?ps[i := ?q])"
      using inv q(5) by (auto simp: pairs_ok_def list_all_iff dest!: set_update_subset_insert [THEN subsetD])
    ultimately have "pairs_ok (?ps[i := ?q])"
      using inv \<open>distinct _\<close> by (simp add: pairs_ok_keys del: map_map)
    with st' b ru q(2) show ?thesis by (simp add: content_def ss_pairs_def del: map_map)
  qed
qed

lemma sum_filter_le: "sum_list (map (f :: 'a \<Rightarrow> nat) (filter p xs)) \<le> sum_list (map f xs)"
  by (induction xs) auto

lemma pairs_ok_filter: "pairs_ok ps \<Longrightarrow> pairs_ok (filter p ps)"
  by (auto simp: pairs_ok_def distinct_map_filter list_all_iff
      intro: le_trans [OF length_filter_le] le_trans [OF sum_filter_le])

lemma content_filter:
  "map_of (map pair_units (filter (\<lambda>p. \<not> key_is k p) ps)) = (map_of (map pair_units ps))(k := None)"
  by (induction ps) (auto simp: pair_units_def key_is_def)

lemma remove_entry_ok:
  assumes "pairs_ok (ss_entries st)" and "ss_backing st = None"
  shows "pairs_ok (ss_entries (remove_entry st k)) \<and> content (remove_entry st k) = (content st)(k := None)"
  using assms by (simp add: remove_entry_def content_def ss_pairs_def pairs_ok_filter content_filter)

section \<open>The contract of a storage area\<close>

text \<open>
  What a page may rely on: each operation keeps the invariant, a read sees the last write, a
  refused write changes nothing that can be read.
\<close>

locale storage_area =
  fixes ok :: "'s \<Rightarrow> bool"
    and item :: "'s \<Rightarrow> nat list \<Rightarrow> nat list option"
    and set_item :: "'s \<Rightarrow> nat list \<Rightarrow> nat list \<Rightarrow> 's \<times> bool"
    and remove_item :: "'s \<Rightarrow> nat list \<Rightarrow> 's"
  assumes set_ok: "ok s \<Longrightarrow> ok (fst (set_item s k v))"
    and set_item_written: "ok s \<Longrightarrow> snd (set_item s k v) \<Longrightarrow> item (fst (set_item s k v)) = (item s)(k \<mapsto> v)"
    and set_item_refused: "ok s \<Longrightarrow> \<not> snd (set_item s k v) \<Longrightarrow> item (fst (set_item s k v)) = item s"
    and remove_ok: "ok s \<Longrightarrow> ok (remove_item s k)"
    and remove_item_item: "ok s \<Longrightarrow> item (remove_item s k) = (item s)(k := None)"
begin

lemma read_your_write: "ok s \<Longrightarrow> snd (set_item s k v) \<Longrightarrow> item (fst (set_item s k v)) k = Some v"
  by (simp add: set_item_written)

lemma last_write_wins:
  assumes "ok s" and "snd (set_item s k v)" and "snd (set_item (fst (set_item s k v)) k w)"
  shows "item (fst (set_item (fst (set_item s k v)) k w)) = (item s)(k \<mapsto> w)"
  using assms by (simp add: set_ok set_item_written)

lemma remove_after_set:
  assumes "ok s"
  shows "item (remove_item (fst (set_item s k v)) k) = (item s)(k := None)"
  using assms by (cases "snd (set_item s k v)")
    (simp_all add: set_ok set_item_written set_item_refused remove_item_item)

end

definition set_item ::
  "(nat list \<Rightarrow> nat option) \<Rightarrow> (nat \<Rightarrow> nat) \<Rightarrow> ledger \<times> session_store \<Rightarrow> nat list \<Rightarrow> nat list
   \<Rightarrow> (ledger \<times> session_store) \<times> bool" where
  "set_item slack grow s k v =
     (case session slack grow 3 0 k v (fst s) (snd s) of
        Some (Inr _, s') \<Rightarrow> (s', True) | Some (Inl _, s') \<Rightarrow> (s', False) | None \<Rightarrow> (s, False))"

definition get_item :: "(nat list \<Rightarrow> nat option) \<Rightarrow> (nat \<Rightarrow> nat) \<Rightarrow> ledger \<times> session_store \<Rightarrow> nat list \<Rightarrow> js_value" where
  "get_item slack grow s k =
     (case session slack grow 2 0 k [] (fst s) (snd s) of Some (Inr v, _) \<Rightarrow> v | _ \<Rightarrow> JsUndefined)"

definition remove_item ::
  "(nat list \<Rightarrow> nat option) \<Rightarrow> (nat \<Rightarrow> nat) \<Rightarrow> ledger \<times> session_store \<Rightarrow> nat list \<Rightarrow> ledger \<times> session_store" where
  "remove_item slack grow s k =
     (case session slack grow 4 0 k [] (fst s) (snd s) of Some (_, s') \<Rightarrow> s' | None \<Rightarrow> s)"

definition session_inv :: "ledger \<times> session_store \<Rightarrow> bool" where
  "session_inv s \<longleftrightarrow> store_inv (snd s) \<and> ledger_inv (fst s)"

lemma js_capture:
  "text_capture us (js_hint slack us) limit =
     (if length us \<le> limit div 2
      then Some \<lparr>txt_units = us, txt_capacity = min (case js_hint slack us of Some h \<Rightarrow> h | None \<Rightarrow> limit div 2) (limit div 2)\<rparr>
      else None)"
  by (auto simp: text_capture_def Let_def capture_loop_iff js_hint_def split: option.splits)

lemma store_inv_entries: "ss_backing st = None \<Longrightarrow>
    store_inv st \<longleftrightarrow> pairs_ok (ss_entries st) \<and> length (ss_sensitive st) \<le> 256"
  by (simp add: store_inv_def ss_pairs_def)

lemma set_entry_frame: "set_entry grow st key value = Inr st' \<Longrightarrow> ss_sensitive st' = ss_sensitive st"
  by (auto simp: set_entry_def Let_def split: if_splits option.splits)

lemma oversized_key_absent:
  assumes "store_inv st" and "1024 < length k"
  shows "content st k = None"
proof -
  have "\<not> key_is k p" if "p \<in> set (ss_pairs st)" for p
    using that assms by (auto simp: store_inv_def pairs_ok_def list_all_iff text_ok_def text_bytes_def key_is_def)
  then show ?thesis by (simp add: content_find find_None_set)
qed

lemma set_item_spec:
  assumes "session_inv s"
  shows "session_inv (fst (set_item slack grow s k v)) \<and>
    content (snd (fst (set_item slack grow s k v))) =
      (if snd (set_item slack grow s k v) then (content (snd s))(k \<mapsto> v) else content (snd s))"
proof (cases "text_capture k (js_hint slack k) 2048")
  case None
  with assms show ?thesis by (simp add: set_item_def session_def)
next
  case (Some key)
  then have key: "text_ok 2048 key" "txt_units key = k"
    by (auto dest: text_capture_ok text_capture_Some)
  show ?thesis
  proof (cases "text_capture v (js_hint slack v) 8192")
    case None
    with Some assms show ?thesis by (simp add: set_item_def session_def)
  next
    case (Some val)
    then have val: "text_ok 8192 val" "txt_units val = v"
      by (auto dest: text_capture_ok text_capture_Some)
    obtain l1 st1 where mm: "make_mut (fst s) (snd s) = Some (l1, st1)"
      using make_mut_total assms by (metis not_None_eq old.prod.exhaust session_inv_def)
    have ok1: "store_inv st1" "content st1 = content (snd s)" "ss_backing st1 = None" "ledger_inv l1"
      using make_mut_ok [OF _ mm] make_mut_ledger [OF _ mm] assms by (auto simp: session_inv_def)
    show ?thesis
    proof (cases "set_entry grow st1 key val")
      case (Inl e)
      with mm ok1 Some \<open>text_capture k _ _ = Some key\<close> assms show ?thesis
        by (simp add: set_item_def session_def session_inv_def)
    next
      case (Inr st2)
      have "pairs_ok (ss_entries st1)"
        using ok1 by (simp add: store_inv_entries)
      from set_entry_ok [OF this ok1(3) key(1) val(1) Inr]
      have "store_inv st2" "content st2 = (content st1)(k \<mapsto> v)"
        using ok1 set_entry_frame [OF Inr] key val by (auto simp: store_inv_entries)
      with mm ok1 Some Inr \<open>text_capture k _ _ = Some key\<close> assms show ?thesis
        by (simp add: set_item_def session_def session_inv_def)
    qed
  qed
qed

lemma remove_item_spec:
  assumes "session_inv s"
  shows "session_inv (remove_item slack grow s k) \<and>
    content (snd (remove_item slack grow s k)) = (content (snd s))(k := None)"
proof (cases "1024 < length k")
  case True
  then have "content (snd s) k = None"
    using assms oversized_key_absent by (simp add: session_inv_def)
  with True assms show ?thesis
    by (auto simp: remove_item_def session_def js_capture fun_upd_idem)
next
  case False
  obtain l1 st1 where mm: "make_mut (fst s) (snd s) = Some (l1, st1)"
    using make_mut_total assms by (metis not_None_eq old.prod.exhaust session_inv_def)
  have ok1: "store_inv st1" "content st1 = content (snd s)" "ss_backing st1 = None" "ledger_inv l1"
    using make_mut_ok [OF _ mm] make_mut_ledger [OF _ mm] assms by (auto simp: session_inv_def)
  then have "pairs_ok (ss_entries st1)" by (simp add: store_inv_entries)
  from remove_entry_ok [OF this ok1(3), of k] ok1
  have "store_inv (remove_entry st1 k)" "content (remove_entry st1 k) = (content (snd s))(k := None)"
    by (simp_all add: store_inv_def ss_pairs_def remove_entry_def)
  with mm ok1 False show ?thesis
    by (simp add: remove_item_def session_def js_capture session_inv_def)
qed

interpretation page_storage: storage_area session_inv "\<lambda>s. content (snd s)"
    "set_item slack grow" "remove_item slack grow" for slack grow
  by unfold_locales (simp_all add: set_item_spec remove_item_spec)

lemma get_item_content:
  assumes "length k \<le> 1024"
  shows "get_item slack grow s k =
    (case content (snd s) k of Some v \<Rightarrow> JsString v | None \<Rightarrow> JsNull)"
  using assms by (simp add: get_item_def session_def js_capture content_find split: option.splits)

section \<open>Sealing the store\<close>

lemma bucket_seal_pairs: "bucket_seal lay l org pairs n = (l', Inr b) \<Longrightarrow> sb_pairs b = pairs \<and> sb_origin b = org"
  by (auto dest: bucket_seal_ok)

text \<open>No key the page marked sensitive, and nothing once too many were marked, reaches a bucket.\<close>

lemma capture_store_sensitive:
  assumes "store_inv st" and "capture_store lay l st = Some (l', st', Some b)"
  shows "\<not> ss_no_stash st \<and> (\<forall>k\<in>set (ss_sensitive st). \<forall>p\<in>set (sb_pairs b). txt_units (sp_key p) \<noteq> txt_units k)"
proof (cases "ss_no_stash st \<or> ss_sensitive st = [] \<and> ss_backing st \<noteq> None")
  case True
  with assms(2) show ?thesis by (auto simp: capture_store_def split: if_splits)
next
  case False
  with assms(2) obtain l1 st1 where mm: "make_mut l st = Some (l1, st1)"
    and seal: "bucket_seal lay l1 (ss_origin st1)
        (filter (\<lambda>p. \<not> list_ex (\<lambda>k. txt_units k = txt_units (sp_key p)) (ss_sensitive st1)) (ss_entries st1))
        (ss_entries_cap st1) = (l', Inr b)"
    by (auto simp: capture_store_def Let_def split: if_splits prod.splits sum.splits bind_splits)
  have "ss_sensitive st1 = ss_sensitive st"
    using make_mut_ok [OF assms(1) mm] by simp
  with bucket_seal_pairs [OF seal] False show ?thesis
    by (auto simp: list_ex_iff)
qed

lemma capture_store_content:
  assumes "store_inv st" and "capture_store lay l st = Some (l', st', Some b)"
    and "k \<notin> (\<lambda>t. txt_units t) ` set (ss_sensitive st)"
  shows "map_of (map pair_units (sb_pairs b)) k = content st k"
proof (cases "ss_no_stash st \<or> ss_sensitive st = [] \<and> ss_backing st \<noteq> None")
  case True
  with assms(2) show ?thesis by (auto simp: capture_store_def content_def ss_pairs_def split: if_splits)
next
  case False
  let ?keep = "\<lambda>st1 p. \<not> list_ex (\<lambda>k. txt_units k = txt_units (sp_key p)) (ss_sensitive st1)"
  from False assms(2) obtain l1 st1 where mm: "make_mut l st = Some (l1, st1)"
    and seal: "bucket_seal lay l1 (ss_origin st1) (filter (?keep st1) (ss_entries st1))
        (ss_entries_cap st1) = (l', Inr b)"
    by (auto simp: capture_store_def Let_def split: if_splits prod.splits sum.splits bind_splits)
  note ok = make_mut_ok [OF assms(1) mm]
  have sens: "\<forall>t\<in>set (ss_sensitive st1). txt_units t \<noteq> k"
    using assms(3) ok by auto
  have "map_of (map pair_units (filter (?keep st1) ps)) k = map_of (map pair_units ps) k" for ps
    by (induction ps) (use sens in \<open>auto simp: pair_units_def list_ex_iff\<close>)
  then have "map_of (map pair_units (sb_pairs b)) k = map_of (map pair_units (ss_entries st1)) k"
    using bucket_seal_pairs [OF seal] by simp
  also have "\<dots> = content st1 k"
    using ok by (simp add: content_def ss_pairs_def)
  finally show ?thesis using ok by simp
qed

section \<open>Properties\<close>

lemma store_inv_sensitive: "store_inv st \<Longrightarrow> store_inv (mark_sensitive st key)"
  by (cases "ss_backing st") (auto simp: store_inv_def mark_sensitive_def ss_pairs_def)

lemma session_total:
  assumes "session_inv (l, st)"
  shows "\<exists>r l' st'. session slack grow op i k v l st = Some (r, l', st') \<and> session_inv (l', st')"
proof -
  have mm: "make_mut l st \<noteq> None" and li: "ledger_inv l" and si: "store_inv st"
    using make_mut_total assms by (auto simp: session_inv_def)
  consider "op = 0 \<or> op = 1 \<or> op = 2" | "op = 5" | "op = 6" | "op = 3" | "\<not> (op = 0 \<or> op = 1 \<or> op = 2) \<and> op \<noteq> 5 \<and> op \<noteq> 6 \<and> op \<noteq> 3" by blast
  then show ?thesis
  proof cases
    case 1
    with assms show ?thesis by (auto simp: session_def js_capture)
  next
    case 2
    with li si show ?thesis
      by (auto simp: session_def session_inv_def store_inv_def ss_pairs_def pairs_ok_def
          intro: ledger_inv_drop_bucket)
  next
    case 3
    with assms show ?thesis
      by (auto simp: session_def js_capture session_inv_def store_inv_sensitive)
  next
    case 4
    have "session slack grow 3 0 k v l st \<noteq> None"
      using mm by (auto simp: session_def js_capture split: sum.splits)
    moreover have "session slack grow op i k v l st = session slack grow 3 0 k v l st"
      using 4 by (simp add: session_def)
    ultimately show ?thesis
      using set_item_spec [OF assms, of slack grow k v]
      by (auto simp: set_item_def split: sum.splits)
  next
    case 5
    have "session slack grow 4 0 k v l st \<noteq> None"
      using mm by (auto simp: session_def js_capture)
    moreover have "session slack grow op i k v l st = session slack grow 4 0 k [] l st"
      "session slack grow 4 0 k [] l st = session slack grow 4 0 k v l st"
      using 5 by (auto simp: session_def split: option.splits)
    ultimately show ?thesis
      using remove_item_spec [OF assms, of slack grow k]
      by (auto simp: remove_item_def)
  qed
qed

definition demo_store :: session_store where
  "demo_store = install_store (Tuple (S ''https'') (S ''a.io'') 443) None"

lemma session_inv_demo: "session_inv (default_budget, demo_store)"
  by (simp add: session_inv_def store_inv_def demo_store_def install_store_def ss_pairs_def pairs_ok_def
      ledger_inv_default)

text \<open>
  Whatever native call the page's script makes on its session storage, in whatever state the
  calls before it left it, the call returns (no \<open>expect\<close> fires, even when a bucket still shared
  with a sleeping tab has to be copied) and the store stays within its quota of 256 items and
  24 KiB with distinct keys, and the budget ledger stays sound.
\<close>

theorem session_call_safe:
  assumes "session_inv (l, st)"
  shows "\<exists>r l' st'. session slack grow op i k v l st = Some (r, l', st') \<and> session_inv (l', st')
    \<and> length (ss_pairs st') \<le> 256 \<and> sum_list (map pair_bytes (ss_pairs st')) \<le> 24 * 1024
    \<and> distinct (map (\<lambda>p. txt_units (sp_key p)) (ss_pairs st'))"
  using session_total [OF assms, of slack grow op i k v]
  by (auto simp: session_inv_def store_inv_def pairs_ok_def)

theorem session_call_safe_witness:
  "session_inv (default_budget, demo_store) \<and>
   (\<exists>r l' st'. session (\<lambda>_. None) (\<lambda>n. n + 4) 3 0 [107] [118] default_budget demo_store = Some (r, l', st')
      \<and> session_inv (l', st'))"
  using session_call_safe [OF session_inv_demo, of "\<lambda>_. None" "\<lambda>n. n + 4" 3 0 "[107]" "[118]"] session_inv_demo
  by blast

text \<open>
  Session storage behaves as a map: an accepted \<open>setItem\<close> is what \<open>getItem\<close> returns next and no
  other item changes; a refused one changes no item; \<open>removeItem\<close> removes exactly its key.
\<close>

theorem session_storage_map:
  assumes "session_inv s" and "length k \<le> 1024" and "length k' \<le> 1024" and "k' \<noteq> k"
  shows "(snd (set_item slack grow s k v) \<longrightarrow> get_item slack grow (fst (set_item slack grow s k v)) k = JsString v)
    \<and> (\<not> snd (set_item slack grow s k v) \<longrightarrow>
         get_item slack grow (fst (set_item slack grow s k v)) k = get_item slack grow s k)
    \<and> get_item slack grow (fst (set_item slack grow s k v)) k' = get_item slack grow s k'
    \<and> get_item slack grow (remove_item slack grow s k) k = JsNull
    \<and> get_item slack grow (remove_item slack grow s k) k' = get_item slack grow s k'"
  using assms page_storage.set_item_written [OF assms(1), of slack grow k v]
    page_storage.set_item_refused [OF assms(1), of slack grow k v]
    page_storage.remove_item_item [OF assms(1), of slack grow k]
  by (cases "snd (set_item slack grow s k v)") (simp_all add: get_item_content)

theorem session_storage_map_witness:
  "get_item (\<lambda>_. None) (\<lambda>n. n + 4)
     (fst (set_item (\<lambda>_. None) (\<lambda>n. n + 4) (default_budget, demo_store) [107] [118])) [107] = JsString [118]"
proof -
  have "snd (set_item (\<lambda>_. None) (\<lambda>n. n + 4) (default_budget, demo_store) [107] [118])"
    by (simp add: set_item_def session_def text_capture_def capture_loop_iff demo_store_def
        install_store_def make_mut_def set_entry_def text_bytes_def js_hint_def Let_def)
  with session_storage_map [OF session_inv_demo, of "[107]" "[108]" "\<lambda>_. None" "\<lambda>n. n + 4" "[118]"]
  show ?thesis by simp
qed

text \<open>
  A key the page marked sensitive never reaches the bucket a sleeping tab keeps, a page that marked
  more keys than the store records leaves no bucket at all, and every other item is sealed as the
  page would have read it.
\<close>

theorem sensitive_never_sealed:
  assumes "store_inv st" and "capture_store lay l st = Some (l', st', Some b)"
  shows "\<not> ss_no_stash st
    \<and> (\<forall>k\<in>set (ss_sensitive st). \<forall>p\<in>set (sb_pairs b). txt_units (sp_key p) \<noteq> txt_units k)
    \<and> (\<forall>k. k \<notin> txt_units ` set (ss_sensitive st) \<longrightarrow> map_of (map pair_units (sb_pairs b)) k = content st k)"
  using capture_store_sensitive [OF assms] capture_store_content [OF assms] by blast

definition demo_pair :: "nat \<Rightarrow> session_pair" where
  "demo_pair n = \<lparr>sp_key = \<lparr>txt_units = [n], txt_capacity = 1\<rparr>, sp_value = \<lparr>txt_units = [118], txt_capacity = 1\<rparr>\<rparr>"

theorem sensitive_never_sealed_witness:
  "\<exists>l' st' b. capture_store demo_layout default_budget
      (demo_store\<lparr>ss_entries := [demo_pair 107, demo_pair 108], ss_entries_cap := 4,
         ss_sensitive := [sp_key (demo_pair 107)]\<rparr>) = Some (l', st', Some b)
    \<and> (\<forall>p\<in>set (sb_pairs b). txt_units (sp_key p) \<noteq> [107])"
proof -
  let ?st = "demo_store\<lparr>ss_entries := [demo_pair 107, demo_pair 108], ss_entries_cap := 4,
         ss_sensitive := [sp_key (demo_pair 107)]\<rparr>"
  have inv: "store_inv ?st"
    by (simp add: store_inv_def ss_pairs_def demo_store_def install_store_def pairs_ok_def demo_pair_def
        text_ok_def text_bytes_def pair_bytes_def)
  obtain l' st' b where c: "capture_store demo_layout default_budget ?st = Some (l', st', Some b)"
    by (simp add: capture_store_def demo_store_def install_store_def make_mut_def demo_pair_def
        bucket_seal_def is_tuple_def text_bytes_def pair_bytes_def reserve_iff default_budget_def
        demo_layout_def arc_header_def u64_max_def SLEEPING_BYTES_def)
  from sensitive_never_sealed [OF inv c] c show ?thesis by (auto simp: demo_pair_def)
qed

end
