(* ===== verification/Tab_Native.thy ===== *)
theory Tab_Native
  imports Page_Stash
begin

text \<open>
  What a tab keeps of its rendering and its forms when it goes to sleep, after
  \<^verbatim>\<open>src/apps/chuzz/src/tab_native.rs\<close>: the run-length code of the preview with its decoder, the
  capture of form fields under a byte budget, and the search for the one saved field that
  matches. The document and the rasteriser are outside the repository: a node is the record of
  what the code reads from it, a rendering is its width, height and pixels. The outer \<open>option\<close>
  of a result is a panic.
\<close>

section \<open>The preview code\<close>

definition le16 :: "nat \<Rightarrow> bytes" where
  "le16 n = [of_nat (n mod 256), of_nat (n div 256)]"

definition un_le16 :: "byte \<Rightarrow> byte \<Rightarrow> nat" where
  "un_le16 a b = unat a + 256 * unat b"

text \<open>The inner loop: how many further pixels equal the first. \<open>rest\<close> starts at \<open>index\<close>.\<close>

function run_loop :: "bytes \<Rightarrow> bytes \<Rightarrow> nat \<Rightarrow> nat" where
  "run_loop rest pixel run =
     (if run < 65535 \<and> (run + 1) * 4 \<le> length rest \<and> take 4 (drop (run * 4) rest) = pixel
      then run_loop rest pixel (run + 1) else run)"
  by pat_completeness auto
termination
  by (relation "measure (\<lambda>(rest, pixel, run). 65535 - run)") auto

declare run_loop.simps [simp del]

lemma run_loop_ge: "run \<le> run_loop rest pixel run"
proof (induction rest pixel run rule: run_loop.induct)
  case (1 rest pixel run)
  then show ?case by (subst run_loop.simps) (auto simp: Suc_le_eq intro: order.strict_implies_order)
qed

text \<open>The outer loop. The inner result is \<open>None\<close> when the code stops because the next run would
  pass the target size.\<close>

function encode_runs :: "bytes \<Rightarrow> owned_bytes \<Rightarrow> owned_bytes option option" where
  "encode_runs rest out =
     (if rest = [] then Some (Some out)
      else if length rest < 4 then None
      else
        (let pixel = take 4 rest; run = run_loop rest pixel 1
         in if PREVIEW_TARGET < length (ob_bytes out) + 6 then Some None
            else case ob_extend out (le16 run) of
                   None \<Rightarrow> None
                 | Some o1 \<Rightarrow>
                     (case ob_extend o1 pixel of
                        None \<Rightarrow> None
                      | Some o2 \<Rightarrow> encode_runs (drop (run * 4) rest) o2)))"
  by pat_completeness auto
termination
proof (relation "measure (\<lambda>(rest, out). length rest)", goal_cases)
  case (2 rest out pixel run o1 o2)
  then have "1 \<le> run" using run_loop_ge [of 1 rest pixel] by simp
  with 2 show ?case by simp
qed simp

declare encode_runs.simps [simp del]

text \<open>\<open>capture_paint\<close>: at most four renderings, each at half the scale of the one before.\<close>

fun paint_attempts ::
  "layout \<Rightarrow> ledger \<Rightarrow> nat \<Rightarrow> (nat \<times> nat \<times> bytes) list \<Rightarrow> (ledger \<times> paint_snapshot option) option" where
  "paint_attempts lay l now [] = Some (l, None)"
| "paint_attempts lay l now ((width, height, pixels) # renders) =
     (case encode_runs pixels \<lparr>ob_bytes = [], ob_capacity = PREVIEW_TARGET\<rparr> of
        None \<Rightarrow> None
      | Some None \<Rightarrow> paint_attempts lay l now renders
      | Some (Some out) \<Rightarrow>
          (case paint_seal lay l width height now out of
             (l', Inl _) \<Rightarrow> Some (l', None)
           | (l', Inr p) \<Rightarrow> Some (l', Some p)))"

definition capture_paint ::
  "layout \<Rightarrow> ledger \<Rightarrow> nat \<Rightarrow> bool \<Rightarrow> nat \<Rightarrow> nat \<Rightarrow> (nat \<times> nat \<times> bytes) list
   \<Rightarrow> (ledger \<times> paint_snapshot option) option" where
  "capture_paint lay l now disabled view_width view_height renders =
     (if disabled \<or> view_width = 0 \<or> view_height = 0 then Some (l, None)
      else paint_attempts lay l now (take 4 renders))"

text \<open>\<open>show_preview\<close>: the decoder. The inner \<open>None\<close> is the answer \<open>false\<close>.\<close>

fun extend_times :: "nat \<Rightarrow> bytes \<Rightarrow> owned_bytes \<Rightarrow> owned_bytes option" where
  "extend_times 0 pixel b = Some b"
| "extend_times (Suc n) pixel b =
     (case ob_extend b pixel of None \<Rightarrow> None | Some b' \<Rightarrow> extend_times n pixel b')"

fun decode_runs :: "nat \<Rightarrow> bytes \<Rightarrow> owned_bytes \<Rightarrow> owned_bytes option option" where
  "decode_runs len (a # b # p # q # r # s # rest) decoded =
     (let count = un_le16 a b
      in if len < saturating_add (length (ob_bytes decoded)) (count * 4) then Some None
         else case extend_times count [p, q, r, s] decoded of
                None \<Rightarrow> None | Some d \<Rightarrow> decode_runs len rest d)"
| "decode_runs len short decoded = Some (Some decoded)"

definition show_preview :: "paint_snapshot \<Rightarrow> bytes option option" where
  "show_preview paint =
     (let len = pt_width paint * pt_height paint * 4
      in case decode_runs len (ob_bytes (pt_encoded paint)) \<lparr>ob_bytes = [], ob_capacity = len\<rparr> of
           None \<Rightarrow> None
         | Some None \<Rightarrow> Some None
         | Some (Some decoded) \<Rightarrow>
             Some (if length (ob_bytes decoded) = len then Some (ob_bytes decoded) else None))"

section \<open>Form capture\<close>

text \<open>One node of the document as \<open>capture_forms\<close> reads it.\<close>

record field_obs =
  fo_sensitive :: bool
  fo_in_document :: bool
  fo_kind :: "field_kind option"
  fo_identity :: "(str \<times> str \<times> str) option"
  fo_element :: bool
  fo_select_value :: str
  fo_editor :: "str option"
  fo_value_attr :: "str option"
  fo_checked :: "bool option"

text \<open>\<open>protected\<close>, with \<open>slack\<close> the excess of the UTF-16 iterator's upper size hint.\<close>

definition protected :: "(str \<Rightarrow> nat option) \<Rightarrow> str \<Rightarrow> text_buf option" where
  "protected slack value =
     text_capture (utf16 value) (map_option (\<lambda>d. length (utf16 value) + d) (slack value)) 4096"

definition equals_text :: "text_buf \<Rightarrow> str \<Rightarrow> bool" where
  "equals_text t value \<longleftrightarrow> txt_units t = utf16 value"

definition field_value :: "(str \<Rightarrow> nat option) \<Rightarrow> field_kind \<Rightarrow> field_obs \<Rightarrow> text_buf option" where
  "field_value slack kind n =
     (if kind = FieldSelect then protected slack (fo_select_value n)
      else case fo_editor n of
             Some t \<Rightarrow> text_capture (utf16 t) None 4096
           | None \<Rightarrow> protected slack (case fo_value_attr n of Some v \<Rightarrow> v | None \<Rightarrow> []))"

definition field_form :: "(str \<Rightarrow> nat option) \<Rightarrow> field_obs \<Rightarrow> form_state option" where
  "field_form slack n =
     (if fo_sensitive n \<or> \<not> fo_in_document n then None
      else do {
        kind \<leftarrow> fo_kind n;
        (form, field, action) \<leftarrow> fo_identity n;
        if fo_element n then do {
          f \<leftarrow> protected slack form;
          i \<leftarrow> protected slack field;
          a \<leftarrow> protected slack action;
          v \<leftarrow> field_value slack kind n;
          Some \<lparr>fs_locator = \<lparr>fl_form = f, fl_field = i, fl_action = a, fl_kind = kind\<rparr>,
                fs_value = v, fs_checked = (case fo_checked n of Some c \<Rightarrow> c | None \<Rightarrow> False),
                fs_selection = None\<rparr> }
        else None })"

fun capture_forms_loop ::
  "layout \<Rightarrow> (str \<Rightarrow> nat option) \<Rightarrow> nat \<Rightarrow> form_state list \<Rightarrow> field_obs list \<Rightarrow> form_state list" where
  "capture_forms_loop lay slack bytes forms [] = forms"
| "capture_forms_loop lay slack bytes forms (n # nodes) =
     (case field_form slack n of
        None \<Rightarrow> capture_forms_loop lay slack bytes forms nodes
      | Some f \<Rightarrow>
          (let bytes' = bytes + form_bytes f + sz_form_state lay
           in if 24 * 1024 < bytes' \<or> 256 \<le> length forms then forms
              else capture_forms_loop lay slack bytes' (forms @ [f]) nodes))"

definition capture_forms :: "layout \<Rightarrow> (str \<Rightarrow> nat option) \<Rightarrow> field_obs list \<Rightarrow> form_state list" where
  "capture_forms lay slack nodes = capture_forms_loop lay slack 0 [] nodes"

text \<open>The capacity of the vector those pushes leave, where \<open>grow\<close> is the growth of a full vector.\<close>

fun pushed_capacity :: "(nat \<Rightarrow> nat) \<Rightarrow> nat \<Rightarrow> nat \<Rightarrow> nat \<Rightarrow> nat" where
  "pushed_capacity grow cap len 0 = cap"
| "pushed_capacity grow cap len (Suc n) =
     pushed_capacity grow (if len < cap then cap else grow cap) (Suc len) n"

text \<open>The saved field a node gets back: there has to be exactly one with its kind and locator.\<close>

definition restore_match :: "form_state list \<Rightarrow> field_kind \<Rightarrow> str \<Rightarrow> str \<Rightarrow> str \<Rightarrow> form_state option" where
  "restore_match saved kind form field action =
     (case filter (\<lambda>s. fl_kind (fs_locator s) = kind \<and> equals_text (fl_form (fs_locator s)) form
                \<and> equals_text (fl_field (fs_locator s)) field
                \<and> equals_text (fl_action (fs_locator s)) action) saved of
        [s] \<Rightarrow> Some s | _ \<Rightarrow> None)"

section \<open>The preview code is lossless\<close>

lemma run_loop_run:
  assumes "length pixel = 4" and "take (run * 4) rest = concat (replicate run pixel)"
    and "run \<le> 65535" and "run * 4 \<le> length rest"
  shows "take (run_loop rest pixel run * 4) rest = concat (replicate (run_loop rest pixel run) pixel)
    \<and> run_loop rest pixel run \<le> 65535 \<and> run_loop rest pixel run * 4 \<le> length rest"
  using assms
proof (induction rest pixel run rule: run_loop.induct)
  case (1 rest pixel run)
  show ?case
  proof (cases "run < 65535 \<and> (run + 1) * 4 \<le> length rest \<and> take 4 (drop (run * 4) rest) = pixel")
    case True
    have "take ((run + 1) * 4) rest = take (run * 4) rest @ take 4 (drop (run * 4) rest)"
      by (metis add.commute mult.commute mult_Suc_right Suc_eq_plus1 take_add)
    also have "\<dots> = concat (replicate (run + 1) pixel)"
      using True "1.prems"(2) by (simp add: replicate_append_same [symmetric])
    finally have "take ((run + 1) * 4) rest = concat (replicate (run + 1) pixel)" .
    with "1.IH" [OF True] "1.prems"(1) True show ?thesis
      by (subst (1 2 3 4) run_loop.simps) auto
  next
    case False
    then have "run_loop rest pixel run = run" by (subst run_loop.simps) auto
    with "1.prems" show ?thesis by simp
  qed
qed

lemma un_le16_le16: "n \<le> 65535 \<Longrightarrow> le16 n = [a, b] \<Longrightarrow> un_le16 a b = n"
  by (auto simp: le16_def un_le16_def unat_of_nat take_bit_eq_mod)

lemma extend_times_ok:
  "length (ob_bytes b) + n * length pixel \<le> ob_capacity b \<Longrightarrow>
   extend_times n pixel b = Some (b\<lparr>ob_bytes := ob_bytes b @ concat (replicate n pixel)\<rparr>)"
  by (induction n arbitrary: b) (auto simp: ob_extend_def)

lemma encode_runs_step:
  assumes "rest \<noteq> []" and "4 \<le> length rest" and "length (ob_bytes out) + 6 \<le> PREVIEW_TARGET"
    and "PREVIEW_TARGET \<le> ob_capacity out"
  shows "encode_runs rest out =
    encode_runs (drop (run_loop rest (take 4 rest) 1 * 4) rest)
      (out\<lparr>ob_bytes := ob_bytes out @ le16 (run_loop rest (take 4 rest) 1) @ take 4 rest\<rparr>)"
  using assms by (subst encode_runs.simps) (simp add: ob_extend_def le16_def Let_def)

lemma encode_runs_cases:
  "PREVIEW_TARGET \<le> ob_capacity out \<Longrightarrow>
   encode_runs rest out =
     (if rest = [] then Some (Some out) else if length rest < 4 then None
      else if PREVIEW_TARGET < length (ob_bytes out) + 6 then Some None
      else encode_runs (drop (run_loop rest (take 4 rest) 1 * 4) rest)
        (out\<lparr>ob_bytes := ob_bytes out @ le16 (run_loop rest (take 4 rest) 1) @ take 4 rest\<rparr>))"
proof (cases "rest = [] \<or> length rest < 4 \<or> PREVIEW_TARGET < length (ob_bytes out) + 6")
  case True
  then show ?thesis by (subst encode_runs.simps) (auto simp: Let_def)
next
  case False
  moreover assume "PREVIEW_TARGET \<le> ob_capacity out"
  ultimately show ?thesis by (subst encode_runs_step) auto
qed

lemma first_run:
  assumes "4 \<le> length rest"
  shows "take (run_loop rest (take 4 rest) 1 * 4) rest = concat (replicate (run_loop rest (take 4 rest) 1) (take 4 rest))
    \<and> run_loop rest (take 4 rest) 1 \<le> 65535 \<and> run_loop rest (take 4 rest) 1 * 4 \<le> length rest
    \<and> 1 \<le> run_loop rest (take 4 rest) 1"
  using run_loop_run [of "take 4 rest" 1 rest] run_loop_ge [of 1 rest "take 4 rest"] assms by simp

lemma first_run_shorter:
  assumes "4 \<le> length rest"
  shows "length (drop (run_loop rest (take 4 rest) 1 * 4) rest) < length rest"
proof -
  have "1 \<le> run_loop rest (take 4 rest) 1" using first_run [OF assms] by blast
  with assms show ?thesis by simp
qed

lemma decode_run:
  assumes "length pixel = 4" and "n \<le> 65535" and "length (ob_bytes d) + n * 4 \<le> len" and "ob_capacity d = len"
  shows "decode_runs len (le16 n @ pixel @ code) d
    = decode_runs len code (d\<lparr>ob_bytes := ob_bytes d @ concat (replicate n pixel)\<rparr>)"
proof -
  from assms(1) obtain p q r s where px: "pixel = [p, q, r, s]"
    by (auto simp: length_Suc_conv numeral_eq_Suc)
  obtain a b where ab: "le16 n = [a, b]" by (simp add: le16_def)
  with un_le16_le16 [OF assms(2)] have "un_le16 a b = n" by simp
  moreover have "extend_times n pixel d = Some (d\<lparr>ob_bytes := ob_bytes d @ concat (replicate n pixel)\<rparr>)"
    using assms by (intro extend_times_ok) simp
  moreover have "\<not> len < saturating_add (length (ob_bytes d)) (n * 4)"
    using assms(3) by (auto simp: saturating_add_def)
  ultimately show ?thesis
    by (simp add: ab px)
qed

lemma encode_decode:
  assumes "encode_runs rest out = Some (Some out')" and "PREVIEW_TARGET \<le> ob_capacity out"
  shows "\<exists>code. ob_bytes out' = ob_bytes out @ code \<and> ob_capacity out' = ob_capacity out
    \<and> (\<forall>len d. length (ob_bytes d) + length rest \<le> len \<and> ob_capacity d = len \<longrightarrow>
         decode_runs len code d = Some (Some (d\<lparr>ob_bytes := ob_bytes d @ rest\<rparr>)))"
  using assms
proof (induction "length rest" arbitrary: rest out rule: less_induct)
  case less
  show ?case
  proof (cases "rest = []")
    case True
    with less.prems show ?thesis by (auto simp: encode_runs.simps)
  next
    case False
    let ?n = "run_loop rest (take 4 rest) 1" and ?px = "take 4 rest"
    let ?out1 = "out\<lparr>ob_bytes := ob_bytes out @ le16 ?n @ ?px\<rparr>"
    from False less.prems have len4: "4 \<le> length rest"
      and nxt: "encode_runs (drop (?n * 4) rest) ?out1 = Some (Some out')"
      by (auto simp: encode_runs_cases [of out rest] split: if_splits)
    note fr = first_run [OF len4]
    have "length (drop (?n * 4) rest) < length rest"
      by (rule first_run_shorter [OF len4])
    from less.hyps [OF this nxt] less.prems(2) obtain code where
      code: "ob_bytes out' = ob_bytes ?out1 @ code" "ob_capacity out' = ob_capacity out"
      and dec: "\<And>len d. length (ob_bytes d) + length (drop (?n * 4) rest) \<le> len \<Longrightarrow> ob_capacity d = len \<Longrightarrow>
        decode_runs len code d = Some (Some (d\<lparr>ob_bytes := ob_bytes d @ drop (?n * 4) rest\<rparr>))"
      by auto
    have "decode_runs len (le16 ?n @ ?px @ code) d = Some (Some (d\<lparr>ob_bytes := ob_bytes d @ rest\<rparr>))"
      if "length (ob_bytes d) + length rest \<le> len" "ob_capacity d = len" for len d
    proof -
      let ?d1 = "d\<lparr>ob_bytes := ob_bytes d @ concat (replicate ?n ?px)\<rparr>"
      have cl: "length (concat (replicate ?n ?px)) = ?n * 4"
        using len4 by (simp add: length_concat sum_list_replicate)
      have "decode_runs len (le16 ?n @ ?px @ code) d = decode_runs len code ?d1"
        using fr len4 that by (intro decode_run) auto
      also have "\<dots> = Some (Some (?d1\<lparr>ob_bytes := ob_bytes ?d1 @ drop (?n * 4) rest\<rparr>))"
        using that fr cl by (intro dec) auto
      finally have "decode_runs len (le16 ?n @ ?px @ code) d
          = Some (Some (d\<lparr>ob_bytes := ob_bytes d @ concat (replicate ?n ?px) @ drop (?n * 4) rest\<rparr>))"
        by simp
      moreover have "concat (replicate ?n ?px) @ drop (?n * 4) rest = rest"
        using fr by (metis append_take_drop_id)
      ultimately show ?thesis by (simp only:)
    qed
    with code show ?thesis by (intro exI [of _ "le16 ?n @ ?px @ code"]) simp
  qed
qed

lemma encode_runs_total:
  assumes "length rest mod 4 = 0" and "PREVIEW_TARGET \<le> ob_capacity out"
  shows "encode_runs rest out \<noteq> None"
  using assms
proof (induction "length rest" arbitrary: rest out rule: less_induct)
  case less
  show ?case
  proof (cases "rest = [] \<or> PREVIEW_TARGET < length (ob_bytes out) + 6 \<and> 4 \<le> length rest")
    case True
    with less.prems show ?thesis by (auto simp: encode_runs_cases [of out rest])
  next
    case False
    with less.prems(1) have len4: "4 \<le> length rest"
      by (metis dvd_imp_le length_greater_0_conv mod_0_imp_dvd)
    let ?n = "run_loop rest (take 4 rest) 1"
    note fr = first_run [OF len4]
    have "length (drop (?n * 4) rest) mod 4 = 0"
      using less.prems(1) fr by (simp add: mod_eq_0_iff_dvd dvd_diff_nat)
    moreover have "length (drop (?n * 4) rest) < length rest"
      by (rule first_run_shorter [OF len4])
    ultimately show ?thesis
      using False less.prems(2) len4 less.hyps by (simp add: encode_runs_cases [of out rest])
  qed
qed

lemma encode_runs_size:
  "encode_runs rest out = Some (Some out') \<Longrightarrow> length (ob_bytes out) \<le> PREVIEW_TARGET \<Longrightarrow>
   PREVIEW_TARGET \<le> ob_capacity out \<Longrightarrow> length (ob_bytes out') \<le> PREVIEW_TARGET"
proof (induction "length rest" arbitrary: rest out rule: less_induct)
  case less
  show ?case
  proof (cases "rest = []")
    case True
    with less.prems show ?thesis by (auto simp: encode_runs.simps)
  next
    case False
    let ?n = "run_loop rest (take 4 rest) 1"
    from False less.prems have len4: "4 \<le> length rest" and room: "length (ob_bytes out) + 6 \<le> PREVIEW_TARGET"
      and nxt: "encode_runs (drop (?n * 4) rest)
         (out\<lparr>ob_bytes := ob_bytes out @ le16 ?n @ take 4 rest\<rparr>) = Some (Some out')"
      by (auto simp: encode_runs_cases [of out rest] split: if_splits)
    have "length (drop (?n * 4) rest) < length rest"
      by (rule first_run_shorter [OF len4])
    from less.hyps [OF this nxt] room less.prems(3) len4 show ?thesis
      by (simp add: le16_def)
  qed
qed

lemma paint_attempts_round_trip:
  assumes "paint_attempts lay l now renders = Some (l', Some paint)"
  shows "\<exists>width height pixels. (width, height, pixels) \<in> set renders
    \<and> pt_width paint = width \<and> pt_height paint = height
    \<and> (length pixels = width * height * 4 \<longrightarrow> show_preview paint = Some (Some pixels))
    \<and> length (ob_bytes (pt_encoded paint)) \<le> PREVIEW_TARGET"
  using assms
proof (induction lay l now renders rule: paint_attempts.induct)
  case (2 lay l now width height pixels renders)
  let ?buf = "\<lparr>ob_bytes = [], ob_capacity = PREVIEW_TARGET\<rparr>"
  show ?case
  proof (cases "encode_runs pixels ?buf")
    case None
    with "2.prems" show ?thesis by simp
  next
    case (Some r)
    show ?thesis
    proof (cases r)
      case None
      with Some "2.prems" "2.IH" show ?thesis by auto
    next
      case (Some out)
      with \<open>encode_runs pixels ?buf = Some r\<close> have enc: "encode_runs pixels ?buf = Some (Some out)" by simp
      with "2.prems" have p: "pt_width paint = width" "pt_height paint = height" "pt_encoded paint = out"
        by (auto simp: paint_seal_def split: if_splits sum.splits)
      have "show_preview paint = Some (Some pixels)" if len: "length pixels = width * height * 4"
      proof -
        let ?d = "\<lparr>ob_bytes = [], ob_capacity = width * height * 4\<rparr>"
        have "decode_runs (width * height * 4) (ob_bytes out) ?d
            = Some (Some (?d\<lparr>ob_bytes := ob_bytes ?d @ pixels\<rparr>))"
          using encode_decode [OF enc] len by (metis append_Nil add_0 le_refl list.size(3) owned_bytes.select_convs)
        with len show ?thesis by (simp add: show_preview_def p Let_def)
      qed
      moreover have "length (ob_bytes out) \<le> PREVIEW_TARGET"
        using encode_runs_size [OF enc] by simp
      ultimately show ?thesis using p by fastforce
    qed
  qed
qed simp

lemma paint_attempts_total:
  assumes "list_all (\<lambda>(w, h, px). length px = w * h * 4) renders"
  shows "paint_attempts lay l now renders \<noteq> None"
  using assms
proof (induction lay l now renders rule: paint_attempts.induct)
  case (2 lay l now width height pixels renders)
  have "encode_runs pixels \<lparr>ob_bytes = [], ob_capacity = PREVIEW_TARGET\<rparr> \<noteq> None"
    using "2.prems" by (intro encode_runs_total) auto
  with 2 show ?case
    by (auto split: option.splits prod.splits sum.splits)
qed simp

lemma paint_attempts_inv:
  "ledger_inv l \<Longrightarrow> paint_attempts lay l now renders = Some (l', p) \<Longrightarrow> ledger_inv l'"
proof (induction lay l now renders rule: paint_attempts.induct)
  case (2 lay l now width height pixels renders)
  then show ?case
    using paint_seal_inv [OF "2.prems"(1), of lay width height now]
    by (auto split: option.splits prod.splits sum.splits) (metis fst_conv)+
qed simp

lemma capture_paint_inv [inv_intros]:
  "ledger_inv l \<Longrightarrow> capture_paint lay l now d w h renders = Some (l', p) \<Longrightarrow> ledger_inv l'"
  by (auto simp: capture_paint_def intro: paint_attempts_inv split: if_splits)

section \<open>Form capture stays within its own budget\<close>

lemma capture_forms_loop_budget:
  assumes "sum_list (map form_bytes forms) + length forms * sz_form_state lay = bytes"
    and "bytes \<le> 24 * 1024" and "length forms \<le> 256"
  shows "sum_list (map form_bytes (capture_forms_loop lay slack bytes forms nodes))
      + length (capture_forms_loop lay slack bytes forms nodes) * sz_form_state lay \<le> 24 * 1024
    \<and> length (capture_forms_loop lay slack bytes forms nodes) \<le> 256"
  using assms
  by (induction lay slack bytes forms nodes rule: capture_forms_loop.induct)
     (auto simp: Let_def split: option.splits)

lemma capture_forms_sound:
  "set (capture_forms_loop lay slack bytes forms nodes)
     \<subseteq> set forms \<union> {f. \<exists>n\<in>set nodes. field_form slack n = Some f}"
  by (induction lay slack bytes forms nodes rule: capture_forms_loop.induct)
     (auto simp: Let_def split: option.splits)

lemma field_form_insensitive: "field_form slack n = Some f \<Longrightarrow> \<not> fo_sensitive n \<and> fo_in_document n"
  by (auto simp: field_form_def split: if_splits)

lemma pushed_capacity_exact: "len + n \<le> cap \<Longrightarrow> pushed_capacity grow cap len n = cap"
  by (induction n arbitrary: len) auto

section \<open>Properties\<close>

text \<open>
  The preview of a sleeping tab is lossless: a preview captured from renderings of the declared
  size never fails an assertion, takes at most 128 KiB, and decodes to exactly the pixels of one
  of those renderings.
\<close>

theorem preview_round_trip:
  assumes "list_all (\<lambda>(w, h, px). length px = w * h * 4) renders"
  shows "case capture_paint lay l now disabled vw vh renders of
      None \<Rightarrow> False
    | Some (l', None) \<Rightarrow> True
    | Some (l', Some paint) \<Rightarrow>
        (\<exists>w h px. (w, h, px) \<in> set renders \<and> pt_width paint = w \<and> pt_height paint = h
           \<and> show_preview paint = Some (Some px)) \<and> length (ob_bytes (pt_encoded paint)) \<le> PREVIEW_TARGET"
proof (cases "disabled \<or> vw = 0 \<or> vh = 0")
  case True
  then show ?thesis by (simp add: capture_paint_def)
next
  case False
  then have cp: "capture_paint lay l now disabled vw vh renders = paint_attempts lay l now (take 4 renders)"
    by (simp add: capture_paint_def)
  have all: "list_all (\<lambda>(w, h, px). length px = w * h * 4) (take 4 renders)"
    using assms by (auto simp: list_all_iff dest: in_set_takeD)
  obtain l' r where r: "paint_attempts lay l now (take 4 renders) = Some (l', r)"
    using paint_attempts_total [OF all, of lay l now] by auto
  show ?thesis
  proof (cases r)
    case None
    with cp r show ?thesis by simp
  next
    case (Some paint)
    with paint_attempts_round_trip [of lay l now "take 4 renders" l' paint] r all cp show ?thesis
      by (fastforce simp: list_all_iff dest: in_set_takeD)
  qed
qed

theorem preview_round_trip_witness:
  "\<exists>l' paint. capture_paint demo_layout default_budget 9 False 2 1 [(2, 1, [1, 2, 3, 4, 1, 2, 3, 4])] = Some (l', Some paint)
    \<and> show_preview paint = Some (Some [1, 2, 3, 4, 1, 2, 3, 4])"
proof -
  let ?c = "capture_paint demo_layout default_budget 9 False 2 1 [(2, 1, [1, 2, 3, 4, 1, 2, 3, 4])]"
  have all: "list_all (\<lambda>(w, h, px). length px = w * h * 4) [(2, 1, [1, 2, 3, 4, 1, 2, 3, 4])]" by simp
  obtain l' paint where c: "?c = Some (l', Some paint)"
    by (simp add: capture_paint_def encode_runs.simps run_loop.simps ob_extend_def le16_def Let_def
        PREVIEW_TARGET_def paint_seal_def PREVIEW_HARD_def ob_allocated_def reserve_iff
        default_budget_def demo_layout_def arc_header_def u64_max_def SLEEPING_BYTES_def)
  from preview_round_trip [OF all, of demo_layout default_budget 9 False 2 1] c show ?thesis by auto
qed

text \<open>
  Form capture keeps no field that was marked sensitive or that left the document, and stops before
  its 24 KiB and 256-field budget.
\<close>

theorem capture_forms_budget:
  "sum_list (map form_bytes (capture_forms lay slack nodes))
      + length (capture_forms lay slack nodes) * sz_form_state lay \<le> 24 * 1024
   \<and> length (capture_forms lay slack nodes) \<le> 256
   \<and> set (capture_forms lay slack nodes)
       \<subseteq> {f. \<exists>n\<in>set nodes. field_form slack n = Some f \<and> \<not> fo_sensitive n \<and> fo_in_document n}"
  using capture_forms_loop_budget [of "[]" lay 0 slack nodes]
    capture_forms_sound [of lay slack 0 "[]" nodes]
  by (auto simp: capture_forms_def dest: field_form_insensitive)

lemma capture_forms_replicate:
  assumes "field_form slack n = Some f"
    and "bytes + m * (form_bytes f + sz_form_state lay) \<le> 24 * 1024" and "length forms + m \<le> 256"
  shows "capture_forms_loop lay slack bytes forms (replicate m n) = forms @ replicate m f"
  using assms(2,3)
proof (induction m arbitrary: bytes forms)
  case (Suc m)
  have "capture_forms_loop lay slack bytes forms (replicate (Suc m) n)
      = capture_forms_loop lay slack (bytes + form_bytes f + sz_form_state lay) (forms @ [f]) (replicate m n)"
    using Suc.prems assms(1) by (simp add: Let_def)
  also have "\<dots> = (forms @ [f]) @ replicate m f"
    using Suc.prems by (intro Suc.IH) (auto simp: algebra_simps)
  finally show ?case by simp
qed simp

definition small_field :: field_obs where
  "small_field = \<lparr>fo_sensitive = False, fo_in_document = True, fo_kind = Some FieldCheckbox,
     fo_identity = Some ([], [97], []), fo_element = True, fo_select_value = [], fo_editor = None,
     fo_value_attr = None, fo_checked = Some True\<rparr>"

definition small_form :: form_state where
  "small_form = \<lparr>fs_locator = \<lparr>fl_form = \<lparr>txt_units = [], txt_capacity = 0\<rparr>,
       fl_field = \<lparr>txt_units = [97], txt_capacity = 1\<rparr>, fl_action = \<lparr>txt_units = [], txt_capacity = 0\<rparr>,
       fl_kind = FieldCheckbox\<rparr>,
     fs_value = \<lparr>txt_units = [], txt_capacity = 0\<rparr>, fs_checked = True, fs_selection = None\<rparr>"

lemma small_field_form: "field_form (\<lambda>_. Some 0) small_field = Some small_form"
  by (simp add: field_form_def small_field_def small_form_def protected_def field_value_def
      text_capture_def capture_loop_iff utf16_def utf16_char_def)

definition layout112 :: layout where
  "layout112 = demo_layout\<lparr>sz_form_state := 112\<rparr>"

text \<open>
  The budget of form capture and the check of the seal disagree: capture counts the fields it has
  pushed, the seal counts the capacity of the vector they were pushed to. With vectors that double
  and fields of 112 bytes, 129 checkboxes are captured within the budget and then every seal of
  them is refused, so the tab loses its whole stash.
\<close>

theorem captured_forms_refused_by_seal:
  "length (capture_forms layout112 (\<lambda>_. Some 0) (replicate 129 small_field)) = 129
   \<and> snd (page_seal layout112 None l demo_location True
        (capture_forms layout112 (\<lambda>_. Some 0) (replicate 129 small_field))
        (pushed_capacity (\<lambda>c. max 4 (2 * c)) 0 0 129) None demo_scroll 0)
     = Inl (S ''stash-state-budget'')"
proof -
  have cap: "pushed_capacity (\<lambda>c. max 4 (2 * c)) 0 0 129 = (256 :: nat)"
    by (simp add: numeral_eq_Suc)
  have forms: "capture_forms layout112 (\<lambda>_. Some 0) (replicate 129 small_field) = replicate 129 small_form"
    unfolding capture_forms_def
    by (subst capture_forms_replicate [OF small_field_form])
       (simp_all add: small_form_def form_bytes_def text_bytes_def layout112_def)
  have route: "text_capture (utf16 (url_str (loc_url demo_location))) None (32 * 1024) \<noteq> None"
    by (simp add: text_capture_def capture_loop_iff demo_location_def demo_url_def utf16_def utf16_char_def)
  show ?thesis
    unfolding forms cap using route
    by (auto simp: page_seal_def Let_def demo_location_def demo_url_def is_tuple_def layout112_def)
qed

end
