(* ===== verification/Internal_Pages.thy ===== *)
theory Internal_Pages
  imports Nav
begin

text \<open>
  The documents the browser writes itself, after
  \<^verbatim>\<open>src/apps/chuzz/src/internal_pages.rs\<close> and the URL helpers of
  \<^verbatim>\<open>src/apps/chuzz/src/tls_status.rs\<close>: view-source, the load-error page, the TLS refusal and
  its explainer. The escaping is three successive replacements; it is shown to be the
  one-pass HTML escaping, to leave no markup behind and to be reversible.
\<close>

section \<open>Replacement and escaping\<close>

text \<open>\<open>str::replace(c, r)\<close> for a one-character pattern.\<close>

definition replace_char :: "nat \<Rightarrow> str \<Rightarrow> str \<Rightarrow> str" where
  "replace_char c r s = concat (map (\<lambda>x. if x = c then r else [x]) s)"

definition escape_html :: "str \<Rightarrow> str" where
  "escape_html text =
     replace_char (of_char CHR ''>'') (S ''&gt;'')
       (replace_char (of_char CHR ''<'') (S ''&lt;'')
         (replace_char (of_char CHR ''&'') (S ''&amp;'') text))"

section \<open>The pages\<close>

definition INTERNAL_PAGE_STYLE :: str where
  "INTERNAL_PAGE_STYLE = S ''margin:0;background:#f6f6f7;color:#16181d''"

definition source_prefix :: str where
  \<open>source_prefix =
     S ''<!doctype html><html><head><meta charset="utf-8"><title>Source</title></head>'' @ [10] @
     S ''<body style="'' @ INTERNAL_PAGE_STYLE @
     S ''"><pre style="margin:0;padding:1rem;font:13px ui-monospace,monospace;white-space:pre-wrap;word-break:break-word">''\<close>

definition source_suffix :: str where
  "source_suffix = S ''</pre></body></html>''"

definition source_html :: "str \<Rightarrow> str" where
  "source_html text = source_prefix @ escape_html text @ source_suffix"

definition load_error_html :: "str \<Rightarrow> str \<Rightarrow> str" where
  \<open>load_error_html error details =
     S ''<!doctype html><html><head><meta charset="utf-8"><title>Page not available</title></head><body style="'' @
     INTERNAL_PAGE_STYLE @
     S '';padding:2rem;font:14px system-ui,sans-serif"><h1>Page not available</h1><p>'' @
     escape_html error @ S ''</p>'' @ details @ S ''</body></html>''\<close>

definition error_html :: "str \<Rightarrow> str" where
  "error_html error = load_error_html error []"

section \<open>TLS refusals\<close>

datatype tls_policy_error =
    RsaCertificateChain
  | CertificateKey
  | CertificateSignature
  | HandshakeSignature
  | CipherSuite
  | PeerRejectedAlgorithms nat
  | OtherTlsPolicyError

definition TLS_REFUSED_WHY_URL :: str where
  "TLS_REFUSED_WHY_URL = S ''chuzz:tls-refused''"

definition navigation_url :: "net_ext \<Rightarrow> url \<Rightarrow> url" where
  "navigation_url ext u =
     (if url_scheme u = S ''view-source''
      then (case url_parse ext (url_path u) of Some inner \<Rightarrow> inner | None \<Rightarrow> u)
      else u)"

definition alert_description :: "tls_policy_error \<Rightarrow> str" where
  "alert_description reason =
     (case reason of
        RsaCertificateChain \<Rightarrow> S ''chuzz sent alert 43 unsupported_certificate to the server.''
      | CertificateKey \<Rightarrow> S ''chuzz sent alert 43 unsupported_certificate to the server.''
      | PeerRejectedAlgorithms alert \<Rightarrow>
          if alert = 40 then S ''The server sent alert 40 handshake_failure to chuzz.''
          else if alert = 71 then S ''The server sent alert 71 insufficient_security to chuzz.''
          else S ''This refusal does not identify an alert number.''
      | _ \<Rightarrow> S ''This refusal does not identify an alert number.'')"

text \<open>The kind, alert number and direction \<open>error_details\<close> reports.\<close>

definition error_details :: "tls_policy_error option \<Rightarrow> (str \<times> nat option \<times> str option) option" where
  "error_details r =
     map_option (\<lambda>reason. case reason of
        RsaCertificateChain \<Rightarrow> (S ''RsaCertificateChain'', Some 43, Some (S ''sent''))
      | CertificateKey \<Rightarrow> (S ''CertificateKey'', Some 43, Some (S ''sent''))
      | CertificateSignature \<Rightarrow> (S ''CertificateSignature'', None, None)
      | HandshakeSignature \<Rightarrow> (S ''HandshakeSignature'', None, None)
      | CipherSuite \<Rightarrow> (S ''CipherSuite'', None, None)
      | PeerRejectedAlgorithms alert \<Rightarrow> (S ''PeerRejectedAlgorithms'', Some alert, Some (S ''received''))
      | OtherTlsPolicyError \<Rightarrow> (S ''TlsPolicyError'', None, None)) r"

text \<open>
  \<open>reason_text\<close> is the display text of the policy error, which the network crate supplies.
\<close>

definition tls_refused_html :: "net_ext \<Rightarrow> (tls_policy_error \<Rightarrow> str) \<Rightarrow> url \<Rightarrow> tls_policy_error \<Rightarrow> str" where
  \<open>tls_refused_html ext reason_text u reason =
     (let nu = navigation_url ext u;
          host = escape_html (case url_host nu of Some h \<Rightarrow> h | None \<Rightarrow> S ''unknown'');
          details =
            S ''<p>Requested host: <strong>'' @ host @ S ''</strong></p><p>'' @
            alert_description reason @
            S ''</p><p>The requested page was not loaded. chuzz does not retry with weaker algorithms.</p><p><a href="'' @
            TLS_REFUSED_WHY_URL @ S ''">Why chuzz refused this TLS connection</a></p>'';
          chacha = (case reason of CipherSuite \<Rightarrow> True | PeerRejectedAlgorithms _ \<Rightarrow> True | _ \<Rightarrow> False);
          details' = (if chacha
            then S ''<h2 id="tls-chacha-required">tls-chacha-required</h2>'' @ details else details)
      in load_error_html (reason_text reason) details')\<close>

text \<open>
  Browser-owned pages are resolved before the network sees a URL. \<open>probe\<close> is the sandbox probe
  page (present on one platform only) and \<open>explainer\<close> the fixed explainer document.
\<close>

definition html_for :: "str option \<Rightarrow> str \<Rightarrow> url \<Rightarrow> str option" where
  "html_for probe explainer u =
     (if url_str u = S ''chuzz:sandbox-probe'' then probe
      else if url_str u = TLS_REFUSED_WHY_URL then Some explainer else None)"

section \<open>Escaping is one pass, leaves no markup and can be undone\<close>

definition entity_of :: "nat \<Rightarrow> str" where
  "entity_of c =
     (if c = 38 then S ''&amp;'' else if c = 60 then S ''&lt;'' else if c = 62 then S ''&gt;'' else [c])"

lemma replace_char_simps [simp]:
  "replace_char c r [] = []"
  "replace_char c r (x # s) = (if x = c then r else [x]) @ replace_char c r s"
  "replace_char c r (s @ t) = replace_char c r s @ replace_char c r t"
  by (simp_all add: replace_char_def)

lemma escape_html_Nil [simp]: "escape_html [] = []"
  by (simp add: escape_html_def)

lemma escape_html_Cons [simp]: "escape_html (c # s) = entity_of c @ escape_html s"
  by (simp add: escape_html_def entity_of_def)

lemma escape_html_concat: "escape_html s = concat (map entity_of s)"
  by (induction s) simp_all

lemma entity_of_no_markup: "60 \<notin> set (entity_of c) \<and> 62 \<notin> set (entity_of c)"
  by (simp add: entity_of_def)

lemma escape_html_no_markup: "set (escape_html s) \<inter> {60, 62} = {}"
  using entity_of_no_markup by (auto simp: escape_html_concat)

text \<open>Reading the three entities back, as an HTML parser does.\<close>

fun unescape_html :: "str \<Rightarrow> str" where
  "unescape_html [] = []"
| "unescape_html (c # s) =
     (if starts_with (c # s) (S ''&amp;'') then 38 # unescape_html (drop 4 s)
      else if starts_with (c # s) (S ''&lt;'') then 60 # unescape_html (drop 3 s)
      else if starts_with (c # s) (S ''&gt;'') then 62 # unescape_html (drop 3 s)
      else c # unescape_html s)"

lemma unescape_entity: "unescape_html (entity_of c @ s) = c # unescape_html s"
  by (simp add: entity_of_def starts_with_def)

lemma unescape_escape: "unescape_html (escape_html s) = s"
  by (induction s) (simp_all add: unescape_entity)

text \<open>
  View-source shows what arrived: the page is a fixed frame around the escaped text, the escaped
  text holds no angle bracket, so nothing in it is markup, and reading its entities back gives
  exactly the bytes' text.
\<close>

theorem source_html_faithful:
  "source_html src = source_prefix @ escape_html src @ source_suffix
   \<and> set (escape_html src) \<inter> {of_char CHR ''<'', of_char CHR ''>''} = {}
   \<and> unescape_html (escape_html src) = src"
  using escape_html_no_markup [of src] by (simp add: source_html_def unescape_escape)

end
