(* ===== verification/Debug_Log.thy ===== *)
theory Debug_Log
  imports Chuzz_Prelude
begin

text \<open>
  The ring behind the debugging panel (\<open>DebugLog\<close> of \<^verbatim>\<open>src/apps/chuzz/src/browser.rs\<close>): the last 500
  entries, numbered from one without gaps, and the pull that returns what a window has not seen.
\<close>

record debug_entry =
  de_seq :: nat
  de_level :: str
  de_source :: str
  de_message :: str

record debug_log =
  dg_next_seq :: nat
  dg_entries :: "debug_entry list"

definition DEBUG_LOG_CAPACITY :: nat where
  "DEBUG_LOG_CAPACITY = 500"

definition new_log :: debug_log where
  "new_log = \<lparr>dg_next_seq = 1, dg_entries = []\<rparr>"

definition log_push :: "debug_log \<Rightarrow> str \<Rightarrow> str \<Rightarrow> str \<Rightarrow> debug_log \<times> debug_entry" where
  "log_push g level source message =
     (let entry = \<lparr>de_seq = dg_next_seq g, de_level = level, de_source = source, de_message = message\<rparr>;
          kept = (if length (dg_entries g) = DEBUG_LOG_CAPACITY then tl (dg_entries g) else dg_entries g)
      in (\<lparr>dg_next_seq = dg_next_seq g + 1, dg_entries = kept @ [entry]\<rparr>, entry))"

definition log_since :: "debug_log \<Rightarrow> nat option \<Rightarrow> debug_entry list" where
  "log_since g since =
     (case since of
        Some seq \<Rightarrow> filter (\<lambda>e. seq < de_seq e) (dg_entries g)
      | None \<Rightarrow> dg_entries g)"

text \<open>The entries carry consecutive numbers that end just before the next one.\<close>

definition log_inv :: "debug_log \<Rightarrow> bool" where
  "log_inv g \<longleftrightarrow>
     length (dg_entries g) \<le> DEBUG_LOG_CAPACITY \<and> length (dg_entries g) < dg_next_seq g
     \<and> map de_seq (dg_entries g) = [dg_next_seq g - length (dg_entries g) ..< dg_next_seq g]"

lemma log_inv_new [inv_intros]: "log_inv new_log"
  by (simp add: log_inv_def new_log_def)

lemma log_inv_push [inv_intros]:
  assumes "log_inv g"
  shows "log_inv (fst (log_push g level source message))"
proof (cases "length (dg_entries g) = DEBUG_LOG_CAPACITY")
  case True
  let ?n = "dg_next_seq g"
  from True have len: "length (dg_entries g) = 500" by (simp add: DEBUG_LOG_CAPACITY_def)
  with assms have n: "500 < ?n" and seqs: "map de_seq (dg_entries g) = [?n - 500 ..< ?n]"
    by (auto simp: log_inv_def)
  from n have "[?n - 500 ..< ?n] = (?n - 500) # [Suc (?n - 500) ..< ?n]"
    by (intro upt_conv_Cons) simp
  then have "map de_seq (tl (dg_entries g)) = [Suc (?n - 500) ..< ?n]"
    using seqs by (simp add: map_tl)
  moreover have "Suc (?n - 500) = Suc ?n - 500" using n by simp
  ultimately show ?thesis
    using n len by (simp add: log_inv_def log_push_def Let_def DEBUG_LOG_CAPACITY_def)
next
  case False
  let ?n = "dg_next_seq g" and ?k = "length (dg_entries g)"
  from False assms have k: "?k < 500" "?k < ?n" and seqs: "map de_seq (dg_entries g) = [?n - ?k ..< ?n]"
    by (auto simp: log_inv_def DEBUG_LOG_CAPACITY_def)
  have "[?n - ?k ..< Suc ?n] = [?n - ?k ..< ?n] @ [?n]" by simp
  with k seqs show ?thesis
    by (simp add: log_inv_def log_push_def Let_def DEBUG_LOG_CAPACITY_def)
qed

fun log_pushes :: "debug_log \<Rightarrow> (str \<times> str \<times> str) list \<Rightarrow> debug_log" where
  "log_pushes g [] = g"
| "log_pushes g ((level, source, message) # es) = log_pushes (fst (log_push g level source message)) es"

lemma log_inv_pushes: "log_inv g \<Longrightarrow> log_inv (log_pushes g es)"
  by (induction g es rule: log_pushes.induct) (auto intro: log_inv_push)

lemma log_next_pushes: "dg_next_seq (log_pushes g es) = dg_next_seq g + length es"
  by (induction g es rule: log_pushes.induct) (auto simp: log_push_def Let_def)

lemma filter_upt_gt: "a \<le> Suc s \<Longrightarrow> filter (\<lambda>x. s < x) [a ..< b] = [Suc s ..< b]"
  by (induction b) (auto simp: not_less le_Suc_eq)

text \<open>
  The debugging panel loses nothing it asks for in time: after any pushes, a window that holds every
  entry up to number \<open>s\<close> and pulls again gets exactly the entries \<open>s + 1\<close>, \<open>s + 2\<close>, \<dots> up to the
  newest, in order, as long as no more than 500 arrived in between; and the ring never grows past
  500 entries.
\<close>

theorem debug_log_pull_complete:
  assumes "s < dg_next_seq (log_pushes new_log es)"
    and "dg_next_seq (log_pushes new_log es) \<le> s + 501"
  shows "map de_seq (log_since (log_pushes new_log es) (Some s)) = [Suc s ..< Suc (length es)]
    \<and> length (dg_entries (log_pushes new_log es)) \<le> 500"
proof -
  let ?g = "log_pushes new_log es"
  have inv: "log_inv ?g" by (rule log_inv_pushes [OF log_inv_new])
  have next_seq: "dg_next_seq ?g = Suc (length es)"
    by (simp add: log_next_pushes new_log_def)
  let ?k = "length (dg_entries ?g)"
  have "?k = 500 \<or> ?k = length es"
  proof -
    have "length (dg_entries (log_pushes g es)) = min 500 (length (dg_entries g) + length es)"
      if "length (dg_entries g) \<le> 500" for g
      using that by (induction g es rule: log_pushes.induct)
        (auto simp: log_push_def Let_def DEBUG_LOG_CAPACITY_def)
    then show ?thesis by (auto simp: new_log_def)
  qed
  then have "dg_next_seq ?g - ?k \<le> Suc s"
    using assms(2) next_seq by auto
  then have "filter (\<lambda>x. s < x) (map de_seq (dg_entries ?g)) = [Suc s ..< dg_next_seq ?g]"
    using inv by (simp add: log_inv_def filter_upt_gt)
  then show ?thesis
    using inv next_seq by (simp add: log_since_def filter_map comp_def log_inv_def DEBUG_LOG_CAPACITY_def)
qed

theorem debug_log_pull_complete_witness:
  "map de_seq (log_since (log_pushes new_log [([], [], []), ([], [], []), ([], [], [])]) (Some 1)) = [2, 3]"
proof -
  let ?es = "[([], [], []), ([], [], []), ([], [], [])] :: (str \<times> str \<times> str) list"
  have "dg_next_seq (log_pushes new_log ?es) = 4"
    by (simp only: log_next_pushes) (simp add: new_log_def)
  moreover have "[Suc 1 ..< Suc (length ?es)] = [2, 3]" by (simp add: upt_rec)
  ultimately show ?thesis using debug_log_pull_complete [of 1 ?es] by simp
qed

end
