(* ===== verification/Browser_State.thy ===== *)
theory Browser_State
  imports Tab_Records Tab_Session Tab_Native Internal_Pages Debug_Log
begin

text \<open>
  The state of the browser (\<^verbatim>\<open>src/apps/chuzz/src/browser.rs\<close>, \<^verbatim>\<open>src/apps/chuzz/src/tab_lifecycle.rs\<close>)
  and the methods of one tab's lifecycle record.

  Shared objects that several owners hold through an \<open>Arc\<close> live in the record \<open>world\<close>: deadlines
  (a tab and its timer task), abort signals (a tab and its fetch) and the sleeping budget. A tab
  refers to a deadline or a signal by its number. Tasks the code spawns are entries of lists
  (\<open>b_timers\<close>, \<open>b_fetches\<close>, \<open>b_releases\<close>) that steps of the environment later run. A panic
  (an \<open>expect\<close> on an exhausted counter, an index out of range) is \<open>None\<close>.
\<close>

section \<open>Outcomes of a load\<close>

datatype page_outcome = OutBlank | OutReady | OutWarning | OutError

fun severity :: "page_outcome \<Rightarrow> nat" where
  "severity OutBlank = 0"
| "severity OutReady = 1"
| "severity OutWarning = 2"
| "severity OutError = 3"

lemma severity_inj: "severity a = severity b \<Longrightarrow> a = b"
  by (cases a; cases b) auto

instantiation page_outcome :: linorder
begin

definition less_eq_page_outcome :: "page_outcome \<Rightarrow> page_outcome \<Rightarrow> bool" where
  "less_eq_page_outcome a b \<longleftrightarrow> severity a \<le> severity b"

definition less_page_outcome :: "page_outcome \<Rightarrow> page_outcome \<Rightarrow> bool" where
  "less_page_outcome a b \<longleftrightarrow> severity a < severity b"

instance
  by standard (auto simp: less_eq_page_outcome_def less_page_outcome_def dest: severity_inj)

end

definition outcome_name :: "page_outcome \<Rightarrow> str" where
  "outcome_name x =
     (case x of OutBlank \<Rightarrow> S ''blank'' | OutReady \<Rightarrow> S ''ready''
      | OutWarning \<Rightarrow> S ''warning'' | OutError \<Rightarrow> S ''error'')"

section \<open>Shared objects\<close>

record deadline =
  dl_due :: nat
  dl_generation :: nat
  dl_epoch :: nat
  dl_cancelled :: bool

record world =
  w_deadlines :: "deadline list" \<comment> \<open>a deadline's number is its position\<close>
  w_signals :: nat \<comment> \<open>abort signals created so far\<close>
  w_aborted :: "nat list"
  w_budget :: ledger

definition cancel_deadline_ref :: "nat option \<Rightarrow> world \<Rightarrow> world" where
  "cancel_deadline_ref d w =
     (case d of None \<Rightarrow> w
      | Some i \<Rightarrow> w\<lparr>w_deadlines := (if i < length (w_deadlines w)
           then (w_deadlines w)[i := (w_deadlines w ! i)\<lparr>dl_cancelled := True\<rparr>] else w_deadlines w)\<rparr>)"

definition abort_ref :: "nat option \<Rightarrow> world \<Rightarrow> world" where
  "abort_ref s w = (case s of None \<Rightarrow> w | Some i \<Rightarrow> w\<lparr>w_aborted := i # w_aborted w\<rparr>)"

definition new_deadline :: "deadline \<Rightarrow> world \<Rightarrow> nat \<times> world" where
  "new_deadline d w = (length (w_deadlines w), w\<lparr>w_deadlines := w_deadlines w @ [d]\<rparr>)"

definition new_signal :: "world \<Rightarrow> nat \<times> world" where
  "new_signal w = (w_signals w, w\<lparr>w_signals := Suc (w_signals w)\<rparr>)"

section \<open>The lifecycle record of a tab\<close>

datatype tab_phase =
  PhDormant | PhLive | PhFreezing | PhDiscarding | PhSleeping | PhWaking | PhRestoreFailed

record page_surface =
  sf_tab_id :: nat
  sf_generation :: nat
  sf_owner_document_id :: nat
  sf_mount_node_id :: nat
  sf_document_id :: nat

record tab_life =
  lf_phase :: tab_phase
  lf_visible :: bool
  lf_epoch :: nat
  lf_hidden_at :: nat
  lf_deadline :: "nat option"
  lf_restore_deadline :: "nat option"
  lf_load_signal :: "nat option"
  lf_ever_live :: bool
  lf_stash :: "page_stash option"
  lf_preview :: "paint_snapshot option"
  lf_preview_surface :: "page_surface option"
  lf_record_charge :: "nat option"
  lf_release :: "nat option"
  lf_wake_requested :: bool
  lf_await_preview :: bool
  lf_discarded :: bool
  lf_reason :: str

definition default_life :: "nat \<Rightarrow> tab_life" where
  "default_life now = \<lparr>lf_phase = PhDormant, lf_visible = False, lf_epoch = 0, lf_hidden_at = now,
     lf_deadline = None, lf_restore_deadline = None, lf_load_signal = None, lf_ever_live = False,
     lf_stash = None, lf_preview = None, lf_preview_surface = None, lf_record_charge = None,
     lf_release = None, lf_wake_requested = False, lf_await_preview = False, lf_discarded = False,
     lf_reason = []\<rparr>"

definition life_cancel_deadline :: "tab_life \<Rightarrow> world \<Rightarrow> (tab_life \<times> world) option" where
  "life_cancel_deadline lf w =
     do { e \<leftarrow> checked_add (lf_epoch lf) 1;
          Some (lf\<lparr>lf_epoch := e, lf_deadline := None\<rparr>, cancel_deadline_ref (lf_deadline lf) w) }"

definition life_cancel_restore :: "tab_life \<Rightarrow> world \<Rightarrow> tab_life \<times> world" where
  "life_cancel_restore lf w =
     (lf\<lparr>lf_restore_deadline := None\<rparr>, cancel_deadline_ref (lf_restore_deadline lf) w)"

definition life_abort_load :: "tab_life \<Rightarrow> world \<Rightarrow> tab_life \<times> world" where
  "life_abort_load lf w = (lf\<lparr>lf_load_signal := None\<rparr>, abort_ref (lf_load_signal lf) w)"

definition drop_charge :: "ledger \<Rightarrow> nat option \<Rightarrow> ledger" where
  "drop_charge l c = (case c of None \<Rightarrow> l | Some i \<Rightarrow> fst (arc_drop l i))"

text \<open>Taking the stash, the preview, its surface and the record charge.\<close>

definition life_take_saved :: "tab_life \<Rightarrow> world \<Rightarrow> tab_life \<times> world" where
  "life_take_saved lf w =
     (lf\<lparr>lf_stash := None, lf_preview := None, lf_preview_surface := None, lf_record_charge := None\<rparr>,
      w\<lparr>w_budget := drop_charge (drop_paint (drop_stash (w_budget w) (lf_stash lf)) (lf_preview lf))
           (lf_record_charge lf)\<rparr>)"

definition life_navigate :: "tab_life \<Rightarrow> world \<Rightarrow> (tab_life \<times> world) option" where
  "life_navigate lf w =
     do { (lf1, w1) \<leftarrow> life_cancel_deadline lf w;
          let (lf2, w2) = life_cancel_restore lf1 w1;
          let (lf3, w3) = life_abort_load lf2 w2;
          let (lf4, w4) = life_take_saved lf3 w3;
          let lf5 = lf4\<lparr>lf_discarded := False, lf_await_preview := False\<rparr>;
          Some (if lf_phase lf5 \<noteq> PhDiscarding \<and> lf_phase lf5 \<noteq> PhFreezing
                then lf5\<lparr>lf_phase := PhDormant\<rparr> else lf5, w4) }"

text \<open>\<open>Drop for TabLife\<close>, and the drop of its fields.\<close>

definition life_drop :: "tab_life \<Rightarrow> world \<Rightarrow> world" where
  "life_drop lf w =
     (let w1 = cancel_deadline_ref (lf_deadline lf) w;
          (lf2, w2) = life_cancel_restore lf w1;
          (lf3, w3) = life_abort_load lf2 w2
      in snd (life_take_saved lf3 w3))"

section \<open>Tabs\<close>

record mounted_page =
  mp_owner_document_id :: nat
  mp_mount_node_id :: nat
  mp_viewport_node_id :: "nat option"
  mp_document_id :: nat
  mp_script :: bool

record tab_state =
  t_id :: nat
  t_mounted_generation :: nat
  t_mounted :: "mounted_page option"
  t_history :: "request list"
  t_current :: nat
  t_title :: str
  t_loading :: bool
  t_outcome :: page_outcome
  t_generation :: nat
  t_life :: tab_life

text \<open>\<open>TabState::request\<close>; \<open>None\<close> is the index panic.\<close>

definition t_request :: "tab_state \<Rightarrow> request option" where
  "t_request t = (if t_current t < length (t_history t) then Some (t_history t ! t_current t) else None)"

definition new_tab :: "nat \<Rightarrow> nat \<Rightarrow> request \<Rightarrow> tab_state" where
  "new_tab now i rq = \<lparr>t_id = i, t_mounted_generation = 0, t_mounted = None, t_history = [rq], t_current = 0,
     t_title = [], t_loading = False, t_outcome = OutBlank, t_generation = 0, t_life = default_life now\<rparr>"

record frontend_tab =
  ft_id :: nat
  ft_title :: str
  ft_url :: str
  ft_status :: str
  ft_can_go_back :: bool
  ft_can_go_forward :: bool
  ft_residency :: residency
  ft_lifecycle :: tab_phase
  ft_reason :: str
  ft_visible :: bool
  ft_preview_available :: bool
  ft_preview_age_ms :: "nat option"
  ft_runtime_released :: bool

definition snapshot :: "nat \<Rightarrow> tab_state \<Rightarrow> frontend_tab option" where
  "snapshot now t =
     do { rq \<leftarrow> t_request t;
          Some \<lparr>ft_id = t_id t, ft_title = display_title (t_title t) (rq_url rq), ft_url = url_str (rq_url rq),
            ft_status = (if t_loading t then S ''loading'' else outcome_name (t_outcome t)),
            ft_can_go_back = (0 < t_current t), ft_can_go_forward = (t_current t + 1 < length (t_history t)),
            ft_residency =
              (case lf_phase (t_life t) of
                 PhSleeping \<Rightarrow> Sleeping | PhRestoreFailed \<Rightarrow> Sleeping
               | PhDiscarding \<Rightarrow> Discarding | PhFreezing \<Rightarrow> Discarding
               | PhWaking \<Rightarrow> Waking
               | _ \<Rightarrow> if t_loading t then Loading else if t_mounted t \<noteq> None then Live else Dormant),
            ft_lifecycle = lf_phase (t_life t), ft_reason = lf_reason (t_life t),
            ft_visible = lf_visible (t_life t), ft_preview_available = (lf_preview (t_life t) \<noteq> None),
            ft_preview_age_ms = map_option (\<lambda>p. saturating_sub now (pt_captured_at p) div 1000000)
              (lf_preview (t_life t)),
            ft_runtime_released =
              ((lf_phase (t_life t) = PhSleeping \<or> lf_phase (t_life t) = PhRestoreFailed)
               \<and> t_mounted t = None \<and> lf_release (t_life t) = None)\<rparr> }"

section \<open>The browser\<close>

datatype surface_event = Visibility page_surface bool | Painted page_surface

datatype lifecycle_message =
    MSleep nat nat nat bool \<comment> \<open>tab, generation, epoch, automatic\<close>
  | MReleased nat nat \<comment> \<open>tab, receipt\<close>
  | MSurface surface_event
  | MRestoreTimeout nat nat

datatype page_source = Html str "(url \<times> str) list" | Source str

record page_bundle =
  pb_tab :: nat
  pb_generation :: nat
  pb_resolved_url :: str
  pb_source :: page_source
  pb_outcome :: page_outcome

datatype timer_task =
    HiddenTimer nat nat \<comment> \<open>tab, deadline\<close>
  | RestoreTimer nat nat nat \<comment> \<open>tab, generation, deadline\<close>

record fetch_task =
  fk_tab :: nat
  fk_generation :: nat
  fk_request :: request
  fk_revalidate :: bool

record panel_sections =
  pn_page :: bool
  pn_history :: bool
  pn_network :: bool
  pn_console :: bool
  pn_debugging :: bool

record panel_state =
  pn_collapsed :: bool
  pn_sections :: panel_sections

record browser =
  b_tabs :: "tab_state list"
  b_records :: registry
  b_active :: nat
  b_next_tab_id :: nat
  b_panel :: panel_state
  b_lifecycle :: "lifecycle_message list"
  b_completed :: "page_bundle list"
  b_sleep_delay :: nat
  b_world :: world
  b_timers :: "timer_task list"
  b_fetches :: "fetch_task list"
  b_releases :: "(nat \<times> nat) list" \<comment> \<open>tab, receipt\<close>

text \<open>\<open>sleep_delay_ns\<close>; \<open>value\<close> is the environment variable when it holds a number.\<close>

definition sleep_delay_ns :: "nat option \<Rightarrow> nat" where
  "sleep_delay_ns value =
     saturating_mul (case value of
        Some delay \<Rightarrow> if 0 < delay \<and> delay \<le> 86400000 then delay else 300000
      | None \<Rightarrow> 300000) 1000000"

definition build :: "net_ext \<Rightarrow> nat \<Rightarrow> nat option \<Rightarrow> url \<Rightarrow> browser option" where
  "build ext now delay first =
     (case admit default_registry 0 of
        Inl _ \<Rightarrow> None
      | Inr records \<Rightarrow>
          Some \<lparr>b_tabs = [new_tab now 0 (browser_request ext first)], b_records = records, b_active = 0,
            b_next_tab_id = 1,
            b_panel = \<lparr>pn_collapsed = True, pn_sections = \<lparr>pn_page = True, pn_history = True,
               pn_network = False, pn_console = False, pn_debugging = True\<rparr>\<rparr>,
            b_lifecycle = [], b_completed = [], b_sleep_delay = sleep_delay_ns delay,
            b_world = \<lparr>w_deadlines = [], w_signals = 0, w_aborted = [], w_budget = default_budget\<rparr>,
            b_timers = [], b_fetches = [], b_releases = []\<rparr>)"

definition find_tab :: "nat \<Rightarrow> browser \<Rightarrow> tab_state option" where
  "find_tab i b = find (\<lambda>t. t_id t = i) (b_tabs b)"

definition find_tab_at :: "nat \<Rightarrow> nat \<Rightarrow> browser \<Rightarrow> tab_state option" where
  "find_tab_at i g b = find (\<lambda>t. t_id t = i \<and> t_generation t = g) (b_tabs b)"

definition put_tab :: "tab_state \<Rightarrow> browser \<Rightarrow> browser" where
  "put_tab t b = b\<lparr>b_tabs := map_first (\<lambda>u. t_id u = t_id t) (\<lambda>_. t) (b_tabs b)\<rparr>"

definition set_life :: "tab_state \<Rightarrow> tab_life \<Rightarrow> browser \<Rightarrow> browser" where
  "set_life t lf b = put_tab (t\<lparr>t_life := lf\<rparr>) b"

section \<open>Status\<close>

record status_readout =
  sr_status :: str
  sr_url :: str
  sr_tab_count :: nat
  sr_sleeping_bytes :: nat
  sr_sleeping_warning :: bool
  sr_live_page_count :: nat

text \<open>\<open>snapshots\<close>; \<open>complete\<close> tells whether a teardown receipt has completed. \<open>None\<close> is the failed
  \<open>unwrap\<close> of the active tab or an index panic.\<close>

definition status_of :: "(nat \<Rightarrow> bool) \<Rightarrow> nat \<Rightarrow> browser \<Rightarrow> status_readout option" where
  "status_of complete now b =
     do { t \<leftarrow> find_tab (b_active b) b;
          s \<leftarrow> snapshot now t;
          rq \<leftarrow> t_request t;
          Some \<lparr>sr_status = ft_status s, sr_url = url_str (rq_url rq), sr_tab_count = length (b_tabs b),
            sr_sleeping_bytes = lg_used (w_budget (b_world b)),
            sr_sleeping_warning = lg_warning (w_budget (b_world b)),
            sr_live_page_count = length (filter (\<lambda>t. t_mounted t \<noteq> None
               \<or> (case lf_release (t_life t) of Some r \<Rightarrow> \<not> complete r | None \<Rightarrow> False)) (b_tabs b))\<rparr> }"

end
