(* ===== verification/Browser_Ops.thy ===== *)
theory Browser_Ops
  imports Browser_State
begin

text \<open>
  The commands of the browser (\<^verbatim>\<open>src/apps/chuzz/src/browser.rs\<close>) and the scheduling of loads and
  deadlines they share with \<^verbatim>\<open>src/apps/chuzz/src/tab_lifecycle.rs\<close>.

  Every operation takes the reading \<open>now\<close> of the monotonic clock. The state is only touched on
  the document thread; spawned tasks do nothing but append to the queues, so an operation is one
  step. \<open>emit_state\<close> and \<open>wake_document\<close> only tell the window; that the snapshots they take do not
  fail is a property of the reachable states.
\<close>

section \<open>Deadlines\<close>

definition arm_hidden :: "nat \<Rightarrow> browser \<Rightarrow> browser" where
  "arm_hidden i b =
     (case find_tab i b of None \<Rightarrow> b
      | Some t \<Rightarrow>
          (let lf = t_life t
           in if lf_visible lf \<or> lf_phase lf \<noteq> PhLive \<or> lf_deadline lf \<noteq> None then b
              else case new_deadline \<lparr>dl_due = saturating_add (lf_hidden_at lf) (b_sleep_delay b),
                          dl_generation = t_generation t, dl_epoch = lf_epoch lf, dl_cancelled = False\<rparr>
                          (b_world b) of
                     (d, w) \<Rightarrow>
                       (set_life t (lf\<lparr>lf_deadline := Some d\<rparr>) b)\<lparr>b_world := w,
                          b_timers := b_timers b @ [HiddenTimer i d]\<rparr>))"

definition arm_restore :: "nat \<Rightarrow> nat \<Rightarrow> nat \<Rightarrow> browser \<Rightarrow> browser" where
  "arm_restore now i g b =
     (case find_tab_at i g b of None \<Rightarrow> b
      | Some t \<Rightarrow>
          if lf_phase (t_life t) \<noteq> PhWaking then b
          else case life_cancel_restore (t_life t) (b_world b) of
                 (lf, w) \<Rightarrow>
                   (case new_deadline \<lparr>dl_due = saturating_add now 30000000000, dl_generation = g,
                           dl_epoch = lf_epoch lf, dl_cancelled = False\<rparr> w of
                      (d, w') \<Rightarrow>
                        (set_life t (lf\<lparr>lf_restore_deadline := Some d\<rparr>) b)\<lparr>b_world := w',
                           b_timers := b_timers b @ [RestoreTimer i g d]\<rparr>))"

text \<open>What the two spawned tasks do once \<open>Deadline::expires\<close> has answered. The k-th task runs and
  leaves the list; a cancelled deadline answers \<open>false\<close>, and one that is not due is not ready.\<close>

definition deadline_expires :: "nat \<Rightarrow> world \<Rightarrow> nat \<Rightarrow> bool option" where
  "deadline_expires now w d =
     (if d < length (w_deadlines w)
      then (if dl_cancelled (w_deadlines w ! d) then Some False
            else if dl_due (w_deadlines w ! d) \<le> now then Some True else None)
      else Some False)"

definition run_timer :: "nat \<Rightarrow> nat \<Rightarrow> browser \<Rightarrow> browser" where
  "run_timer now k b =
     (if length (b_timers b) \<le> k then b
      else
        (let d = (case b_timers b ! k of HiddenTimer _ d \<Rightarrow> d | RestoreTimer _ _ d \<Rightarrow> d);
             b' = b\<lparr>b_timers := remove_at k (b_timers b)\<rparr>
         in case deadline_expires now (b_world b) d of
              None \<Rightarrow> b
            | Some False \<Rightarrow> b'
            | Some True \<Rightarrow>
                b'\<lparr>b_lifecycle := b_lifecycle b @
                   [case b_timers b ! k of
                      HiddenTimer i _ \<Rightarrow> MSleep i (dl_generation (w_deadlines (b_world b) ! d))
                          (dl_epoch (w_deadlines (b_world b) ! d)) True
                    | RestoreTimer i g _ \<Rightarrow> MRestoreTimeout i g]\<rparr>))"

section \<open>Scheduling a load\<close>

definition idempotent :: "request \<Rightarrow> bool" where
  "idempotent rq \<longleftrightarrow> rq_method rq = S ''GET'' \<or> rq_method rq = S ''HEAD''"

definition wasm_refusal :: page_source where
  "wasm_refusal = Html (error_html (S ''wasm-unsupported: WebAssembly support has been retired'')) []"

definition schedule_tail :: "nat \<Rightarrow> nat \<Rightarrow> nat \<Rightarrow> request \<Rightarrow> bool \<Rightarrow> browser \<Rightarrow> browser" where
  "schedule_tail now i g rq revalidate b =
     (let b1 = b\<lparr>b_records := loading (b_records b) i g\<rparr>;
          b2 = arm_hidden i (arm_restore now i g b1)
      in if ends_with (url_path (rq_url rq)) (S ''.wasm'')
         then b2\<lparr>b_completed := b_completed b2 @ [\<lparr>pb_tab = i, pb_generation = g,
                pb_resolved_url = url_str (rq_url rq), pb_source = wasm_refusal, pb_outcome = OutError\<rparr>]\<rparr>
         else b2\<lparr>b_fetches := b_fetches b2 @ [\<lparr>fk_tab = i, fk_generation = g, fk_request = rq,
                fk_revalidate = revalidate\<rparr>]\<rparr>)"

definition schedule_current :: "nat \<Rightarrow> nat \<Rightarrow> bool \<Rightarrow> browser \<Rightarrow> browser option" where
  "schedule_current now i revalidate b =
     (case find_tab i b of None \<Rightarrow> Some b
      | Some t \<Rightarrow>
          (let lf = t_life t
           in if lf_phase lf = PhDiscarding then Some (set_life t (lf\<lparr>lf_wake_requested := True\<rparr>) b)
              else if lf_phase lf = PhFreezing then Some (put_tab (t\<lparr>t_loading := True\<rparr>) b)
              else do {
                rq \<leftarrow> t_request t;
                if lf_discarded lf \<and> t_mounted t = None \<and> \<not> idempotent rq
                then Some (set_life t (lf\<lparr>lf_phase := PhRestoreFailed,
                             lf_reason := S ''reload-requires-resubmission''\<rparr>) b)
                else do {
                  (lf1, w1) \<leftarrow> life_cancel_deadline lf (b_world b);
                  let (lf2, w2) = life_cancel_restore lf1 w1;
                  let (lf3, w3) = life_abort_load lf2 w2;
                  let (s, w4) = new_signal w3;
                  let lf4 = lf3\<lparr>lf_load_signal := Some s, lf_await_preview := False\<rparr>;
                  let lf5 = (if lf_discarded lf4 \<and> t_mounted t = None then lf4\<lparr>lf_phase := PhWaking\<rparr>
                             else if t_mounted t \<noteq> None then lf4\<lparr>lf_phase := PhLive\<rparr> else lf4);
                  g \<leftarrow> checked_add (t_generation t) 1;
                  let t' = t\<lparr>t_life := lf5, t_generation := g, t_loading := True\<rparr>;
                  Some (schedule_tail now i g (rq\<lparr>rq_signal := Some s\<rparr>) revalidate
                          ((put_tab t' b)\<lparr>b_world := w4\<rparr>)) } }))"

definition schedule_browser_navigation ::
  "net_ext \<Rightarrow> nat \<Rightarrow> nat \<Rightarrow> bool \<Rightarrow> browser \<Rightarrow> browser option" where
  "schedule_browser_navigation ext now i revalidate b =
     (case find_tab i b of None \<Rightarrow> Some b
      | Some t \<Rightarrow>
          do { rq \<leftarrow> t_request t;
               schedule_current now i revalidate
                 (put_tab (t\<lparr>t_history := (t_history t)
                     [t_current t := rq\<lparr>rq_initiator := policy_browser ext (rq_url rq)\<rparr>]\<rparr>) b) })"

text \<open>The history of a tab after a navigation: the forward entries are gone, the new request is
  last, and the oldest entry leaves when there are more than 128.\<close>

definition push_history :: "request \<Rightarrow> request list \<Rightarrow> nat \<Rightarrow> request list \<times> nat" where
  "push_history rq history current =
     (let h = take (current + 1) history @ [rq]; c = current + 1
      in if 128 < length h then (remove_at 0 h, c - 1) else (h, c))"

definition navigate_request :: "nat \<Rightarrow> nat \<Rightarrow> request \<Rightarrow> browser \<Rightarrow> (browser \<times> bool) option" where
  "navigate_request now i rq b =
     (case find_tab i b of None \<Rightarrow> Some (b, False)
      | Some t \<Rightarrow>
          do { (lf, w) \<leftarrow> life_navigate (t_life t) (b_world b);
               let (h, c) = push_history rq (t_history t) (t_current t);
               let t' = t\<lparr>t_life := lf, t_history := h, t_current := c, t_title := []\<rparr>;
               b' \<leftarrow> schedule_current now i False ((put_tab t' b)\<lparr>b_world := w\<rparr>);
               Some (b', True) })"

text \<open>The navigations a page asks for while its scripts run, in order (\<open>PageNavigation\<close>).\<close>

fun page_navigations :: "nat \<Rightarrow> nat \<Rightarrow> request list \<Rightarrow> browser \<Rightarrow> browser option" where
  "page_navigations now i [] b = Some b"
| "page_navigations now i (rq # rqs) b =
     do { (b', _) \<leftarrow> navigate_request now i rq b; page_navigations now i rqs b' }"

section \<open>Sleeping and waking on request\<close>

definition request_sleep :: "nat \<Rightarrow> browser \<Rightarrow> str + browser" where
  "request_sleep i b =
     (case find_tab i b of None \<Rightarrow> Inl (S ''unknown tab'')
      | Some t \<Rightarrow>
          if t_loading t \<or> t_mounted t = None \<or> lf_phase (t_life t) \<noteq> PhLive
          then Inl (S ''tab-is-not-live'')
          else Inr (b\<lparr>b_lifecycle := b_lifecycle b
                 @ [MSleep i (t_generation t) (lf_epoch (t_life t)) False]\<rparr>))"

definition request_wake :: "nat \<Rightarrow> nat \<Rightarrow> browser \<Rightarrow> (browser \<times> (str + unit)) option" where
  "request_wake now i b =
     (case find_tab i b of None \<Rightarrow> Some (b, Inl (S ''unknown tab''))
      | Some t \<Rightarrow>
          (let lf = t_life t
           in if lf_phase lf = PhDiscarding \<or> lf_release lf \<noteq> None
              then Some (set_life t (lf\<lparr>lf_wake_requested := True\<rparr>) b, Inr ())
              else if lf_phase lf \<noteq> PhSleeping \<and> lf_phase lf \<noteq> PhRestoreFailed
              then Some (b, Inl (S ''tab-is-not-sleeping''))
              else do {
                rq \<leftarrow> t_request t;
                if \<not> idempotent rq
                then Some (set_life t (lf\<lparr>lf_phase := PhRestoreFailed,
                             lf_reason := S ''reload-requires-resubmission''\<rparr>) b, Inr ())
                else do {
                  let preview = lf_preview lf \<noteq> None;
                  let b1 = set_life t (lf\<lparr>lf_phase := PhWaking, lf_preview_surface := None,
                             lf_reason := [], lf_await_preview := preview\<rparr>) b;
                  b2 \<leftarrow> (if preview then Some b1 else schedule_current now i True b1);
                  Some (b2, Inr ()) } }))"

section \<open>Commands\<close>

definition sleeping_phase :: "tab_phase \<Rightarrow> bool" where
  "sleeping_phase p \<longleftrightarrow> p = PhSleeping \<or> p = PhDiscarding \<or> p = PhRestoreFailed"

definition select_tab :: "nat \<Rightarrow> nat \<Rightarrow> browser \<Rightarrow> (browser \<times> (str + unit)) option" where
  "select_tab now i b =
     (case find_tab i b of
        None \<Rightarrow> Some (b, Inl (S ''unknown tab '' @ dec i))
      | Some t \<Rightarrow>
          (let dormant = (case record_of (b_records b) i of
                 Some r \<Rightarrow> rec_residency r = Dormant | None \<Rightarrow> False);
               b1 = b\<lparr>b_active := i\<rparr>
           in do { b2 \<leftarrow> (if sleeping_phase (lf_phase (t_life t))
                          then map_option fst (request_wake now i b1)
                          else if dormant then schedule_current now i False b1 else Some b1);
                   Some (b2, Inr ()) }))"

definition open_tab_record ::
  "net_ext \<Rightarrow> nat \<Rightarrow> str option \<Rightarrow> bool \<Rightarrow> browser \<Rightarrow> (browser \<times> (str + frontend_tab)) option" where
  "open_tab_record ext now input select b =
     do {
       requested \<leftarrow> (case input of
          Some raw \<Rightarrow> Some (request_from_input ext raw)
        | None \<Rightarrow> do { u \<leftarrow> url_parse ext NEW_TAB_URL; Some (Some (browser_request ext u)) });
       case requested of
         None \<Rightarrow> Some (b, Inl (S ''invalid URL '' @ (case input of Some raw \<Rightarrow> raw | None \<Rightarrow> [])))
       | Some rq \<Rightarrow>
           (let i = b_next_tab_id b
            in case admit (b_records b) i of
                 Inl e \<Rightarrow> Some (b, Inl e)
               | Inr r \<Rightarrow>
                   (case checked_add i 1 of
                      None \<Rightarrow> Some (b\<lparr>b_records := r\<rparr>, Inl (S ''tab-id-exhausted''))
                    | Some n \<Rightarrow>
                        do {
                          let b1 = b\<lparr>b_records := r, b_next_tab_id := n, b_tabs := b_tabs b @ [new_tab now i rq],
                                 b_active := (if select then i else b_active b)\<rparr>;
                          b2 \<leftarrow> (if select then schedule_current now i False b1 else Some b1);
                          t \<leftarrow> find_tab i b2;
                          s \<leftarrow> snapshot now t;
                          Some (b2, Inr s) })) }"

text \<open>\<open>close_tab_locked\<close>: removing the tab drops its lifecycle record.\<close>

definition close_tab_locked :: "nat \<Rightarrow> browser \<Rightarrow> browser \<times> bool" where
  "close_tab_locked i b =
     (if length (b_tabs b) = 1 then (b, False)
      else case position (\<lambda>t. t_id t = i) (b_tabs b) of
             None \<Rightarrow> (b, False)
           | Some k \<Rightarrow>
               (let rest = remove_at k (b_tabs b)
                in (b\<lparr>b_tabs := rest, b_records := remove (b_records b) i,
                      b_world := life_drop (t_life (b_tabs b ! k)) (b_world b),
                      b_active := (if b_active b = i then t_id (rest ! min k (length rest - 1))
                                   else b_active b)\<rparr>, True)))"

definition close_tab :: "nat \<Rightarrow> nat \<Rightarrow> browser \<Rightarrow> browser option" where
  "close_tab now i b =
     (case close_tab_locked i b of
        (b', False) \<Rightarrow> Some b'
      | (b', True) \<Rightarrow> map_option fst (select_tab now (b_active b') b'))"

definition close_active_tab :: "nat \<Rightarrow> browser \<Rightarrow> browser option" where
  "close_active_tab now b = close_tab now (b_active b) b"

definition navigate :: "net_ext \<Rightarrow> nat \<Rightarrow> nat \<Rightarrow> str \<Rightarrow> browser \<Rightarrow> (browser \<times> bool) option" where
  "navigate ext now i input b =
     (case request_from_input ext input of
        None \<Rightarrow> Some (b, False)
      | Some rq \<Rightarrow> navigate_request now i rq b)"

definition go_back :: "net_ext \<Rightarrow> nat \<Rightarrow> nat \<Rightarrow> browser \<Rightarrow> browser option" where
  "go_back ext now i b =
     (case find_tab i b of None \<Rightarrow> Some b
      | Some t \<Rightarrow>
          if t_current t = 0 then Some b
          else schedule_browser_navigation ext now i False
                 (put_tab (t\<lparr>t_current := t_current t - 1, t_title := []\<rparr>) b))"

definition go_forward :: "net_ext \<Rightarrow> nat \<Rightarrow> nat \<Rightarrow> browser \<Rightarrow> browser option" where
  "go_forward ext now i b =
     (case find_tab i b of None \<Rightarrow> Some b
      | Some t \<Rightarrow>
          if length (t_history t) \<le> t_current t + 1 then Some b
          else schedule_browser_navigation ext now i False
                 (put_tab (t\<lparr>t_current := t_current t + 1, t_title := []\<rparr>) b))"

definition reload :: "net_ext \<Rightarrow> nat \<Rightarrow> nat \<Rightarrow> browser \<Rightarrow> browser option" where
  "reload ext now i b =
     (if (case find_tab i b of None \<Rightarrow> False | Some t \<Rightarrow> sleeping_phase (lf_phase (t_life t)))
      then map_option fst (request_wake now i b)
      else schedule_browser_navigation ext now i True b)"

definition set_panel_collapsed :: "bool \<Rightarrow> browser \<Rightarrow> browser" where
  "set_panel_collapsed collapsed b = b\<lparr>b_panel := (b_panel b)\<lparr>pn_collapsed := collapsed\<rparr>\<rparr>"

definition toggle_section :: "str \<Rightarrow> browser \<Rightarrow> str + browser" where
  "toggle_section name b =
     (let p = pn_sections (b_panel b); put = (\<lambda>q. Inr (b\<lparr>b_panel := (b_panel b)\<lparr>pn_sections := q\<rparr>\<rparr>))
      in if name = S ''page'' then put (p\<lparr>pn_page := \<not> pn_page p\<rparr>)
         else if name = S ''history'' then put (p\<lparr>pn_history := \<not> pn_history p\<rparr>)
         else if name = S ''network'' then put (p\<lparr>pn_network := \<not> pn_network p\<rparr>)
         else if name = S ''console'' then put (p\<lparr>pn_console := \<not> pn_console p\<rparr>)
         else if name = S ''debugging'' then put (p\<lparr>pn_debugging := \<not> pn_debugging p\<rparr>)
         else Inl (S ''unknown panel section '' @ name))"

text \<open>\<open>attach_app\<close> schedules the first tab.\<close>

definition attach_app :: "nat \<Rightarrow> browser \<Rightarrow> browser option" where
  "attach_app now b = schedule_current now 0 False b"

end
