(* ===== verification/Tab_Lifecycle.thy ===== *)
theory Tab_Lifecycle
  imports Browser_Ops
begin

text \<open>
  Putting a tab to sleep, bringing it back and attaching what a fetch delivered
  (\<^verbatim>\<open>src/apps/chuzz/src/tab_lifecycle.rs\<close>, \<open>poll_document\<close> of \<^verbatim>\<open>src/apps/chuzz/src/browser.rs\<close>).

  The window's document, its embedded pages and the script engine are outside the repository.
  What the code asks of them while it handles one message is a value of \<open>ui_obs\<close>; what a freshly
  built page does is a function from the bundle and its restored state to \<open>page_obs\<close>. Handlers
  of a page may navigate their own tab while it is being frozen or built: those requests are
  part of the observation and run through \<open>navigate_request\<close>.
\<close>

record ui_obs =
  ui_subdoc :: "nat \<Rightarrow> nat option" \<comment> \<open>the document embedded at a mount node\<close>
  ui_title_cap :: nat
  ui_history_cap :: nat
  ui_freeze_navs :: "request list" \<comment> \<open>navigations of the page's own handlers\<close>
  ui_freeze_drops :: "nat list" \<comment> \<open>charges those handlers give back\<close>
  ui_fields :: "field_obs list"
  ui_slack :: "str \<Rightarrow> nat option"
  ui_grow :: "nat \<Rightarrow> nat"
  ui_scroll :: scroll_state
  ui_stash_disabled :: bool
  ui_session :: "session_store option"
  ui_url_hint :: "nat option"
  ui_view_width :: nat
  ui_view_height :: nat
  ui_renders :: "(nat \<times> nat \<times> bytes) list"
  ui_retire :: "nat \<Rightarrow> nat option" \<comment> \<open>the teardown receipt of a retired document\<close>
  ui_saved_node :: "nat \<Rightarrow> nat option" \<comment> \<open>the element \<open>chuzz-saved-<id>\<close>\<close>
  ui_id :: nat
  ui_complete :: "nat \<Rightarrow> bool"

section \<open>Committing a sleep\<close>

definition record_bytes :: "layout \<Rightarrow> ui_obs \<Rightarrow> tab_state \<Rightarrow> nat" where
  "record_bytes lay ui t =
     sz_tab_state lay + ui_title_cap ui + ui_history_cap ui * sz_request lay
     + sum_list (map (\<lambda>rq. utf8_len (url_str (rq_url rq))) (t_history t))"

text \<open>The tab a sleep message names, when it may go to sleep now.\<close>

definition sleep_refused :: "nat \<Rightarrow> bool \<Rightarrow> tab_state \<Rightarrow> world \<Rightarrow> bool" where
  "sleep_refused now automatic t w \<longleftrightarrow>
     (t_loading t \<and> \<not> automatic) \<or> lf_phase (t_life t) \<noteq> PhLive
     \<or> (automatic \<and> (lf_visible (t_life t)
          \<or> (case lf_deadline (t_life t) of None \<Rightarrow> True | Some d \<Rightarrow> now < dl_due (w_deadlines w ! d))))"

definition drop_previews :: "browser \<Rightarrow> browser" where
  "drop_previews b =
     b\<lparr>b_tabs := map (\<lambda>t. t\<lparr>t_life := (t_life t)\<lparr>lf_preview := None\<rparr>\<rparr>) (b_tabs b),
       b_world := (b_world b)\<lparr>w_budget := foldl drop_paint (w_budget (b_world b))
         (map (\<lambda>t. lf_preview (t_life t)) (b_tabs b))\<rparr>\<rparr>"

definition set_budget :: "ledger \<Rightarrow> browser \<Rightarrow> browser" where
  "set_budget l b = b\<lparr>b_world := (b_world b)\<lparr>w_budget := l\<rparr>\<rparr>"

text \<open>The record charge: every preview is given up before a sleep is refused.\<close>

definition reserve_record :: "browser \<Rightarrow> browser \<times> nat option" where
  "reserve_record b =
     (case reserve (w_budget (b_world b)) (32 * 1024) of
        Inr (c, l) \<Rightarrow> (set_budget l b, Some c)
      | Inl _ \<Rightarrow>
          (let b' = drop_previews b
           in case reserve (w_budget (b_world b')) (32 * 1024) of
                Inr (c, l) \<Rightarrow> (set_budget l b', Some c)
              | Inl _ \<Rightarrow> (b', None)))"

text \<open>What is kept of the frozen page.\<close>

definition capture_state ::
  "layout \<Rightarrow> ui_obs \<Rightarrow> nat \<Rightarrow> bool \<Rightarrow> stash_location \<Rightarrow> bool \<Rightarrow> ledger
   \<Rightarrow> (ledger \<times> page_stash option \<times> paint_snapshot option) option" where
  "capture_state lay ui now busy location replayable l =
     (let forms = (if busy then [] else capture_forms lay (ui_slack ui) (ui_fields ui));
          disabled = busy \<or> ui_stash_disabled ui
      in do {
           (l1, session) \<leftarrow>
              (if disabled then Some (l, None)
               else case ui_session ui of None \<Rightarrow> Some (l, None)
                    | Some st \<Rightarrow> do { (l', _, s) \<leftarrow> capture_store lay l st; Some (l', s) });
           let (l2, stash) =
              (if disabled then (l1, None)
               else case page_seal lay (ui_url_hint ui) l1 location replayable forms
                           (pushed_capacity (ui_grow ui) 0 0 (length forms)) session (ui_scroll ui) 0 of
                      (l', Inl _) \<Rightarrow> (l', None) | (l', Inr s) \<Rightarrow> (l', Some s));
           (l3, preview) \<leftarrow>
              (if is_tuple (url_origin (loc_url location))
               then capture_paint lay l2 now (ui_stash_disabled ui) (ui_view_width ui)
                      (ui_view_height ui) (ui_renders ui)
               else Some (l2, None));
           Some (l3, stash, preview) })"

text \<open>Sleeping history keeps method, destination and URL only.\<close>

definition sleeping_request :: "net_ext \<Rightarrow> request \<Rightarrow> request" where
  "sleeping_request ext rq =
     (request_get ext (rq_url rq))\<lparr>rq_method := rq_method rq, rq_destination := rq_destination rq\<rparr>"

definition discard_tab ::
  "net_ext \<Rightarrow> tab_state \<Rightarrow> page_stash option \<Rightarrow> paint_snapshot option \<Rightarrow> nat \<Rightarrow> world
   \<Rightarrow> (tab_state \<times> world) option" where
  "discard_tab ext t stash preview charge w =
     do { (lf1, w1) \<leftarrow> life_cancel_deadline (t_life t) w;
          g \<leftarrow> checked_add (t_generation t) 1;
          let (lf2, w2) = life_cancel_restore (lf1\<lparr>lf_phase := PhDiscarding, lf_visible := False,
                lf_discarded := True\<rparr>) w1;
          let (lf3, w3) = life_abort_load lf2 w2;
          let w4 = w3\<lparr>w_budget := drop_charge (drop_paint (drop_stash (w_budget w3) (lf_stash lf3))
                (lf_preview lf3)) (lf_record_charge lf3)\<rparr>;
          Some (t\<lparr>t_generation := g, t_mounted := None, t_loading := False,
                  t_history := map (sleeping_request ext) (t_history t),
                  t_life := lf3\<lparr>lf_stash := stash, lf_preview := preview, lf_record_charge := Some charge,
                     lf_reason := (if stash \<noteq> None then [] else S ''stash-incomplete'')\<rparr>\<rparr>, w4) }"

definition track_release :: "nat \<Rightarrow> nat \<Rightarrow> browser \<Rightarrow> browser" where
  "track_release i receipt b =
     (let b1 = (case find_tab i b of None \<Rightarrow> b
                | Some t \<Rightarrow> set_life t ((t_life t)\<lparr>lf_release := Some receipt\<rparr>) b)
      in b1\<lparr>b_releases := b_releases b1 @ [(i, receipt)]\<rparr>)"

text \<open>The spawned task of \<open>track_release\<close>, once the receipt is complete.\<close>

definition run_release :: "nat \<Rightarrow> browser \<Rightarrow> browser" where
  "run_release k b =
     (if length (b_releases b) \<le> k then b
      else case b_releases b ! k of
             (i, receipt) \<Rightarrow> b\<lparr>b_releases := remove_at k (b_releases b),
                b_lifecycle := b_lifecycle b @ [MReleased i receipt]\<rparr>)"

definition find_sleep :: "nat \<Rightarrow> nat \<Rightarrow> nat \<Rightarrow> browser \<Rightarrow> tab_state option" where
  "find_sleep i g e b =
     find (\<lambda>t. t_id t = i \<and> t_generation t = g \<and> lf_epoch (t_life t) = e) (b_tabs b)"

text \<open>From the phase \<open>Freezing\<close> on: the page's handlers run, then its state is captured and the
  page is retired.\<close>

definition discard_frozen ::
  "net_ext \<Rightarrow> layout \<Rightarrow> ui_obs \<Rightarrow> nat \<Rightarrow> tab_state \<Rightarrow> request \<Rightarrow> nat \<Rightarrow> nat \<Rightarrow> browser
   \<Rightarrow> (browser \<times> bool) option" where
  "discard_frozen ext lay ui now t rq mount charge b =
     (let i = t_id t; g = t_generation t;
          l1 = foldl (\<lambda>l c. fst (arc_drop l c)) (w_budget (b_world b)) (ui_freeze_drops ui);
          still_current = find_sleep i g (lf_epoch (t_life t)) b \<noteq> None;
          navigation_only = list_ex (\<lambda>u. t_id u = i \<and> t_generation u = g
              \<and> lf_phase (t_life u) = PhFreezing \<and> t_loading u) (b_tabs b)
      in if \<not> still_current \<and> \<not> navigation_only
         then Some (set_budget (fst (arc_drop l1 charge)) b, False)
         else do {
           (l2, stash, preview) \<leftarrow> capture_state lay ui now (t_loading t \<or> \<not> still_current)
              \<lparr>loc_url = rq_url rq, loc_entry = t_current t, loc_generation = g\<rparr> (idempotent rq) l1;
           case find_tab_at i g b of
             None \<Rightarrow> Some (set_budget (fst (arc_drop (drop_paint (drop_stash l2 stash) preview) charge)) b, False)
           | Some u \<Rightarrow>
               do { (u', w) \<leftarrow> discard_tab ext u stash preview charge ((b_world b)\<lparr>w_budget := l2\<rparr>);
                    let b2 = (put_tab u' b)\<lparr>b_world := w, b_records := loading (b_records b) i (t_generation u')\<rparr>;
                    Some (case ui_retire ui mount of
                            None \<Rightarrow> (b2, False)
                          | Some receipt \<Rightarrow> (track_release i receipt b2, True)) } })"

definition freeze_and_discard ::
  "net_ext \<Rightarrow> layout \<Rightarrow> ui_obs \<Rightarrow> nat \<Rightarrow> tab_state \<Rightarrow> request \<Rightarrow> nat \<Rightarrow> nat \<Rightarrow> browser
   \<Rightarrow> (browser \<times> bool) option" where
  "freeze_and_discard ext lay ui now t rq mount charge b =
     do { b1 \<leftarrow> page_navigations now (t_id t) (ui_freeze_navs ui) b;
          discard_frozen ext lay ui now t rq mount charge b1 }"

definition commit_sleep ::
  "net_ext \<Rightarrow> layout \<Rightarrow> ui_obs \<Rightarrow> nat \<Rightarrow> nat \<Rightarrow> nat \<Rightarrow> nat \<Rightarrow> bool \<Rightarrow> browser \<Rightarrow> (browser \<times> bool) option" where
  "commit_sleep ext lay ui now i g e automatic b =
     (case find_sleep i g e b of None \<Rightarrow> Some (b, False)
      | Some t \<Rightarrow>
          if sleep_refused now automatic t (b_world b) then Some (b, False)
          else case t_mounted t of None \<Rightarrow> Some (b, False)
               | Some page \<Rightarrow>
                   if ui_subdoc ui (mp_mount_node_id page) \<noteq> Some (mp_document_id page) then Some (b, False)
                   else do {
                     rq \<leftarrow> t_request t;
                     if 32 * 1024 < record_bytes lay ui t then Some (b, False)
                     else case reserve_record b of
                            (b1, None) \<Rightarrow> Some (b1, False)
                          | (b1, Some charge) \<Rightarrow>
                              (case find_tab i b1 of
                                 None \<Rightarrow> freeze_and_discard ext lay ui now t rq (mp_mount_node_id page) charge b1
                               | Some u \<Rightarrow> freeze_and_discard ext lay ui now t rq (mp_mount_node_id page) charge
                                   (set_life u ((t_life u)\<lparr>lf_phase := PhFreezing\<rparr>) b1)) })"

section \<open>A wake that takes too long\<close>

definition restore_timeout :: "ui_obs \<Rightarrow> nat \<Rightarrow> nat \<Rightarrow> browser \<Rightarrow> (browser \<times> bool) option" where
  "restore_timeout ui i g b =
     (case find (\<lambda>t. t_id t = i \<and> t_generation t = g \<and> lf_phase (t_life t) = PhWaking) (b_tabs b) of
        None \<Rightarrow> Some (b, False)
      | Some t \<Rightarrow>
          do { let (lf1, w1) = life_cancel_restore (t_life t) (b_world b);
               let (lf2, w2) = life_abort_load lf1 w1;
               g' \<leftarrow> checked_add (t_generation t) 1;
               let lf3 = lf2\<lparr>lf_phase := PhRestoreFailed, lf_visible := False,
                      lf_reason := S ''restore-timeout'', lf_preview_surface := None\<rparr>;
               let b1 = (put_tab (t\<lparr>t_generation := g', t_loading := False, t_mounted := None, t_life := lf3\<rparr>) b)
                      \<lparr>b_world := w2\<rparr>;
               Some (case t_mounted t of
                       None \<Rightarrow> b1
                     | Some page \<Rightarrow>
                         (case ui_retire ui (mp_mount_node_id page) of
                            None \<Rightarrow> b1 | Some receipt \<Rightarrow> track_release i receipt b1), True) })"

section \<open>Messages\<close>

definition on_released :: "ui_obs \<Rightarrow> nat \<Rightarrow> nat \<Rightarrow> nat \<Rightarrow> browser \<Rightarrow> (browser \<times> bool) option" where
  "on_released ui now i receipt b =
     (case find_tab i b of None \<Rightarrow> Some (b, False)
      | Some t \<Rightarrow>
          if lf_release (t_life t) \<noteq> Some receipt \<or> \<not> ui_complete ui receipt then Some (b, False)
          else
            (let lf = (t_life t)\<lparr>lf_release := None\<rparr>;
                 lf1 = (if lf_phase lf \<noteq> PhRestoreFailed then lf\<lparr>lf_phase := PhSleeping\<rparr> else lf);
                 b1 = (set_life t (lf1\<lparr>lf_wake_requested := False\<rparr>) b)\<lparr>b_records := sleeping (b_records b) i\<rparr>
             in if lf_wake_requested lf1
                then map_option (\<lambda>r. (fst r, True)) (request_wake now i b1)
                else Some (b1, True)))"

definition on_visibility :: "nat \<Rightarrow> page_surface \<Rightarrow> bool \<Rightarrow> browser \<Rightarrow> (browser \<times> bool) option" where
  "on_visibility now page visible b =
     (case find (\<lambda>t. t_id t = sf_tab_id page \<and> t_generation t = sf_generation page
              \<and> (case t_mounted t of None \<Rightarrow> False | Some m \<Rightarrow> mp_document_id m = sf_document_id page))
            (b_tabs b) of
        None \<Rightarrow> Some (b, False)
      | Some t \<Rightarrow>
          if lf_visible (t_life t) = visible then Some (b, False)
          else do { (lf, w) \<leftarrow> life_cancel_deadline ((t_life t)\<lparr>lf_visible := visible\<rparr>) (b_world b);
                    let lf1 = (if visible then lf else lf\<lparr>lf_hidden_at := now\<rparr>);
                    Some (arm_hidden (sf_tab_id page) ((set_life t lf1 b)\<lparr>b_world := w\<rparr>), True) })"

definition on_painted :: "nat \<Rightarrow> page_surface \<Rightarrow> browser \<Rightarrow> (browser \<times> bool) option" where
  "on_painted now page b =
     (case find_tab_at (sf_tab_id page) (sf_generation page) b of None \<Rightarrow> Some (b, False)
      | Some t \<Rightarrow>
          (let lf = t_life t
           in if lf_phase lf \<noteq> PhWaking then Some (b, False)
              else if lf_await_preview lf \<and> lf_preview_surface lf = Some page
              then map_option (\<lambda>b'. (b', True))
                     (schedule_current now (sf_tab_id page) True (set_life t (lf\<lparr>lf_await_preview := False\<rparr>) b))
              else if (case t_mounted t of None \<Rightarrow> True | Some m \<Rightarrow> mp_document_id m \<noteq> sf_document_id page)
              then Some (b, False)
              else
                (case life_cancel_restore (lf\<lparr>lf_phase := PhLive\<rparr>) (b_world b) of
                   (lf1, w1) \<Rightarrow>
                     (case life_take_saved lf1 w1 of
                        (lf2, w2) \<Rightarrow> Some ((set_life t lf2 b)\<lparr>b_world := w2\<rparr>, True)))))"

fun on_message ::
  "net_ext \<Rightarrow> layout \<Rightarrow> ui_obs \<Rightarrow> nat \<Rightarrow> lifecycle_message \<Rightarrow> browser \<Rightarrow> (browser \<times> bool) option" where
  "on_message ext lay ui now (MRestoreTimeout i g) b = restore_timeout ui i g b"
| "on_message ext lay ui now (MSleep i g e automatic) b = commit_sleep ext lay ui now i g e automatic b"
| "on_message ext lay ui now (MReleased i receipt) b = on_released ui now i receipt b"
| "on_message ext lay ui now (MSurface (Visibility page visible)) b = on_visibility now page visible b"
| "on_message ext lay ui now (MSurface (Painted page)) b = on_painted now page b"

text \<open>The drained queue, surface events first; the sort is stable.\<close>

definition is_surface :: "lifecycle_message \<Rightarrow> bool" where
  "is_surface m = (case m of MSurface _ \<Rightarrow> True | _ \<Rightarrow> False)"

definition sorted_messages :: "lifecycle_message list \<Rightarrow> lifecycle_message list" where
  "sorted_messages ms = sort_key (\<lambda>m. if is_surface m then 0 else (1 :: nat)) ms"

text \<open>\<open>uis k\<close> is the document as the k-th message finds it.\<close>

fun message_loop ::
  "net_ext \<Rightarrow> layout \<Rightarrow> (nat \<Rightarrow> ui_obs) \<Rightarrow> nat \<Rightarrow> nat \<Rightarrow> lifecycle_message list \<Rightarrow> browser \<Rightarrow> (browser \<times> bool) option" where
  "message_loop ext lay uis now k [] b = Some (b, False)"
| "message_loop ext lay uis now k (m # ms) b =
     do { (b1, c1) \<leftarrow> on_message ext lay (uis k) now m b;
          (b2, c2) \<leftarrow> message_loop ext lay uis now (Suc k) ms b1;
          Some (b2, c1 \<or> c2) }"

text \<open>The saved picture of the selected tab.\<close>

definition show_saved :: "ui_obs \<Rightarrow> browser \<Rightarrow> (browser \<times> bool) option" where
  "show_saved ui b =
     (case find (\<lambda>t. t_id t = b_active b \<and> lf_preview (t_life t) \<noteq> None
              \<and> lf_preview_surface (t_life t) = None) (b_tabs b) of
        None \<Rightarrow> Some (b, False)
      | Some t \<Rightarrow>
          (case (lf_preview (t_life t), ui_saved_node ui (t_id t)) of
             (Some preview, Some node) \<Rightarrow>
               do { shown \<leftarrow> show_preview preview;
                    Some (if shown = None then (b, False)
                          else (set_life t ((t_life t)\<lparr>lf_preview_surface :=
                                  Some \<lparr>sf_tab_id = t_id t, sf_generation = t_generation t,
                                     sf_owner_document_id = ui_id ui, sf_mount_node_id = node,
                                     sf_document_id = ui_id ui\<rparr>\<rparr>) b, True)) }
           | _ \<Rightarrow> Some (b, False)))"

definition poll_lifecycle ::
  "net_ext \<Rightarrow> layout \<Rightarrow> (nat \<Rightarrow> ui_obs) \<Rightarrow> nat \<Rightarrow> browser \<Rightarrow> (browser \<times> bool) option" where
  "poll_lifecycle ext lay uis now b =
     (let ms = sorted_messages (b_lifecycle b)
      in do { (b1, c1) \<leftarrow> message_loop ext lay uis now 0 ms (b\<lparr>b_lifecycle := []\<rparr>);
              (b2, c2) \<leftarrow> show_saved (uis (length ms)) b1;
              Some (b2, c1 \<or> c2) })"

section \<open>Attaching a finished load\<close>

record prepared =
  pr_was_discarded :: bool
  pr_restore :: "page_stash option"
  pr_input_blocked :: bool
  pr_scroll :: "scroll_state option"
  pr_store :: "(origin \<times> session_bucket option) option"

record page_obs =
  po_navs :: "request list" \<comment> \<open>navigations of the page's scripts while it is built\<close>
  po_title :: str
  po_document_id :: nat
  po_owner_id :: nat
  po_viewport :: "nat option"
  po_receipt :: nat
  po_receipt_complete :: bool

text \<open>\<open>prepare_tab_page\<close>: what a page that is built for a tab gets back. Only a stash of the same
  history entry and document is restored; the page and its session store then share it.\<close>

definition prepare_tab_page :: "net_ext \<Rightarrow> nat \<Rightarrow> nat \<Rightarrow> str \<Rightarrow> browser \<Rightarrow> browser \<times> prepared" where
  "prepare_tab_page ext i g address b =
     (let destination = url_parse ext address;
          tab = find_tab_at i g b;
          discarded = (case tab of Some t \<Rightarrow> lf_discarded (t_life t) | None \<Rightarrow> False);
          restore = do { t \<leftarrow> tab; u \<leftarrow> destination; st \<leftarrow> lf_stash (t_life t);
                         case stash_restore st u (t_current t) of Inl _ \<Rightarrow> None | Inr st' \<Rightarrow> Some st' };
          waking = list_ex (\<lambda>t. t_id t = i \<and> t_generation t = g \<and> lf_phase (t_life t) = PhWaking) (b_tabs b);
          l = w_budget (b_world b);
          l1 = (case restore of None \<Rightarrow> l
                | Some st \<Rightarrow> (let l' = arc_clone l (ps_charge st)
                              in case ps_session st of None \<Rightarrow> l' | Some s \<Rightarrow> arc_clone l' (sb_charge s)))
      in (set_budget l1 b,
          \<lparr>pr_was_discarded = discarded, pr_restore = restore, pr_input_blocked = waking,
           pr_scroll = do { st \<leftarrow> restore; u \<leftarrow> destination;
                            if url_fragment u = None then Some (ps_scroll st) else None },
           pr_store = map_option (\<lambda>u. (url_origin u, do { st \<leftarrow> restore; ps_session st })) destination\<rparr>))"

definition attached_tab ::
  "nat \<Rightarrow> page_bundle \<Rightarrow> nat \<Rightarrow> page_obs \<Rightarrow> str \<Rightarrow> bool \<Rightarrow> request list \<Rightarrow> tab_state \<Rightarrow> tab_state" where
  "attached_tab now p target po title script h t =
     (let lf = (t_life t)\<lparr>lf_visible := False, lf_preview_surface := None\<rparr>;
          lf1 = (if lf_ever_live lf then lf else lf\<lparr>lf_hidden_at := now, lf_ever_live := True\<rparr>);
          lf2 = (if lf_phase lf1 \<noteq> PhWaking then lf1\<lparr>lf_phase := PhLive\<rparr> else lf1)
      in t\<lparr>t_mounted_generation := (t_mounted_generation t + 1) mod 2 ^ 64,
           t_mounted := Some \<lparr>mp_owner_document_id = po_owner_id po, mp_mount_node_id = target,
             mp_viewport_node_id = po_viewport po, mp_document_id = po_document_id po, mp_script = script\<rparr>,
           t_history := h, t_title := title, t_loading := False, t_life := lf2, t_outcome := pb_outcome p\<rparr>)"

definition attach_page ::
  "net_ext \<Rightarrow> nat \<Rightarrow> page_bundle \<Rightarrow> nat \<Rightarrow> page_obs \<Rightarrow> str \<Rightarrow> bool \<Rightarrow> browser \<Rightarrow> (browser \<times> bool) option" where
  "attach_page ext now p target po title script b =
     (case find_tab_at (pb_tab p) (pb_generation p) b of None \<Rightarrow> Some (b, False)
      | Some t \<Rightarrow>
          do {
            h \<leftarrow> (case url_parse ext (pb_resolved_url p) of
                    Some u \<Rightarrow> do { rq \<leftarrow> t_request t; Some ((t_history t)[t_current t := rq\<lparr>rq_url := u\<rparr>]) }
                  | None \<Rightarrow> Some (t_history t));
            Some (arm_hidden (pb_tab p)
                 ((put_tab (attached_tab now p target po title script h t) b)
                    \<lparr>b_records := attached (b_records b) (pb_tab p) (pb_generation p)\<rparr>), True) })"

definition fail_wake :: "page_bundle \<Rightarrow> page_obs \<Rightarrow> browser \<Rightarrow> browser" where
  "fail_wake p po b =
     (let b1 = (case find_tab_at (pb_tab p) (pb_generation p) b of None \<Rightarrow> b
                | Some t \<Rightarrow>
                    (case life_cancel_restore ((t_life t)\<lparr>lf_phase := PhRestoreFailed\<rparr>) (b_world b) of
                       (lf, w) \<Rightarrow>
                         (put_tab (t\<lparr>t_loading := False, t_outcome := pb_outcome p,
                            t_life := lf\<lparr>lf_reason := S ''reload-failed'', lf_preview_surface := None\<rparr>\<rparr>) b)
                            \<lparr>b_world := w\<rparr>))
      in if po_receipt_complete po then b1 else track_release (pb_tab p) (po_receipt po) b1)"

text \<open>One pass of the loop of \<open>poll_document\<close>: the bundle is dropped, retained or attached.\<close>

definition poll_bundle ::
  "net_ext \<Rightarrow> (nat \<Rightarrow> nat option) \<Rightarrow> (page_bundle \<Rightarrow> prepared option \<Rightarrow> page_obs) \<Rightarrow> nat \<Rightarrow> page_bundle \<Rightarrow> browser
   \<Rightarrow> (browser \<times> page_bundle list \<times> bool) option" where
  "poll_bundle ext page_node obs now p b =
     (case find_tab (pb_tab p) b of None \<Rightarrow> Some (b, [], False)
      | Some t \<Rightarrow>
          if t_generation t \<noteq> pb_generation p then Some (b, [], False)
          else case page_node (pb_tab p) of None \<Rightarrow> Some (b, [p], False)
               | Some target \<Rightarrow>
                   do {
                     (b1, po, title, script) \<leftarrow>
                       (case pb_source p of
                          Html _ _ \<Rightarrow>
                            (case prepare_tab_page ext (pb_tab p) (pb_generation p) (pb_resolved_url p) b of
                               (b', pr) \<Rightarrow>
                                 do { b'' \<leftarrow> page_navigations now (pb_tab p) (po_navs (obs p (Some pr))) b';
                                      Some (b'', obs p (Some pr), po_title (obs p (Some pr)), True) })
                        | Source _ \<Rightarrow>
                            Some (b, obs p None, S ''source of '' @ pb_resolved_url p, False));
                     let failed_wake = pb_outcome p = OutError
                       \<and> list_ex (\<lambda>t. t_id t = pb_tab p \<and> lf_phase (t_life t) = PhWaking) (b_tabs b1);
                     if failed_wake then Some (fail_wake p po b1, [], True)
                     else do { (b2, c) \<leftarrow> attach_page ext now p target po title script b1;
                               Some (b2, [], c) } })"

fun bundle_loop ::
  "net_ext \<Rightarrow> (nat \<Rightarrow> nat option) \<Rightarrow> (page_bundle \<Rightarrow> prepared option \<Rightarrow> page_obs) \<Rightarrow> nat \<Rightarrow> page_bundle list \<Rightarrow> browser
   \<Rightarrow> (browser \<times> page_bundle list \<times> bool) option" where
  "bundle_loop ext page_node obs now [] b = Some (b, [], False)"
| "bundle_loop ext page_node obs now (p # ps) b =
     do { (b1, kept, c1) \<leftarrow> poll_bundle ext page_node obs now p b;
          (b2, rest, c2) \<leftarrow> bundle_loop ext page_node obs now ps b1;
          Some (b2, kept @ rest, c1 \<or> c2) }"

definition poll_document ::
  "net_ext \<Rightarrow> layout \<Rightarrow> (nat \<Rightarrow> ui_obs) \<Rightarrow> (nat \<Rightarrow> nat option)
   \<Rightarrow> (page_bundle \<Rightarrow> prepared option \<Rightarrow> page_obs) \<Rightarrow> nat \<Rightarrow> page_bundle list \<Rightarrow> browser
   \<Rightarrow> (browser \<times> page_bundle list \<times> bool) option" where
  "poll_document ext lay uis page_node obs now pending b =
     (let todo = pending @ b_completed b
      in do { (b1, c1) \<leftarrow> poll_lifecycle ext lay uis now (b\<lparr>b_completed := []\<rparr>);
              (b2, retained, c2) \<leftarrow> bundle_loop ext page_node obs now todo b1;
              Some (b2, retained, c1 \<or> c2) })"

end
