(* ===== verification/Browser_Inv.thy ===== *)
theory Browser_Inv
  imports Tab_Lifecycle
begin

text \<open>
  The invariant of the browser and its preservation. \<open>keeps c b r\<close> says of an operation with result
  \<open>r\<close> in state \<open>b\<close> that it does not panic, keeps the invariant, never turns a generation or a deadline
  token back, and uses up at most \<open>c\<close> values of those counters.
\<close>

section \<open>Invariant\<close>

definition preview_ok :: "tab_life \<Rightarrow> bool" where
  "preview_ok lf = (case lf_preview lf of None \<Rightarrow> True | Some p \<Rightarrow> pt_width p \<le> 512 \<and> pt_height p \<le> 288)"

definition tab_ok :: "tab_state \<Rightarrow> bool" where
  "tab_ok t \<longleftrightarrow> t_current t < length (t_history t) \<and> length (t_history t) \<le> 128 \<and> preview_ok (t_life t)"

text \<open>Tab \<open>i\<close>, if it is open, has reached generation \<open>g\<close> and deadline token \<open>e\<close>.\<close>

definition reached :: "browser \<Rightarrow> nat \<Rightarrow> nat \<Rightarrow> nat \<Rightarrow> bool" where
  "reached b i g e \<longleftrightarrow> i < b_next_tab_id b
     \<and> (\<forall>t\<in>set (b_tabs b). t_id t = i \<longrightarrow> g \<le> t_generation t \<and> e \<le> lf_epoch (t_life t))"

fun message_ok :: "browser \<Rightarrow> lifecycle_message \<Rightarrow> bool" where
  "message_ok b (MSleep i g e a) = reached b i g e"
| "message_ok b (MRestoreTimeout i g) = reached b i g 0"
| "message_ok b (MReleased i r) = True"
| "message_ok b (MSurface s) = True"

fun timer_ok :: "browser \<Rightarrow> timer_task \<Rightarrow> bool" where
  "timer_ok b (HiddenTimer i d) \<longleftrightarrow> d < length (w_deadlines (b_world b))
     \<and> reached b i (dl_generation (w_deadlines (b_world b) ! d)) (dl_epoch (w_deadlines (b_world b) ! d))"
| "timer_ok b (RestoreTimer i g d) \<longleftrightarrow> d < length (w_deadlines (b_world b)) \<and> reached b i g 0"

definition browser_inv :: "browser \<Rightarrow> bool" where
  "browser_inv b \<longleftrightarrow>
     b_tabs b \<noteq> [] \<and> distinct (map t_id (b_tabs b)) \<and> b_active b \<in> set (map t_id (b_tabs b))
     \<and> (\<forall>t\<in>set (b_tabs b). tab_ok t \<and> t_id t < b_next_tab_id b \<and> t_id t \<in> reg_ids (b_records b))
     \<and> registry_inv (b_records b) \<and> ledger_inv (w_budget (b_world b))
     \<and> (\<forall>p\<in>set (b_completed b). reached b (pb_tab p) (pb_generation p) 0)
     \<and> (\<forall>f\<in>set (b_fetches b). reached b (fk_tab f) (fk_generation f) 0)
     \<and> (\<forall>m\<in>set (b_lifecycle b). message_ok b m) \<and> (\<forall>x\<in>set (b_timers b). timer_ok b x)"

definition room :: "nat \<Rightarrow> browser \<Rightarrow> bool" where
  "room k b \<longleftrightarrow> (\<forall>t\<in>set (b_tabs b). lf_epoch (t_life t) + k \<le> u64_max \<and> t_generation t + k \<le> u64_max)"

definition forward :: "browser \<Rightarrow> browser \<Rightarrow> bool" where
  "forward b b' \<longleftrightarrow> (\<forall>i g e. reached b i g e \<longrightarrow> reached b' i g e)"

definition keeps :: "nat \<Rightarrow> browser \<Rightarrow> browser option \<Rightarrow> bool" where
  "keeps c b r \<longleftrightarrow> (browser_inv b \<longrightarrow> (\<forall>k. room (c + k) b \<longrightarrow>
     (\<exists>b'. r = Some b' \<and> browser_inv b' \<and> room k b' \<and> forward b b')))"

lemma forward_refl [simp]: "forward b b" by (simp add: forward_def)

lemma forward_trans: "forward a b \<Longrightarrow> forward b c \<Longrightarrow> forward a c" by (simp add: forward_def)

lemma room_le: "room k b \<Longrightarrow> j \<le> k \<Longrightarrow> room j b"
  by (force simp: room_def)

lemma keeps_refl [simp]: "keeps c b (Some b)"
  by (auto simp: keeps_def intro: room_le)

lemma keeps_mono: "keeps c b r \<Longrightarrow> c \<le> d \<Longrightarrow> keeps d b r"
  unfolding keeps_def by (meson add_le_mono1 room_le)

lemma keepsI:
  assumes "\<And>k. browser_inv b \<Longrightarrow> room (c + k) b \<Longrightarrow>
    \<exists>b'. r = Some b' \<and> browser_inv b' \<and> room k b' \<and> forward b b'"
  shows "keeps c b r"
  using assms by (simp add: keeps_def)

lemma keeps_bind:
  assumes "keeps c b r"
    and "\<And>b'. r = Some b' \<Longrightarrow> browser_inv b' \<Longrightarrow> forward b b' \<Longrightarrow> keeps d b' (f b')"
  shows "keeps (c + d) b (r \<bind> f)"
proof (rule keepsI)
  fix k assume inv: "browser_inv b" and "room (c + d + k) b"
  then have "room (c + (d + k)) b" by (simp add: add.assoc)
  with inv assms(1) obtain b1 where b1: "r = Some b1" "browser_inv b1" "room (d + k) b1" "forward b b1"
    unfolding keeps_def by blast
  with assms(2) obtain b2 where "f b1 = Some b2" "browser_inv b2" "room k b2" "forward b1 b2"
    unfolding keeps_def by blast
  with b1 show "\<exists>b'. r \<bind> f = Some b' \<and> browser_inv b' \<and> room k b' \<and> forward b b'"
    by (auto intro: forward_trans)
qed

lemma keeps_trans:
  assumes "keeps c b (Some b1)" and "browser_inv b1 \<Longrightarrow> forward b b1 \<Longrightarrow> keeps d b1 r"
  shows "keeps (c + d) b r"
  using keeps_bind [of c b "Some b1" d "\<lambda>_. r"] assms by simp

lemma keeps_then:
  assumes "keeps c b (Some b1)" and "browser_inv b1 \<Longrightarrow> forward b b1 \<Longrightarrow> keeps 0 b1 r"
  shows "keeps c b r"
  using keeps_trans [OF assms] by simp

lemma keeps_assume_inv: "(browser_inv b \<Longrightarrow> keeps c b r) \<Longrightarrow> keeps c b r"
  by (simp add: keeps_def)

section \<open>Finding and putting tabs\<close>

lemma find_tab_SomeD: "find_tab i b = Some t \<Longrightarrow> t \<in> set (b_tabs b) \<and> t_id t = i"
  by (auto simp: find_tab_def dest: find_SomeD)

lemma find_tab_atD: "find_tab_at i g b = Some t \<Longrightarrow> t \<in> set (b_tabs b) \<and> t_id t = i \<and> t_generation t = g"
  by (auto simp: find_tab_at_def dest: find_SomeD)

lemma browser_inv_tab:
  "browser_inv b \<Longrightarrow> t \<in> set (b_tabs b) \<Longrightarrow> tab_ok t \<and> t_id t < b_next_tab_id b \<and> t_id t \<in> reg_ids (b_records b)"
  by (simp add: browser_inv_def)

lemma find_tab_mem: "browser_inv b \<Longrightarrow> t \<in> set (b_tabs b) \<Longrightarrow> find_tab (t_id t) b = Some t"
  by (auto simp: find_tab_def browser_inv_def intro: find_key_mem)

lemma put_tab_fields [simp]:
  "b_records (put_tab t b) = b_records b" "b_active (put_tab t b) = b_active b"
  "b_next_tab_id (put_tab t b) = b_next_tab_id b" "b_lifecycle (put_tab t b) = b_lifecycle b"
  "b_completed (put_tab t b) = b_completed b" "b_world (put_tab t b) = b_world b"
  "b_timers (put_tab t b) = b_timers b" "b_fetches (put_tab t b) = b_fetches b"
  "b_releases (put_tab t b) = b_releases b" "b_sleep_delay (put_tab t b) = b_sleep_delay b"
  "b_panel (put_tab t b) = b_panel b"
  by (simp_all add: put_tab_def)

lemma put_tab_ids [simp]: "map t_id (b_tabs (put_tab t b)) = map t_id (b_tabs b)"
  unfolding put_tab_def by simp (rule map_map_first, simp)

lemma map_first_distinct:
  assumes "distinct (map f xs)" and "x \<in> set xs" and "f x = k"
  shows "set (map_first (\<lambda>y. f y = k) (\<lambda>_. z) xs) = insert z (set xs - {x})"
  using assms
proof (induction xs)
  case (Cons y ys)
  show ?case
  proof (cases "f y = k")
    case True
    with Cons.prems have "x = y" "y \<notin> set ys" by (auto simp: image_iff)
    with True show ?thesis by auto
  next
    case False
    with Cons show ?thesis by auto
  qed
qed simp

lemma put_tab_set:
  assumes "browser_inv b" and "t \<in> set (b_tabs b)" and "t_id t' = t_id t"
  shows "set (b_tabs (put_tab t' b)) = insert t' (set (b_tabs b) - {t})"
  using assms map_first_distinct [of t_id "b_tabs b" t "t_id t'" t']
  by (simp add: put_tab_def browser_inv_def)

lemma find_put_tab:
  assumes "find_tab i b = Some t" and "t_id t' = i"
  shows "find_tab i (put_tab t' b) = Some t'"
  using assms find_map_first_same [of "\<lambda>u. t_id u = i" "b_tabs b" t "\<lambda>_. t'"]
  by (simp add: find_tab_def put_tab_def)

lemma tab_of_id: "browser_inv b \<Longrightarrow> t \<in> set (b_tabs b) \<Longrightarrow> u \<in> set (b_tabs b) \<Longrightarrow> t_id u = t_id t \<Longrightarrow> u = t"
  by (metis find_tab_mem option.inject)

lemma reached_put:
  assumes "browser_inv b" and "t \<in> set (b_tabs b)" and "t_id t' = t_id t"
    and "t_generation t \<le> t_generation t'" and "lf_epoch (t_life t) \<le> lf_epoch (t_life t')"
    and "reached b i g e"
  shows "reached (put_tab t' b) i g e"
  using assms put_tab_set [OF assms(1-3)] by (fastforce simp: reached_def)

lemma inv_put_tab:
  assumes inv: "browser_inv b" and t: "t \<in> set (b_tabs b)" and i: "t_id t' = t_id t"
    and ok: "tab_ok t \<Longrightarrow> tab_ok t'"
    and g: "t_generation t \<le> t_generation t'" and e: "lf_epoch (t_life t) \<le> lf_epoch (t_life t')"
  shows "browser_inv (put_tab t' b) \<and> forward b (put_tab t' b)"
proof -
  let ?b = "put_tab t' b"
  note st = put_tab_set [OF inv t i]
  have fw: "forward b ?b"
    using reached_put [OF inv t i g e] by (simp add: forward_def)
  have m: "message_ok ?b m" if "message_ok b m" for m
    using that fw by (cases m) (auto simp: forward_def)
  have x: "timer_ok ?b m" if "timer_ok b m" for m
    using that fw by (cases m) (auto simp: forward_def)
  have ids: "set (map t_id (b_tabs ?b)) = set (map t_id (b_tabs b))" by (simp only: put_tab_ids)
  have ne: "b_tabs ?b \<noteq> []" using st by auto
  have "browser_inv ?b"
    unfolding browser_inv_def ids put_tab_ids
    using inv browser_inv_tab [OF inv t] ok i st m x fw ne
    by (auto simp: browser_inv_def forward_def)
  with fw show ?thesis by simp
qed

lemma keeps_put:
  assumes t: "t \<in> set (b_tabs b)" and i: "t_id t' = t_id t" and ok: "tab_ok t \<Longrightarrow> tab_ok t'"
    and g: "t_generation t \<le> t_generation t'" "t_generation t' \<le> t_generation t + c"
    and e: "lf_epoch (t_life t) \<le> lf_epoch (t_life t')" "lf_epoch (t_life t') \<le> lf_epoch (t_life t) + c"
  shows "keeps c b (Some (put_tab t' b))"
proof (rule keepsI)
  fix k assume inv: "browser_inv b" and room: "room (c + k) b"
  have "room k (put_tab t' b)"
    using room t put_tab_set [OF inv t i] g(2) e(2) by (fastforce simp: room_def)
  with inv_put_tab [OF inv t i ok g(1) e(1)]
  show "\<exists>b'. Some (put_tab t' b) = Some b' \<and> browser_inv b' \<and> room k b' \<and> forward b b'" by blast
qed

section \<open>Changing the rest of the state\<close>

definition world_le :: "world \<Rightarrow> world \<Rightarrow> bool" where
  "world_le w w' \<longleftrightarrow> (ledger_inv (w_budget w) \<longrightarrow> ledger_inv (w_budget w'))
     \<and> length (w_deadlines w) \<le> length (w_deadlines w')
     \<and> (\<forall>d<length (w_deadlines w). dl_epoch (w_deadlines w' ! d) = dl_epoch (w_deadlines w ! d)
          \<and> dl_generation (w_deadlines w' ! d) = dl_generation (w_deadlines w ! d))"

lemma world_le_refl [simp]: "world_le w w" by (simp add: world_le_def)

lemma world_le_trans: "world_le a b \<Longrightarrow> world_le b c \<Longrightarrow> world_le a c"
  unfolding world_le_def by auto

lemma world_le_cancel [simp]: "world_le w (cancel_deadline_ref d w)"
  by (auto simp: world_le_def cancel_deadline_ref_def nth_list_update split: option.splits)

lemma world_le_abort [simp]: "world_le w (abort_ref s w)"
  by (auto simp: world_le_def abort_ref_def split: option.splits)

lemma world_le_new_deadline: "new_deadline d w = (i, w') \<Longrightarrow> world_le w w'"
  by (auto simp: world_le_def new_deadline_def nth_append)

lemma world_le_new_signal: "new_signal w = (i, w') \<Longrightarrow> world_le w w'"
  by (auto simp: world_le_def new_signal_def)

lemma world_le_budget: "ledger_inv l \<Longrightarrow> world_le w (w\<lparr>w_budget := l\<rparr>)"
  by (simp add: world_le_def)

lemma ledger_inv_drop_charge [inv_intros]: "ledger_inv l \<Longrightarrow> ledger_inv (drop_charge l c)"
  by (auto simp: drop_charge_def intro: ledger_inv_drop split: option.splits)

lemma world_le_take_saved: "world_le w (snd (life_take_saved lf w))"
  by (auto simp: world_le_def life_take_saved_def intro!: inv_intros)

text \<open>An update of the rest of the state that leaves tabs, ids and the active tab alone.\<close>

lemma reached_cong:
  "b_tabs b' = b_tabs b \<Longrightarrow> b_next_tab_id b' = b_next_tab_id b \<Longrightarrow> reached b' i g e = reached b i g e"
  by (simp add: reached_def)

lemma keeps_rest:
  assumes tabs: "b_tabs b' = b_tabs b" "b_next_tab_id b' = b_next_tab_id b" "b_active b' = b_active b"
    and reg: "registry_inv (b_records b) \<Longrightarrow> registry_inv (b_records b')"
      "reg_ids (b_records b) \<subseteq> reg_ids (b_records b')"
    and world: "world_le (b_world b) (b_world b')"
    and comp: "\<And>p. p \<in> set (b_completed b') \<Longrightarrow> p \<notin> set (b_completed b) \<Longrightarrow> reached b (pb_tab p) (pb_generation p) 0"
    and fetch: "\<And>f. f \<in> set (b_fetches b') \<Longrightarrow> f \<notin> set (b_fetches b) \<Longrightarrow> reached b (fk_tab f) (fk_generation f) 0"
    and msg: "\<And>m. m \<in> set (b_lifecycle b') \<Longrightarrow> m \<notin> set (b_lifecycle b) \<Longrightarrow> message_ok b m"
    and tm: "\<And>x. x \<in> set (b_timers b') \<Longrightarrow> x \<notin> set (b_timers b) \<Longrightarrow> timer_ok b' x"
  shows "keeps c b (Some b')"
proof (rule keepsI)
  fix k assume inv: "browser_inv b" and room: "room (c + k) b"
  note rc = reached_cong [OF tabs(1,2)]
  have m: "message_ok b' m = message_ok b m" for m by (cases m) (simp_all add: rc)
  have x: "timer_ok b' m" if "timer_ok b m" for m
    using that world by (cases m) (auto simp: rc world_le_def)
  have "\<forall>m\<in>set (b_lifecycle b'). message_ok b' m" "\<forall>x\<in>set (b_timers b'). timer_ok b' x"
    "\<forall>p\<in>set (b_completed b'). reached b' (pb_tab p) (pb_generation p) 0"
    "\<forall>f\<in>set (b_fetches b'). reached b' (fk_tab f) (fk_generation f) 0"
    using inv comp fetch msg tm x unfolding browser_inv_def m rc by blast+
  then have "browser_inv b'"
    unfolding browser_inv_def tabs
    using inv reg world
    by (auto simp: browser_inv_def world_le_def subset_iff)
  moreover have "room k b'" using room by (auto simp: room_def tabs)
  moreover have "forward b b'" by (simp add: forward_def rc)
  ultimately show "\<exists>b''. Some b' = Some b'' \<and> browser_inv b'' \<and> room k b'' \<and> forward b b''"
    by blast
qed

lemma inv_world:
  assumes "browser_inv b" and "world_le (b_world b) w"
  shows "browser_inv (b\<lparr>b_world := w\<rparr>)"
proof -
  let ?b = "b\<lparr>b_world := w\<rparr>"
  have rc: "reached ?b i g e = reached b i g e" for i g e by (rule reached_cong) simp_all
  have m: "message_ok ?b m = message_ok b m" for m by (cases m) (simp_all add: rc)
  have "timer_ok b x \<Longrightarrow> timer_ok ?b x" for x
    using assms(2) by (cases x) (auto simp: rc world_le_def)
  with assms show ?thesis by (auto simp: browser_inv_def world_le_def rc m)
qed

lemma keeps_world:
  "world_le (b_world b) w \<Longrightarrow> keeps c b (Some (b\<lparr>b_world := w\<rparr>))"
  by (rule keeps_rest) auto

lemma keeps_put_world:
  assumes "t \<in> set (b_tabs b)" and "t_id t' = t_id t" and "tab_ok t \<Longrightarrow> tab_ok t'"
    and "t_generation t \<le> t_generation t'" "t_generation t' \<le> t_generation t + c"
    and "lf_epoch (t_life t) \<le> lf_epoch (t_life t')" "lf_epoch (t_life t') \<le> lf_epoch (t_life t) + c"
    and "world_le (b_world b) w"
  shows "keeps c b (Some ((put_tab t' b)\<lparr>b_world := w\<rparr>))"
  by (rule keeps_then [OF keeps_put [OF assms(1-7)]]) (use assms(8) in \<open>auto intro!: keeps_world\<close>)

end
