(* ===== verification/Browser_Keeps.thy ===== *)
theory Browser_Keeps
  imports Browser_Inv
begin

text \<open>
  Every command of the browser keeps the invariant and cannot panic while the counters have room
  (\<open>keeps\<close> of \<open>Browser_Inv\<close>).
\<close>

section \<open>The lifecycle record\<close>

lemma life_cancel_deadline_eq:
  "life_cancel_deadline lf w =
     (if lf_epoch lf + 1 \<le> u64_max
      then Some (lf\<lparr>lf_epoch := lf_epoch lf + 1, lf_deadline := None\<rparr>, cancel_deadline_ref (lf_deadline lf) w)
      else None)"
  by (simp add: life_cancel_deadline_def checked_add_def)

lemma life_cancel_restore_simps [simp]:
  "lf_epoch (fst (life_cancel_restore lf w)) = lf_epoch lf"
  "lf_preview (fst (life_cancel_restore lf w)) = lf_preview lf"
  "lf_phase (fst (life_cancel_restore lf w)) = lf_phase lf"
  "lf_discarded (fst (life_cancel_restore lf w)) = lf_discarded lf"
  "world_le w (snd (life_cancel_restore lf w))"
  by (simp_all add: life_cancel_restore_def)

lemma life_abort_load_simps [simp]:
  "lf_epoch (fst (life_abort_load lf w)) = lf_epoch lf"
  "lf_preview (fst (life_abort_load lf w)) = lf_preview lf"
  "lf_phase (fst (life_abort_load lf w)) = lf_phase lf"
  "lf_discarded (fst (life_abort_load lf w)) = lf_discarded lf"
  "world_le w (snd (life_abort_load lf w))"
  by (simp_all add: life_abort_load_def)

lemma life_take_saved_simps [simp]:
  "lf_epoch (fst (life_take_saved lf w)) = lf_epoch lf"
  "lf_preview (fst (life_take_saved lf w)) = None"
  "lf_phase (fst (life_take_saved lf w)) = lf_phase lf"
  "world_le w (snd (life_take_saved lf w))"
  by (simp_all add: life_take_saved_def world_le_take_saved [unfolded life_take_saved_def, simplified])

lemma life_navigate_ok:
  assumes "lf_epoch lf + 1 \<le> u64_max"
  obtains lf' w' where "life_navigate lf w = Some (lf', w')" "lf_epoch lf' = lf_epoch lf + 1"
    "lf_preview lf' = None" "world_le w w'" "lf_stash lf' = None" "\<not> lf_discarded lf'"
proof -
  let ?w1 = "abort_ref (lf_load_signal lf) (cancel_deadline_ref (lf_restore_deadline lf)
     (cancel_deadline_ref (lf_deadline lf) w))"
  let ?w2 = "?w1\<lparr>w_budget := drop_charge (drop_paint (drop_stash (w_budget ?w1) (lf_stash lf)) (lf_preview lf))
     (lf_record_charge lf)\<rparr>"
  have "world_le w ?w1"
    by (meson world_le_trans world_le_cancel world_le_abort)
  moreover have "world_le ?w1 ?w2"
    by (auto simp: world_le_def intro!: inv_intros)
  ultimately have "world_le w ?w2" by (rule world_le_trans)
  moreover have "\<exists>lf'. life_navigate lf w = Some (lf', ?w2) \<and> lf_epoch lf' = lf_epoch lf + 1
      \<and> lf_preview lf' = None \<and> lf_stash lf' = None \<and> \<not> lf_discarded lf'"
    using assms by (simp add: life_navigate_def life_cancel_deadline_eq life_cancel_restore_def
        life_abort_load_def life_take_saved_def Let_def)
  ultimately show thesis using that by metis
qed

lemma tab_ok_life:
  "tab_ok t \<Longrightarrow> lf_preview lf = lf_preview (t_life t) \<or> lf_preview lf = None \<Longrightarrow> tab_ok (t\<lparr>t_life := lf\<rparr>)"
  by (auto simp: tab_ok_def preview_ok_def)

lemma keeps_set_life:
  assumes "t \<in> set (b_tabs b)" and "lf_epoch lf = lf_epoch (t_life t)"
    and "lf_preview lf = lf_preview (t_life t) \<or> lf_preview lf = None"
  shows "keeps c b (Some (set_life t lf b))"
  unfolding set_life_def using assms by (intro keeps_put [OF assms(1)]) (auto intro: tab_ok_life)

lemma reached_self:
  "browser_inv b \<Longrightarrow> t \<in> set (b_tabs b) \<Longrightarrow> g \<le> t_generation t \<Longrightarrow> e \<le> lf_epoch (t_life t) \<Longrightarrow>
   reached b (t_id t) g e"
  by (auto simp: reached_def browser_inv_tab dest: tab_of_id)

lemma reached_put_self:
  assumes "browser_inv b" and "t \<in> set (b_tabs b)" and "t_id t' = t_id t"
    and "g \<le> t_generation t'" and "e \<le> lf_epoch (t_life t')"
  shows "reached (put_tab t' b) (t_id t) g e"
proof -
  have "u = t'" if "u \<in> set (b_tabs (put_tab t' b))" "t_id u = t_id t" for u
    using that put_tab_set [OF assms(1-3)] tab_of_id [OF assms(1,2), of u] by blast
  with assms(4,5) browser_inv_tab [OF assms(1,2)] show ?thesis
    unfolding reached_def by auto
qed

section \<open>Deadlines\<close>

lemma arm_hidden_keeps: "keeps c b (Some (arm_hidden i b))"
proof (rule keeps_assume_inv)
  assume inv: "browser_inv b"
  show ?thesis
  proof (cases "find_tab i b")
    case None
    then show ?thesis by (simp add: arm_hidden_def)
  next
    case (Some t)
    then have t: "t \<in> set (b_tabs b)" "t_id t = i" by (auto dest: find_tab_SomeD)
    show ?thesis
    proof (cases "lf_visible (t_life t) \<or> lf_phase (t_life t) \<noteq> PhLive \<or> lf_deadline (t_life t) \<noteq> None")
      case True
      with Some show ?thesis by (simp add: arm_hidden_def Let_def)
    next
      case False
      let ?d = "\<lparr>dl_due = saturating_add (lf_hidden_at (t_life t)) (b_sleep_delay b),
         dl_generation = t_generation t, dl_epoch = lf_epoch (t_life t), dl_cancelled = False\<rparr>"
      obtain d w where dw: "new_deadline ?d (b_world b) = (d, w)" by (metis surj_pair)
      let ?b = "set_life t ((t_life t)\<lparr>lf_deadline := Some d\<rparr>) b"
      have eq: "arm_hidden i b = ?b\<lparr>b_world := w, b_timers := b_timers b @ [HiddenTimer i d]\<rparr>"
        using Some False dw by (simp add: arm_hidden_def Let_def)
      have rs: "reached ?b i (t_generation t) (lf_epoch (t_life t))"
        using reached_put [OF inv t(1), of "t\<lparr>t_life := (t_life t)\<lparr>lf_deadline := Some d\<rparr>\<rparr>"]
          reached_self [OF inv t(1)] t by (simp add: set_life_def)
      show ?thesis unfolding eq
      proof (rule keeps_then [OF keeps_set_life [OF t(1)]])
        show "keeps 0 ?b (Some (?b\<lparr>b_world := w, b_timers := b_timers b @ [HiddenTimer i d]\<rparr>))"
          using world_le_new_deadline [OF dw] dw rs
          by (intro keeps_rest) (auto simp: set_life_def new_deadline_def reached_def)
      qed auto
    qed
  qed
qed

lemma arm_restore_keeps: "keeps c b (Some (arm_restore now i g b))"
proof (rule keeps_assume_inv)
  assume inv: "browser_inv b"
  show ?thesis
  proof (cases "find_tab_at i g b")
    case None
    then show ?thesis by (simp add: arm_restore_def)
  next
    case (Some t)
    then have t: "t \<in> set (b_tabs b)" "t_id t = i" "t_generation t = g" by (auto dest: find_tab_atD)
    show ?thesis
    proof (cases "lf_phase (t_life t) = PhWaking")
      case False
      with Some show ?thesis by (simp add: arm_restore_def Let_def)
    next
      case True
      obtain lf w where lw: "life_cancel_restore (t_life t) (b_world b) = (lf, w)" by (metis surj_pair)
      then have lf: "lf_epoch lf = lf_epoch (t_life t)" "lf_preview lf = lf_preview (t_life t)"
        "world_le (b_world b) w"
        using life_cancel_restore_simps [where lf = "t_life t" and w = "b_world b"] by simp_all
      let ?d = "\<lparr>dl_due = saturating_add now 30000000000, dl_generation = g,
         dl_epoch = lf_epoch lf, dl_cancelled = False\<rparr>"
      obtain d w' where dw: "new_deadline ?d w = (d, w')" by (metis surj_pair)
      let ?b = "set_life t (lf\<lparr>lf_restore_deadline := Some d\<rparr>) b"
      have eq: "arm_restore now i g b = ?b\<lparr>b_world := w', b_timers := b_timers b @ [RestoreTimer i g d]\<rparr>"
        using Some True lw dw by (simp add: arm_restore_def Let_def)
      have rs: "reached ?b i g 0"
        using reached_put [OF inv t(1), of "t\<lparr>t_life := lf\<lparr>lf_restore_deadline := Some d\<rparr>\<rparr>"]
          reached_self [OF inv t(1)] t lf by (simp add: set_life_def)
      have "world_le (b_world b) w'"
        using lf(3) world_le_new_deadline [OF dw] by (rule world_le_trans)
      moreover have "d < length (w_deadlines w')"
        using dw by (auto simp: new_deadline_def)
      ultimately show ?thesis unfolding eq
        using lf rs
        by (intro keeps_then [OF keeps_set_life [OF t(1), of "lf\<lparr>lf_restore_deadline := Some d\<rparr>"]])
           (auto simp: set_life_def reached_def intro!: keeps_rest)
    qed
  qed
qed

lemma in_remove_at: "x \<in> set (remove_at k xs) \<Longrightarrow> x \<in> set xs"
  by (meson set_remove_at subsetD)

lemma run_timer_keeps: "keeps c b (Some (run_timer now k b))"
proof (rule keeps_assume_inv)
  assume inv: "browser_inv b"
  show ?thesis
  proof (cases "k < length (b_timers b)")
    case False
    then show ?thesis by (simp add: run_timer_def)
  next
    case True
    with inv have ok: "timer_ok b (b_timers b ! k)" by (simp add: browser_inv_def)
    let ?b = "b\<lparr>b_timers := remove_at k (b_timers b)\<rparr>"
    have k1: "keeps c b (Some ?b)" by (rule keeps_rest) (auto dest: in_remove_at)
    have k2: "keeps c b (Some (?b\<lparr>b_lifecycle := b_lifecycle b @ [m]\<rparr>))" if "message_ok b m" for m
      using that by (intro keeps_rest) (auto dest: in_remove_at)
    show ?thesis
      using True ok k1 k2
      by (cases "b_timers b ! k")
         (simp_all add: run_timer_def not_le Let_def split: option.split bool.split)
  qed
qed

section \<open>Loads\<close>

lemma schedule_tail_keeps:
  assumes "reached b i g 0"
  shows "keeps 0 b (Some (schedule_tail now i g rq r b))"
proof -
  let ?b1 = "b\<lparr>b_records := loading (b_records b) i g\<rparr>"
  let ?b2 = "arm_hidden i (arm_restore now i g ?b1)"
  have "keeps 0 b (Some ?b1)"
    by (rule keeps_rest) (auto intro: registry_inv_loading)
  moreover have "keeps 0 ?b1 (Some ?b2)"
    by (rule keeps_then [OF arm_restore_keeps arm_hidden_keeps])
  ultimately have k: "keeps 0 b (Some ?b2)" by (rule keeps_then)
  show ?thesis
  proof (rule keeps_then [OF k])
    assume "forward b ?b2"
    with assms have "reached ?b2 i g 0" by (simp add: forward_def)
    then show "keeps 0 ?b2 (Some (schedule_tail now i g rq r b))"
      unfolding schedule_tail_def Let_def by (auto intro!: keeps_rest)
  qed
qed

text \<open>What a scheduled load does to the tab and to the shared objects.\<close>

definition scheduled :: "nat \<Rightarrow> tab_state \<Rightarrow> tab_state" where
  "scheduled s t = t\<lparr>t_life := (t_life t)\<lparr>lf_epoch := lf_epoch (t_life t) + 1, lf_deadline := None,
     lf_restore_deadline := None, lf_load_signal := Some s, lf_await_preview := False,
     lf_phase := (if lf_discarded (t_life t) \<and> t_mounted t = None then PhWaking
                  else if t_mounted t \<noteq> None then PhLive else lf_phase (t_life t))\<rparr>,
     t_generation := t_generation t + 1, t_loading := True\<rparr>"

definition load_world :: "tab_life \<Rightarrow> world \<Rightarrow> world" where
  "load_world lf w =
     (abort_ref (lf_load_signal lf) (cancel_deadline_ref (lf_restore_deadline lf)
        (cancel_deadline_ref (lf_deadline lf) w)))\<lparr>w_signals := Suc (w_signals w)\<rparr>"

definition may_load :: "tab_state \<Rightarrow> bool" where
  "may_load t \<longleftrightarrow> lf_phase (t_life t) \<noteq> PhDiscarding \<and> lf_phase (t_life t) \<noteq> PhFreezing
     \<and> \<not> (lf_discarded (t_life t) \<and> t_mounted t = None \<and> \<not> idempotent (t_history t ! t_current t))"

lemma refs_signals [simp]:
  "w_signals (cancel_deadline_ref d w) = w_signals w" "w_signals (abort_ref s w) = w_signals w"
  by (auto simp: cancel_deadline_ref_def abort_ref_def split: option.splits)

lemma world_le_load: "world_le w (load_world lf w)"
proof -
  have "world_le w (abort_ref (lf_load_signal lf) (cancel_deadline_ref (lf_restore_deadline lf)
        (cancel_deadline_ref (lf_deadline lf) w)))"
    by (meson world_le_trans world_le_cancel world_le_abort)
  then show ?thesis by (simp add: load_world_def world_le_def)
qed

lemma schedule_current_load:
  assumes "find_tab i b = Some t" and "tab_ok t" and "may_load t"
    and "lf_epoch (t_life t) + 1 \<le> u64_max" and "t_generation t + 1 \<le> u64_max"
  shows "schedule_current now i r b =
    Some (schedule_tail now i (t_generation t + 1)
       ((t_history t ! t_current t)\<lparr>rq_signal := Some (w_signals (b_world b))\<rparr>) r
       ((put_tab (scheduled (w_signals (b_world b)) t) b)\<lparr>b_world := load_world (t_life t) (b_world b)\<rparr>))"
proof -
  from assms(2) have "t_request t = Some (t_history t ! t_current t)"
    by (simp add: t_request_def tab_ok_def)
  with assms show ?thesis
    by (auto simp: schedule_current_def may_load_def Let_def life_cancel_deadline_eq life_cancel_restore_def
        life_abort_load_def new_signal_def checked_add_def scheduled_def load_world_def)
qed

lemma schedule_current_idle:
  assumes "find_tab i b = Some t" and "tab_ok t" and "\<not> may_load t"
  obtains lf d where "schedule_current now i r b = Some (put_tab (t\<lparr>t_life := lf, t_loading := d\<rparr>) b)"
    "lf_epoch lf = lf_epoch (t_life t)" "lf_preview lf = lf_preview (t_life t)"
proof -
  from assms(2) have req: "t_request t = Some (t_history t ! t_current t)"
    by (simp add: t_request_def tab_ok_def)
  let ?put = "\<lambda>lf d. put_tab (t\<lparr>t_life := lf, t_loading := d\<rparr>) b"
  have same: "t\<lparr>t_life := lf\<rparr> = t\<lparr>t_life := lf, t_loading := t_loading t\<rparr>" for lf by simp
  have "schedule_current now i r b = Some (?put (t_life t\<lparr>lf_wake_requested := True\<rparr>) (t_loading t))
      \<or> schedule_current now i r b = Some (?put (t_life t) True)
      \<or> schedule_current now i r b = Some (?put (t_life t\<lparr>lf_phase := PhRestoreFailed,
                             lf_reason := S ''reload-requires-resubmission''\<rparr>) (t_loading t))"
    using assms req by (auto simp: schedule_current_def Let_def may_load_def set_life_def simp flip: same)
  then show thesis by (elim disjE) (erule that; simp)+
qed

lemma scheduled_simps [simp]:
  "t_id (scheduled s t) = t_id t" "t_history (scheduled s t) = t_history t"
  "t_current (scheduled s t) = t_current t" "t_generation (scheduled s t) = t_generation t + 1"
  "lf_epoch (t_life (scheduled s t)) = lf_epoch (t_life t) + 1"
  "lf_preview (t_life (scheduled s t)) = lf_preview (t_life t)" "t_mounted (scheduled s t) = t_mounted t"
  by (simp_all add: scheduled_def)

lemma schedule_current_keeps: "keeps 1 b (schedule_current now i r b)"
proof (rule keepsI)
  fix k assume inv: "browser_inv b" and room: "room (1 + k) b"
  have "keeps 1 b (schedule_current now i r b)"
  proof (cases "find_tab i b")
    case None
    then show ?thesis by (simp add: schedule_current_def)
  next
    case (Some t)
    then have t: "t \<in> set (b_tabs b)" "t_id t = i" by (auto dest: find_tab_SomeD)
    from browser_inv_tab [OF inv t(1)] have ok: "tab_ok t" by simp
    from room t have rm: "lf_epoch (t_life t) + 1 \<le> u64_max" "t_generation t + 1 \<le> u64_max"
      by (fastforce simp: room_def)+
    show ?thesis
    proof (cases "may_load t")
      case False
      from schedule_current_idle [OF Some ok False] obtain lf d where
        "schedule_current now i r b = Some (put_tab (t\<lparr>t_life := lf, t_loading := d\<rparr>) b)"
        "lf_epoch lf = lf_epoch (t_life t)" "lf_preview lf = lf_preview (t_life t)" .
      then show ?thesis
        using keeps_put [OF t(1)] by (simp add: tab_ok_def preview_ok_def)
    next
      case True
      let ?t = "scheduled (w_signals (b_world b)) t"
      let ?b = "(put_tab ?t b)\<lparr>b_world := load_world (t_life t) (b_world b)\<rparr>"
      have k1: "keeps 1 b (Some ?b)"
        by (rule keeps_put_world [OF t(1)]) (auto simp: tab_ok_def preview_ok_def world_le_load)
      have "reached ?b i (t_generation t + 1) 0"
        using reached_put_self [OF inv t(1), of ?t "t_generation t + 1" 0] t(2) by (simp add: reached_def)
      then show ?thesis
        unfolding schedule_current_load [OF Some ok True rm]
        by (intro keeps_then [OF k1] schedule_tail_keeps)
    qed
  qed
  with inv room show "\<exists>b'. schedule_current now i r b = Some b' \<and> browser_inv b' \<and> room k b' \<and> forward b b'"
    by (simp add: keeps_def)
qed

lemma keeps_assume: "(browser_inv b \<Longrightarrow> room c b \<Longrightarrow> keeps c b r) \<Longrightarrow> keeps c b r"
  unfolding keeps_def by (meson le_add1 room_le)

lemma room_tab:
  "room c b \<Longrightarrow> t \<in> set (b_tabs b) \<Longrightarrow> lf_epoch (t_life t) + c \<le> u64_max \<and> t_generation t + c \<le> u64_max"
  by (auto simp: room_def)

lemma schedule_browser_navigation_keeps: "keeps 1 b (schedule_browser_navigation ext now i r b)"
proof (rule keeps_assume_inv)
  assume inv: "browser_inv b"
  show ?thesis
  proof (cases "find_tab i b")
    case None
    then show ?thesis by (simp add: schedule_browser_navigation_def)
  next
    case (Some t)
    then have t: "t \<in> set (b_tabs b)" "t_id t = i" by (auto dest: find_tab_SomeD)
    let ?rq = "t_history t ! t_current t"
    let ?b = "put_tab (t\<lparr>t_history := (t_history t)[t_current t :=
       ?rq\<lparr>rq_initiator := policy_browser ext (rq_url ?rq)\<rparr>]\<rparr>) b"
    from browser_inv_tab [OF inv t(1)] Some
    have eq: "schedule_browser_navigation ext now i r b = schedule_current now i r ?b"
      by (simp add: schedule_browser_navigation_def t_request_def tab_ok_def)
    have "keeps 0 b (Some ?b)"
      by (rule keeps_put [OF t(1)]) (auto simp: tab_ok_def)
    from keeps_trans [OF this schedule_current_keeps] show ?thesis by (simp add: eq)
  qed
qed

lemma push_history_ok:
  assumes "push_history rq h c = (h', c')" and "c < length h" and "length h \<le> 128"
  shows "c' < length h' \<and> length h' \<le> 128 \<and> h' ! c' = rq \<and> Suc c' = length h'"
  using assms by (auto simp: push_history_def Let_def remove_at_def nth_append min_def split: if_splits)

lemma navigate_request_keeps: "keeps 2 b (map_option fst (navigate_request now i rq b))"
proof (rule keeps_assume)
  assume inv: "browser_inv b" and room: "room 2 b"
  show ?thesis
  proof (cases "find_tab i b")
    case None
    then show ?thesis by (simp add: navigate_request_def)
  next
    case (Some t)
    then have t: "t \<in> set (b_tabs b)" "t_id t = i" by (auto dest: find_tab_SomeD)
    from room_tab [OF room t(1)] have "lf_epoch (t_life t) + 1 \<le> u64_max" by simp
    then obtain lf w where lw: "life_navigate (t_life t) (b_world b) = Some (lf, w)"
      "lf_epoch lf = lf_epoch (t_life t) + 1" "lf_preview lf = None" "world_le (b_world b) w"
      by (rule life_navigate_ok)
    obtain h c where hc: "push_history rq (t_history t) (t_current t) = (h, c)" by (metis surj_pair)
    let ?t = "t\<lparr>t_life := lf, t_history := h, t_current := c, t_title := []\<rparr>"
    let ?b = "(put_tab ?t b)\<lparr>b_world := w\<rparr>"
    have "map_option fst (navigate_request now i rq b) = schedule_current now i False ?b"
      using Some lw hc
      by (cases "schedule_current now i False ?b") (simp_all add: navigate_request_def)
    moreover have "keeps 1 b (Some ?b)"
      using lw push_history_ok [OF hc] browser_inv_tab [OF inv t(1)]
      by (intro keeps_put_world [OF t(1)]) (auto simp: tab_ok_def preview_ok_def)
    ultimately show ?thesis
      using keeps_trans [of 1 b ?b 1] schedule_current_keeps by (simp add: numeral_2_eq_2)
  qed
qed

lemma page_navigations_keeps: "keeps (2 * length rqs) b (page_navigations now i rqs b)"
proof (induction rqs arbitrary: b)
  case (Cons rq rqs)
  have "page_navigations now i (rq # rqs) b
      = map_option fst (navigate_request now i rq b) \<bind> page_navigations now i rqs"
    by (cases "navigate_request now i rq b") (auto split: prod.splits)
  with keeps_bind [OF navigate_request_keeps Cons.IH] show ?case by simp
qed simp

text \<open>No load opens or closes a tab.\<close>

lemma arm_ids:
  "map t_id (b_tabs (arm_hidden i b)) = map t_id (b_tabs b)"
  "map t_id (b_tabs (arm_restore now i g b)) = map t_id (b_tabs b)"
  by (auto simp: arm_hidden_def arm_restore_def set_life_def Let_def split: option.splits prod.splits)

lemma schedule_tail_ids: "map t_id (b_tabs (schedule_tail now i g rq r b)) = map t_id (b_tabs b)"
  by (simp add: schedule_tail_def Let_def arm_ids)

lemma schedule_current_ids:
  assumes "browser_inv b" and "room 1 b" and "schedule_current now i r b = Some b'"
  shows "map t_id (b_tabs b') = map t_id (b_tabs b)"
proof (cases "find_tab i b")
  case None
  with assms(3) show ?thesis by (simp add: schedule_current_def)
next
  case (Some t)
  then have t: "t \<in> set (b_tabs b)" by (auto dest: find_tab_SomeD)
  with assms(1) have ok: "tab_ok t" by (simp add: browser_inv_tab)
  show ?thesis
  proof (cases "may_load t")
    case True
    from schedule_current_load [OF Some ok True] room_tab [OF assms(2) t] assms(3) show ?thesis
      by (auto simp: schedule_tail_ids)
  next
    case False
    then obtain lf d where "schedule_current now i r b = Some (put_tab (t\<lparr>t_life := lf, t_loading := d\<rparr>) b)"
      using schedule_current_idle [OF Some ok] by blast
    with assms(3) show ?thesis by auto
  qed
qed

section \<open>Commands\<close>

lemma request_sleep_keeps: "request_sleep i b = Inr b' \<Longrightarrow> keeps c b (Some b')"
proof (rule keeps_assume_inv)
  assume r: "request_sleep i b = Inr b'" and inv: "browser_inv b"
  then obtain t where "find_tab i b = Some t"
    and b': "b' = b\<lparr>b_lifecycle := b_lifecycle b @ [MSleep i (t_generation t) (lf_epoch (t_life t)) False]\<rparr>"
    by (auto simp: request_sleep_def split: option.splits if_splits)
  then have "reached b i (t_generation t) (lf_epoch (t_life t))"
    using reached_self [OF inv] by (auto dest: find_tab_SomeD)
  with b' show ?thesis by (auto intro!: keeps_rest)
qed

lemma request_wake_keeps: "keeps 1 b (map_option fst (request_wake now i b))"
proof (rule keeps_assume_inv)
  assume inv: "browser_inv b"
  show ?thesis
  proof (cases "find_tab i b")
    case None
    then show ?thesis by (simp add: request_wake_def)
  next
    case (Some t)
    then have t: "t \<in> set (b_tabs b)" "t_id t = i" by (auto dest: find_tab_SomeD)
    let ?lf = "t_life t"
    from browser_inv_tab [OF inv t(1)] have req: "t_request t = Some (t_history t ! t_current t)"
      by (simp add: t_request_def tab_ok_def)
    note sl = keeps_set_life [OF t(1)]
    let ?b = "set_life t (?lf\<lparr>lf_phase := PhWaking, lf_preview_surface := None,
                             lf_reason := [], lf_await_preview := lf_preview ?lf \<noteq> None\<rparr>) b"
    have k1: "keeps 1 b (Some ?b)" by (rule sl) auto
    have k2: "keeps 1 b (schedule_current now i True ?b)"
      using keeps_trans [OF sl schedule_current_keeps, of _ 0] by simp
    show ?thesis
    proof (cases "lf_phase ?lf = PhDiscarding \<or> lf_release ?lf \<noteq> None
         \<or> lf_phase ?lf \<noteq> PhSleeping \<and> lf_phase ?lf \<noteq> PhRestoreFailed \<or> \<not> idempotent (t_history t ! t_current t)")
      case True
      with Some req sl show ?thesis by (auto simp: request_wake_def Let_def)
    next
      case False
      then have "map_option fst (request_wake now i b)
          = (if lf_preview ?lf \<noteq> None then Some ?b else schedule_current now i True ?b)"
        using Some req
        by (cases "schedule_current now i True ?b") (auto simp: request_wake_def Let_def)
      with k1 k2 show ?thesis by presburger
    qed
  qed
qed

lemma keeps_active:
  assumes "i \<in> set (map t_id (b_tabs b))"
  shows "keeps c b (Some (b\<lparr>b_active := i\<rparr>))"
proof (rule keepsI)
  fix k assume inv: "browser_inv b" and room: "room (c + k) b"
  let ?b = "b\<lparr>b_active := i\<rparr>"
  have rc: "reached ?b j g e = reached b j g e" for j g e by (simp add: reached_def)
  have m: "message_ok ?b m = message_ok b m" "timer_ok ?b x = timer_ok b x" for m x
    by (cases m; simp add: rc) (cases x; simp add: rc)
  have "browser_inv ?b" using inv assms by (simp add: browser_inv_def rc m)
  then show "\<exists>b'. Some ?b = Some b' \<and> browser_inv b' \<and> room k b' \<and> forward b b'"
    using room by (auto simp: room_def forward_def rc)
qed

lemma select_tab_keeps: "keeps 1 b (map_option fst (select_tab now i b))"
proof (cases "find_tab i b")
  case None
  then show ?thesis by (simp add: select_tab_def)
next
  case (Some t)
  then have i: "i \<in> set (map t_id (b_tabs b))" by (auto dest: find_tab_SomeD)
  let ?b = "b\<lparr>b_active := i\<rparr>"
  let ?r = "if sleeping_phase (lf_phase (t_life t)) then map_option fst (request_wake now i ?b)
      else if (case record_of (b_records b) i of Some r \<Rightarrow> rec_residency r = Dormant | None \<Rightarrow> False)
      then schedule_current now i False ?b else Some ?b"
  have eq: "map_option fst (select_tab now i b) = ?r"
    by (cases ?r) (simp_all add: select_tab_def Let_def Some split del: if_split)
  have "keeps 1 ?b ?r"
    by (simp add: request_wake_keeps schedule_current_keeps del: One_nat_def)
  with keeps_trans [OF keeps_active [OF i, of 0], of 1 ?r] show ?thesis
    by (simp only: eq add_0)
qed

lemma go_back_keeps: "keeps 1 b (go_back ext now i b)"
proof (cases "find_tab i b")
  case (Some t)
  then have t: "t \<in> set (b_tabs b)" by (auto dest: find_tab_SomeD)
  have "keeps 0 b (Some (put_tab (t\<lparr>t_current := t_current t - 1, t_title := []\<rparr>) b))"
    by (rule keeps_put [OF t]) (auto simp: tab_ok_def)
  from keeps_trans [OF this schedule_browser_navigation_keeps] Some show ?thesis
    by (simp add: go_back_def)
qed (simp add: go_back_def)

lemma go_forward_keeps: "keeps 1 b (go_forward ext now i b)"
proof (cases "find_tab i b")
  case (Some t)
  then have t: "t \<in> set (b_tabs b)" by (auto dest: find_tab_SomeD)
  show ?thesis
  proof (cases "length (t_history t) \<le> t_current t + 1")
    case True
    with Some show ?thesis by (simp add: go_forward_def)
  next
    case False
    then have "keeps 0 b (Some (put_tab (t\<lparr>t_current := t_current t + 1, t_title := []\<rparr>) b))"
      by (intro keeps_put [OF t]) (auto simp: tab_ok_def)
    from keeps_trans [OF this schedule_browser_navigation_keeps] Some False show ?thesis
      by (simp add: go_forward_def)
  qed
qed (simp add: go_forward_def)

lemma reload_keeps: "keeps 1 b (reload ext now i b)"
  by (simp add: reload_def request_wake_keeps schedule_browser_navigation_keeps del: One_nat_def)

lemma navigate_keeps: "keeps 2 b (map_option fst (navigate ext now i input b))"
  by (simp add: navigate_def navigate_request_keeps split: option.split)

lemma panel_keeps:
  "keeps c b (Some (set_panel_collapsed collapsed b))"
  "toggle_section name b = Inr b' \<Longrightarrow> keeps c b (Some b')"
  by (auto simp: set_panel_collapsed_def toggle_section_def Let_def intro!: keeps_rest split: if_splits)


lemma message_ok_forward: "forward b b' \<Longrightarrow> message_ok b m \<Longrightarrow> message_ok b' m"
  by (cases m) (auto simp: forward_def)

lemma timer_ok_forward:
  "forward b b' \<Longrightarrow> world_le (b_world b) (b_world b') \<Longrightarrow> timer_ok b x \<Longrightarrow> timer_ok b' x"
  by (cases x) (auto simp: forward_def world_le_def)

text \<open>A change of the tab list itself.\<close>

lemma keeps_tabs:
  assumes fw: "browser_inv b \<Longrightarrow> forward b b'" and w: "world_le (b_world b) (b_world b')"
    and same: "b_completed b' = b_completed b" "b_fetches b' = b_fetches b" "b_lifecycle b' = b_lifecycle b"
      "b_timers b' = b_timers b"
    and tabs: "browser_inv b \<Longrightarrow> b_tabs b' \<noteq> [] \<and> distinct (map t_id (b_tabs b'))
       \<and> b_active b' \<in> set (map t_id (b_tabs b'))
       \<and> (\<forall>t\<in>set (b_tabs b'). tab_ok t \<and> t_id t < b_next_tab_id b' \<and> t_id t \<in> reg_ids (b_records b'))
       \<and> registry_inv (b_records b')"
    and room: "\<And>k. browser_inv b \<Longrightarrow> room (c + k) b \<Longrightarrow> room k b'"
  shows "keeps c b (Some b')"
proof (rule keepsI)
  fix k assume inv: "browser_inv b" and rm: "room (c + k) b"
  note f = fw [OF inv]
  have "browser_inv b'"
    using tabs [OF inv] inv w f
    by (auto simp: browser_inv_def same world_le_def forward_def
        intro: message_ok_forward [OF f] timer_ok_forward [OF f w])
  with f room [OF inv rm] show "\<exists>b''. Some b' = Some b'' \<and> browser_inv b'' \<and> room k b'' \<and> forward b b''"
    by blast
qed

lemma open_tab_record_keeps:
  assumes "url_parse ext NEW_TAB_URL \<noteq> None"
  shows "keeps 1 b (map_option fst (open_tab_record ext now input select b))"
proof (rule keeps_assume)
  assume inv: "browser_inv b" and room: "room 1 b"
  from assms obtain u where u: "url_parse ext NEW_TAB_URL = Some u" by blast
  let ?req = "case input of Some raw \<Rightarrow> request_from_input ext raw | None \<Rightarrow> Some (browser_request ext u)"
  let ?i = "b_next_tab_id b"
  show ?thesis
  proof (cases ?req)
    case None
    then show ?thesis by (auto simp: open_tab_record_def u split: option.splits)
  next
    case (Some rq)
    show ?thesis
    proof (cases "admit (b_records b) ?i")
      case (Inl e)
      with Some show ?thesis by (auto simp: open_tab_record_def u Let_def split: option.splits)
    next
      case (Inr r)
      have ids: "reg_ids r = insert ?i (reg_ids (b_records b))" using reg_ids_admit [OF Inr] by simp
      have rinv: "registry_inv (b_records b) \<Longrightarrow> registry_inv r" using registry_inv_admit [OF _ Inr] by simp
      show ?thesis
      proof (cases "checked_add ?i 1")
        case None
        with Some Inr have "map_option fst (open_tab_record ext now input select b) = Some (b\<lparr>b_records := r\<rparr>)"
          by (auto simp: open_tab_record_def u Let_def split: option.splits)
        then show ?thesis using ids rinv by (auto intro!: keeps_rest)
      next
        case (Some n)
        then have n: "n = ?i + 1" by (simp add: checked_add_Some)
        let ?t = "new_tab now ?i rq"
        let ?b = "b\<lparr>b_records := r, b_next_tab_id := n, b_tabs := b_tabs b @ [?t],
                    b_active := (if select then ?i else b_active b)\<rparr>"
        have newid: "\<forall>t\<in>set (b_tabs b). t_id t < ?i" using inv by (simp add: browser_inv_def)
        have tid: "t_id ?t = ?i" "t_generation ?t = 0" "lf_epoch (t_life ?t) = 0" "tab_ok ?t"
          by (simp_all add: new_tab_def default_life_def tab_ok_def preview_ok_def)
        have k1: "keeps 0 b (Some ?b)"
        proof (rule keeps_tabs)
          show "forward b ?b"
            using tid by (auto simp: forward_def reached_def n)
          show "b_tabs ?b \<noteq> [] \<and> distinct (map t_id (b_tabs ?b)) \<and> b_active ?b \<in> set (map t_id (b_tabs ?b))
             \<and> (\<forall>t\<in>set (b_tabs ?b). tab_ok t \<and> t_id t < b_next_tab_id ?b \<and> t_id t \<in> reg_ids (b_records ?b))
             \<and> registry_inv (b_records ?b)"
            using inv newid tid rinv ids by (auto simp: browser_inv_def n less_Suc_eq)
          fix k assume "room (0 + k) b"
          moreover from inv obtain t0 where "t0 \<in> set (b_tabs b)"
            by (auto simp: browser_inv_def neq_Nil_conv)
          ultimately show "room k ?b" using tid by (fastforce simp: room_def)
        qed simp_all
        let ?s = "if select then schedule_current now ?i False ?b else Some ?b"
        have k2: "keeps 1 b ?s"
          using keeps_trans [OF k1 schedule_current_keeps] keeps_mono [OF k1, of 1]
          by (simp only: if_split add_0 zero_le) simp
        from inv room k2 obtain b2 where b2: "?s = Some b2" "browser_inv b2"
          unfolding keeps_def by (metis add_0_right)
        have "set (map t_id (b_tabs b2)) = set (map t_id (b_tabs ?b))"
        proof (cases select)
          case True
          from k1 inv room have "browser_inv ?b" "room 1 ?b" unfolding keeps_def by auto
          from schedule_current_ids [OF this] True b2(1) show ?thesis by metis
        next
          case False
          with b2(1) show ?thesis by simp
        qed
        then have "?i \<in> set (map t_id (b_tabs b2))" using tid by simp
        then obtain t where t: "t \<in> set (b_tabs b2)" "t_id t = ?i" by auto
        with b2(2) have ft: "find_tab ?i b2 = Some t" by (metis find_tab_mem)
        have "tab_ok t" using browser_inv_tab [OF b2(2) t(1)] by simp
        then obtain s where "snapshot now t = Some s" by (auto simp: snapshot_def t_request_def tab_ok_def)
        with ft b2(1) Some Inr \<open>?req = Some rq\<close>
        have "map_option fst (open_tab_record ext now input select b) = Some b2"
          by (auto simp: open_tab_record_def u Let_def split: option.splits)
        moreover have "keeps 1 b (Some b2)" using k2 unfolding b2(1) .
        ultimately show ?thesis by (simp only:)
      qed
    qed
  qed
qed

text \<open>Closing a tab.\<close>

lemma world_le_drop: "world_le w (life_drop lf w)"
proof -
  obtain lf2 w2 where r: "life_cancel_restore lf (cancel_deadline_ref (lf_deadline lf) w) = (lf2, w2)"
    by (metis surj_pair)
  obtain lf3 w3 where a: "life_abort_load lf2 w2 = (lf3, w3)" by (metis surj_pair)
  have "world_le w w2"
    using life_cancel_restore_simps(5) [where lf = lf and w = "cancel_deadline_ref (lf_deadline lf) w"] r
    by (metis snd_conv world_le_cancel world_le_trans)
  moreover have "world_le w2 w3" using life_abort_load_simps(5) [where lf = lf2 and w = w2] a by simp
  moreover have "world_le w3 (snd (life_take_saved lf3 w3))" by (rule world_le_take_saved)
  ultimately have "world_le w (snd (life_take_saved lf3 w3))" by (meson world_le_trans)
  with r a show ?thesis by (simp add: life_drop_def Let_def)
qed

lemma close_tab_locked_keeps: "keeps c b (Some (fst (close_tab_locked i b)))"
proof (cases "length (b_tabs b) = 1 \<or> position (\<lambda>t. t_id t = i) (b_tabs b) = None")
  case True
  then show ?thesis by (auto simp: close_tab_locked_def)
next
  case False
  then obtain k where k: "position (\<lambda>t. t_id t = i) (b_tabs b) = Some k" and l1: "length (b_tabs b) \<noteq> 1"
    by auto
  let ?rest = "remove_at k (b_tabs b)"
  let ?b = "b\<lparr>b_tabs := ?rest, b_records := remove (b_records b) i,
      b_world := life_drop (t_life (b_tabs b ! k)) (b_world b),
      b_active := (if b_active b = i then t_id (?rest ! min k (length ?rest - 1)) else b_active b)\<rparr>"
  from position_SomeD [OF k] have kk: "k < length (b_tabs b)" "t_id (b_tabs b ! k) = i" by auto
  have len: "length ?rest = length (b_tabs b) - 1" using kk by (simp add: length_remove_at)
  have sub: "set ?rest \<subseteq> set (b_tabs b)" by (rule set_remove_at)
  have ids: "set (map t_id ?rest) = set (map t_id (b_tabs b)) - {i}" if "browser_inv b"
    using that kk by (simp only: map_remove_at) (subst remove_at_set; simp add: browser_inv_def)
  have "keeps c b (Some ?b)"
  proof (rule keeps_tabs)
    show "forward b ?b" using sub by (auto simp: forward_def reached_def)
    assume inv: "browser_inv b"
    have ne: "?rest \<noteq> []" using len l1 kk by (cases "b_tabs b") auto
    then have "?rest ! min k (length ?rest - 1) \<in> set ?rest" by (intro nth_mem) (cases ?rest; auto)
    moreover have "distinct (map t_id ?rest)"
      using inv by (simp add: map_remove_at distinct_remove_at browser_inv_def)
    ultimately show "b_tabs ?b \<noteq> [] \<and> distinct (map t_id (b_tabs ?b)) \<and> b_active ?b \<in> set (map t_id (b_tabs ?b))
       \<and> (\<forall>t\<in>set (b_tabs ?b). tab_ok t \<and> t_id t < b_next_tab_id ?b \<and> t_id t \<in> reg_ids (b_records ?b))
       \<and> registry_inv (b_records ?b)"
      using inv ne sub ids [OF inv] by (auto simp: browser_inv_def registry_inv_remove)
    fix k' assume "room (c + k') b"
    then show "room k' ?b" using sub by (fastforce simp: room_def)
  qed (auto simp: world_le_drop)
  with k l1 show ?thesis by (simp add: close_tab_locked_def Let_def)
qed

lemma close_tab_keeps: "keeps 1 b (close_tab now i b)"
proof -
  obtain b' closed where c: "close_tab_locked i b = (b', closed)" by (metis surj_pair)
  have k: "keeps 0 b (Some b')" using close_tab_locked_keeps [of 0 b i] c by simp
  show ?thesis
  proof (cases closed)
    case True
    with c keeps_trans [OF k select_tab_keeps] show ?thesis by (simp add: close_tab_def)
  next
    case False
    with c keeps_mono [OF k, of 1] show ?thesis by (simp add: close_tab_def)
  qed
qed

end
