(* ===== verification/Lifecycle_Keeps.thy ===== *)
theory Lifecycle_Keeps
  imports Browser_Keeps
begin

text \<open>
  The messages of the lifecycle queue and the attachment of finished loads keep the invariant and
  cannot panic while the counters have room. \<open>ui_ok\<close> is what the document and the script engine
  promise: the session store of a page is one its own operations built, and a rendering has four
  bytes per pixel.
\<close>

definition ui_ok :: "ui_obs \<Rightarrow> bool" where
  "ui_ok ui \<longleftrightarrow> (case ui_session ui of None \<Rightarrow> True | Some st \<Rightarrow> store_inv st)
     \<and> list_all (\<lambda>(w, h, px). length px = w * h * 4) (ui_renders ui)"

definition ui_cost :: "ui_obs \<Rightarrow> nat" where
  "ui_cost ui = 2 * length (ui_freeze_navs ui) + 2"

lemma map_option_bind: "map_option f (r \<bind> g) = r \<bind> (\<lambda>x. map_option f (g x))"
  by (cases r) auto

section \<open>Capturing\<close>

lemma capture_store_total: "store_inv st \<Longrightarrow> capture_store lay l st \<noteq> None"
  using make_mut_total [of st l]
  by (auto simp: capture_store_def split: prod.splits)

lemma capture_store_ledger:
  "ledger_inv l \<Longrightarrow> capture_store lay l st = Some (l', st', r) \<Longrightarrow> ledger_inv l'"
proof -
  assume l: "ledger_inv l" and c: "capture_store lay l st = Some (l', st', r)"
  show "ledger_inv l'"
  proof (cases "ss_no_stash st \<or> ss_sensitive st = [] \<and> ss_backing st \<noteq> None")
    case True
    with c l show ?thesis
      by (auto simp: capture_store_def intro: ledger_inv_drop_bucket split: if_splits)
  next
    case False
    with c obtain l1 st1 pairs n where "make_mut l st = Some (l1, st1)"
      "l' = fst (bucket_seal lay l1 (ss_origin st1) pairs n)"
      by (auto simp: capture_store_def bind_eq_Some_conv Let_def case_prod_beta split: if_splits)
    with l show ?thesis using make_mut_ledger bucket_seal_inv by blast
  qed
qed

lemma paint_attempts_dims:
  "paint_attempts lay l now renders = Some (l', Some p) \<Longrightarrow> pt_width p \<le> 512 \<and> pt_height p \<le> 288"
  by (induction lay l now renders rule: paint_attempts.induct)
     (auto simp: paint_seal_def split: option.splits prod.splits sum.splits if_splits)

lemma capture_paint_ok:
  assumes "list_all (\<lambda>(w, h, px). length px = w * h * 4) renders" and "ledger_inv l"
  shows "\<exists>l' p. capture_paint lay l now d w h renders = Some (l', p) \<and> ledger_inv l'
    \<and> (\<forall>q. p = Some q \<longrightarrow> pt_width q \<le> 512 \<and> pt_height q \<le> 288)"
proof -
  from assms(1) have "list_all (\<lambda>(w, h, px). length px = w * h * 4) (take 4 renders)"
    by (auto simp: list_all_iff dest: in_set_takeD)
  from paint_attempts_total [OF this, of lay l now] obtain l' p
    where "paint_attempts lay l now (take 4 renders) = Some (l', p)" by auto
  then show ?thesis
    using paint_attempts_inv [OF assms(2)] paint_attempts_dims assms(2)
    by (auto simp: capture_paint_def)
qed

lemma capture_state_ok:
  assumes "ui_ok ui" and "ledger_inv l"
  obtains l' stash preview where "capture_state lay ui now busy location replayable l = Some (l', stash, preview)"
    "ledger_inv l'" "\<And>q. preview = Some q \<Longrightarrow> pt_width q \<le> 512 \<and> pt_height q \<le> 288"
proof -
  let ?disabled = "busy \<or> ui_stash_disabled ui"
  let ?forms = "if busy then [] else capture_forms lay (ui_slack ui) (ui_fields ui)"
  obtain l1 session where s: "(if ?disabled then Some (l, None)
       else case ui_session ui of None \<Rightarrow> Some (l, None)
            | Some st \<Rightarrow> capture_store lay l st \<bind> (\<lambda>(l', _, s). Some (l', s))) = Some (l1, session)"
    and l1: "ledger_inv l1"
  proof (cases "?disabled \<or> ui_session ui = None")
    case True
    with assms(2) that [of l None] show thesis by auto
  next
    case False
    then obtain st where st: "ui_session ui = Some st" by auto
    with assms(1) have "capture_store lay l st \<noteq> None" by (intro capture_store_total) (simp add: ui_ok_def)
    then obtain l1 st' r where c: "capture_store lay l st = Some (l1, st', r)" by auto
    show thesis by (rule that [of l1 r]) (use False st c capture_store_ledger [OF assms(2) c] in simp_all)
  qed
  obtain l2 stash where p: "(if ?disabled then (l1, None)
       else case page_seal lay (ui_url_hint ui) l1 location replayable ?forms
                   (pushed_capacity (ui_grow ui) 0 0 (length ?forms)) session (ui_scroll ui) 0 of
              (l', Inl _) \<Rightarrow> (l', None) | (l', Inr s) \<Rightarrow> (l', Some s)) = (l2, stash)"
    by (rule prod.exhaust)
  have l2: "ledger_inv l2"
    using p l1 page_seal_inv [OF l1, of lay "ui_url_hint ui" location replayable ?forms
        "pushed_capacity (ui_grow ui) 0 0 (length ?forms)" session "ui_scroll ui" 0]
    by (auto split: if_splits prod.splits sum.splits)
  from capture_paint_ok [OF _ l2, of "ui_renders ui" lay now "ui_stash_disabled ui" "ui_view_width ui"
      "ui_view_height ui"] assms(1)
  obtain l3 pv where "capture_paint lay l2 now (ui_stash_disabled ui) (ui_view_width ui)
      (ui_view_height ui) (ui_renders ui) = Some (l3, pv)" "ledger_inv l3"
    "\<forall>q. pv = Some q \<longrightarrow> pt_width q \<le> 512 \<and> pt_height q \<le> 288"
    by (auto simp: ui_ok_def)
  with s p l2 that show thesis
    unfolding capture_state_def Let_def by (cases "is_tuple (url_origin (loc_url location))") auto
qed

section \<open>Sleeping\<close>

lemma drop_previews_keeps: "keeps c b (Some (drop_previews b))"
proof (rule keeps_tabs)
  have gen: "ledger_inv l \<Longrightarrow> ledger_inv (foldl drop_paint l ps)" for l ps
    by (induction ps arbitrary: l) (auto intro: ledger_inv_drop_paint)
  show "world_le (b_world b) (b_world (drop_previews b))"
    using gen by (auto simp: drop_previews_def world_le_def)
  assume inv: "browser_inv b"
  show "forward b (drop_previews b)" by (auto simp: forward_def reached_def drop_previews_def)
  have "map t_id (b_tabs (drop_previews b)) = map t_id (b_tabs b)" by (simp add: drop_previews_def)
  moreover have "\<forall>t\<in>set (b_tabs (drop_previews b)). tab_ok t \<and> t_id t < b_next_tab_id (drop_previews b)
            \<and> t_id t \<in> reg_ids (b_records (drop_previews b))"
    using inv by (auto simp: browser_inv_def drop_previews_def tab_ok_def preview_ok_def)
  moreover have "b_active (drop_previews b) = b_active b" "b_records (drop_previews b) = b_records b"
    by (simp_all add: drop_previews_def)
  ultimately show "b_tabs (drop_previews b) \<noteq> [] \<and> distinct (map t_id (b_tabs (drop_previews b)))
       \<and> b_active (drop_previews b) \<in> set (map t_id (b_tabs (drop_previews b)))
       \<and> (\<forall>t\<in>set (b_tabs (drop_previews b)). tab_ok t \<and> t_id t < b_next_tab_id (drop_previews b)
            \<and> t_id t \<in> reg_ids (b_records (drop_previews b)))
       \<and> registry_inv (b_records (drop_previews b))"
    using inv unfolding browser_inv_def by (metis map_is_Nil_conv)
  fix k assume "room (c + k) b"
  then show "room k (drop_previews b)" by (auto simp: room_def drop_previews_def)
qed (simp_all add: drop_previews_def)

lemma set_budget_keeps: "ledger_inv l \<Longrightarrow> keeps c b (Some (set_budget l b))"
  unfolding set_budget_def by (intro keeps_world) (simp add: world_le_def)

lemma reserve_record_keeps: "keeps c b (Some (fst (reserve_record b)))"
proof (rule keeps_assume_inv)
  assume inv: "browser_inv b"
  then have l: "ledger_inv (w_budget (b_world b))" by (simp add: browser_inv_def)
  show ?thesis
  proof (cases "reserve (w_budget (b_world b)) (32 * 1024)")
    case (Inr r)
    with l set_budget_keeps show ?thesis
      by (cases r) (auto simp: reserve_record_def intro: ledger_inv_reserve set_budget_keeps)
  next
    case (Inl e)
    let ?b = "drop_previews b"
    have "keeps 0 ?b (Some (fst (case reserve (w_budget (b_world ?b)) (32 * 1024) of
        Inr (c, l) \<Rightarrow> (set_budget l ?b, Some c) | Inl _ \<Rightarrow> (?b, None))))" if "browser_inv ?b"
      using that by (auto simp: browser_inv_def intro: ledger_inv_reserve set_budget_keeps split: sum.split)
    with Inl keeps_then [OF drop_previews_keeps] show ?thesis
      by (simp add: reserve_record_def Let_def)
  qed
qed

lemma discard_tab_ok:
  assumes "lf_epoch (t_life t) + 1 \<le> u64_max" and "t_generation t + 1 \<le> u64_max"
  obtains w' where "discard_tab ext t stash preview charge w = Some
      (t\<lparr>t_generation := t_generation t + 1, t_mounted := None, t_loading := False,
         t_history := map (sleeping_request ext) (t_history t),
         t_life := (t_life t)\<lparr>lf_epoch := lf_epoch (t_life t) + 1, lf_deadline := None, lf_phase := PhDiscarding,
            lf_visible := False, lf_discarded := True, lf_restore_deadline := None, lf_load_signal := None,
            lf_stash := stash, lf_preview := preview, lf_record_charge := Some charge,
            lf_reason := (if stash \<noteq> None then [] else S ''stash-incomplete'')\<rparr>\<rparr>, w')"
    "world_le w w'"
proof -
  let ?lf = "t_life t"
  let ?w3 = "abort_ref (lf_load_signal ?lf) (cancel_deadline_ref (lf_restore_deadline ?lf)
     (cancel_deadline_ref (lf_deadline ?lf) w))"
  let ?w4 = "?w3\<lparr>w_budget := drop_charge (drop_paint (drop_stash (w_budget ?w3) (lf_stash ?lf)) (lf_preview ?lf))
     (lf_record_charge ?lf)\<rparr>"
  have "world_le w ?w3" by (meson world_le_trans world_le_cancel world_le_abort)
  moreover have "world_le ?w3 ?w4" by (auto simp: world_le_def intro!: inv_intros)
  ultimately have "world_le w ?w4" by (rule world_le_trans)
  then show thesis
    using assms that
    by (simp add: discard_tab_def life_cancel_deadline_eq life_cancel_restore_def life_abort_load_def
        checked_add_def Let_def)
qed

lemma track_release_keeps: "keeps c b (Some (track_release i receipt b))"
proof (cases "find_tab i b")
  case None
  then show ?thesis by (auto simp: track_release_def intro!: keeps_rest)
next
  case (Some t)
  then have t: "t \<in> set (b_tabs b)" by (auto dest: find_tab_SomeD)
  let ?b = "set_life t ((t_life t)\<lparr>lf_release := Some receipt\<rparr>) b"
  have k: "keeps c b (Some ?b)" by (rule keeps_set_life [OF t]) auto
  have "keeps 0 ?b (Some (?b\<lparr>b_releases := b_releases ?b @ [(i, receipt)]\<rparr>))"
    by (auto intro!: keeps_rest)
  with Some keeps_then [OF k] show ?thesis by (simp add: track_release_def Let_def)
qed

lemma run_release_keeps: "keeps c b (Some (run_release k b))"
  by (auto simp: run_release_def split: prod.split intro!: keeps_rest)

text \<open>The end of a sleep: the tab is discarded and its page retired.\<close>

lemma discard_keeps:
  assumes u: "u \<in> set (b_tabs b)" "t_id u = i" and l: "ledger_inv l"
    and pv: "\<And>q. preview = Some q \<Longrightarrow> pt_width q \<le> 512 \<and> pt_height q \<le> 288"
  shows "keeps 1 b (discard_tab ext u stash preview charge ((b_world b)\<lparr>w_budget := l\<rparr>) \<bind>
     (\<lambda>(u', w). Some ((put_tab u' b)\<lparr>b_world := w, b_records := loading (b_records b) i (t_generation u')\<rparr>)))"
proof (rule keeps_assume)
  assume inv: "browser_inv b" and room: "room 1 b"
  from room_tab [OF room u(1)] have rm: "lf_epoch (t_life u) + 1 \<le> u64_max" "t_generation u + 1 \<le> u64_max"
    by auto
  let ?w = "(b_world b)\<lparr>w_budget := l\<rparr>"
  let ?u = "u\<lparr>t_generation := t_generation u + 1, t_mounted := None, t_loading := False,
         t_history := map (sleeping_request ext) (t_history u),
         t_life := (t_life u)\<lparr>lf_epoch := lf_epoch (t_life u) + 1, lf_deadline := None, lf_phase := PhDiscarding,
            lf_visible := False, lf_discarded := True, lf_restore_deadline := None, lf_load_signal := None,
            lf_stash := stash, lf_preview := preview, lf_record_charge := Some charge,
            lf_reason := (if stash \<noteq> None then [] else S ''stash-incomplete'')\<rparr>\<rparr>"
  obtain w' where d: "discard_tab ext u stash preview charge ?w = Some (?u, w')" "world_le ?w w'"
    by (rule discard_tab_ok [OF rm])
  have w: "world_le (b_world b) w'"
    using world_le_budget [OF l] d(2) by (rule world_le_trans)
  have k1: "keeps 1 b (Some ((put_tab ?u b)\<lparr>b_world := w'\<rparr>))"
    using pv w by (intro keeps_put_world [OF u(1)]) (auto simp: tab_ok_def preview_ok_def split: option.split)
  let ?b = "(put_tab ?u b)\<lparr>b_world := w'\<rparr>"
  have "keeps 0 ?b (Some (?b\<lparr>b_records := loading (b_records b) i (t_generation ?u)\<rparr>))"
    by (rule keeps_rest) (auto intro: registry_inv_loading)
  with d(1) keeps_then [OF k1] show ?thesis by simp
qed

lemma discard_frozen_keeps:
  assumes "ui_ok ui"
  shows "keeps 1 b (map_option fst (discard_frozen ext lay ui now t rq mount charge b))"
proof (rule keeps_assume_inv)
  assume inv: "browser_inv b"
  let ?i = "t_id t" and ?g = "t_generation t"
  let ?l1 = "foldl (\<lambda>l c. fst (arc_drop l c)) (w_budget (b_world b)) (ui_freeze_drops ui)"
  let ?still = "find_sleep ?i ?g (lf_epoch (t_life t)) b \<noteq> None"
  have "ledger_inv (foldl (\<lambda>l c. fst (arc_drop l c)) l cs)" if "ledger_inv l" for l cs
    using that by (induction cs arbitrary: l) (auto intro: ledger_inv_drop)
  with inv have l1: "ledger_inv ?l1" by (simp add: browser_inv_def)
  obtain l2 stash preview where cs: "capture_state lay ui now (t_loading t \<or> \<not> ?still)
        \<lparr>loc_url = rq_url rq, loc_entry = t_current t, loc_generation = ?g\<rparr> (idempotent rq) ?l1
        = Some (l2, stash, preview)" and l2: "ledger_inv l2"
    and pv: "\<And>q. preview = Some q \<Longrightarrow> pt_width q \<le> 512 \<and> pt_height q \<le> 288"
    using capture_state_ok [OF assms l1] by metis
  have gone: "keeps 1 b (Some (set_budget (fst (arc_drop ?l1 charge)) b))"
    "keeps 1 b (Some (set_budget (fst (arc_drop (drop_paint (drop_stash l2 stash) preview) charge)) b))"
    using l1 l2 by (auto intro!: set_budget_keeps ledger_inv_drop ledger_inv_drop_paint ledger_inv_drop_stash)
  let ?d = "\<lambda>u. discard_tab ext u stash preview charge ((b_world b)\<lparr>w_budget := l2\<rparr>) \<bind>
      (\<lambda>(u', w). Some ((put_tab u' b)\<lparr>b_world := w, b_records := loading (b_records b) ?i (t_generation u')\<rparr>))"
  let ?f = "\<lambda>b2. Some (case ui_retire ui mount of None \<Rightarrow> b2 | Some receipt \<Rightarrow> track_release ?i receipt b2)"
  have fin: "keeps 1 b (?d u \<bind> ?f)" if "find_tab_at ?i ?g b = Some u" for u
  proof -
    from that have u: "u \<in> set (b_tabs b)" "t_id u = ?i" by (auto dest: find_tab_atD)
    have "keeps (1 + 0) b (?d u \<bind> ?f)"
    proof (rule keeps_bind)
      show "keeps 1 b (?d u)" by (rule discard_keeps [OF u l2]) (rule pv)
      show "keeps 0 b2 (?f b2)" for b2 by (auto split: option.split intro: track_release_keeps)
    qed
    then show ?thesis by simp
  qed
  have split: "map_option fst (discard_tab ext u stash preview charge ((b_world b)\<lparr>w_budget := l2\<rparr>) \<bind>
      (\<lambda>(u', w). Some (case ui_retire ui mount of
           None \<Rightarrow> ((put_tab u' b)\<lparr>b_world := w, b_records := loading (b_records b) ?i (t_generation u')\<rparr>, False)
         | Some receipt \<Rightarrow> (track_release ?i receipt
             ((put_tab u' b)\<lparr>b_world := w, b_records := loading (b_records b) ?i (t_generation u')\<rparr>), True))))
      = ?d u \<bind> ?f" for u
    by (cases "discard_tab ext u stash preview charge ((b_world b)\<lparr>w_budget := l2\<rparr>)")
       (auto split: option.split)
  show ?thesis
    unfolding discard_frozen_def Let_def cs
    using gone fin
    by (simp add: split split: option.split del: One_nat_def)
qed

lemma freeze_and_discard_keeps:
  assumes "ui_ok ui"
  shows "keeps (2 * length (ui_freeze_navs ui) + 1) b
    (map_option fst (freeze_and_discard ext lay ui now t rq mount charge b))"
  unfolding freeze_and_discard_def map_option_bind
  by (intro keeps_bind page_navigations_keeps discard_frozen_keeps assms)

lemma commit_sleep_keeps:
  assumes "ui_ok ui"
  shows "keeps (ui_cost ui) b (map_option fst (commit_sleep ext lay ui now i g e automatic b))"
proof (rule keeps_assume_inv)
  assume inv: "browser_inv b"
  let ?c = "2 * length (ui_freeze_navs ui) + 1"
  have c: "?c \<le> ui_cost ui" by (simp add: ui_cost_def)
  show ?thesis
  proof (cases "find_sleep i g e b")
    case None
    then show ?thesis by (simp add: commit_sleep_def)
  next
    case (Some t)
    then have t: "t \<in> set (b_tabs b)" by (auto simp: find_sleep_def dest: find_SomeD)
    with inv have "tab_ok t" by (simp add: browser_inv_tab)
    then obtain rq where rq: "t_request t = Some rq" by (auto simp: t_request_def tab_ok_def)
    obtain b1 charge where r: "reserve_record b = (b1, charge)" by (metis surj_pair)
    have k1: "keeps 0 b (Some b1)" using reserve_record_keeps [of 0 b] r by simp
    have fz: "keeps (ui_cost ui) b (map_option fst (freeze_and_discard ext lay ui now t rq mount ch b1))"
      for mount ch
      using keeps_trans [OF k1 freeze_and_discard_keeps [OF assms]] by (intro keeps_mono [OF _ c]) simp
    have fz2: "keeps (ui_cost ui) b (map_option fst (freeze_and_discard ext lay ui now t rq mount ch
        (set_life u ((t_life u)\<lparr>lf_phase := PhFreezing\<rparr>) b1)))" if "find_tab i b1 = Some u" for u mount ch
    proof -
      from that have u: "u \<in> set (b_tabs b1)" by (auto dest: find_tab_SomeD)
      have "keeps 0 b1 (Some (set_life u ((t_life u)\<lparr>lf_phase := PhFreezing\<rparr>) b1))"
        by (rule keeps_set_life [OF u]) auto
      from keeps_trans [OF keeps_then [OF k1 this] freeze_and_discard_keeps [OF assms]] show ?thesis
        by (intro keeps_mono [OF _ c]) simp
    qed
    show ?thesis
      using Some r rq keeps_mono [OF k1, of "ui_cost ui"] fz fz2
      by (simp add: commit_sleep_def split: option.split)
  qed
qed

section \<open>The other messages\<close>

lemma restore_timeout_keeps: "keeps 1 b (map_option fst (restore_timeout ui i g b))"
proof (rule keeps_assume)
  assume inv: "browser_inv b" and room: "room 1 b"
  show ?thesis
  proof (cases "find (\<lambda>t. t_id t = i \<and> t_generation t = g \<and> lf_phase (t_life t) = PhWaking) (b_tabs b)")
    case None
    then show ?thesis by (simp add: restore_timeout_def)
  next
    case (Some t)
    then have t: "t \<in> set (b_tabs b)" by (auto dest: find_SomeD)
    let ?r = "life_cancel_restore (t_life t) (b_world b)"
    let ?a = "life_abort_load (fst ?r) (snd ?r)"
    let ?lf = "(fst ?a)\<lparr>lf_phase := PhRestoreFailed, lf_visible := False,
                      lf_reason := S ''restore-timeout'', lf_preview_surface := None\<rparr>"
    let ?b = "(put_tab (t\<lparr>t_generation := t_generation t + 1, t_loading := False, t_mounted := None,
         t_life := ?lf\<rparr>) b)\<lparr>b_world := snd ?a\<rparr>"
    let ?f = "\<lambda>b1. case t_mounted t of None \<Rightarrow> b1 | Some page \<Rightarrow>
         (case ui_retire ui (mp_mount_node_id page) of None \<Rightarrow> b1 | Some receipt \<Rightarrow> track_release i receipt b1)"
    have eq: "map_option fst (restore_timeout ui i g b) = Some (?f ?b)"
      using Some room_tab [OF room t]
      by (simp add: restore_timeout_def checked_add_def Let_def case_prod_beta split: option.split)
    have k1: "keeps 1 b (Some ?b)"
      using t by (intro keeps_put_world [OF t])
        (auto simp: tab_ok_def preview_ok_def intro: world_le_trans [OF life_cancel_restore_simps(5) life_abort_load_simps(5)])
    have k2: "keeps 0 ?b (Some (?f ?b))"
      by (auto split: option.split intro: track_release_keeps)
    show ?thesis unfolding eq by (rule keeps_then [OF k1 k2])
  qed
qed

lemma on_released_keeps: "keeps 1 b (map_option fst (on_released ui now i receipt b))"
proof (cases "find_tab i b")
  case None
  then show ?thesis by (simp add: on_released_def)
next
  case (Some t)
  then have t: "t \<in> set (b_tabs b)" by (auto dest: find_tab_SomeD)
  let ?lf = "(t_life t)\<lparr>lf_release := None\<rparr>"
  let ?lf1 = "if lf_phase ?lf \<noteq> PhRestoreFailed then ?lf\<lparr>lf_phase := PhSleeping\<rparr> else ?lf"
  let ?s = "set_life t (?lf1\<lparr>lf_wake_requested := False\<rparr>) b"
  let ?b = "?s\<lparr>b_records := sleeping (b_records b) i\<rparr>"
  have "keeps 0 b (Some ?s)" by (rule keeps_set_life [OF t]) auto
  moreover have "keeps 0 ?s (Some ?b)"
    by (rule keeps_rest) (auto simp: set_life_def intro: registry_inv_sleeping)
  ultimately have k: "keeps 0 b (Some ?b)" by (rule keeps_then)
  have k2: "keeps 1 b (map_option fst (request_wake now i ?b))"
    using keeps_trans [OF k request_wake_keeps] by simp
  have "map_option fst (on_released ui now i receipt b) =
      (if lf_release (t_life t) \<noteq> Some receipt \<or> \<not> ui_complete ui receipt then Some b
       else if lf_wake_requested ?lf1 then map_option fst (request_wake now i ?b) else Some ?b)"
    using Some by (simp add: on_released_def Let_def option.map_comp comp_def)
  with k2 keeps_mono [OF k, of 1] show ?thesis by (simp del: One_nat_def)
qed

lemma on_visibility_keeps: "keeps 1 b (map_option fst (on_visibility now page visible b))"
proof (rule keeps_assume)
  assume inv: "browser_inv b" and room: "room 1 b"
  let ?p = "\<lambda>t. t_id t = sf_tab_id page \<and> t_generation t = sf_generation page
              \<and> (case t_mounted t of None \<Rightarrow> False | Some m \<Rightarrow> mp_document_id m = sf_document_id page)"
  show ?thesis
  proof (cases "find ?p (b_tabs b)")
    case None
    then show ?thesis by (simp add: on_visibility_def)
  next
    case (Some t)
    then have t: "t \<in> set (b_tabs b)" by (auto dest: find_SomeD)
    let ?lf = "(t_life t)\<lparr>lf_visible := visible, lf_epoch := lf_epoch (t_life t) + 1, lf_deadline := None\<rparr>"
    let ?lf1 = "if visible then ?lf else ?lf\<lparr>lf_hidden_at := now\<rparr>"
    let ?b = "(set_life t ?lf1 b)\<lparr>b_world := cancel_deadline_ref (lf_deadline (t_life t)) (b_world b)\<rparr>"
    have "map_option fst (on_visibility now page visible b)
        = (if lf_visible (t_life t) = visible then Some b else Some (arm_hidden (sf_tab_id page) ?b))"
      using Some room_tab [OF room t] by (simp add: on_visibility_def life_cancel_deadline_eq)
    moreover have "keeps 1 b (Some ?b)"
      unfolding set_life_def by (rule keeps_put_world [OF t]) (auto simp: tab_ok_def preview_ok_def)
    ultimately show ?thesis
      using keeps_then [OF _ arm_hidden_keeps] by (simp del: One_nat_def)
  qed
qed

lemma on_painted_keeps: "keeps 1 b (map_option fst (on_painted now page b))"
proof (cases "find_tab_at (sf_tab_id page) (sf_generation page) b")
  case None
  then show ?thesis by (simp add: on_painted_def)
next
  case (Some t)
  then have t: "t \<in> set (b_tabs b)" by (auto dest: find_tab_atD)
  let ?s = "set_life t ((t_life t)\<lparr>lf_await_preview := False\<rparr>) b"
  have "keeps 0 b (Some ?s)" by (rule keeps_set_life [OF t]) auto
  then have k1: "keeps 1 b (schedule_current now (sf_tab_id page) True ?s)"
    using keeps_trans schedule_current_keeps by fastforce
  let ?r = "life_cancel_restore ((t_life t)\<lparr>lf_phase := PhLive\<rparr>) (b_world b)"
  let ?v = "life_take_saved (fst ?r) (snd ?r)"
  have k2: "keeps 1 b (Some ((set_life t (fst ?v) b)\<lparr>b_world := snd ?v\<rparr>))"
    unfolding set_life_def
    by (rule keeps_put_world [OF t]) (auto simp: tab_ok_def preview_ok_def
        intro: world_le_trans [OF life_cancel_restore_simps(5) life_take_saved_simps(4)])
  show ?thesis
    using Some k1 k2
    by (simp add: on_painted_def Let_def case_prod_beta option.map_comp comp_def option.map_ident split: option.split del: One_nat_def)
qed

lemma on_message_keeps:
  assumes "ui_ok ui"
  shows "keeps (ui_cost ui) b (map_option fst (on_message ext lay ui now m b))"
proof -
  have c: "1 \<le> ui_cost ui" by (simp add: ui_cost_def)
  note [simp] = keeps_mono [OF restore_timeout_keeps c] keeps_mono [OF on_released_keeps c]
    keeps_mono [OF on_visibility_keeps c] keeps_mono [OF on_painted_keeps c] commit_sleep_keeps [OF assms]
  show ?thesis
  proof (cases m)
    case (MSurface s)
    then show ?thesis by (cases s) simp_all
  qed simp_all
qed

section \<open>Polling\<close>

lemma message_loop_keeps:
  assumes "\<And>k. ui_ok (uis k)" and "\<And>k. ui_cost (uis k) \<le> n"
  shows "keeps (n * length ms) b (map_option fst (message_loop ext lay uis now k ms b))"
proof (induction ms arbitrary: k b)
  case (Cons m ms)
  have "map_option fst (message_loop ext lay uis now k (m # ms) b)
      = map_option fst (on_message ext lay (uis k) now m b)
        \<bind> (\<lambda>b1. map_option fst (message_loop ext lay uis now (Suc k) ms b1))"
    by (cases "on_message ext lay (uis k) now m b") (auto simp: map_option_bind case_prod_beta split: Option.bind_split)
  moreover have "keeps n b (map_option fst (on_message ext lay (uis k) now m b))"
    using keeps_mono [OF on_message_keeps [OF assms(1)] assms(2)] .
  ultimately show ?case using keeps_bind Cons.IH by fastforce
qed simp

lemma extend_times_capacity:
  "extend_times n pixel d = Some d' \<Longrightarrow> ob_capacity d' = ob_capacity d"
  by (induction n pixel d rule: extend_times.induct) (auto simp: ob_extend_def split: option.splits if_splits)

lemma decode_runs_total:
  assumes "ob_capacity d = len" and "len < u64_max" and "length (ob_bytes d) \<le> len"
  shows "decode_runs len bs d \<noteq> None"
  using assms
proof (induction len bs d rule: decode_runs.induct)
  case (1 len a b p q r s rest decoded)
  let ?n = "un_le16 a b"
  show ?case
  proof (cases "len < saturating_add (length (ob_bytes decoded)) (?n * 4)")
    case False
    with 1 have fit: "length (ob_bytes decoded) + ?n * 4 \<le> ob_capacity decoded"
      by (auto simp: saturating_add_def)
    then obtain d where "extend_times ?n [p, q, r, s] decoded = Some d"
      "d = decoded\<lparr>ob_bytes := ob_bytes decoded @ concat (replicate ?n [p, q, r, s])\<rparr>"
      using extend_times_ok [of decoded ?n "[p, q, r, s]"] by (auto simp: mult.commute)
    moreover have "length (concat (replicate ?n [p, q, r, s])) = ?n * 4"
      by (simp add: length_concat sum_list_replicate)
    ultimately show ?thesis using 1 False fit by (auto simp: Let_def)
  qed (simp add: Let_def)
qed auto

lemma show_preview_total: "pt_width p \<le> 512 \<Longrightarrow> pt_height p \<le> 288 \<Longrightarrow> show_preview p \<noteq> None"
proof -
  assume "pt_width p \<le> 512" "pt_height p \<le> 288"
  then have "pt_width p * pt_height p \<le> 512 * 288" by (rule mult_le_mono)
  then have "decode_runs (pt_width p * pt_height p * 4) (ob_bytes (pt_encoded p))
      \<lparr>ob_bytes = [], ob_capacity = pt_width p * pt_height p * 4\<rparr> \<noteq> None"
    by (intro decode_runs_total) (auto simp: u64_max_def)
  then show ?thesis by (auto simp: show_preview_def Let_def split: option.splits)
qed

lemma show_saved_keeps: "keeps 0 b (map_option fst (show_saved ui b))"
proof (rule keeps_assume_inv)
  assume inv: "browser_inv b"
  let ?p = "\<lambda>t. t_id t = b_active b \<and> lf_preview (t_life t) \<noteq> None \<and> lf_preview_surface (t_life t) = None"
  show ?thesis
  proof (cases "find ?p (b_tabs b)")
    case None
    then show ?thesis by (simp add: show_saved_def)
  next
    case (Some t)
    then have t: "t \<in> set (b_tabs b)" and pv: "lf_preview (t_life t) \<noteq> None" by (auto dest: find_SomeD)
    then obtain p where p: "lf_preview (t_life t) = Some p" by auto
    from browser_inv_tab [OF inv t] p have "show_preview p \<noteq> None"
      by (intro show_preview_total) (auto simp: tab_ok_def preview_ok_def)
    moreover have "keeps 0 b (Some (set_life t ((t_life t)\<lparr>lf_preview_surface := x\<rparr>) b))" for x
      by (rule keeps_set_life [OF t]) auto
    ultimately show ?thesis
      using Some p by (auto simp: show_saved_def split: option.split)
  qed
qed

lemma poll_lifecycle_keeps:
  assumes "\<And>k. ui_ok (uis k)" and "\<And>k. ui_cost (uis k) \<le> n"
  shows "keeps (n * length (b_lifecycle b)) b (map_option fst (poll_lifecycle ext lay uis now b))"
proof -
  let ?ms = "sorted_messages (b_lifecycle b)" and ?b = "b\<lparr>b_lifecycle := []\<rparr>"
  have k0: "keeps 0 b (Some ?b)" by (auto intro!: keeps_rest)
  have "map_option fst (poll_lifecycle ext lay uis now b)
      = map_option fst (message_loop ext lay uis now 0 ?ms ?b)
        \<bind> (\<lambda>b1. map_option fst (show_saved (uis (length ?ms)) b1))"
    by (cases "message_loop ext lay uis now 0 ?ms ?b")
       (auto simp: poll_lifecycle_def Let_def map_option_bind case_prod_beta split: Option.bind_split)
  moreover have "keeps (n * length ?ms + 0) ?b (map_option fst (message_loop ext lay uis now 0 ?ms ?b)
        \<bind> (\<lambda>b1. map_option fst (show_saved (uis (length ?ms)) b1)))"
    by (intro keeps_bind message_loop_keeps [OF assms] show_saved_keeps)
  ultimately show ?thesis
    using keeps_trans [OF k0] by (simp add: sorted_messages_def)
qed

section \<open>Attaching\<close>

lemma prepare_tab_page_keeps: "keeps c b (Some (fst (prepare_tab_page ext i g address b)))"
proof (rule keeps_assume_inv)
  assume "browser_inv b"
  then have "ledger_inv (w_budget (b_world b))" by (simp add: browser_inv_def)
  then show ?thesis
    unfolding prepare_tab_page_def Let_def fst_conv
    by (auto intro!: set_budget_keeps ledger_inv_clone split: option.split)
qed

lemma attach_page_keeps: "keeps 0 b (map_option fst (attach_page ext now p target po title script b))"
proof (rule keeps_assume_inv)
  assume inv: "browser_inv b"
  show ?thesis
  proof (cases "find_tab_at (pb_tab p) (pb_generation p) b")
    case None
    then show ?thesis by (simp add: attach_page_def)
  next
    case (Some t)
    then have t: "t \<in> set (b_tabs b)" by (auto dest: find_tab_atD)
    with inv have ok: "tab_ok t" by (simp add: browser_inv_tab)
    let ?b = "\<lambda>t'. (put_tab t' b)\<lparr>b_records := attached (b_records b) (pb_tab p) (pb_generation p)\<rparr>"
    have fin: "keeps 0 b (Some (arm_hidden (pb_tab p) (?b t')))"
      if "t_id t' = t_id t" "tab_ok t'" "t_generation t' = t_generation t"
        "lf_epoch (t_life t') = lf_epoch (t_life t)" for t'
    proof -
      have "keeps 0 b (Some (put_tab t' b))" by (rule keeps_put [OF t]) (use that in auto)
      moreover have "keeps 0 (put_tab t' b) (Some (?b t'))"
        by (rule keeps_rest) (auto intro: registry_inv_attached)
      ultimately have "keeps 0 b (Some (?b t'))" by (rule keeps_then)
      then show ?thesis by (rule keeps_then) (rule arm_hidden_keeps)
    qed
    obtain h where h: "(case url_parse ext (pb_resolved_url p) of
          Some u \<Rightarrow> do { rq \<leftarrow> t_request t; Some ((t_history t)[t_current t := rq\<lparr>rq_url := u\<rparr>]) }
        | None \<Rightarrow> Some (t_history t)) = Some h" "length h = length (t_history t)"
      using ok by (cases "url_parse ext (pb_resolved_url p)") (auto simp: t_request_def tab_ok_def)
    have eq: "map_option fst (attach_page ext now p target po title script b)
        = Some (arm_hidden (pb_tab p) (?b (attached_tab now p target po title script h t)))"
      unfolding attach_page_def Some option.case h(1) by simp
    show ?thesis unfolding eq
      by (rule fin) (use ok h(2) in \<open>auto simp: attached_tab_def Let_def tab_ok_def preview_ok_def\<close>)
  qed
qed

lemma fail_wake_keeps: "keeps 0 b (Some (fail_wake p po b))"
proof -
  let ?b = "case find_tab_at (pb_tab p) (pb_generation p) b of None \<Rightarrow> b
      | Some t \<Rightarrow>
          (case life_cancel_restore ((t_life t)\<lparr>lf_phase := PhRestoreFailed\<rparr>) (b_world b) of
             (lf, w) \<Rightarrow>
               (put_tab (t\<lparr>t_loading := False, t_outcome := pb_outcome p,
                  t_life := lf\<lparr>lf_reason := S ''reload-failed'', lf_preview_surface := None\<rparr>\<rparr>) b)
                  \<lparr>b_world := w\<rparr>)"
  have k: "keeps 0 b (Some ?b)"
  proof (cases "find_tab_at (pb_tab p) (pb_generation p) b")
    case (Some t)
    then have t: "t \<in> set (b_tabs b)" by (auto dest: find_tab_atD)
    show ?thesis unfolding Some option.case case_prod_beta
      by (rule keeps_put_world [OF t]) (auto simp: tab_ok_def preview_ok_def)
  qed simp
  show ?thesis
    unfolding fail_wake_def Let_def using keeps_then [OF k track_release_keeps] k by simp
qed

lemma poll_bundle_keeps:
  assumes "\<And>pr. 2 * length (po_navs (obs p pr)) \<le> n"
  shows "keeps n b (map_option fst (poll_bundle ext page_node obs now p b))"
proof (cases "\<exists>t target. find_tab (pb_tab p) b = Some t \<and> t_generation t = pb_generation p
     \<and> page_node (pb_tab p) = Some target")
  case False
  then show ?thesis by (auto simp: poll_bundle_def split: option.split)
next
  case True
  then obtain t target where t: "find_tab (pb_tab p) b = Some t" "t_generation t = pb_generation p"
    "page_node (pb_tab p) = Some target" by blast
  let ?last = "\<lambda>po title script b1. if pb_outcome p = OutError
         \<and> list_ex (\<lambda>t. t_id t = pb_tab p \<and> lf_phase (t_life t) = PhWaking) (b_tabs b1)
       then Some (fail_wake p po b1) else map_option fst (attach_page ext now p target po title script b1)"
  have last: "keeps 0 b1 (?last po title script b1)" for po title script b1
    by (simp add: fail_wake_keeps attach_page_keeps)
  have fin: "map_option fst (if c then Some (x, [], True) else attach_page ext now p target po title script b1 \<bind>
      (\<lambda>(b2, c). Some (b2, [] :: page_bundle list, c)))
      = (if c then Some x else map_option fst (attach_page ext now p target po title script b1))" for c x po title script b1
    by (cases "attach_page ext now p target po title script b1") auto
  show ?thesis
  proof (cases "pb_source p")
    case (Source body)
    have eq: "map_option fst (poll_bundle ext page_node obs now p b)
        = ?last (obs p None) (S ''source of '' @ pb_resolved_url p) False b"
      using t Source fin by (simp add: poll_bundle_def)
    show ?thesis unfolding eq by (rule keeps_mono [OF last]) simp
  next
    case (Html html scripts)
    let ?pr = "prepare_tab_page ext (pb_tab p) (pb_generation p) (pb_resolved_url p) b"
    let ?po = "obs p (Some (snd ?pr))"
    let ?nav = "page_navigations now (pb_tab p) (po_navs ?po) (fst ?pr)"
    have eq: "map_option fst (poll_bundle ext page_node obs now p b) = ?nav \<bind> ?last ?po (po_title ?po) True"
      using t Html fin by (cases ?nav) (auto simp: poll_bundle_def case_prod_beta)
    have "keeps (2 * length (po_navs ?po) + 0) (fst ?pr) (?nav \<bind> ?last ?po (po_title ?po) True)"
      by (intro keeps_bind page_navigations_keeps last)
    from keeps_trans [OF prepare_tab_page_keeps [where c = 0] this]
    have "keeps (2 * length (po_navs ?po)) b (?nav \<bind> ?last ?po (po_title ?po) True)"
      by (simp only: add_0 add_0_right)
    then show ?thesis using assms unfolding eq by (rule keeps_mono)
  qed
qed

end
