(* ===== verification/Browser_Machine.thy ===== *)
theory Browser_Machine
  imports Lifecycle_Keeps
begin

text \<open>
  The browser as a machine: the commands of the window, the polls of the document, the tasks that
  finish in the background and the charges that pages give back, in any order. The state is the
  browser together with the bundles \<open>poll_document\<close> has retained.
\<close>

section \<open>Actions\<close>

datatype action =
    SelectTab nat | OpenTab "str option" | OpenDormantTab "str option" | CloseTab nat | CloseActiveTab
  | Navigate nat str | PageNavigate nat request | GoBack nat | GoForward nat
  | SleepTab nat | WakeTab nat | Reload nat | SetPanelCollapsed bool | ToggleSection str | AttachApp
  | RunTimer nat | RunRelease nat
  | Fetched nat page_source page_outcome str \<comment> \<open>the n-th fetch ends\<close>
  | SurfaceEvent surface_event
  | DropCharge nat \<comment> \<open>a page lets go of a stash or a bucket\<close>
  | Poll "nat \<Rightarrow> ui_obs" "nat \<Rightarrow> nat option" "page_bundle \<Rightarrow> prepared option \<Rightarrow> page_obs"

text \<open>The end of a fetch task: its bundle carries the tab and the generation it was spawned with.\<close>

definition run_fetch :: "nat \<Rightarrow> page_source \<Rightarrow> page_outcome \<Rightarrow> str \<Rightarrow> browser \<Rightarrow> browser" where
  "run_fetch k source outcome address b =
     (if length (b_fetches b) \<le> k then b
      else b\<lparr>b_fetches := remove_at k (b_fetches b),
             b_completed := b_completed b @ [\<lparr>pb_tab = fk_tab (b_fetches b ! k),
                pb_generation = fk_generation (b_fetches b ! k), pb_resolved_url = address,
                pb_source = source, pb_outcome = outcome\<rparr>]\<rparr>)"

definition or_same :: "browser \<Rightarrow> str + browser \<Rightarrow> browser" where
  "or_same b r = (case r of Inl _ \<Rightarrow> b | Inr b' \<Rightarrow> b')"

fun command :: "net_ext \<Rightarrow> nat \<Rightarrow> action \<Rightarrow> browser \<Rightarrow> browser option" where
  "command ext now (SelectTab i) b = map_option fst (select_tab now i b)"
| "command ext now (OpenTab input) b = map_option fst (open_tab_record ext now input True b)"
| "command ext now (OpenDormantTab input) b = map_option fst (open_tab_record ext now input False b)"
| "command ext now (CloseTab i) b = close_tab now i b"
| "command ext now CloseActiveTab b = close_active_tab now b"
| "command ext now (Navigate i input) b = map_option fst (navigate ext now i input b)"
| "command ext now (PageNavigate i rq) b = map_option fst (navigate_request now i rq b)"
| "command ext now (GoBack i) b = go_back ext now i b"
| "command ext now (GoForward i) b = go_forward ext now i b"
| "command ext now (SleepTab i) b = Some (or_same b (request_sleep i b))"
| "command ext now (WakeTab i) b = map_option fst (request_wake now i b)"
| "command ext now (Reload i) b = reload ext now i b"
| "command ext now (SetPanelCollapsed c) b = Some (set_panel_collapsed c b)"
| "command ext now (ToggleSection name) b = Some (or_same b (toggle_section name b))"
| "command ext now AttachApp b = attach_app now b"
| "command ext now (RunTimer k) b = Some (run_timer now k b)"
| "command ext now (RunRelease k) b = Some (run_release k b)"
| "command ext now (Fetched k source outcome address) b = Some (run_fetch k source outcome address b)"
| "command ext now (SurfaceEvent s) b = Some (b\<lparr>b_lifecycle := b_lifecycle b @ [MSurface s]\<rparr>)"
| "command ext now (DropCharge c) b = Some (set_budget (fst (arc_drop (w_budget (b_world b)) c)) b)"
| "command ext now (Poll uis page_node obs) b = Some b"

type_synonym machine = "browser \<times> page_bundle list"

fun exec :: "net_ext \<Rightarrow> layout \<Rightarrow> nat \<Rightarrow> action \<Rightarrow> machine \<Rightarrow> machine option" where
  "exec ext lay now (Poll uis page_node obs) (b, pending) =
     map_option (\<lambda>(b', retained, _). (b', retained)) (poll_document ext lay uis page_node obs now pending b)"
| "exec ext lay now a (b, pending) = map_option (\<lambda>b'. (b', pending)) (command ext now a b)"

fun action_ok :: "action \<Rightarrow> bool" where
  "action_ok (Poll uis page_node obs) \<longleftrightarrow> (\<forall>k. ui_ok (uis k))"
| "action_ok _ = True"

section \<open>Invariant of the machine\<close>

definition machine_inv :: "machine \<Rightarrow> bool" where
  "machine_inv m \<longleftrightarrow> browser_inv (fst m)
     \<and> (\<forall>p\<in>set (snd m). reached (fst m) (pb_tab p) (pb_generation p) 0)"

definition action_cost :: "action \<Rightarrow> machine \<Rightarrow> nat \<Rightarrow> bool" where
  "action_cost a m c =
     (case a of
        Poll uis page_node obs \<Rightarrow> \<exists>n. (\<forall>k. ui_cost (uis k) \<le> n) \<and> (\<forall>p pr. 2 * length (po_navs (obs p pr)) \<le> n)
          \<and> n * (length (b_lifecycle (fst m)) + length (b_completed (fst m)) + length (snd m)) \<le> c
      | _ \<Rightarrow> 2 \<le> c)"

text \<open>
  \<open>reachable ext lay c m\<close>: some sequence of actions leads to \<open>m\<close>, and together they use at most \<open>c\<close>
  values of any counter.
\<close>

inductive reachable :: "net_ext \<Rightarrow> layout \<Rightarrow> nat \<Rightarrow> machine \<Rightarrow> bool" for ext lay where
  start: "build ext now delay first = Some b \<Longrightarrow> reachable ext lay 0 (b, [])"
| step: "reachable ext lay c m \<Longrightarrow> action_ok a \<Longrightarrow> action_cost a m d \<Longrightarrow> exec ext lay now a m = Some m' \<Longrightarrow>
         reachable ext lay (c + d) m'"

inductive_cases reachableE: "reachable ext lay c m"

lemma build_inv: "build ext now delay first = Some b \<Longrightarrow> browser_inv b"
  by (auto simp: build_def default_registry_def admit_def record_of_def browser_inv_def new_tab_def tab_ok_def
      default_life_def preview_ok_def reg_ids_def registry_inv_def ledger_inv_default split: sum.splits if_splits)

lemma run_fetch_keeps: "keeps c b (Some (run_fetch k source outcome address b))"
proof (rule keeps_assume_inv)
  assume inv: "browser_inv b"
  show ?thesis
  proof (cases "k < length (b_fetches b)")
    case True
    with inv have "reached b (fk_tab (b_fetches b ! k)) (fk_generation (b_fetches b ! k)) 0"
      by (simp add: browser_inv_def)
    with True show ?thesis
      by (auto simp: run_fetch_def not_le dest: in_remove_at intro!: keeps_rest)
  qed (simp add: run_fetch_def)
qed

lemma command_keeps:
  assumes "url_parse ext NEW_TAB_URL \<noteq> None"
  shows "keeps 2 b (command ext now a b)"
proof -
  note one = keeps_mono [where c = 1 and d = 2]
  have drop: "keeps 2 b (Some (set_budget (fst (arc_drop (w_budget (b_world b)) c)) b))" for c
    by (rule keeps_assume_inv) (auto simp: browser_inv_def intro!: set_budget_keeps ledger_inv_drop)
  have msg: "keeps 2 b (Some (b\<lparr>b_lifecycle := b_lifecycle b @ [MSurface s]\<rparr>))" for s
    by (auto intro!: keeps_rest)
  show ?thesis
    using assms one drop msg
    by (cases a) (simp_all add: select_tab_keeps open_tab_record_keeps close_tab_keeps close_active_tab_def
        navigate_keeps navigate_request_keeps go_back_keeps go_forward_keeps request_wake_keeps reload_keeps
        attach_app_def schedule_current_keeps panel_keeps request_sleep_keeps or_same_def run_timer_keeps
        run_release_keeps run_fetch_keeps split: sum.split del: One_nat_def)
qed

lemma bundle_loop_keeps:
  assumes "\<And>p pr. 2 * length (po_navs (obs p pr)) \<le> n"
  shows "keeps (n * length ps) b (map_option fst (bundle_loop ext page_node obs now ps b))"
proof (induction ps arbitrary: b)
  case (Cons p ps)
  have "map_option fst (bundle_loop ext page_node obs now (p # ps) b)
      = map_option fst (poll_bundle ext page_node obs now p b)
        \<bind> (\<lambda>b1. map_option fst (bundle_loop ext page_node obs now ps b1))"
    by (cases "poll_bundle ext page_node obs now p b")
       (auto simp: map_option_bind case_prod_beta split: Option.bind_split)
  moreover have "keeps n b (map_option fst (poll_bundle ext page_node obs now p b))"
    using assms by (rule poll_bundle_keeps)
  ultimately show ?case using keeps_bind Cons.IH by fastforce
qed simp

lemma bundle_loop_retained:
  "bundle_loop ext page_node obs now ps b = Some (b', retained, c) \<Longrightarrow> set retained \<subseteq> set ps"
proof (induction ps arbitrary: b b' retained c)
  case (Cons p ps)
  then obtain b1 kept c1 b2 rest c2 where p: "poll_bundle ext page_node obs now p b = Some (b1, kept, c1)"
    and r: "bundle_loop ext page_node obs now ps b1 = Some (b2, rest, c2)" "retained = kept @ rest"
    by (auto simp: bind_eq_Some_conv case_prod_beta intro!: that)
  have "set kept \<subseteq> {p}"
    using p by (auto simp: poll_bundle_def bind_eq_Some_conv split: option.splits if_splits prod.splits page_source.splits)
  with r Cons.IH [OF r(1)] show ?case by auto
qed simp

lemma poll_document_keeps:
  assumes "\<And>k. ui_ok (uis k)" and "\<And>k. ui_cost (uis k) \<le> n" and "\<And>p pr. 2 * length (po_navs (obs p pr)) \<le> n"
  shows "keeps (n * (length (b_lifecycle b) + length (b_completed b) + length pending)) b
    (map_option fst (poll_document ext lay uis page_node obs now pending b))"
proof -
  let ?b = "b\<lparr>b_completed := []\<rparr>" and ?todo = "pending @ b_completed b"
  have k0: "keeps 0 b (Some ?b)" by (auto intro!: keeps_rest)
  have eq: "map_option fst (poll_document ext lay uis page_node obs now pending b)
      = map_option fst (poll_lifecycle ext lay uis now ?b)
        \<bind> (\<lambda>b1. map_option fst (bundle_loop ext page_node obs now ?todo b1))"
    by (cases "poll_lifecycle ext lay uis now ?b")
       (auto simp: poll_document_def Let_def map_option_bind case_prod_beta split: Option.bind_split)
  have "keeps (n * length (b_lifecycle b) + n * length ?todo) ?b
    (map_option fst (poll_lifecycle ext lay uis now ?b)
        \<bind> (\<lambda>b1. map_option fst (bundle_loop ext page_node obs now ?todo b1)))"
    using poll_lifecycle_keeps [OF assms(1,2), of ?b] by (intro keeps_bind bundle_loop_keeps [OF assms(3)]) simp
  from keeps_trans [OF k0 this] show ?thesis
    unfolding eq by (simp add: algebra_simps)
qed

lemma machine_step:
  assumes "machine_inv m" and "action_ok a" and "url_parse ext NEW_TAB_URL \<noteq> None"
    and "action_cost a m c" and "room (c + k) (fst m)"
  shows "\<exists>m'. exec ext lay now a m = Some m' \<and> machine_inv m' \<and> room k (fst m') \<and> forward (fst m) (fst m')"
proof (cases "\<exists>uis page_node obs. a = Poll uis page_node obs")
  case True
  then obtain uis page_node obs where a: "a = Poll uis page_node obs" by blast
  obtain b pending where m: "m = (b, pending)" by (cases m)
  let ?todo = "pending @ b_completed b"
  from assms(4) a m obtain n where n: "\<And>k. ui_cost (uis k) \<le> n" "\<And>p pr. 2 * length (po_navs (obs p pr)) \<le> n"
    "n * (length (b_lifecycle b) + length (b_completed b) + length pending) \<le> c"
    by (auto simp: action_cost_def)
  have kp: "keeps c b (map_option fst (poll_document ext lay uis page_node obs now pending b))"
    using assms(2) a by (intro keeps_mono [OF poll_document_keeps n(3)]) (auto simp: n)
  then obtain b' where b': "map_option fst (poll_document ext lay uis page_node obs now pending b) = Some b'"
    "browser_inv b'" "room k b'" "forward b b'"
    using assms(1,5) m by (auto simp: keeps_def machine_inv_def)
  then obtain retained ch where p: "poll_document ext lay uis page_node obs now pending b = Some (b', retained, ch)"
    by auto
  then have "set retained \<subseteq> set ?todo"
    by (auto simp: poll_document_def bind_eq_Some_conv Let_def dest!: bundle_loop_retained)
  moreover have "\<forall>p\<in>set ?todo. reached b (pb_tab p) (pb_generation p) 0"
    using assms(1) m by (auto simp: machine_inv_def browser_inv_def)
  ultimately have "machine_inv (b', retained)"
    using b' by (auto simp: machine_inv_def forward_def)
  with b' p a m show ?thesis by auto
next
  case False
  obtain b pending where m: "m = (b, pending)" by (cases m)
  from False assms(4) have c: "2 \<le> c" by (cases a) (auto simp: action_cost_def)
  from keeps_mono [OF command_keeps [OF assms(3)] c] obtain b' where b': "command ext now a b = Some b'"
    "browser_inv b'" "room k b'" "forward b b'"
    using assms(1,5) m by (auto simp: keeps_def machine_inv_def) blast
  moreover have "machine_inv (b', pending)"
    using assms(1) m b' by (auto simp: machine_inv_def forward_def)
  moreover have "exec ext lay now a (b, pending) = Some (b', pending)"
    using False b'(1) by (cases a) auto
  ultimately show ?thesis using m by auto
qed

lemma build_room: "build ext now delay first = Some b \<Longrightarrow> room u64_max b"
  by (auto simp: build_def room_def new_tab_def default_life_def split: sum.splits)

lemma reachable_inv:
  assumes "url_parse ext NEW_TAB_URL \<noteq> None"
  shows "reachable ext lay c m \<Longrightarrow> c \<le> u64_max \<Longrightarrow> machine_inv m \<and> room (u64_max - c) (fst m)"
proof (induction rule: reachable.induct)
  case (start now delay first b)
  then show ?case by (simp add: machine_inv_def build_inv build_room)
next
  case (step c m a d now m')
  then have "machine_inv m" "room (d + (u64_max - (c + d))) (fst m)" by auto
  from machine_step [OF this(1) step.hyps(2) assms step.hyps(3) this(2), of lay now] step.hyps(4)
  show ?case by auto
qed

end
