(* ===== verification/Browser_Props.thy ===== *)
theory Browser_Props
  imports Browser_Machine
begin

text \<open>
  What the browser guarantees: it does not panic, its state stays well formed, the history of a tab
  is a zipper, a superseded load is never attached, a tab that is shown is not put to sleep, a
  discarded POST is not sent again, and a wake asked for during a discard is honoured.
\<close>

section \<open>Following one tab through an operation\<close>

lemma find_put_tab_other: "i \<noteq> t_id t' \<Longrightarrow> find_tab i (put_tab t' b) = find_tab i b"
proof -
  assume "i \<noteq> t_id t'"
  then have "find (\<lambda>u. t_id u = i) (map_first (\<lambda>u. t_id u = t_id t') (\<lambda>_. t') xs) = find (\<lambda>u. t_id u = i) xs" for xs
    by (induction xs) auto
  then show ?thesis by (simp add: find_tab_def put_tab_def)
qed

lemma put_put_tab: "t_id u = t_id t \<Longrightarrow> put_tab u (put_tab t b) = put_tab u b"
proof -
  assume eq: "t_id u = t_id t"
  have "map_first (\<lambda>v. t_id v = t_id t) (\<lambda>_. u) (map_first (\<lambda>v. t_id v = t_id t) (\<lambda>_. t) xs)
      = map_first (\<lambda>v. t_id v = t_id t) (\<lambda>_. u) xs" for xs
    by (induction xs) auto
  then show ?thesis by (simp add: put_tab_def eq)
qed

lemma find_tab_rest [simp]:
  "find_tab i (b\<lparr>b_world := w\<rparr>) = find_tab i b" "find_tab i (b\<lparr>b_records := r\<rparr>) = find_tab i b"
  "find_tab i (b\<lparr>b_timers := x\<rparr>) = find_tab i b" "find_tab i (b\<lparr>b_fetches := f\<rparr>) = find_tab i b"
  "find_tab i (b\<lparr>b_completed := p\<rparr>) = find_tab i b" "find_tab i (b\<lparr>b_lifecycle := m\<rparr>) = find_tab i b"
  "find_tab i (b\<lparr>b_releases := q\<rparr>) = find_tab i b" "find_tab i (b\<lparr>b_active := a\<rparr>) = find_tab i b"
  by (simp_all add: find_tab_def)

lemma find_set_life:
  "find_tab i b = Some t \<Longrightarrow> find_tab i (set_life t lf b) = Some (t\<lparr>t_life := lf\<rparr>)"
  unfolding set_life_def by (rule find_put_tab) (auto dest: find_tab_SomeD)

text \<open>The fields that arming a deadline leaves alone.\<close>

definition without_deadlines :: "tab_state \<Rightarrow> tab_state" where
  "without_deadlines t = t\<lparr>t_life := (t_life t)\<lparr>lf_deadline := None, lf_restore_deadline := None\<rparr>\<rparr>"

definition same_but_deadlines :: "tab_state \<Rightarrow> tab_state \<Rightarrow> bool" where
  "same_but_deadlines t t' \<longleftrightarrow> without_deadlines t' = without_deadlines t"

lemma same_but_deadlines_refl [simp]: "same_but_deadlines t t"
  by (simp add: same_but_deadlines_def)

lemma same_but_deadlines_trans: "same_but_deadlines t u \<Longrightarrow> same_but_deadlines u v \<Longrightarrow> same_but_deadlines t v"
  by (simp add: same_but_deadlines_def)

lemma without_deadlines_fields:
  "t_id (without_deadlines t) = t_id t"
  "t_history (without_deadlines t) = t_history t"
  "t_current (without_deadlines t) = t_current t"
  "t_generation (without_deadlines t) = t_generation t"
  "t_mounted (without_deadlines t) = t_mounted t"
  "t_loading (without_deadlines t) = t_loading t"
  "lf_phase (t_life (without_deadlines t)) = lf_phase (t_life t)"
  "lf_epoch (t_life (without_deadlines t)) = lf_epoch (t_life t)"
  "lf_visible (t_life (without_deadlines t)) = lf_visible (t_life t)"
  "lf_release (t_life (without_deadlines t)) = lf_release (t_life t)"
  "lf_discarded (t_life (without_deadlines t)) = lf_discarded (t_life t)"
  "lf_wake_requested (t_life (without_deadlines t)) = lf_wake_requested (t_life t)"
  "lf_stash (t_life (without_deadlines t)) = lf_stash (t_life t)"
  "lf_reason (t_life (without_deadlines t)) = lf_reason (t_life t)"
  by (simp_all add: without_deadlines_def)

lemma same_but_deadlinesD:
  assumes "same_but_deadlines t t'"
  shows "t_id t' = t_id t"
    "t_history t' = t_history t"
    "t_current t' = t_current t"
    "t_generation t' = t_generation t"
    "t_mounted t' = t_mounted t"
    "t_loading t' = t_loading t"
    "lf_phase (t_life t') = lf_phase (t_life t)"
    "lf_epoch (t_life t') = lf_epoch (t_life t)"
    "lf_visible (t_life t') = lf_visible (t_life t)"
    "lf_release (t_life t') = lf_release (t_life t)"
    "lf_discarded (t_life t') = lf_discarded (t_life t)"
    "lf_wake_requested (t_life t') = lf_wake_requested (t_life t)"
    "lf_stash (t_life t') = lf_stash (t_life t)"
    "lf_reason (t_life t') = lf_reason (t_life t)"
  using assms unfolding same_but_deadlines_def by (metis without_deadlines_fields)+

lemma find_arm_hidden:
  assumes "find_tab i b = Some t"
  shows "\<exists>t'. find_tab i (arm_hidden j b) = Some t' \<and> same_but_deadlines t t'"
proof (cases "find_tab j b")
  case None
  with assms show ?thesis by (simp add: arm_hidden_def)
next
  case (Some u)
  show ?thesis
  proof (cases "j = i")
    case True
    with Some assms have "u = t" by simp
    with Some True assms show ?thesis
      by (auto simp: arm_hidden_def Let_def new_deadline_def find_set_life same_but_deadlines_def
          without_deadlines_def)
  next
    case False
    with Some have "t_id u \<noteq> i" by (auto dest: find_tab_SomeD)
    with Some assms show ?thesis
      by (auto simp: arm_hidden_def Let_def new_deadline_def set_life_def find_put_tab_other)
  qed
qed

lemma find_arm_restore:
  assumes "distinct (map t_id (b_tabs b))" and "find_tab i b = Some t"
  shows "\<exists>t'. find_tab i (arm_restore now j g b) = Some t' \<and> same_but_deadlines t t'"
proof (cases "find_tab_at j g b")
  case None
  with assms show ?thesis by (simp add: arm_restore_def)
next
  case (Some u)
  then have u: "u \<in> set (b_tabs b)" "t_id u = j" by (auto dest: find_tab_atD)
  with assms(1) have fu: "find_tab j b = Some u" by (auto simp: find_tab_def intro: find_key_mem)
  show ?thesis
  proof (cases "j = i")
    case True
    with fu assms have "u = t" by simp
    with Some fu True show ?thesis
      by (auto simp: arm_restore_def life_cancel_restore_def new_deadline_def find_set_life same_but_deadlines_def
          without_deadlines_def)
  next
    case False
    with u Some assms show ?thesis
      by (auto simp: arm_restore_def life_cancel_restore_def new_deadline_def set_life_def find_put_tab_other)
  qed
qed

lemma find_schedule_tail:
  assumes "distinct (map t_id (b_tabs b))" and "find_tab i b = Some t"
  shows "\<exists>t'. find_tab i (schedule_tail now j g rq r b) = Some t' \<and> same_but_deadlines t t'"
proof -
  let ?b = "b\<lparr>b_records := loading (b_records b) j g\<rparr>"
  obtain u where u: "find_tab i (arm_restore now j g ?b) = Some u" "same_but_deadlines t u"
    using find_arm_restore [of ?b i t now j g] assms by auto
  from find_arm_hidden [OF u(1), of j] obtain v where
    "find_tab i (arm_hidden j (arm_restore now j g ?b)) = Some v" "same_but_deadlines u v" by blast
  with u show ?thesis
    by (auto simp: schedule_tail_def Let_def intro: same_but_deadlines_trans)
qed

lemma find_schedule_current:
  assumes inv: "browser_inv b" and t: "find_tab i b = Some t" and load: "may_load t"
    and res: "schedule_current now i r b = Some b'"
  shows "\<exists>t'. find_tab i b' = Some t' \<and> same_but_deadlines (scheduled (w_signals (b_world b)) t) t'"
proof -
  from t have mem: "t \<in> set (b_tabs b)" "t_id t = i" by (auto dest: find_tab_SomeD)
  with inv have ok: "tab_ok t" by (simp add: browser_inv_tab)
  then have req: "t_request t = Some (t_history t ! t_current t)" by (simp add: t_request_def tab_ok_def)
  have rm: "lf_epoch (t_life t) + 1 \<le> u64_max" "t_generation t + 1 \<le> u64_max"
    using res t load req
    by (auto simp: schedule_current_def may_load_def Let_def life_cancel_deadline_eq checked_add_def
        life_cancel_restore_def life_abort_load_def new_signal_def split: if_splits)
  let ?t = "scheduled (w_signals (b_world b)) t"
  let ?b = "(put_tab ?t b)\<lparr>b_world := load_world (t_life t) (b_world b)\<rparr>"
  have d: "distinct (map t_id (b_tabs ?b))" using inv put_tab_ids [of ?t b] by (simp add: browser_inv_def)
  have "find_tab i ?b = Some ?t" using find_put_tab [OF t, of ?t] mem by simp
  note tail = find_schedule_tail [OF d this, of now i "t_generation t + 1"
      "(t_history t ! t_current t)\<lparr>rq_signal := Some (w_signals (b_world b))\<rparr>" r]
  show ?thesis
    using res tail unfolding schedule_current_load [OF t ok load rm, of now r] by simp
qed

lemma schedule_current_unchanged:
  assumes "browser_inv b" and "find_tab i b = Some t" and "schedule_current now i r b = Some b'"
  shows "\<exists>t'. find_tab i b' = Some t' \<and> t_history t' = t_history t \<and> t_current t' = t_current t
     \<and> t_mounted t' = t_mounted t"
proof (cases "may_load t")
  case True
  from find_schedule_current [OF assms(1,2) True assms(3)] show ?thesis
    by (auto simp: same_but_deadlinesD)
next
  case False
  from assms(1,2) have ok: "tab_ok t" by (auto dest: find_tab_SomeD simp: browser_inv_tab)
  obtain lf d where "schedule_current now i r b = Some (put_tab (t\<lparr>t_life := lf, t_loading := d\<rparr>) b)"
    using schedule_current_idle [OF assms(2) ok False] by blast
  with assms(2,3) show ?thesis
    using find_put_tab [OF assms(2), of "t\<lparr>t_life := lf, t_loading := d\<rparr>"] by (auto dest: find_tab_SomeD)
qed

section \<open>History\<close>

text \<open>The history of a tab as a zipper: the entries before the current one, newest first, the current
  one and the entries after it.\<close>

type_synonym zipper = "request list \<times> request \<times> request list"

definition zipper :: "tab_state \<Rightarrow> zipper" where
  "zipper t = (rev (take (t_current t) (t_history t)), t_history t ! t_current t,
     drop (t_current t + 1) (t_history t))"

fun visit :: "request \<Rightarrow> zipper \<Rightarrow> zipper" where
  "visit rq (back, cur, fwd) = (take 127 (cur # back), rq, [])"

definition renewed :: "net_ext \<Rightarrow> request \<Rightarrow> request" where
  "renewed ext rq = rq\<lparr>rq_initiator := policy_browser ext (rq_url rq)\<rparr>"

fun zback :: "net_ext \<Rightarrow> zipper \<Rightarrow> zipper" where
  "zback ext ([], cur, fwd) = ([], cur, fwd)"
| "zback ext (b # bs, cur, fwd) = (bs, renewed ext b, cur # fwd)"

fun zfore :: "net_ext \<Rightarrow> zipper \<Rightarrow> zipper" where
  "zfore ext (bs, cur, []) = (bs, cur, [])"
| "zfore ext (bs, cur, f # fs) = (cur # bs, renewed ext f, fs)"

lemma zipper_push:
  assumes "tab_ok t" and "push_history rq (t_history t) (t_current t) = (h, c)"
  shows "zipper (t\<lparr>t_history := h, t_current := c\<rparr>) = visit rq (zipper t)"
proof -
  let ?h = "t_history t" and ?c = "t_current t"
  from assms(1) have c: "?c < length ?h" "length ?h \<le> 128" by (auto simp: tab_ok_def)
  have tk: "take (Suc ?c) ?h = take ?c ?h @ [?h ! ?c]" using c by (simp add: take_Suc_conv_app_nth)
  show ?thesis
  proof (cases "?c = 127")
    case False
    with c assms(2) have "h = take (Suc ?c) ?h @ [rq]" "c = Suc ?c"
      by (auto simp: push_history_def Let_def min_def split: if_splits)
    with False c tk show ?thesis by (simp add: zipper_def nth_append min_def)
  next
    case True
    with c have len: "length ?h = 128" by simp
    with True assms(2) have h: "h = tl (take 128 ?h) @ [rq]" "c = 127"
      by (auto simp: push_history_def Let_def remove_at_def drop_Suc split: if_splits)
    obtain x xs where x: "?h = x # xs" using len by (cases ?h) auto
    with len have xs: "length xs = 127" by simp
    have "rev xs = xs ! 126 # rev (take 126 xs)"
      using xs take_Suc_conv_app_nth [of 126 xs] by simp
    moreover have "take 127 (xs ! 126 # rev (take 126 xs) @ [x]) = xs ! 126 # rev (take 126 xs)"
      using xs by (simp add: take_Cons')
    ultimately show ?thesis using h x xs True
      by (simp add: zipper_def nth_append take_Cons')
  qed
qed

lemma zipper_same: "t_history t' = t_history t \<Longrightarrow> t_current t' = t_current t \<Longrightarrow> zipper t' = zipper t"
  by (simp add: zipper_def)

lemma zipper_back:
  assumes "tab_ok t" and "0 < t_current t"
  shows "zipper (t\<lparr>t_current := t_current t - 1,
      t_history := (t_history t)[t_current t - 1 := renewed ext (t_history t ! (t_current t - 1))]\<rparr>)
    = zback ext (zipper t)"
proof -
  let ?h = "t_history t"
  obtain n where n: "t_current t = Suc n" using assms(2) by (cases "t_current t") auto
  with assms(1) have "Suc n < length ?h" by (simp add: tab_ok_def)
  then show ?thesis
    by (simp add: zipper_def n take_Suc_conv_app_nth Cons_nth_drop_Suc)
qed

lemma zipper_fore:
  assumes "t_current t + 1 < length (t_history t)"
  shows "zipper (t\<lparr>t_current := t_current t + 1,
      t_history := (t_history t)[t_current t + 1 := renewed ext (t_history t ! (t_current t + 1))]\<rparr>)
    = zfore ext (zipper t)"
proof -
  let ?h = "t_history t" and ?c = "t_current t"
  have "drop (Suc ?c) ?h = ?h ! Suc ?c # drop (Suc (Suc ?c)) ?h"
    using assms by (simp add: Cons_nth_drop_Suc)
  with assms show ?thesis
    by (simp add: zipper_def take_Suc_conv_app_nth)
qed

lemma navigation_zipper:
  assumes inv: "browser_inv b" and t: "find_tab i b = Some t"
    and ok: "tab_ok (t\<lparr>t_current := c, t_title := x\<rparr>)"
    and res: "schedule_browser_navigation ext now i r (put_tab (t\<lparr>t_current := c, t_title := x\<rparr>) b) = Some b'"
  shows "\<exists>t'. find_tab i b' = Some t' \<and> zipper t'
    = zipper (t\<lparr>t_current := c, t_history := (t_history t)[c := renewed ext (t_history t ! c)]\<rparr>)"
proof -
  let ?t = "t\<lparr>t_current := c, t_title := x\<rparr>"
  let ?u = "?t\<lparr>t_history := (t_history t)[c := renewed ext (t_history t ! c)]\<rparr>"
  let ?b = "put_tab ?u (put_tab ?t b)"
  from t have mem: "t \<in> set (b_tabs b)" "t_id t = i" by (auto dest: find_tab_SomeD)
  from ok have c: "c < length (t_history t)" by (simp add: tab_ok_def)
  have f1: "find_tab i (put_tab ?t b) = Some ?t" using find_put_tab [OF t, of ?t] mem by simp
  then have f2: "find_tab i ?b = Some ?u" using find_put_tab [OF f1, of ?u] mem by simp
  have "put_tab ?u (put_tab ?t b) = put_tab ?u b" by (rule put_put_tab) simp
  moreover have "browser_inv (put_tab ?u b)"
    using inv_put_tab [OF inv mem(1), of ?u] ok by (simp add: tab_ok_def)
  ultimately have invb: "browser_inv ?b" by simp
  have "schedule_current now i r ?b = Some b'"
    using res f1 c by (simp add: schedule_browser_navigation_def t_request_def renewed_def)
  from schedule_current_unchanged [OF invb f2 this] show ?thesis
    by (auto simp: zipper_def)
qed

lemma navigate_request_zipper:
  assumes inv: "browser_inv b" and t: "find_tab i b = Some t"
    and res: "navigate_request now i rq b = Some (b', True)"
  shows "\<exists>t'. find_tab i b' = Some t' \<and> zipper t' = visit rq (zipper t)"
proof -
  from t have mem: "t \<in> set (b_tabs b)" "t_id t = i" by (auto dest: find_tab_SomeD)
  with inv have ok: "tab_ok t" by (simp add: browser_inv_tab)
  have ep: "lf_epoch (t_life t) + 1 \<le> u64_max"
    using res t by (auto simp: navigate_request_def life_navigate_def life_cancel_deadline_eq split: if_splits)
  obtain lf w where lw: "life_navigate (t_life t) (b_world b) = Some (lf, w)"
    "lf_epoch lf = lf_epoch (t_life t) + 1" "lf_preview lf = None" "world_le (b_world b) w"
    by (rule life_navigate_ok [OF ep])
  obtain h c where hc: "push_history rq (t_history t) (t_current t) = (h, c)" by (metis surj_pair)
  let ?t = "t\<lparr>t_life := lf, t_history := h, t_current := c, t_title := []\<rparr>"
  let ?b = "(put_tab ?t b)\<lparr>b_world := w\<rparr>"
  have sc: "schedule_current now i False ?b = Some b'"
    using res t lw hc by (auto simp: navigate_request_def bind_eq_Some_conv)
  have "browser_inv (put_tab ?t b)"
    using inv_put_tab [OF inv mem(1), of ?t] lw push_history_ok [OF hc] ok by (simp add: tab_ok_def preview_ok_def)
  then have ib: "browser_inv ?b" using lw(4) by (intro inv_world) simp_all
  have "find_tab i ?b = Some ?t" using find_put_tab [OF t, of ?t] mem by simp
  from schedule_current_unchanged [OF ib this sc] obtain t' where
    "find_tab i b' = Some t'" "t_history t' = h" "t_current t' = c" by auto
  moreover from this zipper_push [OF ok hc] have "zipper t' = visit rq (zipper t)" by (simp add: zipper_def)
  ultimately show ?thesis by blast
qed

section \<open>A concrete browser\<close>

definition demo_net :: net_ext where
  "demo_net = demo_ext\<lparr>url_parse := (\<lambda>s. Some (demo_url s))\<rparr>"

definition demo_tab :: tab_state where
  "demo_tab = new_tab 0 0 (browser_request demo_net (demo_url (S ''a.io'')))"

definition demo_browser :: browser where
  "demo_browser = \<lparr>b_tabs = [demo_tab],
     b_records = \<lparr>reg_records = [(0, \<lparr>rec_id = 0, rec_generation = 0, rec_residency = Dormant\<rparr>)],
        reg_limit = 20000, reg_warn_at = 16000\<rparr>,
     b_active = 0, b_next_tab_id = 1,
     b_panel = \<lparr>pn_collapsed = True, pn_sections = \<lparr>pn_page = True, pn_history = True,
        pn_network = False, pn_console = False, pn_debugging = True\<rparr>\<rparr>,
     b_lifecycle = [], b_completed = [], b_sleep_delay = sleep_delay_ns None,
     b_world = \<lparr>w_deadlines = [], w_signals = 0, w_aborted = [], w_budget = default_budget\<rparr>,
     b_timers = [], b_fetches = [], b_releases = []\<rparr>"

lemma demo_build: "build demo_net 0 None (demo_url (S ''a.io'')) = Some demo_browser"
  by (simp add: build_def demo_browser_def demo_tab_def default_registry_def admit_def record_of_def)

lemma demo_parse: "url_parse demo_net NEW_TAB_URL \<noteq> None"
  by (simp add: demo_net_def)

lemma demo_reachable: "reachable demo_net demo_layout 0 (demo_browser, [])"
  using demo_build by (rule reachable.start)

lemma demo_inv: "browser_inv demo_browser"
  using demo_build by (rule build_inv)

section \<open>Safety\<close>

text \<open>
  C1. The browser does not panic. Whatever sequence of commands, polls, timers, finished fetches and
  surface events has led to a state, the next action returns, as long as the 64-bit generation and
  deadline-token counters are not used up: none of the \<open>unwrap\<close>s, \<open>expect\<close>s and history indexings
  on its way can fail.
\<close>

theorem browser_never_panics:
  assumes "url_parse ext NEW_TAB_URL \<noteq> None" and "reachable ext lay c m"
    and "action_ok a" and "action_cost a m d" and "c + d \<le> u64_max"
  shows "\<exists>m'. exec ext lay now a m = Some m'"
proof -
  from reachable_inv [OF assms(1,2)] assms(5) have "machine_inv m" "room (d + (u64_max - (c + d))) (fst m)"
    by auto
  from machine_step [OF this(1) assms(3,1,4) this(2)] show ?thesis by blast
qed

theorem browser_never_panics_witness:
  "\<exists>m'. exec demo_net demo_layout 5 (GoBack 0) (demo_browser, []) = Some m'"
  using browser_never_panics [OF demo_parse demo_reachable, of "GoBack 0" 2 5]
  by (simp add: action_cost_def u64_max_def)

text \<open>
  C2. The state the window sees is always well formed: there is a tab, ids are unique, the selected tab
  exists and is registered, every tab stands inside its history of at most 128 entries, no more than
  the allowed number of records exist, the sleeping pages fit their byte budget, and the status
  readout of the selected tab can always be taken.
\<close>

theorem browser_state_sound:
  assumes "url_parse ext NEW_TAB_URL \<noteq> None" and "reachable ext lay c (b, pending)" and "c \<le> u64_max"
  shows "b_tabs b \<noteq> [] \<and> distinct (map t_id (b_tabs b)) \<and> b_active b \<in> set (map t_id (b_tabs b))
    \<and> (\<forall>t\<in>set (b_tabs b). t_current t < length (t_history t) \<and> length (t_history t) \<le> 128
         \<and> t_id t \<in> reg_ids (b_records b))
    \<and> length (reg_records (b_records b)) \<le> reg_limit (b_records b)
    \<and> lg_used (w_budget (b_world b)) \<le> lg_cap (w_budget (b_world b))
    \<and> status_of complete now b \<noteq> None"
proof -
  from reachable_inv [OF assms(1,2,3)] have inv: "browser_inv b" by (simp add: machine_inv_def)
  then have act: "b_active b \<in> set (map t_id (b_tabs b))" by (simp add: browser_inv_def)
  then obtain t where t: "t \<in> set (b_tabs b)" "t_id t = b_active b" by auto
  then have "find_tab (b_active b) b = Some t" using find_tab_mem [OF inv t(1)] by simp
  moreover have "t_request t = Some (t_history t ! t_current t)"
    using browser_inv_tab [OF inv t(1)] by (simp add: t_request_def tab_ok_def)
  ultimately have "status_of complete now b \<noteq> None"
    by (simp add: status_of_def snapshot_def)
  with inv act show ?thesis
    unfolding browser_inv_def tab_ok_def registry_inv_def using ledger_inv_cap by auto
qed

theorem browser_state_sound_witness:
  "status_of (\<lambda>_. False) 5 demo_browser \<noteq> None"
  using browser_state_sound [OF demo_parse demo_reachable, of "\<lambda>_. False" 5] by simp

section \<open>Navigation\<close>

text \<open>
  C6. A tab's history behaves as a zipper. Navigating drops everything ahead, makes the new request
  current and keeps at most 127 entries behind it; going back or forward moves one step and
  renews the initiator of the entry it lands on; at either end it changes nothing.
\<close>

theorem history_is_zipper:
  assumes inv: "browser_inv b" and t: "find_tab i b = Some t"
  shows "(\<forall>b'. navigate_request now i rq b = Some (b', True) \<longrightarrow>
            (\<exists>t'. find_tab i b' = Some t' \<and> zipper t' = visit rq (zipper t)))
    \<and> (\<forall>b'. go_back ext now i b = Some b' \<longrightarrow>
            (\<exists>t'. find_tab i b' = Some t' \<and> zipper t' = zback ext (zipper t)))
    \<and> (\<forall>b'. go_forward ext now i b = Some b' \<longrightarrow>
            (\<exists>t'. find_tab i b' = Some t' \<and> zipper t' = zfore ext (zipper t)))"
proof (intro conjI allI impI)
  from t have mem: "t \<in> set (b_tabs b)" "t_id t = i" by (auto dest: find_tab_SomeD)
  with inv have ok: "tab_ok t" by (simp add: browser_inv_tab)
  fix b'
  show "\<exists>t'. find_tab i b' = Some t' \<and> zipper t' = visit rq (zipper t)"
    if res: "navigate_request now i rq b = Some (b', True)"
    using navigate_request_zipper [OF inv t res] .
  show "\<exists>t'. find_tab i b' = Some t' \<and> zipper t' = zback ext (zipper t)" if "go_back ext now i b = Some b'"
  proof (cases "t_current t = 0")
    case True
    with that t show ?thesis by (auto simp: go_back_def zipper_def)
  next
    case False
    with that t have "schedule_browser_navigation ext now i False
        (put_tab (t\<lparr>t_current := t_current t - 1, t_title := []\<rparr>) b) = Some b'"
      by (simp add: go_back_def)
    from navigation_zipper [OF inv t _ this] False ok zipper_back [OF ok, of ext] show ?thesis
      by (auto simp: tab_ok_def)
  qed
  show "\<exists>t'. find_tab i b' = Some t' \<and> zipper t' = zfore ext (zipper t)" if "go_forward ext now i b = Some b'"
  proof (cases "t_current t + 1 < length (t_history t)")
    case False
    with that t ok show ?thesis by (auto simp: go_forward_def zipper_def)
  next
    case True
    with that t have "schedule_browser_navigation ext now i False
        (put_tab (t\<lparr>t_current := t_current t + 1, t_title := []\<rparr>) b) = Some b'"
      by (simp add: go_forward_def)
    from navigation_zipper [OF inv t _ this] True ok zipper_fore [OF True, of ext] show ?thesis
      by (auto simp: tab_ok_def)
  qed
qed

theorem history_is_zipper_witness:
  "\<exists>b' t'. go_back demo_net 0 0 demo_browser = Some b' \<and> find_tab 0 b' = Some t'
     \<and> zipper t' = zback demo_net (zipper demo_tab)"
proof -
  have f: "find_tab 0 demo_browser = Some demo_tab"
    by (simp add: find_tab_def demo_browser_def demo_tab_def new_tab_def)
  then have "go_back demo_net 0 0 demo_browser = Some demo_browser"
    by (simp add: go_back_def) (simp add: demo_tab_def new_tab_def)
  with history_is_zipper [OF demo_inv f] show ?thesis by blast
qed

end
