(* ===== verification/Lifecycle_Props.thy ===== *)
theory Lifecycle_Props
  imports Browser_Props
begin

text \<open>
  The lifecycle of tabs: which loads and sleep messages are still heard after a newer event, what
  going to sleep leaves behind, and how a tab comes back. The last two theorems record behaviour of
  the code that its comments and its other branches do not intend.
\<close>

section \<open>Superseded loads\<close>

lemma aborted_refs [simp]:
  "w_aborted (cancel_deadline_ref d w) = w_aborted w"
  by (auto simp: cancel_deadline_ref_def split: option.splits)

lemma aborted_arm:
  "w_aborted (b_world (arm_hidden i b)) = w_aborted (b_world b)"
  "w_aborted (b_world (arm_restore now i g b)) = w_aborted (b_world b)"
  by (auto simp: arm_hidden_def arm_restore_def new_deadline_def life_cancel_restore_def Let_def
      split: option.splits)

lemma schedule_current_ready:
  assumes "browser_inv b" and "find_tab i b = Some t" and "may_load t" and "schedule_current now i r b = Some b'"
  shows "tab_ok t" "lf_epoch (t_life t) + 1 \<le> u64_max" "t_generation t + 1 \<le> u64_max"
proof -
  show ok: "tab_ok t" using assms(1,2) by (auto dest: find_tab_SomeD simp: browser_inv_tab)
  then have "t_request t = Some (t_history t ! t_current t)" by (simp add: t_request_def tab_ok_def)
  with assms(2-4) show "lf_epoch (t_life t) + 1 \<le> u64_max" "t_generation t + 1 \<le> u64_max"
    by (auto simp: schedule_current_def may_load_def Let_def life_cancel_deadline_eq checked_add_def
        life_cancel_restore_def life_abort_load_def new_signal_def split: if_splits)
qed

text \<open>
  C3. Once a tab starts another load, nothing of the earlier ones can reach it: the signal of the load it
  replaces is aborted, every finished page that was waiting for the tab is dropped without a change,
  and every fetch still running carries a generation the tab has left.
\<close>

theorem superseded_load_ignored:
  assumes inv: "machine_inv (b, pending)" and t: "find_tab i b = Some t" and load: "may_load t"
    and res: "schedule_current now i r b = Some b'"
  shows "(\<forall>p\<in>set pending \<union> set (b_completed b). pb_tab p = i \<longrightarrow>
            poll_bundle ext page_node obs now' p b' = Some (b', [], False))
    \<and> (\<forall>f\<in>set (b_fetches b). fk_tab f = i \<longrightarrow> find_tab_at i (fk_generation f) b' = None)
    \<and> (\<forall>s. lf_load_signal (t_life t) = Some s \<longrightarrow> s \<in> set (w_aborted (b_world b')))"
proof -
  from inv have binv: "browser_inv b" by (simp add: machine_inv_def)
  note ready = schedule_current_ready [OF binv t load res]
  from t have mem: "t \<in> set (b_tabs b)" "t_id t = i" by (auto dest: find_tab_SomeD)
  obtain t' where t': "find_tab i b' = Some t'" "t_generation t' = t_generation t + 1"
    using find_schedule_current [OF binv t load res] by (auto simp: same_but_deadlinesD)
  have old: "g \<noteq> t_generation t'" if "reached b i g 0" for g
    using that mem t'(2) by (auto simp: reached_def)
  have "map t_id (b_tabs b') = map t_id (b_tabs b)"
    using res unfolding schedule_current_load [OF t ready(1) load ready(2,3)]
    by (auto simp: schedule_tail_ids)
  with binv have uniq: "u = t'" if "u \<in> set (b_tabs b')" "t_id u = i" for u
    using that t'(1) find_key_mem [of u "b_tabs b'" t_id] by (auto simp: browser_inv_def find_tab_def)
  have "find_tab_at i (fk_generation f) b' = None" if "f \<in> set (b_fetches b)" "fk_tab f = i" for f
  proof -
    from binv that have "reached b i (fk_generation f) 0" by (auto simp: browser_inv_def)
    with old uniq show ?thesis by (fastforce simp: find_tab_at_def find_None_set)
  qed
  moreover have "poll_bundle ext page_node obs now' p b' = Some (b', [], False)"
    if "p \<in> set pending \<union> set (b_completed b)" "pb_tab p = i" for p
  proof -
    from inv that have "reached b i (pb_generation p) 0" by (auto simp: machine_inv_def browser_inv_def)
    from old [OF this] t'(1) that(2) show ?thesis by (simp add: poll_bundle_def)
  qed
  moreover have "s \<in> set (w_aborted (b_world b'))" if "lf_load_signal (t_life t) = Some s" for s
    using res that unfolding schedule_current_load [OF t ready(1) load ready(2,3)]
    by (auto simp: schedule_tail_def Let_def aborted_arm load_world_def abort_ref_def)
  ultimately show ?thesis by (intro conjI ballI allI impI)
qed

definition demo_page :: "bool \<Rightarrow> page_obs" where
  "demo_page released = \<lparr>po_navs = [], po_title = [], po_document_id = 7, po_owner_id = 1, po_viewport = None,
     po_receipt = 2, po_receipt_complete = released\<rparr>"

lemma demo_find: "find_tab 0 demo_browser = Some demo_tab"
  by (simp add: find_tab_def demo_browser_def demo_tab_def new_tab_def)

lemma demo_may_load: "may_load demo_tab"
  by (simp add: may_load_def demo_tab_def new_tab_def default_life_def)

definition stale_bundle :: page_bundle where
  "stale_bundle = \<lparr>pb_tab = 0, pb_generation = 0, pb_resolved_url = [], pb_source = Source [], pb_outcome = OutReady\<rparr>"

theorem superseded_load_ignored_witness:
  "\<exists>b'. schedule_current 0 0 False demo_browser = Some b'
     \<and> poll_bundle demo_net (\<lambda>_. None) (\<lambda>_ _. demo_page True) 0 stale_bundle b' = Some (b', [], False)"
proof -
  have inv: "machine_inv (demo_browser, [stale_bundle])"
    using demo_inv by (simp add: machine_inv_def) (simp add: reached_def demo_browser_def stale_bundle_def)
  obtain b' where "schedule_current 0 0 False demo_browser = Some b'"
    using schedule_current_load [OF demo_find _ demo_may_load, of 0 False]
    by (auto simp: demo_tab_def new_tab_def default_life_def tab_ok_def preview_ok_def u64_max_def)
  with superseded_load_ignored [OF inv demo_find demo_may_load this] show ?thesis
    by (simp add: stale_bundle_def)
qed

section \<open>Requests that may not be repeated\<close>

text \<open>
  A discarded page that came from a request other than \<open>GET\<close> or \<open>HEAD\<close> is not fetched again behind
  the user's back: scheduling its reload and asking it to wake only mark the tab as failed, with the
  reason \<open>reload-requires-resubmission\<close>; no fetch is started and no page is attached.
\<close>

theorem discarded_post_not_resent:
  assumes t: "find_tab i b = Some t" and ok: "tab_ok t"
    and post: "\<not> idempotent (t_history t ! t_current t)" and gone: "lf_discarded (t_life t)" "t_mounted t = None"
    and phase: "lf_phase (t_life t) = PhSleeping \<or> lf_phase (t_life t) = PhRestoreFailed"
    and rel: "lf_release (t_life t) = None"
  shows "\<exists>t'. find_tab i (put_tab t' b) = Some t' \<and> lf_phase (t_life t') = PhRestoreFailed
      \<and> lf_reason (t_life t') = S ''reload-requires-resubmission''
      \<and> schedule_current now i r b = Some (put_tab t' b)
      \<and> request_wake now i b = Some (put_tab t' b, Inr ())
      \<and> b_fetches (put_tab t' b) = b_fetches b \<and> b_completed (put_tab t' b) = b_completed b"
proof -
  let ?t = "t\<lparr>t_life := (t_life t)\<lparr>lf_phase := PhRestoreFailed,
     lf_reason := S ''reload-requires-resubmission''\<rparr>\<rparr>"
  from ok have req: "t_request t = Some (t_history t ! t_current t)" by (simp add: t_request_def tab_ok_def)
  have "find_tab i (put_tab ?t b) = Some ?t"
    by (rule find_put_tab [OF t]) (use t in \<open>auto dest: find_tab_SomeD\<close>)
  moreover have "schedule_current now i r b = Some (put_tab ?t b)"
    using t req post gone phase by (auto simp: schedule_current_def Let_def set_life_def)
  moreover have "request_wake now i b = Some (put_tab ?t b, Inr ())"
    using t req post phase rel by (auto simp: request_wake_def Let_def set_life_def)
  ultimately show ?thesis by (intro exI [of _ ?t]) simp
qed

definition demo_post :: request where
  "demo_post = (browser_request demo_net (demo_url (S ''a.io'')))\<lparr>rq_method := S ''POST''\<rparr>"

definition asleep :: "tab_state \<Rightarrow> tab_state" where
  "asleep t = t\<lparr>t_life := (t_life t)\<lparr>lf_phase := PhSleeping, lf_discarded := True\<rparr>\<rparr>"

theorem discarded_post_not_resent_witness:
  "\<exists>t'. request_wake 0 0 (demo_browser\<lparr>b_tabs := [asleep (new_tab 0 0 demo_post)]\<rparr>)
     = Some (put_tab t' (demo_browser\<lparr>b_tabs := [asleep (new_tab 0 0 demo_post)]\<rparr>), Inr ())
   \<and> lf_phase (t_life t') = PhRestoreFailed"
proof -
  let ?t = "asleep (new_tab 0 0 demo_post)"
  have "find_tab 0 (demo_browser\<lparr>b_tabs := [?t]\<rparr>) = Some ?t"
    by (simp add: find_tab_def asleep_def new_tab_def)
  from discarded_post_not_resent [OF this, of 0 False] show ?thesis
    by (auto simp: asleep_def new_tab_def tab_ok_def preview_ok_def default_life_def idempotent_def demo_post_def)
qed

section \<open>Going to sleep\<close>

definition demo_ui :: ui_obs where
  "demo_ui = \<lparr>ui_subdoc = (\<lambda>_. Some 7), ui_title_cap = 0, ui_history_cap = 4, ui_freeze_navs = [], ui_freeze_drops = [],
     ui_fields = [], ui_slack = (\<lambda>_. Some 0), ui_grow = (\<lambda>n. n), ui_scroll = \<lparr>sc_x = 0, sc_y = 0\<rparr>,
     ui_stash_disabled = True, ui_session = None, ui_url_hint = None, ui_view_width = 0, ui_view_height = 0,
     ui_renders = [], ui_retire = (\<lambda>_. Some 1), ui_saved_node = (\<lambda>_. None), ui_id = 1, ui_complete = (\<lambda>_. True)\<rparr>"

definition mounted_tab :: "tab_phase \<Rightarrow> tab_state \<Rightarrow> tab_state" where
  "mounted_tab p t = t\<lparr>t_mounted := Some \<lparr>mp_owner_document_id = 1, mp_mount_node_id = 5, mp_viewport_node_id = None,
     mp_document_id = 7, mp_script = True\<rparr>, t_life := (t_life t)\<lparr>lf_phase := p\<rparr>\<rparr>"

definition live_browser :: browser where
  "live_browser = demo_browser\<lparr>b_tabs := [mounted_tab PhLive demo_tab], b_lifecycle := [MSleep 0 0 0 False]\<rparr>"

lemmas demo_defs = live_browser_def mounted_tab_def demo_browser_def demo_tab_def new_tab_def default_life_def

lemma live_inv: "browser_inv live_browser"
  by (simp add: browser_inv_def demo_defs reached_def tab_ok_def preview_ok_def reg_ids_def registry_inv_def
      ledger_inv_default)

lemma discard_tab_fields:
  assumes "discard_tab ext t stash preview charge w = Some (t', w')"
  shows "t_id t' = t_id t \<and> t_generation t' = t_generation t + 1 \<and> t_mounted t' = None \<and> \<not> t_loading t'
    \<and> lf_phase (t_life t') = PhDiscarding \<and> lf_discarded (t_life t') \<and> lf_stash (t_life t') = stash
    \<and> lf_record_charge (t_life t') = Some charge
    \<and> lf_deadline (t_life t') = None \<and> lf_load_signal (t_life t') = None
    \<and> t_history t' = map (sleeping_request ext) (t_history t)"
  using assms
  by (auto simp: discard_tab_def life_cancel_deadline_eq life_cancel_restore_def life_abort_load_def checked_add_def
      Let_def split: if_splits)

lemma discard_frozen_done:
  assumes "discard_frozen ext lay ui now t rq mount charge b = Some (b', True)"
  obtains u t' where "find_tab_at (t_id t) (t_generation t) b = Some u" "find_tab (t_id t) b' = Some t'"
    "t_generation t' = t_generation t + 1" "t_mounted t' = None" "\<not> t_loading t'"
    "lf_phase (t_life t') = PhDiscarding" "lf_discarded (t_life t')" "lf_release (t_life t') \<noteq> None"
    "lf_record_charge (t_life t') = Some charge" "t_history t' = map (sleeping_request ext) (t_history u)"
proof -
  from assms obtain u stash preview l2 u' w receipt
    where u: "find_tab_at (t_id t) (t_generation t) b = Some u"
      and d: "discard_tab ext u stash preview charge ((b_world b)\<lparr>w_budget := l2\<rparr>) = Some (u', w)"
      and b': "b' = track_release (t_id t) receipt
         ((put_tab u' b)\<lparr>b_world := w, b_records := loading (b_records b) (t_id t) (t_generation u')\<rparr>)"
    by (auto simp: discard_frozen_def Let_def bind_eq_Some_conv split: if_splits option.splits)
  from u have mem: "u \<in> set (b_tabs b)" "t_id u = t_id t" "t_generation u = t_generation t"
    by (auto dest: find_tab_atD)
  note f = discard_tab_fields [OF d]
  obtain v where "find_tab (t_id t) b = Some v"
    using mem by (cases "find_tab (t_id t) b") (auto simp: find_tab_def find_None_set)
  then have "find_tab (t_id t) (put_tab u' b) = Some u'" using f mem by (intro find_put_tab) auto
  then have "find_tab (t_id t) b' = Some (u'\<lparr>t_life := (t_life u')\<lparr>lf_release := Some receipt\<rparr>\<rparr>)"
    by (simp add: b' track_release_def Let_def find_set_life)
  with that u f mem show thesis by simp
qed

text \<open>The record charge, and the tabs it leaves as they were but for their previews.\<close>

lemma reserve_room: "reserve l n = Inr (c, l') \<Longrightarrow> c = lg_next l \<and> lg_used l + n \<le> lg_cap l"
  by (auto simp: reserve_def fits_def checked_add_def split: option.splits if_splits sum.splits)

lemma find_drop_previews:
  "find_tab i (drop_previews b) = map_option (\<lambda>t. t\<lparr>t_life := (t_life t)\<lparr>lf_preview := None\<rparr>\<rparr>) (find_tab i b)"
proof -
  have "find (\<lambda>t. t_id t = i) (map (\<lambda>t. t\<lparr>t_life := (t_life t)\<lparr>lf_preview := None\<rparr>\<rparr>) ts)
      = map_option (\<lambda>t. t\<lparr>t_life := (t_life t)\<lparr>lf_preview := None\<rparr>\<rparr>) (find (\<lambda>t. t_id t = i) ts)" for ts :: "tab_state list"
    by (induction ts) auto
  then show ?thesis by (simp add: find_tab_def drop_previews_def)
qed

lemma reserve_record_done:
  assumes "reserve_record b = (b1, Some charge)" and "find_tab i b = Some t"
  obtains l u where "l = w_budget (b_world b) \<or> l = w_budget (b_world (drop_previews b))"
    "lg_used l + 32 * 1024 \<le> lg_cap l" "charge = lg_next l"
    "find_tab i b1 = Some u" "t_id u = i" "t_generation u = t_generation t" "t_history u = t_history t" "t_current u = t_current t"
proof -
  from assms(2) have i: "t_id t = i" by (auto dest: find_tab_SomeD)
  have fb: "find_tab i (set_budget l b0) = find_tab i b0" for l b0 by (simp add: set_budget_def find_tab_def)
  show thesis
  proof (cases "reserve (w_budget (b_world b)) (32 * 1024)")
    case (Inr r)
    obtain c l where r: "r = (c, l)" by (cases r)
    with Inr assms(1) have "b1 = set_budget l b" "c = charge" by (simp_all add: reserve_record_def)
    with reserve_room [OF Inr [unfolded r]] assms(2) fb i show thesis by (intro that [of "w_budget (b_world b)" t]) auto
  next
    case (Inl e)
    with assms(1) obtain l where l: "reserve (w_budget (b_world (drop_previews b))) (32 * 1024) = Inr (charge, l)"
      "b1 = set_budget l (drop_previews b)"
      by (auto simp: reserve_record_def Let_def split: sum.splits)
    with reserve_room [OF l(1)] assms(2) fb i find_drop_previews [of i b] show thesis
      by (intro that [of "w_budget (b_world (drop_previews b))" "t\<lparr>t_life := (t_life t)\<lparr>lf_preview := None\<rparr>\<rparr>"]) auto
  qed
qed

text \<open>What the freeze handlers of the page may still do to its tab: navigate, which lengthens the history only.\<close>

definition navigated :: "request list \<Rightarrow> tab_state \<Rightarrow> request list \<times> nat" where
  "navigated rqs t = foldl (\<lambda>(h, c) rq. push_history rq h c) (t_history t, t_current t) rqs"

lemma frozen_navigate:
  assumes "find_tab i b = Some t" and "lf_phase (t_life t) = PhFreezing" and "navigate_request now i rq b = Some (b', r)"
  obtains u where "find_tab i b' = Some u" "lf_phase (t_life u) = PhFreezing" "t_generation u = t_generation t"
    "(t_history u, t_current u) = push_history rq (t_history t) (t_current t)"
proof -
  obtain h c where p: "push_history rq (t_history t) (t_current t) = (h, c)" by (rule prod.exhaust)
  from assms p obtain lf w where n: "life_navigate (t_life t) (b_world b) = Some (lf, w)"
    and s: "schedule_current now i False ((put_tab (t\<lparr>t_life := lf, t_history := h, t_current := c, t_title := []\<rparr>) b)
        \<lparr>b_world := w\<rparr>) = Some b'"
    by (auto simp: navigate_request_def bind_eq_Some_conv split: prod.splits)
  let ?t = "t\<lparr>t_life := lf, t_history := h, t_current := c, t_title := []\<rparr>"
  let ?b = "(put_tab ?t b)\<lparr>b_world := w\<rparr>"
  have ph: "lf_phase lf = PhFreezing"
    using n assms(2) by (auto simp: life_navigate_def life_cancel_deadline_eq life_cancel_restore_def life_abort_load_def
        life_take_saved_def Let_def split: if_splits)
  have "find_tab i (put_tab ?t b) = Some ?t" using assms(1) by (intro find_put_tab) (auto dest: find_tab_SomeD)
  then have f: "find_tab i ?b = Some ?t" by (simp add: find_tab_def)
  have "b' = put_tab (?t\<lparr>t_loading := True\<rparr>) ?b" using s ph f by (simp add: schedule_current_def Let_def)
  moreover have "find_tab i (put_tab (?t\<lparr>t_loading := True\<rparr>) ?b) = Some (?t\<lparr>t_loading := True\<rparr>)"
    using assms(1) by (intro find_put_tab [OF f]) (auto dest: find_tab_SomeD)
  ultimately show thesis using ph p by (intro that [of "?t\<lparr>t_loading := True\<rparr>"]) simp_all
qed

lemma frozen_navigations:
  assumes "find_tab i b = Some t" and "lf_phase (t_life t) = PhFreezing" and "page_navigations now i rqs b = Some b'"
  obtains u where "find_tab i b' = Some u" "t_generation u = t_generation t" "(t_history u, t_current u) = navigated rqs t"
proof -
  have "\<exists>u. find_tab i b' = Some u \<and> t_generation u = t_generation t \<and> (t_history u, t_current u) = navigated rqs t"
    using assms
  proof (induction rqs arbitrary: b t)
    case (Cons rq rqs)
    from Cons.prems(3) obtain b1 r where n: "navigate_request now i rq b = Some (b1, r)" "page_navigations now i rqs b1 = Some b'"
      by (auto simp: bind_eq_Some_conv)
    obtain u where u: "find_tab i b1 = Some u" "lf_phase (t_life u) = PhFreezing" "t_generation u = t_generation t"
      "(t_history u, t_current u) = push_history rq (t_history t) (t_current t)"
      by (rule frozen_navigate [OF Cons.prems(1,2) n(1)])
    from Cons.IH [OF u(1,2) n(2)] u(3,4) show ?case by (auto simp: navigated_def)
  qed (simp add: navigated_def)
  with that show thesis by blast
qed

lemma find_tab_at_current: "find_tab i b = Some t \<Longrightarrow> t_generation t = g \<Longrightarrow> find_tab_at i g b = Some t"
proof -
  have "find (\<lambda>t. t_id t = i) ts = Some t \<Longrightarrow> t_generation t = g \<Longrightarrow> find (\<lambda>t. t_id t = i \<and> t_generation t = g) ts = Some t"
    for ts by (induction ts) (auto split: if_splits)
  then show "find_tab i b = Some t \<Longrightarrow> t_generation t = g \<Longrightarrow> find_tab_at i g b = Some t"
    by (simp add: find_tab_def find_tab_at_def)
qed

lemma freeze_and_discard_done:
  assumes "freeze_and_discard ext lay ui now t rq mount charge b = Some (b', True)"
    and "find_tab (t_id t) b = Some u" and "lf_phase (t_life u) = PhFreezing" and "t_generation u = t_generation t"
  obtains t' where "find_tab (t_id t) b' = Some t'" "t_generation t' = t_generation t + 1" "t_mounted t' = None" "\<not> t_loading t'"
    "lf_phase (t_life t') = PhDiscarding" "lf_release (t_life t') \<noteq> None" "lf_record_charge (t_life t') = Some charge"
    "t_history t' = map (sleeping_request ext) (fst (navigated (ui_freeze_navs ui) u))"
proof -
  from assms(1) obtain b1 where n: "page_navigations now (t_id t) (ui_freeze_navs ui) b = Some b1"
    and d: "discard_frozen ext lay ui now t rq mount charge b1 = Some (b', True)"
    by (auto simp: freeze_and_discard_def bind_eq_Some_conv)
  obtain v where v: "find_tab (t_id t) b1 = Some v" "t_generation v = t_generation u"
    "(t_history v, t_current v) = navigated (ui_freeze_navs ui) u"
    by (rule frozen_navigations [OF assms(2,3) n])
  have at: "find_tab_at (t_id t) (t_generation t) b1 = Some v" using v(1,2) assms(4) by (simp add: find_tab_at_current)
  obtain w t' where w: "find_tab_at (t_id t) (t_generation t) b1 = Some w" and t': "find_tab (t_id t) b' = Some t'"
    "t_generation t' = t_generation t + 1" "t_mounted t' = None" "\<not> t_loading t'"
    "lf_phase (t_life t') = PhDiscarding" "lf_discarded (t_life t')" "lf_release (t_life t') \<noteq> None"
    "lf_record_charge (t_life t') = Some charge" "t_history t' = map (sleeping_request ext) (t_history w)"
    by (rule discard_frozen_done [OF d])
  from w at have "w = v" by simp
  moreover have "t_history v = fst (navigated (ui_freeze_navs ui) u)" using v(3) by (metis fst_conv)
  ultimately show thesis using t' by (intro that [of t']) simp_all
qed

text \<open>
  C4. A tab goes to sleep only when it may, and what is left of it is small and harmless. When a sleep
  message for tab \<open>i\<close> is carried out, that tab was live, not loading unless the sleep is automatic, still in
  the generation and with the deadline token of the message, for an automatic sleep hidden and past its deadline,
  and mounted with its own document in place; its record was no larger than the 32 KiB it is charged for, and the
  budget had room for them, if need be after every preview was given up. Afterwards the same tab
  has no page and no load, its generation has moved on, its teardown is being awaited, it holds the charge, and
  its history is its own history (with what its page navigated to while it was being frozen) entry by entry as bare
  requests: URL, method and destination, and nothing of the body, headers or credentials.
\<close>

theorem sleep_commit_spec:
  assumes inv: "browser_inv b" and res: "commit_sleep ext lay ui now i g e automatic b = Some (b', True)"
  shows "\<exists>t page l t'. find_tab i b = Some t \<and> t_generation t = g \<and> lf_epoch (t_life t) = e
    \<and> lf_phase (t_life t) = PhLive \<and> (t_loading t \<longrightarrow> automatic)
    \<and> (automatic \<longrightarrow> \<not> lf_visible (t_life t)
         \<and> (\<exists>d. lf_deadline (t_life t) = Some d \<and> dl_due (w_deadlines (b_world b) ! d) \<le> now))
    \<and> t_mounted t = Some page \<and> ui_subdoc ui (mp_mount_node_id page) = Some (mp_document_id page)
    \<and> sz_tab_state lay + ui_title_cap ui + ui_history_cap ui * sz_request lay
        + sum_list (map (\<lambda>rq. utf8_len (url_str (rq_url rq))) (t_history t)) \<le> 32 * 1024
    \<and> (l = w_budget (b_world b) \<or> l = w_budget (b_world (drop_previews b))) \<and> lg_used l + 32 * 1024 \<le> lg_cap l
    \<and> find_tab i b' = Some t' \<and> t_generation t' = g + 1 \<and> t_mounted t' = None \<and> \<not> t_loading t'
    \<and> lf_phase (t_life t') = PhDiscarding \<and> lf_release (t_life t') \<noteq> None
    \<and> lf_record_charge (t_life t') = Some (lg_next l)
    \<and> t_history t' = map (\<lambda>old. (request_get ext (rq_url old))\<lparr>rq_method := rq_method old, rq_destination := rq_destination old\<rparr>)
        (fst (foldl (\<lambda>(h, c) rq. push_history rq h c) (t_history t, t_current t) (ui_freeze_navs ui)))"
proof -
  from res obtain t page where t: "find_sleep i g e b = Some t"
    and may: "\<not> sleep_refused now automatic t (b_world b)" "t_mounted t = Some page"
      "ui_subdoc ui (mp_mount_node_id page) = Some (mp_document_id page)"
    by (auto simp: commit_sleep_def split: option.splits if_splits)
  then have mem: "t \<in> set (b_tabs b)" "t_id t = i" "t_generation t = g" "lf_epoch (t_life t) = e"
    by (auto simp: find_sleep_def dest: find_SomeD)
  have ft: "find_tab i b = Some t" using find_tab_mem [OF inv mem(1)] mem(2) by simp
  from res t may obtain rq where small: "record_bytes lay ui t \<le> 32 * 1024"
    and rest: "(case reserve_record b of (b1, None) \<Rightarrow> Some (b1, False)
      | (b1, Some charge) \<Rightarrow> (case find_tab i b1 of
           None \<Rightarrow> freeze_and_discard ext lay ui now t rq (mp_mount_node_id page) charge b1
         | Some u \<Rightarrow> freeze_and_discard ext lay ui now t rq (mp_mount_node_id page) charge
             (set_life u ((t_life u)\<lparr>lf_phase := PhFreezing\<rparr>) b1))) = Some (b', True)"
    by (auto simp: commit_sleep_def bind_eq_Some_conv split: if_splits)
  then obtain b1 charge where r: "reserve_record b = (b1, Some charge)" by (auto split: prod.splits option.splits)
  obtain l u where l: "l = w_budget (b_world b) \<or> l = w_budget (b_world (drop_previews b))"
    "lg_used l + 32 * 1024 \<le> lg_cap l" "charge = lg_next l"
    and u: "find_tab i b1 = Some u" "t_id u = i" "t_generation u = t_generation t" "t_history u = t_history t" "t_current u = t_current t"
    by (rule reserve_record_done [OF r ft])
  let ?u = "u\<lparr>t_life := (t_life u)\<lparr>lf_phase := PhFreezing\<rparr>\<rparr>"
  from rest r u(1) have fd: "freeze_and_discard ext lay ui now t rq (mp_mount_node_id page) charge
      (set_life u ((t_life u)\<lparr>lf_phase := PhFreezing\<rparr>) b1) = Some (b', True)" by simp
  have fu: "find_tab (t_id t) (set_life u ((t_life u)\<lparr>lf_phase := PhFreezing\<rparr>) b1) = Some ?u"
    using find_set_life [OF u(1)] mem(2) by simp
  obtain t' where t': "find_tab (t_id t) b' = Some t'" "t_generation t' = t_generation t + 1" "t_mounted t' = None" "\<not> t_loading t'"
    "lf_phase (t_life t') = PhDiscarding" "lf_release (t_life t') \<noteq> None" "lf_record_charge (t_life t') = Some charge"
    "t_history t' = map (sleeping_request ext) (fst (navigated (ui_freeze_navs ui) ?u))"
    by (rule freeze_and_discard_done [OF fd fu]) (use u(3) in simp_all)
  have hist: "t_history t' = map (\<lambda>old. (request_get ext (rq_url old))\<lparr>rq_method := rq_method old, rq_destination := rq_destination old\<rparr>)
        (fst (foldl (\<lambda>(h, c) rq. push_history rq h c) (t_history t, t_current t) (ui_freeze_navs ui)))"
    using t'(8) u(4,5) by (simp add: navigated_def sleeping_request_def)
  have live: "lf_phase (t_life t) = PhLive" "t_loading t \<longrightarrow> automatic"
    "automatic \<longrightarrow> \<not> lf_visible (t_life t)
             \<and> (\<exists>d. lf_deadline (t_life t) = Some d \<and> dl_due (w_deadlines (b_world b) ! d) \<le> now)"
    using may(1) by (auto simp: sleep_refused_def not_less split: option.splits)
  show ?thesis
    using ft mem live may(2,3) small [unfolded record_bytes_def] l t' hist
    by (intro exI [of _ t] exI [of _ page] exI [of _ l] exI [of _ t'] conjI) simp_all
qed

theorem sleep_commit_spec_witness:
  "\<exists>b'. commit_sleep demo_net demo_layout demo_ui 0 0 0 0 False live_browser = Some (b', True)
     \<and> (\<exists>t'. find_tab 0 b' = Some t' \<and> lf_phase (t_life t') = PhDiscarding \<and> t_mounted t' = None)"
proof -
  have "\<exists>b'. commit_sleep demo_net demo_layout demo_ui 0 0 0 0 False live_browser = Some (b', True)"
    by (simp add: commit_sleep_def demo_defs find_sleep_def sleep_refused_def demo_ui_def t_request_def record_bytes_def
        demo_layout_def utf8_len_def utf8_char_def demo_net_def demo_ext_def demo_url_def browser_request_def
        reserve_record_def reserve_def fits_def default_budget_def SLEEPING_BYTES_def set_budget_def
        find_tab_def set_life_def put_tab_def freeze_and_discard_def discard_frozen_def capture_state_def
        capture_paint_def is_tuple_def find_tab_at_def discard_tab_def life_cancel_deadline_eq life_cancel_restore_def
        life_abort_load_def checked_add_def u64_max_def Let_def)
  then obtain b' where b': "commit_sleep demo_net demo_layout demo_ui 0 0 0 0 False live_browser = Some (b', True)" ..
  from sleep_commit_spec [OF live_inv this] b' show ?thesis by blast
qed

section \<open>Sleep messages that come too late\<close>

text \<open>
  C5. A tab that has been shown is not put to sleep by what was decided while it was hidden: after the
  surface event that makes it visible, every sleep message already in the queue and every one that an
  already armed timer may still send is refused and changes nothing.
\<close>

theorem shown_tab_stays_awake:
  assumes inv: "browser_inv b" and shown: "on_visibility now page True b = Some (b', True)"
    and stale: "MSleep (sf_tab_id page) g e automatic \<in> set (b_lifecycle b)
      \<or> (\<exists>d. HiddenTimer (sf_tab_id page) d \<in> set (b_timers b)
           \<and> g = dl_generation (w_deadlines (b_world b) ! d) \<and> e = dl_epoch (w_deadlines (b_world b) ! d))"
  shows "commit_sleep ext lay ui now' (sf_tab_id page) g e automatic b' = Some (b', False)"
proof -
  from inv stale have r: "reached b (sf_tab_id page) g e" by (fastforce simp: browser_inv_def)
  from shown obtain t where f: "find (\<lambda>t. t_id t = sf_tab_id page \<and> t_generation t = sf_generation page
              \<and> (case t_mounted t of None \<Rightarrow> False | Some m \<Rightarrow> mp_document_id m = sf_document_id page))
            (b_tabs b) = Some t"
    by (auto simp: on_visibility_def split: option.splits)
  then have t: "t \<in> set (b_tabs b)" "t_id t = sf_tab_id page" by (auto dest: find_SomeD)
  then have ft: "find_tab (sf_tab_id page) b = Some t" using find_tab_mem [OF inv t(1)] by simp
  let ?lf = "(t_life t)\<lparr>lf_visible := True, lf_epoch := lf_epoch (t_life t) + 1, lf_deadline := None\<rparr>"
  let ?b = "(set_life t ?lf b)\<lparr>b_world := cancel_deadline_ref (lf_deadline (t_life t)) (b_world b)\<rparr>"
  from shown f have "b' = arm_hidden (sf_tab_id page) ?b"
    by (auto simp: on_visibility_def life_cancel_deadline_eq split: if_splits)
  moreover have "find_tab (sf_tab_id page) ?b = Some (t\<lparr>t_life := ?lf\<rparr>)"
    using find_set_life [OF ft, of ?lf] by simp
  ultimately have b': "b' = ?b" by (simp add: arm_hidden_def Let_def)
  have "find_sleep (sf_tab_id page) g e b' = None"
    unfolding find_sleep_def find_None_set
  proof (intro ballI notI)
    fix v assume v: "v \<in> set (b_tabs b')" and eq: "t_id v = sf_tab_id page \<and> t_generation v = g \<and> lf_epoch (t_life v) = e"
    from r t have "e \<le> lf_epoch (t_life t)" by (simp add: reached_def)
    moreover have "v = t\<lparr>t_life := ?lf\<rparr>"
      using v eq t(2) put_tab_set [OF inv t(1), of "t\<lparr>t_life := ?lf\<rparr>"] tab_of_id [OF inv t(1), of v]
      by (auto simp: b' set_life_def)
    ultimately show False using eq by simp
  qed
  then show ?thesis by (simp add: commit_sleep_def)
qed

theorem shown_tab_stays_awake_witness:
  "\<exists>b'. on_visibility 0 \<lparr>sf_tab_id = 0, sf_generation = 0, sf_owner_document_id = 1, sf_mount_node_id = 5,
        sf_document_id = 7\<rparr> True live_browser = Some (b', True)
     \<and> commit_sleep demo_net demo_layout demo_ui 0 0 0 0 False b' = Some (b', False)"
proof -
  let ?page = "\<lparr>sf_tab_id = 0, sf_generation = 0, sf_owner_document_id = 1, sf_mount_node_id = 5, sf_document_id = 7\<rparr>"
  have "\<exists>b'. on_visibility 0 ?page True live_browser = Some (b', True)"
    by (simp add: on_visibility_def demo_defs life_cancel_deadline_eq u64_max_def)
  then obtain b' where b': "on_visibility 0 ?page True live_browser = Some (b', True)" ..
  have "MSleep (sf_tab_id ?page) 0 0 False \<in> set (b_lifecycle live_browser)" by (simp add: live_browser_def)
  then have "commit_sleep demo_net demo_layout demo_ui 0 (sf_tab_id ?page) 0 0 False b' = Some (b', False)"
    by (intro shown_tab_stays_awake [OF live_inv b'] disjI1)
  with b' show ?thesis by auto
qed

section \<open>Waking\<close>

lemma wake_sleeping:
  assumes inv: "browser_inv b" and room: "room 1 b" and t: "find_tab i b = Some t"
    and ph: "lf_phase (t_life t) = PhSleeping" "lf_release (t_life t) = None" "t_mounted t = None"
  shows "\<exists>b' t'. request_wake now i b = Some (b', Inr ()) \<and> find_tab i b' = Some t'
    \<and> lf_phase (t_life t') = (if idempotent (t_history t ! t_current t) then PhWaking else PhRestoreFailed)"
proof -
  from t have mem: "t \<in> set (b_tabs b)" "t_id t = i" by (auto dest: find_tab_SomeD)
  with inv have ok: "tab_ok t" by (simp add: browser_inv_tab)
  then have req: "t_request t = Some (t_history t ! t_current t)" by (simp add: t_request_def tab_ok_def)
  let ?lf = "(t_life t)\<lparr>lf_phase := PhWaking, lf_preview_surface := None,
                             lf_reason := [], lf_await_preview := lf_preview (t_life t) \<noteq> None\<rparr>"
  let ?b = "set_life t ?lf b"
  have fb: "find_tab i ?b = Some (t\<lparr>t_life := ?lf\<rparr>)" by (rule find_set_life [OF t])
  have kb: "keeps 0 b (Some ?b)" by (rule keeps_set_life [OF mem(1)]) auto
  with inv room have ib: "browser_inv ?b" "room 1 ?b" by (auto simp: keeps_def)
  show ?thesis
  proof (cases "idempotent (t_history t ! t_current t)")
    case False
    with t ph req show ?thesis by (auto simp: request_wake_def Let_def find_set_life)
  next
    case True
    show ?thesis
    proof (cases "lf_preview (t_life t) = None")
      case False
      with True t ph req fb show ?thesis by (auto simp: request_wake_def Let_def)
    next
      case no: True
      have load: "may_load (t\<lparr>t_life := ?lf\<rparr>)" using True by (simp add: may_load_def)
      from schedule_current_keeps [of ?b now i True] ib obtain b' where b': "schedule_current now i True ?b = Some b'"
        by (auto simp: keeps_def)
      from find_schedule_current [OF ib(1) fb load b'] obtain t' where t': "find_tab i b' = Some t'"
        "same_but_deadlines (scheduled (w_signals (b_world ?b)) (t\<lparr>t_life := ?lf\<rparr>)) t'" by blast
      have "lf_phase (t_life t') = PhWaking"
        unfolding same_but_deadlinesD [OF t'(2)] using ph(3) by (simp add: scheduled_def)
      moreover have "request_wake now i b = Some (b', Inr ())"
        using True no t ph req b' by (simp add: request_wake_def Let_def)
      ultimately show ?thesis using t' True by auto
    qed
  qed
qed

text \<open>
  A wake that is asked for while the page is still being torn down is not lost: it is answered with
  success, and when the teardown has completed the tab goes on to wake, or, when its request may not
  be repeated, says so.
\<close>

theorem wake_during_discard_honoured:
  assumes inv: "browser_inv b" and t: "find_tab i b = Some t" "lf_phase (t_life t) = PhDiscarding"
      "t_mounted t = None" "lf_release (t_life t) = Some receipt"
    and done': "ui_complete ui receipt" and room: "room 1 b"
  shows "\<exists>b1 b2 t2. request_wake now i b = Some (b1, Inr ()) \<and> on_released ui now' i receipt b1 = Some (b2, True)
    \<and> find_tab i b2 = Some t2
    \<and> lf_phase (t_life t2) = (if idempotent (t_history t ! t_current t) then PhWaking else PhRestoreFailed)"
proof -
  from t have mem: "t \<in> set (b_tabs b)" "t_id t = i" by (auto dest: find_tab_SomeD)
  let ?lf1 = "(t_life t)\<lparr>lf_wake_requested := True\<rparr>"
  let ?t1 = "t\<lparr>t_life := ?lf1\<rparr>" and ?b1 = "set_life t ?lf1 b"
  have w: "request_wake now i b = Some (?b1, Inr ())" using t by (simp add: request_wake_def Let_def)
  have f1: "find_tab i ?b1 = Some ?t1" by (rule find_set_life [OF t(1)])
  have k1: "keeps 0 b (Some ?b1)" by (rule keeps_set_life [OF mem(1)]) auto
  let ?lf2 = "?lf1\<lparr>lf_release := None, lf_phase := PhSleeping, lf_wake_requested := False\<rparr>"
  let ?t2 = "t\<lparr>t_life := ?lf2\<rparr>"
  let ?b2 = "(set_life ?t1 ?lf2 ?b1)\<lparr>b_records := sleeping (b_records b) i\<rparr>"
  have f2: "find_tab i ?b2 = Some ?t2" using find_set_life [OF f1, of ?lf2] by simp
  have rec1: "b_records ?b1 = b_records b" by (simp add: set_life_def)
  have r: "on_released ui now' i receipt ?b1 = map_option (\<lambda>r. (fst r, True)) (request_wake now' i ?b2)"
    using f1 t done' rec1 by (simp add: on_released_def Let_def)
  have "keeps 0 ?b1 (Some (set_life ?t1 ?lf2 ?b1))"
    by (rule keeps_set_life) (use f1 in \<open>auto dest: find_tab_SomeD\<close>)
  moreover have "keeps 0 (set_life ?t1 ?lf2 ?b1) (Some ?b2)"
    by (rule keeps_rest) (auto simp: set_life_def intro: registry_inv_sleeping)
  ultimately have "keeps 0 ?b1 (Some ?b2)" by (rule keeps_then)
  with k1 have "keeps 0 b (Some ?b2)" by (rule keeps_then)
  with inv room have ib2: "browser_inv ?b2" "room 1 ?b2" by (auto simp: keeps_def)
  have ok: "tab_ok ?t2" using ib2(1) f2 by (auto dest!: find_tab_SomeD simp: browser_inv_tab)
  from wake_sleeping [OF ib2 f2, of now'] t obtain b3 t3 where
    "request_wake now' i ?b2 = Some (b3, Inr ())" "find_tab i b3 = Some t3"
    "lf_phase (t_life t3) = (if idempotent (t_history t ! t_current t) then PhWaking else PhRestoreFailed)"
    by auto
  with w r show ?thesis by auto
qed

definition discarding_browser :: browser where
  "discarding_browser = demo_browser\<lparr>b_tabs := [demo_tab\<lparr>t_life := (t_life demo_tab)
     \<lparr>lf_phase := PhDiscarding, lf_discarded := True, lf_release := Some 1\<rparr>\<rparr>]\<rparr>"

theorem wake_during_discard_honoured_witness:
  "\<exists>b1 b2 t2. request_wake 0 0 discarding_browser = Some (b1, Inr ())
     \<and> on_released demo_ui 0 0 1 b1 = Some (b2, True) \<and> find_tab 0 b2 = Some t2 \<and> lf_phase (t_life t2) = PhWaking"
proof -
  have inv: "browser_inv discarding_browser"
    by (simp add: browser_inv_def discarding_browser_def demo_defs tab_ok_def preview_ok_def reg_ids_def
        registry_inv_def ledger_inv_default)
  let ?t = "demo_tab\<lparr>t_life := (t_life demo_tab)\<lparr>lf_phase := PhDiscarding, lf_discarded := True, lf_release := Some 1\<rparr>\<rparr>"
  have f: "find_tab 0 discarding_browser = Some ?t"
    by (simp add: discarding_browser_def find_tab_def demo_tab_def new_tab_def)
  have "\<exists>b1 b2 t2. request_wake 0 0 discarding_browser = Some (b1, Inr ())
     \<and> on_released demo_ui 0 0 1 b1 = Some (b2, True) \<and> find_tab 0 b2 = Some t2
     \<and> lf_phase (t_life t2) = (if idempotent (t_history ?t ! t_current ?t) then PhWaking else PhRestoreFailed)"
    by (rule wake_during_discard_honoured [OF inv f])
       (simp_all add: demo_tab_def new_tab_def demo_ui_def room_def discarding_browser_def default_life_def u64_max_def)
  moreover have "idempotent (t_history ?t ! t_current ?t)"
    by (simp add: demo_tab_def new_tab_def idempotent_def browser_request_def demo_net_def demo_ext_def)
  ultimately show ?thesis by simp
qed

section \<open>Closed tabs\<close>

lemma forward_closed:
  assumes "forward b b'" and "i < b_next_tab_id b" and "i \<notin> t_id ` set (b_tabs b)"
  shows "i < b_next_tab_id b' \<and> i \<notin> t_id ` set (b_tabs b')"
proof -
  have "reached b i g e" for g e using assms(2,3) by (auto simp: reached_def)
  with assms(1) have r: "reached b' i g e" for g e by (simp add: forward_def)
  have False if "t \<in> set (b_tabs b')" "t_id t = i" for t
    using r [of "Suc (t_generation t)" 0] that by (auto simp: reached_def)
  with r [of 0 0] show ?thesis by (auto simp: reached_def)
qed

lemma close_tab_closed:
  assumes inv: "browser_inv b" and room: "room 1 b" and i: "i \<in> t_id ` set (b_tabs b)" "length (b_tabs b) \<noteq> 1"
    and res: "close_tab now i b = Some b'"
  shows "i < b_next_tab_id b' \<and> i \<notin> t_id ` set (b_tabs b')"
proof -
  from i(1) obtain k where k: "position (\<lambda>t. t_id t = i) (b_tabs b) = Some k"
    by (cases "position (\<lambda>t. t_id t = i) (b_tabs b)") (auto simp: position_None)
  obtain b1 where b1: "close_tab_locked i b = (b1, True)" "b_tabs b1 = remove_at k (b_tabs b)"
    "b_next_tab_id b1 = b_next_tab_id b"
    using k i(2) by (simp add: close_tab_locked_def Let_def)
  have kk: "k < length (b_tabs b)" "t_id (b_tabs b ! k) = i" using position_SomeD [OF k] by auto
  have "t_id ` set (b_tabs b1) = set (remove_at k (map t_id (b_tabs b)))"
    by (simp add: b1 map_remove_at flip: set_map)
  then have gone: "i \<notin> t_id ` set (b_tabs b1)"
    using remove_at_set [of "map t_id (b_tabs b)" k] kk inv by (simp add: browser_inv_def)
  have "keeps 0 b (Some b1)" using close_tab_locked_keeps [of 0 b i] b1 by simp
  with inv room have i1: "browser_inv b1" "room 1 b1" "forward b b1" by (auto simp: keeps_def)
  have "map_option fst (select_tab now (b_active b1) b1) = Some b'"
    using res b1(1) by (simp add: close_tab_def)
  with select_tab_keeps [of b1 now "b_active b1"] i1 have "forward b1 b'"
    unfolding keeps_def by (metis add_0_right option.inject)
  moreover have "i < b_next_tab_id b1"
    using i(1) inv b1(3) by (auto simp: browser_inv_def)
  ultimately show ?thesis using forward_closed gone by blast
qed

text \<open>
  A closed tab does not come back. An id that has been used and is no longer open stays closed through
  every further action, and a page that is still fetched for it is dropped without a change.
\<close>

theorem closed_tab_never_returns:
  assumes "url_parse ext NEW_TAB_URL \<noteq> None" and "reachable ext lay c (b, pending)"
    and "i < b_next_tab_id b" and "i \<notin> t_id ` set (b_tabs b)"
    and "action_ok a" and "action_cost a (b, pending) d" and "c + d \<le> u64_max"
    and "exec ext lay now a (b, pending) = Some (b', pending')"
  shows "i < b_next_tab_id b' \<and> i \<notin> t_id ` set (b_tabs b')
    \<and> (\<forall>p. pb_tab p = i \<longrightarrow> poll_bundle ext page_node obs now' p b' = Some (b', [], False))"
proof -
  from reachable_inv [OF assms(1,2)] assms(7)
  have "machine_inv (b, pending)" "room (d + (u64_max - (c + d))) (fst (b, pending))" by auto
  from machine_step [OF this(1) assms(5,1,6) this(2), of lay now] assms(8) have fw: "forward b b'" by auto
  note closed = forward_closed [OF this assms(3,4)]
  then have "find_tab i b' = None" by (auto simp: find_tab_def find_None_set)
  with closed show ?thesis by (auto simp: poll_bundle_def)
qed

theorem closed_tab_never_returns_witness:
  "\<exists>c b b' pending pending'. reachable demo_net demo_layout c (b, pending) \<and> 1 \<notin> t_id ` set (b_tabs b)
     \<and> exec demo_net demo_layout 0 (GoBack 0) (b, pending) = Some (b', pending') \<and> 1 \<notin> t_id ` set (b_tabs b')"
proof -
  let ?rq = "browser_request demo_net (demo_url NEW_TAB_URL)"
  let ?b1 = "demo_browser\<lparr>b_tabs := [demo_tab, new_tab 0 1 ?rq], b_next_tab_id := 2,
     b_records := \<lparr>reg_records = [(0, \<lparr>rec_id = 0, rec_generation = 0, rec_residency = Dormant\<rparr>),
        (1, \<lparr>rec_id = 1, rec_generation = 0, rec_residency = Dormant\<rparr>)], reg_limit = 20000, reg_warn_at = 16000\<rparr>\<rparr>"
  have e1: "exec demo_net demo_layout 0 (OpenDormantTab None) (demo_browser, []) = Some (?b1, [])"
    by (simp add: open_tab_record_def demo_net_def demo_defs admit_def record_of_def Let_def checked_add_def
        u64_max_def find_tab_def snapshot_def t_request_def)
  have r1: "reachable demo_net demo_layout (0 + 2) (?b1, [])"
    by (rule reachable.step [OF demo_reachable _ _ e1]) (simp_all add: action_cost_def)
  have i1: "machine_inv (?b1, [])" "room (2 + 2) (fst (?b1, []))"
    using reachable_inv [OF demo_parse r1] by (auto simp: u64_max_def intro: room_le)
  obtain b2 where e2: "exec demo_net demo_layout 0 (CloseTab 1) (?b1, []) = Some (b2, [])"
    using machine_step [OF i1(1) _ demo_parse _ i1(2), of "CloseTab 1" demo_layout 0] by (auto simp: action_cost_def)
  have r2: "reachable demo_net demo_layout (0 + 2 + 2) (b2, [])"
    by (rule reachable.step [OF r1 _ _ e2]) (simp_all add: action_cost_def)
  have i2: "machine_inv (b2, [])" "room (2 + 2) (fst (b2, []))"
    using reachable_inv [OF demo_parse r2] by (auto simp: u64_max_def intro: room_le)
  obtain b3 where e3: "exec demo_net demo_layout 0 (GoBack 0) (b2, []) = Some (b3, [])"
    using machine_step [OF i2(1) _ demo_parse _ i2(2), of "GoBack 0" demo_layout 0] by (auto simp: action_cost_def)
  have "1 < b_next_tab_id b2 \<and> 1 \<notin> t_id ` set (b_tabs b2)"
  proof (rule close_tab_closed)
    show "browser_inv ?b1" "room 1 ?b1" using i1 by (auto simp: machine_inv_def intro: room_le)
    show "close_tab 0 1 ?b1 = Some b2" using e2 by simp
  qed (simp_all add: new_tab_def)
  then have gone: "1 < b_next_tab_id b2" "1 \<notin> t_id ` set (b_tabs b2)" by auto
  have "1 \<notin> t_id ` set (b_tabs b3)"
    using closed_tab_never_returns [OF demo_parse r2 gone _ _ _ e3, of 2] by (auto simp: action_cost_def u64_max_def)
  with r2 gone(2) e3 show ?thesis by blast
qed

section \<open>Behaviour the code does not intend\<close>

lemma find_at_tab: "find_tab i b = Some t \<Longrightarrow> find_tab_at i (t_generation t) b = Some t"
proof -
  have "find (\<lambda>u. t_id u = i) xs = Some t \<Longrightarrow> find (\<lambda>u. t_id u = i \<and> t_generation u = t_generation t) xs = Some t"
    for xs by (induction xs) (auto split: if_splits)
  then show "find_tab i b = Some t \<Longrightarrow> find_tab_at i (t_generation t) b = Some t"
    by (simp add: find_tab_def find_tab_at_def)
qed

lemma attach_page_tab:
  assumes t: "find_tab i b = Some t" and p: "pb_tab p = i" "pb_generation p = t_generation t"
    and u: "url_parse ext (pb_resolved_url p) = Some u" and ok: "tab_ok t"
  shows "\<exists>b' t'. attach_page ext now p target po title script b = Some (b', True) \<and> find_tab i b' = Some t'
    \<and> same_but_deadlines (attached_tab now p target po title script
         ((t_history t)[t_current t := (t_history t ! t_current t)\<lparr>rq_url := u\<rparr>]) t) t'"
proof -
  let ?h = "(t_history t)[t_current t := (t_history t ! t_current t)\<lparr>rq_url := u\<rparr>]"
  let ?t = "attached_tab now p target po title script ?h t"
  let ?b = "(put_tab ?t b)\<lparr>b_records := attached (b_records b) (pb_tab p) (pb_generation p)\<rparr>"
  have "t_id ?t = i" using t by (auto simp: attached_tab_def Let_def dest: find_tab_SomeD)
  with t have "find_tab i ?b = Some ?t" by (simp add: find_put_tab)
  from find_arm_hidden [OF this, of i] obtain t' where "find_tab i (arm_hidden i ?b) = Some t'"
    "same_but_deadlines ?t t'" by blast
  moreover have "attach_page ext now p target po title script b = Some (arm_hidden i ?b, True)"
    using find_at_tab [OF t] p u ok by (simp add: attach_page_def t_request_def tab_ok_def)
  ultimately show ?thesis by blast
qed

text \<open>
  C8. A late teardown receipt puts a live page to sleep. When a tab still waits for the teardown of an
  earlier page (a wake that failed or timed out) and the user has navigated it, the page of that
  navigation is attached and the tab is live; the \<open>Released\<close> message of the old page then sets
  the phase to \<open>Sleeping\<close> although the new page is mounted, and the window is told it sleeps. The
  handler only excepts the phase \<open>RestoreFailed\<close>.
\<close>

theorem late_release_demotes_live_tab:
  assumes t: "find_tab i b = Some t" and ok: "tab_ok t" and ph: "lf_phase (t_life t) = PhDormant"
    and rel: "lf_release (t_life t) = Some receipt" "ui_complete ui receipt" "\<not> lf_wake_requested (t_life t)"
    and p: "pb_tab p = i" "pb_generation p = t_generation t" "url_parse ext (pb_resolved_url p) = Some u"
  shows "\<exists>b1 t1 b2 t2. attach_page ext now p target po title script b = Some (b1, True)
    \<and> find_tab i b1 = Some t1 \<and> lf_phase (t_life t1) = PhLive \<and> t_mounted t1 \<noteq> None
    \<and> on_released ui now i receipt b1 = Some (b2, True)
    \<and> find_tab i b2 = Some t2 \<and> t_mounted t2 = t_mounted t1 \<and> lf_phase (t_life t2) = PhSleeping
    \<and> (\<exists>s. snapshot now t2 = Some s \<and> ft_residency s = Sleeping)"
proof -
  let ?a = "attached_tab now p target po title script
     ((t_history t)[t_current t := (t_history t ! t_current t)\<lparr>rq_url := u\<rparr>]) t"
  from attach_page_tab [OF t p ok] obtain b1 t1 where
    b1: "attach_page ext now p target po title script b = Some (b1, True)" "find_tab i b1 = Some t1"
    and s: "same_but_deadlines ?a t1" by blast
  note d = same_but_deadlinesD [OF s]
  have t1: "lf_phase (t_life t1) = PhLive" "t_mounted t1 \<noteq> None" "lf_release (t_life t1) = Some receipt"
    "\<not> lf_wake_requested (t_life t1)" "t_current t1 < length (t_history t1)"
    using ph rel ok unfolding d by (simp_all add: attached_tab_def Let_def tab_ok_def)
  let ?lf = "(t_life t1)\<lparr>lf_release := None, lf_phase := PhSleeping, lf_wake_requested := False\<rparr>"
  let ?b2 = "(set_life t1 ?lf b1)\<lparr>b_records := sleeping (b_records b1) i\<rparr>"
  have "on_released ui now i receipt b1 = Some (?b2, True)"
    using b1(2) t1 rel by (simp add: on_released_def Let_def)
  moreover have "find_tab i ?b2 = Some (t1\<lparr>t_life := ?lf\<rparr>)" using find_set_life [OF b1(2), of ?lf] by simp
  moreover have "\<exists>s. snapshot now (t1\<lparr>t_life := ?lf\<rparr>) = Some s \<and> ft_residency s = Sleeping"
    using t1(5) by (simp add: snapshot_def t_request_def)
  ultimately show ?thesis
    using b1 t1(1,2)
    by (intro exI [of _ b1] exI [of _ t1] exI [of _ ?b2] exI [of _ "t1\<lparr>t_life := ?lf\<rparr>"] conjI) simp_all
qed

definition demo_bundle :: page_bundle where
  "demo_bundle = \<lparr>pb_tab = 0, pb_generation = 0, pb_resolved_url = S ''b.io'', pb_source = Html [] [],
     pb_outcome = OutReady\<rparr>"

theorem late_release_demotes_live_tab_witness:
  "\<exists>b1 t1 b2 t2. attach_page demo_net 0 demo_bundle 5 (demo_page True) [] True
       (demo_browser\<lparr>b_tabs := [demo_tab\<lparr>t_life := (t_life demo_tab)\<lparr>lf_release := Some 1\<rparr>\<rparr>]\<rparr>) = Some (b1, True)
     \<and> find_tab 0 b1 = Some t1 \<and> lf_phase (t_life t1) = PhLive
     \<and> on_released demo_ui 0 0 1 b1 = Some (b2, True)
     \<and> find_tab 0 b2 = Some t2 \<and> t_mounted t2 \<noteq> None \<and> lf_phase (t_life t2) = PhSleeping"
proof -
  let ?t = "demo_tab\<lparr>t_life := (t_life demo_tab)\<lparr>lf_release := Some 1\<rparr>\<rparr>"
  have f: "find_tab 0 (demo_browser\<lparr>b_tabs := [?t]\<rparr>) = Some ?t"
    by (simp add: find_tab_def demo_tab_def new_tab_def)
  have "tab_ok ?t" by (simp add: tab_ok_def preview_ok_def demo_tab_def new_tab_def default_life_def)
  from late_release_demotes_live_tab [OF f this, of 1 demo_ui demo_bundle demo_net "demo_url (S ''b.io'')" 0 5
      "demo_page True" "[]" True]
  show ?thesis
    by (simp add: demo_tab_def new_tab_def default_life_def demo_ui_def demo_bundle_def demo_net_def) metis
qed

text \<open>
  C7. Going back to a submitted form while a tab wakes shows the wrong page under it. When the entry before the
  one that is being woken is a \<open>POST\<close>, going back refuses to send it again, but neither ends the
  load in flight nor moves the generation on. The page of the entry that was left is then attached
  to the form's entry, whose address it overwrites, and the tab is live with the method \<open>POST\<close> on the
  other entry's address.
\<close>

theorem back_to_post_attaches_other_entry:
  assumes inv: "browser_inv b" and t: "find_tab i b = Some t" and cur: "t_current t = Suc n"
    and ph: "lf_phase (t_life t) = PhWaking" "lf_discarded (t_life t)" "t_mounted t = None"
    and post: "rq_method (t_history t ! n) = S ''POST''"
    and p: "pb_tab p = i" "pb_generation p = t_generation t" "url_parse ext (pb_resolved_url p) = Some u"
  shows "\<exists>b1 b2 t2. go_back ext now i b = Some b1 \<and> b_fetches b1 = b_fetches b
    \<and> attach_page ext now p target po title script b1 = Some (b2, True) \<and> find_tab i b2 = Some t2
    \<and> lf_phase (t_life t2) = PhLive \<and> t_current t2 = n
    \<and> rq_method (t_history t2 ! n) = S ''POST'' \<and> rq_url (t_history t2 ! n) = u"
proof -
  from t have mem: "t \<in> set (b_tabs b)" "t_id t = i" by (auto dest: find_tab_SomeD)
  with inv have ok: "tab_ok t" by (simp add: browser_inv_tab)
  with cur have n: "n < length (t_history t)" by (simp add: tab_ok_def)
  let ?rq = "renewed ext (t_history t ! n)"
  let ?t1 = "t\<lparr>t_current := n, t_title := []\<rparr>"
  let ?t2 = "?t1\<lparr>t_history := (t_history t)[n := ?rq]\<rparr>"
  let ?t3 = "?t2\<lparr>t_life := (t_life t)\<lparr>lf_phase := PhRestoreFailed, lf_reason := S ''reload-requires-resubmission''\<rparr>\<rparr>"
  have np: "\<not> idempotent ?rq" using post by (simp add: idempotent_def renewed_def)
  have f1: "find_tab i (put_tab ?t1 b) = Some ?t1" using mem by (intro find_put_tab [OF t]) simp
  have f2: "find_tab i (put_tab ?t2 b) = Some ?t2" using mem by (intro find_put_tab [OF t]) simp
  have pp: "put_tab ?t2 (put_tab ?t1 b) = put_tab ?t2 b" "put_tab ?t3 (put_tab ?t2 b) = put_tab ?t3 b"
    by (simp_all add: put_put_tab)
  have "go_back ext now i b = schedule_current now i False (put_tab ?t2 (put_tab ?t1 b))"
    using t cur f1 n by (simp add: go_back_def schedule_browser_navigation_def t_request_def renewed_def)
  also have "\<dots> = Some (put_tab ?t3 b)"
    using f2 ph np n pp by (simp add: schedule_current_def Let_def t_request_def set_life_def)
  finally have g: "go_back ext now i b = Some (put_tab ?t3 b)" .
  have f3: "find_tab i (put_tab ?t3 b) = Some ?t3" using mem by (intro find_put_tab [OF t]) simp
  have "tab_ok ?t3" using ok n by (simp add: tab_ok_def preview_ok_def)
  from attach_page_tab [OF f3 _ _ p(3) this, of now target po title script] p(1,2) obtain b2 t4 where
    "attach_page ext now p target po title script (put_tab ?t3 b) = Some (b2, True)" "find_tab i b2 = Some t4"
    and s: "same_but_deadlines (attached_tab now p target po title script
         ((t_history ?t3)[t_current ?t3 := (t_history ?t3 ! t_current ?t3)\<lparr>rq_url := u\<rparr>]) ?t3) t4"
    by auto
  moreover note d = same_but_deadlinesD [OF s]
  have "lf_phase (t_life t4) = PhLive \<and> t_current t4 = n \<and> rq_method (t_history t4 ! n) = S ''POST''
      \<and> rq_url (t_history t4 ! n) = u"
    unfolding d using n post by (simp add: attached_tab_def Let_def renewed_def)
  ultimately show ?thesis using g by auto
qed

definition back_browser :: browser where
  "back_browser = demo_browser\<lparr>b_tabs := [demo_tab\<lparr>
     t_history := [demo_post, browser_request demo_net (demo_url (S ''b.io''))], t_current := 1,
     t_life := (t_life demo_tab)\<lparr>lf_phase := PhWaking, lf_discarded := True\<rparr>\<rparr>]\<rparr>"

theorem back_to_post_attaches_other_entry_witness:
  "\<exists>b1 b2 t2. go_back demo_net 0 0 back_browser = Some b1
     \<and> attach_page demo_net 0 demo_bundle 5 (demo_page True) [] True b1 = Some (b2, True) \<and> find_tab 0 b2 = Some t2
     \<and> rq_method (t_history t2 ! 0) = S ''POST'' \<and> rq_url (t_history t2 ! 0) = demo_url (S ''b.io'')"
proof -
  have inv: "browser_inv back_browser"
    by (simp add: browser_inv_def back_browser_def demo_defs tab_ok_def preview_ok_def reg_ids_def
        registry_inv_def ledger_inv_default)
  let ?t = "demo_tab\<lparr>t_history := [demo_post, browser_request demo_net (demo_url (S ''b.io''))], t_current := 1,
     t_life := (t_life demo_tab)\<lparr>lf_phase := PhWaking, lf_discarded := True\<rparr>\<rparr>"
  have f: "find_tab 0 back_browser = Some ?t"
    by (simp add: back_browser_def find_tab_def demo_tab_def new_tab_def)
  have "\<exists>b1 b2 t2. go_back demo_net 0 0 back_browser = Some b1 \<and> b_fetches b1 = b_fetches back_browser
     \<and> attach_page demo_net 0 demo_bundle 5 (demo_page True) [] True b1 = Some (b2, True) \<and> find_tab 0 b2 = Some t2
     \<and> lf_phase (t_life t2) = PhLive \<and> t_current t2 = 0
     \<and> rq_method (t_history t2 ! 0) = S ''POST'' \<and> rq_url (t_history t2 ! 0) = demo_url (S ''b.io'')"
    by (rule back_to_post_attaches_other_entry [OF inv f])
       (simp_all add: demo_tab_def new_tab_def demo_post_def demo_bundle_def demo_net_def)
  then show ?thesis by blast
qed

end
