(* ===== verification/Utf8.thy ===== *)
theory Utf8
  imports Chuzz_Prelude
begin

text \<open>
  Reading UTF-8 as the Rust standard library does: one character or one maximal invalid sequence at
  a time (\<open>str::from_utf8\<close>, \<open>Utf8Error::valid_up_to\<close>, \<open>String::from_utf8_lossy\<close>).
\<close>

definition byte_at :: "bytes \<Rightarrow> nat \<Rightarrow> nat" where
  "byte_at bs i = (if i < length bs then unat (bs ! i) else 0)"

definition continuation :: "nat \<Rightarrow> bool" where
  "continuation b \<longleftrightarrow> 128 \<le> b \<and> b < 192"

text \<open>The character at the front, or \<open>None\<close> where the bytes are no character, and how many bytes that takes.\<close>

definition utf8_next :: "bytes \<Rightarrow> nat option \<times> nat" where
  "utf8_next bs =
     (let f = byte_at bs 0; s = byte_at bs 1; t = byte_at bs 2; q = byte_at bs 3
      in if f < 128 then (Some f, 1)
         else if 194 \<le> f \<and> f < 224 then
           (if continuation s then (Some ((f - 192) * 64 + (s - 128)), 2) else (None, 1))
         else if 224 \<le> f \<and> f < 240 then
           (if continuation s \<and> (f = 224 \<longrightarrow> 160 \<le> s) \<and> (f = 237 \<longrightarrow> s < 160)
            then (if continuation t then (Some ((f - 224) * 4096 + (s - 128) * 64 + (t - 128)), 3) else (None, 2))
            else (None, 1))
         else if 240 \<le> f \<and> f < 245 then
           (if continuation s \<and> (f = 240 \<longrightarrow> 144 \<le> s) \<and> (f = 244 \<longrightarrow> s < 144)
            then (if continuation t
                  then (if continuation q
                        then (Some ((f - 240) * 262144 + (s - 128) * 4096 + (t - 128) * 64 + (q - 128)), 4)
                        else (None, 3))
                  else (None, 2))
            else (None, 1))
         else (None, 1))"

lemma utf8_next_pos: "0 < snd (utf8_next bs)"
  by (simp add: utf8_next_def Let_def)

function utf8_valid_up_to :: "bytes \<Rightarrow> nat" where
  "utf8_valid_up_to bs =
     (if bs = [] then 0
      else case utf8_next bs of (Some _, n) \<Rightarrow> n + utf8_valid_up_to (drop n bs) | (None, _) \<Rightarrow> 0)"
  by pat_completeness auto
termination
proof (relation "measure length", goal_cases)
  case (2 bs x n c)
  then have "0 < n" using utf8_next_pos [of bs] by (metis snd_conv)
  with 2 show ?case by (cases bs) auto
qed simp

function utf8_lossy :: "bytes \<Rightarrow> str" where
  "utf8_lossy bs =
     (if bs = [] then []
      else case utf8_next bs of (c, n) \<Rightarrow> (case c of Some c \<Rightarrow> c | None \<Rightarrow> 65533) # utf8_lossy (drop n bs))"
  by pat_completeness auto
termination
proof (relation "measure length", goal_cases)
  case (2 bs c n)
  then have "0 < n" using utf8_next_pos [of bs] by (metis snd_conv)
  with 2 show ?case by (cases bs) auto
qed simp

declare utf8_valid_up_to.simps [simp del] utf8_lossy.simps [simp del]

definition from_utf8 :: "bytes \<Rightarrow> str option" where
  "from_utf8 bs = (if utf8_valid_up_to bs = length bs then Some (utf8_lossy bs) else None)"

section \<open>Reading what was written\<close>

lemma unat_byte: "n < 256 \<Longrightarrow> unat (of_nat n :: byte) = n"
  by (simp add: unat_of_nat take_bit_nat_eq_self)

lemma byte_at_simps [simp]:
  "byte_at (b # bs) 0 = unat b" "byte_at (b # bs) (Suc i) = byte_at bs i" "byte_at [] i = 0"
  by (simp_all add: byte_at_def)

lemma base64:
  "n div 64 * 64 + n mod 64 = (n :: nat)"
  "n div 4096 * 64 + n div 64 mod 64 = n div 64"
  "n div 262144 * 64 + n div 4096 mod 64 = n div 4096"
proof -
  show "n div 64 * 64 + n mod 64 = n" by simp
  have "n div 4096 = n div 64 div 64" "n div 262144 = n div 4096 div 64" by (simp_all flip: div_mult2_eq)
  then show "n div 4096 * 64 + n div 64 mod 64 = n div 64" "n div 262144 * 64 + n div 4096 mod 64 = n div 4096"
    by simp_all
qed

lemma byte_at_next:
  "byte_at (b # bs) 0 = unat b" "byte_at (b # bs) 1 = byte_at bs 0"
  "byte_at (b # bs) 2 = byte_at bs 1" "byte_at (b # bs) 3 = byte_at bs 2"
  by (simp_all add: byte_at_def numeral_2_eq_2 numeral_3_eq_3)

lemma utf8_next_char:
  assumes "scalar_value c"
  shows "utf8_next (utf8_char c @ rest) = (Some c, length (utf8_char c))"
proof -
  from assms have c: "c < 1114112" "\<not> (55296 \<le> c \<and> c < 57344)" by (auto simp: scalar_value_def)
  consider "c < 128" | "128 \<le> c" "c < 2048" | "2048 \<le> c" "c < 65536" | "65536 \<le> c" using not_less by blast
  then show ?thesis
  proof cases
    case 1
    then show ?thesis by (simp add: utf8_char_def utf8_next_def unat_byte Let_def)
  next
    case 2
    define x z where "x = c div 64" "z = c mod 64"
    have e: "c = x * 64 + z" unfolding x_z_def by presburger
    have b: "x < 32" "2 \<le> x" "z < 64" using 2 unfolding x_z_def by auto
    from 2 have u: "utf8_char c = [of_nat (192 + x), of_nat (128 + z)]"
      by (simp add: utf8_char_def x_z_def)
    have n: "unat (of_nat (192 + x) :: byte) = 192 + x" "unat (of_nat (128 + z) :: byte) = 128 + z"
      using b by (intro unat_byte; simp)+
    show ?thesis
      unfolding u utf8_next_def Let_def append_Cons byte_at_next n
      using b e by (simp add: continuation_def)
  next
    case 3
    define x y z where "x = c div 4096" "y = c div 64 mod 64" "z = c mod 64"
    have e: "c = x * 4096 + y * 64 + z" unfolding x_y_z_def using base64 [of c] by linarith
    have b: "x < 16" "y < 64" "z < 64" using 3 unfolding x_y_z_def by auto
    from 3 have u: "utf8_char c = [of_nat (224 + x), of_nat (128 + y), of_nat (128 + z)]"
      by (simp add: utf8_char_def x_y_z_def)
    have lo: "x = 0 \<Longrightarrow> 32 \<le> y" using 3 e b by auto
    have mid: "x = 13 \<Longrightarrow> y < 32" using c e b by auto
    have n: "unat (of_nat (224 + x) :: byte) = 224 + x" "unat (of_nat (128 + y) :: byte) = 128 + y"
      "unat (of_nat (128 + z) :: byte) = 128 + z"
      using b by (intro unat_byte; simp)+
    show ?thesis
      unfolding u utf8_next_def Let_def append_Cons byte_at_next n
      using b lo mid e by (simp add: continuation_def)
  next
    case 4
    define w x y z where "w = c div 262144" "x = c div 4096 mod 64" "y = c div 64 mod 64" "z = c mod 64"
    have e: "c = w * 262144 + x * 4096 + y * 64 + z" unfolding w_x_y_z_def using base64 [of c] by linarith
    have b: "w < 5" "x < 64" "y < 64" "z < 64" using c unfolding w_x_y_z_def by auto
    have "c div 262144 mod 8 = w" using b unfolding w_x_y_z_def by simp
    with 4 have u: "utf8_char c = [of_nat (240 + w), of_nat (128 + x), of_nat (128 + y), of_nat (128 + z)]"
      by (simp add: utf8_char_def w_x_y_z_def)
    have lo: "w = 0 \<Longrightarrow> 16 \<le> x" using 4 e b by auto
    have hi: "w = 4 \<Longrightarrow> x < 16" using c e b by auto
    have n: "unat (of_nat (240 + w) :: byte) = 240 + w" "unat (of_nat (128 + x) :: byte) = 128 + x"
      "unat (of_nat (128 + y) :: byte) = 128 + y" "unat (of_nat (128 + z) :: byte) = 128 + z"
      using b by (intro unat_byte; simp)+
    show ?thesis
      unfolding u utf8_next_def Let_def append_Cons byte_at_next n
      using b lo hi e by (simp add: continuation_def)
  qed
qed

lemma utf8_lossy_utf8: "list_all scalar_value s \<Longrightarrow> utf8_lossy (utf8 s) = s"
proof (induction s)
  case (Cons c s)
  then show ?case
    by (subst utf8_lossy.simps) (simp add: utf8_next_char)
qed (simp add: utf8_lossy.simps)

lemma valid_up_to_utf8: "list_all scalar_value s \<Longrightarrow> utf8_valid_up_to (utf8 s) = length (utf8 s)"
proof (induction s)
  case (Cons c s)
  then show ?case
    by (subst utf8_valid_up_to.simps) (simp add: utf8_next_char)
qed (simp add: utf8_valid_up_to.simps)

lemma from_utf8_utf8: "list_all scalar_value s \<Longrightarrow> from_utf8 (utf8 s) = Some s"
  by (simp add: from_utf8_def valid_up_to_utf8 utf8_lossy_utf8)

text \<open>Cutting UTF-8 anywhere spoils at most the last character.\<close>

lemma valid_up_to_take:
  "list_all scalar_value s \<Longrightarrow> min n (length (utf8 s)) \<le> utf8_valid_up_to (take n (utf8 s)) + 3"
proof (induction s arbitrary: n)
  case (Cons c s)
  let ?k = "length (utf8_char c)"
  show ?case
  proof (cases "?k \<le> n")
    case False
    then show ?thesis using utf8_char_length [of c] by simp
  next
    case True
    then have tk: "take n (utf8 (c # s)) = utf8_char c @ take (n - ?k) (utf8 s)" by simp
    have "utf8_valid_up_to (take n (utf8 (c # s))) = ?k + utf8_valid_up_to (take (n - ?k) (utf8 s))"
      unfolding tk using Cons.prems by (subst utf8_valid_up_to.simps) (simp add: utf8_next_char)
    moreover have "min (n - ?k) (length (utf8 s)) \<le> utf8_valid_up_to (take (n - ?k) (utf8 s)) + 3"
      using Cons by simp
    ultimately show ?thesis using True by simp
  qed
qed simp

text \<open>A NUL in the text is a zero byte.\<close>

lemma utf8_next_zero: "bs \<noteq> [] \<Longrightarrow> utf8_next bs = (Some 0, n) \<Longrightarrow> 0 \<in> set bs"
proof -
  assume ne: "bs \<noteq> []" and eq: "utf8_next bs = (Some 0, n)"
  then obtain b rest where bs: "bs = b # rest" by (cases bs) auto
  from eq have "unat b = 0"
    by (auto simp: bs utf8_next_def Let_def continuation_def split: if_splits)
  then show ?thesis by (simp add: bs unat_eq_zero)
qed

lemma utf8_lossy_zero: "0 \<in> set (utf8_lossy bs) \<Longrightarrow> 0 \<in> set bs"
proof (induction bs rule: utf8_lossy.induct)
  case (1 bs)
  show ?case
  proof (cases "bs = []")
    case True
    with 1 show ?thesis by (simp add: utf8_lossy.simps)
  next
    case False
    obtain c n where cn: "utf8_next bs = (c, n)" by (metis surj_pair)
    with 1(2) False have "c = Some 0 \<or> 0 \<in> set (utf8_lossy (drop n bs))"
      by (subst (asm) utf8_lossy.simps) (auto split: option.splits)
    then show ?thesis
    proof
      assume "c = Some 0"
      with cn False utf8_next_zero show ?thesis by blast
    next
      assume "0 \<in> set (utf8_lossy (drop n bs))"
      with 1(1) [OF False cn [symmetric]] show ?thesis by (auto dest: in_set_dropD)
    qed
  qed
qed

lemma zero_byte_char: "0 \<in> set (utf8_char c) \<Longrightarrow> c < 1114112 \<Longrightarrow> c = 0"
proof -
  assume z: "0 \<in> set (utf8_char c)" and c: "c < 1114112"
  have nz: "(of_nat n :: byte) \<noteq> 0" if "0 < n" "n < 256" for n
    using unat_byte [OF that(2)] that(1) by (metis less_irrefl unat_0)
  have d: "c div 262144 mod 8 < 5" using c by (auto intro: le_less_trans [OF mod_less_eq_dividend])
  show "c = 0"
  proof (cases "c < 128")
    case True
    with z nz [of c] show ?thesis by (cases "c = 0") (auto simp: utf8_char_def)
  next
    case False
    then show ?thesis
      using z nz [of "192 + c div 64"] nz [of "128 + c mod 64"] nz [of "224 + c div 4096"]
        nz [of "128 + c div 64 mod 64"] nz [of "240 + c div 262144 mod 8"] nz [of "128 + c div 4096 mod 64"] d
      by (auto simp: utf8_char_def split: if_splits)
  qed
qed

lemma zero_byte_utf8: "0 \<in> set (utf8 s) \<Longrightarrow> list_all scalar_value s \<Longrightarrow> 0 \<in> set s"
  by (induction s) (auto simp: scalar_value_def dest!: zero_byte_char)

end
