(* ===== verification/Page_Load.thy ===== *)
theory Page_Load
  imports Utf8 Browser_State
begin

text \<open>
  Fetching a page (\<open>fetch_page\<close> and \<open>revalidate\<close> of \<^verbatim>\<open>src/apps/chuzz/src/browser.rs\<close>) and decoding what
  arrives (\<^verbatim>\<open>src/apps/chuzz/src/decode.rs\<close>). The network provider, the decompressors and the HTML
  scanner are outside the repository and are the fields of \<open>loader\<close>.
\<close>

section \<open>Decoding a body\<close>

record codecs =
  cd_gunzip :: "bytes \<Rightarrow> str option" \<comment> \<open>\<open>GzDecoder::read_to_string\<close>\<close>
  cd_brotli :: "bytes \<Rightarrow> str option" \<comment> \<open>\<open>Decompressor::read_to_string\<close>\<close>

definition is_gzip :: "bytes \<Rightarrow> bool" where
  "is_gzip bs \<longleftrightarrow> 2 < length bs \<and> bs ! 0 = 0x1f \<and> bs ! 1 = 0x8b"

definition looks_like_text :: "bytes \<Rightarrow> bool" where
  "looks_like_text bs =
     (let window = take 512 bs
      in case from_utf8 window of
           Some t \<Rightarrow> 0 \<notin> set t
         | None \<Rightarrow> length window - 4 \<le> utf8_valid_up_to window)"

definition unbrotli :: "codecs \<Rightarrow> bytes \<Rightarrow> str option" where
  "unbrotli cd bs = (case cd_brotli cd bs of Some t \<Rightarrow> if t = [] then None else Some t | None \<Rightarrow> None)"

definition decompress :: "codecs \<Rightarrow> bytes \<Rightarrow> str option" where
  "decompress cd bs =
     (if bs = [] \<or> looks_like_text bs then None
      else if is_gzip bs then cd_gunzip cd bs
      else unbrotli cd bs)"

definition decode_body :: "codecs \<Rightarrow> bytes \<Rightarrow> str" where
  "decode_body cd bs = (case decompress cd bs of Some t \<Rightarrow> t | None \<Rightarrow> utf8_lossy bs)"

definition decode_body_if_compressed :: "codecs \<Rightarrow> bytes \<Rightarrow> str option" where
  "decode_body_if_compressed cd bs = decompress cd bs"

section \<open>The network\<close>

datatype net_error = TlsPolicy tls_policy_error str | OtherError str \<comment> \<open>with the \<open>Debug\<close> rendering\<close>

fun debug_of :: "net_error \<Rightarrow> str" where
  "debug_of (TlsPolicy _ d) = d"
| "debug_of (OtherError d) = d"

record loader =
  ld_codecs :: codecs
  ld_probe :: "str option" \<comment> \<open>the sandbox probe page\<close>
  ld_explainer :: str
  ld_reason_text :: "tls_policy_error \<Rightarrow> str"
  ld_fetch :: "request \<Rightarrow> net_error + bytes" \<comment> \<open>\<open>fetch_async\<close>\<close>
  ld_document :: "request \<Rightarrow> net_error + (str \<times> bytes)" \<comment> \<open>\<open>fetch_document_async\<close>\<close>
  ld_script :: "request \<Rightarrow> net_error + bytes" \<comment> \<open>\<open>fetch_async\<close> of the provider for the document\<close>
  ld_xhtml :: "str \<Rightarrow> bool"
  ld_xhtml_scripts :: "str \<Rightarrow> str \<Rightarrow> url list"
  ld_scan :: "str \<Rightarrow> (bool \<times> str option) list" \<comment> \<open>script tags: is JavaScript, its \<open>src\<close>\<close>
  ld_join :: "url \<Rightarrow> str \<Rightarrow> url option"
  ld_parse_error :: "str \<Rightarrow> str"

type_synonym log_line = "str \<times> str \<times> str"

definition BLANK_HTML :: str where
  \<open>BLANK_HTML = S ''<!doctype html><html><head><meta charset="utf-8"><title></title></head><body style="margin:0;background:transparent"></body></html>''\<close>

definition EMPTY_HTML :: str where
  \<open>EMPTY_HTML = S ''<!doctype html><html><head><meta charset="utf-8"><title>Empty response</title></head><body style="margin:0;background:#f6f6f7;color:#16181d"><h1>Empty response</h1><p>The server returned no content.</p></body></html>''\<close>

definition revalidate :: "request \<Rightarrow> request" where
  "revalidate rq = rq\<lparr>rq_headers := (S ''cache-control'', S ''no-cache'')
     # filter (\<lambda>(k, _). k \<noteq> S ''cache-control'') (rq_headers rq)\<rparr>"

section \<open>Loading\<close>

definition is_browser :: "initiator \<Rightarrow> bool" where
  "is_browser i = (case i of Browser _ \<Rightarrow> True | Document _ \<Rightarrow> False)"

definition view_source ::
  "net_ext \<Rightarrow> loader \<Rightarrow> initiator \<Rightarrow> url \<Rightarrow> (page_source \<times> page_outcome) \<times> log_line list" where
  "view_source ext ld navigation u =
     (let inner = url_path u
      in case url_parse ext inner of
           None \<Rightarrow> ((Source (inner @ S '' is not a URL: '' @ ld_parse_error ld inner), OutError), [])
         | Some v \<Rightarrow>
             (case ld_fetch ld ((request_get ext v)\<lparr>rq_initiator :=
                     (if is_browser navigation then policy_browser ext v else navigation)\<rparr>) of
                Inr bs \<Rightarrow> ((Source (decode_body (ld_codecs ld) bs), OutReady),
                   [(S ''info'', S ''net'', S ''fetched '' @ inner @ S '' for view-source, '' @ dec (length bs) @ S '' bytes'')])
              | Inl e \<Rightarrow>
                  (case e of
                     TlsPolicy reason _ \<Rightarrow> (Html (tls_refused_html ext (ld_reason_text ld) v reason) [], OutError)
                   | OtherError _ \<Rightarrow> (Source (S ''could not fetch '' @ inner @ S '': '' @ debug_of e), OutError),
                   [(S ''error'', S ''net'', S ''could not fetch '' @ inner @ S '': '' @ debug_of e)])))"

definition script_urls :: "net_ext \<Rightarrow> loader \<Rightarrow> str \<Rightarrow> str \<Rightarrow> url list" where
  "script_urls ext ld html resolved =
     (if ld_xhtml ld html then ld_xhtml_scripts ld html resolved
      else
        (let base = url_parse ext resolved
         in List.map_filter (\<lambda>src. case base of Some u \<Rightarrow> ld_join ld u src | None \<Rightarrow> url_parse ext src)
              (List.map_filter snd (filter fst (ld_scan ld html)))))"

fun fetch_scripts ::
  "net_ext \<Rightarrow> loader \<Rightarrow> bool \<Rightarrow> url list \<Rightarrow> (url \<times> str) list \<Rightarrow> page_outcome
   \<Rightarrow> ((url \<times> str) list \<times> page_outcome) \<times> log_line list" where
  "fetch_scripts ext ld force [] scripts outcome = ((scripts, outcome), [])"
| "fetch_scripts ext ld force (u # us) scripts outcome =
     (if u \<in> fst ` set scripts then fetch_scripts ext ld force us scripts outcome
      else
        (let rq = request_get ext u; rq' = (if force then revalidate rq else rq)
         in case ld_script ld rq' of
              Inr bs \<Rightarrow>
                (case fetch_scripts ext ld force us (scripts @ [(u, decode_body (ld_codecs ld) bs)]) outcome of
                   (r, notes) \<Rightarrow> (r, (S ''info'', S ''script'', S ''fetched '' @ url_str u @ S '', ''
                      @ dec (length bs) @ S '' bytes'') # notes))
            | Inl e \<Rightarrow>
                (case fetch_scripts ext ld force us scripts (max outcome OutWarning) of
                   (r, notes) \<Rightarrow> (r, (S ''error'', S ''script'', S ''could not fetch '' @ url_str u @ S '': ''
                      @ debug_of e) # notes))))"

definition load_document ::
  "net_ext \<Rightarrow> loader \<Rightarrow> nat \<Rightarrow> nat \<Rightarrow> request \<Rightarrow> bool \<Rightarrow> (page_bundle \<times> log_line list) option" where
  "load_document ext ld i g rq force =
     (let rq' = (if force then revalidate rq else rq); requested = url_str (rq_url rq')
      in case ld_document ld rq' of
           Inl e \<Rightarrow>
             do { html \<leftarrow> (case e of
                    TlsPolicy reason _ \<Rightarrow>
                      do { u \<leftarrow> url_parse ext requested; Some (tls_refused_html ext (ld_reason_text ld) u reason) }
                  | OtherError d \<Rightarrow> Some (error_html d));
                  Some (\<lparr>pb_tab = i, pb_generation = g, pb_resolved_url = requested, pb_source = Html html [],
                         pb_outcome = OutError\<rparr>,
                        [(S ''error'', S ''net'', requested @ S '' did not load: '' @ debug_of e)]) }
         | Inr (resolved, bs) \<Rightarrow>
             do { _ \<leftarrow> url_parse ext resolved;
                  let (html, outcome, warn) =
                    (if bs = [] then (EMPTY_HTML, OutWarning,
                        [(S ''warn'', S ''net'', S ''the server returned an empty body'')])
                     else (decode_body (ld_codecs ld) bs, OutReady, []));
                  let ((scripts, final), notes) = fetch_scripts ext ld force (script_urls ext ld html resolved) [] outcome;
                  Some (\<lparr>pb_tab = i, pb_generation = g, pb_resolved_url = resolved, pb_source = Html html scripts,
                         pb_outcome = final\<rparr>,
                        (S ''info'', S ''net'', S ''loaded '' @ resolved @ S '', '' @ dec (length bs) @ S '' bytes'')
                          # warn @ notes) })"

definition fetch_page ::
  "net_ext \<Rightarrow> loader \<Rightarrow> nat \<Rightarrow> nat \<Rightarrow> request \<Rightarrow> bool \<Rightarrow> (page_bundle \<times> log_line list) option" where
  "fetch_page ext ld i g rq0 force =
     (let rq = (if is_browser (rq_initiator rq0)
                then rq0\<lparr>rq_initiator := policy_browser ext (rq_url rq0)\<rparr> else rq0);
          u = rq_url rq;
          bundle = (\<lambda>source outcome. \<lparr>pb_tab = i, pb_generation = g, pb_resolved_url = url_str u,
             pb_source = source, pb_outcome = outcome\<rparr>);
          first = (S ''info'', S ''nav'', S ''navigating to '' @ url_str u)
      in case html_for (ld_probe ld) (ld_explainer ld) u of
           Some html \<Rightarrow> Some (bundle (Html html []) OutReady, [first])
         | None \<Rightarrow>
             if url_scheme u = S ''about'' then Some (bundle (Html BLANK_HTML []) OutBlank, [first])
             else if url_scheme u = S ''view-source'' then
               (case view_source ext ld (rq_initiator rq) u of
                  ((source, outcome), notes) \<Rightarrow> Some (bundle source outcome, first # notes))
             else do { (p, notes) \<leftarrow> load_document ext ld i g rq force; Some (p, first # notes) })"

section \<open>Text passes through decoding\<close>

lemma looks_like_text_utf8:
  assumes "list_all scalar_value s" and "0 \<notin> set s"
  shows "looks_like_text (utf8 s)"
proof -
  let ?w = "take 512 (utf8 s)"
  have "0 \<notin> set (utf8 s)" using zero_byte_utf8 [OF _ assms(1)] assms(2) by blast
  then have "0 \<notin> set ?w" by (auto dest: in_set_takeD)
  then have "from_utf8 ?w = Some t \<Longrightarrow> 0 \<notin> set t" for t
    using utf8_lossy_zero [of ?w] by (auto simp: from_utf8_def split: if_splits)
  moreover have "length ?w - 4 \<le> utf8_valid_up_to ?w"
    using valid_up_to_take [OF assms(1), of 512] by simp
  ultimately show ?thesis by (auto simp: looks_like_text_def Let_def split: option.split)
qed

text \<open>
  Text that arrives as UTF-8 is shown as it is: for every string without a NUL, decoding its bytes gives the
  string back, whatever the decompressors would make of them. The window of 512 bytes the sniffing
  looks at may cut a character without the text being taken for compressed data.
\<close>

theorem decode_body_text:
  assumes "list_all scalar_value s" and "0 \<notin> set s"
  shows "decode_body cd (utf8 s) = s"
  using looks_like_text_utf8 [OF assms] utf8_lossy_utf8 [OF assms(1)]
  by (simp add: decode_body_def decompress_def)

theorem decode_body_text_witness:
  "decode_body \<lparr>cd_gunzip = (\<lambda>_. None), cd_brotli = (\<lambda>_. Some [1])\<rparr> (utf8 [233, 8212, 128512]) = [233, 8212, 128512]"
  by (rule decode_body_text) (simp_all add: scalar_value_def)

section \<open>The outcome of a load\<close>

lemma max_warning: "max a OutWarning = (if a = OutError then OutError else OutWarning)"
  by (cases a) (auto simp: max_def less_eq_page_outcome_def)

definition script_ok :: "net_ext \<Rightarrow> loader \<Rightarrow> bool \<Rightarrow> url \<Rightarrow> bool" where
  "script_ok ext ld force u \<longleftrightarrow>
     (case ld_script ld (if force then revalidate (request_get ext u) else request_get ext u) of Inl _ \<Rightarrow> False | Inr _ \<Rightarrow> True)"

lemma fetch_scripts_outcome:
  assumes "outcome \<noteq> OutError" and "outcome \<noteq> OutBlank" and "\<And>u. u \<in> fst ` set scripts \<Longrightarrow> script_ok ext ld force u"
    and "fetch_scripts ext ld force us scripts outcome = ((scripts', final), ns)"
  shows "final = (if outcome = OutWarning \<or> (\<exists>u\<in>set us. \<not> script_ok ext ld force u) then OutWarning else OutReady)
    \<and> fst ` set scripts' = fst ` set scripts \<union> {u \<in> set us. script_ok ext ld force u}
    \<and> (distinct (map fst scripts) \<longrightarrow> distinct (map fst scripts'))"
  using assms
proof (induction ext ld force us scripts outcome arbitrary: ns rule: fetch_scripts.induct)
  case (1 ext ld force scripts outcome)
  then show ?case by (cases outcome) auto
next
  case (2 ext ld force u us scripts outcome)
  let ?fin = "if force then revalidate (request_get ext u) else request_get ext u"
  show ?case
  proof (cases "u \<in> fst ` set scripts")
    case True
    then have r: "fetch_scripts ext ld force us scripts outcome = ((scripts', final), ns)"
      using "2.prems"(4) by simp
    have "script_ok ext ld force u" using "2.prems"(3) True by blast
    with "2.IH"(1) [OF True "2.prems"(1,2,3) r] True show ?thesis by auto
  next
    case False
    show ?thesis
    proof (cases "ld_script ld ?fin")
      case (Inr bs)
      then have ok: "script_ok ext ld force u" by (simp add: script_ok_def)
      let ?s = "scripts @ [(u, decode_body (ld_codecs ld) bs)]"
      obtain n where r: "fetch_scripts ext ld force us ?s outcome = ((scripts', final), n)"
        using "2.prems"(4) False Inr by (auto simp: Let_def split: prod.splits)
      have "\<And>v. v \<in> fst ` set ?s \<Longrightarrow> script_ok ext ld force v" using ok "2.prems"(3) by auto
      with "2.IH"(3) [OF False refl refl Inr "2.prems"(1,2) _ r] ok False show ?thesis by auto
    next
      case (Inl e)
      then have bad: "\<not> script_ok ext ld force u" by (simp add: script_ok_def)
      obtain n where r: "fetch_scripts ext ld force us scripts (max outcome OutWarning) = ((scripts', final), n)"
        using "2.prems"(4) False Inl by (auto simp: Let_def split: prod.splits)
      have w: "max outcome OutWarning = OutWarning" using "2.prems"(1) by (simp add: max_warning)
      from "2.IH"(2) [OF False refl refl Inl _ _ "2.prems"(3) r] bad w show ?thesis by auto
    qed
  qed
qed

definition document_request :: "net_ext \<Rightarrow> bool \<Rightarrow> request \<Rightarrow> request" where
  "document_request ext force rq =
     (let initiated = (if is_browser (rq_initiator rq) then rq\<lparr>rq_initiator := policy_browser ext (rq_url rq)\<rparr> else rq)
      in if force then revalidate initiated else initiated)"

text \<open>
  What the tab indicator says of a page from the network is what happened. The load always returns, for the tab and the
  generation it was asked for; it is an error exactly when the document itself did not arrive, a
  warning exactly when the body was empty or some script the page names could not be fetched, and
  ready otherwise; the scripts handed on are exactly the ones that arrived, each once.
\<close>

theorem load_outcome_faithful:
  assumes ordinary: "html_for (ld_probe ld) (ld_explainer ld) (rq_url rq) = None"
      "url_scheme (rq_url rq) \<noteq> S ''about''" "url_scheme (rq_url rq) \<noteq> S ''view-source''"
    and parse: "url_parse ext (url_str (rq_url rq)) = Some (rq_url rq)"
    and provider: "\<And>r a bs. ld_document ld r = Inr (a, bs) \<Longrightarrow> url_parse ext a \<noteq> None"
  shows "\<exists>p ns. fetch_page ext ld i g rq force = Some (p, ns) \<and> pb_tab p = i \<and> pb_generation p = g
    \<and> (case ld_document ld (document_request ext force rq) of
         Inl _ \<Rightarrow> pb_outcome p = OutError
       | Inr (resolved, bs) \<Rightarrow>
           (\<exists>html scripts. pb_source p = Html html scripts \<and> pb_resolved_url p = resolved
              \<and> pb_outcome p = (if bs = [] \<or> (\<exists>u\<in>set (script_urls ext ld html resolved). \<not> script_ok ext ld force u)
                                then OutWarning else OutReady)
              \<and> fst ` set scripts = {u \<in> set (script_urls ext ld html resolved). script_ok ext ld force u}
              \<and> distinct (map fst scripts)))"
proof -
  let ?ini = "if is_browser (rq_initiator rq) then rq\<lparr>rq_initiator := policy_browser ext (rq_url rq)\<rparr> else rq"
  let ?fin = "if force then revalidate ?ini else ?ini"
  let ?line = "(S ''info'', S ''nav'', S ''navigating to '' @ url_str (rq_url rq))"
  have dr: "document_request ext force rq = ?fin" by (simp add: document_request_def Let_def)
  have u: "rq_url ?fin = rq_url rq" "rq_url ?ini = rq_url rq" by (simp_all add: revalidate_def)
  have fp: "fetch_page ext ld i g rq force = (load_document ext ld i g ?ini force \<bind> (\<lambda>(p, ns). Some (p, ?line # ns)))"
    using ordinary unfolding fetch_page_def Let_def u by simp
  show ?thesis
  proof (cases "ld_document ld ?fin")
    case (Inl e)
    have "\<exists>p ns. load_document ext ld i g ?ini force = Some (p, ns) \<and> pb_tab p = i \<and> pb_generation p = g
        \<and> pb_outcome p = OutError"
      unfolding load_document_def Let_def using Inl parse by (cases e) (auto simp: revalidate_def)
    then obtain p ns where "load_document ext ld i g ?ini force = Some (p, ns)" "pb_tab p = i"
      "pb_generation p = g" "pb_outcome p = OutError" by blast
    with fp Inl dr show ?thesis by (intro exI [of _ p] exI [of _ "?line # ns"]) simp
  next
    case (Inr r)
    then obtain resolved bs where r: "ld_document ld ?fin = Inr (resolved, bs)" by (cases r) auto
    obtain v where v: "url_parse ext resolved = Some v" using provider [OF r] by blast
    let ?html = "if bs = [] then EMPTY_HTML else decode_body (ld_codecs ld) bs"
    let ?out = "if bs = [] then OutWarning else OutReady"
    obtain scripts final ns' where f:
      "fetch_scripts ext ld force (script_urls ext ld ?html resolved) [] ?out = ((scripts, final), ns')"
      by (metis surj_pair)
    note o = fetch_scripts_outcome [OF _ _ _ f]
    let ?p = "\<lparr>pb_tab = i, pb_generation = g, pb_resolved_url = resolved, pb_source = Html ?html scripts,
                         pb_outcome = final\<rparr>"
    have "\<exists>ns. load_document ext ld i g ?ini force = Some (?p, ns)"
      unfolding load_document_def Let_def using r v f by (cases "bs = []") auto
    then obtain ns where "load_document ext ld i g ?ini force = Some (?p, ns)" by blast
    with fp r dr o show ?thesis by (intro exI [of _ ?p] exI [of _ "?line # ns"]) auto
  qed
qed

definition demo_loader :: loader where
  "demo_loader = \<lparr>ld_codecs = \<lparr>cd_gunzip = (\<lambda>_. None), cd_brotli = (\<lambda>_. None)\<rparr>, ld_probe = None, ld_explainer = [],
     ld_reason_text = (\<lambda>_. []), ld_fetch = (\<lambda>_. Inr []), ld_document = (\<lambda>rq. Inr (url_str (rq_url rq), [104, 105])),
     ld_script = (\<lambda>_. Inl (OtherError [])), ld_xhtml = (\<lambda>_. False), ld_xhtml_scripts = (\<lambda>_ _. []),
     ld_scan = (\<lambda>_. [(True, Some (S ''x.js''))]), ld_join = (\<lambda>u src. Some (u\<lparr>url_str := src\<rparr>)),
     ld_parse_error = (\<lambda>_. [])\<rparr>"

definition demo_load_net :: net_ext where
  "demo_load_net = demo_ext\<lparr>url_parse := (\<lambda>_. Some (demo_url (S ''a.io'')))\<rparr>"

theorem load_outcome_faithful_witness:
  "\<exists>p ns. fetch_page demo_load_net demo_loader 4 9 (request_get demo_load_net (demo_url (S ''a.io''))) False = Some (p, ns)
     \<and> pb_tab p = 4 \<and> pb_generation p = 9 \<and> pb_outcome p = OutWarning"
proof -
  let ?rq = "request_get demo_load_net (demo_url (S ''a.io''))"
  have q: "rq_url ?rq = demo_url (S ''a.io'')" by (simp add: demo_load_net_def demo_ext_def)
  have h: "html_for (ld_probe demo_loader) (ld_explainer demo_loader) (rq_url ?rq) = None"
    unfolding q by (simp add: html_for_def demo_url_def TLS_REFUSED_WHY_URL_def)
  have p: "url_parse demo_load_net s \<noteq> None" "url_parse demo_load_net s = Some (demo_url (S ''a.io''))" for s
    by (simp_all add: demo_load_net_def)
  have s: "url_scheme (rq_url ?rq) \<noteq> S ''about''" "url_scheme (rq_url ?rq) \<noteq> S ''view-source''"
    unfolding q by (simp_all add: demo_url_def)
  have doc: "ld_document demo_loader r = Inr (url_str (rq_url r), [104, 105])" for r by (simp add: demo_loader_def)
  have bad: "\<exists>u\<in>set (script_urls demo_load_net demo_loader html a). \<not> script_ok demo_load_net demo_loader False u" for html a
    by (simp add: script_urls_def demo_loader_def script_ok_def demo_load_net_def List.map_filter_def)
  from load_outcome_faithful [OF h s, of demo_load_net 4 9 False] p q doc bad show ?thesis by auto
qed

end
