(* ===== verification/Cookie_Table.thy ===== *)
theory Cookie_Table
  imports Utf8
begin

text \<open>
  How the cookie jar is laid out in its table (\<open>snapshot_slices\<close>, \<open>read_durable_snapshot\<close>,
  \<open>apply_durable_snapshot\<close>, \<open>record_durable_snapshot\<close> of \<^verbatim>\<open>src/apps/chuzz/src/cookie_store.rs\<close>).
  The WorkTable crate is a parameter: the fields of \<open>table_ops\<close>, with \<open>table_laws\<close> what the code relies on.
  A Rust \<open>str\<close> is here the list of its bytes. Loops that may not end give \<open>None\<close> when they do not.
\<close>

section \<open>Slices\<close>

definition SNAPSHOT_SLICE :: nat where
  "SNAPSHOT_SLICE = 8 * 1024"

definition is_char_boundary :: "bytes \<Rightarrow> nat \<Rightarrow> bool" where
  "is_char_boundary bs e \<longleftrightarrow> e = 0 \<or> e = length bs \<or> e < length bs \<and> \<not> continuation (unat (bs ! e))"

function char_floor :: "bytes \<Rightarrow> nat \<Rightarrow> nat" where
  "char_floor bs e = (if is_char_boundary bs e then e else char_floor bs (e - 1))"
  by pat_completeness auto
termination
  by (relation "measure snd") (auto simp: is_char_boundary_def)

declare char_floor.simps [simp del]

partial_function (option) snapshot_slices :: "bytes \<Rightarrow> bytes list option" where
  "snapshot_slices rest =
     (if SNAPSHOT_SLICE < length rest
      then let e = char_floor rest SNAPSHOT_SLICE
           in do { tail \<leftarrow> snapshot_slices (drop e rest); Some (take e rest # tail) }
      else Some [rest])"

section \<open>The table\<close>

record 't table_ops =
  tb_select :: "'t \<Rightarrow> nat \<Rightarrow> bytes option"
  tb_upsert :: "'t \<Rightarrow> nat \<Rightarrow> bytes \<Rightarrow> 't \<times> str option" \<comment> \<open>the table after, and the error\<close>
  tb_delete :: "'t \<Rightarrow> nat \<Rightarrow> 't \<times> str option"

text \<open>An operation that reports no error did what it says, and a table is finite.\<close>

definition table_laws :: "('t, 'e) table_ops_scheme \<Rightarrow> bool" where
  "table_laws ops \<longleftrightarrow>
     (\<forall>t i row t'. tb_upsert ops t i row = (t', None) \<longrightarrow> tb_select ops t' = (tb_select ops t)(i \<mapsto> row))
   \<and> (\<forall>t i t'. tb_delete ops t i = (t', None) \<longrightarrow> tb_select ops t' = (tb_select ops t)(i := None))
   \<and> (\<forall>t. finite (dom (tb_select ops t)))"

partial_function (option) read_rows :: "('t, 'e) table_ops_scheme \<Rightarrow> 't \<Rightarrow> nat \<Rightarrow> bytes option" where
  "read_rows ops t i =
     (case tb_select ops t i of
        Some row \<Rightarrow> do { joined \<leftarrow> read_rows ops t (i + 1); Some (row @ joined) }
      | None \<Rightarrow> Some [])"

definition read_durable_snapshot :: "('t, 'e) table_ops_scheme \<Rightarrow> 't \<Rightarrow> bytes option" where
  "read_durable_snapshot ops t = read_rows ops t 0"

fun upsert_slices :: "('t, 'e) table_ops_scheme \<Rightarrow> 't \<Rightarrow> nat \<Rightarrow> bytes list \<Rightarrow> 't \<times> str option" where
  "upsert_slices ops t i [] = (t, None)"
| "upsert_slices ops t i (piece # slices) =
     (case tb_upsert ops t i piece of
        (t', Some error) \<Rightarrow> (t', Some error)
      | (t', None) \<Rightarrow> upsert_slices ops t' (i + 1) slices)"

partial_function (option) delete_stale :: "('t, 'e) table_ops_scheme \<Rightarrow> 't \<Rightarrow> nat \<Rightarrow> ('t \<times> str option) option" where
  "delete_stale ops t stale =
     (case tb_select ops t stale of
        None \<Rightarrow> Some (t, None)
      | Some _ \<Rightarrow>
          (case tb_delete ops t stale of
             (t', Some error) \<Rightarrow> Some (t', Some error)
           | (t', None) \<Rightarrow> delete_stale ops t' (stale + 1)))"

definition apply_durable_snapshot :: "('t, 'e) table_ops_scheme \<Rightarrow> 't \<Rightarrow> bytes \<Rightarrow> ('t \<times> str option) option" where
  "apply_durable_snapshot ops t snapshot =
     do { slices \<leftarrow> snapshot_slices snapshot;
          (case upsert_slices ops t 0 slices of
             (t', Some error) \<Rightarrow> Some (t', Some error)
           | (t', None) \<Rightarrow> delete_stale ops t' (length slices)) }"

definition record_durable_snapshot ::
  "('t, 'e) table_ops_scheme \<Rightarrow> 't \<Rightarrow> bytes option \<Rightarrow> str option \<Rightarrow> ('t \<times> str option) option" where
  "record_durable_snapshot ops t snapshot first_error =
     (case snapshot of
        None \<Rightarrow> Some (t, first_error)
      | Some s \<Rightarrow>
          do { (t', error) \<leftarrow> apply_durable_snapshot ops t s;
               Some (t', if first_error = None then error else first_error) })"

section \<open>Character boundaries\<close>

lemma utf8_char_shape:
  assumes "scalar_value c"
  shows "\<not> continuation (unat (hd (utf8_char c)))" and "\<forall>b\<in>set (tl (utf8_char c)). continuation (unat b)"
proof -
  have *: "128 + n mod 64 < 256" "n < 2048 \<Longrightarrow> 192 + n div 64 < 256" "n < 65536 \<Longrightarrow> 224 + n div 4096 < 256"
    "240 + n mod 8 < 256" for n :: nat
    by (simp_all add: div_less_iff_less_mult)
  show "\<not> continuation (unat (hd (utf8_char c)))"
    using assms by (auto simp: utf8_char_def continuation_def unat_byte * simp del: of_nat_add)
  show "\<forall>b\<in>set (tl (utf8_char c)). continuation (unat b)"
    using assms by (auto simp: utf8_char_def continuation_def unat_byte * simp del: of_nat_add)
qed

lemma boundary_prefix: "list_all scalar_value (a @ b) \<Longrightarrow> is_char_boundary (utf8 (a @ b)) (length (utf8 a))"
proof (cases b)
  case (Cons c b')
  assume "list_all scalar_value (a @ b)"
  then have "\<not> continuation (unat (hd (utf8_char c)))" using utf8_char_shape Cons by simp
  then show ?thesis using Cons
    by (auto simp: is_char_boundary_def nth_append hd_conv_nth)
qed (simp add: is_char_boundary_def)

lemma boundary_is_prefix:
  "list_all scalar_value s \<Longrightarrow> is_char_boundary (utf8 s) e \<Longrightarrow> e \<le> length (utf8 s) \<Longrightarrow>
     \<exists>a b. s = a @ b \<and> e = length (utf8 a)"
proof (induction s arbitrary: e)
  case Nil
  then show ?case by simp
next
  case (Cons c s)
  let ?n = "length (utf8_char c)"
  show ?case
  proof (cases "e < ?n")
    case True
    have "e = 0"
    proof (rule ccontr)
      assume "e \<noteq> 0"
      then have "utf8_char c ! e \<in> set (tl (utf8_char c))"
        using True by (cases "utf8_char c") (auto simp: nth_Cons')
      with utf8_char_shape(2) [of c] Cons.prems(1) have "continuation (unat (utf8_char c ! e))" by simp
      with Cons.prems(2) True \<open>e \<noteq> 0\<close> show False by (auto simp: is_char_boundary_def nth_append)
    qed
    then show ?thesis by - (rule exI [of _ "[]"], simp)
  next
    case False
    then have "is_char_boundary (utf8 s) (e - ?n)"
      using Cons.prems(2,3) by (auto simp: is_char_boundary_def nth_append)
    moreover have "list_all scalar_value s" "e - ?n \<le> length (utf8 s)" using Cons.prems by auto
    ultimately obtain a b where "s = a @ b" "e - ?n = length (utf8 a)" using Cons.IH by blast
    with False show ?thesis by - (rule exI [of _ "c # a"], rule exI [of _ b], simp)
  qed
qed

lemma char_floor_props:
  "is_char_boundary bs (char_floor bs e) \<and> char_floor bs e \<le> e
   \<and> (\<forall>k. char_floor bs e < k \<and> k \<le> e \<longrightarrow> \<not> is_char_boundary bs k)"
proof (induction bs e rule: char_floor.induct)
  case (1 bs e)
  show ?case
  proof (cases "is_char_boundary bs e")
    case True
    then show ?thesis by (auto simp: char_floor.simps [of bs e])
  next
    case False
    then have "e \<noteq> 0" by (auto simp: is_char_boundary_def)
    with 1 [OF False] False show ?thesis
      by (simp add: char_floor.simps [of bs e]) (metis Suc_pred le_SucE le_SucI neq0_conv)
  qed
qed

lemma prefix_near:
  "n \<le> length (utf8 s) \<Longrightarrow> \<exists>a b. s = a @ b \<and> length (utf8 a) \<le> n \<and> n \<le> length (utf8 a) + 3"
proof (induction s arbitrary: n)
  case (Cons c s)
  have l: "length (utf8_char c) \<le> 4" using utf8_char_length by simp
  show ?case
  proof (cases "length (utf8_char c) \<le> n")
    case True
    then have "n - length (utf8_char c) \<le> length (utf8 s)" using Cons.prems by simp
    from Cons.IH [OF this] obtain a b where "s = a @ b" "length (utf8 a) \<le> n - length (utf8_char c)"
      "n - length (utf8_char c) \<le> length (utf8 a) + 3" by blast
    with True show ?thesis by - (rule exI [of _ "c # a"], rule exI [of _ b], auto)
  next
    case False
    with l show ?thesis by - (rule exI [of _ "[]"], simp)
  qed
qed simp

lemma char_floor_utf8:
  assumes "list_all scalar_value s" and "n \<le> length (utf8 s)"
  obtains a b where "s = a @ b" "char_floor (utf8 s) n = length (utf8 a)" "length (utf8 a) \<le> n" "n \<le> length (utf8 a) + 3"
proof -
  let ?e = "char_floor (utf8 s) n"
  note f = char_floor_props [of "utf8 s" n]
  then have "?e \<le> length (utf8 s)" using assms(2) by linarith
  then obtain a b where ab: "s = a @ b" "?e = length (utf8 a)" using boundary_is_prefix [OF assms(1)] f by blast
  obtain a' b' where near: "s = a' @ b'" "length (utf8 a') \<le> n" "n \<le> length (utf8 a') + 3"
    using prefix_near [OF assms(2)] by blast
  have "is_char_boundary (utf8 s) (length (utf8 a'))" using boundary_prefix assms(1) near(1) by simp
  with f near have "length (utf8 a') \<le> ?e" by (meson not_le)
  with f ab near show ?thesis by (intro that [of a b]) simp_all
qed

lemma utf8_concat: "concat (map utf8 ps) = utf8 (concat ps)"
  by (induction ps) simp_all

section \<open>Slicing returns\<close>

lemma snapshot_slices_utf8:
  "list_all scalar_value s \<Longrightarrow>
     \<exists>ps. snapshot_slices (utf8 s) = Some (map utf8 ps) \<and> concat ps = s \<and> ps \<noteq> []
        \<and> (\<forall>p\<in>set ps. length (utf8 p) \<le> SNAPSHOT_SLICE)
        \<and> (\<forall>p\<in>set (butlast ps). SNAPSHOT_SLICE \<le> length (utf8 p) + 3)"
proof (induction "length (utf8 s)" arbitrary: s rule: less_induct)
  case less
  show ?case
  proof (cases "SNAPSHOT_SLICE < length (utf8 s)")
    case False
    then show ?thesis by (intro exI [of _ "[s]"]) (simp add: snapshot_slices.simps)
  next
    case True
    obtain a b where ab: "s = a @ b" "char_floor (utf8 s) SNAPSHOT_SLICE = length (utf8 a)"
      "length (utf8 a) \<le> SNAPSHOT_SLICE" "SNAPSHOT_SLICE \<le> length (utf8 a) + 3"
      using char_floor_utf8 [OF less.prems, of SNAPSHOT_SLICE] True by auto
    have "0 < length (utf8 a)" using ab(4) unfolding SNAPSHOT_SLICE_def by linarith
    with ab(1) have "length (utf8 b) < length (utf8 s)" by simp
    moreover have "list_all scalar_value b" using less.prems ab(1) by simp
    ultimately obtain ps where ps: "snapshot_slices (utf8 b) = Some (map utf8 ps)" "concat ps = b" "ps \<noteq> []"
      "\<forall>p\<in>set ps. length (utf8 p) \<le> SNAPSHOT_SLICE" "\<forall>p\<in>set (butlast ps). SNAPSHOT_SLICE \<le> length (utf8 p) + 3"
      using less.hyps by blast
    have "snapshot_slices (utf8 s) = Some (map utf8 (a # ps))"
      using True ab(1,2) ps(1) by (subst snapshot_slices.simps) simp
    with ab ps show ?thesis by (intro exI [of _ "a # ps"]) simp
  qed
qed

section \<open>Writing and reading\<close>

lemma upsert_laws:
  "table_laws ops \<Longrightarrow> tb_upsert ops t i row = (t', None) \<Longrightarrow> tb_select ops t' = (tb_select ops t)(i \<mapsto> row)"
  "table_laws ops \<Longrightarrow> tb_delete ops t i = (t', None) \<Longrightarrow> tb_select ops t' = (tb_select ops t)(i := None)"
  "table_laws ops \<Longrightarrow> finite (dom (tb_select ops t))"
  by (auto simp: table_laws_def)

text \<open>The rows of a table as a function of the slices written from some row on.\<close>

definition overlay :: "(nat \<rightharpoonup> bytes) \<Rightarrow> nat \<Rightarrow> bytes list \<Rightarrow> nat \<rightharpoonup> bytes" where
  "overlay m i rows = (\<lambda>k. if i \<le> k \<and> k < i + length rows then Some (rows ! (k - i)) else m k)"

lemma overlay_Nil [simp]: "overlay m i [] = m"
  by (auto simp: overlay_def fun_eq_iff)

lemma overlay_Cons: "overlay m i (r # rows) = overlay (m(i \<mapsto> r)) (i + 1) rows"
  by (auto simp: overlay_def fun_eq_iff nth_Cons' Suc_diff_Suc)

lemma upsert_slices_select:
  "table_laws ops \<Longrightarrow> upsert_slices ops t i rows = (t', None) \<Longrightarrow> tb_select ops t' = overlay (tb_select ops t) i rows"
proof (induction ops t i rows rule: upsert_slices.induct)
  case (2 ops t i r rows)
  obtain t1 where t1: "tb_upsert ops t i r = (t1, None)"
    using "2.prems"(2) by (auto split: prod.splits option.splits)
  with "2.prems"(2) have "upsert_slices ops t1 (i + 1) rows = (t', None)" by simp
  from "2.IH" [OF t1 [symmetric] refl "2.prems"(1) this] upsert_laws(1) [OF "2.prems"(1) t1] show ?case
    by (simp only: overlay_Cons)
qed simp

lemma delete_stale_returns:
  "table_laws ops \<Longrightarrow> \<exists>t' e. delete_stale ops t i = Some (t', e)
     \<and> (e = None \<longrightarrow> (\<exists>n\<ge>i. tb_select ops t n = None
          \<and> tb_select ops t' = (\<lambda>k. if i \<le> k \<and> k < n then None else tb_select ops t k)))"
proof (induction "card (dom (tb_select ops t))" arbitrary: t i rule: less_induct)
  case less
  show ?case
  proof (cases "tb_select ops t i")
    case None
    then show ?thesis by (subst delete_stale.simps) (auto intro!: exI [of _ i] simp: fun_eq_iff)
  next
    case (Some row)
    show ?thesis
    proof (cases "snd (tb_delete ops t i)")
      case None
      then obtain t1 where t1: "tb_delete ops t i = (t1, None)" by (cases "tb_delete ops t i") simp
      note sel = upsert_laws(2) [OF less.prems t1]
      have "i \<in> dom (tb_select ops t)" using Some by blast
      then have "card (dom (tb_select ops t1)) < card (dom (tb_select ops t))"
        using card_Diff1_less [OF upsert_laws(3) [OF less.prems]] by (simp add: sel)
      from less.hyps [OF this less.prems, of "i + 1"] obtain t' e where
        r: "delete_stale ops t1 (i + 1) = Some (t', e)" and
        k: "e = None \<Longrightarrow> \<exists>n\<ge>i + 1. tb_select ops t1 n = None
          \<and> tb_select ops t' = (\<lambda>k. if i + 1 \<le> k \<and> k < n then None else tb_select ops t1 k)" by blast
      have "delete_stale ops t i = Some (t', e)" using Some t1 r by (subst delete_stale.simps) simp
      moreover have "\<exists>n\<ge>i. tb_select ops t n = None
          \<and> tb_select ops t' = (\<lambda>k. if i \<le> k \<and> k < n then None else tb_select ops t k)" if "e = None"
        using k [OF that] unfolding sel
        by (elim exE conjE) (rule_tac x = n in exI, auto simp: fun_eq_iff split: if_splits)
      ultimately show ?thesis by blast
    next
      case (Some error)
      with \<open>tb_select ops t i = Some row\<close> show ?thesis
        by (subst delete_stale.simps) (cases "tb_delete ops t i", simp)
    qed
  qed
qed

lemma read_rows_at:
  assumes "\<And>k. k < length rows \<Longrightarrow> tb_select ops t (i + k) = Some (rows ! k)"
    and "tb_select ops t (i + length rows) = None"
  shows "read_rows ops t i = Some (concat rows)"
  using assms
proof (induction rows arbitrary: i)
  case Nil
  then show ?case by (subst read_rows.simps) simp
next
  case (Cons r rows)
  have "read_rows ops t (i + 1) = Some (concat rows)"
  proof (rule Cons.IH)
    show "tb_select ops t (i + 1 + k) = Some (rows ! k)" if "k < length rows" for k
      using Cons.prems(1) [of "Suc k"] that by simp
  qed (use Cons.prems(2) in simp)
  moreover have "tb_select ops t i = Some r" using Cons.prems(1) [of 0] by simp
  ultimately show ?case by (subst read_rows.simps) simp
qed

lemma apply_durable_returns:
  assumes laws: "table_laws ops" and s: "list_all scalar_value s"
  shows "\<exists>t' e. apply_durable_snapshot ops t (utf8 s) = Some (t', e)
    \<and> (e = None \<longrightarrow> read_durable_snapshot ops t' = Some (utf8 s)
         \<and> (\<exists>rows. snapshot_slices (utf8 s) = Some rows
              \<and> (\<forall>k<length rows. tb_select ops t' k = Some (rows ! k)) \<and> tb_select ops t' (length rows) = None))"
proof -
  obtain ps where ps: "snapshot_slices (utf8 s) = Some (map utf8 ps)" "concat ps = s"
    using snapshot_slices_utf8 [OF s] by blast
  let ?rows = "map utf8 ps"
  obtain t1 e1 where u: "upsert_slices ops t 0 ?rows = (t1, e1)" by (rule prod.exhaust)
  show ?thesis
  proof (cases e1)
    case (Some error)
    then show ?thesis using ps u by (simp add: apply_durable_snapshot_def)
  next
    case None
    with u have sel: "tb_select ops t1 = overlay (tb_select ops t) 0 ?rows"
      using upsert_slices_select [OF laws] by simp
    obtain t2 e2 where d: "delete_stale ops t1 (length ?rows) = Some (t2, e2)"
      "e2 = None \<Longrightarrow> \<exists>n\<ge>length ?rows. tb_select ops t1 n = None
          \<and> tb_select ops t2 = (\<lambda>k. if length ?rows \<le> k \<and> k < n then None else tb_select ops t1 k)"
      using delete_stale_returns [OF laws, of t1 "length ?rows"] by blast
    have r: "apply_durable_snapshot ops t (utf8 s) = Some (t2, e2)"
      using ps u None d(1) by (simp add: apply_durable_snapshot_def)
    have rows: "(\<forall>k<length ?rows. tb_select ops t2 k = Some (?rows ! k)) \<and> tb_select ops t2 (length ?rows) = None"
      if "e2 = None" using d(2) [OF that] by (auto simp: sel overlay_def)
    have "read_durable_snapshot ops t2 = Some (utf8 s)" if "e2 = None"
      unfolding read_durable_snapshot_def
      using read_rows_at [of ?rows ops t2 0] rows [OF that] ps(2) by (auto simp: utf8_concat)
    with r rows ps show ?thesis by blast
  qed
qed

section \<open>What the table keeps\<close>

text \<open>
  Slicing a jar always returns. The slices joined are the jar, each is whole characters of at
  most 8192 bytes, and each but the last is within three bytes of that. The loop cuts at character boundaries, and
  because a character has at most four bytes it always moves forward.
\<close>

theorem snapshot_slices_return:
  assumes "list_all scalar_value s"
  shows "\<exists>ps. snapshot_slices (utf8 s) = Some (map utf8 ps) \<and> concat ps = s
    \<and> (\<forall>p\<in>set ps. length (utf8 p) \<le> 8192) \<and> (\<forall>p\<in>set (butlast ps). 8189 \<le> length (utf8 p))"
proof -
  obtain ps where ps: "snapshot_slices (utf8 s) = Some (map utf8 ps)" "concat ps = s"
    "\<And>p. p \<in> set ps \<Longrightarrow> length (utf8 p) \<le> SNAPSHOT_SLICE"
    "\<And>p. p \<in> set (butlast ps) \<Longrightarrow> SNAPSHOT_SLICE \<le> length (utf8 p) + 3"
    using snapshot_slices_utf8 [OF assms] by blast
  have "8189 \<le> length (utf8 p)" if "p \<in> set (butlast ps)" for p
    using ps(4) [OF that] unfolding SNAPSHOT_SLICE_def by linarith
  then show ?thesis using ps(1,2,3) unfolding SNAPSHOT_SLICE_def by (intro exI [of _ ps]) simp
qed

theorem snapshot_slices_return_witness:
  "\<exists>ps. snapshot_slices (utf8 (replicate 3000 8212)) = Some (map utf8 ps) \<and> concat ps = replicate 3000 8212
    \<and> list_all (\<lambda>p. length (utf8 p) \<le> 8192) ps"
proof -
  have "list_all scalar_value (replicate 3000 8212)" by (simp add: list_all_iff scalar_value_def)
  from snapshot_slices_return [OF this] show ?thesis by (auto simp: list_all_iff)
qed

text \<open>
  Writing a jar over any earlier one returns, and if the table reported no error, reading gives back exactly the jar
  that was written: a longer earlier jar leaves nothing behind, and the rows are the slices in order.
\<close>

theorem durable_snapshot_round_trip:
  assumes "table_laws ops" and "list_all scalar_value s"
  shows "\<exists>t' e. apply_durable_snapshot ops t (utf8 s) = Some (t', e)
    \<and> (e = None \<longrightarrow> read_durable_snapshot ops t' = Some (utf8 s))"
  using apply_durable_returns [OF assms, of t] by blast

definition list_table :: "(nat \<times> bytes) list table_ops" where
  "list_table = \<lparr>tb_select = map_of, tb_upsert = (\<lambda>t i row. ((i, row) # t, None)),
     tb_delete = (\<lambda>t i. (filter (\<lambda>(k, _). k \<noteq> i) t, None))\<rparr>"

lemma list_table_laws: "table_laws list_table"
proof -
  have "map_of (filter (\<lambda>(k, _). k \<noteq> i) t) = (map_of t)(i := None)" for i :: nat and t :: "(nat \<times> bytes) list"
    by (induction t) (auto simp: fun_eq_iff)
  then show ?thesis by (simp add: table_laws_def list_table_def finite_dom_map_of)
qed

theorem durable_snapshot_round_trip_witness:
  "\<exists>t'. apply_durable_snapshot list_table [(0, [1]), (1, [2]), (2, [3])] (utf8 [233, 65]) = Some (t', None)
     \<and> read_durable_snapshot list_table t' = Some (utf8 [233, 65])"
proof -
  have s: "list_all scalar_value [233, 65]" by (simp add: scalar_value_def)
  have "snapshot_slices (utf8 [233, 65]) = Some [utf8 [233, 65]]"
    by (subst snapshot_slices.simps) (simp add: SNAPSHOT_SLICE_def utf8_char_def)
  then have "apply_durable_snapshot list_table [(0, [1]), (1, [2]), (2, [3])] (utf8 [233, 65]) = Some ([(0, utf8 [233, 65]), (0, [1])], None)"
    by (simp add: apply_durable_snapshot_def list_table_def delete_stale.simps)
  with durable_snapshot_round_trip [OF list_table_laws s, of "[(0, [1]), (1, [2]), (2, [3])]"] show ?thesis by auto
qed

end
