(* ===== verification/Cookie_Persist.thy ===== *)
theory Cookie_Persist
  imports Cookie_Table
begin

text \<open>
  The writer of the cookie jar (\<open>CookiePersistence\<close> and \<open>run_persistence\<close> of
  \<^verbatim>\<open>src/apps/chuzz/src/cookie_store.rs\<close>): clients publish snapshots and ask for flushes under one
  lock, a single task debounces the snapshots, serves the requests in order and answers them. The state holds what
  the clients and the task share and the locals of the task; the task is between two turns of
  its loop (\<open>wk_action = None\<close>) or carries out the action it chose under the lock. An \<open>Arc\<close> of a command is
  its number. \<open>None\<close> is a panic, or a table operation that does not return.
\<close>

section \<open>State\<close>

datatype cookie_store_error = Open str | Codec str | Table str | Persistence str

fun error_text :: "cookie_store_error \<Rightarrow> str" where
  "error_text (Open e) = S ''could not open cookie store: '' @ e"
| "error_text (Codec e) = S ''could not encode cookie snapshot: '' @ e"
| "error_text (Table e) = S ''cookie table mutation failed: '' @ e"
| "error_text (Persistence e) = S ''cookie persistence worker failed: '' @ e"

record 't writer_ops = "'t table_ops" +
  tb_wait_for_ops :: "'t \<Rightarrow> str option"
  tb_close :: "'t \<Rightarrow> str option"

record command =
  cm_id :: nat
  cm_snapshot :: "str option"
  cm_close :: bool

datatype persistence_action = Command command | Snapshot str | Debounce nat | Wait | Close

record 't persistence =
  pd_queue :: "command list"
  pd_snapshot :: "str option"
  pd_generation :: nat
  pd_open :: bool
  pd_changed :: bool \<comment> \<open>the permit of the \<open>Notify\<close>\<close>
  pd_commands :: nat
  pd_answers :: "nat \<rightharpoonup> str + unit"
  wk_table :: 't
  wk_table_open :: bool
  wk_first_error :: "str option"
  wk_due :: "nat option"
  wk_action :: "persistence_action option"
  wk_done :: bool

definition start :: "'t \<Rightarrow> 't persistence" where
  "start t = \<lparr>pd_queue = [], pd_snapshot = None, pd_generation = 0, pd_open = True, pd_changed = False,
     pd_commands = 0, pd_answers = (\<lambda>_. None), wk_table = t, wk_table_open = True, wk_first_error = None,
     wk_due = None, wk_action = None, wk_done = False\<rparr>"

section \<open>What clients do\<close>

definition RING :: nat where
  "RING = 128"

definition stopped :: cookie_store_error where
  "stopped = Persistence (S ''cookie persistence worker stopped'')"

definition enqueue :: "str \<Rightarrow> 't persistence \<Rightarrow> ('t persistence \<times> (cookie_store_error + unit)) option" where
  "enqueue snapshot p =
     (if \<not> pd_open p then Some (p, Inl stopped)
      else do { g \<leftarrow> checked_add (pd_generation p) 1;
                Some (p\<lparr>pd_generation := g, pd_snapshot := Some snapshot, pd_changed := True\<rparr>, Inr ()) })"

definition request :: "bool \<Rightarrow> 't persistence \<Rightarrow> 't persistence \<times> (cookie_store_error + command)" where
  "request close p =
     (if \<not> pd_open p then (p, Inl stopped)
      else
        let command = \<lparr>cm_id = pd_commands p, cm_snapshot = pd_snapshot p, cm_close = close\<rparr>
        in if length (pd_queue p) = RING
           then (p, Inl (Persistence (S ''cookie persistence request queue is full'')))
           else (p\<lparr>pd_queue := pd_queue p @ [command], pd_commands := pd_commands p + 1, pd_snapshot := None,
                   pd_open := (if close then False else pd_open p), pd_changed := True\<rparr>, Inr command))"

definition request_flush :: "'t persistence \<Rightarrow> 't persistence \<times> (cookie_store_error + command)" where
  "request_flush p = request False p"

definition drop_persistence :: "'t persistence \<Rightarrow> 't persistence" where
  "drop_persistence p = p\<lparr>pd_open := False, pd_changed := True\<rparr>"

text \<open>What \<open>wait_for_reply\<close> returns once the command is answered.\<close>

definition reply :: "'t persistence \<Rightarrow> command \<Rightarrow> (cookie_store_error + unit) option" where
  "reply p c = map_option (map_sum Persistence id) (pd_answers p (cm_id c))"

section \<open>What the task does\<close>

definition choose_action :: "'t persistence \<Rightarrow> 't persistence" where
  "choose_action p =
     (case pd_queue p of
        c # queue \<Rightarrow> p\<lparr>pd_queue := queue, wk_action := Some (Command c)\<rparr>
      | [] \<Rightarrow>
          (case pd_snapshot p of
             Some s \<Rightarrow>
               if \<not> pd_open p \<or> wk_due p = Some (pd_generation p)
               then p\<lparr>pd_snapshot := None, wk_action := Some (Snapshot s)\<rparr>
               else p\<lparr>wk_action := Some (Debounce (pd_generation p))\<rparr>
           | None \<Rightarrow> p\<lparr>wk_action := Some (if \<not> pd_open p then Close else Wait)\<rparr>))"

definition answer_of :: "str option \<Rightarrow> str option \<Rightarrow> str + unit" where
  "answer_of first_error result =
     (case first_error of Some e \<Rightarrow> Inl e | None \<Rightarrow> (case result of Some e \<Rightarrow> Inl e | None \<Rightarrow> Inr ()))"

definition serve_command :: "('t, 'e) writer_ops_scheme \<Rightarrow> command \<Rightarrow> 't persistence \<Rightarrow> 't persistence option" where
  "serve_command ops c p =
     (if \<not> wk_table_open p then None
      else do { (t, e) \<leftarrow> record_durable_snapshot ops (wk_table p) (map_option utf8 (cm_snapshot c)) (wk_first_error p);
                let result = (if cm_close c then tb_close ops t else tb_wait_for_ops ops t);
                Some (p\<lparr>wk_table := t, wk_first_error := e,
                  wk_table_open := (if cm_close c then False else wk_table_open p),
                  pd_answers := (pd_answers p)(cm_id c \<mapsto> answer_of e result), wk_due := None,
                  wk_action := None, wk_done := cm_close c\<rparr>) })"

definition write_snapshot :: "('t, 'e) writer_ops_scheme \<Rightarrow> str \<Rightarrow> 't persistence \<Rightarrow> 't persistence option" where
  "write_snapshot ops s p =
     (if \<not> wk_table_open p then None
      else do { (t, e) \<leftarrow> record_durable_snapshot ops (wk_table p) (Some (utf8 s)) (wk_first_error p);
                Some (p\<lparr>wk_table := t, wk_first_error := e, wk_due := None, wk_action := None\<rparr>) })"

definition close_table :: "'t persistence \<Rightarrow> 't persistence option" where
  "close_table p =
     (if \<not> wk_table_open p then None else Some (p\<lparr>wk_table_open := False, wk_action := None, wk_done := True\<rparr>))"

definition notified :: "'t persistence \<Rightarrow> 't persistence" where
  "notified p = p\<lparr>pd_changed := False, wk_due := (if wk_action p = Some Wait then wk_due p else None), wk_action := None\<rparr>"

definition timed_out :: "nat \<Rightarrow> 't persistence \<Rightarrow> 't persistence" where
  "timed_out g p = p\<lparr>wk_due := Some g, wk_action := None\<rparr>"

text \<open>
  The loop body cut where the task gives up control: it takes the lock, or carries out what it chose, or
  is woken, or its timer runs out.
\<close>

inductive worker :: "('t, 'e) writer_ops_scheme \<Rightarrow> 't persistence \<Rightarrow> 't persistence option \<Rightarrow> bool" for ops where
  choose: "wk_action p = None \<Longrightarrow> \<not> wk_done p \<Longrightarrow> worker ops p (Some (choose_action p))"
| command: "wk_action p = Some (Command c) \<Longrightarrow> worker ops p (serve_command ops c p)"
| snapshot: "wk_action p = Some (Snapshot s) \<Longrightarrow> worker ops p (write_snapshot ops s p)"
| close: "wk_action p = Some Close \<Longrightarrow> worker ops p (close_table p)"
| woken: "wk_action p = Some Wait \<Longrightarrow> pd_changed p \<Longrightarrow> worker ops p (Some (notified p))"
| changed: "wk_action p = Some (Debounce g) \<Longrightarrow> pd_changed p \<Longrightarrow> worker ops p (Some (notified p))"
| elapsed: "wk_action p = Some (Debounce g) \<Longrightarrow> worker ops p (Some (timed_out g p))"

inductive_cases workerE: "worker ops p q"

text \<open>
  The states clients and task reach together, with the snapshot published last and, for each command, the
  snapshot that was published last when it was made.
\<close>

inductive served :: "('t, 'e) writer_ops_scheme \<Rightarrow> 't \<Rightarrow> str \<Rightarrow> 't persistence \<Rightarrow> str \<Rightarrow> (nat \<rightharpoonup> str) \<Rightarrow> bool"
  for ops t0 s0 where
  start: "served ops t0 s0 (start t0) s0 (\<lambda>_. None)"
| enqueue: "served ops t0 s0 p latest due \<Longrightarrow> list_all scalar_value s \<Longrightarrow> enqueue s p = Some (p', r) \<Longrightarrow>
    served ops t0 s0 p' (case r of Inr _ \<Rightarrow> s | Inl _ \<Rightarrow> latest) due"
| request: "served ops t0 s0 p latest due \<Longrightarrow> request close p = (p', r) \<Longrightarrow>
    served ops t0 s0 p' latest (case r of Inr c \<Rightarrow> due(cm_id c \<mapsto> latest) | Inl _ \<Rightarrow> due)"
| drop: "served ops t0 s0 p latest due \<Longrightarrow> served ops t0 s0 (drop_persistence p) latest due"
| worker: "served ops t0 s0 p latest due \<Longrightarrow> worker ops p (Some p') \<Longrightarrow> served ops t0 s0 p' latest due"

section \<open>The invariant\<close>

definition later :: "str \<Rightarrow> str option \<Rightarrow> str" where
  "later d s = (case s of None \<Rightarrow> d | Some x \<Rightarrow> x)"

lemma later_simps [simp]: "later d None = d" "later d (Some x) = x"
  by (simp_all add: later_def)

text \<open>Commands the task still has to answer, and what it is writing outside a command.\<close>

definition acting :: "'t persistence \<Rightarrow> command list" where
  "acting p = (case wk_action p of Some (Command c) \<Rightarrow> [c] | _ \<Rightarrow> []) @ pd_queue p"

definition writing :: "'t persistence \<Rightarrow> str option" where
  "writing p = (case wk_action p of Some (Snapshot s) \<Rightarrow> Some s | _ \<Rightarrow> None)"

text \<open>
  Carrying out the commands one after the other over a table that holds \<open>d\<close> leaves, after each, the
  snapshot it owes, and after all and the snapshot still pending, the one published last.
\<close>

fun chain :: "(nat \<rightharpoonup> str) \<Rightarrow> str \<Rightarrow> command list \<Rightarrow> str option \<Rightarrow> str \<Rightarrow> bool" where
  "chain owed d [] pending latest \<longleftrightarrow> later d pending = latest"
| "chain owed d (c # cs) pending latest \<longleftrightarrow>
     owed (cm_id c) = Some (later d (cm_snapshot c)) \<and> chain owed (later d (cm_snapshot c)) cs pending latest"

definition holds_jar :: "('t, 'e) writer_ops_scheme \<Rightarrow> 't persistence \<Rightarrow> str \<Rightarrow> bool" where
  "holds_jar ops p d \<longleftrightarrow> (wk_first_error p = None \<longrightarrow> read_durable_snapshot ops (wk_table p) = Some (utf8 d))"

definition data_inv :: "('t, 'e) writer_ops_scheme \<Rightarrow> 't persistence \<Rightarrow> str \<Rightarrow> (nat \<rightharpoonup> str) \<Rightarrow> bool" where
  "data_inv ops p latest owed \<longleftrightarrow>
     (\<exists>d. holds_jar ops p d \<and> chain owed (later d (writing p)) (acting p) (pd_snapshot p) latest)"

definition text_inv :: "'t persistence \<Rightarrow> bool" where
  "text_inv p \<longleftrightarrow> (\<forall>s. Some s \<in> {pd_snapshot p, writing p} \<union> cm_snapshot ` set (acting p) \<longrightarrow> list_all scalar_value s)"

definition id_inv :: "'t persistence \<Rightarrow> bool" where
  "id_inv p \<longleftrightarrow> distinct (map cm_id (acting p)) \<and> {i. pd_answers p i \<noteq> None} = {..<pd_commands p} - cm_id ` set (acting p)
     \<and> cm_id ` set (acting p) \<subseteq> {..<pd_commands p}"

definition close_inv :: "'t persistence \<Rightarrow> bool" where
  "close_inv p \<longleftrightarrow> (\<forall>c\<in>set (butlast (acting p)). \<not> cm_close c)
     \<and> (acting p \<noteq> [] \<longrightarrow> cm_close (last (acting p)) \<longrightarrow> \<not> pd_open p \<and> pd_snapshot p = None)"

definition idle :: "'t persistence \<Rightarrow> bool" where
  "idle p \<longleftrightarrow> pd_queue p = [] \<and> pd_snapshot p = None"

definition task_inv :: "'t persistence \<Rightarrow> bool" where
  "task_inv p \<longleftrightarrow> wk_table_open p = (\<not> wk_done p)
     \<and> (wk_done p \<longrightarrow> wk_action p = None \<and> idle p \<and> \<not> pd_open p)
     \<and> (wk_action p = Some Close \<longrightarrow> idle p \<and> \<not> pd_open p)
     \<and> (wk_action p = Some Wait \<and> \<not> pd_changed p \<longrightarrow> idle p \<and> pd_open p)
     \<and> (\<forall>g. wk_action p = Some (Debounce g) \<and> \<not> pd_changed p \<longrightarrow>
          pd_queue p = [] \<and> pd_snapshot p \<noteq> None \<and> pd_open p \<and> pd_generation p = g)"

definition writer_inv :: "('t, 'e) writer_ops_scheme \<Rightarrow> 't persistence \<Rightarrow> str \<Rightarrow> (nat \<rightharpoonup> str) \<Rightarrow> bool" where
  "writer_inv ops p latest owed \<longleftrightarrow>
     data_inv ops p latest owed \<and> text_inv p \<and> id_inv p \<and> close_inv p \<and> task_inv p"

lemmas writer_defs = data_inv_def text_inv_def id_inv_def close_inv_def task_inv_def holds_jar_def idle_def
  acting_def writing_def

lemma in_set_last: "x \<in> set xs \<Longrightarrow> x \<in> set (butlast xs) \<or> x = last xs"
  by (induction xs) auto

lemma chain_enqueue: "chain owed d cs pending latest \<Longrightarrow> chain owed d cs (Some s) s"
  by (induction cs arbitrary: d) auto

lemma chain_owed: "chain owed d cs pending latest \<Longrightarrow> i \<notin> cm_id ` set cs \<Longrightarrow> chain (owed(i \<mapsto> x)) d cs pending latest"
  by (induction cs arbitrary: d) auto

lemma chain_request:
  "chain owed d cs pending latest \<Longrightarrow> i \<notin> cm_id ` set cs \<Longrightarrow>
     chain (owed(i \<mapsto> latest)) d (cs @ [\<lparr>cm_id = i, cm_snapshot = pending, cm_close = b\<rparr>]) None latest"
  by (induction cs arbitrary: d) auto

lemma record_returns:
  assumes "table_laws ops" and "\<And>s. o' = Some s \<Longrightarrow> list_all scalar_value s"
  obtains t' e' where "record_durable_snapshot ops t (map_option utf8 o') e = Some (t', e')"
    "e' = None \<Longrightarrow> e = None"
    "\<And>d. e' = None \<Longrightarrow> read_durable_snapshot ops t = Some (utf8 d) \<Longrightarrow> read_durable_snapshot ops t' = Some (utf8 (later d o'))"
proof (cases o')
  case None
  then show ?thesis by (intro that [of t e]) (simp_all add: record_durable_snapshot_def)
next
  case (Some s)
  obtain t' e2 where "apply_durable_snapshot ops t (utf8 s) = Some (t', e2)"
    "e2 = None \<Longrightarrow> read_durable_snapshot ops t' = Some (utf8 s)"
    using apply_durable_returns [OF assms(1) assms(2) [OF Some], of t] by blast
  with Some show ?thesis
    by (intro that [of t' "if e = None then e2 else e"]) (auto simp: record_durable_snapshot_def split: if_splits)
qed

section \<open>Clients keep the invariant\<close>

lemma start_inv: "read_durable_snapshot ops t0 = Some (utf8 s0) \<Longrightarrow> writer_inv ops (start t0) s0 (\<lambda>_. None)"
  by (simp add: writer_inv_def writer_defs start_def)

lemma drop_inv: "writer_inv ops p latest owed \<Longrightarrow> writer_inv ops (drop_persistence p) latest owed"
  by (auto simp: writer_inv_def writer_defs drop_persistence_def)

lemma enqueue_inv:
  assumes "writer_inv ops p latest owed" and "list_all scalar_value s" and "enqueue s p = Some (p', r)"
  shows "writer_inv ops p' (case r of Inr _ \<Rightarrow> s | Inl _ \<Rightarrow> latest) owed"
proof (cases "pd_open p")
  case False
  then show ?thesis using assms by (auto simp: enqueue_def)
next
  case True
  let ?p = "p\<lparr>pd_generation := pd_generation p + 1, pd_snapshot := Some s, pd_changed := True\<rparr>"
  from True assms(3) have p': "p' = ?p" "r = Inr ()" by (auto simp: enqueue_def bind_eq_Some_conv checked_add_Some)
  have same: "acting ?p = acting p" "writing ?p = writing p" "holds_jar ops ?p = holds_jar ops p"
    by (simp_all add: acting_def writing_def holds_jar_def fun_eq_iff)
  have "data_inv ops ?p s owed" using assms(1) chain_enqueue unfolding writer_inv_def data_inv_def same by fastforce
  moreover have "text_inv ?p" unfolding text_inv_def same using assms(1,2) by (auto simp: writer_inv_def text_inv_def)
  moreover have "id_inv ?p" unfolding id_inv_def same using assms(1) by (simp add: writer_inv_def id_inv_def)
  moreover have "close_inv ?p" unfolding close_inv_def same using assms(1) True by (simp add: writer_inv_def close_inv_def)
  moreover have "task_inv ?p" using assms(1) True by (auto simp: writer_inv_def task_inv_def idle_def)
  ultimately show ?thesis by (simp add: p' writer_inv_def)
qed

lemma request_inv:
  assumes inv: "writer_inv ops p latest owed" and req: "request close p = (p', r)"
  shows "writer_inv ops p' latest (case r of Inr c \<Rightarrow> owed(cm_id c \<mapsto> latest) | Inl _ \<Rightarrow> owed)"
proof (cases "pd_open p \<and> length (pd_queue p) \<noteq> RING")
  case False
  then show ?thesis using assms by (auto simp: request_def Let_def split: if_splits)
next
  case True
  let ?c = "\<lparr>cm_id = pd_commands p, cm_snapshot = pd_snapshot p, cm_close = close\<rparr>"
  let ?p = "p\<lparr>pd_queue := pd_queue p @ [?c], pd_commands := pd_commands p + 1, pd_snapshot := None,
                   pd_open := (if close then False else pd_open p), pd_changed := True\<rparr>"
  from True req have p': "p' = ?p" "r = Inr ?c" by (auto simp: request_def Let_def)
  have act: "acting ?p = acting p @ [?c]" and same: "writing ?p = writing p" "holds_jar ops ?p = holds_jar ops p"
    by (simp_all add: acting_def writing_def holds_jar_def fun_eq_iff)
  have fresh: "pd_commands p \<notin> cm_id ` set (acting p)" using inv by (auto simp: writer_inv_def id_inv_def)
  have "data_inv ops ?p latest (owed(pd_commands p \<mapsto> latest))"
    using inv chain_request [OF _ fresh] unfolding writer_inv_def data_inv_def act same by fastforce
  moreover have "text_inv ?p" unfolding text_inv_def act same using inv by (auto simp: writer_inv_def text_inv_def)
  moreover have "id_inv ?p" using inv fresh unfolding writer_inv_def id_inv_def act by (simp add: lessThan_Suc) blast
  moreover have "close_inv ?p"
  proof -
    have "\<not> cm_close c" if "c \<in> set (acting p)" for c
    proof (cases "c \<in> set (butlast (acting p))")
      case False
      with that have "acting p \<noteq> []" "c = last (acting p)"
        using in_set_last [of c "acting p"] by auto
      with inv True show ?thesis by (auto simp: writer_inv_def close_inv_def)
    qed (use inv in \<open>simp add: writer_inv_def close_inv_def\<close>)
    then show ?thesis unfolding close_inv_def act by auto
  qed
  moreover have "task_inv ?p" using inv True by (auto simp: writer_inv_def task_inv_def idle_def)
  ultimately show ?thesis by (simp add: p' writer_inv_def)
qed

section \<open>The task keeps the invariant and does not panic\<close>

lemma writer_inv_rest:
  "writer_inv ops p latest owed \<Longrightarrow> acting q = acting p \<Longrightarrow> writing q = writing p \<Longrightarrow> pd_snapshot q = pd_snapshot p \<Longrightarrow>
   wk_table q = wk_table p \<Longrightarrow> wk_first_error q = wk_first_error p \<Longrightarrow> pd_answers q = pd_answers p \<Longrightarrow>
   pd_commands q = pd_commands p \<Longrightarrow> pd_open q = pd_open p \<Longrightarrow> task_inv q \<Longrightarrow> writer_inv ops q latest owed"
  by (simp add: writer_inv_def data_inv_def text_inv_def id_inv_def close_inv_def holds_jar_def)

lemma notified_inv:
  assumes "writer_inv ops p latest owed" and "wk_action p = Some Wait \<or> wk_action p = Some (Debounce g)"
  shows "writer_inv ops (notified p) latest owed" and "writer_inv ops (timed_out g p) latest owed"
proof -
  have "task_inv (notified p)" "task_inv (timed_out g p)"
    using assms by (auto simp: writer_inv_def task_inv_def notified_def timed_out_def)
  then show "writer_inv ops (notified p) latest owed" "writer_inv ops (timed_out g p) latest owed"
    using assms(2) by (auto intro!: writer_inv_rest [OF assms(1)] simp: acting_def writing_def notified_def timed_out_def)
qed

lemma choose_inv:
  assumes inv: "writer_inv ops p latest owed" and a: "wk_action p = None" and d: "\<not> wk_done p"
  shows "writer_inv ops (choose_action p) latest owed"
proof (cases "pd_queue p")
  case (Cons c queue)
  let ?p = "p\<lparr>pd_queue := queue, wk_action := Some (Command c)\<rparr>"
  have "task_inv ?p" using inv d by (auto simp: writer_inv_def task_inv_def)
  then show ?thesis using Cons a
    by (simp add: choose_action_def) (rule writer_inv_rest [OF inv], simp_all add: acting_def writing_def)
next
  case Nil
  show ?thesis
  proof (cases "pd_snapshot p")
    case None
    then have c: "choose_action p = p\<lparr>wk_action := Some (if \<not> pd_open p then Close else Wait)\<rparr>"
      using Nil by (simp add: choose_action_def)
    have "task_inv (choose_action p)" using inv d None Nil unfolding c by (auto simp: writer_inv_def task_inv_def idle_def)
    then show ?thesis using a c by (intro writer_inv_rest [OF inv]) (simp_all add: acting_def writing_def)
  next
    case (Some s)
    show ?thesis
    proof (cases "\<not> pd_open p \<or> wk_due p = Some (pd_generation p)")
      case True
      with Nil Some have c: "choose_action p = p\<lparr>pd_snapshot := None, wk_action := Some (Snapshot s)\<rparr>"
        by (simp add: choose_action_def)
      have "task_inv (choose_action p)" using inv d unfolding c by (auto simp: writer_inv_def task_inv_def)
      moreover have "data_inv ops (choose_action p) latest owed" using inv Nil a Some
        unfolding c writer_inv_def data_inv_def holds_jar_def by (auto simp: acting_def writing_def)
      ultimately show ?thesis using inv Nil a Some unfolding c
        by (auto simp: writer_inv_def text_inv_def id_inv_def close_inv_def acting_def writing_def)
    next
      case False
      with Nil Some have c: "choose_action p = p\<lparr>wk_action := Some (Debounce (pd_generation p))\<rparr>"
        by (simp add: choose_action_def)
      have "task_inv (choose_action p)" using inv d Nil Some False unfolding c by (auto simp: writer_inv_def task_inv_def)
      then show ?thesis using a c by (intro writer_inv_rest [OF inv]) (simp_all add: acting_def writing_def)
    qed
  qed
qed

lemma write_inv:
  assumes laws: "table_laws ops" and inv: "writer_inv ops p latest owed" and a: "wk_action p = Some (Snapshot s)"
  obtains q where "write_snapshot ops s p = Some q" "writer_inv ops q latest owed"
proof -
  have ok: "list_all scalar_value s" using inv a by (auto simp: writer_inv_def text_inv_def writing_def)
  obtain t e where r: "record_durable_snapshot ops (wk_table p) (Some (utf8 s)) (wk_first_error p) = Some (t, e)"
    "e = None \<Longrightarrow> wk_first_error p = None"
    "\<And>d. e = None \<Longrightarrow> read_durable_snapshot ops (wk_table p) = Some (utf8 d) \<Longrightarrow> read_durable_snapshot ops t = Some (utf8 s)"
    using record_returns [OF laws, of "Some s" "wk_table p" "wk_first_error p"] ok by auto
  let ?q = "p\<lparr>wk_table := t, wk_first_error := e, wk_due := None, wk_action := None\<rparr>"
  have op: "wk_table_open p" using inv a by (auto simp: writer_inv_def task_inv_def)
  from inv obtain d where d: "holds_jar ops p d" "chain owed s (acting p) (pd_snapshot p) latest"
    using a by (auto simp: writer_inv_def data_inv_def writing_def)
  have "holds_jar ops ?q s" using r(2,3) d(1) by (auto simp: holds_jar_def)
  with d(2) a have "data_inv ops ?q latest owed" by (auto simp: data_inv_def writing_def acting_def)
  moreover have "text_inv ?q" "id_inv ?q" "close_inv ?q" "task_inv ?q" using inv a
    by (auto simp: writer_inv_def writer_defs)
  ultimately have "writer_inv ops ?q latest owed" by (simp add: writer_inv_def)
  moreover have "write_snapshot ops s p = Some ?q" using op r(1) by (simp add: write_snapshot_def)
  ultimately show ?thesis using that by blast
qed

lemma close_inv':
  assumes "writer_inv ops p latest owed" and "wk_action p = Some Close"
  obtains q where "close_table p = Some q" "writer_inv ops q latest owed"
  using assms by (auto simp: writer_inv_def writer_defs close_table_def)

lemma answered_insert: "{i. (f(c \<mapsto> x)) i \<noteq> None} = insert c {i. f i \<noteq> None}"
  by auto

lemma insert_back: "A = N - insert c X \<Longrightarrow> c \<notin> X \<Longrightarrow> insert c X \<subseteq> N \<Longrightarrow> insert c A = N - X"
  by blast

lemma serve_inv:
  assumes laws: "table_laws ops" and inv: "writer_inv ops p latest owed" and a: "wk_action p = Some (Command c)"
  obtains q s where "serve_command ops c p = Some q" "writer_inv ops q latest owed"
    "owed (cm_id c) = Some s" "pd_answers q (cm_id c) = Some (Inr ()) \<Longrightarrow> read_durable_snapshot ops (wk_table q) = Some (utf8 s)"
proof -
  have ok: "\<And>s. cm_snapshot c = Some s \<Longrightarrow> list_all scalar_value s"
    using inv a by (simp add: writer_inv_def text_inv_def acting_def)
  obtain t e where r: "record_durable_snapshot ops (wk_table p) (map_option utf8 (cm_snapshot c)) (wk_first_error p) = Some (t, e)"
    "e = None \<Longrightarrow> wk_first_error p = None"
    "\<And>d. e = None \<Longrightarrow> read_durable_snapshot ops (wk_table p) = Some (utf8 d) \<Longrightarrow>
       read_durable_snapshot ops t = Some (utf8 (later d (cm_snapshot c)))"
    using record_returns [OF laws, of "cm_snapshot c" "wk_table p" "wk_first_error p"] ok by auto
  define res where "res = answer_of e (if cm_close c then tb_close ops t else tb_wait_for_ops ops t)"
  define q where "q = p\<lparr>wk_table := t, wk_first_error := e, wk_table_open := (if cm_close c then False else wk_table_open p),
      pd_answers := (pd_answers p)(cm_id c \<mapsto> res), wk_due := None, wk_action := None, wk_done := cm_close c\<rparr>"
  have op: "wk_table_open p" "\<not> wk_done p" using inv a by (auto simp: writer_inv_def task_inv_def)
  have f: "wk_table q = t" "wk_first_error q = e" "wk_table_open q = (\<not> cm_close c)" "pd_snapshot q = pd_snapshot p"
    "pd_answers q = (pd_answers p)(cm_id c \<mapsto> res)" "wk_action q = None" "wk_done q = cm_close c"
    "pd_commands q = pd_commands p" "pd_open q = pd_open p" "acting q = pd_queue q" "writing q = None"
    using op by (simp_all add: q_def acting_def writing_def)
  have act: "acting p = c # acting q" and nw: "writing p = None" using a by (simp_all add: acting_def writing_def q_def)
  from inv obtain d where d: "holds_jar ops p d" "owed (cm_id c) = Some (later d (cm_snapshot c))"
    "chain owed (later d (cm_snapshot c)) (acting q) (pd_snapshot q) latest"
    unfolding writer_inv_def data_inv_def act f(4) by (auto simp: nw)
  have j: "holds_jar ops q (later d (cm_snapshot c))" using r(2,3) d(1) by (auto simp: holds_jar_def f)
  have "data_inv ops q latest owed" unfolding data_inv_def using j d(3) f(11) by (intro exI [of _ "later d (cm_snapshot c)"]) simp
  moreover have "text_inv q" using inv unfolding writer_inv_def text_inv_def act nw f by auto
  moreover have "id_inv q"
  proof -
    have i: "distinct (map cm_id (acting q))" "cm_id c \<notin> cm_id ` set (acting q)"
      "insert (cm_id c) (cm_id ` set (acting q)) \<subseteq> {..<pd_commands p}"
      "{i. pd_answers p i \<noteq> None} = {..<pd_commands p} - insert (cm_id c) (cm_id ` set (acting q))"
      using inv unfolding writer_inv_def id_inv_def act by simp_all
    have "{i. pd_answers q i \<noteq> None} = insert (cm_id c) {i. pd_answers p i \<noteq> None}"
      unfolding f by (rule answered_insert)
    also have "\<dots> = {..<pd_commands p} - cm_id ` set (acting q)" by (rule insert_back [OF i(4,2,3)])
    finally show ?thesis using i(1,3) unfolding id_inv_def f(8) by simp
  qed
  moreover have "close_inv q" using inv unfolding writer_inv_def close_inv_def act f(4,9) by (auto split: if_splits)
  moreover have "task_inv q"
  proof (cases "cm_close c")
    case True
    then have "acting q = []" using inv unfolding writer_inv_def close_inv_def act by (auto split: if_splits)
    with inv True f show ?thesis unfolding writer_inv_def close_inv_def act by (auto simp: task_inv_def idle_def)
  qed (use f in \<open>simp add: task_inv_def\<close>)
  ultimately have "writer_inv ops q latest owed" by (simp only: writer_inv_def)
  moreover have "serve_command ops c p = Some q" using op r(1) by (simp add: serve_command_def Let_def q_def res_def)
  moreover have "pd_answers q (cm_id c) = Some (Inr ()) \<Longrightarrow> read_durable_snapshot ops (wk_table q) = Some (utf8 (later d (cm_snapshot c)))"
    using j by (auto simp: holds_jar_def answer_of_def f res_def split: option.splits)
  ultimately show ?thesis using that d(2) by blast
qed

lemma worker_inv:
  assumes "table_laws ops" and "writer_inv ops p latest owed" and "worker ops p r"
  shows "\<exists>q. r = Some q \<and> writer_inv ops q latest owed"
  using assms(3)
proof cases
  case choose
  then show ?thesis using choose_inv [OF assms(2)] by simp
next
  case (command c)
  then show ?thesis using serve_inv [OF assms(1,2)] by metis
next
  case (snapshot s)
  then show ?thesis using write_inv [OF assms(1,2)] by metis
next
  case close
  then show ?thesis using close_inv' [OF assms(2)] by metis
next
  case woken
  then show ?thesis using notified_inv [OF assms(2)] by simp
next
  case (changed g)
  then show ?thesis using notified_inv [OF assms(2)] by simp
next
  case (elapsed g)
  then show ?thesis using notified_inv [OF assms(2)] by simp
qed

lemma served_inv:
  assumes "table_laws ops" and "read_durable_snapshot ops t0 = Some (utf8 s0)"
  shows "served ops t0 s0 p latest owed \<Longrightarrow> writer_inv ops p latest owed"
proof (induction rule: served.induct)
  case start
  show ?case by (rule start_inv [OF assms(2)])
next
  case (enqueue p latest owed s p' r)
  then show ?case by (intro enqueue_inv)
next
  case (request p latest owed close p' r)
  then show ?case by (intro request_inv)
next
  case (drop p latest owed)
  then show ?case by (intro drop_inv)
next
  case (worker p latest owed p')
  then show ?case using worker_inv [OF assms(1) worker.IH worker.hyps(2)] by simp
qed

section \<open>The task drains what it was given\<close>

text \<open>The task running alone, the timer running out whenever nothing else can happen.\<close>

definition worker_move :: "('t, 'e) writer_ops_scheme \<Rightarrow> 't persistence \<Rightarrow> 't persistence option" where
  "worker_move ops p =
     (case wk_action p of
        None \<Rightarrow> Some (choose_action p)
      | Some (Command c) \<Rightarrow> serve_command ops c p
      | Some (Snapshot s) \<Rightarrow> write_snapshot ops s p
      | Some Close \<Rightarrow> close_table p
      | Some Wait \<Rightarrow> Some (notified p)
      | Some (Debounce g) \<Rightarrow> Some (if pd_changed p then notified p else timed_out g p))"

definition parked :: "'t persistence \<Rightarrow> bool" where
  "parked p \<longleftrightarrow> wk_done p \<or> wk_action p = Some Wait \<and> \<not> pd_changed p"

fun run_worker :: "('t, 'e) writer_ops_scheme \<Rightarrow> nat \<Rightarrow> 't persistence \<Rightarrow> 't persistence option" where
  "run_worker ops 0 p = Some p"
| "run_worker ops (Suc n) p = (if parked p then Some p else worker_move ops p \<bind> run_worker ops n)"

definition stage :: "'t persistence \<Rightarrow> nat" where
  "stage p = (case wk_action p of
        None \<Rightarrow> if wk_due p = Some (pd_generation p) \<and> pd_snapshot p \<noteq> None then 1 else 3
      | Some (Command _) \<Rightarrow> 4 | Some (Snapshot _) \<Rightarrow> 4 | Some Close \<Rightarrow> 1 | Some Wait \<Rightarrow> 1 | Some (Debounce _) \<Rightarrow> 2)"

definition work_left :: "'t persistence \<Rightarrow> nat" where
  "work_left p = (if wk_done p then 0 else
     6 * length (pd_queue p) + (if pd_snapshot p = None then 0 else 6) + (if pd_changed p then 3 else 0) + stage p)"

lemma move_is_worker: "writer_inv ops p latest owed \<Longrightarrow> \<not> parked p \<Longrightarrow> worker ops p (worker_move ops p)"
  by (auto simp: worker_move_def parked_def split: option.splits persistence_action.splits intro: worker.intros)

lemma work_decreases:
  assumes inv: "writer_inv ops p latest owed" and np: "\<not> parked p" and mv: "worker_move ops p = Some q"
  shows "work_left q < work_left p"
proof -
  have nd: "\<not> wk_done p" using np by (simp add: parked_def)
  show ?thesis
  proof (cases "wk_action p")
    case None
    with mv have "q = choose_action p" by (simp add: worker_move_def)
    with None nd show ?thesis
      by (auto simp: work_left_def stage_def choose_action_def split: list.splits option.splits)
  next
    case (Some a)
    show ?thesis
    proof (cases a)
      case (Debounce g)
      then have "\<not> pd_changed p \<Longrightarrow> pd_generation p = g \<and> pd_snapshot p \<noteq> None"
        using inv Some by (auto simp: writer_inv_def task_inv_def)
      with Some Debounce mv nd show ?thesis
        by (auto simp: worker_move_def work_left_def stage_def notified_def timed_out_def split: if_splits)
    next
      case Wait
      with Some mv nd np show ?thesis
        by (auto simp: worker_move_def work_left_def stage_def notified_def parked_def)
    qed (use Some mv nd in \<open>auto simp: worker_move_def work_left_def stage_def serve_command_def write_snapshot_def
        close_table_def Let_def bind_eq_Some_conv split: if_splits\<close>)
  qed
qed

lemma run_worker_parks:
  assumes "table_laws ops"
  shows "served ops t0 s0 p latest owed \<Longrightarrow> writer_inv ops p latest owed \<Longrightarrow> work_left p \<le> n \<Longrightarrow>
    \<exists>q. run_worker ops n p = Some q \<and> parked q \<and> writer_inv ops q latest owed \<and> served ops t0 s0 q latest owed
      \<and> pd_commands q = pd_commands p"
proof (induction n arbitrary: p)
  case 0
  then show ?case by (auto simp: work_left_def stage_def parked_def split: option.splits persistence_action.splits if_splits)
next
  case (Suc n)
  show ?case
  proof (cases "parked p")
    case True
    with Suc show ?thesis by simp
  next
    case False
    note w = move_is_worker [OF Suc.prems(2) False]
    obtain q where q: "worker_move ops p = Some q" "writer_inv ops q latest owed"
      using worker_inv [OF assms Suc.prems(2) w] by blast
    have "served ops t0 s0 q latest owed" using served.worker Suc.prems(1) w q(1) by metis
    moreover have "work_left q \<le> n" using work_decreases [OF Suc.prems(2) False q(1)] Suc.prems(3) by simp
    moreover have "pd_commands q = pd_commands p" using q(1)
      by (auto simp: worker_move_def serve_command_def write_snapshot_def close_table_def Let_def bind_eq_Some_conv
          choose_action_def notified_def timed_out_def split: option.splits persistence_action.splits list.splits if_splits)
    ultimately show ?thesis using Suc.IH [of q] q False by auto
  qed
qed

section \<open>What the writer guarantees\<close>

lemma settled:
  assumes "writer_inv ops p latest owed" and "parked p"
  shows "(wk_first_error p = None \<longrightarrow> read_durable_snapshot ops (wk_table p) = Some (utf8 latest))
    \<and> idle p \<and> {i. pd_answers p i \<noteq> None} = {..<pd_commands p}"
proof -
  have q: "idle p" "acting p = []" "writing p = None"
    using assms by (auto simp: writer_inv_def task_inv_def parked_def idle_def acting_def writing_def)
  then show ?thesis using assms(1) by (auto simp: writer_inv_def data_inv_def id_inv_def holds_jar_def idle_def)
qed

definition list_writer :: "(nat \<times> bytes) list writer_ops" where
  "list_writer = table_ops.extend list_table \<lparr>tb_wait_for_ops = (\<lambda>_. None), tb_close = (\<lambda>_. None)\<rparr>"

lemma list_writer_laws: "table_laws list_writer" "read_durable_snapshot list_writer [] = Some (utf8 [])"
proof -
  have s: "tb_select list_writer = tb_select list_table" "tb_upsert list_writer = tb_upsert list_table"
    "tb_delete list_writer = tb_delete list_table"
    by (simp_all add: list_writer_def list_table_def table_ops.extend_def)
  show "table_laws list_writer" using list_table_laws unfolding table_laws_def s .
  show "read_durable_snapshot list_writer [] = Some (utf8 [])"
    by (simp add: read_durable_snapshot_def read_rows.simps s) (simp add: list_table_def)
qed

text \<open>
  C9. A flush is a barrier. When the task answers a command without an error, the table holds exactly the
  snapshot that was published last before the command was made: none is lost, and no later one has overtaken it,
  however publishing, flushing and the task's own writes were interleaved.
\<close>

theorem flush_is_a_barrier:
  assumes "table_laws ops" and "read_durable_snapshot ops t0 = Some (utf8 s0)"
    and "served ops t0 s0 p latest owed" and "wk_action p = Some (Command c)"
    and "serve_command ops c p = Some q" and "reply q c = Some (Inr ())"
  shows "\<exists>s. owed (cm_id c) = Some s \<and> read_durable_snapshot ops (wk_table q) = Some (utf8 s)"
proof -
  have a: "pd_answers q (cm_id c) = Some (Inr ())"
    using assms(6) by (cases "pd_answers q (cm_id c)"; cases "the (pd_answers q (cm_id c))") (auto simp: reply_def)
  show ?thesis
    using serve_inv [OF assms(1) served_inv [OF assms(1,2,3)] assms(4)] assms(5) a by (metis option.inject)
qed

text \<open>
  C10. The writer never stalls and never panics. From every reachable state the task, left alone,
  reaches a point where it waits for news or has stopped, within a number of moves that the queue
  bounds; there every command made so far has been answered, nothing is pending, and if no
  table operation has failed the table holds the snapshot published last. No wake-up is lost: whatever arrives
  while the task decides to wait leaves the permit that wakes it.
\<close>

theorem writer_drains:
  assumes "table_laws ops" and "read_durable_snapshot ops t0 = Some (utf8 s0)" and "served ops t0 s0 p latest owed"
  shows "\<exists>q. run_worker ops (work_left p) p = Some q \<and> served ops t0 s0 q latest owed \<and> parked q
    \<and> (\<forall>i<pd_commands p. pd_answers q i \<noteq> None) \<and> pd_queue q = [] \<and> pd_snapshot q = None
    \<and> (wk_first_error q = None \<longrightarrow> read_durable_snapshot ops (wk_table q) = Some (utf8 latest))"
proof -
  obtain q where q: "run_worker ops (work_left p) p = Some q" "parked q" "writer_inv ops q latest owed"
    "served ops t0 s0 q latest owed" "pd_commands q = pd_commands p"
    using run_worker_parks [OF assms(1,3) served_inv [OF assms(1,2,3)] order_refl] by blast
  with settled [OF q(3,2)] have "idle q" "{i. pd_answers q i \<noteq> None} = {..<pd_commands p}"
    "wk_first_error q = None \<longrightarrow> read_durable_snapshot ops (wk_table q) = Some (utf8 latest)" by simp_all
  moreover have "\<forall>i<pd_commands p. pd_answers q i \<noteq> None" using calculation(2) by blast
  ultimately show ?thesis using q by (auto simp: idle_def)
qed

lemma served_demo:
  obtains p where "enqueue (S ''[]'') (start []) = Some (p, Inr ())"
    "served list_writer [] [] p (S ''[]'') (\<lambda>_. None)"
proof -
  obtain p where p: "enqueue (S ''[]'') (start ([] :: (nat \<times> bytes) list)) = Some (p, Inr ())"
    by (simp add: enqueue_def start_def checked_add_def u64_max_def)
  have "list_all scalar_value (S ''[]'')" by (simp add: scalar_value_def)
  from served.enqueue [OF served.start this p, of list_writer "[]"]
  have "served list_writer [] [] p (S ''[]'') (\<lambda>_. None)" by simp
  with p that show ?thesis by blast
qed

theorem writer_drains_witness:
  "\<exists>p q. enqueue (S ''[]'') (start []) = Some (p, Inr ()) \<and> run_worker list_writer (work_left p) p = Some q
     \<and> pd_snapshot q = None \<and> parked q"
  by (rule served_demo) (use writer_drains [OF list_writer_laws(1,2)] in blast)

theorem flush_is_a_barrier_witness:
  "\<exists>p c q. served list_writer [] [] p (S ''[]'') [0 \<mapsto> S ''[]''] \<and> serve_command list_writer c p = Some q
     \<and> read_durable_snapshot list_writer (wk_table q) = Some (utf8 (S ''[]''))"
proof -
  obtain p where p: "enqueue (S ''[]'') (start []) = Some (p, Inr ())"
    "served list_writer [] [] p (S ''[]'') (\<lambda>_. None)" by (rule served_demo)
  let ?c = "\<lparr>cm_id = 0, cm_snapshot = Some (S ''[]''), cm_close = False\<rparr>"
  have v: "p = (start [])\<lparr>pd_generation := 1, pd_snapshot := Some (S ''[]''), pd_changed := True\<rparr>"
    using p(1) by (simp add: enqueue_def start_def checked_add_def u64_max_def)
  obtain p1 where r: "request False p = (p1, Inr ?c)"
    using v by (auto simp: request_def start_def RING_def Let_def)
  have s1: "served list_writer [] [] p1 (S ''[]'') [0 \<mapsto> S ''[]'']" using served.request [OF p(2) r] by simp
  have p1: "wk_action p1 = None" "\<not> wk_done p1" "pd_queue p1 = [?c]" "wk_table_open p1" "wk_table p1 = []" "wk_first_error p1 = None"
    using r v by (auto simp: request_def start_def RING_def Let_def)
  let ?p = "choose_action p1"
  have s2: "served list_writer [] [] ?p (S ''[]'') [0 \<mapsto> S ''[]'']"
    using served.worker [OF s1 worker.choose [OF p1(1,2)]] .
  have a: "wk_action ?p = Some (Command ?c)" "wk_table_open ?p" "wk_table ?p = []" "wk_first_error ?p = None"
    using p1 by (simp_all add: choose_action_def)
  have "snapshot_slices (utf8 (S ''[]'')) = Some [utf8 (S ''[]'')]"
    by (subst snapshot_slices.simps) (simp add: SNAPSHOT_SLICE_def utf8_char_def)
  then obtain q where q: "serve_command list_writer ?c ?p = Some q" "reply q ?c = Some (Inr ())"
    using a by (simp add: serve_command_def record_durable_snapshot_def apply_durable_snapshot_def list_writer_def
        list_table_def table_ops.extend_def delete_stale.simps answer_of_def reply_def Let_def)
  from flush_is_a_barrier [OF list_writer_laws s2 a(1) q] q s2 show ?thesis by auto
qed

end
