(* ===== verification/Cookie_Jar.thy ===== *)
theory Cookie_Jar
  imports Cookie_Persist Nav "HOL-Library.Product_Lexorder" "HOL-Library.List_Lexorder"
begin

text \<open>
  The cookie jar (\<open>BrowserCookieStore\<close> of \<^verbatim>\<open>src/apps/chuzz/src/cookie_store.rs\<close>): what responses and
  scripts may store, what requests and scripts are shown, what is made durable, and how a profile is opened again.
  RFC parsing and matching (the \<open>cookie_store\<close> crate), the public suffix list and the JSON codec are the fields of
  \<open>jar_ext\<close>; \<open>jar_laws\<close> states what the code relies on.
\<close>

section \<open>Cookies\<close>

datatype cookie_domain = HostOnly str | Suffix str | NotPresent | EmptyDomain

record cookie =
  ck_name :: str
  ck_value :: str
  ck_secure :: "bool option"
  ck_http_only :: "bool option"
  ck_domain_attr :: "str option" \<comment> \<open>\<open>cookie.domain()\<close>\<close>
  ck_path_attr :: "str option" \<comment> \<open>\<open>cookie.path()\<close>\<close>
  ck_domain :: cookie_domain \<comment> \<open>the field\<close>
  ck_path :: str
  ck_persistent :: bool
  ck_expires :: nat

type_synonym cookie_key = "str \<times> str \<times> str"

datatype store_action = Inserted | UpdatedExisting | ExpiredExisting

datatype cookie_error = Expired | OtherCookieError

record 's jar_ext =
  jx_parse :: "str \<Rightarrow> url \<Rightarrow> cookie option"
  jx_insert :: "'s \<Rightarrow> cookie \<Rightarrow> url \<Rightarrow> 's \<times> (cookie_error + store_action)"
  jx_remove :: "'s \<Rightarrow> cookie_key \<Rightarrow> 's"
  jx_get_any :: "'s \<Rightarrow> cookie_key \<Rightarrow> cookie option"
  jx_matches :: "'s \<Rightarrow> url \<Rightarrow> cookie list"
  jx_iter_any :: "'s \<Rightarrow> cookie list"
  jx_from_cookies :: "cookie list \<Rightarrow> 's"
  jx_expired :: "cookie \<Rightarrow> bool"
  jx_encode :: "cookie list \<Rightarrow> str + str" \<comment> \<open>\<open>serde_json::to_string\<close>\<close>
  jx_decode :: "bytes \<Rightarrow> str + cookie list" \<comment> \<open>\<open>serde_json::from_str\<close>\<close>
  jx_suffix :: "str \<Rightarrow> (str \<times> bool) option" \<comment> \<open>\<open>psl::suffix\<close>, and whether the list knows it\<close>

fun domain_string :: "cookie_domain \<Rightarrow> str" where
  "domain_string (HostOnly h) = h"
| "domain_string (Suffix d) = d"
| "domain_string NotPresent = []"
| "domain_string EmptyDomain = []"

definition cookie_key :: "cookie \<Rightarrow> cookie_key" where
  "cookie_key c = (domain_string (ck_domain c), ck_path c, ck_name c)"

section \<open>What a cookie must be\<close>

definition MAX_COOKIE_NAME_VALUE :: nat where
  "MAX_COOKIE_NAME_VALUE = 4096"

definition oversized_cookie :: "cookie \<Rightarrow> bool" where
  "oversized_cookie c \<longleftrightarrow> MAX_COOKIE_NAME_VALUE < utf8_len (ck_name c) + utf8_len (ck_value c)"

definition is_secure_url :: "url \<Rightarrow> bool" where
  "is_secure_url u \<longleftrightarrow> url_scheme u = S ''https'' \<or> url_scheme u = S ''wss''"

definition valid_cookie_prefix :: "cookie \<Rightarrow> url \<Rightarrow> bool" where
  "valid_cookie_prefix c u =
     (if starts_with (ck_name c) (S ''__Secure-'') then ck_secure c = Some True \<and> is_secure_url u
      else if starts_with (ck_name c) (S ''__Host-'')
      then ck_secure c = Some True \<and> is_secure_url u \<and> ck_domain_attr c = None \<and> ck_path_attr c = Some (S ''/'')
      else True)"

definition enforce_cookie_domain :: "('s, 'e) jar_ext_scheme \<Rightarrow> cookie \<Rightarrow> url \<Rightarrow> cookie \<times> bool" where
  "enforce_cookie_domain jx c u =
     (case ck_domain_attr c of
        None \<Rightarrow> (c, True)
      | Some domain \<Rightarrow>
          (case jx_suffix jx domain of
             None \<Rightarrow> (c, True)
           | Some (suffix, known) \<Rightarrow>
               if \<not> known \<or> \<not> eq_ignore_ascii_case suffix domain then (c, True)
               else (case url_host u of
                       None \<Rightarrow> (c, False)
                     | Some host \<Rightarrow>
                         if \<not> eq_ignore_ascii_case host domain then (c, False)
                         else (c\<lparr>ck_domain := HostOnly host\<rparr>, True))))"

definition durable_snapshot :: "('s, 'e) jar_ext_scheme \<Rightarrow> 's \<Rightarrow> cookie_store_error + str" where
  "durable_snapshot jx store =
     map_sum Codec id (jx_encode jx (filter (\<lambda>c. ck_persistent c \<and> \<not> jx_expired jx c) (jx_iter_any jx store)))"

section \<open>The jar\<close>

record ('s, 't) cookie_jar =
  cj_persistence :: "'t persistence option"
  cj_cookies :: 's

definition default_jar :: "('s, 'e) jar_ext_scheme \<Rightarrow> ('s, 't) cookie_jar" where
  "default_jar jx = \<lparr>cj_persistence = None, cj_cookies = jx_from_cookies jx []\<rparr>"

definition enqueue_snapshot ::
  "str \<Rightarrow> ('s, 't) cookie_jar \<Rightarrow> (('s, 't) cookie_jar \<times> (cookie_store_error + unit)) option" where
  "enqueue_snapshot snapshot j =
     (case cj_persistence j of
        None \<Rightarrow> Some (j, Inr ())
      | Some p \<Rightarrow> do { (p', r) \<leftarrow> enqueue snapshot p; Some (j\<lparr>cj_persistence := Some p'\<rparr>, r) })"

text \<open>The tail both mutations share: encode the jar, hand the snapshot on, and give the answer.\<close>

definition publish ::
  "('s, 'e) jar_ext_scheme \<Rightarrow> bool \<Rightarrow> 'a \<Rightarrow> ('s, 't) cookie_jar \<Rightarrow> (('s, 't) cookie_jar \<times> (cookie_store_error + 'a)) option" where
  "publish jx changed answer j =
     (if \<not> changed then Some (j, Inr answer)
      else case durable_snapshot jx (cj_cookies j) of
             Inl e \<Rightarrow> Some (j, Inl e)
           | Inr snapshot \<Rightarrow>
               do { (j', r) \<leftarrow> enqueue_snapshot snapshot j;
                    Some (j', case r of Inl e \<Rightarrow> Inl e | Inr _ \<Rightarrow> Inr answer) })"

record store_report =
  sr_accepted :: nat
  sr_rejected :: nat

definition response_cookie ::
  "('s, 'e) jar_ext_scheme \<Rightarrow> url \<Rightarrow> str \<Rightarrow> cookie option" where
  "response_cookie jx u value =
     (case jx_parse jx value u of
        None \<Rightarrow> None
      | Some c \<Rightarrow>
          if ck_name c = [] \<or> oversized_cookie c \<or> (ck_secure c = Some True \<and> \<not> is_secure_url u)
             \<or> \<not> valid_cookie_prefix c u
          then None
          else (case enforce_cookie_domain jx c u of (c', ok) \<Rightarrow> if ok then Some c' else None))"

fun add_values ::
  "('s, 'e) jar_ext_scheme \<Rightarrow> url \<Rightarrow> str list \<Rightarrow> 's \<Rightarrow> bool \<Rightarrow> store_report \<Rightarrow> 's \<times> bool \<times> store_report" where
  "add_values jx u [] store changed report = (store, changed, report)"
| "add_values jx u (value # values) store changed report =
     (case response_cookie jx u value of
        None \<Rightarrow> add_values jx u values store changed (report\<lparr>sr_rejected := sr_rejected report + 1\<rparr>)
      | Some c \<Rightarrow>
          (case jx_insert jx store c u of
             (store', Inr Inserted) \<Rightarrow> add_values jx u values store' True (report\<lparr>sr_accepted := sr_accepted report + 1\<rparr>)
           | (store', Inr UpdatedExisting) \<Rightarrow> add_values jx u values store' True (report\<lparr>sr_accepted := sr_accepted report + 1\<rparr>)
           | (store', Inr ExpiredExisting) \<Rightarrow>
               add_values jx u values (jx_remove jx store' (cookie_key c)) True (report\<lparr>sr_accepted := sr_accepted report + 1\<rparr>)
           | (store', Inl Expired) \<Rightarrow> add_values jx u values store' changed (report\<lparr>sr_accepted := sr_accepted report + 1\<rparr>)
           | (store', Inl OtherCookieError) \<Rightarrow>
               add_values jx u values store' changed (report\<lparr>sr_rejected := sr_rejected report + 1\<rparr>)))"

definition add_response_cookies ::
  "('s, 'e) jar_ext_scheme \<Rightarrow> url \<Rightarrow> str list \<Rightarrow> ('s, 't) cookie_jar
   \<Rightarrow> (('s, 't) cookie_jar \<times> (cookie_store_error + store_report)) option" where
  "add_response_cookies jx u values j =
     (case add_values jx u values (cj_cookies j) False \<lparr>sr_accepted = 0, sr_rejected = 0\<rparr> of
        (store, changed, report) \<Rightarrow> publish jx changed report (j\<lparr>cj_cookies := store\<rparr>))"

definition set_script_cookie ::
  "('s, 'e) jar_ext_scheme \<Rightarrow> url \<Rightarrow> str \<Rightarrow> ('s, 't) cookie_jar
   \<Rightarrow> (('s, 't) cookie_jar \<times> (cookie_store_error + bool)) option" where
  "set_script_cookie jx u assignment j =
     (case jx_parse jx assignment u of
        None \<Rightarrow> Some (j, Inr False)
      | Some c \<Rightarrow>
          let key = cookie_key c
          in if ck_name c = [] \<or> oversized_cookie c \<or> ck_http_only c = Some True
                \<or> (ck_secure c = Some True \<and> \<not> is_secure_url u) \<or> \<not> valid_cookie_prefix c u
             then Some (j, Inr False)
             else (case enforce_cookie_domain jx c u of
                     (_, False) \<Rightarrow> Some (j, Inr False)
                   | (c', True) \<Rightarrow>
                       if (case jx_get_any jx (cj_cookies j) key of
                             None \<Rightarrow> False | Some existing \<Rightarrow> ck_http_only existing = Some True)
                       then Some (j, Inr False)
                       else (case jx_insert jx (cj_cookies j) c' u of
                               (store, Inr Inserted) \<Rightarrow> publish jx True True (j\<lparr>cj_cookies := store\<rparr>)
                             | (store, Inr UpdatedExisting) \<Rightarrow> publish jx True True (j\<lparr>cj_cookies := store\<rparr>)
                             | (store, Inr ExpiredExisting) \<Rightarrow> publish jx True True (j\<lparr>cj_cookies := jx_remove jx store key\<rparr>)
                             | (store, Inl Expired) \<Rightarrow> publish jx False True (j\<lparr>cj_cookies := store\<rparr>)
                             | (store, Inl OtherCookieError) \<Rightarrow> Some (j\<lparr>cj_cookies := store\<rparr>, Inr False))))"

text \<open>The order of the \<open>Cookie\<close> header: longer paths first, then names in byte order; the sort is stable.\<close>

definition cookie_order :: "cookie \<Rightarrow> int \<times> nat list" where
  "cookie_order c = (- int (utf8_len (ck_path c)), map unat (utf8 (ck_name c)))"

definition cookie_pair :: "cookie \<Rightarrow> str" where
  "cookie_pair c = ck_name c @ S ''='' @ ck_value c"

definition cookie_header :: "('s, 'e) jar_ext_scheme \<Rightarrow> url \<Rightarrow> ('s, 't) cookie_jar \<Rightarrow> str option" where
  "cookie_header jx u j =
     (let matches = sort_key cookie_order (jx_matches jx (cj_cookies j) u);
          header = join_strs (S ''; '') (map cookie_pair matches)
      in if header \<noteq> [] then Some header else None)"

definition script_cookies :: "('s, 'e) jar_ext_scheme \<Rightarrow> url \<Rightarrow> ('s, 't) cookie_jar \<Rightarrow> str" where
  "script_cookies jx u j =
     (let matches = sort_key cookie_order (filter (\<lambda>c. ck_http_only c \<noteq> Some True) (jx_matches jx (cj_cookies j) u))
      in join_strs (S ''; '') (map cookie_pair matches))"

definition flush_jar :: "('s, 't) cookie_jar \<Rightarrow> ('s, 't) cookie_jar \<times> (cookie_store_error + command option)" where
  "flush_jar j =
     (case cj_persistence j of
        None \<Rightarrow> (j, Inr None)
      | Some p \<Rightarrow> (case request_flush p of (p', r) \<Rightarrow> (j\<lparr>cj_persistence := Some p'\<rparr>, map_sum id Some r)))"

text \<open>Closing consumes the jar; what is left is the persistence, whose \<open>Drop\<close> runs last.\<close>

definition close_jar :: "('s, 't) cookie_jar \<Rightarrow> 't persistence option \<times> (cookie_store_error + command option)" where
  "close_jar j =
     (case cj_persistence j of
        None \<Rightarrow> (None, Inr None)
      | Some p \<Rightarrow> (case request True p of
                     (p', Inl e) \<Rightarrow> (Some (drop_persistence p'), Inl e)
                   | (p', Inr c) \<Rightarrow> (Some p', Inr (Some c))))"

definition cookies_header :: "(str \<Rightarrow> 'h option) \<Rightarrow> ('s, 'e) jar_ext_scheme \<Rightarrow> url \<Rightarrow> ('s, 't) cookie_jar \<Rightarrow> 'h option" where
  "cookies_header header_value jx u j = (cookie_header jx u j) \<bind> header_value"

definition store_from_response ::
  "('h \<Rightarrow> str option) \<Rightarrow> ('s, 'e) jar_ext_scheme \<Rightarrow> url \<Rightarrow> 'h list \<Rightarrow> ('s, 't) cookie_jar \<Rightarrow> ('s, 't) cookie_jar option" where
  "store_from_response to_str jx u headers j =
     map_option fst (add_response_cookies jx u (List.map_filter to_str headers) j)"

section \<open>Opening a profile\<close>

text \<open>\<open>opened\<close> is what creating the directory, the engine and the table gave.\<close>

definition open_table ::
  "('s, 'e) jar_ext_scheme \<Rightarrow> ('t, 'w) writer_ops_scheme \<Rightarrow> str + 't \<Rightarrow> (cookie_store_error + ('s, 't) cookie_jar) option" where
  "open_table jx ops opened =
     (case opened of
        Inl e \<Rightarrow> Some (Inl (Open e))
      | Inr t \<Rightarrow>
          do { joined \<leftarrow> read_durable_snapshot ops t;
               let stored = (if joined = [] then [] else case jx_decode jx joined of Inr cs \<Rightarrow> cs | Inl _ \<Rightarrow> []);
               let loaded = filter (\<lambda>c. ck_persistent c \<and> \<not> jx_expired jx c) stored;
               let jar = (\<lambda>t. \<lparr>cj_persistence = Some (start t), cj_cookies = jx_from_cookies jx loaded\<rparr>);
               (if length loaded \<noteq> length stored
                then case jx_encode jx loaded of
                       Inl e \<Rightarrow> Some (Inl (Codec e))
                     | Inr s \<Rightarrow>
                         do { (t', error) \<leftarrow> apply_durable_snapshot ops t (utf8 s);
                              Some (case error of Some e \<Rightarrow> Inl (Open e) | None \<Rightarrow> Inr (jar t')) }
                else Some (Inr (jar t))) })"

definition TABLE_NAME :: str where
  "TABLE_NAME = S ''browser_cookie''"

definition aside_name :: "nat \<Rightarrow> nat \<Rightarrow> str" where
  "aside_name stamp attempt = TABLE_NAME @ S ''.corrupt-'' @ dec stamp @ S ''-'' @ dec attempt"

text \<open>\<open>attempt\<close> is an \<open>i32\<close>: \<open>None\<close> where it would overflow.\<close>

function find_aside :: "str set \<Rightarrow> nat \<Rightarrow> nat \<Rightarrow> str \<Rightarrow> str option" where
  "find_aside entries stamp attempt aside =
     (if aside \<notin> entries then Some aside
      else if attempt < 2 ^ 31 - 1 then find_aside entries stamp (attempt + 1) (aside_name stamp attempt)
      else None)"
  by pat_completeness auto
termination
  by (relation "measure (\<lambda>(_, _, attempt, _). 2 ^ 31 - 1 - attempt)") auto

declare find_aside.simps [simp del]

record 't profile =
  pf_first :: "str + 't" \<comment> \<open>what opening the table gives\<close>
  pf_entries :: "str set" \<comment> \<open>the names in the directory\<close>
  pf_stamp :: nat
  pf_rename :: "str \<Rightarrow> str option" \<comment> \<open>the error of moving the table there\<close>
  pf_second :: "str + 't" \<comment> \<open>what opening gives once the table is moved\<close>

definition open_profile ::
  "('s, 'e) jar_ext_scheme \<Rightarrow> ('t, 'w) writer_ops_scheme \<Rightarrow> 't profile \<Rightarrow> (cookie_store_error + ('s, 't) cookie_jar) option" where
  "open_profile jx ops pf =
     do { r \<leftarrow> open_table jx ops (pf_first pf);
          (case r of
             Inl (Open error) \<Rightarrow>
               if TABLE_NAME \<notin> pf_entries pf then Some (Inl (Open error))
               else
                 do { aside \<leftarrow> find_aside (pf_entries pf) (pf_stamp pf) 1 (TABLE_NAME @ S ''.corrupt-'' @ dec (pf_stamp pf));
                      (case pf_rename pf aside of
                         Some e \<Rightarrow> Some (Inl (Open (error @ S ''; moving the unreadable table aside also failed: '' @ e)))
                       | None \<Rightarrow> open_table jx ops (pf_second pf)) }
           | _ \<Rightarrow> Some r) }"

datatype target_os = MacOs | Windows | OtherOs

definition path_join :: "str \<Rightarrow> str \<Rightarrow> str" where
  "path_join base child = (if base = [] \<or> last base = 47 then base @ child else base @ S ''/'' @ child)"

definition profile_directory :: "str option \<Rightarrow> (str \<Rightarrow> str option) \<Rightarrow> target_os \<Rightarrow> str \<Rightarrow> str" where
  "profile_directory sandbox env os temp =
     (let fallback = path_join temp (S ''ai.chuzz.browser'')
      in case sandbox of
           Some directory \<Rightarrow> directory
         | None \<Rightarrow>
             (case env (S ''CHUZZ_PROFILE_DIR'') of
                Some path \<Rightarrow> path
              | None \<Rightarrow>
                  (case os of
                     MacOs \<Rightarrow> (case env (S ''HOME'') of
                         Some home \<Rightarrow> path_join home (S ''Library/Application Support/ai.chuzz.browser'')
                       | None \<Rightarrow> fallback)
                   | Windows \<Rightarrow> (case env (S ''APPDATA'') of
                         Some data \<Rightarrow> path_join data (S ''ai.chuzz.browser'')
                       | None \<Rightarrow> fallback)
                   | OtherOs \<Rightarrow> (case env (S ''XDG_DATA_HOME'') of
                         Some data \<Rightarrow> path_join data (S ''ai.chuzz.browser'')
                       | None \<Rightarrow> (case env (S ''HOME'') of
                             Some home \<Rightarrow> path_join home (S ''.local/share/ai.chuzz.browser'')
                           | None \<Rightarrow> fallback)))))"

section \<open>Laws of the cookie crate\<close>

text \<open>
  Inserting touches the cookie's key only. An insert that fails changes nothing, one that adds or replaces stores the
  cookie it was given, and an expired cookie whose key is taken (\<open>ExpiredExisting\<close>) is not stored: the one that is there
  is expired in place, so nothing is said of that key. Removing takes a key away and adds nothing. A domain that is the
  request's host but for case is stored in the host's form, as both are normalised.
\<close>

definition jar_laws :: "('s, 'e) jar_ext_scheme \<Rightarrow> bool" where
  "jar_laws jx \<longleftrightarrow>
     (\<forall>s c u s' r k. jx_insert jx s c u = (s', r) \<longrightarrow> k \<noteq> cookie_key c \<longrightarrow> jx_get_any jx s' k = jx_get_any jx s k)
   \<and> (\<forall>s c u s' e. jx_insert jx s c u = (s', Inl e) \<longrightarrow> s' = s)
   \<and> (\<forall>s c u s' r. jx_insert jx s c u = (s', r) \<longrightarrow>
        {x \<in> set (jx_iter_any jx s'). cookie_key x \<noteq> cookie_key c} \<subseteq> set (jx_iter_any jx s))
   \<and> (\<forall>s c u s' r. jx_insert jx s c u = (s', r) \<longrightarrow> r \<noteq> Inr ExpiredExisting \<longrightarrow>
        set (jx_iter_any jx s') \<subseteq> insert c (set (jx_iter_any jx s)))
   \<and> (\<forall>s k k'. k' \<noteq> k \<longrightarrow> jx_get_any jx (jx_remove jx s k) k' = jx_get_any jx s k')
   \<and> (\<forall>s k. set (jx_iter_any jx (jx_remove jx s k)) \<subseteq> {x \<in> set (jx_iter_any jx s). cookie_key x \<noteq> k})
   \<and> (\<forall>v u c d h. jx_parse jx v u = Some c \<longrightarrow> ck_domain_attr c = Some d \<longrightarrow> url_host u = Some h \<longrightarrow>
        eq_ignore_ascii_case h d \<longrightarrow> domain_string (ck_domain c) = h)"

lemma insert_laws:
  assumes "jar_laws jx" and "jx_insert jx s c u = (s', r)"
  shows "k \<noteq> cookie_key c \<Longrightarrow> jx_get_any jx s' k = jx_get_any jx s k"
    and "r = Inl e \<Longrightarrow> s' = s"
    and "{x \<in> set (jx_iter_any jx s'). cookie_key x \<noteq> cookie_key c} \<subseteq> set (jx_iter_any jx s)"
    and "r \<noteq> Inr ExpiredExisting \<Longrightarrow> set (jx_iter_any jx s') \<subseteq> insert c (set (jx_iter_any jx s))"
proof -
  from assms(1) have l:
    "\<forall>s c u s' r k. jx_insert jx s c u = (s', r) \<longrightarrow> k \<noteq> cookie_key c \<longrightarrow> jx_get_any jx s' k = jx_get_any jx s k"
    "\<forall>s c u s' e. jx_insert jx s c u = (s', Inl e) \<longrightarrow> s' = s"
    "\<forall>s c u s' r. jx_insert jx s c u = (s', r) \<longrightarrow>
       {x \<in> set (jx_iter_any jx s'). cookie_key x \<noteq> cookie_key c} \<subseteq> set (jx_iter_any jx s)"
    "\<forall>s c u s' r. jx_insert jx s c u = (s', r) \<longrightarrow> r \<noteq> Inr ExpiredExisting \<longrightarrow>
       set (jx_iter_any jx s') \<subseteq> insert c (set (jx_iter_any jx s))"
    unfolding jar_laws_def by - (elim conjE, assumption)+
  show "k \<noteq> cookie_key c \<Longrightarrow> jx_get_any jx s' k = jx_get_any jx s k" using l(1) [rule_format, OF assms(2)] .
  show "r = Inl e \<Longrightarrow> s' = s" using l(2) [rule_format, of s c u s' e] assms(2) by simp
  show "{x \<in> set (jx_iter_any jx s'). cookie_key x \<noteq> cookie_key c} \<subseteq> set (jx_iter_any jx s)"
    using l(3) [rule_format, OF assms(2)] .
  show "r \<noteq> Inr ExpiredExisting \<Longrightarrow> set (jx_iter_any jx s') \<subseteq> insert c (set (jx_iter_any jx s))"
    using l(4) [rule_format, OF assms(2)] .
qed

lemma remove_laws:
  assumes "jar_laws jx"
  shows "k' \<noteq> k \<Longrightarrow> jx_get_any jx (jx_remove jx s k) k' = jx_get_any jx s k'"
    and "set (jx_iter_any jx (jx_remove jx s k)) \<subseteq> {x \<in> set (jx_iter_any jx s). cookie_key x \<noteq> k}"
proof -
  from assms have l: "\<forall>s k k'. k' \<noteq> k \<longrightarrow> jx_get_any jx (jx_remove jx s k) k' = jx_get_any jx s k'"
    "\<forall>s k. set (jx_iter_any jx (jx_remove jx s k)) \<subseteq> {x \<in> set (jx_iter_any jx s). cookie_key x \<noteq> k}"
    unfolding jar_laws_def by - (elim conjE, assumption)+
  show "k' \<noteq> k \<Longrightarrow> jx_get_any jx (jx_remove jx s k) k' = jx_get_any jx s k'" using l(1) by metis
  show "set (jx_iter_any jx (jx_remove jx s k)) \<subseteq> {x \<in> set (jx_iter_any jx s). cookie_key x \<noteq> k}"
    using l(2) by metis
qed

lemma enforced_key:
  assumes "jar_laws jx" and "jx_parse jx v u = Some c" and "enforce_cookie_domain jx c u = (c', True)"
  shows "cookie_key c' = cookie_key c"
  using assms by (auto simp: enforce_cookie_domain_def cookie_key_def jar_laws_def split: option.splits if_splits)

lemma enqueue_snapshot_cookies: "enqueue_snapshot s j = Some (j', r) \<Longrightarrow> cj_cookies j' = cj_cookies j"
  by (auto simp: enqueue_snapshot_def bind_eq_Some_conv split: option.splits)

lemma publish_cookies: "publish jx changed a j = Some (j', r) \<Longrightarrow> cj_cookies j' = cj_cookies j"
  by (cases "durable_snapshot jx (cj_cookies j)")
    (auto simp: publish_def bind_eq_Some_conv dest: enqueue_snapshot_cookies split: if_splits)

lemma relabel_Inr: "(case x of Inl e \<Rightarrow> Inl e | Inr _ \<Rightarrow> Inr a) = Inr b \<Longrightarrow> b = a"
  by (cases x) auto

lemma publish_answer: "publish jx changed a j = Some (j', r) \<Longrightarrow> r = Inr b \<Longrightarrow> b = a"
  by (cases "durable_snapshot jx (cj_cookies j)")
    (auto simp: publish_def bind_eq_Some_conv dest: relabel_Inr split: if_splits)

section \<open>What the jar guarantees\<close>

lemma script_cookie_effect:
  assumes res: "set_script_cookie jx u a j = Some (j', r)" and new: "cj_cookies j' \<noteq> cj_cookies j"
  obtains c c' s ins where "jx_parse jx a u = Some c" "ck_name c \<noteq> []" "\<not> oversized_cookie c" "valid_cookie_prefix c u"
    "enforce_cookie_domain jx c u = (c', True)" "jx_insert jx (cj_cookies j) c' u = (s, ins)"
    "\<not> (\<exists>x. jx_get_any jx (cj_cookies j) (cookie_key c) = Some x \<and> ck_http_only x = Some True)"
    "cj_cookies j' = (if ins = Inr ExpiredExisting then jx_remove jx s (cookie_key c) else s)"
proof -
  obtain c where c: "jx_parse jx a u = Some c" using assms by (auto simp: set_script_cookie_def split: option.splits)
  obtain c' ok where e: "enforce_cookie_domain jx c u = (c', ok)" by (rule prod.exhaust)
  obtain s ins where i: "jx_insert jx (cj_cookies j) c' u = (s, ins)" by (rule prod.exhaust)
  have ok: "ck_name c \<noteq> []" "\<not> oversized_cookie c" "valid_cookie_prefix c u" "ok"
    "\<not> (case jx_get_any jx (cj_cookies j) (cookie_key c) of None \<Rightarrow> False | Some x \<Rightarrow> ck_http_only x = Some True)"
    using assms c e by (auto simp: set_script_cookie_def Let_def split: if_splits bool.splits)
  have pass: "\<not> (ck_name c = [] \<or> oversized_cookie c \<or> ck_http_only c = Some True
      \<or> (ck_secure c = Some True \<and> \<not> is_secure_url u) \<or> \<not> valid_cookie_prefix c u)"
    using assms c by (auto simp: set_script_cookie_def Let_def split: if_splits)
  have "cj_cookies j' = (if ins = Inr ExpiredExisting then jx_remove jx s (cookie_key c) else s)"
    using res pass c e ok(4,5) i unfolding set_script_cookie_def
    by (auto simp: Let_def dest!: publish_cookies split: sum.splits store_action.splits cookie_error.splits)
  with c e i ok show ?thesis by (intro that [of c c' s ins]) auto
qed

lemma script_cookie_store:
  assumes laws: "jar_laws jx" and res: "set_script_cookie jx u a j = Some (j', r)"
    and old: "jx_get_any jx (cj_cookies j) k = Some c0" "ck_http_only c0 = Some True"
  shows "jx_get_any jx (cj_cookies j') k = Some c0"
proof (cases "cj_cookies j' = cj_cookies j")
  case False
  obtain c c' s ins where c: "jx_parse jx a u = Some c" "ck_name c \<noteq> []" "\<not> oversized_cookie c" "valid_cookie_prefix c u"
    "enforce_cookie_domain jx c u = (c', True)" "jx_insert jx (cj_cookies j) c' u = (s, ins)"
    "\<not> (\<exists>x. jx_get_any jx (cj_cookies j) (cookie_key c) = Some x \<and> ck_http_only x = Some True)"
    "cj_cookies j' = (if ins = Inr ExpiredExisting then jx_remove jx s (cookie_key c) else s)"
    by (rule script_cookie_effect [OF res False])
  have key: "cookie_key c' = cookie_key c" using enforced_key [OF laws c(1,5)] .
  have k: "k \<noteq> cookie_key c'" using c(7) old key by auto
  have "jx_get_any jx s k = Some c0" using insert_laws(1) [OF laws c(6) k] old by simp
  moreover have "jx_get_any jx (jx_remove jx s (cookie_key c)) k = jx_get_any jx s k"
    using k key by (intro remove_laws(1) [OF laws]) simp
  ultimately show ?thesis using c(8) by simp
qed (use old in simp)

text \<open>
  C11. A script never touches an HttpOnly cookie. Whatever is assigned to \<open>document.cookie\<close>, every HttpOnly cookie
  of the jar is the same afterwards under its domain, path and name, and no HttpOnly cookie is in what
  the script is shown: that is the Cookie header, in the same order, without the HttpOnly ones.
\<close>

theorem http_only_hidden_from_scripts:
  assumes "jar_laws jx" and "set_script_cookie jx u a j = Some (j', r)"
    and "jx_get_any jx (cj_cookies j) k = Some c0" and "ck_http_only c0 = Some True"
  shows "jx_get_any jx (cj_cookies j') k = Some c0
    \<and> script_cookies jx v j' = join_strs (S ''; '') (map cookie_pair (filter (\<lambda>c. ck_http_only c \<noteq> Some True)
        (sort_key cookie_order (jx_matches jx (cj_cookies j') v))))"
  using script_cookie_store [OF assms]
  by (simp add: script_cookies_def Let_def filter_sort)

text \<open>The shape every cookie that was let in has.\<close>

definition admitted :: "('s, 'e) jar_ext_scheme \<Rightarrow> cookie \<Rightarrow> bool" where
  "admitted jx c \<longleftrightarrow> ck_name c \<noteq> [] \<and> utf8_len (ck_name c) + utf8_len (ck_value c) \<le> 4096
     \<and> (starts_with (ck_name c) (S ''__Secure-'') \<or> starts_with (ck_name c) (S ''__Host-'') \<longrightarrow> ck_secure c = Some True)
     \<and> (starts_with (ck_name c) (S ''__Host-'') \<longrightarrow> ck_domain_attr c = None \<and> ck_path_attr c = Some (S ''/''))
     \<and> (\<forall>d suffix. ck_domain_attr c = Some d \<and> jx_suffix jx d = Some (suffix, True) \<and> eq_ignore_ascii_case suffix d
          \<longrightarrow> (\<exists>h. ck_domain c = HostOnly h \<and> eq_ignore_ascii_case h d))"

definition jar_ok :: "('s, 'e) jar_ext_scheme \<Rightarrow> 's \<Rightarrow> bool" where
  "jar_ok jx s \<longleftrightarrow> (\<forall>c\<in>set (jx_iter_any jx s). admitted jx c)"

lemma prefixes_differ: "starts_with n (S ''__Secure-'') \<Longrightarrow> \<not> starts_with n (S ''__Host-'')"
  by (auto simp: starts_with_iff)

lemma admitted_checked:
  assumes "ck_name c \<noteq> []" "\<not> oversized_cookie c" "valid_cookie_prefix c u" "enforce_cookie_domain jx c u = (c', True)"
  shows "admitted jx c'"
proof -
  have same: "ck_name c' = ck_name c" "ck_value c' = ck_value c" "ck_secure c' = ck_secure c"
    "ck_domain_attr c' = ck_domain_attr c" "ck_path_attr c' = ck_path_attr c"
    using assms(4) by (auto simp: enforce_cookie_domain_def split: option.splits if_splits)
  have "\<exists>h. ck_domain c' = HostOnly h \<and> eq_ignore_ascii_case h d"
    if "ck_domain_attr c = Some d" "jx_suffix jx d = Some (suffix, True)" "eq_ignore_ascii_case suffix d" for d suffix
    using assms(4) that by (auto simp: enforce_cookie_domain_def split: option.splits if_splits)
  moreover have "starts_with (ck_name c) (S ''__Secure-'') \<or> starts_with (ck_name c) (S ''__Host-'') \<longrightarrow> ck_secure c = Some True"
    "starts_with (ck_name c) (S ''__Host-'') \<longrightarrow> ck_domain_attr c = None \<and> ck_path_attr c = Some (S ''/'')"
    using assms(3) prefixes_differ [of "ck_name c"] unfolding valid_cookie_prefix_def by (simp_all split: if_splits)
  ultimately show ?thesis
    using assms(1,2) unfolding admitted_def same oversized_cookie_def MAX_COOKIE_NAME_VALUE_def by auto
qed

lemma jar_ok_insert:
  assumes "jar_laws jx" "jar_ok jx s" "admitted jx c" "jx_insert jx s c u = (s', r)"
  shows "r \<noteq> Inr ExpiredExisting \<Longrightarrow> jar_ok jx s'" "jar_ok jx (jx_remove jx s' (cookie_key c))"
proof -
  show "r \<noteq> Inr ExpiredExisting \<Longrightarrow> jar_ok jx s'"
    using insert_laws(4) [OF assms(1,4)] assms(2,3) unfolding jar_ok_def by blast
  show "jar_ok jx (jx_remove jx s' (cookie_key c))"
    using insert_laws(3) [OF assms(1,4)] remove_laws(2) [OF assms(1), of s' "cookie_key c"] assms(2)
    unfolding jar_ok_def by blast
qed

lemma response_cookie_admitted: "response_cookie jx u v = Some c \<Longrightarrow> admitted jx c"
  by (auto simp: response_cookie_def split: option.splits if_splits prod.splits intro!: admitted_checked)

lemma add_values_ok:
  "jar_laws jx \<Longrightarrow> jar_ok jx s \<Longrightarrow> add_values jx u vs s ch rep = (s', ch', rep') \<Longrightarrow>
     jar_ok jx s' \<and> sr_accepted rep' + sr_rejected rep' = sr_accepted rep + sr_rejected rep + length vs
     \<and> (\<not> ch' \<longrightarrow> s' = s \<and> \<not> ch)"
proof (induction vs arbitrary: s ch rep)
  case (Cons v vs)
  show ?case
  proof (cases "response_cookie jx u v")
    case None
    with Cons.prems Cons.IH [of s ch "rep\<lparr>sr_rejected := sr_rejected rep + 1\<rparr>"] show ?thesis by simp
  next
    case (Some c)
    obtain s1 r where i: "jx_insert jx s c u = (s1, r)" by (rule prod.exhaust)
    note ok = jar_ok_insert [OF Cons.prems(1,2) response_cookie_admitted [OF Some] i]
    let ?acc = "rep\<lparr>sr_accepted := sr_accepted rep + 1\<rparr>" and ?rej = "rep\<lparr>sr_rejected := sr_rejected rep + 1\<rparr>"
    have step: "(case r of
        Inl Expired \<Rightarrow> add_values jx u vs s1 ch ?acc | Inl OtherCookieError \<Rightarrow> add_values jx u vs s1 ch ?rej
      | Inr ExpiredExisting \<Rightarrow> add_values jx u vs (jx_remove jx s1 (cookie_key c)) True ?acc
      | Inr _ \<Rightarrow> add_values jx u vs s1 True ?acc) = (s', ch', rep')"
      using Cons.prems(3) Some i by (auto split: sum.splits store_action.splits cookie_error.splits)
    note IH = Cons.IH [OF Cons.prems(1)]
    show ?thesis
    proof (cases r)
      case (Inl e)
      then have s1: "s1 = s" using insert_laws(2) [OF Cons.prems(1) i] by blast
      show ?thesis
      proof (cases e)
        case Expired
        then have "add_values jx u vs s ch ?acc = (s', ch', rep')" using step Inl s1 by simp
        from IH [OF Cons.prems(2) this] show ?thesis by simp
      next
        case OtherCookieError
        then have "add_values jx u vs s ch ?rej = (s', ch', rep')" using step Inl s1 by simp
        from IH [OF Cons.prems(2) this] show ?thesis by simp
      qed
    next
      case (Inr a)
      have "\<exists>s2. jar_ok jx s2 \<and> add_values jx u vs s2 True ?acc = (s', ch', rep')"
        using step Inr ok by (cases a) auto
      then obtain s2 where "jar_ok jx s2" "add_values jx u vs s2 True ?acc = (s', ch', rep')" by blast
      from IH [OF this] show ?thesis by simp
    qed
  qed
qed simp

text \<open>
  C12. The jar lets nothing unfit in. If every cookie in it has a name, at most 4096 bytes of name and
  value, a Secure flag where its name is prefixed, no Domain and the root path where the prefix is
  \<open>__Host-\<close>, and belongs to a single host where its Domain is a public suffix, then this stays so after any response and
  any script assignment; and the report of a response accounts for every value it carried.
\<close>

theorem jar_stays_admitted:
  assumes "jar_laws jx" and "jar_ok jx (cj_cookies j)"
  shows "(\<forall>j' r. set_script_cookie jx u a j = Some (j', r) \<longrightarrow> jar_ok jx (cj_cookies j'))
    \<and> (\<forall>j' r. add_response_cookies jx u vs j = Some (j', r) \<longrightarrow> jar_ok jx (cj_cookies j')
         \<and> (\<forall>report. r = Inr report \<longrightarrow> sr_accepted report + sr_rejected report = length vs))"
proof (intro conjI allI impI)
  fix j' r
  assume res: "set_script_cookie jx u a j = Some (j', r)"
  show "jar_ok jx (cj_cookies j')"
  proof (cases "cj_cookies j' = cj_cookies j")
    case False
    obtain c c' s ins where c: "jx_parse jx a u = Some c" "ck_name c \<noteq> []" "\<not> oversized_cookie c" "valid_cookie_prefix c u"
      "enforce_cookie_domain jx c u = (c', True)" "jx_insert jx (cj_cookies j) c' u = (s, ins)"
      "\<not> (\<exists>x. jx_get_any jx (cj_cookies j) (cookie_key c) = Some x \<and> ck_http_only x = Some True)"
      "cj_cookies j' = (if ins = Inr ExpiredExisting then jx_remove jx s (cookie_key c) else s)"
      by (rule script_cookie_effect [OF res False])
    note ok = jar_ok_insert [OF assms admitted_checked [OF c(2-5)] c(6)]
    show ?thesis using ok c(8) enforced_key [OF assms(1) c(1,5)] by (cases "ins = Inr ExpiredExisting") simp_all
  qed (use assms(2) in simp)
next
  fix j' r
  assume res: "add_response_cookies jx u vs j = Some (j', r)"
  obtain s ch rep where v: "add_values jx u vs (cj_cookies j) False \<lparr>sr_accepted = 0, sr_rejected = 0\<rparr> = (s, ch, rep)"
    by (metis prod_cases3)
  note ok = add_values_ok [OF assms v]
  have p: "publish jx ch rep (j\<lparr>cj_cookies := s\<rparr>) = Some (j', r)" using res v by (simp add: add_response_cookies_def)
  then show "jar_ok jx (cj_cookies j')" using ok by (auto dest: publish_cookies)
  fix report
  assume "r = Inr report"
  with p have "report = rep" by (rule publish_answer)
  with ok show "sr_accepted report + sr_rejected report = length vs" by simp
qed

section \<open>Opening again\<close>

lemma dec_last: "last (dec n) = 48 + n mod 10"
  by (subst dec.simps) simp

lemma dec_butlast: "butlast (dec n) = (if n < 10 then [] else dec (n div 10))"
  by (subst dec.simps) simp

lemma dec_nonempty: "dec n \<noteq> []"
  by (subst dec.simps) simp

lemma dec_inj: "dec m = dec n \<Longrightarrow> m = n"
proof (induction m arbitrary: n rule: less_induct)
  case (less m)
  have l: "m mod 10 = n mod 10" using less.prems dec_last [of m] dec_last [of n] by simp
  have b: "(if m < 10 then [] else dec (m div 10)) = (if n < 10 then [] else dec (n div 10))"
    using less.prems dec_butlast by metis
  show ?case
  proof (cases "m < 10")
    case True
    with b have "n < 10" by (auto simp: dec_nonempty dec_nonempty [symmetric] split: if_splits)
    with l True show ?thesis by simp
  next
    case False
    with b have n: "\<not> n < 10" "dec (m div 10) = dec (n div 10)"
      by (auto simp: dec_nonempty dec_nonempty [symmetric] split: if_splits)
    from False have "m div 10 < m" by simp
    from less.IH [OF this n(2)] l show ?thesis by (metis mult_div_mod_eq)
  qed
qed

lemma filter_same_length: "length (filter P xs) = length xs \<Longrightarrow> filter P xs = xs"
proof (induction xs)
  case (Cons x xs)
  have "length (filter P xs) \<noteq> Suc (length xs)" using length_filter_le [of P xs] by linarith
  with Cons show ?case by (auto split: if_splits)
qed simp

lemma aside_name_inj: "aside_name stamp a = aside_name stamp b \<Longrightarrow> a = b"
  by (auto simp: aside_name_def dest: dec_inj)

lemma find_aside_from:
  assumes "finite entries"
  shows "aside \<in> entries \<Longrightarrow> card {k. attempt \<le> k \<and> aside_name stamp k \<in> entries} < 2 ^ 31 - 1 - attempt \<Longrightarrow>
    \<exists>name. find_aside entries stamp attempt aside = Some name \<and> name \<notin> entries"
proof (induction "2 ^ 31 - 1 - attempt" arbitrary: attempt aside rule: less_induct)
  case less
  have fin: "finite {k. attempt \<le> k \<and> aside_name stamp k \<in> entries}"
    by (rule finite_subset [OF _ finite_vimageI [OF assms, of "aside_name stamp"]])
      (auto simp: inj_def dest: aside_name_inj)
  have lt: "attempt < 2 ^ 31 - 1" using less.prems(2) by simp
  then have step: "find_aside entries stamp attempt aside = find_aside entries stamp (attempt + 1) (aside_name stamp attempt)"
    using less.prems(1) by (simp add: find_aside.simps [of _ _ attempt aside])
  show ?case
  proof (cases "aside_name stamp attempt \<in> entries")
    case False
    then show ?thesis unfolding step by (simp add: find_aside.simps)
  next
    case True
    then have "{k. attempt \<le> k \<and> aside_name stamp k \<in> entries}
        = insert attempt {k. attempt + 1 \<le> k \<and> aside_name stamp k \<in> entries}" by (auto simp: Suc_le_eq le_less)
    with fin have "card {k. attempt + 1 \<le> k \<and> aside_name stamp k \<in> entries} + 1
        = card {k. attempt \<le> k \<and> aside_name stamp k \<in> entries}" by simp
    with less.prems(2) have "card {k. attempt + 1 \<le> k \<and> aside_name stamp k \<in> entries} < 2 ^ 31 - 1 - (attempt + 1)" by linarith
    from less.hyps [OF _ True this] lt show ?thesis unfolding step by simp
  qed
qed

text \<open>
  Moving an unreadable table aside always finds a name that is not taken: with fewer than \<open>2\<^sup>31 - 3\<close> entries in the
  directory the search returns, and nothing that was moved aside before is overwritten.
\<close>

theorem aside_name_is_fresh:
  assumes "finite entries" and "card entries < 2 ^ 31 - 3"
  shows "\<exists>name. find_aside entries stamp 1 (TABLE_NAME @ S ''.corrupt-'' @ dec stamp) = Some name \<and> name \<notin> entries"
proof (cases "TABLE_NAME @ S ''.corrupt-'' @ dec stamp \<in> entries")
  case False
  then show ?thesis by (simp add: find_aside.simps)
next
  case True
  have "card {k. 1 \<le> k \<and> aside_name stamp k \<in> entries} \<le> card entries"
    by (rule card_inj_on_le [of "aside_name stamp"]) (auto simp: inj_on_def assms(1) dest: aside_name_inj)
  with assms(2) have "card {k. 1 \<le> k \<and> aside_name stamp k \<in> entries} < 2 ^ 31 - 1 - 1" by linarith
  from find_aside_from [OF assms(1) True this] show ?thesis .
qed

theorem aside_name_is_fresh_witness:
  "\<exists>name. find_aside {S ''browser_cookie.corrupt-7''} 7 1 (TABLE_NAME @ S ''.corrupt-'' @ dec 7) = Some name
     \<and> name \<noteq> S ''browser_cookie.corrupt-7''"
  using aside_name_is_fresh [of "{S ''browser_cookie.corrupt-7''}" 7] by simp

text \<open>
  C13. A jar that was written is the jar that is opened. After the snapshot of a jar has been written without an error over whatever the
  table held, opening it gives a jar of exactly the cookies that were persistent and not expired, and are not expired now, in the same order, and
  a writer whose table holds exactly these. Session cookies are gone.
\<close>

theorem reopened_jar_is_durable_part:
  assumes laws: "table_laws ops" and codec: "\<And>cs s. jx_encode jx cs = Inr s \<Longrightarrow> list_all scalar_value s \<and> s \<noteq> []"
      "\<And>cs s. jx_encode jx cs = Inr s \<Longrightarrow> jx_decode jx (utf8 s) = Inr cs"
    and written: "durable_snapshot (jx\<lparr>jx_expired := before\<rparr>) store = Inr s" "apply_durable_snapshot ops t (utf8 s) = Some (t', None)"
  shows "\<exists>r. open_table jx ops (Inr t') = Some r
    \<and> (case r of Inl e \<Rightarrow> \<exists>x. e = Open x \<or> e = Codec x
       | Inr j \<Rightarrow> cj_cookies j = jx_from_cookies jx
             (filter (\<lambda>c. ck_persistent c \<and> \<not> before c \<and> \<not> jx_expired jx c) (jx_iter_any jx store))
           \<and> (\<exists>p cs' s'. cj_persistence j = Some p \<and> read_durable_snapshot ops (wk_table p) = Some (utf8 s')
                \<and> jx_encode jx cs' = Inr s' \<and> cs' = filter (\<lambda>c. ck_persistent c \<and> \<not> before c \<and> \<not> jx_expired jx c) (jx_iter_any jx store)))"
proof -
  let ?cs = "filter (\<lambda>c. ck_persistent c \<and> \<not> before c) (jx_iter_any jx store)"
  let ?ld = "filter (\<lambda>c. ck_persistent c \<and> \<not> jx_expired jx c) ?cs"
  have enc: "jx_encode jx ?cs = Inr s" using written(1) unfolding durable_snapshot_def
    by (cases "jx_encode jx ?cs") simp_all
  note s = codec(1) [OF enc] codec(2) [OF enc]
  have rd: "read_durable_snapshot ops t' = Some (utf8 s)" using apply_durable_returns [OF laws, of s t] s written(2) by auto
  have ne: "utf8 s \<noteq> []" using s(1) by (cases s) auto
  have ld: "?ld = filter (\<lambda>c. ck_persistent c \<and> \<not> before c \<and> \<not> jx_expired jx c) (jx_iter_any jx store)"
    by (simp add: conj_ac)
  have op: "open_table jx ops (Inr t') = (if length ?ld \<noteq> length ?cs
      then case jx_encode jx ?ld of
             Inl e \<Rightarrow> Some (Inl (Codec e))
           | Inr s2 \<Rightarrow> do { (t2, error) \<leftarrow> apply_durable_snapshot ops t' (utf8 s2);
               Some (case error of Some e \<Rightarrow> Inl (Open e)
                 | None \<Rightarrow> Inr \<lparr>cj_persistence = Some (start t2), cj_cookies = jx_from_cookies jx ?ld\<rparr>) }
      else Some (Inr \<lparr>cj_persistence = Some (start t'), cj_cookies = jx_from_cookies jx ?ld\<rparr>))"
    unfolding open_table_def using rd ne s(2) by (simp only: sum.case Let_def if_False bind.simps)
  show ?thesis
  proof (cases "length ?ld = length ?cs")
    case True
    then have "?ld = ?cs" by (rule filter_same_length)
    with True enc op rd show ?thesis unfolding ld [symmetric] by (simp add: start_def)
  next
    case False
    show ?thesis
    proof (cases "jx_encode jx ?ld")
      case (Inl e)
      then have "open_table jx ops (Inr t') = Some (Inl (Codec e))" using False op by simp
      then show ?thesis by simp
    next
      case (Inr s2)
      obtain t2 e2 where w: "apply_durable_snapshot ops t' (utf8 s2) = Some (t2, e2)"
        "e2 = None \<longrightarrow> read_durable_snapshot ops t2 = Some (utf8 s2)"
        using apply_durable_returns [OF laws, of s2 t'] codec(1) [OF Inr] by blast
      have r: "open_table jx ops (Inr t') = Some (case e2 of Some e \<Rightarrow> Inl (Open e)
          | None \<Rightarrow> Inr \<lparr>cj_persistence = Some (start t2), cj_cookies = jx_from_cookies jx ?ld\<rparr>)"
        using False op Inr w(1) by simp
      show ?thesis unfolding ld [symmetric] r using Inr w(2) by (cases e2) (simp_all add: start_def)
    qed
  qed
qed

section \<open>A concrete jar\<close>

definition demo_cookie :: "bool \<Rightarrow> str \<Rightarrow> cookie" where
  "demo_cookie hidden v = \<lparr>ck_name = S ''id'', ck_value = v, ck_secure = None, ck_http_only = Some hidden,
     ck_domain_attr = None, ck_path_attr = None, ck_domain = HostOnly (S ''a.io''), ck_path = S ''/'',
     ck_persistent = True, ck_expires = 9\<rparr>"

text \<open>The value \<open>gone\<close> stands for an assignment that is expired already, to the visible cookie of the name \<open>b\<close>.\<close>

definition gone_cookie :: cookie where
  "gone_cookie = (demo_cookie False [])\<lparr>ck_name := S ''b'', ck_expires := 0\<rparr>"

definition list_insert :: "cookie list \<Rightarrow> cookie \<Rightarrow> url \<Rightarrow> cookie list \<times> (cookie_error + store_action)" where
  "list_insert s c u =
     (case (find (\<lambda>x. cookie_key x = cookie_key c) s, ck_expires c < 5) of
        (Some _, True) \<Rightarrow> (map (\<lambda>x. if cookie_key x = cookie_key c then x\<lparr>ck_expires := 0\<rparr> else x) s, Inr ExpiredExisting)
      | (Some _, False) \<Rightarrow> (map (\<lambda>x. if cookie_key x = cookie_key c then c else x) s, Inr UpdatedExisting)
      | (None, True) \<Rightarrow> (s, Inl Expired)
      | (None, False) \<Rightarrow> (c # s, Inr Inserted))"

definition list_jar :: "cookie list jar_ext" where
  "list_jar = \<lparr>jx_parse = (\<lambda>v u. Some (if v = S ''gone'' then gone_cookie else demo_cookie (v = []) v)),
     jx_insert = list_insert,
     jx_remove = (\<lambda>s k. filter (\<lambda>x. cookie_key x \<noteq> k) s), jx_get_any = (\<lambda>s k. find (\<lambda>x. cookie_key x = k) s),
     jx_matches = (\<lambda>s u. s), jx_iter_any = id, jx_from_cookies = id, jx_expired = (\<lambda>c. ck_expires c < 5),
     jx_encode = (\<lambda>cs. if cs = [] then Inr (S ''[]'') else if cs = [demo_cookie True []] then Inr (S ''[1]'') else Inl []),
     jx_decode = (\<lambda>bs. if bs = utf8 (S ''[]'') then Inr [] else Inr [demo_cookie True []]),
     jx_suffix = (\<lambda>d. Some (d, True))\<rparr>"

lemma find_filter_key: "k \<noteq> k' \<Longrightarrow> find (\<lambda>x. f x = k) (filter (\<lambda>x. f x \<noteq> k') xs) = find (\<lambda>x. f x = k) xs"
  by (induction xs) auto

lemma find_map_key:
  "(\<And>x. f (g x) = f x) \<Longrightarrow> (\<And>x. f x = k \<Longrightarrow> g x = x) \<Longrightarrow> find (\<lambda>x. f x = k) (map g xs) = find (\<lambda>x. f x = k) xs"
  by (induction xs) auto

lemma expired_key: "cookie_key (x\<lparr>ck_expires := n\<rparr>) = cookie_key x"
  by (simp add: cookie_key_def)

lemma list_insert_laws:
  assumes "list_insert s c u = (s', r)"
  shows "k \<noteq> cookie_key c \<Longrightarrow> find (\<lambda>x. cookie_key x = k) s' = find (\<lambda>x. cookie_key x = k) s"
    and "r = Inl e \<Longrightarrow> s' = s"
    and "{x \<in> set s'. cookie_key x \<noteq> cookie_key c} \<subseteq> set s"
    and "r \<noteq> Inr ExpiredExisting \<Longrightarrow> set s' \<subseteq> insert c (set s)"
  using assms
  by (auto simp: list_insert_def expired_key intro!: find_map_key split: option.splits bool.splits if_splits)

lemma list_jar_laws: "jar_laws list_jar"
  unfolding jar_laws_def
proof (intro conjI allI impI)
  fix s :: "cookie list" and c u s' k and r :: "cookie_error + store_action" and e
  { assume "jx_insert list_jar s c u = (s', r)"
    then have i: "list_insert s c u = (s', r)" by (simp add: list_jar_def)
    show "{x \<in> set (jx_iter_any list_jar s'). cookie_key x \<noteq> cookie_key c} \<subseteq> set (jx_iter_any list_jar s)"
      using list_insert_laws(3) [OF i] by (simp add: list_jar_def)
    { assume "k \<noteq> cookie_key c"
      with list_insert_laws(1) [OF i] show "jx_get_any list_jar s' k = jx_get_any list_jar s k"
        by (simp add: list_jar_def) }
    { assume "r \<noteq> Inr ExpiredExisting"
      with list_insert_laws(4) [OF i] show "set (jx_iter_any list_jar s') \<subseteq> insert c (set (jx_iter_any list_jar s))"
        by (simp add: list_jar_def) } }
  assume "jx_insert list_jar s c u = (s', Inl e)"
  then have "list_insert s c u = (s', Inl e)" by (simp add: list_jar_def)
  from list_insert_laws(2) [OF this] show "s' = s" by blast
qed (auto simp: list_jar_def find_filter_key demo_cookie_def gone_cookie_def split: if_splits)

theorem http_only_hidden_from_scripts_witness:
  "\<exists>j' r. set_script_cookie list_jar (demo_url (S ''a.io'')) (S ''gone'')
       \<lparr>cj_persistence = (None :: (nat \<times> bytes) list persistence option),
        cj_cookies = [demo_cookie True (S ''v''), (demo_cookie False [])\<lparr>ck_name := S ''b''\<rparr>]\<rparr> = Some (j', r)
     \<and> snd (jx_insert list_jar [demo_cookie True (S ''v''), (demo_cookie False [])\<lparr>ck_name := S ''b''\<rparr>] gone_cookie (demo_url (S ''a.io'')))
         = Inr ExpiredExisting
     \<and> cj_cookies j' = [demo_cookie True (S ''v'')]
     \<and> jx_get_any list_jar (cj_cookies j') (S ''a.io'', S ''/'', S ''id'') = Some (demo_cookie True (S ''v''))"
proof -
  let ?s = "[demo_cookie True (S ''v''), (demo_cookie False [])\<lparr>ck_name := S ''b''\<rparr>]"
  let ?j = "\<lparr>cj_persistence = (None :: (nat \<times> bytes) list persistence option), cj_cookies = ?s\<rparr>"
  let ?u = "demo_url (S ''a.io'')" and ?k = "(S ''a.io'', S ''/'', S ''id'')"
  have keys: "cookie_key gone_cookie = (S ''a.io'', S ''/'', S ''b'')" "cookie_key (demo_cookie h v) = ?k"
    "cookie_key ((demo_cookie h v)\<lparr>ck_name := S ''b''\<rparr>) = (S ''a.io'', S ''/'', S ''b'')" for h v
    by (simp_all add: gone_cookie_def demo_cookie_def cookie_key_def)
  have x: "snd (jx_insert list_jar ?s gone_cookie ?u) = Inr ExpiredExisting"
    by (simp add: list_jar_def list_insert_def gone_cookie_def demo_cookie_def cookie_key_def)
  have "\<exists>j' r. set_script_cookie list_jar ?u (S ''gone'') ?j = Some (j', r) \<and> cj_cookies j' = [demo_cookie True (S ''v'')]"
    by (simp add: set_script_cookie_def list_jar_def list_insert_def gone_cookie_def demo_cookie_def cookie_key_def Let_def
        oversized_cookie_def MAX_COOKIE_NAME_VALUE_def utf8_len_def utf8_char_def valid_cookie_prefix_def starts_with_def
        enforce_cookie_domain_def publish_def durable_snapshot_def enqueue_snapshot_def)
  then obtain j' r where r: "set_script_cookie list_jar ?u (S ''gone'') ?j = Some (j', r)"
    "cj_cookies j' = [demo_cookie True (S ''v'')]" by blast
  have "jx_get_any list_jar (cj_cookies ?j) ?k = Some (demo_cookie True (S ''v''))" by (simp add: list_jar_def keys)
  from http_only_hidden_from_scripts [OF list_jar_laws r(1) this] r x show ?thesis by (auto simp: demo_cookie_def)
qed

text \<open>The second value expires the cookie the first one stored: the jar ends empty, and both are accounted for.\<close>

theorem jar_stays_admitted_witness:
  "\<exists>j' r. add_response_cookies list_jar (demo_url (S ''a.io'')) [[], S ''gone'']
       \<lparr>cj_persistence = (None :: (nat \<times> bytes) list persistence option),
        cj_cookies = [(demo_cookie False [])\<lparr>ck_name := S ''b''\<rparr>]\<rparr> = Some (j', Inr r)
     \<and> cj_cookies j' = [demo_cookie True []] \<and> jar_ok list_jar (cj_cookies j') \<and> sr_accepted r + sr_rejected r = 2"
proof -
  let ?b = "(demo_cookie False [])\<lparr>ck_name := S ''b''\<rparr>"
  let ?j = "\<lparr>cj_persistence = (None :: (nat \<times> bytes) list persistence option), cj_cookies = [?b]\<rparr>"
  let ?u = "demo_url (S ''a.io'')"
  have fit: "admitted list_jar ?b"
    by (simp add: admitted_def demo_cookie_def utf8_len_def utf8_char_def starts_with_def)
  then have j: "jar_ok list_jar (cj_cookies ?j)" by (simp add: jar_ok_def list_jar_def)
  have rc: "response_cookie list_jar ?u [] = Some (demo_cookie True [])" "response_cookie list_jar ?u (S ''gone'') = Some gone_cookie"
    by (simp_all add: response_cookie_def list_jar_def demo_cookie_def gone_cookie_def oversized_cookie_def MAX_COOKIE_NAME_VALUE_def
        utf8_len_def utf8_char_def valid_cookie_prefix_def starts_with_def enforce_cookie_domain_def)
  have ins: "jx_insert list_jar [?b] (demo_cookie True []) ?u = ([demo_cookie True [], ?b], Inr Inserted)"
    "jx_insert list_jar [demo_cookie True [], ?b] gone_cookie ?u = ([demo_cookie True [], ?b\<lparr>ck_expires := 0\<rparr>], Inr ExpiredExisting)"
    by (simp_all add: list_jar_def list_insert_def gone_cookie_def demo_cookie_def cookie_key_def)
  have rem: "jx_remove list_jar [demo_cookie True [], ?b\<lparr>ck_expires := 0\<rparr>] (cookie_key gone_cookie) = [demo_cookie True []]"
    by (simp add: list_jar_def gone_cookie_def demo_cookie_def cookie_key_def)
  have snap: "durable_snapshot list_jar [demo_cookie True []] = Inr (S ''[1]'')"
    by (simp add: durable_snapshot_def list_jar_def) (simp add: demo_cookie_def)
  obtain j' r where "add_response_cookies list_jar ?u [[], S ''gone''] ?j = Some (j', Inr r)" "cj_cookies j' = [demo_cookie True []]"
    using snap by (simp add: add_response_cookies_def rc ins rem publish_def enqueue_snapshot_def del: S_simps)
  with jar_stays_admitted [OF list_jar_laws j, of ?u "[]" "[[], S ''gone'']"] show ?thesis by auto
qed

theorem reopened_jar_is_durable_part_witness:
  "\<exists>j. open_table list_jar list_writer (Inr [(0, utf8 (S ''[1]''))]) = Some (Inr j) \<and> cj_cookies j = [demo_cookie True []]"
proof -
  let ?st = "[demo_cookie True [], (demo_cookie True [])\<lparr>ck_persistent := False\<rparr>]"
  have e: "list_all scalar_value s \<and> s \<noteq> []" "jx_decode list_jar (utf8 s) = Inr cs" if "jx_encode list_jar cs = Inr s" for cs s
    using that by (auto simp: list_jar_def scalar_value_def utf8_char_def split: if_splits)
  have snap: "durable_snapshot (list_jar\<lparr>jx_expired := \<lambda>_. False\<rparr>) ?st = Inr (S ''[1]'')"
    by (simp add: durable_snapshot_def list_jar_def) (simp add: demo_cookie_def)
  have "snapshot_slices (utf8 (S ''[1]'')) = Some [utf8 (S ''[1]'')]"
    by (subst snapshot_slices.simps) (simp add: SNAPSHOT_SLICE_def utf8_char_def)
  then have w: "apply_durable_snapshot list_writer [] (utf8 (S ''[1]'')) = Some ([(0, utf8 (S ''[1]''))], None)"
    by (simp add: apply_durable_snapshot_def list_writer_def list_table_def table_ops.extend_def delete_stale.simps)
  have f: "filter (\<lambda>c. ck_persistent c \<and> \<not> False \<and> \<not> jx_expired list_jar c) (jx_iter_any list_jar ?st) = [demo_cookie True []]"
    by (simp add: list_jar_def demo_cookie_def)
  have rows: "read_durable_snapshot list_writer [(0, utf8 (S ''[1]''))] = Some (utf8 (S ''[1]''))"
    by (simp add: read_durable_snapshot_def read_rows.simps list_writer_def list_table_def table_ops.extend_def)
  have "\<exists>j. open_table list_jar list_writer (Inr [(0, utf8 (S ''[1]''))]) = Some (Inr j)"
    unfolding open_table_def using rows by (simp add: list_jar_def utf8_char_def demo_cookie_def)
  then obtain j where "open_table list_jar list_writer (Inr [(0, utf8 (S ''[1]''))]) = Some (Inr j)" by blast
  with reopened_jar_is_durable_part [OF list_writer_laws(1) e snap w] show ?thesis
    unfolding f by (auto simp: list_jar_def)
qed

end
