(* ===== verification/Fragments.thy ===== *)
theory Fragments
  imports Utf8
begin

unbundle bit_operations_syntax

text \<open>
  The incremental indexer of fragmented MP4 (\<^verbatim>\<open>src/apps/chuzz/src/video/fragments.rs\<close>): bytes that a page appends to a
  media source arrive in chunks cut anywhere, and the indexer finds the boxes in them and hands out
  the extents of the encoded samples. The \<open>mp4parse\<close> crate and the arithmetic of \<open>f64\<close> are parameters.
  A failure is an error the code returns or, as a value of its own, a panic.
\<close>

section \<open>Results\<close>

datatype failure = Bad str | Panic

type_synonym 'a res = "failure + 'a"

definition bad :: "string \<Rightarrow> 'a res" where
  "bad m = Inl (Bad (S m))"

text \<open>The \<open>?\<close> operator.\<close>

definition andthen :: "'a res \<Rightarrow> ('a \<Rightarrow> 'b res) \<Rightarrow> 'b res" where
  "andthen r f = (case r of Inl e \<Rightarrow> Inl e | Inr x \<Rightarrow> f x)"

definition require :: "bool \<Rightarrow> string \<Rightarrow> 'b res \<Rightarrow> 'b res" where
  "require ok m r = (if ok then r else bad m)"

definition must :: "'a option \<Rightarrow> string \<Rightarrow> 'a res" where
  "must x m = (case x of None \<Rightarrow> bad m | Some y \<Rightarrow> Inr y)"

definition tag :: "string \<Rightarrow> bytes" where
  "tag = map of_char"

text \<open>\<open>&bytes[a..b]\<close>, which panics out of range.\<close>

definition subslice :: "bytes \<Rightarrow> nat \<Rightarrow> nat \<Rightarrow> bytes res" where
  "subslice bs a b = (if a \<le> b \<and> b \<le> length bs then Inr (take (b - a) (drop a bs)) else Inl Panic)"

section \<open>Fields\<close>

record reader =
  rd_bytes :: bytes
  rd_position :: nat

definition new_reader :: "bytes \<Rightarrow> reader" where
  "new_reader bs = \<lparr>rd_bytes = bs, rd_position = 0\<rparr>"

definition take_field :: "nat \<Rightarrow> reader \<Rightarrow> (bytes \<times> reader) res" where
  "take_field n r =
     andthen (must (checked_add (rd_position r) n) ''MP4 field offset overflow'') (\<lambda>e.
       if e \<le> length (rd_bytes r)
       then Inr (take n (drop (rd_position r) (rd_bytes r)), r\<lparr>rd_position := e\<rparr>)
       else bad ''truncated MP4 field'')"

definition be_nat :: "bytes \<Rightarrow> nat" where
  "be_nat bs = foldl (\<lambda>a b. a * 256 + unat b) 0 bs"

definition read_u32 :: "reader \<Rightarrow> (32 word \<times> reader) res" where
  "read_u32 r = andthen (take_field 4 r) (\<lambda>(bs, r'). Inr (of_nat (be_nat bs), r'))"

definition read_u64 :: "reader \<Rightarrow> (nat \<times> reader) res" where
  "read_u64 r = andthen (take_field 8 r) (\<lambda>(bs, r'). Inr (be_nat bs, r'))"

definition finish :: "reader \<Rightarrow> unit res" where
  "finish r = (if rd_position r = length (rd_bytes r) then Inr () else bad ''unexpected MP4 fields'')"

section \<open>Boxes\<close>

definition MAX_BOX :: nat where
  "MAX_BOX = 16 * 1024 * 1024"

definition MAX_SAMPLES :: nat where
  "MAX_SAMPLES = 1000000"

record box_ref =
  bx_kind :: bytes
  bx_start :: nat
  bx_header :: nat
  bx_end :: nat

definition body :: "box_ref \<Rightarrow> bytes \<Rightarrow> bytes res" where
  "body b bs = subslice bs (bx_start b + bx_header b) (bx_end b)"

text \<open>The size field, and how long the header is; \<open>None\<close> where more bytes are needed.\<close>

definition box_size :: "bytes \<Rightarrow> 32 word \<Rightarrow> reader \<Rightarrow> (nat \<times> nat) option res" where
  "box_size head sz r =
     (if sz = 0 then bad ''size-zero boxes are invalid in the MSE byte stream''
      else if sz = 1 then
        (if length head < 16 then Inr None else andthen (read_u64 r) (\<lambda>(n, _). Inr (Some (n, 16))))
      else Inr (Some (unat sz, 8)))"

definition box_at :: "bytes \<Rightarrow> nat \<Rightarrow> box_ref option res" where
  "box_at bs start =
     (let head = drop start bs
      in if length bs < start \<or> length head < 8 then Inr None
         else andthen (read_u32 (new_reader head)) (\<lambda>(sz, r).
              andthen (take_field 4 r) (\<lambda>(kind, r').
              andthen (box_size head sz r') (\<lambda>found.
                case found of
                  None \<Rightarrow> Inr None
                | Some (n, header) \<Rightarrow>
                    require (\<not> (n < header \<or> MAX_BOX < n)) ''invalid or oversized MSE MP4 box'' (
                    andthen (must (checked_add start n) ''MP4 box offset overflow'') (\<lambda>e.
                      if length bs < e then Inr None
                      else Inr (Some \<lparr>bx_kind = kind, bx_start = start, bx_header = header, bx_end = e\<rparr>)))))))"

lemmas res_defs = andthen_def require_def must_def bad_def

lemma box_at_bounds:
  "box_at bs start = Inr (Some b) \<Longrightarrow>
     bx_start b = start \<and> bx_header b \<in> {8, 16} \<and> bx_end b \<le> length bs \<and> start + bx_header b \<le> bx_end b
     \<and> bx_end b \<le> start + MAX_BOX"
  by (auto simp: box_at_def box_size_def res_defs Let_def checked_add_def split: sum.splits option.splits if_splits prod.splits)

function boxes_from :: "bytes \<Rightarrow> nat \<Rightarrow> nat \<Rightarrow> box_ref list res" where
  "boxes_from bs start n =
     (if start < length bs then
        (if 4096 \<le> n then bad ''too many MP4 child boxes''
         else case box_at bs start of
                Inl e \<Rightarrow> Inl e
              | Inr None \<Rightarrow> bad ''truncated MP4 child box''
              | Inr (Some item) \<Rightarrow> andthen (boxes_from bs (bx_end item) (n + 1)) (\<lambda>rest. Inr (item # rest)))
      else Inr [])"
  by pat_completeness auto
termination
  by (relation "measure (\<lambda>(bs, start, _). length bs - start)") (auto dest!: box_at_bounds)

declare boxes_from.simps [simp del]

definition boxes :: "bytes \<Rightarrow> box_ref list res" where
  "boxes bs = boxes_from bs 0 0"

section \<open>Tracks and samples\<close>

record 'f float_ops =
  fl_of_int :: "int \<Rightarrow> 'f"
  fl_add :: "'f \<Rightarrow> 'f \<Rightarrow> 'f"
  fl_div :: "'f \<Rightarrow> 'f \<Rightarrow> 'f"

datatype codec = Video bytes nat nat | Audio bytes nat

record track =
  tk_id :: "32 word"
  tk_scale :: nat
  tk_codec :: codec

record 'f sample =
  sm_offset :: nat
  sm_size :: nat
  sm_dts :: nat
  sm_delta :: "32 word"
  sm_pts :: 'f
  sm_duration :: 'f
  sm_sync :: bool

record 'f pending_sample =
  pk_track :: "32 word"
  pk_sample :: "'f sample"
  pk_decode_time :: 'f

record 'f encoded =
  en_track :: "32 word"
  en_sample :: "'f sample"
  en_decode_time :: 'f
  en_bytes :: bytes

definition data :: "'f encoded \<Rightarrow> bytes res" where
  "data e = subslice (en_bytes e) (sm_offset (en_sample e)) (sm_offset (en_sample e) + sm_size (en_sample e))"

record defaults =
  df_description :: "32 word"
  df_duration :: "32 word"
  df_size :: "32 word"
  df_flags :: "32 word"

record 'f fragments =
  fr_tracks :: "track list"
  fr_defaults :: "32 word \<rightharpoonup> defaults"
  fr_next_dts :: "32 word \<rightharpoonup> nat"
  fr_pending :: bytes
  fr_position :: nat
  fr_ftyp :: bytes
  fr_fragment :: "'f pending_sample list option"

definition new_fragments :: "'f fragments" where
  "new_fragments = \<lparr>fr_tracks = [], fr_defaults = (\<lambda>_. None), fr_next_dts = (\<lambda>_. None), fr_pending = [],
     fr_position = 0, fr_ftyp = [], fr_fragment = None\<rparr>"

definition pending_bytes :: "'f fragments \<Rightarrow> nat" where
  "pending_bytes st = length (fr_pending st)"

definition fragment_pending :: "'f fragments \<Rightarrow> bool" where
  "fragment_pending st \<longleftrightarrow> fr_fragment st \<noteq> None"

definition abort :: "'f fragments \<Rightarrow> 'f fragments" where
  "abort st = st\<lparr>fr_position := saturating_add (fr_position st) (length (fr_pending st)), fr_pending := [],
     fr_fragment := None\<rparr>"

section \<open>The initialization segment\<close>

text \<open>What \<open>mp4parse::read_mp4\<close> returns, as far as the code reads it.\<close>

record video_entry =
  ve_avcc :: "bytes option"
  ve_protected :: bool
  ve_width :: nat
  ve_height :: nat

record es_descriptor =
  es_object_type :: "nat option"
  es_extended :: "nat option"
  es_specific :: bytes
  es_rate :: "nat option"

record audio_entry =
  ae_es :: "es_descriptor option"
  ae_protected :: bool

datatype sample_entry = VideoEntry video_entry | AudioEntry audio_entry | OtherEntry

datatype track_type = TVideo | TAudio | TOther

record mp4_track =
  mt_id :: "32 word option"
  mt_timescale :: "nat option"
  mt_stsd :: "sample_entry list option"
  mt_type :: track_type

record mp4_context =
  mc_mvex :: bool
  mc_tracks :: "mp4_track list"

type_synonym mp4_parser = "bytes \<Rightarrow> str + mp4_context"

definition video_codec :: "video_entry \<Rightarrow> codec res" where
  "video_codec v =
     (case ve_avcc v of
        None \<Rightarrow> bad ''MSE supports only H.264 video''
      | Some avcc \<Rightarrow>
          require (\<not> (ve_protected v \<or> \<not> (1 < length avcc \<and> avcc ! 1 \<in> {66, 77, 100})
             \<or> ve_width v < 2 \<or> ve_height v < 2 \<or> ve_width v mod 2 \<noteq> 0 \<or> ve_height v mod 2 \<noteq> 0
             \<or> 3840 * 2160 < ve_width v * ve_height v)) ''unsupported or encrypted MSE video''
            (Inr (Video avcc (ve_width v) (ve_height v))))"

definition audio_codec :: "audio_entry \<Rightarrow> codec res" where
  "audio_codec a =
     (case ae_es a of
        None \<Rightarrow> bad ''MSE supports only AAC-LC audio''
      | Some es \<Rightarrow>
          require (\<not> (ae_protected a \<or> es_object_type es \<noteq> Some 2 \<or> es_extended es \<noteq> None
             \<or> es_specific es = [] \<or> 1024 < length (es_specific es))) ''unsupported or encrypted MSE audio''
            (case es_rate es of
               None \<Rightarrow> bad ''unsupported AAC sample rate''
             | Some rate \<Rightarrow>
                 if 8000 \<le> rate \<and> rate \<le> 192000 then Inr (Audio (es_specific es) rate)
                 else bad ''unsupported AAC sample rate''))"

definition track_codec :: "track_type \<Rightarrow> sample_entry \<Rightarrow> codec res" where
  "track_codec ty entry =
     (case (ty, entry) of
        (TVideo, VideoEntry v) \<Rightarrow> video_codec v
      | (TAudio, AudioEntry a) \<Rightarrow> audio_codec a
      | _ \<Rightarrow> bad ''unsupported MSE track'')"

fun read_tracks :: "mp4_track list \<Rightarrow> track list \<Rightarrow> track list res" where
  "read_tracks [] tracks = Inr tracks"
| "read_tracks (t # ts) tracks =
     andthen (must (mt_id t) ''missing MP4 track ID'') (\<lambda>i.
     andthen (case mt_timescale t of
                Some scale \<Rightarrow> if scale \<noteq> 0 then Inr scale else bad ''invalid MP4 track timescale''
              | None \<Rightarrow> bad ''invalid MP4 track timescale'') (\<lambda>scale.
     andthen (must (mt_stsd t) ''missing MP4 sample description'') (\<lambda>descriptions.
     require (length descriptions = 1) ''MSE requires one sample description per track'' (
     andthen (track_codec (mt_type t) (hd descriptions)) (\<lambda>c.
     require (i \<notin> tk_id ` set tracks) ''duplicate MP4 track ID'' (
       read_tracks ts (tracks @ [\<lparr>tk_id = i, tk_scale = scale, tk_codec = c\<rparr>])))))))"

definition read_trex :: "bytes \<Rightarrow> (32 word \<times> defaults) res" where
  "read_trex bs =
     andthen (read_u32 (new_reader bs)) (\<lambda>(version, r).
     require (version = 0) ''invalid trex version or flags'' (
     andthen (read_u32 r) (\<lambda>(i, r1).
     andthen (read_u32 r1) (\<lambda>(description, r2).
     andthen (read_u32 r2) (\<lambda>(duration, r3).
     andthen (read_u32 r3) (\<lambda>(size, r4).
     andthen (read_u32 r4) (\<lambda>(flags, r5).
     andthen (finish r5) (\<lambda>_.
       Inr (i, \<lparr>df_description = description, df_duration = duration, df_size = size, df_flags = flags\<rparr>)))))))))"

fun trex_loop :: "bytes \<Rightarrow> box_ref list \<Rightarrow> (32 word \<rightharpoonup> defaults) \<Rightarrow> (32 word \<rightharpoonup> defaults) res" where
  "trex_loop mvex [] ds = Inr ds"
| "trex_loop mvex (child # children) ds =
     (if bx_kind child \<noteq> tag ''trex'' then trex_loop mvex children ds
      else andthen (body child mvex) (\<lambda>b.
           andthen (read_trex b) (\<lambda>(i, value).
             require (\<not> (df_description value \<noteq> 1 \<or> ds i \<noteq> None)) ''invalid or duplicate trex''
               (trex_loop mvex children (ds(i \<mapsto> value))))))"

fun mvex_loop :: "bytes \<Rightarrow> box_ref list \<Rightarrow> (32 word \<rightharpoonup> defaults) \<Rightarrow> (32 word \<rightharpoonup> defaults) res" where
  "mvex_loop moov [] ds = Inr ds"
| "mvex_loop moov (child # children) ds =
     (if bx_kind child \<noteq> tag ''mvex'' then mvex_loop moov children ds
      else andthen (body child moov) (\<lambda>mvex.
           andthen (boxes mvex) (\<lambda>inner.
           andthen (trex_loop mvex inner ds) (\<lambda>ds'. mvex_loop moov children ds'))))"

definition initialise :: "mp4_parser \<Rightarrow> 'f fragments \<Rightarrow> bytes \<Rightarrow> bytes \<Rightarrow> 'f fragments res" where
  "initialise mp4 st moov bd =
     (case mp4 (fr_ftyp st @ moov) of
        Inl e \<Rightarrow> Inl (Bad (S ''MSE initialization: '' @ e))
      | Inr context \<Rightarrow>
          require (mc_mvex context) ''MSE requires fragmented MP4 initialization'' (
          andthen (read_tracks (mc_tracks context) []) (\<lambda>tracks.
          require (\<not> (tracks = [] \<or> 2 < length tracks)) ''MSE requires one or two supported tracks'' (
          andthen (boxes bd) (\<lambda>children.
          andthen (mvex_loop bd children (\<lambda>_. None)) (\<lambda>ds.
          require (list_all (\<lambda>t. ds (tk_id t) \<noteq> None) tracks) ''missing trex defaults'' (
          require (fr_tracks st = [] \<or> fr_tracks st = tracks) ''changing MSE codec configuration is unsupported''
            (Inr (st\<lparr>fr_tracks := tracks, fr_defaults := ds, fr_next_dts := (\<lambda>_. None)\<rparr>)))))))))"

section \<open>A fragment\<close>

text \<open>The optional field that a flag announces.\<close>

definition field_if :: "bool \<Rightarrow> 32 word \<Rightarrow> reader \<Rightarrow> (32 word \<times> reader) res" where
  "field_if present fallback r = (if present then read_u32 r else Inr (fallback, r))"

text \<open>\<open>u64::checked_add_signed\<close> of a value read as \<open>i32\<close>.\<close>

definition checked_add_signed :: "nat \<Rightarrow> int \<Rightarrow> nat option" where
  "checked_add_signed a d = (if 0 \<le> int a + d \<and> int a + d \<le> int u64_max then Some (nat (int a + d)) else None)"

record traf_header =
  th_track :: track
  th_base :: nat
  th_defaults :: defaults

definition read_tfhd :: "'f fragments \<Rightarrow> nat \<Rightarrow> nat \<Rightarrow> bytes \<Rightarrow> traf_header res" where
  "read_tfhd st moof_base implicit_base bs =
     andthen (read_u32 (new_reader bs)) (\<lambda>(flags, r).
     require (flags AND NOT 0x03003b = 0) ''unsupported tfhd version or flags'' (
     andthen (read_u32 r) (\<lambda>(i, r1).
     andthen (must (find (\<lambda>t. tk_id t = i) (fr_tracks st)) ''unknown fragment track'') (\<lambda>track.
     andthen (must (fr_defaults st i) ''missing fragment defaults'') (\<lambda>ds.
     andthen (if flags AND 1 \<noteq> 0 then read_u64 r1
              else Inr (if flags AND 0x020000 \<noteq> 0 then moof_base else implicit_base, r1)) (\<lambda>(base, r2).
     andthen (field_if (flags AND 2 \<noteq> 0) (df_description ds) r2) (\<lambda>(description, r3).
     andthen (field_if (flags AND 8 \<noteq> 0) (df_duration ds) r3) (\<lambda>(duration, r4).
     andthen (field_if (flags AND 16 \<noteq> 0) (df_size ds) r4) (\<lambda>(size, r5).
     andthen (field_if (flags AND 32 \<noteq> 0) (df_flags ds) r5) (\<lambda>(dflags, r6).
     andthen (finish r6) (\<lambda>_.
     require (\<not> (description \<noteq> 1 \<or> flags AND 0x010000 \<noteq> 0)) ''unsupported fragment sample description or empty duration''
       (Inr \<lparr>th_track = track, th_base = base,
          th_defaults = \<lparr>df_description = description, df_duration = duration, df_size = size, df_flags = dflags\<rparr>\<rparr>))))))))))))"

definition read_tfdt :: "bytes \<Rightarrow> nat res" where
  "read_tfdt bs =
     andthen (read_u32 (new_reader bs)) (\<lambda>(version, r).
     andthen (if version = 0 then andthen (read_u32 r) (\<lambda>(v, r1). Inr (unat v, r1))
              else if version = 0x01000000 then read_u64 r
              else bad ''invalid tfdt version or flags'') (\<lambda>(value, r1).
     andthen (finish r1) (\<lambda>_. Inr value)))"

text \<open>The samples of a run, from where the reader stands; with the offset and the time after the last one.\<close>

fun run_samples ::
  "'f float_ops \<Rightarrow> track \<Rightarrow> defaults \<Rightarrow> 32 word \<Rightarrow> 32 word \<Rightarrow> 32 word \<Rightarrow> nat \<Rightarrow> nat \<Rightarrow> nat \<Rightarrow> reader
   \<Rightarrow> ('f pending_sample list \<times> nat \<times> nat \<times> reader) res" where
  "run_samples fl track ds version flags first 0 offset dts r = Inr ([], offset, dts, r)"
| "run_samples fl track ds version flags first (Suc n) offset dts r =
     andthen (field_if (flags AND 0x100 \<noteq> 0) (df_duration ds) r) (\<lambda>(delta, r1).
     andthen (field_if (flags AND 0x200 \<noteq> 0) (df_size ds) r1) (\<lambda>(size, r2).
     andthen (field_if (flags AND 0x400 \<noteq> 0) first r2) (\<lambda>(sample_flags, r3).
     andthen (field_if (flags AND 0x800 \<noteq> 0) 0 r3) (\<lambda>(value, r4).
     let composition = (if flags AND 0x800 = 0 then 0 else if version = 0 then uint value else sint value);
         scale = fl_of_int fl (int (tk_scale track))
     in require (\<not> (delta = 0 \<or> size = 0 \<or> 4 * 1024 * 1024 < unat size)) ''invalid fragment sample duration or size'' (
     andthen (must (checked_add offset (unat size)) ''fragment data offset overflow'') (\<lambda>offset'.
     andthen (must (checked_add dts (unat delta)) ''fragment timestamp overflow'') (\<lambda>dts'.
     andthen (run_samples fl track ds version flags (df_flags ds) n offset' dts' r4) (\<lambda>(rest, tail).
       Inr (\<lparr>pk_track = tk_id track,
          pk_sample = \<lparr>sm_offset = offset, sm_size = unat size, sm_dts = dts, sm_delta = delta,
            sm_pts = fl_div fl (fl_add fl (fl_of_int fl (int dts)) (fl_of_int fl composition)) scale,
            sm_duration = fl_div fl (fl_of_int fl (uint delta)) scale, sm_sync = (sample_flags AND 0x10000 = 0)\<rparr>,
          pk_decode_time = fl_div fl (fl_of_int fl (int dts)) scale\<rparr> # rest, tail)))))))))"

definition read_trun ::
  "'f float_ops \<Rightarrow> traf_header \<Rightarrow> nat \<Rightarrow> nat \<Rightarrow> nat \<Rightarrow> bytes \<Rightarrow> ('f pending_sample list \<times> nat \<times> nat) res" where
  "read_trun fl th already offset dts bs =
     andthen (read_u32 (new_reader bs)) (\<lambda>(full, r).
     let version = drop_bit 24 full; flags = full AND 0x00ffffff
     in require (\<not> (1 < version \<or> flags AND NOT 0x000f05 \<noteq> 0 \<or> flags AND 4 \<noteq> 0 \<and> flags AND 0x400 \<noteq> 0))
          ''invalid trun version or flags'' (
     andthen (read_u32 r) (\<lambda>(count, r1).
     require (unat count \<le> saturating_sub MAX_SAMPLES already) ''too many fragment samples'' (
     andthen (if flags AND 1 \<noteq> 0
              then andthen (read_u32 r1) (\<lambda>(d, r2).
                   andthen (must (checked_add_signed (th_base th) (sint d)) ''invalid trun data offset'') (\<lambda>x. Inr (x, r2)))
              else Inr (offset, r1)) (\<lambda>(offset', r2).
     andthen (field_if (flags AND 4 \<noteq> 0) (df_flags (th_defaults th)) r2) (\<lambda>(first, r3).
     andthen (run_samples fl (th_track th) (th_defaults th) version flags first (unat count) offset' dts r3)
       (\<lambda>(samples, offset'', dts', r4). andthen (finish r4) (\<lambda>_. Inr (samples, offset'', dts')))))))))"

fun trun_loop ::
  "'f float_ops \<Rightarrow> traf_header \<Rightarrow> bytes \<Rightarrow> box_ref list \<Rightarrow> nat \<Rightarrow> nat \<Rightarrow> nat
   \<Rightarrow> ('f pending_sample list \<times> nat \<times> nat) res" where
  "trun_loop fl th traf [] already offset dts = Inr ([], offset, dts)"
| "trun_loop fl th traf (child # children) already offset dts =
     andthen (body child traf) (\<lambda>b.
     andthen (read_trun fl th already offset dts b) (\<lambda>(samples, offset', dts').
     andthen (trun_loop fl th traf children (already + length samples) offset' dts') (\<lambda>(rest, tail).
       Inr (samples @ rest, tail))))"

definition read_traf ::
  "'f float_ops \<Rightarrow> 'f fragments \<Rightarrow> nat \<Rightarrow> nat \<Rightarrow> nat \<Rightarrow> bytes
   \<Rightarrow> (32 word \<times> 'f pending_sample list \<times> nat \<times> nat) res" where
  "read_traf fl st moof_base implicit_base already traf =
     andthen (boxes traf) (\<lambda>children.
     require (\<not> list_ex (\<lambda>c. bx_kind c \<in> {tag ''senc'', tag ''saiz'', tag ''saio''}) children)
       ''encrypted fragments are unsupported'' (
     let headers = filter (\<lambda>c. bx_kind c = tag ''tfhd'') children; times = filter (\<lambda>c. bx_kind c = tag ''tfdt'') children
     in require (length headers = 1) ''traf requires exactly one tfhd'' (
     andthen (body (hd headers) traf) (\<lambda>hb.
     andthen (read_tfhd st moof_base implicit_base hb) (\<lambda>th.
     require (\<not> 1 < length times) ''duplicate tfdt'' (
     andthen (case times of
                [] \<Rightarrow> must (fr_next_dts st (tk_id (th_track th))) ''first fragment requires tfdt''
              | time # _ \<Rightarrow> andthen (body time traf) read_tfdt) (\<lambda>dts.
     andthen (trun_loop fl th traf (filter (\<lambda>c. bx_kind c = tag ''trun'') children) already (th_base th) dts)
       (\<lambda>(samples, offset, dts'). Inr (tk_id (th_track th), samples, offset, dts')))))))))"

fun moof_loop ::
  "'f float_ops \<Rightarrow> nat \<Rightarrow> bytes \<Rightarrow> box_ref list \<Rightarrow> nat \<Rightarrow> 'f pending_sample list \<Rightarrow> 'f fragments
   \<Rightarrow> 'f fragments \<times> 'f pending_sample list res" where
  "moof_loop fl moof_base bd [] implicit_base result st =
     (st, require (result \<noteq> []) ''fragment has no playable samples'' (Inr result))"
| "moof_loop fl moof_base bd (child # children) implicit_base result st =
     (if bx_kind child \<noteq> tag ''traf'' then moof_loop fl moof_base bd children implicit_base result st
      else case andthen (body child bd) (read_traf fl st moof_base implicit_base (length result)) of
             Inl e \<Rightarrow> (st, Inl e)
           | Inr (i, samples, offset, dts) \<Rightarrow>
               moof_loop fl moof_base bd children offset (result @ samples)
                 (st\<lparr>fr_next_dts := (fr_next_dts st)(i \<mapsto> dts)\<rparr>))"

definition moof ::
  "'f float_ops \<Rightarrow> 'f fragments \<Rightarrow> bytes \<Rightarrow> nat \<Rightarrow> 'f fragments \<times> 'f pending_sample list res" where
  "moof fl st bd moof_base =
     (case boxes bd of
        Inl e \<Rightarrow> (st, Inl e)
      | Inr children \<Rightarrow> moof_loop fl moof_base bd children moof_base [] st)"

section \<open>Appending\<close>

fun deliver ::
  "nat \<Rightarrow> nat \<Rightarrow> nat \<Rightarrow> bytes \<Rightarrow> 'f pending_sample list \<Rightarrow> 'f encoded list res" where
  "deliver pos lower upper input [] = Inr []"
| "deliver pos lower upper input (p # ps) =
     (let s = pk_sample p
      in andthen (must (checked_add (sm_offset s) (sm_size s)) ''MP4 sample extent overflow'') (\<lambda>e.
         require (\<not> (sm_offset s < lower \<or> upper < e)) ''fragment sample is outside its mdat'' (
         if sm_offset s < pos then Inl Panic
         else andthen (deliver pos lower upper input ps) (\<lambda>rest.
           Inr (\<lparr>en_track = pk_track p, en_sample = s\<lparr>sm_offset := sm_offset s - pos\<rparr>,
              en_decode_time = pk_decode_time p, en_bytes = input\<rparr> # rest)))))"

text \<open>One top-level box; \<open>u64\<close> additions that the code does not check panic when they overflow.\<close>

definition whole_box :: "box_ref \<Rightarrow> bytes \<Rightarrow> bytes res" where
  "whole_box item input = subslice input (bx_start item) (bx_end item)"

definition box_ftyp :: "bytes \<Rightarrow> box_ref \<Rightarrow> 'f fragments \<Rightarrow> 'f fragments \<times> 'f encoded list res" where
  "box_ftyp input item st =
     (if fr_fragment st \<noteq> None \<or> 65536 < bx_end item - bx_start item
      then (st, bad ''invalid MSE initialization segment'')
      else case whole_box item input of Inl e \<Rightarrow> (st, Inl e) | Inr w \<Rightarrow> (st\<lparr>fr_ftyp := w\<rparr>, Inr []))"

definition box_moov ::
  "mp4_parser \<Rightarrow> bytes \<Rightarrow> box_ref \<Rightarrow> bytes \<Rightarrow> 'f fragments \<Rightarrow> 'f fragments \<times> 'f encoded list res" where
  "box_moov mp4 input item bd st =
     (if fr_fragment st \<noteq> None \<or> fr_ftyp st = [] then (st, bad ''MSE moov must follow ftyp'')
      else case andthen (whole_box item input) (\<lambda>w. initialise mp4 st w bd) of
             Inl e \<Rightarrow> (st, Inl e) | Inr st' \<Rightarrow> (st', Inr []))"

definition box_moof ::
  "'f float_ops \<Rightarrow> box_ref \<Rightarrow> bytes \<Rightarrow> 'f fragments \<Rightarrow> 'f fragments \<times> 'f encoded list res" where
  "box_moof fl item bd st =
     (if fr_fragment st \<noteq> None \<or> fr_tracks st = [] then (st, bad ''MSE moof without initialization or mdat'')
      else case checked_add (fr_position st) (bx_start item) of
             None \<Rightarrow> (st, bad ''MSE stream offset overflow'')
           | Some base \<Rightarrow>
               (case moof fl st bd base of
                  (st', Inl e) \<Rightarrow> (st', Inl e)
                | (st', Inr samples) \<Rightarrow> (st'\<lparr>fr_fragment := Some samples\<rparr>, Inr [])))"

definition box_mdat :: "bytes \<Rightarrow> box_ref \<Rightarrow> 'f fragments \<Rightarrow> 'f fragments \<times> 'f encoded list res" where
  "box_mdat input item st =
     (case fr_fragment st of
        None \<Rightarrow> (st, bad ''MSE mdat without moof'')
      | Some samples \<Rightarrow>
          (st\<lparr>fr_fragment := None\<rparr>,
           case (checked_add (fr_position st) (bx_start item + bx_header item),
                 checked_add (fr_position st) (bx_end item)) of
             (Some lower, Some upper) \<Rightarrow> deliver (fr_position st) lower upper input samples
           | _ \<Rightarrow> Inl Panic))"

definition top_box ::
  "mp4_parser \<Rightarrow> 'f float_ops \<Rightarrow> bytes \<Rightarrow> box_ref \<Rightarrow> 'f fragments \<Rightarrow> 'f fragments \<times> 'f encoded list res" where
  "top_box mp4 fl input item st =
     (case body item input of
        Inl e \<Rightarrow> (st, Inl e)
      | Inr bd \<Rightarrow>
          (let kind = bx_kind item
           in if kind = tag ''ftyp'' then box_ftyp input item st
              else if kind = tag ''moov'' then box_moov mp4 input item bd st
              else if kind = tag ''moof'' then box_moof fl item bd st
              else if kind = tag ''mdat'' then box_mdat input item st
              else if kind \<in> {tag ''free'', tag ''skip'', tag ''styp'', tag ''sidx'', tag ''emsg'', tag ''prft''}
              then (st, Inr [])
              else (st, bad ''unsupported MSE top-level MP4 box'')))"

function append_loop ::
  "mp4_parser \<Rightarrow> 'f float_ops \<Rightarrow> bytes \<Rightarrow> nat \<Rightarrow> nat \<Rightarrow> 'f fragments \<Rightarrow> 'f fragments \<times> ('f encoded list \<times> nat) res" where
  "append_loop mp4 fl input cursor count st =
     (case box_at input cursor of
        Inl e \<Rightarrow> (st, Inl e)
      | Inr None \<Rightarrow> (st, Inr ([], cursor))
      | Inr (Some item) \<Rightarrow>
          if 4096 < count + 1 then (st, bad ''too many top-level MP4 boxes'')
          else (case top_box mp4 fl input item st of
                  (st', Inl e) \<Rightarrow> (st', Inl e)
                | (st', Inr out) \<Rightarrow>
                    (case append_loop mp4 fl input (bx_end item) (count + 1) st' of
                       (st'', Inl e) \<Rightarrow> (st'', Inl e)
                     | (st'', Inr (rest, c)) \<Rightarrow> (st'', Inr (out @ rest, c)))))"
  by pat_completeness auto
termination
proof (relation "measure (\<lambda>(_, _, input, cursor, _). length input - cursor)")
  fix mp4 :: mp4_parser and fl :: "'f float_ops" and input cursor count and st st' :: "'f fragments" and x item p out z
  assume "box_at input cursor = Inr x" "x = Some item"
  then have "box_at input cursor = Inr (Some item)" by simp
  from box_at_bounds [OF this]
  show "((mp4, fl, input, bx_end item, count + 1, st'), mp4, fl, input, cursor, count, st)
      \<in> measure (\<lambda>(_, _, input, cursor, _). length input - cursor)" by auto
qed simp

declare append_loop.simps [simp del]

definition append_input :: "bytes \<Rightarrow> 'f fragments \<Rightarrow> bytes res" where
  "append_input bs st =
     (if fr_pending st = [] then Inr bs
      else case checked_add (length (fr_pending st)) (length bs) of
             None \<Rightarrow> bad ''MSE partial segment exceeds its limit''
           | Some n \<Rightarrow> require (n \<le> MAX_BOX * 2) ''MSE partial segment exceeds its limit'' (Inr (fr_pending st @ bs)))"

definition append ::
  "mp4_parser \<Rightarrow> 'f float_ops \<Rightarrow> bytes \<Rightarrow> 'f fragments \<Rightarrow> 'f fragments \<times> 'f encoded list res" where
  "append mp4 fl bs st =
     (case append_input bs st of
        Inl e \<Rightarrow> (st, Inl e)
      | Inr input \<Rightarrow>
          (case append_loop mp4 fl input 0 0 st of
             (st', Inl e) \<Rightarrow> (st', Inl e)
           | (st', Inr (output, cursor)) \<Rightarrow>
               (case checked_add (fr_position st') cursor of
                  None \<Rightarrow> (st', bad ''MSE stream offset overflow'')
                | Some pos \<Rightarrow> (st'\<lparr>fr_position := pos, fr_pending := drop cursor input\<rparr>, Inr output))))"

end
