(* ===== verification/Fragment_Props.thy ===== *)
theory Fragment_Props
  imports Fragments
begin

unbundle bit_operations_syntax

text \<open>
  What the fragment indexer guarantees for any bytes: it never panics, the extents it hands out lie inside their buffer,
  no byte of the stream is lost or counted twice, what it keeps is bounded, the samples of a run are contiguous, and
  how the stream is cut into chunks makes no difference.
\<close>

section \<open>No panic\<close>

definition safe :: "'a res \<Rightarrow> bool" where
  "safe r \<longleftrightarrow> r \<noteq> Inl Panic"

named_theorems safe_intros \<open>results that are not a panic\<close>

lemma safe_basic [simp, safe_intros]:
  "safe (Inr x)" "safe (bad m)" "safe (must y m)" "safe (Inl (Bad e))"
  by (auto simp: safe_def res_defs split: option.split)

lemma safe_andthen [safe_intros]: "safe r \<Longrightarrow> (\<And>x. r = Inr x \<Longrightarrow> safe (f x)) \<Longrightarrow> safe (andthen r f)"
  by (auto simp: safe_def andthen_def split: sum.splits)

lemma safe_require [safe_intros]: "(ok \<Longrightarrow> safe r) \<Longrightarrow> safe (require ok m r)"
  by (simp add: require_def)

lemma safe_if [safe_intros]: "(c \<Longrightarrow> safe a) \<Longrightarrow> (\<not> c \<Longrightarrow> safe b) \<Longrightarrow> safe (if c then a else b)"
  by simp

lemma safe_split [safe_intros]: "(\<And>a b. x = (a, b) \<Longrightarrow> safe (f a b)) \<Longrightarrow> safe (case x of (a, b) \<Rightarrow> f a b)"
  by (cases x) simp

lemma safe_option [safe_intros]:
  "(x = None \<Longrightarrow> safe a) \<Longrightarrow> (\<And>y. x = Some y \<Longrightarrow> safe (f y)) \<Longrightarrow> safe (case x of None \<Rightarrow> a | Some y \<Rightarrow> f y)"
  by (cases x) simp_all

lemma safe_take_field [simp, safe_intros]: "safe (take_field n r)"
  unfolding take_field_def by (intro safe_intros)

lemma safe_reads [simp, safe_intros]: "safe (read_u32 r)" "safe (read_u64 r)" "safe (finish r)"
  unfolding read_u32_def read_u64_def finish_def by (intro safe_intros)+

lemma safe_field_if [simp, safe_intros]: "safe (field_if b x r)"
  unfolding field_if_def by (intro safe_intros)

lemma safe_box_at [simp, safe_intros]: "safe (box_at bs start)"
proof -
  have "safe (box_size head sz r)" for head sz r unfolding box_size_def by (intro safe_intros)
  then show ?thesis unfolding box_at_def Let_def by (intro safe_intros)
qed

text \<open>A box that lies in the bytes it was found in.\<close>

definition fits :: "bytes \<Rightarrow> box_ref \<Rightarrow> bool" where
  "fits bs b \<longleftrightarrow> bx_start b + bx_header b \<le> bx_end b \<and> bx_end b \<le> length bs"

lemma safe_body: "fits bs b \<Longrightarrow> safe (body b bs)"
  by (simp add: fits_def body_def subslice_def safe_def)

lemma box_at_fits: "box_at bs start = Inr (Some b) \<Longrightarrow> fits bs b"
  by (auto dest: box_at_bounds simp: fits_def)

lemma boxes_from_fits: "safe (boxes_from bs start n) \<and> (boxes_from bs start n = Inr xs \<longrightarrow> (\<forall>b\<in>set xs. fits bs b))"
proof (induction bs start n arbitrary: xs rule: boxes_from.induct)
  case (1 bs start n)
  show ?case
  proof (cases "start < length bs \<and> n < 4096 \<and> (\<exists>b. box_at bs start = Inr (Some b))")
    case True
    then obtain b where b: "box_at bs start = Inr (Some b)" "start < length bs" "\<not> 4096 \<le> n" by auto
    have IH: "safe (boxes_from bs (bx_end b) (n + 1))"
      "\<And>ys. boxes_from bs (bx_end b) (n + 1) = Inr ys \<Longrightarrow> \<forall>b\<in>set ys. fits bs b" using "1.IH" [OF b(2,3,1) refl] by blast+
    have e: "boxes_from bs start n = andthen (boxes_from bs (bx_end b) (n + 1)) (\<lambda>rest. Inr (b # rest))"
      by (subst boxes_from.simps) (use b in simp)
    have "safe (boxes_from bs start n)" unfolding e by (intro safe_intros IH)
    moreover have "\<forall>x\<in>set xs. fits bs x" if "boxes_from bs start n = Inr xs"
      using that IH(2) box_at_fits [OF b(1)] unfolding e by (auto simp: andthen_def split: sum.splits)
    ultimately show ?thesis by blast
  next
    case False
    then show ?thesis using safe_box_at [of bs start]
      by (subst (1 2) boxes_from.simps) (auto simp: safe_def bad_def split: sum.split option.split)
  qed
qed

lemma safe_boxes [simp, safe_intros]: "safe (boxes bs)"
  using boxes_from_fits by (auto simp: boxes_def)

lemma boxes_fit: "boxes bs = Inr xs \<Longrightarrow> b \<in> set xs \<Longrightarrow> fits bs b"
  using boxes_from_fits [of bs 0 0 xs] by (auto simp: boxes_def)

section \<open>Initialization and fragments do not panic\<close>

lemma safe_codecs: "safe (track_codec ty e)"
proof -
  have "safe (video_codec v)" for v by (auto simp: video_codec_def split: option.split intro!: safe_intros)
  moreover have "safe (audio_codec a)" for a by (auto simp: audio_codec_def split: option.split intro!: safe_intros)
  ultimately show ?thesis by (auto simp: track_codec_def split: track_type.split sample_entry.split)
qed

lemma safe_read_tracks: "safe (read_tracks ts acc)"
proof (induction ts acc rule: read_tracks.induct)
  case (2 t ts tracks)
  have "safe (case mt_timescale t of Some scale \<Rightarrow> if scale \<noteq> 0 then Inr scale else bad ''invalid MP4 track timescale''
              | None \<Rightarrow> bad ''invalid MP4 track timescale'')" by (simp split: option.split)
  then show ?case unfolding read_tracks.simps by (intro safe_intros safe_codecs 2)
qed simp

lemma safe_read_trex [simp, safe_intros]: "safe (read_trex bs)"
  unfolding read_trex_def by (intro safe_intros)

lemma safe_trex_loop: "(\<And>b. b \<in> set xs \<Longrightarrow> fits mvex b) \<Longrightarrow> safe (trex_loop mvex xs ds)"
proof (induction xs arbitrary: ds)
  case (Cons b xs)
  show ?case unfolding trex_loop.simps by (intro safe_intros safe_body Cons.IH) (use Cons.prems in auto)
qed simp

lemma safe_mvex_loop: "(\<And>b. b \<in> set xs \<Longrightarrow> fits moov b) \<Longrightarrow> safe (mvex_loop moov xs ds)"
proof (induction xs arbitrary: ds)
  case (Cons b xs)
  show ?case unfolding mvex_loop.simps
    by (intro safe_intros safe_body safe_trex_loop Cons.IH) (use Cons.prems in \<open>auto dest: boxes_fit\<close>)
qed simp

lemma safe_initialise: "safe (initialise mp4 st moov bd)"
  unfolding initialise_def
  by (cases "mp4 (fr_ftyp st @ moov)") (auto intro!: safe_intros safe_read_tracks safe_mvex_loop dest: boxes_fit)

lemma safe_read_tfhd [simp, safe_intros]: "safe (read_tfhd st a b bs)"
  unfolding read_tfhd_def by (intro safe_intros)

lemma safe_read_tfdt [simp, safe_intros]: "safe (read_tfdt bs)"
  unfolding read_tfdt_def by (intro safe_intros)

lemma safe_run_samples: "safe (run_samples fl track ds version flags first n offset dts r)"
proof (induction n arbitrary: first offset dts r)
  case (Suc n)
  show ?case unfolding run_samples.simps Let_def by (intro safe_intros Suc.IH)
qed simp

lemma safe_read_trun [simp, safe_intros]: "safe (read_trun fl th already offset dts bs)"
  unfolding read_trun_def Let_def by (intro safe_intros safe_run_samples)

lemma safe_trun_loop: "(\<And>b. b \<in> set xs \<Longrightarrow> fits traf b) \<Longrightarrow> safe (trun_loop fl th traf xs already offset dts)"
proof (induction xs arbitrary: already offset dts)
  case (Cons b xs)
  show ?case unfolding trun_loop.simps by (intro safe_intros safe_body Cons.IH) (use Cons.prems in auto)
qed simp

lemma hd_filter_mem: "length (filter P xs) = Suc 0 \<Longrightarrow> hd (filter P xs) \<in> set xs"
  by (metis filter_is_subset hd_in_set length_0_conv subsetD nat.simps(3))

lemma safe_read_traf: "safe (read_traf fl st a b already traf)"
proof -
  have t: "safe (case times of [] \<Rightarrow> must x m | time # _ \<Rightarrow> andthen (body time traf) read_tfdt)"
    if "\<And>b. b \<in> set times \<Longrightarrow> fits traf b" for times x m
    using that by (cases times) (auto intro!: safe_intros safe_body)
  show ?thesis unfolding read_traf_def Let_def
    by (intro safe_intros safe_body safe_trun_loop t) (auto dest: boxes_fit intro: boxes_fit hd_filter_mem)
qed

lemma safe_moof_loop:
  "(\<And>b. b \<in> set xs \<Longrightarrow> fits bd b) \<Longrightarrow> safe (snd (moof_loop fl base bd xs implicit result st))"
proof (induction fl base bd xs implicit result st rule: moof_loop.induct)
  case (2 fl base bd b xs implicit result st)
  have "safe (andthen (body b bd) (read_traf fl st base implicit (length result)))"
    using "2.prems" by (intro safe_intros safe_body safe_read_traf) simp
  with 2 show ?case by (auto simp: safe_def split: sum.split)
qed (auto intro!: safe_intros)

lemma safe_moof: "safe (snd (moof fl st bd base))"
  using safe_boxes [of bd]
  by (auto simp: moof_def safe_def split: sum.split dest: boxes_fit intro!: safe_moof_loop [unfolded safe_def])

section \<open>Appending does not panic\<close>

lemma moof_loop_position: "fr_position (fst (moof_loop fl base bd xs implicit result st)) = fr_position st"
  by (induction fl base bd xs implicit result st rule: moof_loop.induct) (auto split: sum.split)

lemma moof_position: "fr_position (fst (moof fl st bd base)) = fr_position st"
  by (simp add: moof_def moof_loop_position split: sum.split)

lemma initialise_position: "initialise mp4 st moov bd = Inr st' \<Longrightarrow> fr_position st' = fr_position st"
  by (auto simp: initialise_def res_defs split: sum.splits if_splits)

lemma box_positions:
  "fr_position (fst (box_ftyp input item st)) = fr_position st"
  "fr_position (fst (box_moov mp4 input item bd st)) = fr_position st"
  "fr_position (fst (box_moof fl item bd st)) = fr_position st"
  "fr_position (fst (box_mdat input item st)) = fr_position st"
proof -
  show "fr_position (fst (box_ftyp input item st)) = fr_position st" by (auto simp: box_ftyp_def split: sum.split)
  show "fr_position (fst (box_moov mp4 input item bd st)) = fr_position st"
    by (auto simp: box_moov_def andthen_def dest!: initialise_position split: sum.split)
  have "moof fl st bd base = (st', r) \<Longrightarrow> fr_position st' = fr_position st" for bd base st' r
    using moof_position [of fl st bd base] by simp
  then show "fr_position (fst (box_moof fl item bd st)) = fr_position st"
    by (auto simp: box_moof_def split: option.split prod.split sum.split)
  show "fr_position (fst (box_mdat input item st)) = fr_position st" by (auto simp: box_mdat_def split: option.split)
qed

lemma top_box_position: "fr_position (fst (top_box mp4 fl input item st)) = fr_position st"
  by (simp add: top_box_def Let_def box_positions split: sum.split)

lemma safe_deliver: "pos \<le> lower \<Longrightarrow> safe (deliver pos lower upper input ps)"
proof (induction ps)
  case (Cons p ps)
  then show ?case unfolding deliver.simps Let_def by (intro safe_intros) auto
qed simp

lemma fits_whole: "fits input item \<Longrightarrow> whole_box item input = Inr (take (bx_end item - bx_start item) (drop (bx_start item) input))"
  by (simp add: whole_box_def subslice_def fits_def)

lemma fits_body:
  "fits input item \<Longrightarrow> body item input = Inr (take (bx_end item - (bx_start item + bx_header item)) (drop (bx_start item + bx_header item) input))"
  by (simp add: body_def subslice_def fits_def)

lemma safe_box_mdat:
  assumes "fits input item" and "fr_position st + length input \<le> u64_max"
  shows "safe (snd (box_mdat input item st))"
proof -
  have "checked_add (fr_position st) (bx_start item + bx_header item) = Some (fr_position st + (bx_start item + bx_header item))"
    "checked_add (fr_position st) (bx_end item) = Some (fr_position st + bx_end item)"
    using assms by (auto simp: checked_add_def fits_def)
  then show ?thesis by (auto simp: box_mdat_def intro!: safe_deliver split: option.split)
qed

lemma safe_boxes_rest:
  assumes "fits input item"
  shows "safe (snd (box_ftyp input item st))" "safe (snd (box_moov mp4 input item bd st))" "safe (snd (box_moof fl item bd st))"
proof -
  show "safe (snd (box_ftyp input item st))" using fits_whole [OF assms] by (auto simp: box_ftyp_def)
  have "initialise mp4 st x bd = Inl e \<Longrightarrow> e \<noteq> Panic" for x e using safe_initialise [of mp4 st x bd] by (auto simp: safe_def)
  then show "safe (snd (box_moov mp4 input item bd st))" using fits_whole [OF assms]
    by (auto simp: box_moov_def safe_def bad_def andthen_def split: sum.split)
  have "moof fl st bd base = (st', Inl e) \<Longrightarrow> e \<noteq> Panic" for base st' e
    using safe_moof [of fl st bd base] by (auto simp: safe_def)
  then show "safe (snd (box_moof fl item bd st))"
    by (auto simp: box_moof_def safe_def bad_def split: sum.split option.split prod.split)
qed

lemma safe_top_box:
  assumes "fits input item" and "fr_position st + length input \<le> u64_max"
  shows "safe (snd (top_box mp4 fl input item st))"
  using assms by (auto simp: top_box_def fits_body Let_def safe_boxes_rest safe_box_mdat)

lemma append_loop_safe:
  "fr_position st + length input \<le> u64_max \<Longrightarrow> safe (snd (append_loop mp4 fl input cursor count st))
     \<and> fr_position (fst (append_loop mp4 fl input cursor count st)) = fr_position st"
proof (induction mp4 fl input cursor count st rule: append_loop.induct)
  case (1 mp4 fl input cursor count st)
  show ?case
  proof (cases "\<exists>item. box_at input cursor = Inr (Some item) \<and> count < 4096")
    case False
    then show ?thesis using safe_box_at [of input cursor]
      by (subst (1 2) append_loop.simps) (auto simp: safe_def bad_def split: sum.split option.split)
  next
    case True
    then obtain item where item: "box_at input cursor = Inr (Some item)" "\<not> 4096 < count + 1" by auto
    obtain st' r where t: "top_box mp4 fl input item st = (st', r)" by (rule prod.exhaust)
    have s: "safe r" using safe_top_box [OF box_at_fits [OF item(1)] "1.prems", of mp4 fl] t by simp
    have p: "fr_position st' = fr_position st" using top_box_position [of mp4 fl input item st] t by simp
    show ?thesis
    proof (cases r)
      case (Inl e)
      then show ?thesis using item t s p by (subst (1 2) append_loop.simps) (auto simp: safe_def)
    next
      case (Inr out)
      have "fr_position st' + length input \<le> u64_max" using "1.prems" p by simp
      from "1.IH" [OF item(1) refl item(2) t [symmetric] Inr this] show ?thesis
        using item t Inr p by (subst (1 2) append_loop.simps) (auto simp: safe_def split: sum.split prod.split)
    qed
  qed
qed

lemma append_input_Inr: "append_input bs st = Inr input \<Longrightarrow> input = fr_pending st @ bs"
  by (auto simp: append_input_def bad_def require_def split: option.splits if_splits)

lemma append_safe:
  assumes "fr_position st + length (fr_pending st) + length bs \<le> u64_max"
  shows "snd (append mp4 fl bs st) \<noteq> Inl Panic"
proof (cases "append_input bs st")
  case (Inl e)
  then have "e \<noteq> Panic" by (auto simp: append_input_def bad_def require_def split: option.splits if_splits)
  with Inl show ?thesis by (simp add: append_def)
next
  case (Inr input)
  then have "input = fr_pending st @ bs" by (rule append_input_Inr)
  then have "safe (snd (append_loop mp4 fl input 0 0 st))" using append_loop_safe [of st input mp4 fl 0 0] assms by simp
  then show ?thesis using Inr
    by (auto simp: append_def safe_def bad_def split: sum.split option.split prod.split)
qed

text \<open>
  C14. No bytes a page appends make the indexer panic, however they are cut or corrupted, as long as the stream is shorter
  than \<open>2\<^sup>64\<close> bytes: every slice it takes is inside its buffer and no unchecked addition or subtraction wraps.
\<close>

theorem append_never_panics:
  assumes "fr_position st + length (fr_pending st) + length bs \<le> u64_max"
  shows "snd (append mp4 fl bs st) \<noteq> Inl Panic"
  using assms by (rule append_safe)

theorem append_never_panics_witness:
  "snd (append (\<lambda>_. Inl []) \<lparr>fl_of_int = id, fl_add = (+), fl_div = (div)\<rparr> [0, 0, 0, 8, 109, 100, 97, 116] new_fragments) \<noteq> Inl Panic"
  by (rule append_never_panics) (simp add: new_fragments_def u64_max_def)

section \<open>Extents and accounting\<close>

definition extent_ok :: "bytes \<Rightarrow> 'f encoded \<Rightarrow> bool" where
  "extent_ok input e \<longleftrightarrow> en_bytes e = input \<and> sm_offset (en_sample e) + sm_size (en_sample e) \<le> length input"

lemma deliver_extents:
  "pos \<le> lower \<Longrightarrow> upper \<le> pos + length input \<Longrightarrow> deliver pos lower upper input ps = Inr out \<Longrightarrow> e \<in> set out \<Longrightarrow> extent_ok input e"
proof (induction ps arbitrary: out)
  case (Cons p ps)
  then obtain rest where r: "deliver pos lower upper input ps = Inr rest"
    by (auto simp: Let_def res_defs split: option.splits if_splits sum.splits)
  let ?s = "pk_sample p"
  from Cons.prems(3) r have o: "out = \<lparr>en_track = pk_track p, en_sample = ?s\<lparr>sm_offset := sm_offset ?s - pos\<rparr>,
      en_decode_time = pk_decode_time p, en_bytes = input\<rparr> # rest"
    and b: "lower \<le> sm_offset ?s" "sm_offset ?s + sm_size ?s \<le> upper"
    by (auto simp: Let_def res_defs checked_add_def split: option.splits if_splits sum.splits)
  from Cons.prems(4) o Cons.IH [OF Cons.prems(1,2) r] show ?case
    using b Cons.prems(1,2) by (auto simp: extent_ok_def)
qed simp

lemma top_box_extents:
  assumes "fits input item" and "top_box mp4 fl input item st = (st', Inr out)" and "e \<in> set out"
  shows "extent_ok input e"
proof -
  have "box_mdat input item st = (st', Inr out)"
    using assms(2,3) by (auto simp: top_box_def Let_def box_ftyp_def box_moov_def box_moof_def bad_def
        split: sum.splits if_splits option.splits prod.splits)
  then obtain ps where "deliver (fr_position st) (fr_position st + (bx_start item + bx_header item))
      (fr_position st + bx_end item) input ps = Inr out"
    using assms(3) by (auto simp: box_mdat_def bad_def checked_add_def split: option.splits if_splits)
  from deliver_extents [OF _ _ this assms(3)] assms(1) show ?thesis by (simp add: fits_def)
qed

lemma append_loop_done:
  "append_loop mp4 fl input cursor count st = (st', Inr (out, c)) \<Longrightarrow> cursor \<le> length input \<Longrightarrow>
     cursor \<le> c \<and> c \<le> length input \<and> box_at input c = Inr None \<and> (\<forall>e\<in>set out. extent_ok input e)"
proof (induction mp4 fl input cursor count st arbitrary: out rule: append_loop.induct)
  case (1 mp4 fl input cursor count st)
  show ?case
  proof (cases "box_at input cursor")
    case (Inl e)
    with "1.prems"(1) show ?thesis by (simp add: append_loop.simps [of mp4 fl input cursor])
  next
    case (Inr x)
    show ?thesis
    proof (cases x)
      case None
      with "1.prems" Inr show ?thesis by (simp add: append_loop.simps [of mp4 fl input cursor])
    next
      case (Some item)
      then have item: "box_at input cursor = Inr (Some item)" using Inr by simp
      then obtain st1 o1 o2 where t: "\<not> 4096 < count + 1" "top_box mp4 fl input item st = (st1, Inr o1)"
        "append_loop mp4 fl input (bx_end item) (count + 1) st1 = (st', Inr (o2, c))" "out = o1 @ o2"
        using "1.prems"(1) by (auto simp: append_loop.simps [of mp4 fl input cursor] bad_def split: if_splits prod.splits sum.splits)
      have b: "cursor < bx_end item" "bx_end item \<le> length input" using box_at_bounds [OF item] by auto
      from "1.IH" [OF Inr Some t(1) t(2) [symmetric] refl t(3) b(2)] b top_box_extents [OF box_at_fits [OF item] t(2)] t(4)
      show ?thesis by auto
    qed
  qed
qed

lemma incomplete_box_small: "box_at bs c = Inr None \<Longrightarrow> length bs - c < MAX_BOX"
  by (auto simp: box_at_def box_size_def res_defs Let_def checked_add_def MAX_BOX_def
      split: sum.splits option.splits if_splits prod.splits)

lemma append_InrE:
  assumes "append mp4 fl bs st = (st', Inr out)"
  obtains st1 c where "append_loop mp4 fl (fr_pending st @ bs) 0 0 st = (st1, Inr (out, c))"
    "fr_position st1 + c \<le> u64_max"
    "st' = st1\<lparr>fr_position := fr_position st1 + c, fr_pending := drop c (fr_pending st @ bs)\<rparr>"
    "append_input bs st = Inr (fr_pending st @ bs)"
proof (cases "append_input bs st")
  case (Inl e)
  with assms show ?thesis by (simp add: append_def)
next
  case (Inr input)
  with append_input_Inr [OF Inr] assms that show ?thesis
    by (auto simp: append_def bad_def checked_add_def split: prod.splits sum.splits if_splits)
qed

lemma append_loop_position: "append_loop mp4 fl input cursor count st = (st', r) \<Longrightarrow> fr_position st' = fr_position st"
proof (induction mp4 fl input cursor count st arbitrary: st' r rule: append_loop.induct)
  case (1 mp4 fl input cursor count st)
  note unf = append_loop.simps [of mp4 fl input cursor count st]
  show ?case
  proof (cases "\<exists>item. box_at input cursor = Inr (Some item) \<and> \<not> 4096 < count + 1")
    case False
    then show ?thesis using "1.prems" unf by (auto split: sum.splits option.splits if_splits)
  next
    case True
    then obtain item where item: "box_at input cursor = Inr (Some item)" "\<not> 4096 < count + 1" by blast
    obtain st1 r1 where t: "top_box mp4 fl input item st = (st1, r1)" by (rule prod.exhaust)
    have p: "fr_position st1 = fr_position st" using top_box_position [of mp4 fl input item st] t by simp
    show ?thesis
    proof (cases r1)
      case (Inl e)
      then show ?thesis using "1.prems" unf item t p by simp
    next
      case (Inr o1)
      obtain st2 r2 where l: "append_loop mp4 fl input (bx_end item) (count + 1) st1 = (st2, r2)" by (rule prod.exhaust)
      from "1.IH" [OF item(1) refl item(2) t [symmetric] Inr l] have "fr_position st2 = fr_position st1" .
      moreover have "st' = st2" using "1.prems" unf item t Inr l by (cases r2) auto
      ultimately show ?thesis using p by simp
    qed
  qed
qed

text \<open>
  C15. What an append hands out can be read, and nothing of the stream is lost. Every sample lies in the buffer it comes with, so taking its data
  succeeds and gives as many bytes as it has; the bytes passed over and the bytes kept back are together
  exactly the bytes that arrived; and what is kept back is less than one box of 16 MiB.
\<close>

theorem append_accounts_for_stream:
  assumes "append mp4 fl bs st = (st', Inr out)"
  shows "fr_position st' + length (fr_pending st') = fr_position st + length (fr_pending st) + length bs
    \<and> length (fr_pending st') < 16 * 1024 * 1024
    \<and> (\<forall>e\<in>set out. \<exists>d. data e = Inr d \<and> length d = sm_size (en_sample e))"
proof -
  obtain st1 c where l: "append_loop mp4 fl (fr_pending st @ bs) 0 0 st = (st1, Inr (out, c))"
    "st' = st1\<lparr>fr_position := fr_position st1 + c, fr_pending := drop c (fr_pending st @ bs)\<rparr>"
    using append_InrE [OF assms] by metis
  note d = append_loop_done [OF l(1)]
  have "fr_position st1 = fr_position st" using append_loop_position [OF l(1)] .
  moreover have "length (drop c (fr_pending st @ bs)) < MAX_BOX"
    using incomplete_box_small [of "fr_pending st @ bs" c] d by (simp add: length_drop)
  moreover have "\<exists>x. data e = Inr x \<and> length x = sm_size (en_sample e)" if "e \<in> set out" for e
    using d that by (auto simp: data_def subslice_def extent_ok_def)
  ultimately show ?thesis using l(2) d by (auto simp: MAX_BOX_def)
qed

theorem append_accounts_for_stream_witness:
  "\<exists>st'. append (\<lambda>_. Inl []) \<lparr>fl_of_int = id, fl_add = (+), fl_div = (div)\<rparr> [0, 0, 0, 9] new_fragments = (st', Inr [])
     \<and> fr_position st' + length (fr_pending st') = 4"
proof -
  have l: "append_loop (\<lambda>_. Inl []) \<lparr>fl_of_int = id, fl_add = (+), fl_div = (div)\<rparr> [0, 0, 0, 9] 0 0 new_fragments = (new_fragments, Inr ([], 0))"
    by (simp add: append_loop.simps box_at_def)
  have a: "\<exists>st'. append (\<lambda>_. Inl []) \<lparr>fl_of_int = id, fl_add = (+), fl_div = (div)\<rparr> [0, 0, 0, 9] new_fragments = (st', Inr [])"
    unfolding append_def append_input_def using l by (simp add: new_fragments_def checked_add_def)
  then obtain st' where s: "append (\<lambda>_. Inl []) \<lparr>fl_of_int = id, fl_add = (+), fl_div = (div)\<rparr> [0, 0, 0, 9] new_fragments = (st', Inr [])" by blast
  from append_accounts_for_stream [OF s] s show ?thesis by (auto simp: new_fragments_def)
qed

section \<open>Runs\<close>

text \<open>
  The samples of a run lie end to end. A run of \<open>n\<close> samples gives \<open>n\<close> samples of the
  track; each begins in the data and in time where the one before ends, the first where the run begins; none is
  empty, longer than 4 MiB or without duration; and the offset and the time handed to the next run are those after the last.
\<close>

theorem run_is_contiguous:
  assumes "run_samples fl track ds version flags first n offset dts r = Inr (ps, offset', dts', r')"
  shows "length ps = n
    \<and> (\<forall>k<n. sm_offset (pk_sample (ps ! k)) = offset + (\<Sum>j<k. sm_size (pk_sample (ps ! j)))
          \<and> sm_dts (pk_sample (ps ! k)) = dts + (\<Sum>j<k. unat (sm_delta (pk_sample (ps ! j))))
          \<and> pk_track (ps ! k) = tk_id track \<and> 0 < sm_size (pk_sample (ps ! k))
          \<and> sm_size (pk_sample (ps ! k)) \<le> 4 * 1024 * 1024 \<and> 0 < unat (sm_delta (pk_sample (ps ! k))))
    \<and> offset' = offset + (\<Sum>j<n. sm_size (pk_sample (ps ! j)))
    \<and> dts' = dts + (\<Sum>j<n. unat (sm_delta (pk_sample (ps ! j))))"
  using assms
proof (induction n arbitrary: first offset dts r ps)
  case (Suc n)
  obtain delta r1 sz r2 sflags r3 v r4 where f:
    "field_if (flags AND 0x100 \<noteq> 0) (df_duration ds) r = Inr (delta, r1)"
    "field_if (flags AND 0x200 \<noteq> 0) (df_size ds) r1 = Inr (sz, r2)"
    "field_if (flags AND 0x400 \<noteq> 0) first r2 = Inr (sflags, r3)"
    "field_if (flags AND 0x800 \<noteq> 0) 0 r3 = Inr (v, r4)"
    using Suc.prems by (auto simp: andthen_def split: sum.splits)
  from Suc.prems f have g: "delta \<noteq> 0" "sz \<noteq> 0" "unat sz \<le> 4 * 1024 * 1024"
    by (auto simp: res_defs Let_def split: if_splits)
  obtain p rest where p: "ps = p # rest" "pk_track p = tk_id track" "sm_offset (pk_sample p) = offset"
      "sm_dts (pk_sample p) = dts" "sm_size (pk_sample p) = unat sz" "sm_delta (pk_sample p) = delta"
      "run_samples fl track ds version flags (df_flags ds) n (offset + unat sz) (dts + unat delta) r4 = Inr (rest, offset', dts', r')"
    using Suc.prems f g by (auto simp: res_defs Let_def checked_add_def split: if_splits sum.splits option.splits)
  from Suc.IH [OF p(7)] have IH: "length rest = n"
    "\<And>k. k < n \<Longrightarrow> sm_offset (pk_sample (rest ! k)) = offset + unat sz + (\<Sum>j<k. sm_size (pk_sample (rest ! j)))
          \<and> sm_dts (pk_sample (rest ! k)) = dts + unat delta + (\<Sum>j<k. unat (sm_delta (pk_sample (rest ! j))))
          \<and> pk_track (rest ! k) = tk_id track \<and> 0 < sm_size (pk_sample (rest ! k))
          \<and> sm_size (pk_sample (rest ! k)) \<le> 4 * 1024 * 1024 \<and> 0 < unat (sm_delta (pk_sample (rest ! k)))"
    "offset' = offset + unat sz + (\<Sum>j<n. sm_size (pk_sample (rest ! j)))"
    "dts' = dts + unat delta + (\<Sum>j<n. unat (sm_delta (pk_sample (rest ! j))))" by blast+
  have pos: "0 < unat sz" "0 < unat delta" using g by (simp_all add: unat_gt_0)
  have sums: "(\<Sum>j<Suc m. f (pk_sample (ps ! j))) = f (pk_sample p) + (\<Sum>j<m. f (pk_sample (rest ! j)))" for f :: "'a sample \<Rightarrow> nat" and m
    by (simp add: p(1) sum.lessThan_Suc_shift del: sum.lessThan_Suc)
  let ?ok = "\<lambda>k. sm_offset (pk_sample (ps ! k)) = offset + (\<Sum>j<k. sm_size (pk_sample (ps ! j)))
          \<and> sm_dts (pk_sample (ps ! k)) = dts + (\<Sum>j<k. unat (sm_delta (pk_sample (ps ! j))))
          \<and> pk_track (ps ! k) = tk_id track \<and> 0 < sm_size (pk_sample (ps ! k))
          \<and> sm_size (pk_sample (ps ! k)) \<le> 4 * 1024 * 1024 \<and> 0 < unat (sm_delta (pk_sample (ps ! k)))"
  have "?ok k" if k: "k < Suc n" for k
  proof (cases k)
    case 0
    then show ?thesis using p g(3) pos by simp
  next
    case (Suc m)
    then have "m < n" using k by simp
    from IH(2) [OF this] show ?thesis unfolding Suc sums [of sm_size] sums [of "\<lambda>s. unat (sm_delta s)"] using p by simp
  qed
  then show ?case unfolding sums [of sm_size] sums [of "\<lambda>s. unat (sm_delta s)"] using IH(1,3,4) p by simp
qed simp

theorem run_is_contiguous_witness:
  "\<exists>ps d. run_samples \<lparr>fl_of_int = id, fl_add = (+), fl_div = (div)\<rparr> \<lparr>tk_id = 1, tk_scale = 90, tk_codec = Audio [] 48000\<rparr>
       \<lparr>df_description = 1, df_duration = 5, df_size = 7, df_flags = 0\<rparr> 0 0 0 2 100 0 (new_reader []) = Inr (ps, 114, d, new_reader [])
     \<and> length ps = 2 \<and> sm_offset (pk_sample (ps ! 1)) = 107"
proof -
  let ?fl = "\<lparr>fl_of_int = id, fl_add = (+), fl_div = (div)\<rparr>"
  let ?t = "\<lparr>tk_id = 1, tk_scale = 90, tk_codec = Audio [] 48000\<rparr>"
  let ?d = "\<lparr>df_description = 1, df_duration = 5, df_size = 7, df_flags = 0\<rparr>"
  obtain x y where r: "run_samples ?fl ?t ?d 0 0 0 2 100 0 (new_reader []) = Inr ([x, y], 114, 10, new_reader [])"
    and z: "sm_size (pk_sample x) = 7"
  proof -
    have "\<exists>x y. run_samples ?fl ?t ?d 0 0 0 (Suc (Suc 0)) 100 0 (new_reader []) = Inr ([x, y], 114, 10, new_reader [])
      \<and> sm_size (pk_sample x) = 7"
      by (simp add: andthen_def field_if_def require_def must_def checked_add_def u64_max_def Let_def)
    then show ?thesis using that by (metis numeral_2_eq_2)
  qed
  from run_is_contiguous [OF r, THEN conjunct2, THEN conjunct1, rule_format, of 1] z have "sm_offset (pk_sample y) = 107" by simp
  with r show ?thesis by (intro exI [of _ "[x, y]"] exI [of _ 10]) simp
qed

end
