(* ===== verification/Fragment_Chunks.thy ===== *)
theory Fragment_Chunks
  imports Fragment_Props
begin

text \<open>
  How the stream is cut into appends makes no difference to the samples that come out: two appends
  give what one append of both gives.
\<close>

section \<open>A box is decided by its own bytes\<close>

definition finish_box :: "bytes \<Rightarrow> bytes \<Rightarrow> nat \<Rightarrow> nat \<Rightarrow> (bytes \<times> nat \<times> nat) option res" where
  "finish_box h kind n header =
     (if n < header \<or> MAX_BOX < n then bad ''invalid or oversized MSE MP4 box''
      else if length h < n then Inr None else Inr (Some (kind, header, n)))"

definition head_box :: "bytes \<Rightarrow> (bytes \<times> nat \<times> nat) option res" where
  "head_box h =
     (if length h < 8 then Inr None
      else let sz = (of_nat (be_nat (take 4 h)) :: 32 word); kind = take 4 (drop 4 h)
           in if sz = 0 then bad ''size-zero boxes are invalid in the MSE byte stream''
              else if sz = 1 then
                (if length h < 16 then Inr None else finish_box h kind (be_nat (take 8 (drop 8 h))) 16)
              else finish_box h kind (unat sz) 8)"

definition place :: "nat \<Rightarrow> bytes \<times> nat \<times> nat \<Rightarrow> box_ref" where
  "place start = (\<lambda>(kind, header, n). \<lparr>bx_kind = kind, bx_start = start, bx_header = header, bx_end = start + n\<rparr>)"

lemma box_at_head:
  assumes "start \<le> length bs" and "start + MAX_BOX \<le> u64_max"
  shows "box_at bs start = map_sum id (map_option (place start)) (head_box (drop start bs))"
proof (cases "length (drop start bs) < 8")
  case True
  then show ?thesis using assms(1) by (auto simp: box_at_def head_box_def Let_def)
next
  case False
  let ?h = "drop start bs"
  let ?r = "new_reader ?h"
  have l: "8 \<le> length ?h" using False by simp
  have u: "16 \<le> u64_max" by (simp add: u64_max_def)
  have r4: "read_u32 ?r = Inr (of_nat (be_nat (take 4 ?h)), ?r\<lparr>rd_position := 4\<rparr>)"
    using l u by (simp add: read_u32_def take_field_def res_defs checked_add_def new_reader_def)
  have r8: "take_field 4 (?r\<lparr>rd_position := 4\<rparr>) = Inr (take 4 (drop 4 ?h), ?r\<lparr>rd_position := 8\<rparr>)"
    using l u by (simp add: take_field_def res_defs checked_add_def new_reader_def)
  have r16: "16 \<le> length ?h \<Longrightarrow> read_u64 (?r\<lparr>rd_position := 8\<rparr>) = Inr (be_nat (take 8 (drop 8 ?h)), ?r\<lparr>rd_position := 16\<rparr>)"
    using u by (simp add: read_u64_def take_field_def res_defs checked_add_def new_reader_def)
  have fin: "require (\<not> (n < header \<or> MAX_BOX < n)) ''invalid or oversized MSE MP4 box'' (
        andthen (must (checked_add start n) ''MP4 box offset overflow'') (\<lambda>e.
          if length bs < e then Inr None
          else Inr (Some \<lparr>bx_kind = kind, bx_start = start, bx_header = header, bx_end = e\<rparr>)))
      = map_sum id (map_option (place start)) (finish_box ?h kind n header)" for n header kind
    using assms by (auto simp: finish_box_def res_defs checked_add_def place_def)
  let ?sz = "of_nat (be_nat (take 4 ?h)) :: 32 word"
  have "box_at bs start = andthen (box_size ?h ?sz (?r\<lparr>rd_position := 8\<rparr>)) (\<lambda>found.
      case found of None \<Rightarrow> Inr None
      | Some (n, header) \<Rightarrow> map_sum id (map_option (place start)) (finish_box ?h (take 4 (drop 4 ?h)) n header))"
    unfolding box_at_def Let_def fin using False assms(1) r4 r8
    by (auto simp: andthen_def split: sum.split option.split)
  also have "\<dots> = map_sum id (map_option (place start)) (head_box ?h)"
  proof -
    consider "?sz = 0" | "?sz = 1" "length ?h < 16" | "?sz = 1" "16 \<le> length ?h" | "?sz \<noteq> 0" "?sz \<noteq> 1" by linarith
    then show ?thesis
    proof cases
      case 3
      then have "box_size ?h ?sz (?r\<lparr>rd_position := 8\<rparr>) = Inr (Some (be_nat (take 8 (drop 8 ?h)), 16))"
        using r16 by (simp add: box_size_def andthen_def)
      with 3 l show ?thesis by (simp add: andthen_def head_box_def Let_def)
    qed (use l in \<open>simp_all add: box_size_def head_box_def andthen_def Let_def bad_def\<close>)
  qed
  finally show ?thesis .
qed

lemma finish_box_extend: "finish_box h kind n header \<noteq> Inr None \<Longrightarrow> finish_box (h @ t) kind n header = finish_box h kind n header"
  by (auto simp: finish_box_def split: if_splits)

lemma head_box_extend: "head_box h \<noteq> Inr None \<Longrightarrow> head_box (h @ t) = head_box h"
  by (auto simp: head_box_def Let_def finish_box_extend bad_def split: if_splits)

lemma box_at_extend:
  assumes "c \<le> length a" and "c + MAX_BOX \<le> u64_max" and "box_at a c \<noteq> Inr None"
  shows "box_at (a @ b) c = box_at a c"
proof -
  have "head_box (drop c a) \<noteq> Inr None" using box_at_head [OF assms(1,2)] assms(3) by auto
  then show ?thesis using box_at_head [OF assms(1,2)] box_at_head [of c "a @ b"] assms(1,2) head_box_extend by simp
qed

definition shift_box :: "nat \<Rightarrow> box_ref \<Rightarrow> box_ref" where
  "shift_box c b = b\<lparr>bx_start := bx_start b + c, bx_end := bx_end b + c\<rparr>"

lemma box_at_shift:
  assumes "k + c \<le> length bs" and "k + c + MAX_BOX \<le> u64_max"
  shows "box_at bs (k + c) = map_sum id (map_option (shift_box c)) (box_at (drop c bs) k)"
proof -
  have "place (k + c) = shift_box c \<circ> place k" by (auto simp: place_def shift_box_def fun_eq_iff)
  moreover have "drop k (drop c bs) = drop (k + c) bs" by simp
  ultimately show ?thesis
    using box_at_head [OF assms] box_at_head [of k "drop c bs"] assms
    by (simp add: sum.map_comp option.map_comp comp_def id_def)
qed

section \<open>Processing a box from a longer or a shifted buffer\<close>

definition delivered :: "'f encoded \<Rightarrow> 32 word \<times> 'f sample \<times> 'f \<times> bytes res" where
  "delivered e = (en_track e, (en_sample e)\<lparr>sm_offset := 0\<rparr>, en_decode_time e, data e)"

text \<open>The two results agree up to the buffer the samples refer to, and the states up to \<open>f\<close>.\<close>

definition agree :: "('s \<Rightarrow> 's) \<Rightarrow> 's \<times> 'f encoded list res \<Rightarrow> 's \<times> 'f encoded list res \<Rightarrow> bool" where
  "agree f x y \<longleftrightarrow> fst y = f (fst x) \<and> map_sum id (map delivered) (snd y) = map_sum id (map delivered) (snd x)"

lemma agree_same: "snd x = snd y \<Longrightarrow> fst y = f (fst x) \<Longrightarrow> agree f x y"
  by (simp add: agree_def)

lemma agree_if:
  "(c \<Longrightarrow> agree f a a') \<Longrightarrow> (\<not> c \<Longrightarrow> agree f b b') \<Longrightarrow> agree f (if c then a else b) (if c then a' else b')"
  by simp

lemma deliver_agree:
  assumes "pos \<le> lower" and "upper \<le> pos + length input" and "pos' \<le> lower" and "upper \<le> pos' + length input'"
    and data: "\<And>i n. lower \<le> i \<Longrightarrow> i + n \<le> upper \<Longrightarrow> take n (drop (i - pos') input') = take n (drop (i - pos) input)"
  shows "map_sum id (map delivered) (deliver pos' lower upper input' ps) = map_sum id (map delivered) (deliver pos lower upper input ps)"
proof (induction ps)
  case (Cons p ps)
  let ?s = "pk_sample p"
  show ?case
  proof (cases "sm_offset ?s + sm_size ?s \<le> u64_max \<and> lower \<le> sm_offset ?s \<and> sm_offset ?s + sm_size ?s \<le> upper")
    case False
    then show ?thesis by (auto simp: Let_def res_defs checked_add_def)
  next
    case True
    have step: "q \<le> lower \<Longrightarrow> deliver q lower upper i (p # ps) = andthen (deliver q lower upper i ps) (\<lambda>rest.
           Inr (\<lparr>en_track = pk_track p, en_sample = ?s\<lparr>sm_offset := sm_offset ?s - q\<rparr>,
              en_decode_time = pk_decode_time p, en_bytes = i\<rparr> # rest))" for q i
      using True by (simp add: Let_def require_def must_def checked_add_def andthen_def)
    have "take (sm_size ?s) (drop (sm_offset ?s - pos') input') = take (sm_size ?s) (drop (sm_offset ?s - pos) input)"
      using data True by blast
    moreover have "sm_offset ?s - pos + sm_size ?s \<le> length input" "sm_offset ?s - pos' + sm_size ?s \<le> length input'"
      using True assms(1-4) by linarith+
    ultimately show ?thesis unfolding step [OF assms(1)] step [OF assms(3)] using Cons.IH
      by (cases "deliver pos' lower upper input' ps"; cases "deliver pos lower upper input ps")
        (auto simp: andthen_def delivered_def data_def subslice_def)
  qed
qed simp

lemma fits_extend: "fits a item \<Longrightarrow> fits (a @ b) item"
  by (simp add: fits_def)

lemma body_extend: "fits a item \<Longrightarrow> body item (a @ b) = body item a" "fits a item \<Longrightarrow> whole_box item (a @ b) = whole_box item a"
  by (auto simp: fits_body fits_whole fits_extend fits_def)

lemma mdat_extend:
  assumes "fits a item"
  shows "agree id (box_mdat a item st) (box_mdat (a @ b) item st)"
proof (cases "fr_fragment st")
  case None
  then show ?thesis by (simp add: box_mdat_def agree_def)
next
  case (Some ps)
  let ?l = "fr_position st + (bx_start item + bx_header item)" and ?u = "fr_position st + bx_end item"
  have "map_sum id (map delivered) (deliver (fr_position st) ?l ?u (a @ b) ps) = map_sum id (map delivered) (deliver (fr_position st) ?l ?u a ps)"
    by (rule deliver_agree) (use assms in \<open>auto simp: fits_def\<close>)
  then show ?thesis using Some by (auto simp: box_mdat_def agree_def checked_add_def)
qed

lemma agree_refl: "agree id x x"
  by (simp add: agree_def)

lemma top_box_extend:
  assumes "fits a item"
  shows "agree id (top_box mp4 fl a item st) (top_box mp4 fl (a @ b) item st)"
proof -
  obtain bd where bd: "body item a = Inr bd" using fits_body [OF assms] by blast
  have same: "box_ftyp (a @ b) item st = box_ftyp a item st" "box_moov mp4 (a @ b) item bd st = box_moov mp4 a item bd st"
    by (simp_all only: box_ftyp_def box_moov_def body_extend [OF assms])
  show ?thesis
    unfolding top_box_def body_extend [OF assms] bd sum.case Let_def same
    using mdat_extend [OF assms, of st b] by (simp add: agree_refl)
qed

section \<open>The same stream further on\<close>

text \<open>What a client of the loops may vary in the state.\<close>

definition at_position :: "nat \<Rightarrow> bytes \<Rightarrow> 'f fragments \<Rightarrow> 'f fragments" where
  "at_position x y st = st\<lparr>fr_position := x, fr_pending := y\<rparr>"

lemma at_position_simps [simp]:
  "fr_tracks (at_position x y st) = fr_tracks st" "fr_defaults (at_position x y st) = fr_defaults st"
  "fr_next_dts (at_position x y st) = fr_next_dts st" "fr_ftyp (at_position x y st) = fr_ftyp st"
  "fr_fragment (at_position x y st) = fr_fragment st" "fr_position (at_position x y st) = x"
  by (simp_all add: at_position_def)

lemma read_traf_position: "read_traf fl (at_position x y st) = read_traf fl st"
  by (intro ext) (simp only: read_traf_def read_tfhd_def at_position_simps)

lemma moof_loop_at: "moof_loop fl base bd xs implicit result (at_position x y st)
    = map_prod (at_position x y) id (moof_loop fl base bd xs implicit result st)"
proof (induction fl base bd xs implicit result st rule: moof_loop.induct)
  case (2 fl base bd b xs implicit result st)
  have u: "(at_position x y st)\<lparr>fr_next_dts := d\<rparr> = at_position x y (st\<lparr>fr_next_dts := d\<rparr>)" for d
    by (simp add: at_position_def)
  show ?case
  proof (cases "bx_kind b = tag ''traf''")
    case False
    with 2 show ?thesis by simp
  next
    case True
    show ?thesis
    proof (cases "andthen (body b bd) (read_traf fl st base implicit (length result))")
      case (Inl e)
      with True show ?thesis by (simp add: read_traf_position)
    next
      case (Inr r)
      obtain i samples offset dts where r: "r = (i, samples, offset, dts)" by (rule prod_cases4)
      with True Inr "2.IH"(2) [OF _ Inr r [symmetric] refl refl] show ?thesis by (simp add: read_traf_position u)
    qed
  qed
qed simp

lemma moof_at: "moof fl (at_position x y st) bd base = map_prod (at_position x y) id (moof fl st bd base)"
  by (simp add: moof_def moof_loop_at split: sum.split)

lemma initialise_at: "initialise mp4 (at_position x y st) moov bd = map_sum id (at_position x y) (initialise mp4 st moov bd)"
proof -
  have u: "(at_position x y st)\<lparr>fr_tracks := t, fr_defaults := d, fr_next_dts := n\<rparr>
      = at_position x y (st\<lparr>fr_tracks := t, fr_defaults := d, fr_next_dts := n\<rparr>)" for t d n
    by (simp add: at_position_def)
  show ?thesis by (simp add: initialise_def u res_defs split: sum.split)
qed

lemma shifted_fits: "fits (drop c bs) item \<Longrightarrow> c \<le> length bs \<Longrightarrow> fits bs (shift_box c item)"
  by (auto simp: fits_def shift_box_def)

lemma shifted_body:
  assumes "fits (drop c bs) item" and "c \<le> length bs"
  shows "body (shift_box c item) bs = body item (drop c bs)" "whole_box (shift_box c item) bs = whole_box item (drop c bs)"
  using assms shifted_fits [OF assms] by (simp_all add: fits_body fits_whole) (simp_all add: shift_box_def add_ac)

lemma mdat_shift:
  assumes "fits (drop c bs) item" and "c \<le> length bs"
  shows "agree (at_position (fr_position st) z)
    (box_mdat (drop c bs) item (at_position (fr_position st + c) y st)) (box_mdat bs (shift_box c item) (at_position (fr_position st) z st))"
proof (cases "fr_fragment st")
  case None
  then show ?thesis by (simp add: box_mdat_def agree_def) (simp add: at_position_def)
next
  case (Some ps)
  let ?p = "fr_position st"
  let ?l = "?p + c + (bx_start item + bx_header item)" and ?u = "?p + c + bx_end item"
  have d: "map_sum id (map delivered) (deliver ?p ?l ?u bs ps) = map_sum id (map delivered) (deliver (?p + c) ?l ?u (drop c bs) ps)"
  proof (rule deliver_agree)
    fix i n
    assume "?l \<le> i" "i + n \<le> ?u"
    then have "i - (?p + c) + c = i - ?p" by simp
    then show "take n (drop (i - ?p) bs) = take n (drop (i - (?p + c)) (drop c bs))" by simp
  qed (use assms in \<open>auto simp: fits_def\<close>)
  have a: "?p + (bx_start (shift_box c item) + bx_header (shift_box c item)) = ?l" "?p + bx_end (shift_box c item) = ?u"
    by (simp_all add: shift_box_def)
  have u: "(at_position x w st)\<lparr>fr_fragment := None\<rparr> = at_position x w (st\<lparr>fr_fragment := None\<rparr>)" for x w
    by (simp add: at_position_def)
  have v: "at_position x w (at_position x' w' st') = at_position x w st'" for x w x' w' and st' :: "'a fragments"
    by (simp add: at_position_def)
  show ?thesis using Some d unfolding box_mdat_def at_position_simps a [unfolded add.assoc, folded add.assoc]
    by (auto simp: agree_def checked_add_def u v a)
qed

lemma top_box_shift:
  assumes fit: "fits (drop c bs) item" "c \<le> length bs" and room: "fr_position st + length bs \<le> u64_max"
  shows "agree (at_position (fr_position st) z)
    (top_box mp4 fl (drop c bs) item (at_position (fr_position st + c) y st))
    (top_box mp4 fl bs (shift_box c item) (at_position (fr_position st) z st))"
proof -
  let ?s1 = "at_position (fr_position st + c) y st" and ?s2 = "at_position (fr_position st) z st"
  let ?b = "shift_box c item" and ?f = "at_position (fr_position st) z"
  have v: "at_position x w (at_position x' w' st') = at_position x w st'" for x w x' w' and st' :: "'a fragments"
    by (simp add: at_position_def)
  have u: "(at_position x w st')\<lparr>fr_fragment := d\<rparr> = at_position x w (st'\<lparr>fr_fragment := d\<rparr>)"
    "(at_position x w st')\<lparr>fr_ftyp := f\<rparr> = at_position x w (st'\<lparr>fr_ftyp := f\<rparr>)" for x w d f and st' :: "'a fragments"
    by (simp_all add: at_position_def)
  obtain bd where bd: "body item (drop c bs) = Inr bd" "body ?b bs = Inr bd" using fits_body [OF fit(1)] shifted_body [OF fit] by auto
  obtain wb where wb: "whole_box item (drop c bs) = Inr wb" "whole_box ?b bs = Inr wb"
    using fits_whole [OF fit(1)] shifted_body [OF fit] by auto
  have sz: "bx_end ?b - bx_start ?b = bx_end item - bx_start item" "bx_kind ?b = bx_kind item" by (simp_all add: shift_box_def)
  have ft: "agree ?f (box_ftyp (drop c bs) item ?s1) (box_ftyp bs ?b ?s2)"
    unfolding box_ftyp_def sz wb at_position_simps sum.case by (auto simp: agree_def u v)
  have mv: "agree ?f (box_moov mp4 (drop c bs) item bd ?s1) (box_moov mp4 bs ?b bd ?s2)"
    unfolding box_moov_def wb at_position_simps andthen_def sum.case initialise_at
    by (cases "initialise mp4 st wb bd") (auto simp: agree_def v)
  have base: "checked_add (fr_position st) (bx_start ?b) = checked_add (fr_position st + c) (bx_start item)"
    by (simp add: shift_box_def checked_add_def add_ac)
  have mf: "agree ?f (box_moof fl item bd ?s1) (box_moof fl ?b bd ?s2)"
  proof (cases "checked_add (fr_position st + c) (bx_start item)")
    case None
    then show ?thesis unfolding box_moof_def at_position_simps base by (auto simp: agree_def v)
  next
    case (Some x)
    obtain s r where "moof fl st bd x = (s, r)" by (rule prod.exhaust)
    with Some show ?thesis unfolding box_moof_def at_position_simps base moof_at by (cases r) (auto simp: agree_def u v)
  qed
  have other: "agree ?f (?s1, r) (?s2, r)" for r by (simp add: agree_def v)
  show ?thesis unfolding top_box_def bd sum.case Let_def sz
    by (intro agree_if ft mv mf other mdat_shift [OF fit])
qed

lemma top_box_shift':
  assumes "fits (drop c bs) item" "c \<le> length bs" and "fr_position s = p + c" and "p + length bs \<le> u64_max"
  shows "agree (at_position p z) (top_box mp4 fl (drop c bs) item s) (top_box mp4 fl bs (shift_box c item) (at_position p z s))"
proof -
  let ?st = "s\<lparr>fr_position := p\<rparr>"
  have "at_position (fr_position ?st + c) (fr_pending s) ?st = s" "at_position (fr_position ?st) z ?st = at_position p z s"
    using assms(3) by (simp_all add: at_position_def)
  with top_box_shift [OF assms(1,2), of ?st z mp4 fl "fr_pending s"] assms(4) show ?thesis by simp
qed

section \<open>The loop over a longer or a shifted buffer\<close>

definition prepend :: "'f encoded list \<Rightarrow> 's \<times> ('f encoded list \<times> nat) res \<Rightarrow> 's \<times> ('f encoded list \<times> nat) res" where
  "prepend out r = (fst r, map_sum id (map_prod ((@) out) id) (snd r))"

lemma prepend_prepend: "prepend a (prepend b r) = prepend (a @ b) r"
  by (cases r; cases "snd r") (auto simp: prepend_def)

lemma prepend_Nil: "prepend [] r = r"
  by (cases r; cases "snd r") (auto simp: prepend_def)

lemma append_loop_step:
  assumes "box_at input cursor = Inr (Some item)" and "\<not> 4096 < count + 1" and "top_box mp4 fl input item st = (s, Inr out)"
  shows "append_loop mp4 fl input cursor count st = prepend out (append_loop mp4 fl input (bx_end item) (count + 1) s)"
proof (cases "append_loop mp4 fl input (bx_end item) (count + 1) s")
  case (Pair s' r)
  then show ?thesis using assms by (subst append_loop.simps) (cases r; auto simp: prepend_def)
qed

lemma append_loop_InrD:
  assumes "append_loop mp4 fl input cursor count st = (st', Inr (out, c))" and "box_at input cursor = Inr (Some item)"
  obtains s o1 o2 where "\<not> 4096 < count + 1" "top_box mp4 fl input item st = (s, Inr o1)"
    "append_loop mp4 fl input (bx_end item) (count + 1) s = (st', Inr (o2, c))" "out = o1 @ o2"
  using assms by (auto simp: append_loop.simps [of mp4 fl input cursor] bad_def split: if_splits prod.splits sum.splits)

lemma agree_Inr:
  assumes "agree f x y" and "x = (s, Inr out)"
  obtains out' where "y = (f s, Inr out')" "map delivered out' = map delivered out"
proof (cases y)
  case (Pair s' r)
  with assms that show ?thesis by (cases r) (auto simp: agree_def)
qed

lemma loop_extend:
  assumes "length a + MAX_BOX \<le> u64_max"
  shows "append_loop mp4 fl a cursor count st = (st1, Inr (o1, c)) \<Longrightarrow> cursor \<le> length a \<Longrightarrow>
    \<exists>n out. map delivered out = map delivered o1
      \<and> append_loop mp4 fl (a @ b) cursor count st = prepend out (append_loop mp4 fl (a @ b) c n st1)"
proof (induction "length a - cursor" arbitrary: cursor count st o1 rule: less_induct)
  case less
  show ?case
  proof (cases "\<exists>item. box_at a cursor = Inr (Some item)")
    case False
    then have "append_loop mp4 fl a cursor count st = (st, Inr ([], cursor))"
      using less.prems(1) by (subst append_loop.simps) (auto simp: append_loop.simps [of mp4 fl a cursor] split: sum.splits option.splits)
    then have "st1 = st" "o1 = []" "c = cursor" using less.prems(1) by auto
    then show ?thesis by (intro exI [of _ count] exI [of _ "[]"]) (simp add: prepend_Nil)
  next
    case True
    then obtain item where item: "box_at a cursor = Inr (Some item)" by blast
    then have item': "box_at (a @ b) cursor = Inr (Some item)"
      using box_at_extend [of cursor a b] less.prems(2) assms by simp
    obtain s x1 x2 where t: "\<not> 4096 < count + 1" "top_box mp4 fl a item st = (s, Inr x1)"
      "append_loop mp4 fl a (bx_end item) (count + 1) s = (st1, Inr (x2, c))" "o1 = x1 @ x2"
      using append_loop_InrD [OF less.prems(1) item] by metis
    obtain y1 where y1: "top_box mp4 fl (a @ b) item st = (s, Inr y1)" "map delivered y1 = map delivered x1"
      using agree_Inr [OF top_box_extend [OF box_at_fits [OF item], of mp4 fl st b] t(2)] by auto
    have m: "length a - bx_end item < length a - cursor" "bx_end item \<le> length a" using box_at_bounds [OF item] by auto
    obtain n y2 where y2: "map delivered y2 = map delivered x2"
      "append_loop mp4 fl (a @ b) (bx_end item) (count + 1) s = prepend y2 (append_loop mp4 fl (a @ b) c n st1)"
      using less.hyps [OF m(1) t(3) m(2)] by blast
    have "append_loop mp4 fl (a @ b) cursor count st = prepend (y1 @ y2) (append_loop mp4 fl (a @ b) c n st1)"
      using append_loop_step [OF item' t(1) y1(1)] y2(2) by (simp add: prepend_prepend)
    with y1(2) y2(1) t(4) show ?thesis by (intro exI [of _ n] exI [of _ "y1 @ y2"]) simp
  qed
qed

lemma loop_shift:
  assumes len: "length bs + MAX_BOX \<le> u64_max" and c: "c \<le> length bs" and room: "p + length bs \<le> u64_max"
  shows "append_loop mp4 fl (drop c bs) k count s = (s', Inr (out, k')) \<Longrightarrow> k + c \<le> length bs \<Longrightarrow> fr_position s = p + c \<Longrightarrow>
    snd (append_loop mp4 fl bs (k + c) n (at_position p z s)) = bad ''too many top-level MP4 boxes''
    \<or> (\<exists>out'. append_loop mp4 fl bs (k + c) n (at_position p z s) = (at_position p z s', Inr (out', k' + c))
         \<and> map delivered out' = map delivered out)"
proof (induction "length bs - k" arbitrary: k count n s out rule: less_induct)
  case less
  have sh: "box_at bs (k + c) = map_sum id (map_option (shift_box c)) (box_at (drop c bs) k)"
    using less.prems(2) len by (intro box_at_shift) auto
  show ?case
  proof (cases "\<exists>item. box_at (drop c bs) k = Inr (Some item)")
    case False
    then have none: "box_at (drop c bs) k = Inr None"
      using less.prems(1) by (auto simp: append_loop.simps [of mp4 fl "drop c bs" k] split: sum.splits option.splits)
    then have "s' = s" "out = []" "k' = k" using less.prems(1) by (auto simp: append_loop.simps [of mp4 fl "drop c bs" k])
    with none sh show ?thesis by (simp add: append_loop.simps [of mp4 fl bs "k + c"])
  next
    case True
    then obtain item where item: "box_at (drop c bs) k = Inr (Some item)" by blast
    with sh have item': "box_at bs (k + c) = Inr (Some (shift_box c item))" by simp
    obtain s1 x1 x2 where t: "top_box mp4 fl (drop c bs) item s = (s1, Inr x1)"
      "append_loop mp4 fl (drop c bs) (bx_end item) (count + 1) s1 = (s', Inr (x2, k'))" "out = x1 @ x2"
      using append_loop_InrD [OF less.prems(1) item] by metis
    note fit = box_at_fits [OF item]
    obtain y1 where y1: "top_box mp4 fl bs (shift_box c item) (at_position p z s) = (at_position p z s1, Inr y1)"
      "map delivered y1 = map delivered x1"
      using agree_Inr [OF top_box_shift' [OF fit c less.prems(3) room, of z mp4 fl] t(1)] by auto
    have e: "bx_end (shift_box c item) = bx_end item + c" by (simp add: shift_box_def)
    have b: "length bs - bx_end item < length bs - k" "bx_end item + c \<le> length bs"
      using box_at_bounds [OF item] c less.prems(2) by auto
    have p1: "fr_position s1 = p + c" using top_box_position [of mp4 fl "drop c bs" item s] t(1) less.prems(3) by simp
    show ?thesis
    proof (cases "4096 < n + 1")
      case True
      then show ?thesis using item' by (simp add: append_loop.simps [of mp4 fl bs "k + c"])
    next
      case False
      have st: "append_loop mp4 fl bs (k + c) n (at_position p z s)
          = prepend y1 (append_loop mp4 fl bs (bx_end item + c) (n + 1) (at_position p z s1))"
        using append_loop_step [OF item' False y1(1)] e by simp
      from less.hyps [OF b(1) t(2) b(2) p1, of "n + 1"] show ?thesis
      proof (elim disjE exE conjE)
        fix y2
        assume "append_loop mp4 fl bs (bx_end item + c) (n + 1) (at_position p z s1) = (at_position p z s', Inr (y2, k' + c))"
          "map delivered y2 = map delivered x2"
        then show ?thesis unfolding st using y1(2) t(3) by (simp add: prepend_def)
      qed (simp add: st prepend_def bad_def)
    qed
  qed
qed

text \<open>
  C16. How a stream is cut does not matter. Where two appends succeed, one append of the same bytes gives, up to the buffer they
  are kept in, the same samples with the same data, and leaves the indexer in the same state; the only
  other outcome is one of the two limits that bound a single append, the number of its boxes and the size of what it joins.
\<close>

theorem append_chunking:
  assumes first: "append mp4 fl a st = (st1, Inr o1)" and second: "append mp4 fl b st1 = (st2, Inr o2)"
    and len: "length (fr_pending st) + length a + length b + MAX_BOX \<le> u64_max"
    and room: "fr_position st + length (fr_pending st) + length a + length b \<le> u64_max"
  shows "snd (append mp4 fl (a @ b) st) = bad ''too many top-level MP4 boxes''
    \<or> snd (append mp4 fl (a @ b) st) = bad ''MSE partial segment exceeds its limit''
    \<or> (\<exists>out. append mp4 fl (a @ b) st = (st2, Inr out) \<and> map delivered out = map delivered (o1 @ o2))"
proof (cases "append_input (a @ b) st")
  case (Inl e)
  then have "e = Bad (S ''MSE partial segment exceeds its limit'')"
    by (auto simp: append_input_def bad_def require_def split: option.splits if_splits)
  with Inl show ?thesis by (simp add: append_def bad_def)
next
  case (Inr input)
  define x where "x = fr_pending st @ a"
  define w where "w = x @ b"
  have input: "input = w" using append_input_Inr [OF Inr] by (simp add: w_def x_def)
  obtain s1 c1 where l1: "append_loop mp4 fl x 0 0 st = (s1, Inr (o1, c1))"
    "st1 = s1\<lparr>fr_position := fr_position s1 + c1, fr_pending := drop c1 x\<rparr>"
    using append_InrE [OF first] unfolding x_def by metis
  have c1: "c1 \<le> length x" using append_loop_done [OF l1(1)] by simp
  have p1: "fr_position s1 = fr_position st" using append_loop_position [OF l1(1)] .
  have w1: "fr_pending st1 @ b = drop c1 w" using l1(2) c1 by (simp add: w_def)
  obtain s2 c2 where l2: "append_loop mp4 fl (drop c1 w) 0 0 st1 = (s2, Inr (o2, c2))" "fr_position s2 + c2 \<le> u64_max"
    "st2 = s2\<lparr>fr_position := fr_position s2 + c2, fr_pending := drop c2 (drop c1 w)\<rparr>"
    using append_InrE [OF second] unfolding w1 by metis
  have p2: "fr_position s2 = fr_position st + c1" using append_loop_position [OF l2(1)] l1(2) p1 by simp
  obtain n y1 where y1: "map delivered y1 = map delivered o1" "append_loop mp4 fl w 0 0 st = prepend y1 (append_loop mp4 fl w c1 n s1)"
    using loop_extend [OF _ l1(1), of b] len unfolding w_def x_def by auto
  have at: "at_position (fr_position st) (fr_pending s1) st1 = s1" using l1(2) p1 by (simp add: at_position_def)
  have pos1: "fr_position st1 = fr_position st + c1" using l1(2) p1 by simp
  from loop_shift [OF _ _ _ l2(1) _ pos1, of n "fr_pending s1"] len room c1
  have "snd (append_loop mp4 fl w c1 n s1) = bad ''too many top-level MP4 boxes''
    \<or> (\<exists>y2. append_loop mp4 fl w c1 n s1 = (at_position (fr_position st) (fr_pending s1) s2, Inr (y2, c2 + c1))
         \<and> map delivered y2 = map delivered o2)" unfolding at by (simp add: w_def x_def)
  then show ?thesis
  proof (elim disjE exE conjE)
    assume "snd (append_loop mp4 fl w c1 n s1) = bad ''too many top-level MP4 boxes''"
    then have "append_loop mp4 fl w 0 0 st = (fst (append_loop mp4 fl w c1 n s1), bad ''too many top-level MP4 boxes'')"
      unfolding y1(2) by (simp add: prepend_def bad_def)
    with Inr input show ?thesis by (simp add: append_def bad_def)
  next
    fix y2
    assume y2: "append_loop mp4 fl w c1 n s1 = (at_position (fr_position st) (fr_pending s1) s2, Inr (y2, c2 + c1))"
      "map delivered y2 = map delivered o2"
    have "append_loop mp4 fl w 0 0 st = (at_position (fr_position st) (fr_pending s1) s2, Inr (y1 @ y2, c2 + c1))"
      unfolding y1(2) y2(1) by (simp add: prepend_def)
    then have "append mp4 fl (a @ b) st = (st2, Inr (y1 @ y2))"
      using Inr input l2(2,3) p2 by (simp add: append_def checked_add_def at_position_def add_ac)
    with y1(1) y2(2) show ?thesis by simp
  qed
qed

theorem append_chunking_witness:
  "\<exists>st1 st2. append (\<lambda>_. Inl []) \<lparr>fl_of_int = id, fl_add = (+), fl_div = (div)\<rparr> [0, 0, 0, 9] new_fragments = (st1, Inr [])
     \<and> append (\<lambda>_. Inl []) \<lparr>fl_of_int = id, fl_add = (+), fl_div = (div)\<rparr> [102, 114, 101, 101, 7] st1 = (st2, Inr [])
     \<and> fr_position st2 = 9
     \<and> (snd (append (\<lambda>_. Inl []) \<lparr>fl_of_int = id, fl_add = (+), fl_div = (div)\<rparr> ([0, 0, 0, 9] @ [102, 114, 101, 101, 7]) new_fragments)
           = bad ''too many top-level MP4 boxes''
        \<or> snd (append (\<lambda>_. Inl []) \<lparr>fl_of_int = id, fl_add = (+), fl_div = (div)\<rparr> ([0, 0, 0, 9] @ [102, 114, 101, 101, 7]) new_fragments)
           = bad ''MSE partial segment exceeds its limit''
        \<or> (\<exists>out. append (\<lambda>_. Inl []) \<lparr>fl_of_int = id, fl_add = (+), fl_div = (div)\<rparr> ([0, 0, 0, 9] @ [102, 114, 101, 101, 7]) new_fragments
              = (st2, Inr out)))"
proof -
  let ?fl = "\<lparr>fl_of_int = id, fl_add = (+), fl_div = (div)\<rparr> :: int float_ops"
  let ?p = "\<lambda>_. Inl [] :: str + mp4_context"
  let ?w = "[0, 0, 0, 9, 102, 114, 101, 101, 7] :: bytes"
  let ?st1 = "new_fragments\<lparr>fr_pending := [0, 0, 0, 9]\<rparr> :: int fragments"
  have a: "append ?p ?fl [0, 0, 0, 9] new_fragments = (?st1, Inr [])"
    by (simp add: append_def append_input_def append_loop.simps box_at_def new_fragments_def checked_add_def)
  have u: "MAX_BOX + 9 \<le> u64_max" by (simp add: u64_max_def MAX_BOX_def)
  have h: "head_box ?w = Inr (Some ([102, 114, 101, 101], 8, 9))"
    by (simp add: head_box_def finish_box_def be_nat_def MAX_BOX_def take_Cons' drop_Cons')
  have b0: "box_at ?w 0 = Inr (Some \<lparr>bx_kind = [102, 114, 101, 101], bx_start = 0, bx_header = 8, bx_end = 9\<rparr>)"
    using box_at_head [of 0 ?w] h u by (simp add: place_def)
  have b9: "box_at ?w 9 = Inr None" by (simp add: box_at_def)
  have l: "append_loop ?p ?fl ?w 0 0 ?st1 = (?st1, Inr ([], 9))"
    by (simp add: append_loop.simps [of _ _ _ 0] b0)
      (simp add: append_loop.simps b9 top_box_def body_def subslice_def tag_def)
  have b: "append ?p ?fl [102, 114, 101, 101, 7] ?st1 = (?st1\<lparr>fr_position := 9, fr_pending := []\<rparr>, Inr [])"
    unfolding append_def append_input_def using l u
    by (simp add: checked_add_def require_def MAX_BOX_def) (simp add: new_fragments_def)
  from append_chunking [OF a b] u show ?thesis
    using a b by (intro exI [of _ ?st1] exI [of _ "?st1\<lparr>fr_position := 9, fr_pending := []\<rparr>"]) (auto simp: new_fragments_def)
qed

end
