(* ===== verification/Languages.thy ===== *)
theory Languages
  imports Chuzz_Prelude
begin

text \<open>
  The languages the browser asks for (\<^verbatim>\<open>src/apps/chuzz/src/languages.rs\<close>): language tags in canonical
  form, the preference list from the environment and the \<open>Accept-Language\<close> header it becomes.
\<close>

section \<open>Characters\<close>

definition is_ascii_lower :: "nat \<Rightarrow> bool" where "is_ascii_lower c \<longleftrightarrow> 97 \<le> c \<and> c \<le> 122"

definition is_ascii_alphabetic :: "nat \<Rightarrow> bool" where
  "is_ascii_alphabetic c \<longleftrightarrow> 65 \<le> c \<and> c \<le> 90 \<or> is_ascii_lower c"

definition is_ascii_digit :: "nat \<Rightarrow> bool" where "is_ascii_digit c \<longleftrightarrow> 48 \<le> c \<and> c \<le> 57"

definition is_ascii_alphanumeric :: "nat \<Rightarrow> bool" where
  "is_ascii_alphanumeric c \<longleftrightarrow> is_ascii_alphabetic c \<or> is_ascii_digit c"

definition ascii_upper :: "str \<Rightarrow> str" where
  "ascii_upper = map (\<lambda>c. if is_ascii_lower c then c - 32 else c)"

text \<open>\<open>str::split\<close> at a character, and \<open>contains("--")\<close>.\<close>

fun split_on :: "nat \<Rightarrow> str \<Rightarrow> str list" where
  "split_on d [] = [[]]"
| "split_on d (c # cs) =
     (if c = d then [] # split_on d cs
      else case split_on d cs of [] \<Rightarrow> [[c]] | p # ps \<Rightarrow> (c # p) # ps)"

fun double_dash :: "str \<Rightarrow> bool" where
  "double_dash (a # b # s) \<longleftrightarrow> a = 45 \<and> b = 45 \<or> double_dash (b # s)"
| "double_dash _ \<longleftrightarrow> False"

section \<open>Subtags\<close>

definition is_alpha :: "str \<Rightarrow> bool" where
  "is_alpha part \<longleftrightarrow> part \<noteq> [] \<and> list_all is_ascii_alphabetic part"

definition is_alpha_len :: "str \<Rightarrow> nat \<Rightarrow> bool" where
  "is_alpha_len part n \<longleftrightarrow> length part = n \<and> is_alpha part"

definition is_region :: "str \<Rightarrow> bool" where
  "is_region part \<longleftrightarrow> is_alpha_len part 2 \<or> length part = 3 \<and> list_all is_ascii_digit part"

definition canonical_region :: "str \<Rightarrow> str" where
  "canonical_region part = (if length part = 2 then ascii_upper part else part)"

definition is_variant :: "str \<Rightarrow> bool" where
  "is_variant part \<longleftrightarrow> 5 \<le> length part \<and> length part \<le> 8 \<and> list_all is_ascii_alphanumeric part
     \<or> length part = 4 \<and> is_ascii_digit (hd part) \<and> list_all is_ascii_alphanumeric (tl part)"

definition is_singleton :: "str \<Rightarrow> bool" where
  "is_singleton part = (case part of [c] \<Rightarrow> is_ascii_alphanumeric c \<and> c \<noteq> 120 \<and> c \<noteq> 88 | _ \<Rightarrow> False)"

definition is_extension_part :: "str \<Rightarrow> bool" where
  "is_extension_part part \<longleftrightarrow> 2 \<le> length part \<and> length part \<le> 8 \<and> list_all is_ascii_alphanumeric part"

definition title_case :: "str \<Rightarrow> str" where
  "title_case part = (case part of [] \<Rightarrow> [] | c # cs \<Rightarrow> ascii_upper [c] @ ascii_lower cs)"

definition private_tag :: "str list \<Rightarrow> str option" where
  "private_tag parts =
     (if length parts < 2 \<or> \<not> eq_ignore_ascii_case (hd parts) (S ''x'') then None
      else if list_ex (\<lambda>p. p = [] \<or> 8 < length p \<or> \<not> list_all is_ascii_alphanumeric p) (tl parts) then None
      else Some (join_strs (S ''-'') (map ascii_lower parts)))"

section \<open>Canonical tags\<close>

fun extlangs :: "nat \<Rightarrow> str list \<Rightarrow> str list \<times> str list" where
  "extlangs (Suc n) (p # ps) =
     (if is_alpha_len p 3 then (case extlangs n ps of (out, rest) \<Rightarrow> (ascii_lower p # out, rest)) else ([], p # ps))"
| "extlangs _ ps = ([], ps)"

definition take_script :: "str list \<Rightarrow> str list \<times> str list" where
  "take_script ps = (case ps of p # rest \<Rightarrow> if is_alpha_len p 4 then ([title_case p], rest) else ([], ps) | [] \<Rightarrow> ([], []))"

definition take_region :: "str list \<Rightarrow> str list \<times> str list" where
  "take_region ps = (case ps of p # rest \<Rightarrow> if is_region p then ([canonical_region p], rest) else ([], ps) | [] \<Rightarrow> ([], []))"

fun variants :: "str list \<Rightarrow> str list \<Rightarrow> (str list \<times> str list) option" where
  "variants seen [] = Some ([], [])"
| "variants seen (p # ps) =
     (if \<not> is_variant p then Some ([], p # ps)
      else if ascii_lower p \<in> set seen then None
      else do { (out, rest) \<leftarrow> variants (seen @ [ascii_lower p]) ps; Some (ascii_lower p # out, rest) })"

function extensions :: "str list \<Rightarrow> str list \<Rightarrow> (str list \<times> str list) option" where
  "extensions seen [] = Some ([], [])"
| "extensions seen (p # ps) =
     (if \<not> is_singleton p then Some ([], p # ps)
      else if ascii_lower p \<in> set seen \<or> takeWhile is_extension_part ps = [] then None
      else do { (out, rest) \<leftarrow> extensions (seen @ [ascii_lower p]) (dropWhile is_extension_part ps);
                Some (ascii_lower p # map ascii_lower (takeWhile is_extension_part ps) @ out, rest) })"
  by pat_completeness auto
termination
  by (relation "measure (\<lambda>(_, ps). length ps)") (auto simp: le_imp_less_Suc length_dropWhile_le)

definition private_rest :: "str list \<Rightarrow> str list option" where
  "private_rest ps = (if ps = [] then Some [] else do { _ \<leftarrow> private_tag ps; Some (map ascii_lower ps) })"

definition language_parts :: "str list \<Rightarrow> str list option" where
  "language_parts parts =
     (let primary = hd parts
      in if \<not> is_alpha primary \<or> \<not> (2 \<le> length primary \<and> length primary \<le> 8) then None
         else let (ext, r1) = (if length primary \<le> 3 then extlangs 3 (tl parts) else ([], tl parts));
                  (script, r2) = take_script r1; (region, r3) = take_region r2
              in do { (vs, r4) \<leftarrow> variants [] r3;
                      (es, r5) \<leftarrow> extensions [] r4;
                      priv \<leftarrow> private_rest r5;
                      Some (ascii_lower primary # ext @ script @ region @ vs @ es @ priv) })"

definition GRANDFATHERED :: "str list" where
  "GRANDFATHERED = map S [''art-lojban'', ''cel-gaulish'', ''en-GB-oed'', ''i-ami'', ''i-bnn'', ''i-default'', ''i-enochian'',
     ''i-hak'', ''i-klingon'', ''i-lux'', ''i-mingo'', ''i-navajo'', ''i-pwn'', ''i-tao'', ''i-tay'', ''i-tsu'', ''no-bok'',
     ''no-nyn'', ''sgn-BE-FR'', ''sgn-BE-NL'', ''sgn-CH-DE'', ''zh-guoyu'', ''zh-hakka'', ''zh-min'', ''zh-min-nan'', ''zh-xiang'']"

definition tag_shape :: "str \<Rightarrow> bool" where
  "tag_shape tag \<longleftrightarrow> list_all (\<lambda>c. is_ascii_alphanumeric c \<or> c = 45) tag \<and> \<not> starts_with tag (S ''-'')
     \<and> \<not> ends_with tag (S ''-'') \<and> \<not> double_dash tag"

definition canonical_bcp47 :: "str \<Rightarrow> str option" where
  "canonical_bcp47 tag =
     (if tag = [] \<or> 100 < utf8_len tag \<or> \<not> list_all (\<lambda>c. c < 128) tag then None
      else case find (\<lambda>k. eq_ignore_ascii_case k tag) GRANDFATHERED of
             Some known \<Rightarrow> Some known
           | None \<Rightarrow>
               if \<not> tag_shape tag then None
               else let parts = split_on 45 tag
                    in if list_ex (\<lambda>p. 8 < length p) parts then None
                       else if eq_ignore_ascii_case (hd parts) (S ''x'') then private_tag parts
                       else map_option (join_strs (S ''-'')) (language_parts parts))"

section \<open>The preference\<close>

definition default_tags :: "str list" where
  "default_tags = [S ''en-US'', S ''en'']"

fun env_tags :: "str list \<Rightarrow> str list \<Rightarrow> str list" where
  "env_tags [] tags = tags"
| "env_tags (entry # entries) tags =
     (case canonical_bcp47 (trim entry) of
        None \<Rightarrow> env_tags entries tags
      | Some tag \<Rightarrow>
          if tag \<in> set tags then env_tags entries tags
          else if length (tags @ [tag]) = 32 then tags @ [tag] else env_tags entries (tags @ [tag]))"

definition languages_from_env :: "str option \<Rightarrow> str list" where
  "languages_from_env raw =
     (case raw of
        None \<Rightarrow> default_tags
      | Some text \<Rightarrow> (let tags = env_tags (split_on 44 text) [] in if tags = [] then default_tags else tags))"

fun accept_from :: "nat \<Rightarrow> str list \<Rightarrow> str" where
  "accept_from index [] = []"
| "accept_from index (tag # tags) =
     (if index = 0 then tag
      else S '','' @ tag @ S '';q=0.'' @ [48 + max 1 (min 9 (saturating_sub 10 index))]) @ accept_from (index + 1) tags"

definition format_accept_language :: "str list \<Rightarrow> str" where
  "format_accept_language tags = accept_from 0 tags"

text \<open>\<open>HeaderValue::from_str\<close> takes visible ASCII, spaces and tabs; otherwise the \<open>expect\<close> panics.\<close>

definition header_value :: "str \<Rightarrow> str option" where
  "header_value s = (if list_all (\<lambda>c. 32 \<le> c \<and> c < 127 \<or> c = 9) s then Some s else None)"

definition preference :: "str option \<Rightarrow> (str list \<times> str) option" where
  "preference raw =
     (let tags = languages_from_env raw
      in do { header \<leftarrow> header_value (format_accept_language tags); Some (tags, header) })"

definition insert_accept_language :: "str option \<Rightarrow> (str \<times> str) list \<Rightarrow> (str \<times> str) list option" where
  "insert_accept_language raw headers =
     (if S ''accept-language'' \<in> fst ` set headers then Some headers
      else do { (_, header) \<leftarrow> preference raw; Some (headers @ [(S ''accept-language'', header)]) })"

section \<open>Normal forms\<close>

text \<open>
  What the preference list relies on: a normal form that depends only on the key of its input and
  keeps it. Then it is its own normal form, and two inputs of the same key have the same one.
\<close>

locale canonical_form =
  fixes norm :: "'a \<Rightarrow> 'a option" and key :: "'a \<Rightarrow> 'a"
  assumes norm_key: "norm (key s) = norm s"
    and norm_keeps: "norm s = Some t \<Longrightarrow> key t = key s"
begin

lemma norm_same: "key s = key t \<Longrightarrow> norm s = norm t"
  by (metis norm_key)

lemma norm_idem: "norm s = Some t \<Longrightarrow> norm t = Some t"
  using norm_same [OF norm_keeps] by simp

lemma norm_unique: "norm s = Some t \<Longrightarrow> norm s' = Some t' \<Longrightarrow> key t = key t' \<longleftrightarrow> t = t'"
  by (metis norm_idem norm_same option.inject)

end

section \<open>Case does not matter\<close>

named_theorems case_free \<open>what is the same for a string and its lower-case form\<close>

abbreviation lower_char :: "nat \<Rightarrow> nat" where
  "lower_char c \<equiv> if 65 \<le> c \<and> c \<le> 90 then c + 32 else c"

lemma lower_basic [simp]:
  "ascii_lower [] = []" "ascii_lower (c # s) = lower_char c # ascii_lower s" "ascii_lower (s @ r) = ascii_lower s @ ascii_lower r"
  "length (ascii_lower s) = length s" "ascii_lower s = [] \<longleftrightarrow> s = []" "ascii_lower (ascii_lower s) = ascii_lower s"
  by (auto simp: ascii_lower_def)

lemma class_lower [simp]:
  "is_ascii_alphabetic (lower_char c) \<longleftrightarrow> is_ascii_alphabetic c" "is_ascii_digit (lower_char c) \<longleftrightarrow> is_ascii_digit c"
  "is_ascii_alphanumeric (lower_char c) \<longleftrightarrow> is_ascii_alphanumeric c"
  by (auto simp: is_ascii_alphabetic_def is_ascii_digit_def is_ascii_alphanumeric_def is_ascii_lower_def)

lemma list_all_lower: "(\<And>c. P (lower_char c) = P c) \<Longrightarrow> list_all P (ascii_lower s) = list_all P s"
  by (simp add: ascii_lower_def list_all_length)

lemma class_list [simp]:
  "list_all is_ascii_alphabetic (ascii_lower s) = list_all is_ascii_alphabetic s"
  "list_all is_ascii_digit (ascii_lower s) = list_all is_ascii_digit s"
  "list_all is_ascii_alphanumeric (ascii_lower s) = list_all is_ascii_alphanumeric s"
  by (rule list_all_lower, rule class_lower)+

lemma subtag_lower [case_free]:
  "is_alpha (ascii_lower p) = is_alpha p" "is_alpha_len (ascii_lower p) n = is_alpha_len p n"
  "is_region (ascii_lower p) = is_region p" "is_extension_part (ascii_lower p) = is_extension_part p"
  "is_variant (ascii_lower p) = is_variant p" "is_singleton (ascii_lower p) = is_singleton p"
proof -
  show "is_alpha (ascii_lower p) = is_alpha p" "is_alpha_len (ascii_lower p) n = is_alpha_len p n"
    "is_region (ascii_lower p) = is_region p" "is_extension_part (ascii_lower p) = is_extension_part p"
    by (simp_all add: is_alpha_def is_alpha_len_def is_region_def is_extension_part_def)
  show "is_variant (ascii_lower p) = is_variant p" by (cases p) (auto simp: is_variant_def)
  show "is_singleton (ascii_lower p) = is_singleton p"
    by (cases p rule: list.exhaust [case_product list.exhaust]) (auto simp: is_singleton_def split: list.split)
qed

lemma recase_lower [case_free]:
  "title_case (ascii_lower p) = title_case p" "canonical_region (ascii_lower p) = canonical_region p \<or> length p \<noteq> 2"
  "ascii_lower (title_case p) = ascii_lower p" "ascii_lower (canonical_region p) = ascii_lower p"
proof -
  have u: "ascii_upper (ascii_lower s) = ascii_upper s" "ascii_lower (ascii_upper s) = ascii_lower s" for s
    by (auto simp: ascii_upper_def ascii_lower_def is_ascii_lower_def)
  show "title_case (ascii_lower p) = title_case p" using u(1) [of "[hd p]"] by (cases p) (auto simp: title_case_def)
  show "ascii_lower (title_case p) = ascii_lower p" using u(2) [of "[hd p]"] by (cases p) (auto simp: title_case_def)
  show "canonical_region (ascii_lower p) = canonical_region p \<or> length p \<noteq> 2" by (auto simp: canonical_region_def u)
  show "ascii_lower (canonical_region p) = ascii_lower p" by (simp add: canonical_region_def u)
qed

lemma digits_lower: "list_all is_ascii_digit p \<Longrightarrow> ascii_lower p = p"
  by (induction p) (auto simp: is_ascii_digit_def)

lemma region_lower: "is_region p \<Longrightarrow> canonical_region (ascii_lower p) = canonical_region p"
  using recase_lower(2) [of p] digits_lower [of p] by (auto simp: is_region_def is_alpha_len_def)

abbreviation lowers :: "str list \<Rightarrow> str list" where
  "lowers \<equiv> map ascii_lower"

lemma extlangs_lower:
  "extlangs n (lowers ps) = map_prod id lowers (extlangs n ps)"
  "lowers (fst (extlangs n ps)) @ lowers (snd (extlangs n ps)) = lowers ps"
  by (induction n ps rule: extlangs.induct) (auto simp: case_free split: prod.splits)

lemma script_region_lower:
  "take_script (lowers ps) = map_prod id lowers (take_script ps)"
  "lowers (fst (take_script ps)) @ lowers (snd (take_script ps)) = lowers ps"
  "take_region (lowers ps) = map_prod id lowers (take_region ps)"
  "lowers (fst (take_region ps)) @ lowers (snd (take_region ps)) = lowers ps"
  by (cases ps; simp add: take_script_def take_region_def case_free region_lower)+

lemma variants_lower:
  "variants seen (lowers ps) = map_option (map_prod id lowers) (variants seen ps)"
  "variants seen ps = Some (out, rest) \<Longrightarrow> lowers out @ lowers rest = lowers ps"
proof (induction seen ps arbitrary: out rule: variants.induct)
  case (2 seen p ps)
  {
    case 1
    show ?case using "2.IH"(1) by (cases "variants (seen @ [ascii_lower p]) ps") (auto simp: case_free)
  next
    case 2
    then show ?case using "2.IH"(2) by (fastforce simp: bind_eq_Some_conv split: if_splits)
  }
qed auto

lemma while_lower:
  "takeWhile is_extension_part (lowers ps) = lowers (takeWhile is_extension_part ps)"
  "dropWhile is_extension_part (lowers ps) = lowers (dropWhile is_extension_part ps)"
  by (induction ps) (auto simp: case_free)

lemma extensions_lower:
  "extensions seen (lowers ps) = map_option (map_prod id lowers) (extensions seen ps)"
  "extensions seen ps = Some (out, rest) \<Longrightarrow> lowers out @ lowers rest = lowers ps"
proof (induction seen ps arbitrary: out rule: extensions.induct)
  case (2 seen p ps)
  {
    case 1
    show ?case using "2.IH"(1)
      by (cases "extensions (seen @ [ascii_lower p]) (dropWhile is_extension_part ps)")
        (auto simp: case_free while_lower comp_def)
  next
    case 2
    then show ?case using "2.IH"(2)
      by (auto simp: bind_eq_Some_conv comp_def split: if_splits) (metis map_append takeWhile_dropWhile_id)
  }
qed auto

lemma private_lower:
  "private_tag (lowers ps) = private_tag ps" "private_rest (lowers ps) = private_rest ps"
  "private_rest ps = Some out \<Longrightarrow> lowers out = lowers ps"
proof -
  show p: "private_tag (lowers ps) = private_tag ps"
    by (cases ps) (auto simp: private_tag_def eq_ignore_ascii_case_def list_ex_iff comp_def)
  show "private_rest (lowers ps) = private_rest ps" by (simp add: private_rest_def p comp_def)
  show "private_rest ps = Some out \<Longrightarrow> lowers out = lowers ps"
    by (auto simp: private_rest_def comp_def bind_eq_Some_conv split: if_splits)
qed

lemma language_parts_lower:
  assumes "ps \<noteq> []"
  shows "language_parts (lowers ps) = language_parts ps"
    and "language_parts ps = Some out \<Longrightarrow> lowers out = lowers ps"
proof -
  obtain p rest where ps: "ps = p # rest" using assms by (cases ps) auto
  define e where "e = (if length p \<le> 3 then extlangs 3 rest else ([], rest))"
  have e: "(if length p \<le> 3 then extlangs 3 (lowers rest) else ([], lowers rest)) = map_prod id lowers e"
    "lowers (fst e) @ lowers (snd e) = lowers rest"
    using extlangs_lower [of 3 rest] by (auto simp: e_def)
  define s where "s = take_script (snd e)"
  have s: "take_script (lowers (snd e)) = map_prod id lowers s" "lowers (fst s) @ lowers (snd s) = lowers (snd e)"
    using script_region_lower(1,2) [of "snd e"] by (simp_all add: s_def)
  define r where "r = take_region (snd s)"
  have r: "take_region (lowers (snd s)) = map_prod id lowers r" "lowers (fst r) @ lowers (snd r) = lowers (snd s)"
    using script_region_lower(3,4) [of "snd s"] by (simp_all add: r_def)
  have lp: "language_parts ps = (if \<not> is_alpha p \<or> \<not> (2 \<le> length p \<and> length p \<le> 8) then None
      else do { (vs, r4) \<leftarrow> variants [] (snd r); (es, r5) \<leftarrow> extensions [] r4; priv \<leftarrow> private_rest r5;
                Some (ascii_lower p # fst e @ fst s @ fst r @ vs @ es @ priv) })"
    unfolding language_parts_def ps Let_def e_def [symmetric] list.sel
    by (cases e; cases s; cases r) (simp add: s_def r_def)
  have "language_parts (lowers ps) = (if \<not> is_alpha p \<or> \<not> (2 \<le> length p \<and> length p \<le> 8) then None
      else do { (vs, r4) \<leftarrow> variants [] (lowers (snd r)); (es, r5) \<leftarrow> extensions [] r4; priv \<leftarrow> private_rest r5;
                Some (ascii_lower p # fst e @ fst s @ fst r @ vs @ es @ priv) })"
    unfolding language_parts_def ps Let_def list.sel list.map lower_basic e(1)
    using s(1) r(1) by (cases e; cases s; cases r) (simp add: case_free)
  also have "\<dots> = language_parts ps" unfolding lp variants_lower(1)
    by (cases "variants [] (snd r)"; cases "extensions [] (snd (the (variants [] (snd r))))")
      (auto simp: extensions_lower(1) private_lower)
  finally show "language_parts (lowers ps) = language_parts ps" .
  assume "language_parts ps = Some out"
  then obtain vs r4 es r5 priv where x: "variants [] (snd r) = Some (vs, r4)" "extensions [] r4 = Some (es, r5)"
    "private_rest r5 = Some priv" "out = ascii_lower p # fst e @ fst s @ fst r @ vs @ es @ priv"
    unfolding lp by (auto simp: bind_eq_Some_conv split: if_splits)
  have "lowers out = ascii_lower p # lowers (fst e) @ lowers (fst s) @ lowers (fst r) @ lowers vs @ lowers es @ lowers r5"
    unfolding x(4) using private_lower(3) [OF x(3)] by simp
  also have "\<dots> = lowers ps"
    using e(2) s(2) r(2) variants_lower(2) [OF x(1)] extensions_lower(2) [OF x(2)] ps by simp
  finally show "lowers out = lowers ps" .
qed

section \<open>Canonical form\<close>

lemma split_on_nonempty: "split_on d s \<noteq> []"
  by (induction s) (auto split: list.splits)

lemma split_on_lower: "split_on 45 (ascii_lower s) = lowers (split_on 45 s)"
  by (induction s) (auto split: list.splits)

lemma join_Cons: "ps \<noteq> [] \<Longrightarrow> join_strs sep (p # ps) = p @ sep @ join_strs sep ps"
  by (cases ps) auto

lemma join_split: "join_strs [d] (split_on d s) = s"
proof (induction s)
  case (Cons c s)
  obtain p ps where s: "split_on d s = p # ps" using split_on_nonempty [of d s] by (cases "split_on d s") auto
  with Cons show ?case by (cases ps) (auto simp: join_Cons)
qed simp

lemma join_lower: "ascii_lower (join_strs (S ''-'') ps) = join_strs (S ''-'') (lowers ps)"
  by (induction "S ''-''" ps rule: join_strs.induct) auto

lemma shape_lower: "tag_shape (ascii_lower s) = tag_shape s"
proof -
  have "double_dash (ascii_lower s) = double_dash s" by (induction s rule: double_dash.induct) auto
  moreover have "starts_with (ascii_lower s) (S ''-'') = starts_with s (S ''-'')" by (cases s) (auto simp: starts_with_def)
  moreover have e: "ends_with s (S ''-'') \<longleftrightarrow> s \<noteq> [] \<and> last s = 45" for s
    by (cases s rule: rev_cases) (auto simp: ends_with_def)
  moreover have "last (ascii_lower s) = 45 \<longleftrightarrow> last s = 45" if "s \<noteq> []" using that by (auto simp: ascii_lower_def last_map)
  moreover have "list_all (\<lambda>c. is_ascii_alphanumeric c \<or> c = 45) (ascii_lower s) = list_all (\<lambda>c. is_ascii_alphanumeric c \<or> c = 45) s"
    by (rule list_all_lower) (use class_lower(3) in auto)
  ultimately show ?thesis by (auto simp: tag_shape_def)
qed

lemma ascii_len: "list_all (\<lambda>c. c < 128) s \<Longrightarrow> utf8_len s = length s"
  by (induction s) (auto simp: utf8_len_def utf8_char_def)

lemma canonical_lower: "canonical_bcp47 (ascii_lower s) = canonical_bcp47 s"
proof -
  have a: "list_all (\<lambda>c. c < 128) (ascii_lower s) = list_all (\<lambda>c. c < 128) s" by (rule list_all_lower) auto
  have len: "100 < utf8_len (ascii_lower s) \<or> \<not> list_all (\<lambda>c. c < 128) s \<longleftrightarrow> 100 < utf8_len s \<or> \<not> list_all (\<lambda>c. c < 128) s"
    using ascii_len [of s] ascii_len [of "ascii_lower s"] a by auto
  have f: "find (\<lambda>k. eq_ignore_ascii_case k (ascii_lower s)) GRANDFATHERED = find (\<lambda>k. eq_ignore_ascii_case k s) GRANDFATHERED"
    by (simp add: eq_ignore_ascii_case_def)
  have h: "eq_ignore_ascii_case (hd (lowers (split_on 45 s))) (S ''x'') = eq_ignore_ascii_case (hd (split_on 45 s)) (S ''x'')"
    using split_on_nonempty [of 45 s] by (cases "split_on 45 s") (auto simp: eq_ignore_ascii_case_def)
  show ?thesis unfolding canonical_bcp47_def Let_def split_on_lower h f shape_lower a private_lower
      language_parts_lower(1) [OF split_on_nonempty]
    using len by (auto simp: list_ex_iff)
qed

lemma canonical_keeps: "canonical_bcp47 s = Some t \<Longrightarrow> ascii_lower t = ascii_lower s"
proof -
  assume c: "canonical_bcp47 s = Some t"
  have js: "join_strs (S ''-'') (split_on 45 s) = s" using join_split [of 45 s] by simp
  show ?thesis
  proof (cases "find (\<lambda>k. eq_ignore_ascii_case k s) GRANDFATHERED")
    case (Some k)
    with c find_SomeD [OF Some] show ?thesis by (auto simp: canonical_bcp47_def eq_ignore_ascii_case_def split: if_splits)
  next
    case None
    with c consider "private_tag (split_on 45 s) = Some t"
      | out where "language_parts (split_on 45 s) = Some out" "t = join_strs (S ''-'') out"
      by (auto simp: canonical_bcp47_def Let_def split: if_splits)
    then show ?thesis
    proof cases
      case 1
      then have "t = join_strs (S ''-'') (lowers (split_on 45 s))" by (auto simp: private_tag_def split: if_splits)
      then show ?thesis using js join_lower [of "split_on 45 s"] by (metis lower_basic(6))
    next
      case 2
      then show ?thesis using language_parts_lower(2) [OF split_on_nonempty 2(1)] js join_lower by metis
    qed
  qed
qed

interpretation bcp47: canonical_form canonical_bcp47 ascii_lower
  by unfold_locales (rule canonical_lower, rule canonical_keeps)

section \<open>The preference is sound\<close>

lemma canonical_chars: "canonical_bcp47 s = Some t \<Longrightarrow> list_all (\<lambda>c. is_ascii_alphanumeric c \<or> c = 45) t"
proof -
  assume c: "canonical_bcp47 s = Some t"
  have g: "list_all (\<lambda>k. list_all (\<lambda>c. is_ascii_alphanumeric c \<or> c = 45) k) GRANDFATHERED"
    by (simp add: GRANDFATHERED_def is_ascii_alphanumeric_def is_ascii_alphabetic_def is_ascii_lower_def is_ascii_digit_def)
  show ?thesis
  proof (cases "find (\<lambda>k. eq_ignore_ascii_case k s) GRANDFATHERED")
    case (Some k)
    with c g find_SomeD [OF Some] show ?thesis by (auto simp: canonical_bcp47_def list_all_iff split: if_splits)
  next
    case None
    with c have "tag_shape s" by (auto simp: canonical_bcp47_def split: if_splits)
    then have "list_all (\<lambda>c. is_ascii_alphanumeric c \<or> c = 45) (ascii_lower s)" using shape_lower by (auto simp: tag_shape_def)
    then show ?thesis unfolding canonical_keeps [OF c, symmetric]
      by (subst (asm) list_all_lower) (use class_lower(3) in auto)
  qed
qed

lemma env_tags_sound:
  assumes "distinct tags" and "length tags < 32" and "\<forall>t\<in>set tags. canonical_bcp47 t = Some t"
  shows "distinct (env_tags es tags) \<and> length (env_tags es tags) \<le> 32 \<and> (\<forall>t\<in>set (env_tags es tags). canonical_bcp47 t = Some t)"
  using assms
proof (induction es tags rule: env_tags.induct)
  case (2 e es tags)
  show ?case
  proof (cases "canonical_bcp47 (trim e)")
    case None
    with 2 show ?thesis by simp
  next
    case (Some t)
    with "2.IH"(2) [OF Some] "2.IH"(3) [OF Some] "2.prems" bcp47.norm_idem [OF Some] show ?thesis by auto
  qed
qed auto

lemma default_canonical: "canonical_bcp47 (S ''en-US'') = Some (S ''en-US'')" "canonical_bcp47 (S ''en'') = Some (S ''en'')"
  by code_simp+

lemma accept_visible:
  "list_all (list_all (\<lambda>c. 32 \<le> c \<and> c < 127 \<or> c = 9)) tags \<Longrightarrow> list_all (\<lambda>c. 32 \<le> c \<and> c < 127 \<or> c = 9) (accept_from i tags)"
  by (induction i tags rule: accept_from.induct) (auto simp: saturating_sub_def)

text \<open>
  C21. Whatever the environment says, the language preference is well formed: it is there (building the header does not panic), it has
  between one and 32 tags without repetition, and every tag is its own canonical form; the header that is sent
  lists exactly these.
\<close>

theorem language_preference_sound:
  "\<exists>tags. preference raw = Some (tags, format_accept_language tags) \<and> tags \<noteq> [] \<and> length tags \<le> 32 \<and> distinct tags
     \<and> list_all (\<lambda>t. canonical_bcp47 t = Some t) tags"
proof -
  let ?tags = "languages_from_env raw"
  have d: "default_tags \<noteq> []" "length default_tags \<le> 32" "distinct default_tags" "\<forall>t\<in>set default_tags. canonical_bcp47 t = Some t"
    using default_canonical by (simp_all add: default_tags_def)
  have ok: "?tags \<noteq> [] \<and> length ?tags \<le> 32 \<and> distinct ?tags \<and> (\<forall>t\<in>set ?tags. canonical_bcp47 t = Some t)"
    using d env_tags_sound [of "[]"] by (cases raw) (auto simp: languages_from_env_def Let_def)
  have "list_all (\<lambda>c. 32 \<le> c \<and> c < 127 \<or> c = 9) t" if "t \<in> set ?tags" for t
    using canonical_chars [of t t] ok that
    by (auto simp: list_all_iff is_ascii_alphanumeric_def is_ascii_alphabetic_def is_ascii_lower_def is_ascii_digit_def)
  then have "list_all (list_all (\<lambda>c. 32 \<le> c \<and> c < 127 \<or> c = 9)) ?tags" by (simp add: list_all_iff)
  from accept_visible [OF this, of 0]
  have "header_value (format_accept_language ?tags) = Some (format_accept_language ?tags)"
    by (simp add: header_value_def format_accept_language_def)
  with ok show ?thesis by (auto simp: preference_def Let_def list_all_iff)
qed

end
