(* ===== verification/Text_Ops.thy ===== *)
theory Text_Ops
  imports Languages
begin

text \<open>
  The string operations of Rust's standard library that several components share, with the texts of errors as the left side of a result:
  \<open>strip_prefix\<close>, \<open>split_once\<close>, \<open>split_whitespace\<close>, \<open>lines\<close>, the parsing of unsigned integers, and the lemmas that
  say what they find in a text put together from parts.
\<close>

section \<open>Results\<close>

text \<open>The \<open>?\<close> operator, \<open>ok_or\<close>, and \<open>collect\<close> into a result.\<close>

definition and_then :: "'e + 'a \<Rightarrow> ('a \<Rightarrow> 'e + 'b) \<Rightarrow> 'e + 'b" where
  "and_then r f = (case r of Inl e \<Rightarrow> Inl e | Inr x \<Rightarrow> f x)"

definition ok_or :: "'a option \<Rightarrow> 'e \<Rightarrow> 'e + 'a" where
  "ok_or x e = (case x of None \<Rightarrow> Inl e | Some y \<Rightarrow> Inr y)"

fun collect_results :: "('a \<Rightarrow> 'e + 'b) \<Rightarrow> 'a list \<Rightarrow> 'e + 'b list" where
  "collect_results f [] = Inr []"
| "collect_results f (x # xs) = and_then (f x) (\<lambda>y. and_then (collect_results f xs) (\<lambda>ys. Inr (y # ys)))"

lemma and_then_Inr [simp]: "and_then r f = Inr y \<longleftrightarrow> (\<exists>x. r = Inr x \<and> f x = Inr y)"
  by (auto simp: and_then_def split: sum.splits)

lemma ok_or_Inr [simp]: "ok_or x e = Inr y \<longleftrightarrow> x = Some y"
  by (auto simp: ok_or_def split: option.splits)

lemma collect_results_Inr: "collect_results f xs = Inr ys \<longleftrightarrow> list_all2 (\<lambda>x y. f x = Inr y) xs ys"
  by (induction xs arbitrary: ys) (auto simp: list_all2_Cons1)

section \<open>Finding and splitting\<close>

definition strip_prefix :: "str \<Rightarrow> str \<Rightarrow> str option" where
  "strip_prefix s p = (if starts_with s p then Some (drop (length p) s) else None)"

fun split_once :: "nat \<Rightarrow> str \<Rightarrow> (str \<times> str) option" where
  "split_once d [] = None"
| "split_once d (c # s) = (if c = d then Some ([], s) else map_option (map_prod ((#) c) id) (split_once d s))"

fun split_by :: "(nat \<Rightarrow> bool) \<Rightarrow> str \<Rightarrow> str list" where
  "split_by p [] = [[]]"
| "split_by p (c # s) = (if p c then [] # split_by p s else case split_by p s of [] \<Rightarrow> [[c]] | w # ws \<Rightarrow> (c # w) # ws)"

definition split_whitespace :: "str \<Rightarrow> str list" where
  "split_whitespace s = filter (\<lambda>w. w \<noteq> []) (split_by is_whitespace s)"

text \<open>\<open>str::lines\<close>: a line ends at a line feed, with the carriage return before it; a last line that is empty is none.\<close>

definition strip_cr :: "str \<Rightarrow> str" where
  "strip_cr l = (if l \<noteq> [] \<and> last l = 13 then butlast l else l)"

fun str_lines :: "str list \<Rightarrow> str list" where
  "str_lines [] = []"
| "str_lines [l] = (if l = [] then [] else [l])"
| "str_lines (l # m # ls) = strip_cr l # str_lines (m # ls)"

definition lines_of :: "str \<Rightarrow> str list" where
  "lines_of s = str_lines (split_by (\<lambda>c. c = 10) s)"

definition trim_end_cr :: "str \<Rightarrow> str" where
  "trim_end_cr l = rev (dropWhile (\<lambda>c. c = 13) (rev l))"

section \<open>Numbers\<close>

definition digits_value :: "str \<Rightarrow> nat" where
  "digits_value s = foldl (\<lambda>a c. a * 10 + (c - 48)) 0 s"

text \<open>\<open>parse\<close> of an unsigned integer takes a leading plus.\<close>

definition parse_uint :: "nat \<Rightarrow> str \<Rightarrow> nat option" where
  "parse_uint limit s =
     (let d = (case strip_prefix s [43] of Some t \<Rightarrow> t | None \<Rightarrow> s)
      in if d \<noteq> [] \<and> list_all is_ascii_digit d \<and> digits_value d \<le> limit then Some (digits_value d) else None)"

definition hex_value :: "nat \<Rightarrow> nat option" where
  "hex_value c = (if is_ascii_digit c then Some (c - 48)
     else if 97 \<le> c \<and> c \<le> 102 then Some (c - 87) else if 65 \<le> c \<and> c \<le> 70 then Some (c - 55) else None)"

text \<open>Whether \<open>u8::from_str_radix(s, 16)\<close> takes a text.\<close>

definition parses_hex_byte :: "str \<Rightarrow> bool" where
  "parses_hex_byte s \<longleftrightarrow>
     (let d = (case strip_prefix s [43] of Some t \<Rightarrow> t | None \<Rightarrow> s)
      in d \<noteq> [] \<and> list_all (\<lambda>c. hex_value c \<noteq> None) d \<and> foldl (\<lambda>a c. a * 16 + the (hex_value c)) 0 d \<le> 255)"

section \<open>Texts put together\<close>

lemma split_by_nonempty [simp]: "split_by p s \<noteq> []"
  by (induction s) (auto split: list.split)

lemma split_by_append: "\<not> list_ex p a \<Longrightarrow> p c \<Longrightarrow> split_by p (a @ c # s) = a # split_by p s"
  by (induction a) auto

lemma split_by_no: "\<not> list_ex p s \<Longrightarrow> split_by p s = [s]"
  by (induction s) auto

lemma split_by_set: "w \<in> set (split_by p s) \<Longrightarrow> set w \<subseteq> set s \<and> \<not> list_ex p w"
proof (induction s arbitrary: w)
  case (Cons c s)
  show ?case
  proof (cases "p c")
    case True
    with Cons show ?thesis by auto
  next
    case False
    obtain v vs where v: "split_by p s = v # vs" by (cases "split_by p s") auto
    with Cons.prems False consider "w = c # v" | "w \<in> set vs" by auto
    then show ?thesis
    proof cases
      case 1
      with Cons.IH [of v] v False show ?thesis by auto
    next
      case 2
      with Cons.IH [of w] v show ?thesis by auto
    qed
  qed
qed simp

lemma split_whitespace_words: "w \<in> set (split_whitespace s) \<Longrightarrow> w \<noteq> [] \<and> \<not> list_ex is_whitespace w"
  using split_by_set by (auto simp: split_whitespace_def)

text \<open>Lines written with a carriage return and a line feed come back as they were.\<close>

definition plain_line :: "str \<Rightarrow> bool" where
  "plain_line l \<longleftrightarrow> 10 \<notin> set l \<and> (l \<noteq> [] \<longrightarrow> last l \<noteq> 13)"

lemma trim_end_cr_plain: "plain_line l \<Longrightarrow> trim_end_cr l = l"
  by (cases l rule: rev_cases) (auto simp: plain_line_def trim_end_cr_def)

lemma plain_trim_end_cr: "10 \<notin> set l \<Longrightarrow> plain_line (trim_end_cr l)"
proof (induction l rule: rev_induct)
  case (snoc c l)
  then show ?case by (cases "c = 13") (auto simp: plain_line_def trim_end_cr_def)
qed (simp add: plain_line_def trim_end_cr_def)

lemma lines_of_written: "list_all plain_line ls \<Longrightarrow> lines_of (concat (map (\<lambda>l. l @ [13, 10]) ls)) = ls"
proof (induction ls)
  case (Cons l ls)
  have "split_by (\<lambda>c. c = 10) (l @ 13 # 10 # s) = (l @ [13]) # split_by (\<lambda>c. c = 10) s" for s
    using Cons.prems split_by_append [of "\<lambda>c. c = 10" "l @ [13]" 10 s] by (auto simp: plain_line_def list_ex_iff)
  with Cons show ?case
    by (cases "split_by (\<lambda>c. c = 10) (concat (map (\<lambda>l. l @ [13, 10]) ls))") (auto simp: lines_of_def strip_cr_def)
qed (simp add: lines_of_def)

lemma lines_of_no_feed: "l \<in> set (lines_of s) \<Longrightarrow> 10 \<notin> set l"
proof -
  have "l \<in> set (str_lines ws) \<Longrightarrow> \<forall>w\<in>set ws. 10 \<notin> set w \<Longrightarrow> 10 \<notin> set l" for ws
    by (induction ws rule: str_lines.induct) (auto simp: strip_cr_def dest: in_set_butlastD split: if_splits)
  moreover assume "l \<in> set (lines_of s)"
  ultimately show ?thesis using split_by_set [of _ "\<lambda>c. c = 10" s] by (fastforce simp: lines_of_def list_ex_iff)
qed

section \<open>Numbers in decimal, read again\<close>

lemma digits_value_append: "digits_value (s @ [c]) = digits_value s * 10 + (c - 48)"
  by (simp add: digits_value_def)

lemma dec_digits: "list_all is_ascii_digit (dec n) \<and> dec n \<noteq> [] \<and> digits_value (dec n) = n"
proof (induction n rule: dec.induct)
  case (1 n)
  show ?case
  proof (cases "n < 10")
    case True
    then show ?thesis by (subst (1 2 3) dec.simps) (simp add: digits_value_def is_ascii_digit_def)
  next
    case False
    have "is_ascii_digit (48 + n mod 10)" unfolding is_ascii_digit_def using mod_less_divisor [of 10 n] by linarith
    with 1 [OF False] False show ?thesis by (subst (1 2 3) dec.simps) (simp add: digits_value_append)
  qed
qed

end
