(* ===== verification/Mse_Buffer.thy ===== *)
theory Mse_Buffer
  imports Fragment_Chunks Text_Ops
begin

text \<open>
  Source buffers of media source extensions (\<^verbatim>\<open>src/apps/chuzz/src/video/mse.rs\<close>): content types, buffered ranges and
  the packets of a buffer. The fragment indexer is \<open>Fragments\<close>; arithmetic and
  comparison of \<open>f64\<close> are a parameter. The identity of a shared byte buffer (an \<open>Arc\<close>) is a number: all packets
  that came out of one append share theirs. A panic is \<open>None\<close>.
\<close>

section \<open>Types\<close>

record 'f f64_ops = "'f float_ops" +
  fx_lt :: "'f \<Rightarrow> 'f \<Rightarrow> bool"
  fx_le :: "'f \<Rightarrow> 'f \<Rightarrow> bool"
  fx_total_le :: "'f \<Rightarrow> 'f \<Rightarrow> bool" \<comment> \<open>\<open>total_cmp\<close>\<close>
  fx_eq :: "'f \<Rightarrow> 'f \<Rightarrow> bool"
  fx_finite :: "'f \<Rightarrow> bool"
  fx_nan :: "'f \<Rightarrow> bool"
  fx_infinite :: "'f \<Rightarrow> bool"
  fx_max :: "'f \<Rightarrow> 'f \<Rightarrow> 'f"
  fx_min :: "'f \<Rightarrow> 'f \<Rightarrow> 'f"
  fx_sub :: "'f \<Rightarrow> 'f \<Rightarrow> 'f"
  fx_zero :: 'f
  fx_infinity :: 'f
  fx_nan_value :: 'f
  fx_slack :: 'f \<comment> \<open>\<open>0.000001\<close>\<close>

datatype mse_error = MseError str str \<comment> \<open>name and message\<close>

definition err_state :: "string \<Rightarrow> mse_error" where
  "err_state m = MseError (S ''InvalidStateError'') (S m)"

definition err_decode :: "str \<Rightarrow> mse_error" where
  "err_decode m = MseError (S ''EncodingError'') m"

definition err_quota :: mse_error where
  "err_quota = MseError (S ''QuotaExceededError'') (S ''MSE memory or resource limit reached'')"

definition SOURCE_LIMIT :: nat where "SOURCE_LIMIT = 128 * 1024 * 1024"

definition DOCUMENT_LIMIT :: nat where "DOCUMENT_LIMIT = 256 * 1024 * 1024"

definition UPLOAD_LIMIT :: nat where "UPLOAD_LIMIT = 16 * 1024 * 1024"

definition MAX_ID :: nat where "MAX_ID = 9007199254740991"

section \<open>Content types\<close>

record mime_type =
  mi_video :: bool
  mi_audio :: bool

definition unquoted :: "str \<Rightarrow> str option" where
  "unquoted v =
     (if starts_with v [34] \<and> ends_with v [34] \<and> 2 \<le> length v then Some (take (length v - 2) (drop 1 v))
      else if 34 \<in> set v then None else Some v)"

fun mime_fields :: "str list \<Rightarrow> str option \<Rightarrow> str option option" where
  "mime_fields [] codecs = Some codecs"
| "mime_fields (field # fs) codecs =
     do { (k, v) \<leftarrow> split_once 61 (trim field);
          if trim k \<noteq> S ''codecs'' \<or> codecs \<noteq> None then None
          else do { u \<leftarrow> unquoted (trim v); mime_fields fs (Some u) } }"

definition avc_profile_ok :: "str \<Rightarrow> bool" where
  "avc_profile_ok p \<longleftrightarrow> length p = 6 \<and> list_all (\<lambda>c. hex_value c \<noteq> None) p
     \<and> the (hex_value (p ! 0)) * 16 + the (hex_value (p ! 1)) \<in> {66, 77, 100}"

fun mime_codecs :: "str \<Rightarrow> str list \<Rightarrow> mime_type \<Rightarrow> mime_type option" where
  "mime_codecs container [] m = Some m"
| "mime_codecs container (c # cs) m =
     (if trim c = S ''mp4a.40.2'' \<and> \<not> mi_audio m then mime_codecs container cs (m\<lparr>mi_audio := True\<rparr>)
      else if \<not> starts_with (trim c) (S ''avc1.'') then None
      else if mi_video m \<or> container = S ''audio/mp4'' \<or> \<not> avc_profile_ok (drop 5 (trim c)) then None
      else mime_codecs container cs (m\<lparr>mi_video := True\<rparr>))"

definition mime :: "str \<Rightarrow> mime_type option" where
  "mime v =
     (let parts = split_on 59 (ascii_lower v); container = trim (hd parts)
      in if container \<noteq> S ''video/mp4'' \<and> container \<noteq> S ''audio/mp4'' then None
         else do { codecs \<leftarrow> mime_fields (tl parts) None;
                   (case codecs of
                      None \<Rightarrow> Some \<lparr>mi_video = (container = S ''video/mp4''), mi_audio = (container = S ''audio/mp4'')\<rparr>
                    | Some list \<Rightarrow>
                        do { m \<leftarrow> mime_codecs container (split_on 44 list) \<lparr>mi_video = False, mi_audio = False\<rparr>;
                             (if mi_video m \<or> mi_audio m then Some m else None) }) })"

section \<open>Ranges\<close>

text \<open>\<open>sort_by\<close> is a stable sort.\<close>

fun insort_by :: "('a \<Rightarrow> 'a \<Rightarrow> bool) \<Rightarrow> 'a \<Rightarrow> 'a list \<Rightarrow> 'a list" where
  "insort_by le x [] = [x]"
| "insort_by le x (y # ys) = (if le x y then x # y # ys else y # insort_by le x ys)"

definition sort_by :: "('a \<Rightarrow> 'a \<Rightarrow> bool) \<Rightarrow> 'a list \<Rightarrow> 'a list" where
  "sort_by le xs = foldr (insort_by le) xs []"

fun merge_sorted :: "('f, 'e) f64_ops_scheme \<Rightarrow> ('f \<times> 'f) list \<Rightarrow> ('f \<times> 'f) list \<Rightarrow> ('f \<times> 'f) list" where
  "merge_sorted fx [] result = result"
| "merge_sorted fx (r # rs) result =
     (if result \<noteq> [] \<and> fx_le fx (fst r) (fl_add fx (snd (last result)) (fx_slack fx))
      then merge_sorted fx rs (butlast result @ [(fst (last result), fx_max fx (snd (last result)) (snd r))])
      else merge_sorted fx rs (result @ [r]))"

definition merge :: "('f, 'e) f64_ops_scheme \<Rightarrow> ('f \<times> 'f) list \<Rightarrow> ('f \<times> 'f) list" where
  "merge fx ranges =
     merge_sorted fx (sort_by (\<lambda>a b. fx_total_le fx (fst a) (fst b))
       (filter (\<lambda>(a, b). fx_finite fx a \<and> fx_finite fx b \<and> fx_lt fx a b) ranges)) []"

fun intersection :: "('f, 'e) f64_ops_scheme \<Rightarrow> ('f \<times> 'f) list \<Rightarrow> ('f \<times> 'f) list \<Rightarrow> ('f \<times> 'f) list" where
  "intersection fx (a # left) (b # right) =
     (let start = fx_max fx (fst a) (fst b); stop = fx_min fx (snd a) (snd b);
          rest = (if fx_lt fx (snd a) (snd b) then intersection fx left (b # right) else intersection fx (a # left) right)
      in if fx_lt fx start stop then (start, stop) # rest else rest)"
| "intersection fx _ _ = []"

section \<open>Source buffers\<close>

record 'f packet = "'f encoded" +
  en_arc :: nat

record 'f buffer =
  bu_mime :: mime_type
  bu_parser :: "'f fragments"
  bu_video :: "'f packet list"
  bu_audio :: "'f packet list"
  bu_offset :: 'f
  bu_need_sync :: bool

definition new_buffer :: "('f, 'e) f64_ops_scheme \<Rightarrow> mime_type \<Rightarrow> 'f buffer" where
  "new_buffer fx m = \<lparr>bu_mime = m, bu_parser = new_fragments, bu_video = [], bu_audio = [], bu_offset = fx_zero fx, bu_need_sync = True\<rparr>"

definition pts :: "'f packet \<Rightarrow> 'f" where "pts p = sm_pts (en_sample p)"

definition packet_end :: "('f, 'e) f64_ops_scheme \<Rightarrow> 'f packet \<Rightarrow> 'f" where
  "packet_end fx p = fl_add fx (sm_pts (en_sample p)) (sm_duration (en_sample p))"

definition buffer_end :: "('f, 'e) f64_ops_scheme \<Rightarrow> 'f buffer \<Rightarrow> 'f" where
  "buffer_end fx b = foldl (fx_max fx) (fx_zero fx) (map (packet_end fx) (bu_video b @ bu_audio b))"

definition packet_ranges :: "('f, 'e) f64_ops_scheme \<Rightarrow> 'f option \<Rightarrow> 'f packet list \<Rightarrow> ('f \<times> 'f) list" where
  "packet_ranges fx ended packets =
     (let ranges = merge fx (map (\<lambda>p. (fx_max fx (pts p) (fx_zero fx), packet_end fx p)) packets)
      in case ended of
           Some stop \<Rightarrow> if ranges = [] then [] else butlast ranges @ [(fst (last ranges), fx_max fx (snd (last ranges)) stop)]
         | None \<Rightarrow> ranges)"

definition buffer_ranges :: "('f, 'e) f64_ops_scheme \<Rightarrow> 'f option \<Rightarrow> 'f buffer \<Rightarrow> ('f \<times> 'f) list" where
  "buffer_ranges fx ended b =
     (if mi_video (bu_mime b) \<and> mi_audio (bu_mime b)
      then intersection fx (packet_ranges fx ended (bu_video b)) (packet_ranges fx ended (bu_audio b))
      else if mi_video (bu_mime b) then packet_ranges fx ended (bu_video b)
      else if mi_audio (bu_mime b) then packet_ranges fx ended (bu_audio b) else [])"

text \<open>A video packet goes with what it overlaps, and with the packets before it that it depends on, up to the next key frame.\<close>

fun retain_video :: "('f, 'e) f64_ops_scheme \<Rightarrow> 'f \<Rightarrow> 'f \<Rightarrow> bool \<Rightarrow> 'f packet list \<Rightarrow> 'f packet list" where
  "retain_video fx start stop dependent [] = []"
| "retain_video fx start stop dependent (p # ps) =
     (let overlaps = (fx_lt fx (pts p) stop \<and> fx_lt fx start (packet_end fx p));
          d1 = (if sm_sync (en_sample p) \<and> fx_le fx stop (pts p) then False else dependent);
          d2 = (if overlaps then True else d1)
      in (if \<not> overlaps \<and> \<not> d2 then [p] else []) @ retain_video fx start stop d2 ps)"

definition buffer_remove :: "('f, 'e) f64_ops_scheme \<Rightarrow> 'f \<Rightarrow> 'f \<Rightarrow> 'f buffer \<Rightarrow> 'f buffer \<times> bool" where
  "buffer_remove fx start stop b =
     (let video = retain_video fx start stop False (bu_video b);
          audio = filter (\<lambda>p. fx_le fx stop (pts p) \<or> fx_le fx (packet_end fx p) start) (bu_audio b)
      in (b\<lparr>bu_video := video, bu_audio := audio\<rparr>,
          length (bu_video b) + length (bu_audio b) \<noteq> length video + length audio))"

record 'f mse_request =
  mr_op :: str
  mr_source :: nat
  mr_buffer :: nat
  mr_mime :: str
  mr_handle :: "nat option"
  mr_value :: "'f option"
  mr_start :: 'f
  mr_end :: "'f option"
  mr_timestamp_offset :: 'f
  mr_window_start :: 'f
  mr_window_end :: "'f option"
  mr_sequence :: bool
  mr_error :: str

definition append_refused :: "('f, 'e) f64_ops_scheme \<Rightarrow> 'f mse_request \<Rightarrow> bool" where
  "append_refused fx rq \<longleftrightarrow> \<not> fx_finite fx (mr_timestamp_offset rq) \<or> \<not> fx_finite fx (mr_window_start rq)
     \<or> fx_lt fx (mr_window_start rq) (fx_zero fx)
     \<or> (case mr_window_end rq of None \<Rightarrow> False | Some e \<Rightarrow> \<not> fx_finite fx e \<or> fx_le fx e (mr_window_start rq))"

definition is_video :: "track \<Rightarrow> bool" where
  "is_video t = (case tk_codec t of Video _ _ _ \<Rightarrow> True | Audio _ _ \<Rightarrow> False)"

definition tracks_match :: "mime_type \<Rightarrow> track list \<Rightarrow> bool" where
  "tracks_match m ts \<longleftrightarrow> ts = [] \<or>
     (length (filter is_video ts) = (if mi_video m then 1 else 0)
      \<and> length (filter (\<lambda>t. \<not> is_video t) ts) = (if mi_audio m then 1 else 0))"

definition reduce :: "('a \<Rightarrow> 'a \<Rightarrow> 'a) \<Rightarrow> 'a list \<Rightarrow> 'a option" where
  "reduce f xs = (case xs of [] \<Rightarrow> None | x # xs' \<Rightarrow> Some (foldl f x xs'))"

text \<open>The packets that fall into the append window, split by kind; video starts at a key frame after a gap.\<close>

fun place_packets ::
  "('f, 'e) f64_ops_scheme \<Rightarrow> 'f mse_request \<Rightarrow> track list \<Rightarrow> 'f \<Rightarrow> nat \<Rightarrow> 'f encoded list \<Rightarrow> bool \<Rightarrow> 'f packet list
   \<Rightarrow> 'f packet list \<Rightarrow> mse_error + (bool \<times> 'f packet list \<times> 'f packet list)" where
  "place_packets fx rq ts shift arc [] need video audio = Inr (need, video, audio)"
| "place_packets fx rq ts shift arc (e # es) need video audio =
     (case find (\<lambda>t. tk_id t = en_track e) ts of
        None \<Rightarrow> Inl (err_state ''unknown appended track'')
      | Some t \<Rightarrow>
          (let s = (en_sample e)\<lparr>sm_pts := fl_add fx (sm_pts (en_sample e)) shift\<rparr>;
               p = \<lparr>en_track = en_track e, en_sample = s, en_decode_time = fl_add fx (en_decode_time e) shift,
                    en_bytes = en_bytes e, en_arc = arc\<rparr>;
               stop = (case mr_window_end rq of Some w \<Rightarrow> w | None \<Rightarrow> fx_infinity fx)
           in if \<not> fx_finite fx (pts p) \<or> \<not> fx_finite fx (packet_end fx p) \<or> fx_lt fx (pts p) (mr_window_start rq)
                 \<or> fx_lt fx stop (packet_end fx p)
              then place_packets fx rq ts shift arc es (if is_video t then True else need) video audio
              else if is_video t then
                (if need \<and> \<not> sm_sync (en_sample p) then place_packets fx rq ts shift arc es need video audio
                 else place_packets fx rq ts shift arc es False (video @ [p]) audio)
              else place_packets fx rq ts shift arc es need video (audio @ [p])))"

fun remove_ranges :: "('f, 'e) f64_ops_scheme \<Rightarrow> ('f \<times> 'f) list \<Rightarrow> 'f buffer \<Rightarrow> bool \<Rightarrow> 'f buffer \<times> bool" where
  "remove_ranges fx [] b changed = (b, changed)"
| "remove_ranges fx (r # rs) b changed =
     (case buffer_remove fx (fst r) (snd r) b of (b', c) \<Rightarrow> remove_ranges fx rs b' (changed \<or> c))"

definition goes_back :: "('f, 'e) f64_ops_scheme \<Rightarrow> 'f packet list \<Rightarrow> 'f packet list \<Rightarrow> bool" where
  "goes_back fx new old \<longleftrightarrow> new \<noteq> [] \<and> old \<noteq> [] \<and> fx_lt fx (en_decode_time (hd new)) (en_decode_time (last old))"

definition decode_order :: "('f, 'e) f64_ops_scheme \<Rightarrow> 'f packet list \<Rightarrow> 'f packet list" where
  "decode_order fx = sort_by (\<lambda>a b. fx_total_le fx (en_decode_time a) (en_decode_time b))"

text \<open>The buffer after its packets are placed: overlapped packets leave, the new ones enter in decode order.\<close>

definition splice ::
  "('f, 'e) f64_ops_scheme \<Rightarrow> 'f mse_request \<Rightarrow> 'f packet list \<Rightarrow> 'f packet list \<Rightarrow> 'f buffer \<Rightarrow> mse_error + ('f buffer \<times> bool)" where
  "splice fx rq video audio staged =
     (case remove_ranges fx (merge fx (map (\<lambda>p. (pts p, packet_end fx p)) (video @ audio))) staged False of
        (b, removed) \<Rightarrow>
          (let changed = (removed \<or> goes_back fx video (bu_video b) \<or> goes_back fx audio (bu_audio b));
               group_end = reduce (fx_max fx) (map (packet_end fx) (video @ audio));
               b' = b\<lparr>bu_video := decode_order fx (bu_video b @ video), bu_audio := decode_order fx (bu_audio b @ audio)\<rparr>
           in if 1000000 < length (bu_video b') + length (bu_audio b') then Inl err_quota
              else Inr (b'\<lparr>bu_offset := (if mr_sequence rq
                   then (case group_end of Some e \<Rightarrow> e | None \<Rightarrow> mr_timestamp_offset rq) else mr_timestamp_offset rq)\<rparr>, changed)))"

definition buffer_append ::
  "mp4_parser \<Rightarrow> ('f, 'e) f64_ops_scheme \<Rightarrow> nat \<Rightarrow> bytes \<Rightarrow> 'f mse_request \<Rightarrow> 'f buffer \<Rightarrow> (mse_error + ('f buffer \<times> bool)) option" where
  "buffer_append mp4 fx arc bs rq b =
     (if append_refused fx rq then Some (Inl (err_state ''invalid append parameters''))
      else case append mp4 (float_ops.truncate fx) bs (bu_parser b) of
             (_, Inl Panic) \<Rightarrow> None
           | (_, Inl (Bad m)) \<Rightarrow> Some (Inl (err_decode m))
           | (parser, Inr packets) \<Rightarrow>
               if \<not> tracks_match (bu_mime b) (fr_tracks parser)
               then Some (Inl (err_state ''initialization tracks do not match the declared codecs''))
               else
                 (let need = (if \<not> fx_eq fx (mr_timestamp_offset rq) (bu_offset b) then True else bu_need_sync b);
                      origin = reduce (fx_min fx) (map (\<lambda>e. sm_pts (en_sample e)) packets);
                      shift = (if mr_sequence rq
                        then fx_sub fx (mr_timestamp_offset rq) (case origin of Some o' \<Rightarrow> o' | None \<Rightarrow> mr_timestamp_offset rq)
                        else mr_timestamp_offset rq)
                  in case place_packets fx rq (fr_tracks parser) shift arc packets need [] [] of
                       Inl e \<Rightarrow> Some (Inl e)
                     | Inr (need', video, audio) \<Rightarrow>
                         Some (splice fx rq video audio (b\<lparr>bu_parser := parser, bu_need_sync := need'\<rparr>))))"

end
