(* ===== verification/Mse_Host.thy ===== *)
theory Mse_Host
  imports Mse_Buffer
begin

text \<open>
  The host side of media source extensions (\<^verbatim>\<open>src/apps/chuzz/src/video/mse.rs\<close>): the presentations of a document, the bytes
  it has uploaded, and the three native calls \<open>put\<close>, \<open>release\<close> and \<open>control\<close> with every operation of the last.
  A presentation is shared between the store and the decoders playing it, so the store refers to it by its place in a
  heap; ordered and hashed maps are association lists ordered by key. The number that identifies a shared
  byte buffer is the handle it was uploaded under, which is never given out again.
\<close>

section \<open>Maps by key\<close>

fun bt_insert :: "nat \<Rightarrow> 'v \<Rightarrow> (nat \<times> 'v) list \<Rightarrow> (nat \<times> 'v) list" where
  "bt_insert k v [] = [(k, v)]"
| "bt_insert k v ((k', v') # m) =
     (if k < k' then (k, v) # (k', v') # m else if k = k' then (k, v) # m else (k', v') # bt_insert k v m)"

definition bt_remove :: "nat \<Rightarrow> (nat \<times> 'v) list \<Rightarrow> (nat \<times> 'v) list" where
  "bt_remove k m = filter (\<lambda>(k', _). k' \<noteq> k) m"

section \<open>Presentations\<close>

datatype media_error = MediaNetwork str | MediaDecode str | MediaUnsupported str

record 'f presentation =
  pr_buffers :: "(nat \<times> 'f buffer) list"
  pr_duration :: 'f
  pr_ended :: bool
  pr_closed :: bool
  pr_epoch :: nat
  pr_live :: "('f \<times> 'f) option"
  pr_error :: "media_error option"

definition new_presentation :: "('f, 'e) f64_ops_scheme \<Rightarrow> 'f presentation" where
  "new_presentation fx = \<lparr>pr_buffers = [], pr_duration = fx_nan_value fx, pr_ended = False, pr_closed = False, pr_epoch = 0,
     pr_live = None, pr_error = None\<rparr>"

definition pr_end :: "('f, 'e) f64_ops_scheme \<Rightarrow> 'f presentation \<Rightarrow> 'f" where
  "pr_end fx p = foldl (fx_max fx) (fx_zero fx) (map (buffer_end fx \<circ> snd) (pr_buffers p))"

definition pr_ready :: "'f presentation \<Rightarrow> bool" where
  "pr_ready p \<longleftrightarrow> pr_buffers p \<noteq> [] \<and> list_all (\<lambda>(_, b). fr_tracks (bu_parser b) \<noteq> []) (pr_buffers p)"

text \<open>A shared buffer counts once, whoever of the presentation's packets points to it.\<close>

fun unseen_bytes :: "nat set \<Rightarrow> 'f packet list \<Rightarrow> nat" where
  "unseen_bytes seen [] = 0"
| "unseen_bytes seen (p # ps) =
     (if en_arc p \<in> seen then unseen_bytes seen ps else length (en_bytes p) + unseen_bytes (insert (en_arc p) seen) ps)"

fun buffers_memory :: "nat set \<Rightarrow> 'f buffer list \<Rightarrow> nat" where
  "buffers_memory seen [] = 0"
| "buffers_memory seen (b # bs) =
     pending_bytes (bu_parser b) + unseen_bytes seen (bu_video b @ bu_audio b)
       + buffers_memory (seen \<union> en_arc ` set (bu_video b @ bu_audio b)) bs"

definition pr_memory :: "'f presentation \<Rightarrow> nat" where
  "pr_memory p = buffers_memory {} (map snd (pr_buffers p))"

fun all_ranges :: "('f, 'e) f64_ops_scheme \<Rightarrow> 'f option \<Rightarrow> 'f buffer list \<Rightarrow> ('f \<times> 'f) list option \<Rightarrow> ('f \<times> 'f) list option" where
  "all_ranges fx stop [] ranges = ranges"
| "all_ranges fx stop (b # bs) ranges =
     (let next = buffer_ranges fx stop b
      in all_ranges fx stop bs (Some (case ranges of None \<Rightarrow> next | Some previous \<Rightarrow> intersection fx previous next)))"

definition ended_at :: "('f, 'e) f64_ops_scheme \<Rightarrow> 'f presentation \<Rightarrow> 'f option" where
  "ended_at fx p = (if pr_ended p then Some (pr_end fx p) else None)"

definition pr_ranges :: "('f, 'e) f64_ops_scheme \<Rightarrow> 'f presentation \<Rightarrow> ('f \<times> 'f) list" where
  "pr_ranges fx p = (case all_ranges fx (ended_at fx p) (map snd (pr_buffers p)) None of None \<Rightarrow> [] | Some r \<Rightarrow> r)"

record 'f input_view =
  iv_track :: track
  iv_packets :: "'f packet list"

record 'f view =
  vw_video :: "'f input_view option"
  vw_audio :: "'f input_view option"
  vw_duration :: 'f
  vw_ended :: bool
  vw_closed :: bool
  vw_ready :: bool
  vw_epoch :: nat
  vw_buffered :: "('f \<times> 'f) list"
  vw_seekable :: "('f \<times> 'f) list"
  vw_error :: "media_error option"

fun track_inputs ::
  "'f buffer \<Rightarrow> track list \<Rightarrow> 'f input_view option \<times> 'f input_view option \<Rightarrow> 'f input_view option \<times> 'f input_view option" where
  "track_inputs b [] inputs = inputs"
| "track_inputs b (t # ts) (video, audio) =
     track_inputs b ts (if is_video t then (Some \<lparr>iv_track = t, iv_packets = bu_video b\<rparr>, audio)
                        else (video, Some \<lparr>iv_track = t, iv_packets = bu_audio b\<rparr>))"

definition pr_seekable :: "('f, 'e) f64_ops_scheme \<Rightarrow> 'f presentation \<Rightarrow> ('f \<times> 'f) list" where
  "pr_seekable fx p =
     (let buffered = pr_ranges fx p
      in if fx_eq fx (pr_duration p) (fx_infinity fx) then
           (case pr_live p of
              Some (a, b) \<Rightarrow> [(if buffered = [] then a else fx_min fx a (fst (hd buffered)),
                             if buffered = [] then b else fx_max fx b (snd (last buffered)))]
            | None \<Rightarrow> buffered)
         else buffered)"

definition pr_view :: "('f, 'e) f64_ops_scheme \<Rightarrow> 'f presentation \<Rightarrow> 'f view" where
  "pr_view fx p =
     (let inputs = fold (\<lambda>(_, b). track_inputs b (fr_tracks (bu_parser b))) (pr_buffers p) (None, None)
      in \<lparr>vw_video = fst inputs, vw_audio = snd inputs, vw_duration = pr_duration p, vw_ended = pr_ended p,
          vw_closed = pr_closed p, vw_ready = pr_ready p, vw_epoch = pr_epoch p, vw_buffered = pr_ranges fx p,
          vw_seekable = pr_seekable fx p, vw_error = pr_error p\<rparr>)"

record 'f reply_value =
  rv_duration :: "'f option"
  rv_kind :: str
  rv_buffered :: "('f \<times> 'f) list option"
  rv_offset :: "'f option"

definition pr_reply :: "('f, 'e) f64_ops_scheme \<Rightarrow> nat \<Rightarrow> 'f presentation \<Rightarrow> 'f reply_value" where
  "pr_reply fx k p =
     \<lparr>rv_duration = (if fx_finite fx (pr_duration p) then Some (pr_duration p) else None),
      rv_kind = (if fx_nan fx (pr_duration p) then S ''unknown''
                 else if fx_infinite fx (pr_duration p) then S ''infinite'' else S ''finite''),
      rv_buffered = map_option (buffer_ranges fx (ended_at fx p)) (map_of (pr_buffers p) k),
      rv_offset = map_option bu_offset (map_of (pr_buffers p) k)\<rparr>"

section \<open>Operations on a presentation\<close>

text \<open>The presentation after the operation and its result; \<open>None\<close> is a panic.\<close>

type_synonym 'f outcome = "('f presentation \<times> (mse_error + unit)) option"

definition refuse :: "'f presentation \<Rightarrow> mse_error \<Rightarrow> 'f outcome" where
  "refuse p e = Some (p, Inl e)"

definition accept :: "'f presentation \<Rightarrow> 'f outcome" where
  "accept p = Some (p, Inr ())"

text \<open>\<open>epoch += 1\<close>\<close>

definition accept_new_epoch :: "'f presentation \<Rightarrow> 'f outcome" where
  "accept_new_epoch p = do { e \<leftarrow> checked_add (pr_epoch p) 1; accept (p\<lparr>pr_epoch := e\<rparr>) }"

definition err_unsupported :: mse_error where
  "err_unsupported = MseError (S ''NotSupportedError'') (S ''MSE supports H.264 and AAC-LC fragmented MP4 only'')"

definition op_add :: "('f, 'e) f64_ops_scheme \<Rightarrow> 'f mse_request \<Rightarrow> 'f presentation \<Rightarrow> 'f outcome" where
  "op_add fx rq p =
     (case mime (mr_mime rq) of
        None \<Rightarrow> refuse p err_unsupported
      | Some m \<Rightarrow>
          if pr_ended p \<or> mr_buffer rq = 0 \<or> map_of (pr_buffers p) (mr_buffer rq) \<noteq> None
          then refuse p (err_state ''invalid SourceBuffer'')
          else if 2 \<le> length (pr_buffers p)
            \<or> list_ex (\<lambda>(_, b). mi_video (bu_mime b) \<and> mi_video m \<or> mi_audio (bu_mime b) \<and> mi_audio m) (pr_buffers p)
          then refuse p err_quota
          else accept_new_epoch (p\<lparr>pr_buffers := bt_insert (mr_buffer rq) (new_buffer fx m) (pr_buffers p)\<rparr>))"

definition op_delete :: "'f mse_request \<Rightarrow> 'f presentation \<Rightarrow> 'f outcome" where
  "op_delete rq p =
     (if map_of (pr_buffers p) (mr_buffer rq) = None then refuse p (err_state ''SourceBuffer was removed'')
      else accept_new_epoch (p\<lparr>pr_buffers := bt_remove (mr_buffer rq) (pr_buffers p)\<rparr>))"

definition op_reopen :: "'f presentation \<Rightarrow> 'f outcome" where
  "op_reopen p = (if pr_ended p then accept_new_epoch (p\<lparr>pr_ended := False\<rparr>) else accept p)"

text \<open>The duration after an append; it grows with the media once there is any.\<close>

definition grow_duration :: "('f, 'e) f64_ops_scheme \<Rightarrow> 'f presentation \<Rightarrow> 'f presentation" where
  "grow_duration fx p =
     (if \<not> pr_ready p then p
      else if fx_nan fx (pr_duration p) then p\<lparr>pr_duration := fx_infinity fx\<rparr>
      else if fx_finite fx (pr_duration p) then p\<lparr>pr_duration := fx_max fx (pr_duration p) (pr_end fx p)\<rparr> else p)"

definition op_append ::
  "mp4_parser \<Rightarrow> ('f, 'e) f64_ops_scheme \<Rightarrow> (nat \<times> bytes) option \<Rightarrow> 'f mse_request \<Rightarrow> 'f presentation \<Rightarrow> 'f outcome" where
  "op_append mp4 fx upload rq p =
     (if pr_ended p then refuse p (err_state ''MediaSource has ended'')
      else case upload of
             None \<Rightarrow> refuse p (err_state ''invalid or consumed byte handle'')
           | Some (arc, bs) \<Rightarrow>
               (case map_of (pr_buffers p) (mr_buffer rq) of
                  None \<Rightarrow> refuse p (err_state ''SourceBuffer was removed'')
                | Some old \<Rightarrow>
                    do { r \<leftarrow> buffer_append mp4 fx arc bs rq old;
                         (case r of
                            Inl e \<Rightarrow> refuse p e
                          | Inr (staged, changed) \<Rightarrow>
                              (let p1 = p\<lparr>pr_buffers := bt_insert (mr_buffer rq) staged (pr_buffers p)\<rparr>
                               in if SOURCE_LIMIT < pr_memory p1
                                  then refuse (p1\<lparr>pr_buffers := bt_insert (mr_buffer rq) old (pr_buffers p1)\<rparr>) err_quota
                                  else do { e \<leftarrow> (if changed then checked_add (pr_epoch p1) 1 else Some (pr_epoch p1));
                                            accept (grow_duration fx (p1\<lparr>pr_epoch := e\<rparr>)) })) }))"

definition op_abort :: "'f mse_request \<Rightarrow> 'f presentation \<Rightarrow> 'f outcome" where
  "op_abort rq p =
     (case map_of (pr_buffers p) (mr_buffer rq) of
        None \<Rightarrow> refuse p (err_state ''SourceBuffer was removed'')
      | Some b \<Rightarrow> accept (p\<lparr>pr_buffers := bt_insert (mr_buffer rq) (b\<lparr>bu_parser := abort (bu_parser b)\<rparr>) (pr_buffers p)\<rparr>))"

definition op_remove :: "('f, 'e) f64_ops_scheme \<Rightarrow> 'f mse_request \<Rightarrow> 'f presentation \<Rightarrow> 'f outcome" where
  "op_remove fx rq p =
     (let stop = (case mr_end rq of Some e \<Rightarrow> e | None \<Rightarrow> fx_infinity fx)
      in if \<not> fx_finite fx (mr_start rq) \<or> fx_lt fx (mr_start rq) (fx_zero fx) \<or> fx_le fx stop (mr_start rq)
         then refuse p (err_state ''invalid removal interval'')
         else case map_of (pr_buffers p) (mr_buffer rq) of
                None \<Rightarrow> refuse p (err_state ''SourceBuffer was removed'')
              | Some b \<Rightarrow>
                  (case buffer_remove fx (mr_start rq) stop b of
                     (b', changed) \<Rightarrow>
                       (let p1 = p\<lparr>pr_buffers := bt_insert (mr_buffer rq) b' (pr_buffers p)\<rparr>
                        in if changed then accept_new_epoch p1 else accept p1)))"

definition op_duration :: "('f, 'e) f64_ops_scheme \<Rightarrow> 'f mse_request \<Rightarrow> 'f presentation \<Rightarrow> 'f outcome" where
  "op_duration fx rq p =
     (let duration = (case mr_value rq of Some v \<Rightarrow> v | None \<Rightarrow> fx_infinity fx)
      in if fx_lt fx duration (fx_zero fx) \<or> fx_nan fx duration \<or> pr_ended p
         then refuse p (err_state ''invalid MSE duration'')
         else if fx_lt fx duration (pr_duration p)
         then do { e \<leftarrow> checked_add (pr_epoch p) 1;
                   accept (p\<lparr>pr_buffers := map (map_prod id (\<lambda>b. fst (buffer_remove fx duration (fx_infinity fx) b))) (pr_buffers p),
                            pr_epoch := e, pr_duration := duration\<rparr>) }
         else accept (p\<lparr>pr_duration := duration\<rparr>))"

definition op_live :: "('f, 'e) f64_ops_scheme \<Rightarrow> 'f mse_request \<Rightarrow> 'f presentation \<Rightarrow> 'f outcome" where
  "op_live fx rq p =
     (case mr_end rq of
        None \<Rightarrow> refuse p (err_state ''missing live range end'')
      | Some stop \<Rightarrow>
          if \<not> fx_finite fx (mr_start rq) \<or> \<not> fx_finite fx stop \<or> fx_lt fx (mr_start rq) (fx_zero fx)
             \<or> fx_lt fx stop (mr_start rq) \<or> pr_ended p
          then refuse p (err_state ''invalid live seekable range'')
          else accept (p\<lparr>pr_live := Some (mr_start rq, stop)\<rparr>))"

definition op_end :: "('f, 'e) f64_ops_scheme \<Rightarrow> 'f mse_request \<Rightarrow> 'f presentation \<Rightarrow> 'f outcome" where
  "op_end fx rq p =
     (if pr_ended p \<or> \<not> pr_ready p
        \<or> list_ex (\<lambda>(_, b). pending_bytes (bu_parser b) \<noteq> 0 \<or> fragment_pending (bu_parser b)) (pr_buffers p)
      then refuse p (err_state ''incomplete or uninitialized MSE stream'')
      else (let p1 = p\<lparr>pr_ended := True, pr_duration := pr_end fx p\<rparr>
            in if mr_error rq = S '''' then accept (p1\<lparr>pr_error := None\<rparr>)
               else if mr_error rq = S ''network''
               then accept (p1\<lparr>pr_error := Some (MediaNetwork (S ''MediaSource ended with a network error''))\<rparr>)
               else if mr_error rq = S ''decode''
               then accept (p1\<lparr>pr_error := Some (MediaDecode (S ''MediaSource ended with a decode error''))\<rparr>)
               else refuse p1 (err_state ''invalid endOfStream error'')))"

definition perform ::
  "mp4_parser \<Rightarrow> ('f, 'e) f64_ops_scheme \<Rightarrow> (nat \<times> bytes) option \<Rightarrow> 'f mse_request \<Rightarrow> 'f presentation \<Rightarrow> 'f outcome" where
  "perform mp4 fx upload rq p =
     (if mr_op rq = S ''info'' then accept p
      else if mr_op rq = S ''add'' then op_add fx rq p
      else if mr_op rq = S ''delete'' then op_delete rq p
      else if mr_op rq = S ''reopen'' then op_reopen p
      else if mr_op rq = S ''append'' then op_append mp4 fx upload rq p
      else if mr_op rq = S ''abort'' then op_abort rq p
      else if mr_op rq = S ''remove'' then op_remove fx rq p
      else if mr_op rq = S ''duration'' then op_duration fx rq p
      else if mr_op rq = S ''live'' then op_live fx rq p
      else if mr_op rq = S ''clearLive'' then accept (p\<lparr>pr_live := None\<rparr>)
      else if mr_op rq = S ''end'' then op_end fx rq p
      else refuse p (err_state ''unknown MSE operation''))"

section \<open>The store and the native calls\<close>

record 'f host =
  ho_sources :: "(nat \<times> nat) list" \<comment> \<open>where each attached source's presentation is\<close>
  ho_uploads :: "(nat \<times> bytes) list"
  ho_next_upload :: nat
  ho_heap :: "'f presentation list"

definition new_host :: "'f host" where
  "new_host = \<lparr>ho_sources = [], ho_uploads = [], ho_next_upload = 0, ho_heap = []\<rparr>"

definition uploads_memory :: "'f host \<Rightarrow> nat" where
  "uploads_memory h = sum_list (map (length \<circ> snd) (ho_uploads h))"

definition sources_memory :: "'f host \<Rightarrow> nat" where
  "sources_memory h = sum_list (map (\<lambda>(_, r). pr_memory (ho_heap h ! r)) (ho_sources h))"

definition store_memory :: "'f host \<Rightarrow> nat" where
  "store_memory h = uploads_memory h + sources_memory h"

datatype 'f reply = Empty | Reply "'f reply_value"

definition op_open :: "('f, 'e) f64_ops_scheme \<Rightarrow> 'f mse_request \<Rightarrow> 'f host \<Rightarrow> 'f host \<times> (mse_error + 'f reply)" where
  "op_open fx rq h =
     (if mr_source rq = 0 \<or> MAX_ID < mr_source rq \<or> map_of (ho_sources h) (mr_source rq) \<noteq> None
      then (h, Inl (err_state ''invalid or already attached MediaSource''))
      else if 32 \<le> length (ho_sources h) then (h, Inl err_quota)
      else (h\<lparr>ho_sources := bt_insert (mr_source rq) (length (ho_heap h)) (ho_sources h),
              ho_heap := ho_heap h @ [new_presentation fx]\<rparr>, Inr Empty))"

definition op_close :: "'f mse_request \<Rightarrow> 'f host \<Rightarrow> 'f host" where
  "op_close rq h =
     (case map_of (ho_sources h) (mr_source rq) of
        None \<Rightarrow> h
      | Some r \<Rightarrow> h\<lparr>ho_sources := bt_remove (mr_source rq) (ho_sources h),
                    ho_heap := (ho_heap h)[r := (ho_heap h ! r)\<lparr>pr_closed := True\<rparr>]\<rparr>)"

definition take_upload :: "nat option \<Rightarrow> 'f host \<Rightarrow> (nat \<times> bytes) option \<times> 'f host" where
  "take_upload handle h =
     (case handle of
        None \<Rightarrow> (None, h)
      | Some k \<Rightarrow> (map_option (Pair k) (map_of (ho_uploads h) k), h\<lparr>ho_uploads := bt_remove k (ho_uploads h)\<rparr>))"

definition host_control ::
  "mp4_parser \<Rightarrow> ('f, 'e) f64_ops_scheme \<Rightarrow> 'f mse_request \<Rightarrow> 'f host \<Rightarrow> ('f host \<times> (mse_error + 'f reply)) option" where
  "host_control mp4 fx rq h0 =
     (case take_upload (mr_handle rq) h0 of
        (upload, h) \<Rightarrow>
          if mr_op rq = S ''open'' then Some (op_open fx rq h)
          else if mr_op rq = S ''close'' then Some (op_close rq h, Inr Empty)
          else case map_of (ho_sources h) (mr_source rq) of
                 None \<Rightarrow> Some (h, Inl (err_state ''MediaSource is closed''))
               | Some r \<Rightarrow>
                   do { (p, result) \<leftarrow> perform mp4 fx upload rq (ho_heap h ! r);
                        let h' = h\<lparr>ho_heap := (ho_heap h)[r := p]\<rparr>;
                        Some (h', case result of Inl e \<Rightarrow> Inl e | Inr _ \<Rightarrow> Inr (Reply (pr_reply fx (mr_buffer rq) p))) })"

text \<open>The decoder of an attached source reads the presentation the store refers to.\<close>

definition host_decoder :: "nat \<Rightarrow> 'f host \<Rightarrow> media_error + nat" where
  "host_decoder k h =
     (case map_of (ho_sources h) k of
        None \<Rightarrow> Inl (MediaUnsupported (S ''MediaSource is not attached'')) | Some r \<Rightarrow> Inr r)"

text \<open>The document's side goes away.\<close>

definition drop_host :: "'f host \<Rightarrow> 'f host" where
  "drop_host h = h\<lparr>ho_heap := fold (\<lambda>(_, r) heap. heap[r := (heap ! r)\<lparr>pr_closed := True\<rparr>]) (ho_sources h) (ho_heap h)\<rparr>"

text \<open>What the script engine hands over for the first argument of \<open>put\<close>.\<close>

datatype js_bytes = NotObject | NotArrayBuffer str | Detached | ArrayBuffer bytes

definition integer :: "('f, 'e) f64_ops_scheme \<Rightarrow> ('f \<Rightarrow> bool) \<Rightarrow> ('f \<Rightarrow> nat) \<Rightarrow> 'f \<Rightarrow> str + nat" where
  "integer fx whole to_u64 v =
     (if \<not> fx_finite fx v \<or> fx_lt fx v (fx_zero fx) \<or> \<not> whole v \<or> fx_lt fx (fl_of_int fx (int MAX_ID)) v
      then Inl (S ''invalid MSE byte range'') else Inr (to_u64 v))"

definition put_bytes :: "nat \<Rightarrow> nat \<Rightarrow> js_bytes \<Rightarrow> 'f host \<Rightarrow> 'f host \<times> (str + nat)" where
  "put_bytes offset len object h =
     (case object of
        NotObject \<Rightarrow> (h, Inl (S ''expected an ArrayBuffer''))
      | NotArrayBuffer e \<Rightarrow> (h, Inl e)
      | Detached \<Rightarrow> (h, Inl (S ''detached MSE appendBuffer''))
      | ArrayBuffer bs \<Rightarrow>
          (case checked_add offset len of
             None \<Rightarrow> (h, Inl (S ''MSE byte range is out of bounds''))
           | Some stop \<Rightarrow>
               if length bs < stop then (h, Inl (S ''MSE byte range is out of bounds''))
               else if UPLOAD_LIMIT < len \<or> 128 \<le> length (ho_uploads h)
                 \<or> DOCUMENT_LIMIT < saturating_add (store_memory h) len \<or> MAX_ID \<le> ho_next_upload h
               then (h, Inl (S ''MSE quota exceeded''))
               else (let k = ho_next_upload h + 1
                     in (h\<lparr>ho_next_upload := k, ho_uploads := bt_insert k (take len (drop offset bs)) (ho_uploads h)\<rparr>, Inr k))))"

definition put ::
  "('f, 'e) f64_ops_scheme \<Rightarrow> ('f \<Rightarrow> bool) \<Rightarrow> ('f \<Rightarrow> nat) \<Rightarrow> js_bytes \<Rightarrow> 'f \<Rightarrow> 'f \<Rightarrow> 'f host \<Rightarrow> 'f host \<times> (str + nat)" where
  "put fx whole to_u64 object offset len h =
     (case integer fx whole to_u64 offset of
        Inl e \<Rightarrow> (h, Inl e)
      | Inr o' \<Rightarrow> (case integer fx whole to_u64 len of Inl e \<Rightarrow> (h, Inl e) | Inr l \<Rightarrow> put_bytes o' l object h))"

definition release ::
  "('f, 'e) f64_ops_scheme \<Rightarrow> ('f \<Rightarrow> bool) \<Rightarrow> ('f \<Rightarrow> nat) \<Rightarrow> 'f \<Rightarrow> 'f host \<Rightarrow> 'f host \<times> (str + unit)" where
  "release fx whole to_u64 v h =
     (case integer fx whole to_u64 v of
        Inl e \<Rightarrow> (h, Inl e) | Inr k \<Rightarrow> (h\<lparr>ho_uploads := bt_remove k (ho_uploads h)\<rparr>, Inr ()))"

text \<open>A command as text; parsing it is the JSON library's. \<open>None\<close> of \<open>parse\<close> is a command it refuses.\<close>

definition control ::
  "mp4_parser \<Rightarrow> ('f, 'e) f64_ops_scheme \<Rightarrow> (str \<Rightarrow> 'f mse_request option) \<Rightarrow> str \<Rightarrow> 'f host \<Rightarrow> ('f host \<times> (mse_error + 'f reply)) option" where
  "control mp4 fx parse text h =
     (case parse text of
        None \<Rightarrow> Some (h, Inl (err_state ''invalid MSE command''))
      | Some rq \<Rightarrow> host_control mp4 fx rq h)"

end
