(* ===== verification/Mse_Props.thy ===== *)
theory Mse_Props
  imports Mse_Host
begin

text \<open>
  What media source extensions keep of a buffer: which packets a removal takes away, what an append does to
  the bytes a buffer holds, and the memory of a presentation as a sum over the buffers it shares.
\<close>

section \<open>Ordering and removal\<close>

lemma set_insort_by [simp]: "set (insort_by le x xs) = insert x (set xs)"
  by (induction xs) auto

lemma length_insort_by [simp]: "length (insort_by le x xs) = Suc (length xs)"
  by (induction xs) auto

lemma set_sort_by [simp]: "set (sort_by le xs) = set xs"
  unfolding sort_by_def by (induction xs) auto

lemma length_sort_by [simp]: "length (sort_by le xs) = length xs"
  unfolding sort_by_def by (induction xs) auto

definition overlaps :: "('f, 'e) f64_ops_scheme \<Rightarrow> 'f \<Rightarrow> 'f \<Rightarrow> 'f packet \<Rightarrow> bool" where
  "overlaps fx start stop p \<longleftrightarrow> fx_lt fx (pts p) stop \<and> fx_lt fx start (packet_end fx p)"

definition restarts :: "('f, 'e) f64_ops_scheme \<Rightarrow> 'f \<Rightarrow> 'f packet \<Rightarrow> bool" where
  "restarts fx stop p \<longleftrightarrow> sm_sync (en_sample p) \<and> fx_le fx stop (pts p)"

text \<open>The places of packets that are lost, given whether the packets before them already were.\<close>

definition lost :: "('f, 'e) f64_ops_scheme \<Rightarrow> 'f \<Rightarrow> 'f \<Rightarrow> 'f packet list \<Rightarrow> nat \<Rightarrow> bool" where
  "lost fx start stop ps i \<longleftrightarrow> (\<exists>j\<le>i. overlaps fx start stop (ps ! j) \<and> (\<forall>m. j < m \<and> m \<le> i \<longrightarrow> \<not> restarts fx stop (ps ! m)))"

lemma lost_Cons:
  "lost fx start stop (p # ps) (Suc i) \<longleftrightarrow>
     lost fx start stop ps i \<or> overlaps fx start stop p \<and> (\<forall>m\<le>i. \<not> restarts fx stop (ps ! m))"
proof -
  have all: "(\<forall>m. 0 < m \<and> m \<le> Suc i \<longrightarrow> \<not> restarts fx stop ((p # ps) ! m)) \<longleftrightarrow> (\<forall>m\<le>i. \<not> restarts fx stop (ps ! m))"
    by (auto simp: nth_Cons split: nat.splits)
  have suc: "(\<forall>m. Suc j < m \<and> m \<le> Suc i \<longrightarrow> \<not> restarts fx stop ((p # ps) ! m)) \<longleftrightarrow> (\<forall>m. j < m \<and> m \<le> i \<longrightarrow> \<not> restarts fx stop (ps ! m))" for j
    by (auto simp: nth_Cons split: nat.splits)
  have "(\<exists>j\<le>Suc i. P j) \<longleftrightarrow> P 0 \<or> (\<exists>j\<le>i. P (Suc j))" for P :: "nat \<Rightarrow> bool"
    by (metis Suc_le_mono le0 not0_implies_Suc)
  then show ?thesis unfolding lost_def using all suc by auto
qed

lemma all_le_Suc: "(\<forall>m\<le>Suc i. P m) \<longleftrightarrow> P 0 \<and> (\<forall>m\<le>i. P (Suc m))"
  by (metis Suc_le_mono le0 not0_implies_Suc)

lemma retain_video_Cons:
  "retain_video fx start stop dependent (p # ps) =
     (if overlaps fx start stop p \<or> dependent \<and> \<not> restarts fx stop p then [] else [p])
       @ retain_video fx start stop (overlaps fx start stop p \<or> dependent \<and> \<not> restarts fx stop p) ps"
  by (cases "overlaps fx start stop p"; cases "restarts fx stop p"; cases dependent)
    (simp_all add: retain_video.simps(2) flip: overlaps_def restarts_def)

lemma retain_video_nths:
  "retain_video fx start stop dependent ps =
     nths ps {i. \<not> (lost fx start stop ps i \<or> dependent \<and> (\<forall>m\<le>i. \<not> restarts fx stop (ps ! m)))}"
proof (induction ps arbitrary: dependent)
  case (Cons p ps)
  define d where "d = (overlaps fx start stop p \<or> dependent \<and> \<not> restarts fx stop p)"
  define A where "A = {i. \<not> (lost fx start stop (p # ps) i \<or> dependent \<and> (\<forall>m\<le>i. \<not> restarts fx stop ((p # ps) ! m)))}"
  have "{i. Suc i \<in> A} = {i. \<not> (lost fx start stop ps i \<or> d \<and> (\<forall>m\<le>i. \<not> restarts fx stop (ps ! m)))}"
    unfolding A_def mem_Collect_eq lost_Cons all_le_Suc d_def by auto
  moreover have "lost fx start stop (p # ps) 0 \<longleftrightarrow> overlaps fx start stop p" by (simp add: lost_def)
  then have "0 \<in> A \<longleftrightarrow> \<not> d" by (simp add: A_def d_def)
  moreover have "retain_video fx start stop dependent (p # ps) = (if d then [] else [p]) @ retain_video fx start stop d ps"
    unfolding d_def by (rule retain_video_Cons)
  ultimately have "retain_video fx start stop dependent (p # ps) = nths (p # ps) A" using Cons [of d] by (simp add: nths_Cons)
  then show ?case by (simp add: A_def)
qed simp

lemma retain_video_sub: "set (retain_video fx start stop d ps) \<subseteq> set ps" "length (retain_video fx start stop d ps) \<le> length ps"
  by (induction ps arbitrary: d) (auto simp: Let_def le_SucI split: if_splits)

lemma buffer_remove_keeps:
  assumes "buffer_remove fx start stop b = (b', c)"
  shows "bu_mime b' = bu_mime b" "bu_parser b' = bu_parser b" "bu_offset b' = bu_offset b" "bu_need_sync b' = bu_need_sync b"
    "set (bu_video b') \<subseteq> set (bu_video b)" "set (bu_audio b') \<subseteq> set (bu_audio b)"
    "length (bu_video b') + length (bu_audio b') \<le> length (bu_video b) + length (bu_audio b)"
  using assms retain_video_sub [of fx start stop False "bu_video b"]
  by (auto simp: buffer_remove_def Let_def intro!: add_mono)

section \<open>Appending\<close>

definition packets :: "'f buffer \<Rightarrow> 'f packet set" where
  "packets b = set (bu_video b) \<union> set (bu_audio b)"

lemma remove_ranges_keeps:
  "remove_ranges fx rs b c = (b', c') \<Longrightarrow> bu_mime b' = bu_mime b \<and> bu_parser b' = bu_parser b \<and> packets b' \<subseteq> packets b"
proof (induction rs arbitrary: b c)
  case (Cons r rs)
  obtain b1 c1 where r: "buffer_remove fx (fst r) (snd r) b = (b1, c1)" by (rule prod.exhaust)
  from buffer_remove_keeps [OF r] have "bu_mime b1 = bu_mime b \<and> bu_parser b1 = bu_parser b \<and> packets b1 \<subseteq> packets b"
    by (auto simp: packets_def)
  with Cons.IH [of b1] Cons.prems r show ?case by auto
qed simp

lemma splice_keeps:
  assumes "splice fx rq video audio b = Inr (b', c)"
  shows "bu_mime b' = bu_mime b" "bu_parser b' = bu_parser b" "packets b' \<subseteq> packets b \<union> set video \<union> set audio"
    "length (bu_video b') + length (bu_audio b') \<le> 1000000"
proof -
  obtain b1 c1 where r: "remove_ranges fx (merge fx (map (\<lambda>p. (pts p, packet_end fx p)) (video @ audio))) b False = (b1, c1)"
    by (rule prod.exhaust)
  note k = remove_ranges_keeps [OF r]
  show "bu_mime b' = bu_mime b" "bu_parser b' = bu_parser b" "packets b' \<subseteq> packets b \<union> set video \<union> set audio"
    "length (bu_video b') + length (bu_audio b') \<le> 1000000"
    using assms k r unfolding splice_def by (auto simp: Let_def packets_def decode_order_def split: if_splits)
qed

text \<open>A packet that came from a sample of the indexer.\<close>

definition comes_from :: "nat \<Rightarrow> 'f encoded list \<Rightarrow> 'f packet \<Rightarrow> bool" where
  "comes_from arc es p \<longleftrightarrow> en_arc p = arc \<and> (\<exists>e\<in>set es. en_bytes p = en_bytes e
     \<and> sm_offset (en_sample p) = sm_offset (en_sample e) \<and> sm_size (en_sample p) = sm_size (en_sample e))"

lemma comes_from_Cons: "comes_from arc es p \<Longrightarrow> comes_from arc (e # es) p"
  by (auto simp: comes_from_def)

lemma place_packets_from:
  "place_packets fx rq ts shift arc es need video audio = Inr (need', video', audio') \<Longrightarrow>
     p \<in> set video' \<union> set audio' \<Longrightarrow> p \<in> set video \<union> set audio \<or> comes_from arc es p"
proof (induction es arbitrary: need video audio)
  case (Cons e es)
  define q where "q = \<lparr>en_track = en_track e, en_sample = (en_sample e)\<lparr>sm_pts := fl_add fx (sm_pts (en_sample e)) shift\<rparr>,
    en_decode_time = fl_add fx (en_decode_time e) shift, en_bytes = en_bytes e, en_arc = arc\<rparr>"
  have q: "comes_from arc (e # es) q" by (simp add: comes_from_def q_def)
  let ?r = "Inr (need', video', audio')"
  have "(\<exists>n. place_packets fx rq ts shift arc es n video audio = ?r)
      \<or> (\<exists>n. place_packets fx rq ts shift arc es n (video @ [q]) audio = ?r)
      \<or> (\<exists>n. place_packets fx rq ts shift arc es n video (audio @ [q]) = ?r)"
    using Cons.prems(1) by (auto simp: Let_def simp flip: q_def split: option.splits if_splits)
  then show ?case
    using Cons.IH [of _ video audio] Cons.IH [of _ "video @ [q]" audio] Cons.IH [of _ video "audio @ [q]"] Cons.prems(2)
      q comes_from_Cons [of arc es p e] by fastforce
qed auto

text \<open>The bytes an indexer keeps back do not hold a whole box.\<close>

definition parser_ok :: "'f fragments \<Rightarrow> bool" where
  "parser_ok st \<longleftrightarrow> box_at (fr_pending st) 0 = Inr None"

lemma MAX_BOX_room: "n \<le> 3 * MAX_BOX \<Longrightarrow> n + MAX_BOX \<le> u64_max"
  by (simp add: MAX_BOX_def u64_max_def)

lemma box_at_0_head: "box_at bs 0 = map_sum id (map_option (place 0)) (head_box bs)"
  using box_at_head [of 0 bs] MAX_BOX_room [of 0] by simp

lemma finish_box_completed:
  "finish_box (h @ t) kind n header = Inr (Some (k, d, e)) \<Longrightarrow> finish_box h kind n header = Inr None \<Longrightarrow> length h < e"
  by (auto simp: finish_box_def bad_def split: if_splits)

lemma head_box_completed:
  assumes "head_box h = Inr None" and "head_box (h @ t) = Inr (Some (k, d, e))"
  shows "length h < e"
proof (cases "length h < 8")
  case True
  with assms(2) show ?thesis by (auto simp: head_box_def Let_def finish_box_def bad_def split: if_splits)
next
  case False
  then show ?thesis using assms
    by (auto simp: head_box_def Let_def bad_def dest: finish_box_completed split: if_splits)
      (auto simp: finish_box_def bad_def split: if_splits)
qed

lemma completed_box:
  assumes "parser_ok st" and "box_at (fr_pending st @ bs) 0 = Inr (Some item)"
  shows "length (fr_pending st) < bx_end item"
proof -
  have "head_box (fr_pending st) = Inr None"
    using assms(1) by (auto simp: parser_ok_def box_at_0_head map_sum_def split: sum.splits)
  moreover obtain k d e where "head_box (fr_pending st @ bs) = Inr (Some (k, d, e))" "bx_end item = e"
    using assms(2) by (auto simp: box_at_0_head map_sum_def place_def split: sum.splits)
  ultimately show ?thesis using head_box_completed by metis
qed

lemma parser_ok_small: "parser_ok st \<Longrightarrow> length (fr_pending st) < MAX_BOX"
  using incomplete_box_small [of "fr_pending st" 0] by (simp add: parser_ok_def)

lemma append_parser:
  assumes "append mp4 fl bs st = (st', Inr out)" and "parser_ok st" and "length bs \<le> UPLOAD_LIMIT"
  shows "parser_ok st'"
    and "pending_bytes st' \<le> (if out = [] then pending_bytes st else 0) + length bs"
    and "fr_position st' + pending_bytes st' = fr_position st + pending_bytes st + length bs"
    and "\<forall>e\<in>set out. extent_ok (fr_pending st @ bs) e"
proof -
  let ?i = "fr_pending st @ bs"
  obtain st1 c where l: "append_loop mp4 fl ?i 0 0 st = (st1, Inr (out, c))"
    "st' = st1\<lparr>fr_position := fr_position st1 + c, fr_pending := drop c ?i\<rparr>"
    using append_InrE [OF assms(1)] by metis
  note d = append_loop_done [OF l(1)]
  have len: "length ?i \<le> 2 * MAX_BOX" using parser_ok_small [OF assms(2)] assms(3) by (simp add: MAX_BOX_def UPLOAD_LIMIT_def)
  have "box_at (drop c ?i) 0 = Inr None"
    using box_at_shift [of 0 c ?i] d len MAX_BOX_room [of c] by (auto simp: map_sum_def split: sum.splits)
  then show "parser_ok st'" by (simp add: l(2) parser_ok_def)
  show "fr_position st' + pending_bytes st' = fr_position st + pending_bytes st + length bs"
    using append_loop_position [OF l(1)] d by (auto simp: l(2) pending_bytes_def)
  show "\<forall>e\<in>set out. extent_ok ?i e" using d by simp
  have "length (fr_pending st) \<le> c" if ne: "out \<noteq> []"
  proof (cases "box_at ?i 0")
    case (Inr x)
    then obtain item where i: "box_at ?i 0 = Inr (Some item)"
      using l(1) ne by (cases x) (auto simp: append_loop.simps [of mp4 fl ?i])
    then obtain s o1 o2 where "append_loop mp4 fl ?i (bx_end item) 1 s = (st1, Inr (o2, c))"
      using l(1) by (auto simp: append_loop.simps [of mp4 fl ?i 0] bad_def split: if_splits prod.splits sum.splits)
    from append_loop_done [OF this] box_at_bounds [OF i] completed_box [OF assms(2) i] show ?thesis by simp
  qed (use l(1) in \<open>simp add: append_loop.simps [of mp4 fl ?i]\<close>)
  then show "pending_bytes st' \<le> (if out = [] then pending_bytes st else 0) + length bs"
    using d by (auto simp: l(2) pending_bytes_def)
qed

definition readable :: "'f packet \<Rightarrow> bool" where
  "readable p \<longleftrightarrow> sm_offset (en_sample p) + sm_size (en_sample p) \<le> length (en_bytes p)"

definition buffer_ok :: "nat \<Rightarrow> 'f buffer \<Rightarrow> bool" where
  "buffer_ok n b \<longleftrightarrow> parser_ok (bu_parser b) \<and> fr_position (bu_parser b) + pending_bytes (bu_parser b) \<le> n * UPLOAD_LIMIT
     \<and> length (bu_video b) + length (bu_audio b) \<le> 1000000 \<and> (\<forall>p\<in>packets b. readable p)"

text \<open>What an append does to a buffer: the packets it brings all point to one new shared buffer.\<close>

definition appended :: "nat \<Rightarrow> bytes \<Rightarrow> 'f buffer \<Rightarrow> 'f buffer \<Rightarrow> 'f packet set \<Rightarrow> bool" where
  "appended arc bs b b' new \<longleftrightarrow> bu_mime b' = bu_mime b \<and> packets b' \<subseteq> packets b \<union> new
     \<and> (\<forall>p\<in>new. en_arc p = arc \<and> length (en_bytes p) = pending_bytes (bu_parser b) + length bs)
     \<and> pending_bytes (bu_parser b') + (if new = {} then 0 else pending_bytes (bu_parser b) + length bs)
         \<le> pending_bytes (bu_parser b) + 2 * length bs"

lemma buffer_append_InrE:
  assumes "buffer_append mp4 fx arc bs rq b = Some (Inr (b', c))"
  obtains parser out need video audio where "append mp4 (float_ops.truncate fx) bs (bu_parser b) = (parser, Inr out)"
    "\<forall>p\<in>set video \<union> set audio. comes_from arc out p"
    "splice fx rq video audio (b\<lparr>bu_parser := parser, bu_need_sync := need\<rparr>) = Inr (b', c)"
proof -
  obtain parser r where a: "append mp4 (float_ops.truncate fx) bs (bu_parser b) = (parser, r)" by (rule prod.exhaust)
  with assms obtain out where r: "r = Inr out"
    by (auto simp: buffer_append_def split: if_splits sum.splits failure.splits)
  obtain shift need0 need video audio
    where p: "place_packets fx rq (fr_tracks parser) shift arc out need0 [] [] = Inr (need, video, audio)"
      and s: "splice fx rq video audio (b\<lparr>bu_parser := parser, bu_need_sync := need\<rparr>) = Inr (b', c)"
    using assms unfolding buffer_append_def a r Let_def by (auto split: if_splits sum.splits)
  have "\<forall>p\<in>set video \<union> set audio. comes_from arc out p" using place_packets_from [OF p] by auto
  with a r s that show ?thesis by blast
qed

lemma buffer_append_ok:
  assumes ap: "buffer_append mp4 fx arc bs rq b = Some (Inr (b', c))" and ok: "buffer_ok n b" and len: "length bs \<le> UPLOAD_LIMIT"
  obtains new where "buffer_ok (Suc n) b'" "appended arc bs b b' new"
proof -
  obtain parser out need video audio where a: "append mp4 (float_ops.truncate fx) bs (bu_parser b) = (parser, Inr out)"
    and v: "\<forall>p\<in>set video \<union> set audio. comes_from arc out p"
    and s: "splice fx rq video audio (b\<lparr>bu_parser := parser, bu_need_sync := need\<rparr>) = Inr (b', c)"
    using buffer_append_InrE [OF ap] by metis
  have p: "parser_ok (bu_parser b)" using ok by (simp add: buffer_ok_def)
  note pa = append_parser [OF a p len]
  note k = splice_keeps [OF s, simplified]
  define new where "new = set video \<union> set audio"
  have org: "\<exists>e\<in>set out. extent_ok (fr_pending (bu_parser b) @ bs) e \<and> en_arc q = arc \<and> en_bytes q = en_bytes e
      \<and> sm_offset (en_sample q) = sm_offset (en_sample e) \<and> sm_size (en_sample q) = sm_size (en_sample e)" if "q \<in> new" for q
    using v pa(4) that by (auto simp: comes_from_def new_def)
  have sub: "packets b' \<subseteq> packets b \<union> new" using k(3) by (auto simp: packets_def new_def)
  have "readable q" if "q \<in> packets b'" for q
  proof (cases "q \<in> new")
    case True
    then show ?thesis using org [of q] by (auto simp: readable_def extent_ok_def)
  next
    case False
    with that sub ok show ?thesis by (auto simp: buffer_ok_def)
  qed
  then have "buffer_ok (Suc n) b'" using k pa(1,3) ok len by (simp add: buffer_ok_def)
  moreover have "out \<noteq> []" if "new \<noteq> {}" using org that by auto
  moreover have "en_arc q = arc \<and> length (en_bytes q) = pending_bytes (bu_parser b) + length bs" if "q \<in> new" for q
    using org [OF that] by (auto simp: extent_ok_def pending_bytes_def)
  ultimately have "buffer_ok (Suc n) b'" "appended arc bs b b' new"
    using k(1,2) sub pa(2) unfolding appended_def by (auto split: if_splits)
  then show thesis by (rule that)
qed

lemma buffer_append_returns:
  assumes "buffer_ok n b" and "length bs \<le> UPLOAD_LIMIT" and "n < 2 ^ 39"
  shows "buffer_append mp4 fx arc bs rq b \<noteq> None"
proof -
  have "n * UPLOAD_LIMIT + UPLOAD_LIMIT \<le> u64_max"
    using assms(3) by (simp add: UPLOAD_LIMIT_def u64_max_def)
  then have "snd (append mp4 (float_ops.truncate fx) bs (bu_parser b)) \<noteq> Inl Panic"
    using assms by (intro append_safe) (simp add: buffer_ok_def pending_bytes_def)
  then show ?thesis
    by (auto simp: buffer_append_def Let_def split: prod.splits sum.splits failure.splits)
qed

end
