(* ===== verification/Mse_Memory.thy ===== *)
theory Mse_Memory
  imports Mse_Props
begin

text \<open>
  The memory of a presentation (\<^verbatim>\<open>src/apps/chuzz/src/video/mse.rs\<close>) as a sum, and the invariant of a presentation: each of its
  operations keeps it, and none but an append makes it hold more bytes.
\<close>

section \<open>Maps by key\<close>

definition keyed :: "(nat \<times> 'v) list \<Rightarrow> bool" where
  "keyed m \<longleftrightarrow> sorted_wrt (<) (map fst m)"

lemma keyed_Cons [simp]: "keyed ((k, v) # m) \<longleftrightarrow> (\<forall>x\<in>set m. k < fst x) \<and> keyed m" "keyed []"
  by (auto simp: keyed_def)

lemma bt_insert_mem: "x \<in> set (bt_insert k v m) \<Longrightarrow> x = (k, v) \<or> x \<in> set m"
  by (induction k v m rule: bt_insert.induct) (auto split: if_splits)

lemma bt_insert_keyed [simp]: "keyed m \<Longrightarrow> keyed (bt_insert k v m)"
  by (induction k v m rule: bt_insert.induct) (auto dest!: bt_insert_mem)

lemma set_bt_insert: "keyed m \<Longrightarrow> set (bt_insert k v m) = insert (k, v) {x \<in> set m. fst x \<noteq> k}"
  by (induction k v m rule: bt_insert.induct) auto

lemma map_of_bt_insert [simp]: "keyed m \<Longrightarrow> map_of (bt_insert k v m) = (map_of m)(k \<mapsto> v)"
  by (induction k v m rule: bt_insert.induct) (auto simp: fun_upd_twist)

lemma bt_insert_back: "keyed m \<Longrightarrow> map_of m k = Some old \<Longrightarrow> bt_insert k old (bt_insert k v m) = m"
  by (induction k v m rule: bt_insert.induct) (auto dest!: map_of_SomeD split: if_splits)

lemma sum_bt_insert:
  fixes f :: "nat \<times> 'v \<Rightarrow> nat"
  shows "keyed m \<Longrightarrow> sum_list (map f (bt_insert k v m)) + (case map_of m k of None \<Rightarrow> 0 | Some w \<Rightarrow> f (k, w))
    = sum_list (map f m) + f (k, v)"
proof (induction k v m rule: bt_insert.induct)
  case (2 k v k' v' m)
  have "map_of m k = None" if "k < k'" using "2.prems" that by (auto simp: map_of_eq_None_iff)
  with 2 show ?case by auto
qed simp

lemma length_bt_insert: "keyed m \<Longrightarrow> length (bt_insert k v m) = (if map_of m k = None then Suc (length m) else length m)"
  using sum_bt_insert [of m "\<lambda>_. 1" k v] by (auto simp: sum_list_triv split: option.splits)

lemma distinct_bt_insert: "distinct (map snd m) \<Longrightarrow> v \<notin> snd ` set m \<Longrightarrow> distinct (map snd (bt_insert k v m))"
  by (induction k v m rule: bt_insert.induct) (auto dest!: bt_insert_mem)

lemma keyed_filter: "keyed m \<Longrightarrow> keyed (filter P m)"
  by (auto simp: keyed_def sorted_wrt_map sorted_wrt_filter)

lemma bt_remove_keyed [simp]: "keyed m \<Longrightarrow> keyed (bt_remove k m)"
  by (simp add: bt_remove_def keyed_filter)

lemma set_bt_remove: "set (bt_remove k m) = {x \<in> set m. fst x \<noteq> k}"
  by (auto simp: bt_remove_def)

lemma map_of_bt_remove [simp]: "map_of (bt_remove k m) = (map_of m)(k := None)"
  by (induction m) (auto simp: bt_remove_def fun_eq_iff)

lemma length_bt_remove: "length (bt_remove k m) \<le> length m"
  by (simp add: bt_remove_def)

lemma sum_bt_remove:
  fixes f :: "nat \<times> 'v \<Rightarrow> nat"
  shows "keyed m \<Longrightarrow> sum_list (map f (bt_remove k m)) + (case map_of m k of None \<Rightarrow> 0 | Some w \<Rightarrow> f (k, w)) = sum_list (map f m)"
proof (induction m)
  case (Cons x m)
  obtain k' v' where x: "x = (k', v')" by (rule prod.exhaust)
  have "map_of m k' = None" "bt_remove k' m = m" using Cons.prems x by (fastforce simp: map_of_eq_None_iff, auto simp: bt_remove_def intro!: filter_True)
  with Cons x show ?case by (auto simp: bt_remove_def)
qed (simp add: bt_remove_def)

lemma keyed_map_of: "keyed m \<Longrightarrow> (k, v) \<in> set m \<Longrightarrow> map_of m k = Some v"
  by (induction m) fastforce+

section \<open>Memory as a sum\<close>

definition agree :: "(nat \<Rightarrow> nat) \<Rightarrow> 'f buffer \<Rightarrow> bool" where
  "agree len b \<longleftrightarrow> (\<forall>p\<in>packets b. length (en_bytes p) = len (en_arc p))"

definition arcs :: "(nat \<times> 'f buffer) list \<Rightarrow> nat set" where
  "arcs m = (\<Union>(_, b)\<in>set m. en_arc ` packets b)"

definition kept_back :: "(nat \<times> 'f buffer) list \<Rightarrow> nat" where
  "kept_back m = sum_list (map (\<lambda>(_, b). pending_bytes (bu_parser b)) m)"

lemma finite_arcs [simp]: "finite (arcs m)"
  by (auto simp: arcs_def packets_def)

lemma unseen_bytes_sum:
  "\<forall>p\<in>set ps. length (en_bytes p) = len (en_arc p) \<Longrightarrow> unseen_bytes seen ps = sum len (en_arc ` set ps - seen)"
proof (induction ps arbitrary: seen)
  case (Cons p ps)
  show ?case
  proof (cases "en_arc p \<in> seen")
    case False
    then have "en_arc ` set (p # ps) - seen = insert (en_arc p) (en_arc ` set ps - insert (en_arc p) seen)" by auto
    with False Cons show ?thesis by simp
  qed (use Cons in \<open>simp add: insert_Diff_if\<close>)
qed simp

lemma buffers_memory_sum:
  "\<forall>(_, b)\<in>set m. agree len b \<Longrightarrow> buffers_memory seen (map snd m) = kept_back m + sum len (arcs m - seen)"
proof (induction m arbitrary: seen)
  case (Cons x m)
  obtain k b where x: "x = (k, b)" by (rule prod.exhaust)
  let ?a = "en_arc ` packets b"
  have "unseen_bytes seen (bu_video b @ bu_audio b) = sum len (?a - seen)"
    using Cons.prems x by (subst unseen_bytes_sum) (auto simp: agree_def packets_def)
  moreover have "sum len (arcs (x # m) - seen) = sum len (?a - seen) + sum len (arcs m - (seen \<union> ?a))"
  proof -
    have "arcs (x # m) - seen = (?a - seen) \<union> (arcs m - (seen \<union> ?a))" by (auto simp: x arcs_def)
    moreover have "finite ?a" "(?a - seen) \<inter> (arcs m - (seen \<union> ?a)) = {}" by (auto simp: packets_def)
    ultimately show ?thesis using sum.union_disjoint [of "?a - seen" "arcs m - (seen \<union> ?a)" len] by simp
  qed
  ultimately show ?case using Cons x by (simp add: kept_back_def packets_def)
qed (simp add: kept_back_def arcs_def)

lemma memory_sum: "\<forall>(_, b)\<in>set (pr_buffers p). agree len b \<Longrightarrow> pr_memory p = kept_back (pr_buffers p) + sum len (arcs (pr_buffers p))"
  using buffers_memory_sum [of "pr_buffers p" len "{}"] by (simp add: pr_memory_def)

end
