(* ===== verification/Mse_Presentation.thy ===== *)
theory Mse_Presentation
  imports Mse_Memory
begin

text \<open>
  The invariant of a presentation (\<^verbatim>\<open>src/apps/chuzz/src/video/mse.rs\<close>) and what each operation of a page does to it. Only an
  append makes a presentation hold more bytes, and by no more than twice what was uploaded for it.
\<close>

definition same_kind :: "mime_type \<Rightarrow> mime_type \<Rightarrow> bool" where
  "same_kind m m' \<longleftrightarrow> mi_video m \<and> mi_video m' \<or> mi_audio m \<and> mi_audio m'"

definition exclusive :: "(nat \<times> 'f buffer) list \<Rightarrow> bool" where
  "exclusive m \<longleftrightarrow> (\<forall>k b k' b'. (k, b) \<in> set m \<longrightarrow> (k', b') \<in> set m \<longrightarrow> k \<noteq> k' \<longrightarrow> \<not> same_kind (bu_mime b) (bu_mime b'))"

definition all_packets :: "(nat \<times> 'f buffer) list \<Rightarrow> 'f packet set" where
  "all_packets m = (\<Union>x\<in>set m. packets (snd x))"

definition buffers_ok :: "nat \<Rightarrow> (nat \<times> 'f buffer) list \<Rightarrow> bool" where
  "buffers_ok n m \<longleftrightarrow> keyed m \<and> length m \<le> 2 \<and> exclusive m \<and> (\<forall>x\<in>set m. buffer_ok n (snd x))"

definition pr_ok :: "nat \<Rightarrow> (nat \<Rightarrow> nat) \<Rightarrow> 'f presentation \<Rightarrow> bool" where
  "pr_ok n len p \<longleftrightarrow> buffers_ok n (pr_buffers p) \<and> (\<forall>q\<in>all_packets (pr_buffers p). length (en_bytes q) = len (en_arc q))
     \<and> pr_memory p \<le> SOURCE_LIMIT \<and> pr_epoch p \<le> n"

text \<open>Where the bytes come from: no buffer keeps back more, or points to a packet that was not there.\<close>

definition no_more :: "nat \<Rightarrow> (nat \<times> 'f buffer) list \<Rightarrow> (nat \<times> 'f buffer) list \<Rightarrow> bool" where
  "no_more n m m' \<longleftrightarrow> buffers_ok n m' \<and> kept_back m' \<le> kept_back m \<and> all_packets m' \<subseteq> all_packets m"

lemma arcs_packets: "arcs m = en_arc ` all_packets m"
  by (force simp: arcs_def all_packets_def)

lemma agree_packets: "(\<forall>q\<in>all_packets m. length (en_bytes q) = len (en_arc q)) \<longleftrightarrow> (\<forall>(_, b)\<in>set m. agree len b)"
  by (fastforce simp: agree_def all_packets_def)

lemma pr_memory_sum:
  "\<forall>q\<in>all_packets (pr_buffers p). length (en_bytes q) = len (en_arc q) \<Longrightarrow>
     pr_memory p = kept_back (pr_buffers p) + sum len (en_arc ` all_packets (pr_buffers p))"
  using memory_sum [of p len] by (simp add: agree_packets arcs_packets)

lemma buffer_ok_mono: "buffer_ok n b \<Longrightarrow> n \<le> n' \<Longrightarrow> buffer_ok n' b"
  by (auto simp: buffer_ok_def intro: order_trans [OF _ mult_le_mono1])

lemma buffers_ok_mono: "buffers_ok n m \<Longrightarrow> n \<le> n' \<Longrightarrow> buffers_ok n' m"
  by (auto simp: buffers_ok_def intro: buffer_ok_mono)

lemma buffers_ok_mem: "buffers_ok n m \<Longrightarrow> (k, b) \<in> set m \<Longrightarrow> n \<le> n' \<Longrightarrow> buffer_ok n' b"
  using buffer_ok_mono [of n b n'] by (fastforce simp: buffers_ok_def)

lemma buffers_ok_lookup: "buffers_ok n m \<Longrightarrow> map_of m k = Some b \<Longrightarrow> n \<le> n' \<Longrightarrow> buffer_ok n' b"
  by (rule buffers_ok_mem [OF _ map_of_SomeD])

lemma exclusive_subset: "exclusive m \<Longrightarrow> set m' \<subseteq> set m \<Longrightarrow> exclusive m'"
  unfolding exclusive_def by blast

lemma no_more_refl: "buffers_ok n m \<Longrightarrow> n \<le> n' \<Longrightarrow> no_more n' m m"
  by (auto simp: no_more_def intro: buffers_ok_mono)

lemma finite_all_packets [simp]: "finite (all_packets m)"
  by (simp add: all_packets_def packets_def)

lemma no_more_keeps:
  assumes "pr_ok n len p" and "no_more n' (pr_buffers p) (pr_buffers p')" and "pr_epoch p' \<le> n'"
  shows "pr_ok n' len p' \<and> pr_memory p' \<le> pr_memory p \<and> all_packets (pr_buffers p') \<subseteq> all_packets (pr_buffers p)"
proof -
  have a: "\<forall>q\<in>all_packets (pr_buffers p). length (en_bytes q) = len (en_arc q)" using assms(1) by (simp add: pr_ok_def)
  have sub: "all_packets (pr_buffers p') \<subseteq> all_packets (pr_buffers p)" using assms(2) by (simp add: no_more_def)
  then have a': "\<forall>q\<in>all_packets (pr_buffers p'). length (en_bytes q) = len (en_arc q)" using a by auto
  have "sum len (en_arc ` all_packets (pr_buffers p')) \<le> sum len (en_arc ` all_packets (pr_buffers p))"
    by (rule sum_mono2) (use sub in auto)
  then have "pr_memory p' \<le> pr_memory p"
    using assms(2) by (simp add: pr_memory_sum [OF a] pr_memory_sum [OF a'] no_more_def)
  with assms sub a' show ?thesis by (auto simp: pr_ok_def no_more_def)
qed

section \<open>Changes of one buffer\<close>

lemma kept_back_insert:
  assumes "keyed m" and "map_of m k = Some b"
  shows "kept_back (bt_insert k b' m) + pending_bytes (bu_parser b) = kept_back m + pending_bytes (bu_parser b')"
  using sum_bt_insert [OF assms(1), of "\<lambda>(_, b). pending_bytes (bu_parser b)" k b'] assms(2) by (simp add: kept_back_def)

lemma replace_ok:
  assumes m: "buffers_ok n m" and b: "map_of m k = Some b" and "n \<le> n'" and "buffer_ok n' b'" and "bu_mime b' = bu_mime b"
  shows "buffers_ok n' (bt_insert k b' m)"
proof -
  have k: "keyed m" "(k, b) \<in> set m" using m b by (auto simp: buffers_ok_def map_of_SomeD)
  have "exclusive m" using m by (simp add: buffers_ok_def)
  then have "exclusive (bt_insert k b' m)"
    using k(2) assms(5) unfolding exclusive_def set_bt_insert [OF k(1)] by auto
  moreover have "\<forall>x\<in>set m. buffer_ok n' (snd x)"
    using buffers_ok_mem [OF m _ assms(3)] by (metis prod.collapse)
  ultimately show ?thesis using m k(1) b assms(4)
    by (auto simp: buffers_ok_def set_bt_insert length_bt_insert)
qed

lemma replace_packets:
  assumes "keyed m" and "map_of m k = Some b" and "packets b' \<subseteq> packets b \<union> new"
  shows "all_packets (bt_insert k b' m) \<subseteq> all_packets m \<union> new"
  using assms(3) map_of_SomeD [OF assms(2)] by (force simp: all_packets_def set_bt_insert [OF assms(1)])

lemma replace_no_more:
  assumes "buffers_ok n m" "map_of m k = Some b" "n \<le> n'" "buffer_ok n' b'" "bu_mime b' = bu_mime b"
    "packets b' \<subseteq> packets b" "pending_bytes (bu_parser b') \<le> pending_bytes (bu_parser b)"
  shows "no_more n' m (bt_insert k b' m)"
  using replace_ok [OF assms(1-5)] replace_packets [of m k b b' "{}"] kept_back_insert [of m k b b'] assms
  by (auto simp: no_more_def buffers_ok_def)

lemma removed_ok:
  assumes "buffer_remove fx start stop b = (b', c)" and "buffer_ok n b"
  shows "buffer_ok n b' \<and> bu_mime b' = bu_mime b \<and> packets b' \<subseteq> packets b \<and> bu_parser b' = bu_parser b"
  using buffer_remove_keeps [OF assms(1)] assms(2) by (auto simp: buffer_ok_def packets_def)

lemma aborted_ok: "buffer_ok n b \<Longrightarrow> buffer_ok n (b\<lparr>bu_parser := abort (bu_parser b)\<rparr>)"
  by (auto simp: buffer_ok_def abort_def parser_ok_def box_at_def packets_def pending_bytes_def saturating_add_def)

lemma new_buffer_ok: "buffer_ok n (new_buffer fx m)"
  by (simp add: buffer_ok_def new_buffer_def new_fragments_def parser_ok_def box_at_def packets_def pending_bytes_def)

section \<open>The operations\<close>

text \<open>The step from \<open>p\<close> to \<open>p'\<close> keeps the invariant and adds nothing.\<close>

definition tame :: "nat \<Rightarrow> (nat \<Rightarrow> nat) \<Rightarrow> 'f presentation \<Rightarrow> 'f presentation \<Rightarrow> bool" where
  "tame n len p p' \<longleftrightarrow> pr_ok (Suc n) len p' \<and> pr_memory p' \<le> pr_memory p
     \<and> all_packets (pr_buffers p') \<subseteq> all_packets (pr_buffers p)"

lemma tameI:
  "pr_ok n len p \<Longrightarrow> no_more (Suc n) (pr_buffers p) (pr_buffers p') \<Longrightarrow> pr_epoch p' \<le> Suc n \<Longrightarrow> tame n len p p'"
  using no_more_keeps [of n len p "Suc n" p'] by (simp add: tame_def)

lemma tame_same: "pr_ok n len p \<Longrightarrow> pr_buffers p' = pr_buffers p \<Longrightarrow> pr_epoch p' \<le> Suc n \<Longrightarrow> tame n len p p'"
  using no_more_refl [of n "pr_buffers p" "Suc n"] by (intro tameI) (auto simp: pr_ok_def)

lemma tame_refl: "pr_ok n len p \<Longrightarrow> tame n len p p"
  by (rule tame_same) (auto simp: pr_ok_def)

lemmas outcome_defs = refuse_def accept_def accept_new_epoch_def checked_add_def

lemma op_add_tame:
  assumes ok: "pr_ok n len p" and step: "op_add fx rq p = Some (p', r)"
  shows "tame n len p p'"
proof (cases "\<exists>m. mime (mr_mime rq) = Some m \<and> \<not> (pr_ended p \<or> mr_buffer rq = 0 \<or> map_of (pr_buffers p) (mr_buffer rq) \<noteq> None)
    \<and> \<not> (2 \<le> length (pr_buffers p)
      \<or> list_ex (\<lambda>(_, b). mi_video (bu_mime b) \<and> mi_video m \<or> mi_audio (bu_mime b) \<and> mi_audio m) (pr_buffers p))")
  case True
  then obtain m where m: "mime (mr_mime rq) = Some m" "map_of (pr_buffers p) (mr_buffer rq) = None" "length (pr_buffers p) < 2"
    "\<And>k b. (k, b) \<in> set (pr_buffers p) \<Longrightarrow> \<not> same_kind (bu_mime b) m"
    "\<not> (pr_ended p \<or> mr_buffer rq = 0)" by (fastforce simp: list_ex_iff not_le same_kind_def)
  let ?b = "new_buffer fx m :: 'a buffer"
  let ?m = "bt_insert (mr_buffer rq) ?b (pr_buffers p)"
  have p': "pr_buffers p' = ?m" "pr_epoch p' = Suc (pr_epoch p)" using True m step
    by (auto simp: op_add_def outcome_defs split: if_splits)
  have k: "keyed (pr_buffers p)" "exclusive (pr_buffers p)" "buffers_ok (Suc n) (pr_buffers p)"
    using ok buffers_ok_mono [of n "pr_buffers p" "Suc n"] by (auto simp: pr_ok_def buffers_ok_def)
  note mem = set_bt_insert [OF k(1), of "mr_buffer rq" ?b]
  have "exclusive ?m" using k(2) m(4) unfolding exclusive_def mem by (auto simp: new_buffer_def same_kind_def)
  then have "buffers_ok (Suc n) ?m" using k m(2,3) new_buffer_ok [of "Suc n" fx m]
    by (auto simp: buffers_ok_def mem length_bt_insert)
  moreover have "kept_back ?m = kept_back (pr_buffers p)"
    using sum_bt_insert [OF k(1), of "\<lambda>(_, b). pending_bytes (bu_parser b)" "mr_buffer rq" ?b] m(2)
    by (simp add: kept_back_def new_buffer_def new_fragments_def pending_bytes_def)
  moreover have "packets ?b = {}" by (simp add: packets_def new_buffer_def)
  then have "all_packets ?m \<subseteq> all_packets (pr_buffers p)" by (auto simp: all_packets_def mem)
  ultimately show ?thesis using ok by (intro tameI) (auto simp: p' no_more_def pr_ok_def)
next
  case False
  with step have "p' = p" by (auto simp: op_add_def outcome_defs split: option.splits if_splits)
  with ok show ?thesis by (simp add: tame_refl)
qed

lemma bt_remove_no_more:
  assumes "buffers_ok n m" "n \<le> n'"
  shows "no_more n' m (bt_remove k m)"
proof -
  have k: "keyed m" using assms by (simp add: buffers_ok_def)
  have "kept_back (bt_remove k m) \<le> kept_back m"
    using sum_bt_remove [OF k, of "\<lambda>(_, b). pending_bytes (bu_parser b)" k] by (simp add: kept_back_def)
  moreover have "buffers_ok n' (bt_remove k m)"
    using buffers_ok_mono [OF assms] length_bt_remove [of k m] exclusive_subset [of m "bt_remove k m"]
    by (auto simp: buffers_ok_def set_bt_remove)
  ultimately show ?thesis by (auto simp: no_more_def all_packets_def set_bt_remove)
qed

lemma op_delete_tame: "pr_ok n len p \<Longrightarrow> op_delete rq p = Some (p', r) \<Longrightarrow> tame n len p p'"
  using bt_remove_no_more [of n "pr_buffers p" "Suc n" "mr_buffer rq"] tame_refl [of n len p]
  by (auto simp: op_delete_def outcome_defs pr_ok_def intro!: tameI [of n len p] split: if_splits)

lemma op_reopen_tame:
  assumes "pr_ok n len p" and "op_reopen p = Some (p', r)"
  shows "tame n len p p'"
  using assms(2) by (intro tame_same [OF assms(1)])
    (use assms(1) in \<open>auto simp: op_reopen_def outcome_defs pr_ok_def split: if_splits\<close>)

lemma op_abort_tame:
  assumes "pr_ok n len p" and "op_abort rq p = Some (p', r)"
  shows "tame n len p p'"
proof (cases "map_of (pr_buffers p) (mr_buffer rq)")
  case None
  with assms show ?thesis by (simp add: op_abort_def outcome_defs tame_refl)
next
  case (Some b)
  then have b: "buffer_ok (Suc n) b" using assms(1) buffers_ok_lookup [of n _ _ b "Suc n"] by (auto simp: pr_ok_def)
  have "no_more (Suc n) (pr_buffers p) (bt_insert (mr_buffer rq) (b\<lparr>bu_parser := abort (bu_parser b)\<rparr>) (pr_buffers p))"
    using assms(1) Some aborted_ok [OF b]
    by (intro replace_no_more) (auto simp: pr_ok_def packets_def abort_def pending_bytes_def)
  with assms Some show ?thesis by (intro tameI) (auto simp: op_abort_def outcome_defs pr_ok_def)
qed

lemma op_remove_tame:
  assumes "pr_ok n len p" and "op_remove fx rq p = Some (p', r)"
  shows "tame n len p p'"
proof (cases "map_of (pr_buffers p) (mr_buffer rq)")
  case None
  with assms show ?thesis by (auto simp: op_remove_def outcome_defs Let_def tame_refl split: if_splits)
next
  case (Some b)
  then have b: "buffer_ok (Suc n) b" using assms(1) buffers_ok_lookup [of n _ _ b "Suc n"] by (auto simp: pr_ok_def)
  define stop where "stop = (case mr_end rq of Some e \<Rightarrow> e | None \<Rightarrow> fx_infinity fx)"
  obtain b' c where r: "buffer_remove fx (mr_start rq) stop b = (b', c)" by (rule prod.exhaust)
  have "no_more (Suc n) (pr_buffers p) (bt_insert (mr_buffer rq) b' (pr_buffers p))"
    using assms(1) Some removed_ok [OF r b] by (intro replace_no_more) (auto simp: pr_ok_def)
  moreover have "p' = p \<or> pr_buffers p' = bt_insert (mr_buffer rq) b' (pr_buffers p) \<and> pr_epoch p' \<le> Suc (pr_epoch p)"
    using assms(2) Some r unfolding op_remove_def stop_def [symmetric] by (auto simp: outcome_defs Let_def split: if_splits)
  ultimately show ?thesis using assms(1) tame_refl [OF assms(1)] tameI [OF assms(1), of p'] by (auto simp: pr_ok_def)
qed

lemma map_no_more:
  assumes m: "buffers_ok n m" and n: "n \<le> n'"
    and f: "\<And>b. buffer_ok n b \<Longrightarrow> buffer_ok n (f b) \<and> bu_mime (f b) = bu_mime b \<and> packets (f b) \<subseteq> packets b \<and> bu_parser (f b) = bu_parser b"
  shows "no_more n' m (map (map_prod id f) m)"
proof -
  let ?m = "map (map_prod id f) m"
  have ok: "buffer_ok n b" if "(k, b) \<in> set m" for k b using buffers_ok_mem [OF m that] by simp
  have "keyed ?m" using m by (simp add: buffers_ok_def keyed_def comp_def)
  moreover have "exclusive ?m" using m f [OF ok] unfolding exclusive_def buffers_ok_def by auto
  moreover have "\<forall>x\<in>set ?m. buffer_ok n' (snd x)" using f [OF ok] n by (auto intro: buffer_ok_mono [of n])
  moreover have "kept_back ?m = kept_back m"
    using f [OF ok] by (auto simp: kept_back_def intro!: arg_cong [where f = sum_list])
  moreover have "all_packets ?m \<subseteq> all_packets m" using f [OF ok] by (force simp: all_packets_def)
  ultimately show ?thesis using m by (auto simp: no_more_def buffers_ok_def)
qed

lemma fst_removed_ok:
  assumes "buffer_ok n b"
  shows "buffer_ok n (fst (buffer_remove fx start stop b)) \<and> bu_mime (fst (buffer_remove fx start stop b)) = bu_mime b
    \<and> packets (fst (buffer_remove fx start stop b)) \<subseteq> packets b \<and> bu_parser (fst (buffer_remove fx start stop b)) = bu_parser b"
  using removed_ok [OF prod.collapse [symmetric] assms] .

lemma op_duration_tame:
  assumes ok: "pr_ok n len p" and step: "op_duration fx rq p = Some (p', r)"
  shows "tame n len p p'"
proof -
  define d where "d = (case mr_value rq of Some v \<Rightarrow> v | None \<Rightarrow> fx_infinity fx)"
  let ?f = "\<lambda>b. fst (buffer_remove fx d (fx_infinity fx) b)"
  have "no_more (Suc n) (pr_buffers p) (map (map_prod id ?f) (pr_buffers p))"
    using ok fst_removed_ok by (intro map_no_more [of n]) (simp_all add: pr_ok_def)
  moreover have "no_more (Suc n) (pr_buffers p) (pr_buffers p)" using ok by (auto simp: pr_ok_def intro: no_more_refl [of n])
  moreover have "(pr_buffers p' = pr_buffers p \<or> pr_buffers p' = map (map_prod id ?f) (pr_buffers p)) \<and> pr_epoch p' \<le> Suc (pr_epoch p)"
    using step unfolding op_duration_def d_def [symmetric] by (auto simp: outcome_defs Let_def split: if_splits)
  ultimately show ?thesis using tameI [OF ok, of p'] ok by (auto simp: pr_ok_def)
qed

lemma op_live_same: "op_live fx rq p = Some (p', r) \<Longrightarrow> pr_buffers p' = pr_buffers p \<and> pr_epoch p' = pr_epoch p"
  by (auto simp: op_live_def outcome_defs split: option.splits if_splits)

lemma op_end_same: "op_end fx rq p = Some (p', r) \<Longrightarrow> pr_buffers p' = pr_buffers p \<and> pr_epoch p' = pr_epoch p"
  by (auto simp: op_end_def outcome_defs Let_def split: if_splits)

text \<open>The step from \<open>p\<close> to \<open>p'\<close> keeps the invariant and adds at most the bytes uploaded under \<open>arc\<close>, twice.\<close>

definition grown :: "nat \<Rightarrow> (nat \<Rightarrow> nat) \<Rightarrow> nat \<Rightarrow> bytes \<Rightarrow> 'f presentation \<Rightarrow> 'f presentation \<Rightarrow> bool" where
  "grown n len arc bs p p' \<longleftrightarrow> (\<exists>len'. (\<forall>a. a \<noteq> arc \<longrightarrow> len' a = len a) \<and> pr_ok (Suc n) len' p')
     \<and> pr_memory p' \<le> pr_memory p + 2 * length bs
     \<and> en_arc ` all_packets (pr_buffers p') \<subseteq> insert arc (en_arc ` all_packets (pr_buffers p))"

lemma tame_grown: "tame n len p p' \<Longrightarrow> grown n len arc bs p p'"
  by (auto simp: tame_def grown_def)

lemma grow_duration_same [simp]: "pr_buffers (grow_duration fx p) = pr_buffers p" "pr_epoch (grow_duration fx p) = pr_epoch p"
  by (auto simp: grow_duration_def)

lemma pr_memory_cong: "pr_buffers p = pr_buffers q \<Longrightarrow> pr_memory p = pr_memory q"
  by (simp add: pr_memory_def)

lemma appended_memory:
  assumes ok: "pr_ok n len p" and b: "map_of (pr_buffers p) k = Some b" and ap: "appended arc bs b b' new"
    and fresh: "arc \<notin> en_arc ` all_packets (pr_buffers p)" and p': "pr_buffers p' = bt_insert k b' (pr_buffers p)"
  defines "len' \<equiv> len(arc := pending_bytes (bu_parser b) + length bs)"
  shows "\<forall>q\<in>all_packets (pr_buffers p'). length (en_bytes q) = len' (en_arc q)"
    and "pr_memory p' \<le> pr_memory p + 2 * length bs"
    and "en_arc ` all_packets (pr_buffers p') \<subseteq> insert arc (en_arc ` all_packets (pr_buffers p))"
proof -
  have key: "keyed (pr_buffers p)" using ok by (simp add: pr_ok_def buffers_ok_def)
  have old: "\<forall>q\<in>all_packets (pr_buffers p). length (en_bytes q) = len (en_arc q)" using ok by (simp add: pr_ok_def)
  have sub: "all_packets (pr_buffers p') \<subseteq> all_packets (pr_buffers p) \<union> new"
    using replace_packets [OF key b] ap p' by (auto simp: appended_def)
  have new: "en_arc q = arc \<and> length (en_bytes q) = len' arc" if "q \<in> new" for q
    using ap that by (auto simp: appended_def len'_def)
  have stay: "len' (en_arc q) = len (en_arc q)" if "q \<in> all_packets (pr_buffers p)" for q
    using fresh that by (auto simp: len'_def)
  show agree': "\<forall>q\<in>all_packets (pr_buffers p'). length (en_bytes q) = len' (en_arc q)"
    using sub new stay old by (metis UnE subsetD)
  show "en_arc ` all_packets (pr_buffers p') \<subseteq> insert arc (en_arc ` all_packets (pr_buffers p))"
    using sub new by blast
  have "sum len' (en_arc ` all_packets (pr_buffers p')) \<le> sum len' (en_arc ` all_packets (pr_buffers p) \<union> (if new = {} then {} else {arc}))"
    by (rule sum_mono2) (use sub new in \<open>auto split: if_splits\<close>)
  also have "\<dots> = sum len' (en_arc ` all_packets (pr_buffers p)) + (if new = {} then 0 else len' arc)"
    using fresh by (subst sum.union_disjoint) auto
  also have "sum len' (en_arc ` all_packets (pr_buffers p)) = sum len (en_arc ` all_packets (pr_buffers p))"
    by (rule sum.cong) (use stay in auto)
  also have "len' arc = pending_bytes (bu_parser b) + length bs" by (simp add: len'_def)
  finally have "sum len' (en_arc ` all_packets (pr_buffers p'))
      \<le> sum len (en_arc ` all_packets (pr_buffers p)) + (if new = {} then 0 else pending_bytes (bu_parser b) + length bs)" .
  then show "pr_memory p' \<le> pr_memory p + 2 * length bs"
    using kept_back_insert [OF key b, of b'] ap
    unfolding pr_memory_sum [OF old] pr_memory_sum [OF agree'] p' by (auto simp: appended_def split: if_splits)
qed

lemma op_append_grown:
  assumes ok: "pr_ok n len p" and step: "op_append mp4 fx (Some (arc, bs)) rq p = Some (p', r)"
    and size: "length bs \<le> UPLOAD_LIMIT" and fresh: "arc \<notin> en_arc ` all_packets (pr_buffers p)"
  shows "grown n len arc bs p p'"
proof (cases "p' = p")
  case True
  then show ?thesis using tame_grown [OF tame_refl [OF ok]] by simp
next
  case False
  have key: "keyed (pr_buffers p)" and bo: "buffers_ok n (pr_buffers p)" using ok by (simp_all add: pr_ok_def buffers_ok_def)
  obtain old staged c p1 where old: "map_of (pr_buffers p) (mr_buffer rq) = Some old"
    and ap: "buffer_append mp4 fx arc bs rq old = Some (Inr (staged, c))"
    and p1: "p1 = p\<lparr>pr_buffers := bt_insert (mr_buffer rq) staged (pr_buffers p)\<rparr>"
    and small: "pr_memory p1 \<le> SOURCE_LIMIT"
    and p': "pr_buffers p' = pr_buffers p1" "pr_epoch p' \<le> Suc (pr_epoch p)"
    using step False bt_insert_back [OF key]
    by (auto simp: op_append_def outcome_defs Let_def split: if_splits option.splits sum.splits bind_splits)
  obtain new where b: "buffer_ok (Suc n) staged" and a: "appended arc bs old staged new"
    using buffer_append_ok [OF ap buffers_ok_lookup [OF bo old] size] by auto
  have p'b: "pr_buffers p' = bt_insert (mr_buffer rq) staged (pr_buffers p)" by (simp add: p' p1)
  note mem = appended_memory [OF ok old a fresh p'b]
  have "buffers_ok (Suc n) (pr_buffers p')" unfolding p'b
    using a by (intro replace_ok [OF bo old _ b]) (simp_all add: appended_def)
  then have "pr_ok (Suc n) (len(arc := pending_bytes (bu_parser old) + length bs)) p'"
    using mem(1) small p' ok pr_memory_cong [OF p'(1)] by (simp add: pr_ok_def)
  moreover have "\<forall>a. a \<noteq> arc \<longrightarrow> (len(arc := pending_bytes (bu_parser old) + length bs)) a = len a" by simp
  ultimately show ?thesis using mem(2,3) unfolding grown_def by blast
qed

section \<open>Any operation\<close>

lemma perform_tame:
  assumes "pr_ok n len p" and "perform mp4 fx up rq p = Some (p', r)" and "mr_op rq \<noteq> S ''append'' \<or> up = None"
  shows "tame n len p p'"
proof -
  consider "pr_buffers p' = pr_buffers p \<and> pr_epoch p' = pr_epoch p" | "op_add fx rq p = Some (p', r)" | "op_delete rq p = Some (p', r)"
    | "op_reopen p = Some (p', r)" | "op_abort rq p = Some (p', r)" | "op_remove fx rq p = Some (p', r)" | "op_duration fx rq p = Some (p', r)"
    using assms(2,3) op_live_same [of fx rq p p' r] op_end_same [of fx rq p p' r]
    unfolding perform_def op_append_def by (auto simp: outcome_defs split: if_splits)
  then show ?thesis
  proof cases
    case 1
    with assms(1) show ?thesis by (intro tame_same) (auto simp: pr_ok_def)
  qed (rule op_add_tame [OF assms(1)] op_delete_tame [OF assms(1)] op_reopen_tame [OF assms(1)] op_abort_tame [OF assms(1)]
      op_remove_tame [OF assms(1)] op_duration_tame [OF assms(1)], assumption)+
qed

lemma perform_grown:
  assumes "pr_ok n len p" and "perform mp4 fx (Some (arc, bs)) rq p = Some (p', r)"
    and "length bs \<le> UPLOAD_LIMIT" and "arc \<notin> en_arc ` all_packets (pr_buffers p)"
  shows "grown n len arc bs p p'"
proof (cases "mr_op rq = S ''append''")
  case True
  then have "op_append mp4 fx (Some (arc, bs)) rq p = Some (p', r)" using assms(2) by (simp add: perform_def S_def)
  then show ?thesis using op_append_grown assms by blast
next
  case False
  then show ?thesis using tame_grown perform_tame assms by blast
qed

text \<open>A refused operation changes nothing; only \<open>end\<close> looks at its last argument after it has ended the source.\<close>

lemma perform_refused:
  assumes "keyed (pr_buffers p)" and "perform mp4 fx up rq p = Some (p', Inl e)" and "mr_op rq \<noteq> S ''end''"
  shows "p' = p"
proof -
  have "p' = p" if "op_append mp4 fx up rq p = Some (p', Inl e)"
    using that bt_insert_back [OF assms(1)]
    by (auto simp: op_append_def outcome_defs Let_def split: if_splits option.splits sum.splits bind_splits)
  then show ?thesis using assms(2,3)
    unfolding perform_def op_add_def op_delete_def op_reopen_def op_abort_def op_remove_def op_duration_def op_live_def
    by (auto simp: outcome_defs Let_def split: if_splits option.splits prod.splits)
qed

lemma ops_return:
  assumes "Suc (pr_epoch p) \<le> u64_max"
  shows "\<exists>y. op_add fx rq p = Some y" "\<exists>y. op_delete rq p = Some y" "\<exists>y. op_reopen p = Some y" "\<exists>y. op_abort rq p = Some y"
    "\<exists>y. op_remove fx rq p = Some y" "\<exists>y. op_duration fx rq p = Some y" "\<exists>y. op_live fx rq p = Some y" "\<exists>y. op_end fx rq p = Some y"
  using assms
  by (auto simp: op_add_def op_delete_def op_reopen_def op_abort_def op_remove_def op_duration_def op_live_def op_end_def
      outcome_defs Let_def split: option.split prod.split)

lemma perform_returns:
  assumes ok: "pr_ok n len p" and n: "n < 2 ^ 39" and up: "\<And>arc bs. up = Some (arc, bs) \<Longrightarrow> length bs \<le> UPLOAD_LIMIT"
  shows "perform mp4 fx up rq p \<noteq> None"
proof -
  have e: "Suc (pr_epoch p) \<le> u64_max" using ok n by (simp add: pr_ok_def u64_max_def)
  have b: "buffers_ok n (pr_buffers p)" using ok by (simp add: pr_ok_def)
  have "op_append mp4 fx up rq p \<noteq> None"
  proof (cases "\<exists>arc bs old. up = Some (arc, bs) \<and> map_of (pr_buffers p) (mr_buffer rq) = Some old")
    case True
    then obtain arc bs old where u: "up = Some (arc, bs)" "map_of (pr_buffers p) (mr_buffer rq) = Some old" by blast
    obtain y where "buffer_append mp4 fx arc bs rq old = Some y"
      using buffer_append_returns [OF buffers_ok_lookup [OF b u(2) order_refl] up [OF u(1)] n] by blast
    with u e show ?thesis by (auto simp: op_append_def outcome_defs Let_def split: sum.splits)
  next
    case False
    then show ?thesis by (auto simp: op_append_def outcome_defs split: option.splits)
  qed
  then show ?thesis using ops_return [OF e] unfolding perform_def by (auto simp: accept_def refuse_def)
qed

end
