(* ===== verification/Mse_Sound.thy ===== *)
theory Mse_Sound
  imports Mse_Presentation
begin

text \<open>
  The state machine of a document's media sources (\<^verbatim>\<open>src/apps/chuzz/src/video/mse.rs\<close>): whatever sequence of native calls a page
  makes, the resource limits hold, nothing panics, a refused command leaves every presentation as it was, and a closed
  presentation is never changed again.
\<close>

section \<open>The invariant of the store\<close>

definition refs_ok :: "'f host \<Rightarrow> bool" where
  "refs_ok h \<longleftrightarrow> keyed (ho_sources h) \<and> distinct (map snd (ho_sources h)) \<and> (\<forall>x\<in>set (ho_sources h). snd x < length (ho_heap h))"

definition uploads_ok :: "'f host \<Rightarrow> bool" where
  "uploads_ok h \<longleftrightarrow> keyed (ho_uploads h) \<and> length (ho_uploads h) \<le> 128
     \<and> (\<forall>x\<in>set (ho_uploads h). fst x \<le> ho_next_upload h \<and> length (snd x) \<le> UPLOAD_LIMIT)"

definition source_ok :: "nat \<Rightarrow> (nat \<Rightarrow> nat) \<Rightarrow> 'f host \<Rightarrow> nat \<Rightarrow> 'f presentation \<Rightarrow> bool" where
  "source_ok n len h k p \<longleftrightarrow> 0 < k \<and> k \<le> MAX_ID \<and> pr_ok n len p
     \<and> (\<forall>q\<in>all_packets (pr_buffers p). en_arc q \<le> ho_next_upload h \<and> map_of (ho_uploads h) (en_arc q) = None)"

definition sources_ok :: "nat \<Rightarrow> (nat \<Rightarrow> nat) \<Rightarrow> 'f host \<Rightarrow> bool" where
  "sources_ok n len h \<longleftrightarrow> length (ho_sources h) \<le> 32
     \<and> (\<forall>x\<in>set (ho_sources h). source_ok n len h (fst x) (ho_heap h ! snd x))"

definition host_ok :: "nat \<Rightarrow> 'f host \<Rightarrow> bool" where
  "host_ok n h \<longleftrightarrow> refs_ok h \<and> uploads_ok h \<and> (\<exists>len. sources_ok n len h)
     \<and> sources_memory h + 2 * uploads_memory h \<le> 2 * DOCUMENT_LIMIT"

lemma pr_ok_mono: "pr_ok n len p \<Longrightarrow> n \<le> n' \<Longrightarrow> pr_ok n' len p"
  by (auto simp: pr_ok_def intro: buffers_ok_mono)

lemma pr_ok_cong: "pr_ok n len p \<Longrightarrow> \<forall>a\<in>en_arc ` all_packets (pr_buffers p). len' a = len a \<Longrightarrow> pr_ok n len' p"
  by (auto simp: pr_ok_def)

lemma new_host_ok: "host_ok n new_host"
  by (auto simp: host_ok_def refs_ok_def uploads_ok_def sources_ok_def new_host_def sources_memory_def uploads_memory_def)

lemma sum_heap_update:
  fixes f :: "'p \<Rightarrow> nat"
  assumes "distinct (map snd m)" and "(k, r) \<in> set m" and "r < length heap"
  shows "sum_list (map (\<lambda>(_, r'). f (heap[r := p] ! r')) m) + f (heap ! r) = sum_list (map (\<lambda>(_, r'). f (heap ! r')) m) + f p"
  using assms
proof (induction m)
  case (Cons x m)
  obtain k' r' where x: "x = (k', r')" by (rule prod.exhaust)
  show ?case
  proof (cases "r' = r")
    case True
    then have "sum_list (map (\<lambda>(_, r'). f (heap[r := p] ! r')) m) = sum_list (map (\<lambda>(_, r'). f (heap ! r')) m)"
      using Cons.prems x by (intro arg_cong [where f = sum_list] map_cong) (auto simp: nth_list_update rev_image_eqI)
    with True x Cons.prems show ?thesis by simp
  next
    case False
    with Cons x show ?thesis by auto
  qed
qed simp

text \<open>Sources stay sound when nothing but more handles comes in.\<close>

lemma source_ok_mono:
  assumes "source_ok n len h k p" and "n \<le> n'" and "ho_next_upload h \<le> ho_next_upload h'"
    and "\<And>a. a \<le> ho_next_upload h \<Longrightarrow> map_of (ho_uploads h) a = None \<Longrightarrow> map_of (ho_uploads h') a = None"
  shows "source_ok n' len h' k p"
  using assms pr_ok_mono [of n len p n'] le_trans [OF _ assms(3)] by (auto simp: source_ok_def)

lemma sources_ok_mono:
  assumes "sources_ok n len h" and "n \<le> n'" and "ho_sources h' = ho_sources h" and "ho_heap h' = ho_heap h"
    and "ho_next_upload h \<le> ho_next_upload h'"
    and "\<And>a. a \<le> ho_next_upload h \<Longrightarrow> map_of (ho_uploads h) a = None \<Longrightarrow> map_of (ho_uploads h') a = None"
  shows "sources_ok n' len h'"
  using assms(1,3,4) source_ok_mono [OF _ assms(2,5,6)] unfolding sources_ok_def by auto

section \<open>Uploads\<close>

lemma take_upload_ok:
  assumes ok: "host_ok n h" and t: "take_upload handle h = (up, h')"
  shows "host_ok n h'" and "ho_sources h' = ho_sources h" and "ho_heap h' = ho_heap h" and "ho_next_upload h' = ho_next_upload h"
    and "up = Some (k, bs) \<Longrightarrow> map_of (ho_uploads h) k = Some bs \<and> map_of (ho_uploads h') k = None \<and> length bs \<le> UPLOAD_LIMIT
      \<and> uploads_memory h' + length bs = uploads_memory h \<and> k \<le> ho_next_upload h"
proof -
  have key: "keyed (ho_uploads h)" and u: "uploads_ok h" using ok by (simp_all add: host_ok_def uploads_ok_def)
  show same: "ho_sources h' = ho_sources h" "ho_heap h' = ho_heap h" "ho_next_upload h' = ho_next_upload h"
    using t by (auto simp: take_upload_def split: option.splits)
  have m: "uploads_memory (h\<lparr>ho_uploads := bt_remove j (ho_uploads h)\<rparr>)
      + (case map_of (ho_uploads h) j of None \<Rightarrow> 0 | Some w \<Rightarrow> length w) = uploads_memory h" for j
    using sum_bt_remove [OF key, of "length \<circ> snd" j] by (simp add: uploads_memory_def comp_def split: option.splits)
  show "map_of (ho_uploads h) k = Some bs \<and> map_of (ho_uploads h') k = None \<and> length bs \<le> UPLOAD_LIMIT
      \<and> uploads_memory h' + length bs = uploads_memory h \<and> k \<le> ho_next_upload h" if "up = Some (k, bs)"
    using t that m [of k] u by (auto simp: take_upload_def uploads_ok_def dest!: map_of_SomeD split: option.splits)
  have un: "ho_uploads h' = ho_uploads h \<or> (\<exists>j. ho_uploads h' = bt_remove j (ho_uploads h))"
    using t by (auto simp: take_upload_def split: option.splits)
  then have "uploads_ok h'"
    using u same(3) le_trans [OF length_bt_remove [of _ "ho_uploads h"]] by (auto simp: uploads_ok_def set_bt_remove)
  moreover have "uploads_memory h' \<le> uploads_memory h" "sources_memory h' = sources_memory h"
    using t m by (auto simp: take_upload_def sources_memory_def split: option.splits) (metis le_add1)
  then have "sources_memory h' + 2 * uploads_memory h' \<le> 2 * DOCUMENT_LIMIT" using ok by (simp add: host_ok_def)
  moreover have none: "map_of (ho_uploads h') a = None" if "map_of (ho_uploads h) a = None" for a
    using un that by auto
  obtain len where "sources_ok n len h" using ok by (auto simp: host_ok_def)
  then have "sources_ok n len h'" by (rule sources_ok_mono) (use same none in auto)
  moreover have "refs_ok h'" using ok same by (simp add: host_ok_def refs_ok_def)
  ultimately show "host_ok n h'" by (auto simp: host_ok_def)
qed

lemma put_bytes_ok:
  assumes ok: "host_ok n h" and p: "put_bytes offset len object h = (h', r)"
  shows "host_ok n h' \<and> ho_sources h' = ho_sources h \<and> ho_heap h' = ho_heap h"
proof (cases "h' = h")
  case True
  with ok show ?thesis by simp
next
  case False
  then obtain bs where object: "object = ArrayBuffer bs" using p by (cases object) (auto simp: put_bytes_def)
  define k where "k = Suc (ho_next_upload h)"
  have k: "k = Suc (ho_next_upload h)" "r = Inr k" "offset + len \<le> length bs"
      "len \<le> UPLOAD_LIMIT" "length (ho_uploads h) < 128" "saturating_add (store_memory h) len \<le> DOCUMENT_LIMIT"
    and h': "h' = h\<lparr>ho_next_upload := k, ho_uploads := bt_insert k (take len (drop offset bs)) (ho_uploads h)\<rparr>"
    using p False unfolding object by (auto simp: put_bytes_def checked_add_def Let_def k_def split: if_splits)
  have key: "keyed (ho_uploads h)" and u: "uploads_ok h" using ok by (simp_all add: host_ok_def uploads_ok_def)
  have new: "map_of (ho_uploads h) k = None"
    using u k(1) by (fastforce simp: uploads_ok_def map_of_eq_None_iff)
  have l: "length (take len (drop offset bs)) = len" using k(3) by simp
  have "uploads_ok h'" using u k(1,4,5) l new unfolding uploads_ok_def h'
    by (auto simp: set_bt_insert [OF key] length_bt_insert [OF key])
  moreover have "uploads_memory h' = uploads_memory h + len"
    using sum_bt_insert [OF key, of "length \<circ> snd" k "take len (drop offset bs)"] new l
    by (simp add: uploads_memory_def h' comp_def)
  moreover have "uploads_memory h + sources_memory h + len \<le> DOCUMENT_LIMIT"
    using k(6) by (auto simp: saturating_add_def store_memory_def DOCUMENT_LIMIT_def u64_max_def)
  moreover have "sources_memory h' = sources_memory h" by (simp add: sources_memory_def h')
  moreover obtain len where "sources_ok n len h" using ok by (auto simp: host_ok_def)
  then have "sources_ok n len h'" by (rule sources_ok_mono) (use k(1) key in \<open>auto simp: h'\<close>)
  moreover have "refs_ok h'" using ok by (simp add: host_ok_def refs_ok_def h')
  ultimately have "host_ok n h'" by (auto simp: host_ok_def)
  then show ?thesis by (simp add: h')
qed

lemma put_ok: "host_ok n h \<Longrightarrow> put fx whole to_u64 object offset len h = (h', r) \<Longrightarrow>
    host_ok n h' \<and> ho_sources h' = ho_sources h \<and> ho_heap h' = ho_heap h"
  using put_bytes_ok by (fastforce simp: put_def split: sum.splits)

lemma release_ok: "host_ok n h \<Longrightarrow> release fx whole to_u64 v h = (h', r) \<Longrightarrow>
    host_ok n h' \<and> ho_sources h' = ho_sources h \<and> ho_heap h' = ho_heap h"
  using take_upload_ok(1) [of n h "Some k" for k]
  by (auto simp: release_def take_upload_def split: sum.splits)

section \<open>Commands\<close>

lemma update_source_ok:
  assumes ok: "host_ok n h" and k: "map_of (ho_sources h) k = Some r"
    and src: "sources_ok n len h" and p: "source_ok (Suc n) len' h k p"
    and same: "\<And>a. map_of (ho_uploads h) a = None \<Longrightarrow> a \<noteq> arc \<Longrightarrow> len' a = len a"
    and fresh: "\<And>k' r' q. (k', r') \<in> set (ho_sources h) \<Longrightarrow> r' \<noteq> r \<Longrightarrow> q \<in> all_packets (pr_buffers (ho_heap h ! r')) \<Longrightarrow> en_arc q \<noteq> arc"
    and mem: "pr_memory p \<le> pr_memory (ho_heap h ! r) + extra"
    and room: "sources_memory h + extra + 2 * uploads_memory h \<le> 2 * DOCUMENT_LIMIT"
  shows "host_ok (Suc n) (h\<lparr>ho_heap := (ho_heap h)[r := p]\<rparr>)"
proof -
  let ?h = "h\<lparr>ho_heap := (ho_heap h)[r := p]\<rparr>"
  have kr: "(k, r) \<in> set (ho_sources h)" using k by (rule map_of_SomeD)
  have refs: "distinct (map snd (ho_sources h))" "r < length (ho_heap h)" "refs_ok ?h"
    using ok kr by (auto simp: host_ok_def refs_ok_def)
  have "source_ok (Suc n) len' ?h k' (ho_heap ?h ! r')" if kr': "(k', r') \<in> set (ho_sources h)" for k' r'
  proof (cases "r' = r")
    case True
    with refs(1) kr kr' have "k' = k" by (metis (no_types) eq_key_imp_eq_value distinct_map inj_onD snd_conv prod.inject)
    with p True refs(2) show ?thesis by (simp add: source_ok_def)
  next
    case False
    have s: "source_ok n len h k' (ho_heap h ! r')" using src kr' by (auto simp: sources_ok_def)
    then have "\<forall>a\<in>en_arc ` all_packets (pr_buffers (ho_heap h ! r')). len' a = len a"
      using same fresh [OF kr' False] by (auto simp: source_ok_def)
    with s have "source_ok (Suc n) len' h k' (ho_heap h ! r')"
      using pr_ok_cong pr_ok_mono [of n len' _ "Suc n"] by (fastforce simp: source_ok_def)
    with False show ?thesis by (simp add: source_ok_def)
  qed
  then have "sources_ok (Suc n) len' ?h" using src by (auto simp: sources_ok_def)
  moreover have "sources_memory ?h + pr_memory (ho_heap h ! r) = sources_memory h + pr_memory p"
    using sum_heap_update [OF refs(1) kr refs(2), of pr_memory p] by (simp add: sources_memory_def)
  then have "sources_memory ?h + 2 * uploads_memory ?h \<le> 2 * DOCUMENT_LIMIT"
    using mem room by (simp add: uploads_memory_def)
  ultimately show ?thesis using ok refs(3) by (auto simp: host_ok_def uploads_ok_def)
qed

lemma nth_update_self: "i < length heap \<Longrightarrow> heap[r := f (heap ! r)] ! i = (if i = r then f (heap ! i) else heap ! i)"
  by (cases "i = r") simp_all

lemma sources_memory_cong:
  assumes "ho_sources h' = ho_sources h"
    and "\<And>x. x \<in> set (ho_sources h) \<Longrightarrow> pr_buffers (ho_heap h' ! snd x) = pr_buffers (ho_heap h ! snd x)"
  shows "sources_memory h' = sources_memory h"
proof -
  have "map (\<lambda>(_, r). pr_memory (ho_heap h' ! r)) (ho_sources h) = map (\<lambda>(_, r). pr_memory (ho_heap h ! r)) (ho_sources h)"
    using assms(2) pr_memory_cong by (auto simp: case_prod_unfold)
  then show ?thesis unfolding sources_memory_def assms(1) by (rule arg_cong)
qed

lemma host_ok_same_bytes:
  assumes ok: "host_ok n h" and heap: "length heap = length (ho_heap h)"
    "\<And>i. i < length (ho_heap h) \<Longrightarrow> pr_buffers (heap ! i) = pr_buffers (ho_heap h ! i) \<and> pr_epoch (heap ! i) = pr_epoch (ho_heap h ! i)"
  shows "host_ok n (h\<lparr>ho_heap := heap\<rparr>)"
proof -
  obtain len where src: "sources_ok n len h" using ok by (auto simp: host_ok_def)
  have r: "snd x < length (ho_heap h)" if "x \<in> set (ho_sources h)" for x using ok that by (auto simp: host_ok_def refs_ok_def)
  have "source_ok n len (h\<lparr>ho_heap := heap\<rparr>) (fst x) (heap ! snd x)" if "x \<in> set (ho_sources h)" for x
    using src that heap(2) [OF r [OF that]] pr_memory_cong [of "heap ! snd x" "ho_heap h ! snd x"]
    by (auto simp: sources_ok_def source_ok_def pr_ok_def)
  then have "sources_ok n len (h\<lparr>ho_heap := heap\<rparr>)" using src by (simp add: sources_ok_def)
  moreover have "sources_memory (h\<lparr>ho_heap := heap\<rparr>) = sources_memory h"
    using r heap(2) by (intro sources_memory_cong) auto
  ultimately show ?thesis using ok heap(1) by (auto simp: host_ok_def refs_ok_def uploads_ok_def uploads_memory_def)
qed

lemma forget_source_ok: "host_ok n h \<Longrightarrow> host_ok n (h\<lparr>ho_sources := bt_remove k (ho_sources h)\<rparr>)"
proof -
  assume ok: "host_ok n h"
  then have key: "keyed (ho_sources h)" by (simp add: host_ok_def refs_ok_def)
  let ?h = "h\<lparr>ho_sources := bt_remove k (ho_sources h)\<rparr>"
  have "sources_memory ?h \<le> sources_memory h"
    using sum_bt_remove [OF key, of "\<lambda>(_, r). pr_memory (ho_heap h ! r)" k] by (simp add: sources_memory_def)
  moreover have "distinct (map snd (bt_remove k (ho_sources h)))"
    using ok by (auto simp: host_ok_def refs_ok_def bt_remove_def intro!: distinct_map_filter)
  ultimately show ?thesis using ok length_bt_remove [of k "ho_sources h"] key
    by (fastforce simp: host_ok_def refs_ok_def sources_ok_def source_ok_def set_bt_remove uploads_ok_def uploads_memory_def)
qed

lemma op_close_ok:
  assumes "host_ok n h"
  shows "host_ok n (op_close rq h)"
proof (cases "map_of (ho_sources h) (mr_source rq)")
  case (Some r)
  let ?h = "h\<lparr>ho_sources := bt_remove (mr_source rq) (ho_sources h)\<rparr>"
  have "host_ok n (?h\<lparr>ho_heap := (ho_heap h)[r := (ho_heap h ! r)\<lparr>pr_closed := True\<rparr>]\<rparr>)"
    by (rule host_ok_same_bytes [OF forget_source_ok [OF assms]]) (auto simp: nth_update_self [where f = "pr_closed_update (\<lambda>_. True)"])
  with Some show ?thesis by (simp add: op_close_def)
qed (use assms in \<open>simp add: op_close_def\<close>)

lemma drop_heap:
  "length (fold (\<lambda>(_, r) heap. heap[r := (heap ! r)\<lparr>pr_closed := True\<rparr>]) m heap) = length heap
   \<and> (\<forall>i<length heap. pr_buffers (fold (\<lambda>(_, r) heap. heap[r := (heap ! r)\<lparr>pr_closed := True\<rparr>]) m heap ! i) = pr_buffers (heap ! i)
        \<and> pr_epoch (fold (\<lambda>(_, r) heap. heap[r := (heap ! r)\<lparr>pr_closed := True\<rparr>]) m heap ! i) = pr_epoch (heap ! i))"
proof (induction m arbitrary: heap)
  case (Cons x m)
  obtain k r where x: "x = (k, r)" by (rule prod.exhaust)
  from Cons [of "heap[r := (heap ! r)\<lparr>pr_closed := True\<rparr>]"] x show ?case
    by (auto simp: nth_update_self [where f = "pr_closed_update (\<lambda>_. True)"])
qed simp

lemma drop_host_ok: "host_ok n h \<Longrightarrow> host_ok n (drop_host h)"
  using host_ok_same_bytes [of n h] drop_heap [of "ho_sources h" "ho_heap h"] unfolding drop_host_def by blast

lemma op_open_ok:
  assumes ok: "host_ok n h" and o: "op_open fx rq h = (h', r)"
  shows "host_ok n h'"
proof (cases "h' = h")
  case False
  then have h': "h' = h\<lparr>ho_sources := bt_insert (mr_source rq) (length (ho_heap h)) (ho_sources h), ho_heap := ho_heap h @ [new_presentation fx]\<rparr>"
    and c: "0 < mr_source rq" "mr_source rq \<le> MAX_ID" "map_of (ho_sources h) (mr_source rq) = None" "length (ho_sources h) < 32"
    using o by (auto simp: op_open_def split: if_splits)
  have key: "keyed (ho_sources h)" and refs: "\<And>x. x \<in> set (ho_sources h) \<Longrightarrow> snd x < length (ho_heap h)"
    and dist: "distinct (map snd (ho_sources h))"
    using ok by (auto simp: host_ok_def refs_ok_def)
  note mem = set_bt_insert [OF key, of "mr_source rq" "length (ho_heap h)"]
  have "length (ho_heap h) \<notin> snd ` set (ho_sources h)" using refs by fastforce
  then have "refs_ok h'" using key refs distinct_bt_insert [OF dist] by (auto simp: refs_ok_def h' mem less_Suc_eq)
  moreover obtain len where src: "sources_ok n len h" using ok by (auto simp: host_ok_def)
  have new: "source_ok n len h' k (new_presentation fx)" if "0 < k" "k \<le> MAX_ID" for k
    using that by (auto simp: source_ok_def pr_ok_def buffers_ok_def new_presentation_def exclusive_def all_packets_def pr_memory_def)
  have "source_ok n len h' (fst x) (ho_heap h' ! snd x)" if "x \<in> set (ho_sources h')" for x
  proof (cases "x = (mr_source rq, length (ho_heap h))")
    case True
    with new [OF c(1,2)] show ?thesis by (simp add: h')
  next
    case False
    with that have x: "x \<in> set (ho_sources h)" by (auto simp: h' mem)
    then have "source_ok n len h (fst x) (ho_heap h ! snd x)" using src by (simp add: sources_ok_def)
    with refs [OF x] show ?thesis by (simp add: source_ok_def h' nth_append)
  qed
  then have "sources_ok n len h'" using src c(3,4) by (simp add: sources_ok_def h' length_bt_insert [OF key])
  moreover have "sources_memory h' = sources_memory h"
  proof -
    have "sources_memory h' = sum_list (map (\<lambda>(_, r). pr_memory (ho_heap h' ! r)) (ho_sources h))"
      using sum_bt_insert [OF key, of "\<lambda>(_, r). pr_memory (ho_heap h' ! r)" "mr_source rq" "length (ho_heap h)"] c(3)
      by (simp add: sources_memory_def h' pr_memory_def new_presentation_def)
    also have "\<dots> = sources_memory (h'\<lparr>ho_sources := ho_sources h\<rparr>)" by (simp add: sources_memory_def)
    also have "\<dots> = sources_memory h" by (rule sources_memory_cong) (simp_all add: h' nth_append refs)
    finally show ?thesis .
  qed
  ultimately show ?thesis using ok by (auto simp: host_ok_def h' uploads_ok_def uploads_memory_def)
qed (use ok in simp)

lemma host_control_ok:
  assumes ok: "host_ok n h0" and c: "host_control mp4 fx rq h0 = Some (h', r)"
  shows "host_ok (Suc n) h'"
proof -
  obtain up h where t: "take_upload (mr_handle rq) h0 = (up, h)" by (rule prod.exhaust)
  note h = take_upload_ok [OF ok t]
  have mono: "host_ok (Suc n) g" if "host_ok n g" for g :: "'a host"
    using that sources_ok_mono [of n _ g "Suc n" g] by (auto simp: host_ok_def)
  consider (opened) "op_open fx rq h = (h', r)" | (closed) "h' = op_close rq h" | (same) "h' = h"
    | (step) k p p' q where "map_of (ho_sources h) (mr_source rq) = Some k" "p = ho_heap h ! k" "perform mp4 fx up rq p = Some (p', q)"
        "h' = h\<lparr>ho_heap := (ho_heap h)[k := p']\<rparr>"
    using c t by (auto simp: host_control_def split: if_splits option.splits bind_splits)
  then show ?thesis
  proof cases
    case opened
    then show ?thesis using mono op_open_ok [OF h(1)] by blast
  next
    case closed
    then show ?thesis using mono op_close_ok [OF h(1)] by blast
  next
    case same
    then show ?thesis using mono h(1) by simp
  next
    case step
    obtain len where src: "sources_ok n len h" using h(1) by (auto simp: host_ok_def)
    have kr: "(mr_source rq, k) \<in> set (ho_sources h)" using step(1) by (rule map_of_SomeD)
    then have p: "source_ok n len h (mr_source rq) p" using src step(2) by (auto simp: sources_ok_def)
    then have pr: "pr_ok n len p" by (simp add: source_ok_def)
    have room: "sources_memory h + 2 * uploads_memory h \<le> 2 * DOCUMENT_LIMIT" using h(1) by (simp add: host_ok_def)
    show ?thesis
    proof (cases up)
      case None
      from perform_tame [OF pr step(3)] None have "tame n len p p'" by simp
      then have "source_ok (Suc n) len h (mr_source rq) p'" "pr_memory p' \<le> pr_memory (ho_heap h ! k) + 0"
        using p step(2) by (auto simp: tame_def source_ok_def)
      from update_source_ok [OF h(1) step(1) src this(1) _ _ this(2), of "Suc (ho_next_upload h)"] room step(4) src
      show ?thesis by (force simp: sources_ok_def source_ok_def)
    next
      case (Some x)
      obtain arc bs where x: "x = (arc, bs)" by (rule prod.exhaust)
      note u = h(5) [OF Some [unfolded x]]
      have used: "en_arc q \<noteq> arc" if "(k', r') \<in> set (ho_sources h0)" "q \<in> all_packets (pr_buffers (ho_heap h0 ! r'))" for k' r' q
        using ok u that by (fastforce simp: host_ok_def sources_ok_def source_ok_def)
      have fresh: "arc \<notin> en_arc ` all_packets (pr_buffers p)" using used kr h(2,3) step(2) by auto
      obtain len' where g: "\<forall>a. a \<noteq> arc \<longrightarrow> len' a = len a" "pr_ok (Suc n) len' p'" "pr_memory p' \<le> pr_memory p + 2 * length bs"
        "en_arc ` all_packets (pr_buffers p') \<subseteq> insert arc (en_arc ` all_packets (pr_buffers p))"
        using perform_grown [OF pr step(3) [unfolded Some x]] u fresh by (auto simp: grown_def)
      have "source_ok (Suc n) len' h (mr_source rq) p'"
        using p g(2,4) u h(4) unfolding source_ok_def by fastforce
      moreover have "sources_memory h = sources_memory h0" using h(2,3) by (simp add: sources_memory_def)
      then have "sources_memory h + 2 * length bs + 2 * uploads_memory h \<le> 2 * DOCUMENT_LIMIT"
        using ok u by (simp add: host_ok_def)
      ultimately show ?thesis
        unfolding step(4) using g(1,3) used h(2,3) step(2)
        by (intro update_source_ok [OF h(1) step(1) src, where len' = len' and arc = arc and extra = "2 * length bs"]) auto
    qed
  qed
qed

section \<open>Runs\<close>

text \<open>A native call of the page, or the document going away.\<close>

inductive mse_step ::
  "mp4_parser \<Rightarrow> ('f, 'e) f64_ops_scheme \<Rightarrow> (str \<Rightarrow> 'f mse_request option) \<Rightarrow> ('f \<Rightarrow> bool) \<Rightarrow> ('f \<Rightarrow> nat) \<Rightarrow> 'f host \<Rightarrow> 'f host \<Rightarrow> bool"
  for mp4 fx parse whole to_u64 where
  put_step: "put fx whole to_u64 object offset len h = (h', r) \<Longrightarrow> mse_step mp4 fx parse whole to_u64 h h'"
| release_step: "release fx whole to_u64 v h = (h', r') \<Longrightarrow> mse_step mp4 fx parse whole to_u64 h h'"
| control_step: "control mp4 fx parse text h = Some (h', r'') \<Longrightarrow> mse_step mp4 fx parse whole to_u64 h h'"
| drop_step: "mse_step mp4 fx parse whole to_u64 h (drop_host h)"

inductive mse_run ::
  "mp4_parser \<Rightarrow> ('f, 'e) f64_ops_scheme \<Rightarrow> (str \<Rightarrow> 'f mse_request option) \<Rightarrow> ('f \<Rightarrow> bool) \<Rightarrow> ('f \<Rightarrow> nat) \<Rightarrow> nat \<Rightarrow> 'f host \<Rightarrow> bool"
  for mp4 fx parse whole to_u64 where
  run_start: "mse_run mp4 fx parse whole to_u64 0 new_host"
| run_step: "mse_run mp4 fx parse whole to_u64 n h \<Longrightarrow> mse_step mp4 fx parse whole to_u64 h h' \<Longrightarrow> mse_run mp4 fx parse whole to_u64 (Suc n) h'"

lemma host_ok_mono: "host_ok n h \<Longrightarrow> host_ok (Suc n) h"
  using sources_ok_mono [of n _ h "Suc n" h] by (auto simp: host_ok_def)

lemma control_ok: "host_ok n h \<Longrightarrow> control mp4 fx parse text h = Some (h', r) \<Longrightarrow> host_ok (Suc n) h'"
  using host_control_ok host_ok_mono by (fastforce simp: control_def split: option.splits)

lemma mse_step_ok: "mse_step mp4 fx parse whole to_u64 h h' \<Longrightarrow> host_ok n h \<Longrightarrow> host_ok (Suc n) h'"
  by (induction rule: mse_step.induct) (blast dest: put_ok release_ok control_ok drop_host_ok host_ok_mono)+

lemma mse_run_ok: "mse_run mp4 fx parse whole to_u64 n h \<Longrightarrow> host_ok n h"
  by (induction rule: mse_run.induct) (blast intro: new_host_ok mse_step_ok)+

end
