(* ===== verification/Mse_Claims.thy ===== *)
theory Mse_Claims
  imports Mse_Sound
begin

text \<open>
  What a page can and cannot do to its media sources (\<^verbatim>\<open>src/apps/chuzz/src/video/mse.rs\<close>), stated over runs of native calls.
\<close>

section \<open>Concrete runs\<close>

text \<open>A script engine whose numbers are integers and whose commands are one fixed request.\<close>

definition int_ops :: "int f64_ops" where
  "int_ops = \<lparr>fl_of_int = id, fl_add = (+), fl_div = (div), fx_lt = (<), fx_le = (\<le>), fx_total_le = (\<le>), fx_eq = (=),
     fx_finite = (\<lambda>x. \<bar>x\<bar> < 10 ^ 20), fx_nan = (\<lambda>x. x = 10 ^ 20 + 1), fx_infinite = (\<lambda>x. x = 10 ^ 20), fx_max = max, fx_min = min,
     fx_sub = (-), fx_zero = 0, fx_infinity = 10 ^ 20, fx_nan_value = 10 ^ 20 + 1, fx_slack = 0\<rparr>"

definition request :: "str \<Rightarrow> int mse_request" where
  "request op = \<lparr>mr_op = op, mr_source = 1, mr_buffer = 0, mr_mime = [], mr_handle = None, mr_value = None, mr_start = 0, mr_end = None,
     mr_timestamp_offset = 0, mr_window_start = 0, mr_window_end = None, mr_sequence = False, mr_error = []\<rparr>"

definition parse_op :: "str \<Rightarrow> int mse_request option" where
  "parse_op text = Some (request text)"

section \<open>Limits\<close>

lemma exclusiveD:
  "exclusive m \<Longrightarrow> x \<in> set m \<Longrightarrow> y \<in> set m \<Longrightarrow> fst x \<noteq> fst y \<Longrightarrow> \<not> same_kind (bu_mime (snd x)) (bu_mime (snd y))"
  unfolding exclusive_def by (metis prod.collapse)

lemma buffer_limits:
  assumes "pr_ok n len p"
  shows "length (pr_buffers p) \<le> 2" "pr_memory p \<le> 128 * 1024 * 1024"
    "length (filter (mi_video \<circ> bu_mime \<circ> snd) (pr_buffers p)) \<le> 1" "length (filter (mi_audio \<circ> bu_mime \<circ> snd) (pr_buffers p)) \<le> 1"
  using assms
proof -
  have ex: "exclusive (pr_buffers p)" "keyed (pr_buffers p)" using assms by (auto simp: pr_ok_def buffers_ok_def)
  show "length (pr_buffers p) \<le> 2" "pr_memory p \<le> 128 * 1024 * 1024"
    using assms by (auto simp: pr_ok_def buffers_ok_def SOURCE_LIMIT_def)
  have one: "length (filter P m) \<le> 1" if "\<And>x y. x \<in> set m \<Longrightarrow> y \<in> set m \<Longrightarrow> fst x \<noteq> fst y \<Longrightarrow> \<not> (P x \<and> P y)" "keyed m"
    for P :: "nat \<times> 'a buffer \<Rightarrow> bool" and m
    using that
  proof (induction m)
    case (Cons x m)
    have "filter P m = []" if "P x"
    proof -
      have "\<not> P y" if y: "y \<in> set m" for y
      proof -
        have "fst x \<noteq> fst y" using Cons.prems(2) y by (cases x) auto
        with Cons.prems(1) [of x y] y \<open>P x\<close> show ?thesis by simp
      qed
      then show ?thesis by (simp add: filter_empty_conv)
    qed
    moreover have "length (filter P m) \<le> 1"
    proof (rule Cons.IH)
      show "keyed m" using Cons.prems(2) by (cases x) simp
    qed (rule Cons.prems(1), auto)
    ultimately show ?case by simp
  qed simp
  show "length (filter (mi_video \<circ> bu_mime \<circ> snd) (pr_buffers p)) \<le> 1"
    by (rule one [OF _ ex(2)]) (drule (2) exclusiveD [OF ex(1)], simp add: same_kind_def)
  show "length (filter (mi_audio \<circ> bu_mime \<circ> snd) (pr_buffers p)) \<le> 1"
    by (rule one [OF _ ex(2)]) (drule (2) exclusiveD [OF ex(1)], simp add: same_kind_def)
qed

lemma readable_data: "readable p \<Longrightarrow> \<exists>d. data (encoded.truncate p) = Inr d \<and> length d = sm_size (en_sample p)"
  by (simp add: readable_def data_def subslice_def encoded.truncate_def)

text \<open>
  C19. The resource limits of media sources hold in every run. Whatever native calls a page makes, in any order and with any arguments, a
  document has at most 32 sources; each has at most two buffers, of which at most one for video and one for audio, and holds at most 128 MiB; every
  packet of every buffer can be read and has as many bytes as it says; at most 128 uploads of at most 16 MiB each wait;
  and all of it together is at most 512 MiB, twice the document limit, which only uploads are checked against.
\<close>

theorem mse_limits_hold:
  assumes "mse_run mp4 fx parse whole to_u64 n h"
  shows "length (ho_sources h) \<le> 32 \<and> length (ho_uploads h) \<le> 128 \<and> (\<forall>(_, bs)\<in>set (ho_uploads h). length bs \<le> 16 * 1024 * 1024)
    \<and> store_memory h \<le> 2 * (256 * 1024 * 1024)
    \<and> (\<forall>(_, r)\<in>set (ho_sources h). let p = ho_heap h ! r in
         length (pr_buffers p) \<le> 2 \<and> pr_memory p \<le> 128 * 1024 * 1024
         \<and> length (filter (mi_video \<circ> bu_mime \<circ> snd) (pr_buffers p)) \<le> 1 \<and> length (filter (mi_audio \<circ> bu_mime \<circ> snd) (pr_buffers p)) \<le> 1
         \<and> (\<forall>(_, b)\<in>set (pr_buffers p). \<forall>q\<in>set (bu_video b @ bu_audio b).
              \<exists>d. data (encoded.truncate q) = Inr d \<and> length d = sm_size (en_sample q)))"
proof -
  have ok: "host_ok n h" using assms by (rule mse_run_ok)
  obtain len where src: "sources_ok n len h" using ok by (auto simp: host_ok_def)
  have one: "let p = ho_heap h ! r in
      length (pr_buffers p) \<le> 2 \<and> pr_memory p \<le> 128 * 1024 * 1024
      \<and> length (filter (mi_video \<circ> bu_mime \<circ> snd) (pr_buffers p)) \<le> 1 \<and> length (filter (mi_audio \<circ> bu_mime \<circ> snd) (pr_buffers p)) \<le> 1
      \<and> (\<forall>(_, b)\<in>set (pr_buffers p). \<forall>q\<in>set (bu_video b @ bu_audio b).
           \<exists>d. data (encoded.truncate q) = Inr d \<and> length d = sm_size (en_sample q))"
    if "(k, r) \<in> set (ho_sources h)" for k r
  proof -
    have p: "pr_ok n len (ho_heap h ! r)" using src that by (auto simp: sources_ok_def source_ok_def)
    have "readable q" if "(j, b) \<in> set (pr_buffers (ho_heap h ! r))" "q \<in> packets b" for j b q
      using p buffers_ok_mem [OF _ that(1) order_refl] that(2) by (auto simp: pr_ok_def buffer_ok_def)
    then show ?thesis unfolding Let_def using buffer_limits [OF p] readable_data by (fastforce simp: packets_def)
  qed
  have "store_memory h \<le> 2 * (256 * 1024 * 1024)" using ok by (simp add: host_ok_def store_memory_def DOCUMENT_LIMIT_def)
  moreover have "length (ho_sources h) \<le> 32" using src by (simp add: sources_ok_def)
  ultimately show ?thesis using ok one by (auto simp: host_ok_def uploads_ok_def UPLOAD_LIMIT_def)
qed

text \<open>One source, opened.\<close>

definition opened :: "int host" where
  "opened = \<lparr>ho_sources = [(1, 0)], ho_uploads = [], ho_next_upload = 0, ho_heap = [new_presentation int_ops]\<rparr>"

lemma open_opens: "control mp4 int_ops parse_op (S ''open'') new_host = Some (opened, Inr Empty)"
  by (simp add: control_def parse_op_def host_control_def take_upload_def request_def op_open_def new_host_def opened_def MAX_ID_def)

lemma opened_run: "mse_run mp4 int_ops parse_op whole convert 1 opened"
  using run_step [OF run_start control_step [OF open_opens]] by simp

theorem mse_limits_hold_witness:
  "mse_run (\<lambda>_. Inl []) int_ops parse_op (\<lambda>_. True) nat 1 opened \<and> length (ho_sources opened) = 1 \<and> store_memory opened \<le> 2 * (256 * 1024 * 1024)"
  using mse_limits_hold [OF opened_run [of "\<lambda>_. Inl []" "\<lambda>_. True" nat]] opened_run [of "\<lambda>_. Inl []" "\<lambda>_. True" nat] by (simp add: opened_def)

section \<open>No panic\<close>

text \<open>
  C20. No command panics. In every run of fewer than \<open>2\<^sup>39\<close> native calls, every command returns: the indexer takes no
  slice out of range, no position and no epoch overflows.
\<close>

theorem mse_never_panics:
  assumes run: "mse_run mp4 fx parse whole to_u64 n h" and n: "n < 2 ^ 39"
  shows "control mp4 fx parse text h \<noteq> None"
proof (cases "parse text")
  case (Some rq)
  have ok: "host_ok n h" using run by (rule mse_run_ok)
  obtain up h1 where t: "take_upload (mr_handle rq) h = (up, h1)" by (rule prod.exhaust)
  note h1 = take_upload_ok [OF ok t]
  obtain len where src: "sources_ok n len h1" using h1(1) by (auto simp: host_ok_def)
  have "perform mp4 fx up rq (ho_heap h1 ! r) \<noteq> None" if r: "map_of (ho_sources h1) (mr_source rq) = Some r" for r
  proof (rule perform_returns [OF _ n])
    show "pr_ok n len (ho_heap h1 ! r)" using src map_of_SomeD [OF r] by (auto simp: sources_ok_def source_ok_def)
    show "length bs \<le> UPLOAD_LIMIT" if "up = Some (arc, bs)" for arc bs using h1(5) [OF that] by simp
  qed
  then show ?thesis using Some t by (auto simp: control_def host_control_def split: option.split)
qed (simp add: control_def)

theorem mse_never_panics_witness: "control (\<lambda>_. Inl []) int_ops parse_op (S ''end'') opened \<noteq> None"
  by (rule mse_never_panics [OF opened_run [where whole = "\<lambda>_. True" and convert = nat]]) simp

section \<open>Refusals\<close>

text \<open>
  A command that is refused changes no presentation. Whatever a command that is answered with an error was, the attached sources and
  every presentation are as they were, and of the uploads only the one it named is gone; an append that fails half-way, for its bytes or for
  the quota, leaves the buffer it found. The one exception is \<open>end\<close>.
\<close>

theorem mse_refusal_changes_nothing:
  assumes run: "mse_run mp4 fx parse whole to_u64 n h" and rq: "parse text = Some rq" "mr_op rq \<noteq> S ''end''"
    and refused: "control mp4 fx parse text h = Some (h', Inl e)"
  shows "ho_sources h' = ho_sources h \<and> ho_heap h' = ho_heap h \<and> ho_next_upload h' = ho_next_upload h
    \<and> ho_uploads h' = (case mr_handle rq of None \<Rightarrow> ho_uploads h | Some k \<Rightarrow> bt_remove k (ho_uploads h))"
proof -
  have ok: "host_ok n h" using run by (rule mse_run_ok)
  obtain up h1 where t: "take_upload (mr_handle rq) h = (up, h1)" by (rule prod.exhaust)
  note h1 = take_upload_ok [OF ok t]
  obtain len where src: "sources_ok n len h1" using h1(1) by (auto simp: host_ok_def)
  have "h' = h1"
  proof (cases "map_of (ho_sources h1) (mr_source rq)")
    case None
    with refused t rq(1) show ?thesis by (auto simp: control_def host_control_def op_open_def split: if_splits)
  next
    case (Some r)
    have key: "keyed (pr_buffers (ho_heap h1 ! r))"
      using src map_of_SomeD [OF Some] by (auto simp: sources_ok_def source_ok_def pr_ok_def buffers_ok_def)
    have same: "p = ho_heap h1 ! r" if "perform mp4 fx up rq (ho_heap h1 ! r) = Some (p, Inl e)" for p
      using perform_refused [OF key that rq(2)] .
    consider "mr_op rq = S ''open''" | "mr_op rq = S ''close''" | "mr_op rq \<noteq> S ''open''" "mr_op rq \<noteq> S ''close''" by blast
    then show ?thesis
    proof cases
      case 1
      with refused t rq(1) show ?thesis by (auto simp: control_def host_control_def op_open_def split: if_splits)
    next
      case 2
      have "S ''close'' \<noteq> S ''open''" by (simp add: S_def)
      with 2 refused t rq(1) show ?thesis by (simp add: control_def host_control_def)
    next
      case 3
      then obtain p q where p: "perform mp4 fx up rq (ho_heap h1 ! r) = Some (p, q)"
          "h' = h1\<lparr>ho_heap := (ho_heap h1)[r := p]\<rparr>" "(case q of Inl e \<Rightarrow> Inl e | Inr _ \<Rightarrow> Inr (Reply (pr_reply fx (mr_buffer rq) p))) = Inl e"
        using refused t rq(1) Some
        by (cases "perform mp4 fx up rq (ho_heap h1 ! r)") (auto simp: control_def host_control_def)
      then have "q = Inl e" by (cases q) auto
      then have q: "p = ho_heap h1 ! r" using same p(1) by blast
      show ?thesis unfolding p(2) q list_update_id by (rule host.equality) simp_all
    qed
  qed
  moreover have "ho_uploads h1 = (case mr_handle rq of None \<Rightarrow> ho_uploads h | Some k \<Rightarrow> bt_remove k (ho_uploads h))"
    using t by (cases "mr_handle rq") (auto simp: take_upload_def)
  ultimately show ?thesis using h1(2,3,4) by metis
qed

theorem mse_refusal_changes_nothing_witness:
  "\<exists>h'. control (\<lambda>_. Inl []) int_ops parse_op (S ''delete'') opened = Some (h', Inl (err_state ''SourceBuffer was removed''))
     \<and> ho_heap h' = ho_heap opened"
proof -
  have n: "S ''delete'' \<noteq> S ''open''" "S ''delete'' \<noteq> S ''close''" "S ''delete'' \<noteq> S ''info''" "S ''delete'' \<noteq> S ''add''" "S ''delete'' \<noteq> S ''end''"
    by (simp_all add: S_def)
  obtain h' where c: "control (\<lambda>_. Inl []) int_ops parse_op (S ''delete'') opened = Some (h', Inl (err_state ''SourceBuffer was removed''))"
    using n by (simp add: control_def parse_op_def host_control_def take_upload_def request_def opened_def perform_def op_delete_def
        refuse_def new_presentation_def)
  have "parse_op (S ''delete'') = Some (request (S ''delete''))" "mr_op (request (S ''delete'')) \<noteq> S ''end''"
    using n by (simp_all add: parse_op_def request_def)
  from mse_refusal_changes_nothing [OF opened_run [where whole = "\<lambda>_. True" and convert = nat] this c] c show ?thesis by blast
qed

text \<open>\<open>end\<close> with an error that is none it knows answers with an error after the source has ended.\<close>

lemma refused_end_ends_source:
  assumes "\<not> pr_ended p" and "pr_ready p" and "mr_error rq \<notin> {S [], S ''network'', S ''decode''}"
    and "\<forall>(_, b)\<in>set (pr_buffers p). pending_bytes (bu_parser b) = 0 \<and> \<not> fragment_pending (bu_parser b)"
  shows "op_end fx rq p = Some (p\<lparr>pr_ended := True, pr_duration := pr_end fx p\<rparr>, Inl (err_state ''invalid endOfStream error''))"
  using assms by (auto simp: op_end_def outcome_defs Let_def list_ex_iff)

section \<open>Closing\<close>

text \<open>A presentation that no source refers to any more.\<close>

definition detached :: "nat \<Rightarrow> 'f presentation \<Rightarrow> 'f host \<Rightarrow> bool" where
  "detached r p h \<longleftrightarrow> r < length (ho_heap h) \<and> r \<notin> snd ` set (ho_sources h) \<and> ho_heap h ! r = p"

lemma detached_cong: "detached r p h \<Longrightarrow> ho_sources h' = ho_sources h \<Longrightarrow> ho_heap h' = ho_heap h \<Longrightarrow> detached r p h'"
  by (simp add: detached_def)

lemma detached_update: "detached r p h \<Longrightarrow> (k, r') \<in> set (ho_sources h) \<Longrightarrow> detached r p (h\<lparr>ho_heap := (ho_heap h)[r' := p']\<rparr>)"
  by (cases "r = r'") (force simp: detached_def)+

lemma detached_open:
  assumes "detached r p h" and "op_open fx rq h = (h', q)"
  shows "detached r p h'"
  using assms by (auto simp: detached_def op_open_def nth_append dest!: bt_insert_mem split: if_splits)

lemma detached_close:
  assumes d: "detached r p h"
  shows "detached r p (op_close rq h)"
proof (cases "map_of (ho_sources h) (mr_source rq)")
  case (Some r')
  from detached_update [OF d map_of_SomeD [OF Some], of "(ho_heap h ! r')\<lparr>pr_closed := True\<rparr>"] Some
  show ?thesis by (auto simp: detached_def op_close_def set_bt_remove)
qed (use d in \<open>simp add: op_close_def\<close>)

lemma detached_drop:
  assumes "detached r p h"
  shows "detached r p (drop_host h)"
proof -
  have "fold (\<lambda>(_, r) heap. heap[r := (heap ! r)\<lparr>pr_closed := True\<rparr>]) m heap ! r = heap ! r" if "r \<notin> snd ` set m" for m heap
    using that by (induction m arbitrary: heap) auto
  with assms drop_heap [of "ho_sources h" "ho_heap h"] show ?thesis by (auto simp: detached_def drop_host_def)
qed

lemma detached_control:
  assumes d: "detached r p h" and c: "control mp4 fx parse text h = Some (h', q)"
  shows "detached r p h'"
proof (cases "parse text")
  case (Some rq)
  obtain up h1 where t: "take_upload (mr_handle rq) h = (up, h1)" by (rule prod.exhaust)
  have d1: "detached r p h1" using t by (intro detached_cong [OF d]) (auto simp: take_upload_def split: option.splits)
  consider "op_open fx rq h1 = (h', q)" | "h' = op_close rq h1" | "h' = h1"
    | k p' where "map_of (ho_sources h1) (mr_source rq) = Some k" "h' = h1\<lparr>ho_heap := (ho_heap h1)[k := p']\<rparr>"
    using c t Some by (auto simp: control_def host_control_def split: if_splits option.splits bind_splits)
  then show ?thesis
  proof cases
    case 1
    then show ?thesis by (rule detached_open [OF d1])
  next
    case 2
    then show ?thesis using detached_close [OF d1] by simp
  next
    case 3
    then show ?thesis using d1 by simp
  next
    case 4
    then show ?thesis using detached_update [OF d1 map_of_SomeD [OF 4(1)]] by simp
  qed
qed (use assms in \<open>simp add: control_def\<close>)

lemma detached_step: "mse_step mp4 fx parse whole to_u64 h h' \<Longrightarrow> detached r p h \<Longrightarrow> detached r p h'"
proof (induction rule: mse_step.induct)
  case (put_step object offset len h h' q)
  then show ?case by (intro detached_cong [OF put_step.prems]) (auto simp: put_def put_bytes_def Let_def split: sum.splits js_bytes.splits option.splits if_splits)
next
  case (release_step v h h' q)
  then show ?case by (intro detached_cong [OF release_step.prems]) (auto simp: release_def split: sum.splits)
qed (auto intro: detached_control detached_drop)

text \<open>
  A closed source is closed for good. Once a command closes a source, the presentation its decoders read says it is closed, its id can be attached
  again only to a new presentation, and no native call whatever changes anything in it ever again.
\<close>

theorem closed_source_is_final:
  assumes run: "mse_run mp4 fx parse whole to_u64 n h" and decoder: "host_decoder (mr_source rq) h = Inr r"
    and later: "(mse_step mp4 fx parse whole to_u64)\<^sup>*\<^sup>* (op_close rq h) h'"
  shows "ho_heap h' ! r = (ho_heap h ! r)\<lparr>pr_closed := True\<rparr> \<and> vw_closed (pr_view fx (ho_heap h' ! r))
    \<and> (\<forall>k. host_decoder k h' \<noteq> Inr r)"
proof -
  have refs: "refs_ok h" using mse_run_ok [OF run] by (simp add: host_ok_def)
  have k: "map_of (ho_sources h) (mr_source rq) = Some r" using decoder by (auto simp: host_decoder_def split: option.splits)
  have kr: "(mr_source rq, r) \<in> set (ho_sources h)" using k by (rule map_of_SomeD)
  have "inj_on snd (set (ho_sources h))" "r < length (ho_heap h)" using refs kr by (auto simp: refs_ok_def distinct_map)
  then have "fst x = mr_source rq" if "x \<in> set (ho_sources h)" "snd x = r" for x
    using that kr inj_onD [of snd "set (ho_sources h)" x "(mr_source rq, r)"] by simp
  then have "r \<notin> snd ` set (bt_remove (mr_source rq) (ho_sources h))" by (auto simp: set_bt_remove)
  then have "detached r ((ho_heap h ! r)\<lparr>pr_closed := True\<rparr>) (op_close rq h)"
    using k \<open>r < length (ho_heap h)\<close> by (simp add: detached_def op_close_def)
  with later have "detached r ((ho_heap h ! r)\<lparr>pr_closed := True\<rparr>) h'"
    by (induction rule: rtranclp_induct) (auto intro: detached_step)
  moreover have "host_decoder k h' \<noteq> Inr r" if "r \<notin> snd ` set (ho_sources h')" for k
    using that by (force simp: host_decoder_def dest: map_of_SomeD split: option.splits)
  ultimately show ?thesis by (simp add: detached_def pr_view_def Let_def)
qed

theorem closed_source_is_final_witness:
  "vw_closed (pr_view int_ops (ho_heap (op_close (request []) opened) ! 0)) \<and> host_decoder 1 (op_close (request []) opened) \<noteq> Inr 0"
proof -
  have "host_decoder (mr_source (request [])) opened = Inr 0" by (simp add: host_decoder_def opened_def request_def)
  from closed_source_is_final [OF opened_run [of "\<lambda>_. Inl []" "\<lambda>_. True" nat] this rtranclp.rtrancl_refl] show ?thesis by blast
qed

section \<open>Removing a range\<close>

lemma retain_video_full: "length (retain_video fx start stop d ps) = length ps \<Longrightarrow> retain_video fx start stop d ps = ps"
proof (induction ps arbitrary: d)
  case (Cons p ps)
  define e where "e = (overlaps fx start stop p \<or> d \<and> \<not> restarts fx stop p)"
  have c: "retain_video fx start stop d (p # ps) = (if e then [] else [p]) @ retain_video fx start stop e ps"
    unfolding e_def by (rule retain_video_Cons)
  with Cons.prems retain_video_sub(2) [of fx start stop e ps] have "\<not> e" "length (retain_video fx start stop e ps) = length ps"
    by (auto split: if_splits)
  with c Cons.IH [of e] show ?case by simp
qed simp

lemma filter_full: "length (filter P xs) = length xs \<Longrightarrow> filter P xs = xs"
  by (metis filter_True length_filter_less nat_less_le)

text \<open>
  A removal takes what cannot be decoded without it. Of the video packets, in decode order, exactly those go that overlap the range or come
  after one that does with no key frame from behind the range in between; those left keep their order. Of the audio
  packets exactly those go that overlap. Nothing else of the buffer changes, and the caller learns whether anything went.
\<close>

theorem removal_exact:
  "buffer_remove fx start stop b =
     (b\<lparr>bu_video := nths (bu_video b) {i. \<not> (\<exists>j\<le>i. overlaps fx start stop (bu_video b ! j) \<and> (\<forall>m. j < m \<and> m \<le> i \<longrightarrow> \<not> restarts fx stop (bu_video b ! m)))},
        bu_audio := filter (\<lambda>p. fx_le fx stop (pts p) \<or> fx_le fx (packet_end fx p) start) (bu_audio b)\<rparr>,
      snd (buffer_remove fx start stop b))
   \<and> (snd (buffer_remove fx start stop b) \<longleftrightarrow> fst (buffer_remove fx start stop b) \<noteq> b)"
proof -
  have v: "retain_video fx start stop False (bu_video b)
      = nths (bu_video b) {i. \<not> (\<exists>j\<le>i. overlaps fx start stop (bu_video b ! j) \<and> (\<forall>m. j < m \<and> m \<le> i \<longrightarrow> \<not> restarts fx stop (bu_video b ! m)))}"
    by (simp add: retain_video_nths lost_def)
  define bv where "bv = retain_video fx start stop False (bu_video b)"
  define ba where "ba = filter (\<lambda>p. fx_le fx stop (pts p) \<or> fx_le fx (packet_end fx p) start) (bu_audio b)"
  have r: "buffer_remove fx start stop b = (b\<lparr>bu_video := bv, bu_audio := ba\<rparr>, length (bu_video b) + length (bu_audio b) \<noteq> length bv + length ba)"
    by (simp add: buffer_remove_def Let_def bv_def ba_def)
  have "length bv \<le> length (bu_video b)" "length ba \<le> length (bu_audio b)"
    by (simp_all add: bv_def ba_def retain_video_sub(2) length_filter_le)
  moreover have "bv = bu_video b" if "length bv = length (bu_video b)" using retain_video_full that unfolding bv_def .
  moreover have "ba = bu_audio b" if "length ba = length (bu_audio b)" using filter_full that unfolding ba_def .
  ultimately have "length (bu_video b) + length (bu_audio b) \<noteq> length bv + length ba \<longleftrightarrow> \<not> (bv = bu_video b \<and> ba = bu_audio b)" by fastforce
  moreover have "b\<lparr>bu_video := bv, bu_audio := ba\<rparr> = b \<longleftrightarrow> bv = bu_video b \<and> ba = bu_audio b" by (cases b) simp
  ultimately show ?thesis unfolding r ba_def [symmetric] v [symmetric] bv_def [symmetric] by simp
qed

definition frame :: "int \<Rightarrow> bool \<Rightarrow> int packet" where
  "frame t key = \<lparr>en_track = 1, en_sample = \<lparr>sm_offset = 0, sm_size = 1, sm_dts = nat t, sm_delta = 1, sm_pts = t, sm_duration = 1, sm_sync = key\<rparr>,
     en_decode_time = t, en_bytes = [7], en_arc = 1\<rparr>"

definition three_frames :: "int buffer" where
  "three_frames = (new_buffer int_ops \<lparr>mi_video = True, mi_audio = False\<rparr>)\<lparr>bu_video := [frame 0 True, frame 1 False, frame 2 True]\<rparr>"

theorem removal_exact_witness:
  "bu_video (fst (buffer_remove int_ops 0 1 three_frames)) = [frame 2 True] \<and> fst (buffer_remove int_ops 0 1 three_frames) \<noteq> three_frames"
proof -
  have r: "buffer_remove int_ops 0 1 three_frames = (three_frames\<lparr>bu_video := [frame 2 True]\<rparr>, True)"
    by (simp add: buffer_remove_def Let_def three_frames_def new_buffer_def int_ops_def frame_def pts_def packet_end_def)
  have "snd (buffer_remove int_ops 0 1 three_frames) \<longleftrightarrow> fst (buffer_remove int_ops 0 1 three_frames) \<noteq> three_frames"
    by (rule removal_exact [THEN conjunct2])
  with r show ?thesis by simp
qed

end
