(* ===== verification/Sdp.thy ===== *)
theory Sdp
  imports Text_Ops
begin

text \<open>
  The session descriptions of peer connections (\<^verbatim>\<open>src/apps/chuzz/src/webrtc/sdp.rs\<close>): which descriptions the browser accepts, what it
  reads from them, and how it rewrites the ones the protocol library generates. A panic is \<open>None\<close>.
\<close>

section \<open>Data\<close>

definition SLOT_LIMIT :: nat where "SLOT_LIMIT = 32"

definition PROFILE :: str where "PROFILE = S ''42e01f''"

record description =
  de_type :: str
  de_sdp :: str

record audio_codec =
  ac_payload :: nat
  ac_opus :: bool
  ac_h264 :: bool
  ac_stereo :: bool
  ac_fec :: bool
  ac_cbr :: bool
  ac_bitrate :: "nat option"
  ac_fmtp :: str

definition codec_name :: "audio_codec \<Rightarrow> str" where
  "codec_name c = (if ac_h264 c then S ''h264'' else if ac_opus c then S ''opus'' else S ''pcmu'')"

record codec_view =
  cv_payload :: nat
  cv_mime :: str
  cv_rate :: nat
  cv_channels :: "nat option"
  cv_fmtp :: str

definition codec_parameters :: "audio_codec \<Rightarrow> codec_view" where
  "codec_parameters c =
     (if ac_h264 c
      then \<lparr>cv_payload = ac_payload c, cv_mime = S ''video/H264'', cv_rate = 90000, cv_channels = None, cv_fmtp = ac_fmtp c\<rparr>
      else \<lparr>cv_payload = ac_payload c, cv_mime = (if ac_opus c then S ''audio/opus'' else S ''audio/PCMU''),
             cv_rate = (if ac_opus c then 48000 else 8000), cv_channels = Some (if ac_opus c then 2 else 1), cv_fmtp = ac_fmtp c\<rparr>)"

record sdp_section =
  sc_video :: bool
  sc_mid :: str
  sc_direction :: str
  sc_stream :: "str option"
  sc_track :: "str option"
  sc_ufrag :: str
  sc_password :: str
  sc_fingerprint :: str
  sc_setup :: str
  sc_codecs :: "audio_codec list"

record codec_mapping =
  mp_payloads :: "nat list"
  mp_names :: "nat \<rightharpoonup> str"
  mp_formats :: "nat \<rightharpoonup> str"

section \<open>Codecs\<close>

definition payload :: "str \<Rightarrow> str + nat" where
  "payload v =
     (case parse_uint 255 v of
        Some n \<Rightarrow> if n \<le> 127 then Inr n else Inl (S ''OperationError: invalid audio payload type'')
      | None \<Rightarrow> Inl (S ''OperationError: invalid audio payload type''))"

definition mapping_attribute :: "codec_mapping \<Rightarrow> str \<Rightarrow> str + codec_mapping" where
  "mapping_attribute m line =
     (case (case strip_prefix line (S ''a=rtpmap:'') of
              Some v \<Rightarrow> Some (v, False)
            | None \<Rightarrow> (case strip_prefix line (S ''a=fmtp:'') of Some v \<Rightarrow> Some (v, True) | None \<Rightarrow> None)) of
        None \<Rightarrow> Inr m
      | Some (v, formats) \<Rightarrow>
          and_then (ok_or (split_once 32 v) (S ''OperationError: incomplete audio codec attribute'')) (\<lambda>(number, text).
          and_then (payload number) (\<lambda>n.
            if (if formats then mp_formats m else mp_names m) n \<noteq> None
            then Inl (S ''OperationError: duplicate audio codec attribute'')
            else Inr (if formats then m\<lparr>mp_formats := (mp_formats m)(n \<mapsto> trim text)\<rparr>
                      else m\<lparr>mp_names := (mp_names m)(n \<mapsto> trim text)\<rparr>))))"

text \<open>The parameters of a format line: what lies between semicolons.\<close>

definition format_entries :: "str \<Rightarrow> str list" where
  "format_entries fmtp = filter (\<lambda>e. e \<noteq> []) (map trim (split_on 59 fmtp))"

definition opus_parameter :: "str \<Rightarrow> str \<Rightarrow> audio_codec \<Rightarrow> str + audio_codec" where
  "opus_parameter key v c =
     (if key \<in> {S ''stereo'', S ''useinbandfec'', S ''cbr''} then
        and_then (if v = S ''0'' then Inr False else if v = S ''1'' then Inr True
                  else Inl (S ''OperationError: invalid Opus boolean parameter'')) (\<lambda>enabled.
          Inr (if key = S ''stereo'' then c\<lparr>ac_stereo := enabled\<rparr>
               else if key = S ''useinbandfec'' then c\<lparr>ac_fec := enabled\<rparr> else c\<lparr>ac_cbr := enabled\<rparr>))
      else if key = S ''maxaveragebitrate'' then
        (case parse_uint (2 ^ 32 - 1) v of
           Some rate \<Rightarrow> if 6000 \<le> rate \<and> rate \<le> 510000 then Inr (c\<lparr>ac_bitrate := Some rate\<rparr>)
                        else Inl (S ''OperationError: invalid Opus bitrate'')
         | None \<Rightarrow> Inl (S ''OperationError: invalid Opus bitrate''))
      else if key = S ''minptime'' then
        (case parse_uint (2 ^ 32 - 1) v of
           Some minimum \<Rightarrow> if 20 < minimum then Inl (S ''NotSupportedError: Opus sender uses 20 ms packets'') else Inr c
         | None \<Rightarrow> Inl (S ''OperationError: invalid Opus minptime''))
      else Inr c)"

fun opus_parameters :: "str list \<Rightarrow> str list \<Rightarrow> audio_codec \<Rightarrow> str + audio_codec" where
  "opus_parameters [] keys c = Inr c"
| "opus_parameters (entry # es) keys c =
     and_then (ok_or (split_once 61 entry) (S ''OperationError: incomplete Opus format parameter'')) (\<lambda>(k, v).
       let key = ascii_lower (trim k)
       in if key \<in> set keys then Inl (S ''OperationError: duplicate Opus format parameter'')
          else and_then (opus_parameter key (trim v) c) (opus_parameters es (key # keys)))"

definition plain_codec :: "nat \<Rightarrow> bool \<Rightarrow> bool \<Rightarrow> str \<Rightarrow> audio_codec" where
  "plain_codec n opus h264 fmtp =
     \<lparr>ac_payload = n, ac_opus = opus, ac_h264 = h264, ac_stereo = False, ac_fec = False, ac_cbr = False, ac_bitrate = None, ac_fmtp = fmtp\<rparr>"

definition is_pcmu :: "codec_mapping \<Rightarrow> nat \<Rightarrow> bool" where
  "is_pcmu m n \<longleftrightarrow> n = 0 \<and> (case mp_names m n of None \<Rightarrow> True
     | Some name \<Rightarrow> eq_ignore_ascii_case name (S ''PCMU/8000'') \<or> eq_ignore_ascii_case name (S ''PCMU/8000/1''))"

definition is_opus :: "codec_mapping \<Rightarrow> nat \<Rightarrow> bool" where
  "is_opus m n \<longleftrightarrow> (case mp_names m n of None \<Rightarrow> False | Some name \<Rightarrow> eq_ignore_ascii_case name (S ''opus/48000/2''))"

definition format_of :: "codec_mapping \<Rightarrow> nat \<Rightarrow> str" where
  "format_of m n = (case mp_formats m n of None \<Rightarrow> [] | Some f \<Rightarrow> f)"

fun audio_loop :: "codec_mapping \<Rightarrow> nat list \<Rightarrow> str + audio_codec list" where
  "audio_loop m [] = Inr []"
| "audio_loop m (n # ns) =
     (if n = 0 \<and> \<not> is_pcmu m n then Inl (S ''OperationError: payload type zero must be mono PCMU at 8000 Hz'')
      else if \<not> is_pcmu m n \<and> \<not> is_opus m n then audio_loop m ns
      else let c = plain_codec n (is_opus m n) False (format_of m n)
           in and_then (if is_opus m n then opus_parameters (format_entries (ac_fmtp c)) [] c else Inr c) (\<lambda>c'.
              and_then (audio_loop m ns) (\<lambda>cs. Inr (c' # cs))))"

definition audio_codecs :: "codec_mapping \<Rightarrow> str + audio_codec list" where
  "audio_codecs m =
     and_then (audio_loop m (mp_payloads m)) (\<lambda>cs.
       if cs = [] then Inl (S ''NotSupportedError: audio must offer Opus at 48000 Hz or mono PCMU'') else Inr cs)"

fun h264_parameters :: "str list \<Rightarrow> (str \<rightharpoonup> str) \<Rightarrow> str + (str \<rightharpoonup> str)" where
  "h264_parameters [] ps = Inr ps"
| "h264_parameters (entry # es) ps =
     and_then (ok_or (split_once 61 entry) (S ''OperationError: incomplete H.264 format parameter'')) (\<lambda>(k, v).
       let key = ascii_lower (trim k)
       in if ps key \<noteq> None then Inl (S ''OperationError: duplicate H.264 format parameter'')
          else h264_parameters es (ps(key \<mapsto> trim v)))"

definition is_h264 :: "codec_mapping \<Rightarrow> nat \<Rightarrow> bool" where
  "is_h264 m n \<longleftrightarrow> (case mp_names m n of None \<Rightarrow> False | Some name \<Rightarrow> eq_ignore_ascii_case name (S ''H264/90000''))"

definition h264_mode :: "(str \<rightharpoonup> str) \<Rightarrow> bool" where
  "h264_mode ps \<longleftrightarrow> ps (S ''packetization-mode'') = Some (S ''1'')
     \<and> (case ps (S ''profile-level-id'') of None \<Rightarrow> False | Some p \<Rightarrow> eq_ignore_ascii_case p PROFILE)"

definition h264_asymmetry :: "(str \<rightharpoonup> str) \<Rightarrow> bool" where
  "h264_asymmetry ps \<longleftrightarrow> (case ps (S ''level-asymmetry-allowed'') of None \<Rightarrow> True | Some v \<Rightarrow> v \<in> {S ''0'', S ''1''})"

fun video_loop :: "codec_mapping \<Rightarrow> nat list \<Rightarrow> str + audio_codec list" where
  "video_loop m [] = Inr []"
| "video_loop m (n # ns) =
     (if \<not> is_h264 m n then video_loop m ns
      else and_then (h264_parameters (format_entries (format_of m n)) (\<lambda>_. None)) (\<lambda>ps.
        if \<not> h264_mode ps then video_loop m ns
        else if \<not> h264_asymmetry ps then Inl (S ''OperationError: invalid H.264 level asymmetry parameter'')
        else and_then (video_loop m ns) (\<lambda>cs. Inr (plain_codec n False True (format_of m n) # cs))))"

definition video_codecs :: "codec_mapping \<Rightarrow> str + audio_codec list" where
  "video_codecs m =
     and_then (video_loop m (mp_payloads m)) (\<lambda>cs.
       if cs = [] then Inl (S ''NotSupportedError: video requires H.264 mode 1 constrained baseline level 3.1'') else Inr cs)"

section \<open>Directions\<close>

datatype direction = SendRecv | SendOnly | RecvOnly | Inactive

definition direction :: "str \<Rightarrow> str + direction" where
  "direction v =
     (if v = S ''sendrecv'' then Inr SendRecv else if v = S ''sendonly'' then Inr SendOnly
      else if v = S ''recvonly'' then Inr RecvOnly else if v = S ''inactive'' then Inr Inactive
      else Inl (S ''TypeError: invalid transceiver direction''))"

definition sends :: "str \<Rightarrow> bool" where "sends v \<longleftrightarrow> v \<in> {S ''sendrecv'', S ''sendonly''}"

definition receives :: "str \<Rightarrow> bool" where "receives v \<longleftrightarrow> v \<in> {S ''sendrecv'', S ''recvonly''}"

definition intersect :: "str \<Rightarrow> str \<Rightarrow> str" where
  "intersect here there =
     (case (sends here \<and> receives there, receives here \<and> sends there) of
        (True, True) \<Rightarrow> S ''sendrecv'' | (True, False) \<Rightarrow> S ''sendonly''
      | (False, True) \<Rightarrow> S ''recvonly'' | (False, False) \<Rightarrow> S ''inactive'')"

section \<open>Sections\<close>

text \<open>The first prefix that fits decides what a line is.\<close>

datatype attribute = Mid str | Ufrag str | Password str | Fingerprint str | Setup str | Msid str | Direction str | Other

definition attribute_of :: "str \<Rightarrow> attribute" where
  "attribute_of line =
     (case strip_prefix line (S ''a=mid:'') of Some v \<Rightarrow> Mid v | None \<Rightarrow>
     (case strip_prefix line (S ''a=ice-ufrag:'') of Some v \<Rightarrow> Ufrag v | None \<Rightarrow>
     (case strip_prefix line (S ''a=ice-pwd:'') of Some v \<Rightarrow> Password v | None \<Rightarrow>
     (case strip_prefix line (S ''a=fingerprint:'') of Some v \<Rightarrow> Fingerprint v | None \<Rightarrow>
     (case strip_prefix line (S ''a=setup:'') of Some v \<Rightarrow> Setup v | None \<Rightarrow>
     (case strip_prefix line (S ''a=msid:'') of Some v \<Rightarrow> Msid v | None \<Rightarrow>
     (case strip_prefix line (S ''a='') of
        Some v \<Rightarrow> if v \<in> {S ''sendrecv'', S ''sendonly'', S ''recvonly'', S ''inactive''} then Direction v else Other
      | None \<Rightarrow> Other)))))))"

definition attributes :: "sdp_section \<Rightarrow> str \<Rightarrow> str + sdp_section" where
  "attributes s line =
     (case attribute_of line of
        Mid v \<Rightarrow> if sc_mid s \<noteq> [] then Inl (S ''OperationError: duplicate MID attribute'') else Inr (s\<lparr>sc_mid := v\<rparr>)
      | Ufrag v \<Rightarrow> Inr (s\<lparr>sc_ufrag := v\<rparr>)
      | Password v \<Rightarrow> Inr (s\<lparr>sc_password := v\<rparr>)
      | Fingerprint v \<Rightarrow> Inr (s\<lparr>sc_fingerprint := v\<rparr>)
      | Setup v \<Rightarrow> Inr (s\<lparr>sc_setup := v\<rparr>)
      | Msid v \<Rightarrow>
          (case split_whitespace v of
             [a, b] \<Rightarrow> if sc_track s \<noteq> None then Inl (S ''NotSupportedError: one MSID per media section is supported'')
                        else Inr (s\<lparr>sc_stream := (if a \<noteq> S ''-'' then Some a else None), sc_track := Some b\<rparr>)
           | _ \<Rightarrow> Inl (S ''NotSupportedError: one MSID per media section is supported''))
      | Direction v \<Rightarrow> Inr (s\<lparr>sc_direction := v\<rparr>)
      | Other \<Rightarrow> Inr s)"

definition default_section :: sdp_section where
  "default_section = \<lparr>sc_video = False, sc_mid = [], sc_direction = S ''sendrecv'', sc_stream = None, sc_track = None, sc_ufrag = [],
     sc_password = [], sc_fingerprint = [], sc_setup = [], sc_codecs = []\<rparr>"

text \<open>What has been read so far: the defaults, the sections with their codec mappings, and the bundle group.\<close>

record sdp_state =
  ss_defaults :: sdp_section
  ss_sections :: "(sdp_section \<times> codec_mapping) list"
  ss_bundle :: "str list option"

definition media_refused :: "str list \<Rightarrow> bool" where
  "media_refused fs \<longleftrightarrow> length fs < 4 \<or> fs ! 0 \<notin> {S ''m=audio'', S ''m=video''} \<or> fs ! 1 = S ''0'' \<or> fs ! 2 \<noteq> S ''UDP/TLS/RTP/SAVPF''"

definition media_line :: "str list \<Rightarrow> sdp_state \<Rightarrow> str + sdp_state" where
  "media_line fs st =
     (if media_refused fs then Inl (S ''NotSupportedError: active DTLS audio or video sections are required'')
      else if length (ss_sections st) = SLOT_LIMIT then Inl (S ''OperationError: too many SDP sections'')
       else and_then (collect_results payload (drop 3 fs)) (\<lambda>ps.
         if \<not> distinct ps then Inl (S ''OperationError: duplicate m-line payload type'')
         else Inr (st\<lparr>ss_sections := ss_sections st
                @ [((ss_defaults st)\<lparr>sc_video := (fs ! 0 = S ''m=video'')\<rparr>,
                    \<lparr>mp_payloads = ps, mp_names = (\<lambda>_. None), mp_formats = (\<lambda>_. None)\<rparr>)]\<rparr>)))"

definition attribute_line :: "str \<Rightarrow> sdp_state \<Rightarrow> str + sdp_state" where
  "attribute_line line st =
     and_then (if ss_sections st = []
               then and_then (attributes (ss_defaults st) line) (\<lambda>d. Inr (st\<lparr>ss_defaults := d\<rparr>))
               else and_then (attributes (fst (last (ss_sections st))) line) (\<lambda>s.
                    and_then (mapping_attribute (snd (last (ss_sections st))) line) (\<lambda>m.
                      Inr (st\<lparr>ss_sections := butlast (ss_sections st) @ [(s, m)]\<rparr>)))) (\<lambda>st'.
       if starts_with line (S ''a=sctp-'') \<or> starts_with line (S ''a=simulcast:'')
       then Inl (S ''NotSupportedError: SCTP and simulcast are not enabled'') else Inr st')"

definition sdp_line :: "str \<Rightarrow> sdp_state \<Rightarrow> str + sdp_state" where
  "sdp_line line st =
     (case strip_prefix line (S ''a=group:BUNDLE '') of
        Some v \<Rightarrow> if ss_bundle st \<noteq> None then Inl (S ''OperationError: duplicate BUNDLE group'')
                  else Inr (st\<lparr>ss_bundle := Some (split_whitespace v)\<rparr>)
      | None \<Rightarrow> if starts_with line (S ''m='') then media_line (split_whitespace line) st else attribute_line line st)"

fun sdp_lines :: "str list \<Rightarrow> sdp_state \<Rightarrow> str + sdp_state" where
  "sdp_lines [] st = Inr st"
| "sdp_lines (l # ls) st = and_then (sdp_line l st) (sdp_lines ls)"

definition with_codecs :: "sdp_section \<times> codec_mapping \<Rightarrow> str + sdp_section" where
  "with_codecs = (\<lambda>(s, m). and_then (if sc_video s then video_codecs m else audio_codecs m) (\<lambda>cs. Inr (s\<lparr>sc_codecs := cs\<rparr>)))"

definition mid_ok :: "str \<Rightarrow> bool" where
  "mid_ok mid \<longleftrightarrow> mid \<noteq> [] \<and> length mid \<le> 16 \<and> list_all is_ascii_alphanumeric mid"

definition ice_ok :: "sdp_section \<Rightarrow> bool" where
  "ice_ok s \<longleftrightarrow> 4 \<le> length (sc_ufrag s) \<and> 22 \<le> length (sc_password s)
     \<and> list_all (\<lambda>c. is_ascii_alphanumeric c \<or> c = 43 \<or> c = 47) (sc_ufrag s @ sc_password s)"

definition fingerprint_ok :: "str \<Rightarrow> bool" where
  "fingerprint_ok fp \<longleftrightarrow> length (split_on 58 fp) = 32 \<and> list_all (\<lambda>b. length b = 2 \<and> parses_hex_byte b) (split_on 58 fp)"

definition setup_ok :: "str \<Rightarrow> str \<Rightarrow> bool" where
  "setup_ok ty setup \<longleftrightarrow> setup \<in> (if ty = S ''offer'' then {S ''actpass'', S ''active'', S ''passive''} else {S ''active'', S ''passive''})"

definition same_transport :: "sdp_section \<Rightarrow> sdp_section \<Rightarrow> bool" where
  "same_transport a b \<longleftrightarrow> sc_ufrag a = sc_ufrag b \<and> sc_password a = sc_password b
     \<and> eq_ignore_ascii_case (sc_fingerprint a) (sc_fingerprint b)"

fun check_sections :: "str \<Rightarrow> sdp_section \<Rightarrow> str list \<Rightarrow> sdp_section list \<Rightarrow> str + unit" where
  "check_sections ty first mids [] = Inr ()"
| "check_sections ty first mids (s # ss) =
     (if \<not> mid_ok (sc_mid s) \<or> sc_mid s \<in> set mids then Inl (S ''OperationError: missing, duplicate or unsupported MID'')
      else if \<not> ice_ok s then Inl (S ''OperationError: invalid ICE credentials'')
      else case strip_prefix (sc_fingerprint s) (S ''sha-256 '') of
             None \<Rightarrow> Inl (S ''NotSupportedError: SHA-256 DTLS fingerprints are required'')
           | Some fp \<Rightarrow>
               if \<not> fingerprint_ok fp then Inl (S ''OperationError: invalid DTLS fingerprint'')
               else if \<not> setup_ok ty (sc_setup s) then Inl (S ''OperationError: invalid DTLS setup role'')
               else if \<not> same_transport s first
               then Inl (S ''NotSupportedError: all sections must share one BUNDLE transport'')
               else check_sections ty first (sc_mid s # mids) ss)"

definition sdp_text_lines :: "str \<Rightarrow> str list" where
  "sdp_text_lines text = map trim_end_cr (lines_of text)"

definition sections :: "description \<Rightarrow> str + sdp_section list" where
  "sections d =
     (if de_type d \<notin> {S ''offer'', S ''answer''}
      then Inl (S ''NotSupportedError: only offer and answer descriptions are supported'')
      else if 128 * 1024 < utf8_len (de_sdp d) then Inl (S ''OperationError: SDP exceeds 128 KiB'')
      else and_then (sdp_lines (sdp_text_lines (de_sdp d)) \<lparr>ss_defaults = default_section, ss_sections = [], ss_bundle = None\<rparr>) (\<lambda>st.
        if ss_sections st = [] then Inl (S ''OperationError: SDP has no media sections'')
        else and_then (collect_results with_codecs (ss_sections st)) (\<lambda>ss.
             and_then (check_sections (de_type d) (hd ss) [] ss) (\<lambda>_.
               if ss_bundle st \<noteq> Some (map sc_mid ss)
               then Inl (S ''OperationError: BUNDLE must preserve all MID identities and m-line order'')
               else Inr ss))))"

section \<open>Descriptions the browser generates\<close>

definition selected_codecs :: "sdp_section \<Rightarrow> str list \<Rightarrow> audio_codec list" where
  "selected_codecs s prefs = concat (map (\<lambda>name. filter (\<lambda>c. codec_name c = name) (sc_codecs s)) prefs)"

definition codec_attribute :: "str \<Rightarrow> str option" where
  "codec_attribute line =
     (case strip_prefix line (S ''a=rtpmap:'') of Some v \<Rightarrow> Some v | None \<Rightarrow>
     (case strip_prefix line (S ''a=fmtp:'') of Some v \<Rightarrow> Some v | None \<Rightarrow> strip_prefix line (S ''a=rtcp-fb:'')))"

definition first_word :: "str \<Rightarrow> str" where
  "first_word v = (case split_whitespace v of [] \<Rightarrow> [] | w # _ \<Rightarrow> w)"

text \<open>What becomes of a line below a media line: the lines written for it.\<close>

definition rewrite_attribute :: "audio_codec list \<Rightarrow> str \<Rightarrow> str + str list" where
  "rewrite_attribute cs line =
     (case codec_attribute line of
        None \<Rightarrow> Inr [line]
      | Some v \<Rightarrow>
          if first_word v = S ''*'' then Inr [line]
          else and_then (payload (first_word v)) (\<lambda>n.
            case find (\<lambda>c. ac_payload c = n) cs of
              None \<Rightarrow> Inr []
            | Some c \<Rightarrow>
                if ac_opus c \<and> starts_with line (S ''a=fmtp:'') then Inr []
                else if ac_opus c \<and> starts_with line (S ''a=rtpmap:'')
                then Inr [line, S ''a=fmtp:'' @ dec n @ S '' minptime=10;useinbandfec=1;stereo=1;cbr=0'']
                else Inr [line]))"

definition rewrite_media :: "audio_codec list \<Rightarrow> str \<Rightarrow> str option" where
  "rewrite_media cs line =
     (let fs = split_whitespace line
      in if length fs < 3 then None
         else Some (join_strs [32] (take 3 fs) @ concat (map (\<lambda>c. 32 # dec (ac_payload c)) cs)))"

fun rewrite_lines :: "audio_codec list list \<Rightarrow> nat option \<Rightarrow> str list \<Rightarrow> (str + str list) option" where
  "rewrite_lines selected i [] = Some (Inr [])"
| "rewrite_lines selected i (l # ls) =
     (if starts_with l (S ''m='') then
        (let j = (case i of None \<Rightarrow> 0 | Some k \<Rightarrow> Suc k)
         in if j < length selected
            then do { m \<leftarrow> rewrite_media (selected ! j) l;
                      r \<leftarrow> rewrite_lines selected (Some j) ls;
                      Some (and_then r (\<lambda>rest. Inr (m # rest))) }
            else None)
      else case i of
             None \<Rightarrow> do { r \<leftarrow> rewrite_lines selected i ls; Some (and_then r (\<lambda>rest. Inr (l # rest))) }
           | Some k \<Rightarrow>
               (case rewrite_attribute (selected ! k) l of
                  Inl e \<Rightarrow> Some (Inl e)
                | Inr new \<Rightarrow> do { r \<leftarrow> rewrite_lines selected i ls; Some (and_then r (\<lambda>rest. Inr (new @ rest))) }))"

definition written :: "str list \<Rightarrow> str" where
  "written ls = concat (map (\<lambda>l. l @ [13, 10]) ls)"

definition local_description :: "description \<Rightarrow> str list list \<Rightarrow> (str + description) option" where
  "local_description d preferences =
     (case sections d of
        Inl e \<Rightarrow> Some (Inl e)
      | Inr ss \<Rightarrow>
          if length ss \<noteq> length preferences then Some (Inl (S ''OperationError: missing local codec policy''))
          else let selected = map (\<lambda>(s, prefs). selected_codecs s prefs) (zip ss preferences)
               in if [] \<in> set selected
                  then Some (Inl (S ''NotSupportedError: codec preferences have no negotiated media codec''))
                  else do { r \<leftarrow> rewrite_lines selected None (sdp_text_lines (de_sdp d));
                            Some (and_then r (\<lambda>ls. let d' = d\<lparr>de_sdp := written ls\<rparr> in and_then (sections d') (\<lambda>_. Inr d'))) })"

fun answer_lines :: "(str \<times> str option \<times> str option) list \<Rightarrow> nat option \<Rightarrow> str list \<Rightarrow> str list option" where
  "answer_lines entries i [] = Some []"
| "answer_lines entries i (l # ls) =
     (let j = (if starts_with l (S ''m='') then Some (case i of None \<Rightarrow> 0 | Some k \<Rightarrow> Suc k) else i)
      in case j of
           None \<Rightarrow> map_option ((#) l) (answer_lines entries j ls)
         | Some k \<Rightarrow>
             if length entries \<le> k then None
             else (case entries ! k of
                     (dir, stream, track) \<Rightarrow>
                       map_option ((@)
                         (if l \<in> {S ''a=sendrecv'', S ''a=sendonly'', S ''a=recvonly'', S ''a=inactive''} then
                            (S ''a='' @ dir)
                              # (case track of
                                   Some t \<Rightarrow> if sends dir then [S ''a=msid:'' @ (case stream of Some s \<Rightarrow> s | None \<Rightarrow> S ''-'') @ 32 # t] else []
                                 | None \<Rightarrow> [])
                          else if starts_with l (S ''a=msid:'') then [] else [l]))
                         (answer_lines entries j ls)))"

definition answer :: "str \<Rightarrow> (str \<times> str option \<times> str option) list \<Rightarrow> str option" where
  "answer original entries = map_option written (answer_lines entries None (sdp_text_lines original))"

end
