(* ===== verification/Sdp_Props.thy ===== *)
theory Sdp_Props
  imports Sdp
begin

text \<open>
  What an accepted session description promises (\<^verbatim>\<open>src/apps/chuzz/src/webrtc/sdp.rs\<close>), and that the descriptions the browser
  generates differ from those of the protocol library in nothing but the codecs.
\<close>

section \<open>Directions\<close>

lemma intersect_agrees [simp]:
  "sends (intersect here there) \<longleftrightarrow> sends here \<and> receives there"
  "receives (intersect here there) \<longleftrightarrow> receives here \<and> sends there"
  by (auto simp: intersect_def sends_def receives_def split: bool.splits)

lemma direction_intersect: "\<exists>d. direction (intersect here there) = Inr d"
  by (auto simp: intersect_def direction_def split: bool.splits)

section \<open>Accepted descriptions\<close>

definition known_direction :: "str \<Rightarrow> bool" where
  "known_direction v \<longleftrightarrow> v \<in> {S ''sendrecv'', S ''sendonly'', S ''recvonly'', S ''inactive''}"

lemma known_direction_parses: "known_direction v \<Longrightarrow> \<exists>d. direction v = Inr d"
  by (auto simp: known_direction_def direction_def)

definition bare :: "sdp_section \<Rightarrow> bool" where
  "bare s \<longleftrightarrow> known_direction (sc_direction s) \<and> sc_codecs s = []"

definition mapping_ok :: "codec_mapping \<Rightarrow> bool" where
  "mapping_ok m \<longleftrightarrow> distinct (mp_payloads m) \<and> (\<forall>n\<in>set (mp_payloads m). n \<le> 127)"

definition state_ok :: "sdp_state \<Rightarrow> bool" where
  "state_ok st \<longleftrightarrow> bare (ss_defaults st) \<and> length (ss_sections st) \<le> SLOT_LIMIT
     \<and> (\<forall>(s, m)\<in>set (ss_sections st). bare s \<and> mapping_ok m)"

lemma direction_attribute: "attribute_of line = Direction v \<Longrightarrow> known_direction v"
  by (auto simp: attribute_of_def known_direction_def split: option.splits if_splits)

lemma attributes_bare: "attributes s line = Inr s' \<Longrightarrow> bare s \<Longrightarrow> bare s'"
  using direction_attribute by (auto simp: attributes_def bare_def split: attribute.splits list.splits if_splits)

lemma mapping_attribute_payloads: "mapping_attribute m line = Inr m' \<Longrightarrow> mp_payloads m' = mp_payloads m"
  by (auto simp: mapping_attribute_def split: option.splits if_splits)

lemma payload_small: "payload v = Inr n \<Longrightarrow> n \<le> 127"
  by (auto simp: payload_def split: option.splits if_splits)

lemma payloads_small: "collect_results payload xs = Inr ps \<Longrightarrow> \<forall>n\<in>set ps. n \<le> 127"
  using payload_small by (auto simp: collect_results_Inr in_set_conv_nth list_all2_conv_all_nth) blast

lemma sdp_line_ok:
  assumes "sdp_line line st = Inr st'" and "state_ok st"
  shows "state_ok st'"
proof (cases "strip_prefix line (S ''a=group:BUNDLE '')")
  case (Some v)
  with assms show ?thesis by (auto simp: sdp_line_def state_ok_def simp del: S_simps split: if_splits)
next
  case None
  show ?thesis
  proof (cases "starts_with line (S ''m='')")
    case True
    let ?fs = "split_whitespace line"
    from True obtain ps where "length (ss_sections st) \<noteq> SLOT_LIMIT" and ps: "collect_results payload (drop 3 ?fs) = Inr ps" "distinct ps"
      and st': "st' = st\<lparr>ss_sections := ss_sections st @ [((ss_defaults st)\<lparr>sc_video := (?fs ! 0 = S ''m=video'')\<rparr>,
          \<lparr>mp_payloads = ps, mp_names = (\<lambda>_. None), mp_formats = (\<lambda>_. None)\<rparr>)]\<rparr>"
      using assms(1) None by (auto simp: sdp_line_def media_line_def simp del: S_simps split: if_splits)
    moreover have "mapping_ok \<lparr>mp_payloads = ps, mp_names = (\<lambda>_. None), mp_formats = (\<lambda>_. None)\<rparr>"
      using ps payloads_small by (simp add: mapping_ok_def)
    moreover have "bare ((ss_defaults st)\<lparr>sc_video := v\<rparr>)" for v using assms(2) by (simp add: state_ok_def bare_def)
    ultimately show ?thesis using assms(2) by (simp add: state_ok_def)
  next
    case False
    then have a: "attribute_line line st = Inr st'" using assms(1) None by (simp add: sdp_line_def del: S_simps)
    show ?thesis
    proof (cases "ss_sections st = []")
      case True
      then show ?thesis using a assms(2) attributes_bare by (auto simp: attribute_line_def state_ok_def simp del: S_simps split: if_splits)
    next
      case False
      then obtain xs s m where xs: "ss_sections st = xs @ [(s, m)]" by (metis append_butlast_last_id prod.exhaust)
      with a obtain s' m' where "attributes s line = Inr s'" "mapping_attribute m line = Inr m'"
          "st' = st\<lparr>ss_sections := xs @ [(s', m')]\<rparr>"
        by (auto simp: attribute_line_def simp del: S_simps split: if_splits)
      then show ?thesis using assms(2) xs attributes_bare mapping_attribute_payloads by (auto simp: state_ok_def mapping_ok_def)
    qed
  qed
qed

lemma sdp_lines_ok: "sdp_lines ls st = Inr st' \<Longrightarrow> state_ok st \<Longrightarrow> state_ok st'"
  by (induction ls arbitrary: st) (auto dest: sdp_line_ok)

definition codec_ok :: "bool \<Rightarrow> audio_codec \<Rightarrow> bool" where
  "codec_ok video c \<longleftrightarrow> ac_payload c \<le> 127 \<and> ac_h264 c = video \<and> (video \<longrightarrow> \<not> ac_opus c)
     \<and> (\<not> video \<and> \<not> ac_opus c \<longrightarrow> ac_payload c = 0) \<and> (\<forall>b. ac_bitrate c = Some b \<longrightarrow> 6000 \<le> b \<and> b \<le> 510000)"

lemma opus_parameter_cases:
  assumes "opus_parameter key v c = Inr c'"
  shows "c' = c \<or> (\<exists>b. c' = c\<lparr>ac_stereo := b\<rparr>) \<or> (\<exists>b. c' = c\<lparr>ac_fec := b\<rparr>) \<or> (\<exists>b. c' = c\<lparr>ac_cbr := b\<rparr>)
  \<or> (\<exists>r. c' = c\<lparr>ac_bitrate := Some r\<rparr> \<and> 6000 \<le> r \<and> r \<le> 510000)"
proof (cases "key \<in> {S ''stereo'', S ''useinbandfec'', S ''cbr''}")
  case True
  with assms obtain e where "c' = (if key = S ''stereo'' then c\<lparr>ac_stereo := e\<rparr>
               else if key = S ''useinbandfec'' then c\<lparr>ac_fec := e\<rparr> else c\<lparr>ac_cbr := e\<rparr>)"
    unfolding opus_parameter_def if_P [OF True] by auto
  then show ?thesis by (metis (full_types))
next
  case False
  show ?thesis
  proof (cases "key = S ''maxaveragebitrate''")
    case True
    show ?thesis using assms unfolding opus_parameter_def if_not_P [OF False] if_P [OF True] by (auto split: option.splits if_splits)
  next
    case False2: False
    show ?thesis using assms unfolding opus_parameter_def if_not_P [OF False] if_not_P [OF False2]
      by (auto simp del: S_simps split: option.splits if_splits)
  qed
qed

lemma opus_parameter_keeps:
  assumes "opus_parameter key v c = Inr c'" and "codec_ok False c"
  shows "codec_ok False c' \<and> ac_payload c' = ac_payload c \<and> ac_opus c' = ac_opus c \<and> ac_h264 c' = ac_h264 c \<and> ac_fmtp c' = ac_fmtp c"
  using opus_parameter_cases [OF assms(1)] assms(2) by (auto simp: codec_ok_def)

lemma opus_parameters_keep:
  "opus_parameters es keys c = Inr c' \<Longrightarrow> codec_ok False c \<Longrightarrow>
     codec_ok False c' \<and> ac_payload c' = ac_payload c \<and> ac_opus c' = ac_opus c \<and> ac_h264 c' = ac_h264 c \<and> ac_fmtp c' = ac_fmtp c"
proof (induction es arbitrary: keys c)
  case (Cons entry es)
  then obtain k v c1 where 1: "opus_parameter (ascii_lower (trim k)) (trim v) c = Inr c1"
      "opus_parameters es (ascii_lower (trim k) # keys) c1 = Inr c'"
    by (auto simp: Let_def split: if_splits)
  with Cons.IH opus_parameter_keeps [OF 1(1) Cons.prems(2)] show ?case by fastforce
qed simp

text \<open>The codecs read are those of the payload types that name one the browser has, in the order of the media line.\<close>

lemma audio_loop_codecs:
  "audio_loop m ns = Inr cs \<Longrightarrow> \<forall>n\<in>set ns. n \<le> 127 \<Longrightarrow>
     map (\<lambda>c. (ac_payload c, ac_opus c)) cs = map (\<lambda>n. (n, is_opus m n)) (filter (\<lambda>n. is_pcmu m n \<or> is_opus m n) ns)
     \<and> list_all (codec_ok False) cs"
proof (induction ns arbitrary: cs)
  case (Cons n ns)
  have c: "codec_ok False (plain_codec n (is_opus m n) False (format_of m n))" if "is_pcmu m n \<or> is_opus m n"
    using that Cons.prems(2) by (auto simp: codec_ok_def plain_codec_def is_pcmu_def)
  show ?case
  proof (cases "is_pcmu m n \<or> is_opus m n")
    case True
    then obtain c' cs' where "audio_loop m ns = Inr cs'" "cs = c' # cs'"
        "codec_ok False c' \<and> ac_payload c' = n \<and> ac_opus c' = is_opus m n"
      using Cons.prems(1) opus_parameters_keep [OF _ c [OF True]] c [OF True]
      by (auto simp: Let_def plain_codec_def split: if_splits)
    with Cons.IH [of cs'] Cons.prems(2) True show ?thesis by simp
  next
    case False
    with Cons show ?thesis by (auto split: if_splits)
  qed
qed simp

definition keeps_video :: "codec_mapping \<Rightarrow> nat \<Rightarrow> bool" where
  "keeps_video m n \<longleftrightarrow> is_h264 m n \<and> (\<exists>ps. h264_parameters (format_entries (format_of m n)) (\<lambda>_. None) = Inr ps \<and> h264_mode ps)"

lemma video_loop_codecs:
  "video_loop m ns = Inr cs \<Longrightarrow> cs = map (\<lambda>n. plain_codec n False True (format_of m n)) (filter (keeps_video m) ns)"
  by (induction ns arbitrary: cs) (auto simp: keeps_video_def split: if_splits)

definition keeps :: "bool \<Rightarrow> codec_mapping \<Rightarrow> nat \<Rightarrow> bool" where
  "keeps video m n \<longleftrightarrow> (if video then keeps_video m n else is_pcmu m n \<or> is_opus m n)"

text \<open>What a codec is, apart from its parameters.\<close>

definition identity :: "audio_codec \<Rightarrow> nat \<times> bool \<times> bool" where
  "identity c = (ac_payload c, ac_opus c, ac_h264 c)"

lemma keeps_simps [simp]: "keeps True m = keeps_video m" "keeps False m = (\<lambda>n. is_pcmu m n \<or> is_opus m n)"
  by (simp_all add: keeps_def fun_eq_iff)

lemma with_codecs_Inr:
  assumes "with_codecs (s, m) = Inr s'" and "mapping_ok m"
  obtains cs where "s' = s\<lparr>sc_codecs := cs\<rparr>" "cs \<noteq> []" "list_all (codec_ok (sc_video s)) cs"
    "map identity cs = map (\<lambda>n. (n, \<not> sc_video s \<and> is_opus m n, sc_video s)) (filter (keeps (sc_video s) m) (mp_payloads m))"
proof (cases "sc_video s")
  case True
  then obtain cs where cs: "video_loop m (mp_payloads m) = Inr cs" "cs \<noteq> []" "s' = s\<lparr>sc_codecs := cs\<rparr>"
    using assms(1) by (auto simp: with_codecs_def video_codecs_def simp del: S_simps split: if_splits)
  note v = video_loop_codecs [OF cs(1)]
  show ?thesis using that [of cs] cs True v assms(2)
    by (simp add: list_all_iff codec_ok_def plain_codec_def mapping_ok_def identity_def comp_def)
next
  case False
  then obtain cs where cs: "audio_loop m (mp_payloads m) = Inr cs" "cs \<noteq> []" "s' = s\<lparr>sc_codecs := cs\<rparr>"
    using assms(1) by (auto simp: with_codecs_def audio_codecs_def simp del: S_simps split: if_splits)
  have a: "map (\<lambda>c. (ac_payload c, ac_opus c)) cs = map (\<lambda>n. (n, is_opus m n)) (filter (\<lambda>n. is_pcmu m n \<or> is_opus m n) (mp_payloads m))"
      "list_all (codec_ok False) cs"
    using audio_loop_codecs [OF cs(1)] assms(2) by (simp_all add: mapping_ok_def)
  have "map identity cs = map (\<lambda>(n, b). (n, b, False)) (map (\<lambda>c. (ac_payload c, ac_opus c)) cs)"
    using a(2) by (auto simp: identity_def codec_ok_def list_all_iff)
  then show ?thesis using that [of cs] cs False a by (simp add: comp_def)
qed

lemma check_sections_Inr:
  "check_sections ty first mids ss = Inr () \<Longrightarrow>
     distinct (map sc_mid ss) \<and> set mids \<inter> set (map sc_mid ss) = {}
     \<and> (\<forall>s\<in>set ss. mid_ok (sc_mid s) \<and> ice_ok s \<and> setup_ok ty (sc_setup s) \<and> same_transport s first
          \<and> (\<exists>fp. sc_fingerprint s = S ''sha-256 '' @ fp \<and> fingerprint_ok fp))"
proof (induction ss arbitrary: mids)
  case (Cons s ss)
  then obtain fp where "strip_prefix (sc_fingerprint s) (S ''sha-256 '') = Some fp" "fingerprint_ok fp"
      "check_sections ty first (sc_mid s # mids) ss = Inr ()"
      "mid_ok (sc_mid s)" "sc_mid s \<notin> set mids" "ice_ok s" "setup_ok ty (sc_setup s)" "same_transport s first"
    by (auto simp del: S_simps split: if_splits option.splits)
  moreover from this(1) have "sc_fingerprint s = S ''sha-256 '' @ fp"
    by (auto simp: strip_prefix_def starts_with_def simp del: S_simps split: if_splits) (metis append_take_drop_id)
  ultimately show ?case using Cons.IH [of "sc_mid s # mids"] by auto
qed simp

definition start_state :: sdp_state where
  "start_state = \<lparr>ss_defaults = default_section, ss_sections = [], ss_bundle = None\<rparr>"

lemma start_state_ok: "state_ok start_state"
  by (simp add: state_ok_def start_state_def default_section_def bare_def known_direction_def)

lemma sections_InrE:
  assumes "sections d = Inr ss"
  obtains st where "sdp_lines (sdp_text_lines (de_sdp d)) start_state = Inr st" "ss_sections st \<noteq> []" "state_ok st"
    "list_all2 (\<lambda>x s. with_codecs x = Inr s) (ss_sections st) ss" "check_sections (de_type d) (hd ss) [] ss = Inr ()"
    "ss_bundle st = Some (map sc_mid ss)" "de_type d \<in> {S ''offer'', S ''answer''}"
proof -
  from assms obtain st where st: "sdp_lines (sdp_text_lines (de_sdp d)) start_state = Inr st" "ss_sections st \<noteq> []"
    "collect_results with_codecs (ss_sections st) = Inr ss" "check_sections (de_type d) (hd ss) [] ss = Inr ()"
    "ss_bundle st = Some (map sc_mid ss)" "de_type d \<in> {S ''offer'', S ''answer''}"
    by (auto simp: sections_def simp del: S_simps simp flip: start_state_def split: if_splits)
  then show thesis using that [of st] sdp_lines_ok [OF st(1) start_state_ok] by (simp add: collect_results_Inr)
qed


end
