(* ===== verification/Sdp_Local.thy ===== *)
theory Sdp_Local
  imports Sdp_Props
begin

text \<open>
  The descriptions the browser generates (\<open>local\<close> of \<^verbatim>\<open>src/apps/chuzz/src/webrtc/sdp.rs\<close>) keep every section of the
  protocol library's, and offer exactly the codecs selected for it, in the order of preference.
\<close>

section \<open>Texts the browser writes\<close>

lemma digit_no_space: "is_ascii_digit c \<Longrightarrow> \<not> is_whitespace c \<and> c \<noteq> 43 \<and> c \<noteq> 10 \<and> c \<noteq> 13"
  by (auto simp: is_ascii_digit_def is_whitespace_def)

lemma payload_dec: "n \<le> 127 \<Longrightarrow> payload (dec n) = Inr n"
proof -
  assume n: "n \<le> 127"
  obtain c s where d: "dec n = c # s" "is_ascii_digit c" using dec_digits [of n] by (cases "dec n") auto
  then have "strip_prefix (dec n) [43] = None" using digit_no_space by (auto simp: strip_prefix_def starts_with_def)
  with dec_digits [of n] n show ?thesis by (simp add: payload_def parse_uint_def Let_def del: S_simps)
qed

lemma split_whitespace_word: "w \<noteq> [] \<Longrightarrow> \<not> list_ex is_whitespace w \<Longrightarrow> split_whitespace (w @ 32 # s) = w # split_whitespace s"
  by (simp add: split_whitespace_def split_by_append [of is_whitespace w 32 s] is_whitespace_def)

lemma split_whitespace_last: "w \<noteq> [] \<Longrightarrow> \<not> list_ex is_whitespace w \<Longrightarrow> split_whitespace w = [w]"
  by (simp add: split_whitespace_def split_by_no)

lemma split_whitespace_words_join:
  "w \<noteq> [] \<Longrightarrow> \<not> list_ex is_whitespace w \<Longrightarrow> list_all (\<lambda>v. v \<noteq> [] \<and> \<not> list_ex is_whitespace v) ws \<Longrightarrow>
     split_whitespace (w @ concat (map ((#) 32) ws)) = w # ws"
proof (induction ws arbitrary: w)
  case (Cons v ws)
  then show ?case using split_whitespace_word [of w "v @ concat (map ((#) 32) ws)"] by simp
qed (simp add: split_whitespace_last)

lemma dec_word: "dec n \<noteq> [] \<and> \<not> list_ex is_whitespace (dec n)"
  using dec_digits [of n] digit_no_space by (auto simp: list_ex_iff list_all_iff)

lemma rewrite_media_words:
  assumes "rewrite_media cs l = Some l'"
  shows "split_whitespace l' = take 3 (split_whitespace l) @ map (\<lambda>c. dec (ac_payload c)) cs"
    and "3 \<le> length (split_whitespace l)"
proof -
  let ?fs = "split_whitespace l"
  have len: "3 \<le> length ?fs" using assms by (auto simp: rewrite_media_def Let_def split: if_splits)
  then obtain a b c rest where fs: "?fs = a # b # c # rest" by (metis One_nat_def Suc_le_length_iff numeral_3_eq_3)
  have w: "list_all (\<lambda>v. v \<noteq> [] \<and> \<not> list_ex is_whitespace v) ?fs" using split_whitespace_words by (auto simp: list_all_iff)
  have "l' = a @ concat (map ((#) 32) ([b, c] @ map (\<lambda>c. dec (ac_payload c)) cs))"
    using assms fs by (auto simp: rewrite_media_def Let_def comp_def)
  then show "split_whitespace l' = take 3 ?fs @ map (\<lambda>c. dec (ac_payload c)) cs"
    using w fs dec_word split_whitespace_words_join [of a "[b, c] @ map (\<lambda>c. dec (ac_payload c)) cs"] by (auto simp: list_all_iff)
  show "3 \<le> length ?fs" by (rule len)
qed

text \<open>The number an attribute begins with.\<close>

lemma payload_word: "payload a = Inr n \<Longrightarrow> a \<noteq> [] \<and> \<not> list_ex is_whitespace a"
proof -
  assume "payload a = Inr n"
  then have p: "parse_uint 255 a \<noteq> None" by (auto simp: payload_def simp del: S_simps split: option.splits)
  have "set a \<subseteq> {43} \<union> {c. is_ascii_digit c} \<and> a \<noteq> []"
  proof (cases "strip_prefix a [43]")
    case None
    with p show ?thesis by (auto simp: parse_uint_def Let_def list_all_iff split: if_splits)
  next
    case (Some t)
    then have "a = 43 # t" by (cases a) (auto simp: strip_prefix_def starts_with_def split: if_splits)
    with Some p show ?thesis by (auto simp: parse_uint_def Let_def list_all_iff split: if_splits)
  qed
  moreover have "\<not> is_whitespace 43" by (simp add: is_whitespace_def)
  ultimately show ?thesis using digit_no_space unfolding list_ex_iff by blast
qed

lemma split_once_Some: "split_once d v = Some (a, b) \<Longrightarrow> v = a @ d # b"
  by (induction v arbitrary: a) (auto split: if_splits)

lemma first_word_number: "split_once 32 v = Some (a, b) \<Longrightarrow> payload a = Inr n \<Longrightarrow> first_word v = a"
  using split_once_Some [of 32 v a b] payload_word [of a n] split_whitespace_word [of a b] by (simp add: first_word_def)

section \<open>Attributes of codecs\<close>

text \<open>A line about a codec says nothing about the section.\<close>

lemma codec_line_other:
  assumes "codec_attribute l = Some v"
  shows "attribute_of l = Other" and "strip_prefix l (S ''a=group:BUNDLE '') = None" and "\<not> starts_with l (S ''m='')"
proof -
  obtain t where "l = S ''a=rtpmap:'' @ t \<or> l = S ''a=fmtp:'' @ t \<or> l = S ''a=rtcp-fb:'' @ t"
    using assms by (auto simp: codec_attribute_def strip_prefix_def starts_with_iff simp del: S_simps split: option.splits if_splits)
  then show "attribute_of l = Other" "strip_prefix l (S ''a=group:BUNDLE '') = None" "\<not> starts_with l (S ''m='')"
    by (auto simp: attribute_of_def strip_prefix_def starts_with_def)
qed

definition mapping_kind :: "str \<Rightarrow> (str \<times> bool) option" where
  "mapping_kind l = (case strip_prefix l (S ''a=rtpmap:'') of Some v \<Rightarrow> Some (v, False)
     | None \<Rightarrow> (case strip_prefix l (S ''a=fmtp:'') of Some v \<Rightarrow> Some (v, True) | None \<Rightarrow> None))"

lemma mapping_kind_codec: "mapping_kind l = Some (v, f) \<Longrightarrow> codec_attribute l = Some v"
  by (auto simp: mapping_kind_def codec_attribute_def simp del: S_simps split: option.splits)

lemma mapping_kind_starts:
  "mapping_kind l = Some (v, f) \<Longrightarrow> starts_with l (S ''a=fmtp:'') = f \<and> starts_with l (S ''a=rtpmap:'') = (\<not> f)"
proof -
  assume k: "mapping_kind l = Some (v, f)"
  then obtain t where "(f \<and> l = S ''a=fmtp:'' @ t) \<or> (\<not> f \<and> l = S ''a=rtpmap:'' @ t)"
    by (auto simp: mapping_kind_def strip_prefix_def starts_with_iff simp del: S_simps split: option.splits if_splits)
  then show ?thesis by (auto simp: starts_with_def)
qed

lemma mapping_attribute_Inr:
  "mapping_attribute m l = Inr m' \<longleftrightarrow>
     (case mapping_kind l of
        None \<Rightarrow> m' = m
      | Some (v, f) \<Rightarrow> \<exists>a b n. split_once 32 v = Some (a, b) \<and> payload a = Inr n \<and> (if f then mp_formats m else mp_names m) n = None
          \<and> m' = (if f then m\<lparr>mp_formats := (mp_formats m)(n \<mapsto> trim b)\<rparr> else m\<lparr>mp_names := (mp_names m)(n \<mapsto> trim b)\<rparr>))"
  by (cases "mapping_kind l")
    (auto simp: mapping_attribute_def simp flip: mapping_kind_def simp del: S_simps split: if_splits)

section \<open>Codecs read from a mapping\<close>

definition codec_at :: "bool \<Rightarrow> codec_mapping \<Rightarrow> nat \<Rightarrow> audio_codec \<Rightarrow> bool" where
  "codec_at video m n c \<longleftrightarrow> keeps video m n \<and>
     (if video then c = plain_codec n False True (format_of m n)
      else if is_opus m n then opus_parameters (format_entries (format_of m n)) [] (plain_codec n True False (format_of m n)) = Inr c
      else c = plain_codec n False False (format_of m n))"

lemma audio_loop_at:
  "audio_loop m ns = Inr cs \<Longrightarrow> list_all2 (codec_at False m) (filter (keeps False m) ns) cs"
proof (induction ns arbitrary: cs)
  case (Cons n ns)
  show ?case
  proof (cases "keeps False m n")
    case True
    then have k: "is_pcmu m n \<or> is_opus m n" by simp
    then obtain c' cs' where "audio_loop m ns = Inr cs'" "cs = c' # cs'" "codec_at False m n c'"
      using Cons.prems True by (auto simp: Let_def codec_at_def plain_codec_def split: if_splits)
    with Cons.IH [of cs'] True show ?thesis by simp
  next
    case False
    with Cons show ?thesis by (auto split: if_splits)
  qed
qed simp

lemma video_loop_at:
  "video_loop m ns = Inr cs \<Longrightarrow> list_all2 (codec_at True m) (filter (keeps True m) ns) cs"
  using video_loop_codecs [of m ns cs] by (auto simp: list_all2_conv_all_nth codec_at_def dest: nth_mem)

lemma with_codecs_at:
  assumes "with_codecs (s, m) = Inr s'"
  obtains cs where "s' = s\<lparr>sc_codecs := cs\<rparr>" "cs \<noteq> []"
    "list_all2 (codec_at (sc_video s) m) (filter (keeps (sc_video s) m) (mp_payloads m)) cs"
  using assms audio_loop_at video_loop_at
  by (cases "sc_video s") (auto simp: with_codecs_def video_codecs_def audio_codecs_def simp del: S_simps keeps_simps split: if_splits)

lemma codec_at_fields: "codec_at video m n c \<Longrightarrow> ac_payload c = n \<and> ac_opus c = (\<not> video \<and> is_opus m n)"
proof -
  assume a: "codec_at video m n c"
  have "codec_ok False (plain_codec n True False f)" if "n \<le> 127" for f using that by (simp add: codec_ok_def plain_codec_def)
  have "opus_parameters es keys c0 = Inr c1 \<Longrightarrow> ac_payload c1 = ac_payload c0 \<and> ac_opus c1 = ac_opus c0" for es keys c0 c1
  proof (induction es arbitrary: keys c0)
    case (Cons e es)
    then obtain k v c2 where 1: "opus_parameter (ascii_lower (trim k)) (trim v) c0 = Inr c2"
        "opus_parameters es (ascii_lower (trim k) # keys) c2 = Inr c1"
      by (auto simp: Let_def split: if_splits)
    with Cons.IH opus_parameter_cases [OF 1(1)] show ?case by fastforce
  qed simp
  with a show ?thesis by (auto simp: codec_at_def plain_codec_def split: if_splits)
qed

section \<open>What is rewritten, read again\<close>

definition local_format :: str where "local_format = S ''minptime=10;useinbandfec=1;stereo=1;cbr=0''"

text \<open>A codec as the browser offers it: Opus with the parameters of its own encoder, the others as they were.\<close>

definition local_codec :: "audio_codec \<Rightarrow> audio_codec" where
  "local_codec c = (if ac_opus c
     then \<lparr>ac_payload = ac_payload c, ac_opus = True, ac_h264 = False, ac_stereo = True, ac_fec = True, ac_cbr = False, ac_bitrate = None,
           ac_fmtp = local_format\<rparr>
     else c)"

definition same_mapping :: "audio_codec list \<Rightarrow> codec_mapping \<Rightarrow> codec_mapping \<Rightarrow> bool" where
  "same_mapping cs m m' \<longleftrightarrow> mp_payloads m' = map ac_payload cs
     \<and> (\<forall>c\<in>set cs. mp_names m' (ac_payload c) = mp_names m (ac_payload c)
          \<and> mp_formats m' (ac_payload c) =
              (if ac_opus c then (if mp_names m (ac_payload c) = None then None else Some local_format) else mp_formats m (ac_payload c)))"

definition one_each :: "audio_codec list \<Rightarrow> bool" where
  "one_each cs \<longleftrightarrow> (\<forall>c\<in>set cs. \<forall>c'\<in>set cs. ac_payload c = ac_payload c' \<longrightarrow> c = c')"

definition same_state :: "audio_codec list list \<Rightarrow> sdp_state \<Rightarrow> sdp_state \<Rightarrow> bool" where
  "same_state sel st st' \<longleftrightarrow> ss_defaults st' = ss_defaults st \<and> ss_bundle st' = ss_bundle st
     \<and> length (ss_sections st) \<le> length sel \<and> length (ss_sections st') = length (ss_sections st)
     \<and> (\<forall>i<length (ss_sections st). fst (ss_sections st' ! i) = fst (ss_sections st ! i)
          \<and> same_mapping (sel ! i) (snd (ss_sections st ! i)) (snd (ss_sections st' ! i)))"

definition section_index :: "sdp_state \<Rightarrow> nat option" where
  "section_index st = (if ss_sections st = [] then None else Some (length (ss_sections st) - 1))"

lemma payload_dec_only: "payload (dec n) = Inr k \<Longrightarrow> k = n"
proof -
  obtain c s where d: "dec n = c # s" "is_ascii_digit c" using dec_digits [of n] by (cases "dec n") auto
  then have "strip_prefix (dec n) [43] = None" using digit_no_space by (auto simp: strip_prefix_def starts_with_def)
  moreover assume "payload (dec n) = Inr k"
  ultimately show ?thesis using dec_digits [of n]
    by (auto simp: payload_def parse_uint_def Let_def simp del: S_simps split: if_splits option.splits)
qed

lemma payloads_dec_only: "collect_results payload (map (\<lambda>c. dec (ac_payload c)) cs) = Inr ps \<Longrightarrow> ps = map ac_payload cs"
  using payload_dec_only by (induction cs arbitrary: ps) auto

lemma same_mapping_find:
  "one_each cs \<Longrightarrow> find (\<lambda>c. ac_payload c = n) cs = r \<Longrightarrow>
     (case r of None \<Rightarrow> n \<notin> ac_payload ` set cs | Some c \<Rightarrow> ac_payload c = n \<and> (\<forall>c'\<in>set cs. ac_payload c' = n \<longrightarrow> c' = c))"
  by (auto simp: one_each_def find_None_iff find_Some_iff split: option.splits)

lemma same_state_last:
  assumes "same_state sel st st'" and "ss_sections st = xs @ [(s, m)]"
  obtains xs' m' where "ss_sections st' = xs' @ [(s, m')]" "length xs' = length xs" "same_mapping (sel ! length xs) m m'"
    "\<And>s1 m1 m1'. same_mapping (sel ! length xs) m1 m1' \<Longrightarrow>
       same_state sel (st\<lparr>ss_sections := xs @ [(s1, m1)]\<rparr>) (st'\<lparr>ss_sections := xs' @ [(s1, m1')]\<rparr>)"
proof -
  have len: "length (ss_sections st') = Suc (length xs)" using assms by (simp add: same_state_def)
  then obtain xs' s' m' where xs': "ss_sections st' = xs' @ [(s', m')]" by (cases "ss_sections st'" rule: rev_cases) auto
  have each: "fst (ss_sections st' ! i) = fst (ss_sections st ! i)
      \<and> same_mapping (sel ! i) (snd (ss_sections st ! i)) (snd (ss_sections st' ! i))" if "i < Suc (length xs)" for i
    using assms that by (simp add: same_state_def)
  have eq: "length xs' = length xs" using len xs' by simp
  have "s' = s" "same_mapping (sel ! length xs) m m'" using each [of "length xs"] eq by (auto simp: xs' assms(2) nth_append)
  moreover have "same_state sel (st\<lparr>ss_sections := xs @ [(s1, m1)]\<rparr>) (st'\<lparr>ss_sections := xs' @ [(s1, m1')]\<rparr>)"
    if "same_mapping (sel ! length xs) m1 m1'" for s1 m1 m1'
  proof -
    have "fst ((xs' @ [(s1, m1')]) ! i) = fst ((xs @ [(s1, m1)]) ! i)
        \<and> same_mapping (sel ! i) (snd ((xs @ [(s1, m1)]) ! i)) (snd ((xs' @ [(s1, m1')]) ! i))" if i: "i < Suc (length xs)" for i
    proof (cases "i = length xs")
      case True
      then show ?thesis using \<open>same_mapping (sel ! length xs) m1 m1'\<close> eq by (simp add: nth_append)
    next
      case False
      then show ?thesis using each [of i] i eq by (simp add: xs' assms(2) nth_append)
    qed
    then show ?thesis using assms eq by (simp add: same_state_def)
  qed
  ultimately show ?thesis using that [of xs' m'] xs' eq by blast
qed

lemma attribute_line_last:
  assumes "ss_sections st = xs @ [(s, m)]"
  shows "attribute_line l st = Inr st1 \<longleftrightarrow>
    (\<exists>s1 m1. attributes s l = Inr s1 \<and> mapping_attribute m l = Inr m1 \<and> st1 = st\<lparr>ss_sections := xs @ [(s1, m1)]\<rparr>)
    \<and> \<not> starts_with l (S ''a=sctp-'') \<and> \<not> starts_with l (S ''a=simulcast:'')"
  using assms by (auto simp: attribute_line_def simp del: S_simps split: if_splits)

lemma sdp_line_attribute:
  "strip_prefix l (S ''a=group:BUNDLE '') = None \<Longrightarrow> \<not> starts_with l (S ''m='') \<Longrightarrow> sdp_line l st = attribute_line l st"
  by (simp add: sdp_line_def del: S_simps)

lemma local_format_line:
  "mapping_kind (S ''a=fmtp:'' @ dec n @ S '' minptime=10;useinbandfec=1;stereo=1;cbr=0'') = Some (dec n @ 32 # local_format, True)"
  "split_once 32 (dec n @ 32 # local_format) = Some (dec n, local_format)"
  "trim local_format = local_format"
proof -
  show "mapping_kind (S ''a=fmtp:'' @ dec n @ S '' minptime=10;useinbandfec=1;stereo=1;cbr=0'') = Some (dec n @ 32 # local_format, True)"
    by (simp add: mapping_kind_def strip_prefix_def starts_with_def local_format_def)
  have "32 \<notin> set w \<Longrightarrow> split_once 32 (w @ 32 # r) = Some (w, r)" for w r :: str by (induction w) auto
  moreover have "32 \<notin> set (dec n)" using dec_word [of n] by (auto simp: list_ex_iff is_whitespace_def)
  ultimately show "split_once 32 (dec n @ 32 # local_format) = Some (dec n, local_format)" by simp
  show "trim local_format = local_format" by (simp add: local_format_def trim_def is_whitespace_def)
qed

text \<open>A line that stays says the same about the mapping of the selected codecs, unless it is the format of an Opus codec.\<close>

lemma mapping_kept:
  assumes m: "mapping_attribute m l = Inr m1" "mapping_attribute m' l = Inr m1'" and same: "same_mapping cs m m'"
    and keep: "\<And>v n. mapping_kind l = Some (v, True) \<Longrightarrow> payload (first_word v) = Inr n \<Longrightarrow> \<forall>c\<in>set cs. ac_payload c = n \<longrightarrow> \<not> ac_opus c"
      "\<And>v n. mapping_kind l = Some (v, False) \<Longrightarrow> payload (first_word v) = Inr n \<Longrightarrow> \<forall>c\<in>set cs. ac_payload c = n \<longrightarrow> \<not> ac_opus c"
  shows "same_mapping cs m1 m1'"
proof (cases "mapping_kind l")
  case None
  with m same show ?thesis by (simp add: mapping_attribute_Inr)
next
  case (Some vf)
  obtain v f where vf: "vf = (v, f)" by (cases vf)
  with m Some obtain a b n where k: "split_once 32 v = Some (a, b)" "payload a = Inr n"
    and m1: "m1 = (if f then m\<lparr>mp_formats := (mp_formats m)(n \<mapsto> trim b)\<rparr> else m\<lparr>mp_names := (mp_names m)(n \<mapsto> trim b)\<rparr>)"
    and m1': "m1' = (if f then m'\<lparr>mp_formats := (mp_formats m')(n \<mapsto> trim b)\<rparr> else m'\<lparr>mp_names := (mp_names m')(n \<mapsto> trim b)\<rparr>)"
    by (auto simp: mapping_attribute_Inr)
  have "payload (first_word v) = Inr n" using first_word_number [OF k] k(2) by simp
  then have "\<forall>c\<in>set cs. ac_payload c = n \<longrightarrow> \<not> ac_opus c" using keep [of v n] Some vf by (cases f) auto
  with same show ?thesis by (cases f) (auto simp: same_mapping_def m1 m1')
qed

text \<open>A line left out said nothing about the names of the selected codecs, or was the format of an Opus codec.\<close>

lemma mapping_left_out:
  assumes m: "mapping_attribute m l = Inr m1" and same: "same_mapping cs m m'"
    and out: "\<And>v n. mapping_kind l = Some (v, f) \<Longrightarrow> payload (first_word v) = Inr n \<Longrightarrow> n \<notin> ac_payload ` set cs
      \<or> f \<and> (\<forall>c\<in>set cs. ac_payload c = n \<longrightarrow> ac_opus c)"
    and f: "\<And>v g. mapping_kind l = Some (v, g) \<Longrightarrow> g = f"
  shows "same_mapping cs m1 m'"
proof (cases "mapping_kind l")
  case None
  with m same show ?thesis by (simp add: mapping_attribute_Inr)
next
  case (Some vf)
  then obtain v where vf: "mapping_kind l = Some (v, f)" using f by (cases vf) auto
  with m obtain a b n where k: "split_once 32 v = Some (a, b)" "payload a = Inr n"
    and m1: "m1 = (if f then m\<lparr>mp_formats := (mp_formats m)(n \<mapsto> trim b)\<rparr> else m\<lparr>mp_names := (mp_names m)(n \<mapsto> trim b)\<rparr>)"
    by (auto simp: mapping_attribute_Inr)
  have "payload (first_word v) = Inr n" using first_word_number [OF k] k(2) by simp
  with out [OF vf] have "n \<notin> ac_payload ` set cs \<or> f \<and> (\<forall>c\<in>set cs. ac_payload c = n \<longrightarrow> ac_opus c)" by blast
  with same show ?thesis by (cases f) (auto simp: same_mapping_def m1)
qed

lemma codec_attribute_kind:
  "codec_attribute l = Some v \<Longrightarrow> mapping_kind l = Some (w, f) \<Longrightarrow> w = v"
  using mapping_kind_codec by fastforce

lemma attribute_step:
  assumes same: "same_state sel st st'" and st: "ss_sections st = xs @ [(s, m)]" and one: "one_each (sel ! length xs)"
    and l: "strip_prefix l (S ''a=group:BUNDLE '') = None" "\<not> starts_with l (S ''m='')"
    and read: "sdp_line l st = Inr st1" and new: "rewrite_attribute (sel ! length xs) l = Inr new" and again: "sdp_lines new st' = Inr st1'"
  shows "same_state sel st1 st1' \<and> length (ss_sections st1) = length (ss_sections st)"
proof -
  let ?cs = "sel ! length xs"
  obtain xs' m' where xs': "ss_sections st' = xs' @ [(s, m')]" "length xs' = length xs" "same_mapping ?cs m m'"
    and put: "\<And>s1 m1 m1'. same_mapping ?cs m1 m1' \<Longrightarrow>
       same_state sel (st\<lparr>ss_sections := xs @ [(s1, m1)]\<rparr>) (st'\<lparr>ss_sections := xs' @ [(s1, m1')]\<rparr>)"
    using same_state_last [OF same st] by blast
  obtain s1 m1 where st1: "attributes s l = Inr s1" "mapping_attribute m l = Inr m1" "st1 = st\<lparr>ss_sections := xs @ [(s1, m1)]\<rparr>"
    using read sdp_line_attribute [OF l] attribute_line_last [OF st] by metis
  have len: "length (ss_sections st1) = length (ss_sections st)" using st st1 by simp
  have as_is: "\<exists>m1'. mapping_attribute m' l = Inr m1' \<and> st1' = st'\<lparr>ss_sections := xs' @ [(s1, m1')]\<rparr>" if "new = [l]"
    using again that sdp_line_attribute [OF l] attribute_line_last [OF xs'(1), of l st1'] st1(1) by auto
  have keep_all: "same_state sel st1 st1'" if nl: "new = [l]"
    and no: "\<And>v f n. mapping_kind l = Some (v, f) \<Longrightarrow> payload (first_word v) = Inr n \<Longrightarrow> \<forall>c\<in>set ?cs. ac_payload c = n \<longrightarrow> \<not> ac_opus c"
  proof -
    obtain m1' where m1': "mapping_attribute m' l = Inr m1'" "st1' = st'\<lparr>ss_sections := xs' @ [(s1, m1')]\<rparr>" using as_is [OF nl] by blast
    have "same_mapping ?cs m1 m1'" by (rule mapping_kept [OF st1(2) m1'(1) xs'(3) no no])
    then show ?thesis using put st1(3) m1'(2) by simp
  qed
  show ?thesis
  proof (cases "codec_attribute l")
    case None
    then have "mapping_kind l = None" using mapping_kind_codec by (cases "mapping_kind l") auto
    moreover have "new = [l]" using new None by (simp add: rewrite_attribute_def)
    ultimately show ?thesis using keep_all len by simp
  next
    case (Some v)
    note kind = codec_attribute_kind [OF Some]
    have s1: "s1 = s" using st1(1) codec_line_other(1) [OF Some] by (simp add: attributes_def)
    show ?thesis
    proof (cases "first_word v = S ''*''")
      case True
      have "payload (S ''*'') \<noteq> Inr n" for n by (simp add: payload_def parse_uint_def strip_prefix_def starts_with_def is_ascii_digit_def)
      with True have "mapping_kind l = Some (w, f) \<Longrightarrow> payload (first_word w) = Inr n \<Longrightarrow> False" for w f n using kind [of w f] by metis
      moreover have "new = [l]" using new Some True by (simp add: rewrite_attribute_def del: S_simps)
      ultimately show ?thesis using keep_all len by blast
    next
      case False
      then obtain n where n: "payload (first_word v) = Inr n"
        using new Some by (auto simp: rewrite_attribute_def simp del: S_simps)
      let ?r = "find (\<lambda>c. ac_payload c = n) ?cs"
      note found = same_mapping_find [OF one refl [of ?r]]
      have rest: "(case ?r of None \<Rightarrow> Inr [] | Some c \<Rightarrow>
                if ac_opus c \<and> starts_with l (S ''a=fmtp:'') then Inr []
                else if ac_opus c \<and> starts_with l (S ''a=rtpmap:'')
                then Inr [l, S ''a=fmtp:'' @ dec n @ S '' minptime=10;useinbandfec=1;stereo=1;cbr=0'']
                else Inr [l]) = (Inr new :: str + str list)"
        using new False n unfolding rewrite_attribute_def Some by (simp add: and_then_def del: S_simps)
      show ?thesis
      proof (cases ?r)
        case None
        then have "st1' = st'" using rest again by simp
        moreover have "same_mapping ?cs m1 m'"
        proof (cases "mapping_kind l")
          case None
          with st1(2) xs'(3) show ?thesis by (simp add: mapping_attribute_Inr)
        next
          case (Some wf)
          then show ?thesis using mapping_left_out [OF st1(2) xs'(3), of "snd wf"] found n kind \<open>?r = None\<close>
            by (cases wf) fastforce
        qed
        ultimately show ?thesis using put [of m1 m' s] st1(3) s1 xs'(1) len by (cases st') simp
      next
        case (Some c)
        have c: "\<And>c'. c' \<in> set ?cs \<Longrightarrow> ac_payload c' = n \<Longrightarrow> c' = c" "ac_payload c = n"
          using found unfolding Some by simp_all
        consider (fmtp) "ac_opus c" "starts_with l (S ''a=fmtp:'')"
          | (rtpmap) "ac_opus c" "\<not> starts_with l (S ''a=fmtp:'')" "starts_with l (S ''a=rtpmap:'')"
          | (plain) "new = [l]" "\<not> ac_opus c \<or> mapping_kind l = None"
          using rest Some mapping_kind_starts [of l] by (cases "mapping_kind l") (auto simp del: S_simps split: if_splits)
        then show ?thesis
        proof cases
          case fmtp
          then have "st1' = st'" using rest Some again by (simp del: S_simps)
          moreover have "same_mapping ?cs m1 m'"
          proof (rule mapping_left_out [OF st1(2) xs'(3), of True])
            show "g = True" if "mapping_kind l = Some (w, g)" for w g using mapping_kind_starts [OF that] fmtp(2) by (simp del: S_simps)
            show "k \<notin> ac_payload ` set ?cs \<or> True \<and> (\<forall>c\<in>set ?cs. ac_payload c = k \<longrightarrow> ac_opus c)"
              if "mapping_kind l = Some (w, True)" "payload (first_word w) = Inr k" for w k
              using kind [OF that(1)] that(2) n c(1) fmtp(1) by auto
          qed
          ultimately show ?thesis using put [of m1 m' s] st1(3) s1 xs'(1) len by (cases st') simp
        next
          case rtpmap
          let ?l2 = "S ''a=fmtp:'' @ dec n @ S '' minptime=10;useinbandfec=1;stereo=1;cbr=0''"
          have k: "mapping_kind l = Some (v, False)"
          proof -
            obtain w where "strip_prefix l (S ''a=rtpmap:'') = Some w" using rtpmap(3) by (simp add: strip_prefix_def del: S_simps)
            then have "mapping_kind l = Some (w, False)" by (simp add: mapping_kind_def del: S_simps)
            with kind show ?thesis by blast
          qed
          have "new = [l, ?l2]" using rest Some rtpmap by (simp del: S_simps)
          then obtain sta where sta: "sdp_line l st' = Inr sta" "sdp_line ?l2 sta = Inr st1'" using again by (auto simp del: S_simps)
          then obtain ma where ma: "mapping_attribute m' l = Inr ma" "sta = st'\<lparr>ss_sections := xs' @ [(s, ma)]\<rparr>"
            using sdp_line_attribute [OF l] attribute_line_last [OF xs'(1), of l sta] st1(1) s1 by auto
          note fmt = local_format_line(1) [of n]
          note other = codec_line_other [OF mapping_kind_codec [OF fmt]]
          have "ss_sections sta = xs' @ [(s, ma)]" using ma(2) by simp
          then obtain s2 mb where "attributes s ?l2 = Inr s2" and mb: "mapping_attribute ma ?l2 = Inr mb" "st1' = sta\<lparr>ss_sections := xs' @ [(s2, mb)]\<rparr>"
            using sta(2) sdp_line_attribute [OF other(2,3)] attribute_line_last [of sta xs' s ma ?l2 st1'] by metis
          moreover have "attributes s ?l2 = Inr s" using other(1) by (simp add: attributes_def del: S_simps)
          ultimately have s2: "s2 = s" by simp
          have m1: "\<exists>b. m1 = m\<lparr>mp_names := (mp_names m)(n \<mapsto> b)\<rparr> \<and> ma = m'\<lparr>mp_names := (mp_names m')(n \<mapsto> b)\<rparr>"
          proof -
            obtain a b n' where o: "split_once 32 v = Some (a, b)" "payload a = Inr n'" and m1: "m1 = m\<lparr>mp_names := (mp_names m)(n' \<mapsto> trim b)\<rparr>"
              using st1(2) k by (auto simp: mapping_attribute_Inr)
            have "n' = n" using first_word_number [OF o] o(2) n by simp
            moreover have "ma = m'\<lparr>mp_names := (mp_names m')(n' \<mapsto> trim b)\<rparr>"
              using ma(1) k o by (auto simp: mapping_attribute_Inr)
            ultimately show ?thesis using m1 by blast
          qed
          have "mb = ma\<lparr>mp_formats := (mp_formats ma)(n \<mapsto> local_format)\<rparr>"
            using mb(1) fmt payload_dec_only [of n] by (auto simp: mapping_attribute_Inr local_format_line simp del: S_simps)
          with m1 xs'(3) c rtpmap(1) have "same_mapping ?cs m1 mb" by (auto simp: same_mapping_def)
          then show ?thesis using put [of m1 mb s] st1(3) s1 s2 mb(2) ma(2) len by simp
        next
          case plain
          have "\<forall>c\<in>set ?cs. ac_payload c = k \<longrightarrow> \<not> ac_opus c"
            if k: "mapping_kind l = Some (w, f)" "payload (first_word w) = Inr k" for w f k
            using kind [OF k(1)] k n c(1) plain(2) by auto
          then show ?thesis using keep_all [OF plain(1)] len by blast
        qed
      qed
    qed
  qed
qed

section \<open>All lines\<close>

lemma media_step:
  assumes same: "same_state sel st st'" and room: "length (ss_sections st) < length sel"
    and l: "strip_prefix l (S ''a=group:BUNDLE '') = None" "starts_with l (S ''m='')"
    and read: "sdp_line l st = Inr st1" and new: "rewrite_media (sel ! length (ss_sections st)) l = Some l'" and again: "sdp_line l' st' = Inr st1'"
  shows "same_state sel st1 st1' \<and> length (ss_sections st1) = Suc (length (ss_sections st))"
proof -
  let ?fs = "split_whitespace l" let ?cs = "sel ! length (ss_sections st)"
  have m: "media_line ?fs st = Inr st1" using read l by (simp add: sdp_line_def del: S_simps)
  then have ok: "\<not> media_refused ?fs" by (auto simp: media_line_def simp del: S_simps split: if_splits)
  then obtain ps where st1: "st1 = st\<lparr>ss_sections := ss_sections st @ [((ss_defaults st)\<lparr>sc_video := (?fs ! 0 = S ''m=video'')\<rparr>,
                    \<lparr>mp_payloads = ps, mp_names = (\<lambda>_. None), mp_formats = (\<lambda>_. None)\<rparr>)]\<rparr>"
    using m by (auto simp: media_line_def simp del: S_simps split: if_splits)
  note words = rewrite_media_words [OF new]
  have "\<exists>t. join_strs [32] (a # r) = a @ t" for a :: str and r by (cases r) auto
  moreover obtain a b r where "?fs = a # b # r" using words(2) by (cases ?fs; cases "tl ?fs") auto
  moreover have "l' = join_strs [32] (take 3 ?fs) @ concat (map (\<lambda>c. 32 # dec (ac_payload c)) ?cs)"
    using new by (auto simp: rewrite_media_def Let_def split: if_splits)
  ultimately obtain t where "l' = ?fs ! 0 @ t" by (metis append.assoc nth_Cons_0 numeral_3_eq_3 take_Suc_Cons)
  moreover have "?fs ! 0 \<in> {S ''m=audio'', S ''m=video''}" using ok by (auto simp: media_refused_def simp del: S_simps)
  ultimately have "strip_prefix l' (S ''a=group:BUNDLE '') = None" "starts_with l' (S ''m='')"
    by (auto simp: strip_prefix_def starts_with_def)
  then have "media_line (split_whitespace l') st' = Inr st1'" using again by (simp add: sdp_line_def del: S_simps)
  moreover have "split_whitespace l' ! 0 = ?fs ! 0" "drop 3 (split_whitespace l') = map (\<lambda>c. dec (ac_payload c)) ?cs"
    using words by (simp_all add: nth_append)
  ultimately have "st1' = st'\<lparr>ss_sections := ss_sections st' @ [((ss_defaults st')\<lparr>sc_video := (?fs ! 0 = S ''m=video'')\<rparr>,
                    \<lparr>mp_payloads = map ac_payload ?cs, mp_names = (\<lambda>_. None), mp_formats = (\<lambda>_. None)\<rparr>)]\<rparr>"
    using payloads_dec_only [of ?cs] by (auto simp: media_line_def simp del: S_simps split: if_splits)
  with st1 same room show ?thesis by (auto simp: same_state_def nth_append same_mapping_def less_Suc_eq)
qed

lemma bundle_line_kept: "strip_prefix l (S ''a=group:BUNDLE '') = Some v \<Longrightarrow> \<not> starts_with l (S ''m='') \<and> codec_attribute l = None"
proof -
  assume "strip_prefix l (S ''a=group:BUNDLE '') = Some v"
  then obtain t where "l = S ''a=group:BUNDLE '' @ t"
    by (auto simp: strip_prefix_def starts_with_iff simp del: S_simps split: if_splits)
  then show ?thesis by (auto simp: codec_attribute_def strip_prefix_def starts_with_def)
qed

lemma sdp_lines_append: "sdp_lines (as @ bs) st = and_then (sdp_lines as st) (sdp_lines bs)"
  by (induction as arbitrary: st) (auto simp: and_then_def split: sum.splits)

lemma sdp_line_length: "sdp_line l st = Inr st1 \<Longrightarrow> length (ss_sections st) \<le> length (ss_sections st1)"
  by (auto simp: sdp_line_def media_line_def attribute_line_def simp del: S_simps split: option.splits if_splits)

lemma sdp_lines_length: "sdp_lines ls st = Inr st1 \<Longrightarrow> length (ss_sections st) \<le> length (ss_sections st1)"
  by (induction ls arbitrary: st) (fastforce dest: sdp_line_length)+

lemma rewrite_step:
  assumes read: "sdp_line l st = Inr st1" and out: "rewrite_lines sel (section_index st) (l # ls) = Some (Inr out)"
    and one: "\<forall>cs\<in>set sel. one_each cs" and len: "length (ss_sections st) \<le> length sel"
  obtains new rest where "out = new @ rest" "rewrite_lines sel (section_index st1) ls = Some (Inr rest)" "length (ss_sections st1) \<le> length sel"
    "\<And>st' st1'. same_state sel st st' \<Longrightarrow> sdp_lines new st' = Inr st1' \<Longrightarrow> same_state sel st1 st1'"
proof -
  have "\<exists>new rest. out = new @ rest \<and> rewrite_lines sel (section_index st1) ls = Some (Inr rest) \<and> length (ss_sections st1) \<le> length sel
      \<and> (\<forall>st' st1'. same_state sel st st' \<longrightarrow> sdp_lines new st' = Inr st1' \<longrightarrow> same_state sel st1 st1')"
  proof (cases "strip_prefix l (S ''a=group:BUNDLE '')")
    case (Some v)
    note b = bundle_line_kept [OF Some]
    have st1: "ss_bundle st = None" "st1 = st\<lparr>ss_bundle := Some (split_whitespace v)\<rparr>"
      using read Some by (auto simp: sdp_line_def simp del: S_simps split: if_splits)
    then have i: "section_index st1 = section_index st" by (simp add: section_index_def)
    obtain rest where "out = [l] @ rest" "rewrite_lines sel (section_index st) ls = Some (Inr rest)"
      using out b by (cases "section_index st") (auto simp: rewrite_attribute_def simp del: S_simps split: bind_splits)
    moreover have "same_state sel st1 st1'" if "same_state sel st st'" "sdp_lines [l] st' = Inr st1'" for st' st1'
      using that Some st1 by (auto simp: sdp_line_def same_state_def simp del: S_simps split: if_splits)
    ultimately show ?thesis using i len st1(2) by (intro exI [of _ "[l]"] exI [of _ rest]) simp
  next
    case None
    show ?thesis
    proof (cases "starts_with l (S ''m='')")
      case True
      have j: "(case section_index st of None \<Rightarrow> 0 | Some k \<Rightarrow> Suc k) = length (ss_sections st)" by (simp add: section_index_def)
      obtain m rest where room: "length (ss_sections st) < length sel" and m: "rewrite_media (sel ! length (ss_sections st)) l = Some m"
        and rest: "rewrite_lines sel (Some (length (ss_sections st))) ls = Some (Inr rest)" "out = [m] @ rest"
        using out True unfolding rewrite_lines.simps j by (auto simp: Let_def simp del: S_simps split: if_splits bind_splits)
      have n: "length (ss_sections st1) = Suc (length (ss_sections st))"
        using read None True by (auto simp: sdp_line_def media_line_def simp del: S_simps split: if_splits)
      then have "section_index st1 = Some (length (ss_sections st))" by (auto simp: section_index_def)
      moreover have "same_state sel st1 st1'" if "same_state sel st st'" "sdp_lines [m] st' = Inr st1'" for st' st1'
        using media_step [OF that(1) room None True read m] that(2) by simp
      ultimately show ?thesis using rest room n by (intro exI [of _ "[m]"] exI [of _ rest]) simp
    next
      case False
      show ?thesis
      proof (cases "ss_sections st = []")
        case True
        then have i: "section_index st = None" by (simp add: section_index_def)
        have e: "ss_sections st1 = []" using read True None False
          by (auto simp: sdp_line_def attribute_line_def simp del: S_simps split: if_splits)
        obtain rest where "out = [l] @ rest" "rewrite_lines sel None ls = Some (Inr rest)"
          using out False unfolding i by (auto simp del: S_simps split: bind_splits)
        moreover have "same_state sel st1 st1'" if "same_state sel st st'" "sdp_lines [l] st' = Inr st1'" for st' st1'
          using that read True None False
          by (auto simp: sdp_line_def attribute_line_def same_state_def simp del: S_simps split: if_splits)
        ultimately show ?thesis using e by (intro exI [of _ "[l]"] exI [of _ rest]) (simp add: section_index_def)
      next
        case nonempty: False
        then obtain xs s m where xs: "ss_sections st = xs @ [(s, m)]" by (metis append_butlast_last_id prod.exhaust)
        then have i: "section_index st = Some (length xs)" by (simp add: section_index_def)
        have one': "one_each (sel ! length xs)" using one len xs by simp
        obtain new rest where new: "rewrite_attribute (sel ! length xs) l = Inr new"
            and rest: "rewrite_lines sel (Some (length xs)) ls = Some (Inr rest)" "out = new @ rest"
          using out False unfolding i by (auto simp del: S_simps split: bind_splits sum.splits)
        have n: "length (ss_sections st1) = length (ss_sections st)"
          using read None False xs by (auto simp: sdp_line_def attribute_line_def simp del: S_simps split: if_splits)
        then have "section_index st1 = Some (length xs)" using xs by (auto simp: section_index_def)
        moreover have "same_state sel st1 st1'" if "same_state sel st st'" "sdp_lines new st' = Inr st1'" for st' st1'
          using attribute_step [OF that(1) xs one' None False read new that(2)] by simp
        ultimately show ?thesis using rest len n by (intro exI [of _ new] exI [of _ rest]) simp
      qed
    qed
  qed
  then show thesis using that by blast
qed

lemma rewrite_same:
  "sdp_lines ls st = Inr stf \<Longrightarrow> same_state sel st st' \<Longrightarrow> rewrite_lines sel (section_index st) ls = Some (Inr out) \<Longrightarrow>
     sdp_lines out st' = Inr stf' \<Longrightarrow> \<forall>cs\<in>set sel. one_each cs \<Longrightarrow> same_state sel stf stf'"
proof (induction ls arbitrary: st st' out)
  case (Cons l ls)
  then obtain st1 where st1: "sdp_line l st = Inr st1" "sdp_lines ls st1 = Inr stf" by auto
  have len: "length (ss_sections st) \<le> length sel" using Cons.prems(2) by (simp add: same_state_def)
  obtain new rest where new: "out = new @ rest" "rewrite_lines sel (section_index st1) ls = Some (Inr rest)"
    and step: "\<And>st' st1'. same_state sel st st' \<Longrightarrow> sdp_lines new st' = Inr st1' \<Longrightarrow> same_state sel st1 st1'"
    using rewrite_step [OF st1(1) Cons.prems(3) Cons.prems(5) len] by metis
  obtain st1' where "sdp_lines new st' = Inr st1'" "sdp_lines rest st1' = Inr stf'" using Cons.prems(4) new(1) by (auto simp: sdp_lines_append)
  then show ?case using Cons.IH [OF st1(2) step new(2)] Cons.prems(2,5) by blast
qed simp

lemma local_format_read:
  "opus_parameters (format_entries local_format) [] (plain_codec n True False local_format) =
     Inr \<lparr>ac_payload = n, ac_opus = True, ac_h264 = False, ac_stereo = True, ac_fec = True, ac_cbr = False, ac_bitrate = None,
           ac_fmtp = local_format\<rparr>"
proof -
  have e: "format_entries local_format = [S ''minptime=10'', S ''useinbandfec=1'', S ''stereo=1'', S ''cbr=0'']"
    by (simp add: format_entries_def local_format_def trim_def is_whitespace_def)
  have s: "split_once 61 (S ''minptime=10'') = Some (S ''minptime'', S ''10'')" "split_once 61 (S ''useinbandfec=1'') = Some (S ''useinbandfec'', S ''1'')"
    "split_once 61 (S ''stereo=1'') = Some (S ''stereo'', S ''1'')" "split_once 61 (S ''cbr=0'') = Some (S ''cbr'', S ''0'')" by simp_all
  have t: "ascii_lower (trim (S ''minptime'')) = S ''minptime''" "ascii_lower (trim (S ''useinbandfec'')) = S ''useinbandfec''"
    "ascii_lower (trim (S ''stereo'')) = S ''stereo''" "ascii_lower (trim (S ''cbr'')) = S ''cbr''"
    "trim (S ''10'') = S ''10''" "trim (S ''1'') = S ''1''" "trim (S ''0'') = S ''0''"
    by (simp_all add: trim_def is_whitespace_def ascii_lower_def)
  have u: "opus_parameter (S ''minptime'') (S ''10'') c = Inr c" "opus_parameter (S ''useinbandfec'') (S ''1'') c = Inr (c\<lparr>ac_fec := True\<rparr>)"
    "opus_parameter (S ''stereo'') (S ''1'') c = Inr (c\<lparr>ac_stereo := True\<rparr>)" "opus_parameter (S ''cbr'') (S ''0'') c = Inr (c\<lparr>ac_cbr := False\<rparr>)" for c
    by (simp_all add: opus_parameter_def and_then_def parse_uint_def strip_prefix_def starts_with_def is_ascii_digit_def digits_value_def)
  have d: "S ''useinbandfec'' \<noteq> S ''minptime''" "S ''stereo'' \<notin> {S ''useinbandfec'', S ''minptime''}"
    "S ''cbr'' \<notin> {S ''stereo'', S ''useinbandfec'', S ''minptime''}" by simp_all
  show ?thesis unfolding e using d by (simp add: s t u and_then_def ok_or_def plain_codec_def Let_def del: S_simps)
qed

lemma local_codec_read:
  assumes m: "same_mapping cs m m'" and c: "c \<in> set cs" "codec_at video m (ac_payload c) c" and c': "codec_at video m' (ac_payload c) c'"
  shows "c' = local_codec c"
proof -
  let ?n = "ac_payload c"
  have names: "mp_names m' ?n = mp_names m ?n" and formats: "mp_formats m' ?n =
      (if ac_opus c then (if mp_names m ?n = None then None else Some local_format) else mp_formats m ?n)"
    using m c(1) by (auto simp: same_mapping_def)
  have opus: "is_opus m' ?n = is_opus m ?n" by (simp add: is_opus_def names)
  note fields = codec_at_fields [OF c(2)]
  show ?thesis
  proof (cases "ac_opus c")
    case True
    with fields have o: "is_opus m ?n" "\<not> video" by auto
    then have "mp_names m ?n \<noteq> None" unfolding is_opus_def by (cases "mp_names m ?n") simp_all
    then have "format_of m' ?n = local_format" unfolding format_of_def formats if_P [OF True] by (simp only: if_False option.case)
    then have "Inr c' = (Inr (local_codec c) :: str + audio_codec)"
      using c' o opus local_format_read [of ?n] True by (simp add: codec_at_def local_codec_def)
    then show ?thesis by simp
  next
    case False
    then have "format_of m' ?n = format_of m ?n" using formats by (simp add: format_of_def)
    with False c(2) c' fields opus show ?thesis by (auto simp: codec_at_def local_codec_def split: if_splits)
  qed
qed

lemma local_section:
  assumes before: "with_codecs (s0, m) = Inr s" and after: "with_codecs (s0, m') = Inr s'" and same: "same_mapping cs m m'"
    and cs: "set cs \<subseteq> set (sc_codecs s)"
  shows "s' = s\<lparr>sc_codecs := map local_codec cs\<rparr>"
proof -
  let ?v = "sc_video s0"
  obtain as where as: "s = s0\<lparr>sc_codecs := as\<rparr>" "list_all2 (codec_at ?v m) (filter (keeps ?v m) (mp_payloads m)) as"
    using with_codecs_at [OF before] by metis
  obtain bs where bs: "s' = s0\<lparr>sc_codecs := bs\<rparr>" "list_all2 (codec_at ?v m') (filter (keeps ?v m') (mp_payloads m')) bs"
    using with_codecs_at [OF after] by metis
  have at: "codec_at ?v m (ac_payload c) c" if c: "c \<in> set cs" for c
  proof -
    have "c \<in> set as" using c cs as(1) by auto
    then obtain i where "i < length as" "as ! i = c" unfolding in_set_conv_nth by blast
    then have "codec_at ?v m (filter (keeps ?v m) (mp_payloads m) ! i) c" using list_all2_nthD2 [OF as(2)] by blast
    then show ?thesis using codec_at_fields by metis
  qed
  have kept: "keeps ?v m' (ac_payload c)" if c: "c \<in> set cs" for c
  proof -
    have n: "mp_names m' (ac_payload c) = mp_names m (ac_payload c)" and f: "\<not> ac_opus c \<Longrightarrow> mp_formats m' (ac_payload c) = mp_formats m (ac_payload c)"
      using same c by (auto simp: same_mapping_def)
    have k: "keeps ?v m (ac_payload c)" using at [OF c] by (simp add: codec_at_def)
    show ?thesis
    proof (cases ?v)
      case True
      with codec_at_fields [OF at [OF c]] f k n show ?thesis by (simp add: keeps_video_def is_h264_def format_of_def)
    next
      case False
      with k n show ?thesis by (simp add: is_pcmu_def is_opus_def)
    qed
  qed
  have "mp_payloads m' = map ac_payload cs" using same by (simp add: same_mapping_def)
  then have "filter (keeps ?v m') (mp_payloads m') = map ac_payload cs" using kept by (simp add: filter_id_conv)
  then have "list_all2 (\<lambda>c b. codec_at ?v m' (ac_payload c) b) cs bs" using bs(2) by (simp add: list_all2_map1)
  then have "list_all2 (\<lambda>c b. b = local_codec c) cs bs"
    using local_codec_read [OF same _ at] by (simp add: list_all2_conv_all_nth)
  then have "bs = map local_codec cs" by (simp add: list_all2_conv_all_nth list_eq_iff_nth_eq)
  with as(1) bs(1) show ?thesis by simp
qed

section \<open>The text written\<close>

lemma no_break_plain: "10 \<notin> set l \<Longrightarrow> 13 \<notin> set l \<Longrightarrow> plain_line l"
  by (metis last_in_set plain_line_def)

lemma word_no_break: "\<not> list_ex is_whitespace w \<Longrightarrow> 10 \<notin> set w \<and> 13 \<notin> set w"
proof -
  have "is_whitespace 10" "is_whitespace 13" by (simp_all add: is_whitespace_def)
  then show "\<not> list_ex is_whitespace w \<Longrightarrow> 10 \<notin> set w \<and> 13 \<notin> set w" unfolding list_ex_iff by blast
qed

lemma join_strs_set: "set (join_strs sep ws) \<subseteq> set sep \<union> \<Union> (set ` set ws)"
  by (induction sep ws rule: join_strs.induct) auto

lemma rewrite_media_plain:
  assumes "rewrite_media cs l = Some l'"
  shows "plain_line l'"
proof -
  have l': "l' = join_strs [32] (take 3 (split_whitespace l)) @ concat (map (\<lambda>c. 32 # dec (ac_payload c)) cs)"
    using assms by (auto simp: rewrite_media_def Let_def split: if_splits)
  have no: "b \<notin> set w" if "b = 10 \<or> b = 13" "w \<in> set (take 3 (split_whitespace l)) \<union> range dec" for b w
  proof -
    have "\<not> list_ex is_whitespace w" using that(2) split_whitespace_words dec_word by (auto dest: in_set_takeD)
    then show ?thesis using word_no_break that(1) by blast
  qed
  have "b \<notin> set l'" if b: "b = 10 \<or> b = 13" for b
  proof
    assume "b \<in> set l'"
    then consider "b \<in> set (join_strs [32] (take 3 (split_whitespace l)))" | c :: audio_codec where "b \<in> set (dec (ac_payload c))" | "b = 32"
      unfolding l' by (auto split: if_splits)
    then show False
    proof cases
      case 1
      then obtain w where "w \<in> set (take 3 (split_whitespace l))" "b \<in> set w" using join_strs_set [of "[32]"] b by fastforce
      then show False using no [OF b, of w] by blast
    next
      case 2
      then show False using no [OF b] by blast
    next
      case 3
      with b show False by simp
    qed
  qed
  then show ?thesis by (intro no_break_plain) blast+
qed

lemma rewrite_attribute_plain: "plain_line l \<Longrightarrow> rewrite_attribute cs l = Inr new \<Longrightarrow> list_all plain_line new"
proof -
  assume l: "plain_line l" and new: "rewrite_attribute cs l = Inr new"
  have fmt: "plain_line (S ''a=fmtp:'' @ dec n @ S '' minptime=10;useinbandfec=1;stereo=1;cbr=0'')" for n
    using word_no_break [OF conjunct2 [OF dec_word [of n]]] by (intro no_break_plain) simp_all
  consider "new = [l]" | "new = []" | n where "new = [l, S ''a=fmtp:'' @ dec n @ S '' minptime=10;useinbandfec=1;stereo=1;cbr=0'']"
    using new by (auto simp: rewrite_attribute_def simp del: S_simps split: option.splits if_splits)
  then show ?thesis using l fmt by cases (simp_all del: S_simps)
qed

lemma rewrite_lines_plain:
  "rewrite_lines sel i ls = Some (Inr out) \<Longrightarrow> list_all plain_line ls \<Longrightarrow> list_all plain_line out"
proof (induction ls arbitrary: i out)
  case (Cons l ls)
  show ?case
  proof (cases "starts_with l (S ''m='')")
    case True
    with Cons.prems(1) obtain j m rest where "rewrite_media (sel ! j) l = Some m" "rewrite_lines sel (Some j) ls = Some (Inr rest)" "out = m # rest"
      by (auto simp: Let_def simp del: S_simps split: if_splits bind_splits)
    then show ?thesis using Cons.IH [of "Some j" rest] Cons.prems(2) rewrite_media_plain by auto
  next
    case False
    show ?thesis
    proof (cases i)
      case None
      with Cons.prems(1) False obtain rest where "rewrite_lines sel i ls = Some (Inr rest)" "out = l # rest"
        by (auto simp del: S_simps split: bind_splits)
      then show ?thesis using Cons.IH [of i rest] Cons.prems(2) by simp
    next
      case (Some k)
      with Cons.prems(1) False obtain new rest where "rewrite_attribute (sel ! k) l = Inr new" "rewrite_lines sel i ls = Some (Inr rest)" "out = new @ rest"
        by (auto simp del: S_simps split: bind_splits sum.splits)
      then show ?thesis using Cons.IH [of i rest] Cons.prems(2) rewrite_attribute_plain by auto
    qed
  qed
qed simp

lemma sdp_text_lines_plain: "list_all plain_line (sdp_text_lines t)"
  using plain_trim_end_cr lines_of_no_feed by (auto simp: sdp_text_lines_def list_all_iff)

lemma sdp_text_lines_written: "list_all plain_line ls \<Longrightarrow> sdp_text_lines (written ls) = ls"
  using lines_of_written [of ls] trim_end_cr_plain
  by (auto simp: sdp_text_lines_def written_def list_all_iff intro: map_idI)

section \<open>Every other line\<close>

text \<open>A line about codecs; all that is kept of a line in any case: a media line its first three words, any other line itself.\<close>

definition codec_line :: "str \<Rightarrow> bool" where
  "codec_line l \<longleftrightarrow> starts_with l (S ''a=rtpmap:'') \<or> starts_with l (S ''a=fmtp:'') \<or> starts_with l (S ''a=rtcp-fb:'')"

definition fixed_part :: "str \<Rightarrow> str list" where
  "fixed_part l = (if starts_with l (S ''m='') then take 3 (split_whitespace l) else [l])"

text \<open>The lines under the number of their section, \<open>0\<close> before the first media line.\<close>

fun in_sections :: "nat \<Rightarrow> str list \<Rightarrow> (nat \<times> str) list" where
  "in_sections k [] = []"
| "in_sections k (l # ls) = (let j = (if starts_with l (S ''m='') then Suc k else k) in (j, l) # in_sections j ls)"

text \<open>A feedback line, and one for every codec (\<open>*\<close>) or for one of \<open>cs\<close>.\<close>

definition feedback_line :: "str \<Rightarrow> bool" where
  "feedback_line l \<longleftrightarrow> starts_with l (S ''a=rtcp-fb:'')"

definition feedback_for :: "audio_codec list \<Rightarrow> str \<Rightarrow> bool" where
  "feedback_for cs l \<longleftrightarrow> (let w = first_word (drop 10 l) in w = S ''*'' \<or> (\<exists>c\<in>set cs. payload w = Inr (ac_payload c)))"

lemma codec_attribute_None: "codec_attribute l = None \<longleftrightarrow> \<not> codec_line l"
  by (simp add: codec_attribute_def codec_line_def strip_prefix_def del: S_simps split: option.splits)

lemma feedback_attribute: "feedback_line l \<Longrightarrow> codec_attribute l = Some (drop 10 l)"
  by (auto simp: feedback_line_def starts_with_iff codec_attribute_def strip_prefix_def starts_with_def)

lemma media_not_codec: "starts_with l (S ''m='') \<Longrightarrow> \<not> codec_line l \<and> \<not> feedback_line l"
  by (auto simp: starts_with_iff codec_line_def feedback_line_def starts_with_def)

lemma codec_not_media: "codec_line l \<Longrightarrow> \<not> starts_with l (S ''m='')"
  using media_not_codec by blast

lemma feedback_codec: "feedback_line l \<Longrightarrow> codec_line l"
  by (simp add: feedback_line_def codec_line_def)

lemma format_line: "codec_line (S ''a=fmtp:'' @ v)" "\<not> feedback_line (S ''a=fmtp:'' @ v)"
  by (simp_all add: codec_line_def feedback_line_def starts_with_def)

lemma rewrite_attribute_lines:
  assumes "rewrite_attribute cs l = Inr new" and "\<not> starts_with l (S ''m='')"
  shows "filter (\<lambda>l. \<not> codec_line l) new = (if codec_line l then [] else [l])"
    and "filter feedback_line new = (if feedback_line l \<and> feedback_for cs l then [l] else [])"
    and "list_all (\<lambda>l. \<not> starts_with l (S ''m='')) new"
proof -
  have a: "feedback_line l \<Longrightarrow> \<not> starts_with l (S ''a=fmtp:'') \<and> \<not> starts_with l (S ''a=rtpmap:'')"
    by (auto simp: feedback_line_def starts_with_iff starts_with_def)
  consider (other) "\<not> codec_line l" "new = [l]"
    | (all) v where "codec_attribute l = Some v" "first_word v = S ''*''" "new = [l]"
    | (none) v n where "codec_attribute l = Some v" "first_word v \<noteq> S ''*''" "payload (first_word v) = Inr n" "n \<notin> ac_payload ` set cs" "new = []"
    | (form) v where "codec_attribute l = Some v" "starts_with l (S ''a=fmtp:'')" "new = []"
    | (name) v n where "codec_attribute l = Some v" "starts_with l (S ''a=rtpmap:'')"
        "new = [l, S ''a=fmtp:'' @ dec n @ S '' minptime=10;useinbandfec=1;stereo=1;cbr=0'']"
    | (keep) v n where "codec_attribute l = Some v" "payload (first_word v) = Inr n" "n \<in> ac_payload ` set cs" "new = [l]"
  proof (cases "codec_attribute l")
    case None
    with assms(1) codec_attribute_None [of l] other show thesis by (simp add: rewrite_attribute_def del: S_simps)
  next
    case (Some v)
    show thesis
    proof (cases "first_word v = S ''*''")
      case True
      with assms(1) Some all show thesis by (simp add: rewrite_attribute_def del: S_simps)
    next
      case word: False
      then obtain n where n: "payload (first_word v) = Inr n"
        using assms(1) Some by (auto simp: rewrite_attribute_def simp del: S_simps)
      show thesis
      proof (cases "find (\<lambda>c. ac_payload c = n) cs")
        case None
        with assms(1) Some word n have "new = []" by (simp add: rewrite_attribute_def del: S_simps)
        moreover from None have "n \<notin> ac_payload ` set cs" by (auto simp: find_None_iff)
        ultimately show thesis using none [OF Some word n] by blast
      next
        case c: (Some c)
        then have "n \<in> ac_payload ` set cs" by (auto dest!: find_SomeD)
        then show thesis using assms(1) Some word n c form [OF Some] name [OF Some] keep [OF Some n]
          by (auto simp: rewrite_attribute_def simp del: S_simps split: if_splits)
      qed
    qed
  qed
  note cases = this
  have some: "codec_line l" if "codec_attribute l = Some v" for v using codec_attribute_None [of l] that by simp
  show "filter (\<lambda>l. \<not> codec_line l) new = (if codec_line l then [] else [l])"
    using cases some format_line by cases (simp_all del: S_simps)
  show "filter feedback_line new = (if feedback_line l \<and> feedback_for cs l then [l] else [])"
    using cases
  proof cases
    case other
    then show ?thesis using feedback_codec by auto
  next
    case all
    then show ?thesis using feedback_attribute by (auto simp: feedback_for_def Let_def simp del: S_simps)
  next
    case none
    then show ?thesis using feedback_attribute by (auto simp: feedback_for_def Let_def simp del: S_simps)
  next
    case form
    then show ?thesis using a by (auto simp del: S_simps)
  next
    case name
    then show ?thesis using a format_line by (auto simp del: S_simps)
  next
    case keep
    then show ?thesis using feedback_attribute by (auto simp: feedback_for_def Let_def simp del: S_simps)
  qed
  have f: "\<not> starts_with (S ''a=fmtp:'' @ v) (S ''m='')" for v by (simp add: starts_with_def)
  show "list_all (\<lambda>l. \<not> starts_with l (S ''m='')) new" by (rule cases) (simp_all add: f assms(2) del: S_simps)
qed

lemma rewrite_media_lines:
  assumes "rewrite_media cs l = Some l'" and "starts_with l (S ''m='')"
  shows "starts_with l' (S ''m='')" and "fixed_part l' = fixed_part l"
proof -
  obtain s where l: "l = 109 # 61 # s" using assms(2) by (auto simp: starts_with_iff)
  obtain w ws where w: "split_by is_whitespace s = w # ws" using split_by_nonempty by (cases "split_by is_whitespace s") blast+
  have fs: "split_whitespace l = (109 # 61 # w) # filter (\<lambda>v. v \<noteq> []) ws"
    by (simp add: l split_whitespace_def w is_whitespace_def)
  have "\<exists>t. join_strs [32] (a # r) = a @ t" for a :: str and r by (cases r) auto
  then obtain t where "join_strs [32] (take 3 (split_whitespace l)) = (109 # 61 # w) @ t"
    unfolding fs by (metis numeral_3_eq_3 take_Suc_Cons)
  moreover have "l' = join_strs [32] (take 3 (split_whitespace l)) @ concat (map (\<lambda>c. 32 # dec (ac_payload c)) cs)"
    using assms(1) by (auto simp: rewrite_media_def Let_def split: if_splits)
  ultimately show m: "starts_with l' (S ''m='')" by (simp add: starts_with_def)
  show "fixed_part l' = fixed_part l"
    using rewrite_media_words [OF assms(1)] m assms(2) by (simp add: fixed_part_def del: S_simps)
qed

lemma in_sections_plain: "list_all (\<lambda>l. \<not> starts_with l (S ''m='')) new \<Longrightarrow>
    in_sections k (new @ ls) = map (Pair k) new @ in_sections k ls"
  by (induction new) (simp_all add: Let_def del: S_simps)

lemma filter_Pair: "filter (\<lambda>(k, l). P l) (map (Pair k) new) = map (Pair k) (filter P new)"
  by (induction new) auto

text \<open>The lines that are written, against those that were read.\<close>

lemma rewrite_lines_rest:
  "rewrite_lines sel i ls = Some (Inr out) \<Longrightarrow>
     map fixed_part (filter (\<lambda>l. \<not> codec_line l) out) = map fixed_part (filter (\<lambda>l. \<not> codec_line l) ls)
   \<and> filter (\<lambda>(k, l). feedback_line l) (in_sections (case i of None \<Rightarrow> 0 | Some k \<Rightarrow> Suc k) out)
     = filter (\<lambda>(k, l). feedback_line l \<and> (k = 0 \<or> feedback_for (sel ! (k - 1)) l)) (in_sections (case i of None \<Rightarrow> 0 | Some k \<Rightarrow> Suc k) ls)"
proof (induction ls arbitrary: i out)
  case (Cons l ls)
  show ?case
  proof (cases "starts_with l (S ''m='')")
    case True
    with Cons.prems obtain j m rest where j: "j = (case i of None \<Rightarrow> 0 | Some k \<Rightarrow> Suc k)" "rewrite_media (sel ! j) l = Some m"
      "rewrite_lines sel (Some j) ls = Some (Inr rest)" "out = m # rest"
      by (auto simp: Let_def simp del: S_simps split: if_splits bind_splits)
    note m = rewrite_media_lines [OF j(2) True]
    show ?thesis using Cons.IH [OF j(3)] m True media_not_codec [OF True] media_not_codec [OF m(1)]
      by (simp add: j(4) Let_def del: S_simps flip: j(1))
  next
    case False
    show ?thesis
    proof (cases i)
      case None
      with Cons.prems False obtain rest where "rewrite_lines sel i ls = Some (Inr rest)" "out = l # rest"
        by (auto simp del: S_simps split: bind_splits)
      then show ?thesis using Cons.IH [of i rest] False None by (simp add: Let_def del: S_simps)
    next
      case (Some k)
      with Cons.prems False obtain new rest where new: "rewrite_attribute (sel ! k) l = Inr new" "rewrite_lines sel i ls = Some (Inr rest)" "out = new @ rest"
        by (auto simp del: S_simps split: bind_splits sum.splits)
      note a = rewrite_attribute_lines [OF new(1) False]
      have "filter (\<lambda>(k, l). feedback_line l) (in_sections (Suc k) out)
          = map (Pair (Suc k)) (filter feedback_line new) @ filter (\<lambda>(k, l). feedback_line l) (in_sections (Suc k) rest)"
        by (simp add: new(3) in_sections_plain [OF a(3)] filter_Pair)
      then show ?thesis using Cons.IH [OF new(2)] False Some a(1,2)
        by (simp add: new(3) Let_def del: S_simps)
    qed
  qed
qed simp

section \<open>Local descriptions\<close>

lemma with_codecs_one_each:
  assumes "with_codecs (s0, m) = Inr s" and "mapping_ok m"
  shows "one_each (sc_codecs s)"
proof -
  obtain cs where "s = s0\<lparr>sc_codecs := cs\<rparr>" "map identity cs = map (\<lambda>n. (n, \<not> sc_video s0 \<and> is_opus m n, sc_video s0)) (filter (keeps (sc_video s0) m) (mp_payloads m))"
    by (rule with_codecs_Inr [OF assms])
  then have "map fst (map identity (sc_codecs s)) = filter (keeps (sc_video s0) m) (mp_payloads m)" by (simp add: comp_def)
  then have "distinct (map ac_payload (sc_codecs s))" using assms(2) by (simp add: comp_def identity_def mapping_ok_def)
  then show ?thesis by (auto simp: one_each_def distinct_map inj_on_def)
qed

lemma one_each_subset: "one_each cs \<Longrightarrow> set cs' \<subseteq> set cs \<Longrightarrow> one_each cs'"
  unfolding one_each_def by blast

lemma selected_subset: "set (selected_codecs s ps) \<subseteq> set (sc_codecs s)"
  by (auto simp: selected_codecs_def)

text \<open>
  C18. The browser changes nothing in a description but the codecs. Line by line: what it generates has the lines of the protocol library's description in their order, media
  lines with the same medium, port and transport, except for the lines about codecs; of the feedback lines of a section it keeps those for all codecs and those of the
  codecs it offers. And as it is read: it is accepted again, with the same kind, the same sections in the same order and every field of a section as the protocol library wrote it (MID, direction, tracks,
  credentials, fingerprint, role); and each section offers exactly the codecs the local policy selects, in the order of preference, each under the payload type that was
  negotiated for it, the Opus ones with the parameters of the browser's encoder.
\<close>

theorem local_description_exact:
  assumes "local_description d preferences = Some (Inr d')"
  shows "\<exists>ss. sections d = Inr ss \<and> length preferences = length ss \<and> de_type d' = de_type d \<and>
    sections d' = Inr (map (\<lambda>(s, prefs). s\<lparr>sc_codecs := map local_codec (selected_codecs s prefs)\<rparr>) (zip ss preferences)) \<and>
    map fixed_part (filter (\<lambda>l. \<not> codec_line l) (sdp_text_lines (de_sdp d')))
      = map fixed_part (filter (\<lambda>l. \<not> codec_line l) (sdp_text_lines (de_sdp d))) \<and>
    filter (\<lambda>(k, l). feedback_line l) (in_sections 0 (sdp_text_lines (de_sdp d')))
      = filter (\<lambda>(k, l). feedback_line l \<and> (k = 0 \<or> feedback_for (map2 selected_codecs ss preferences ! (k - 1)) l))
          (in_sections 0 (sdp_text_lines (de_sdp d)))"
proof -
  obtain ss where ss: "sections d = Inr ss" "length ss = length preferences"
    using assms by (auto simp: local_description_def simp del: S_simps split: sum.splits if_splits)
  define sel where "sel = map (\<lambda>(s, prefs). selected_codecs s prefs) (zip ss preferences)"
  obtain out ss' where out: "rewrite_lines sel None (sdp_text_lines (de_sdp d)) = Some (Inr out)"
      and d': "d' = d\<lparr>de_sdp := written out\<rparr>" "sections d' = Inr ss'"
    using assms ss by (auto simp: local_description_def Let_def sel_def simp del: S_simps split: if_splits bind_splits)
  obtain st where st: "sdp_lines (sdp_text_lines (de_sdp d)) start_state = Inr st" "state_ok st"
      "list_all2 (\<lambda>x s. with_codecs x = Inr s) (ss_sections st) ss"
    using sections_InrE [OF ss(1)] by metis
  obtain st' where st': "sdp_lines (sdp_text_lines (de_sdp d')) start_state = Inr st'"
      "list_all2 (\<lambda>x s. with_codecs x = Inr s) (ss_sections st') ss'"
    using sections_InrE [OF d'(2)] by metis
  have lines': "sdp_text_lines (de_sdp d') = out"
    using sdp_text_lines_written rewrite_lines_plain [OF out sdp_text_lines_plain] by (simp add: d'(1))
  have len: "length (ss_sections st) = length ss" "length sel = length ss" using st(3) ss(2) by (simp_all add: list_all2_lengthD sel_def)
  have mapping: "mapping_ok m" if "(s, m) \<in> set (ss_sections st)" for s m using st(2) that by (auto simp: state_ok_def)
  have each: "with_codecs (ss_sections st ! i) = Inr (ss ! i)" if "i < length ss" for i
    using list_all2_nthD2 [OF st(3) that] .
  have sel: "sel ! i = selected_codecs (ss ! i) (preferences ! i)" if "i < length ss" for i using that ss(2) by (simp add: sel_def)
  have one: "one_each cs" if cs: "cs \<in> set sel" for cs
  proof -
    obtain i where i: "i < length ss" "cs = sel ! i" using cs len(2) by (metis in_set_conv_nth)
    obtain s0 m where sm: "ss_sections st ! i = (s0, m)" by (rule prod.exhaust)
    have "one_each (sc_codecs (ss ! i))"
      using with_codecs_one_each [of s0 m] each [OF i(1)] mapping [of s0 m] nth_mem [of i "ss_sections st"] i(1) len(1) by (simp add: sm)
    then show ?thesis using one_each_subset selected_subset i sel by metis
  qed
  have "same_state sel start_state start_state" by (simp add: same_state_def start_state_def)
  moreover have "section_index start_state = None" by (simp add: section_index_def start_state_def)
  ultimately have same: "same_state sel st st'"
    using rewrite_same [OF st(1), of sel start_state out st'] out st'(1) lines' one by simp
  have len': "length ss' = length ss" using same st'(2) len(1) by (simp add: same_state_def list_all2_lengthD)
  have "ss' ! i = (ss ! i)\<lparr>sc_codecs := map local_codec (selected_codecs (ss ! i) (preferences ! i))\<rparr>" if i: "i < length ss" for i
  proof -
    obtain s0 m where sm: "ss_sections st ! i = (s0, m)" by (rule prod.exhaust)
    obtain s1 m' where sm': "ss_sections st' ! i = (s1, m')" by (rule prod.exhaust)
    have "s1 = s0" "same_mapping (sel ! i) m m'" using same i len(1) by (auto simp: same_state_def sm sm' dest!: spec [of _ i])
    moreover have "with_codecs (s1, m') = Inr (ss' ! i)" using list_all2_nthD2 [OF st'(2), of i] i len' by (simp add: sm')
    ultimately show ?thesis using local_section [of s0 m "ss ! i" m' "ss' ! i" "sel ! i"] each [OF i] selected_subset sel [OF i] by (simp add: sm)
  qed
  then have "ss' = map (\<lambda>(s, prefs). s\<lparr>sc_codecs := map local_codec (selected_codecs s prefs)\<rparr>) (zip ss preferences)"
    using len' ss(2) by (intro nth_equalityI) auto
  moreover have "sel = map2 selected_codecs ss preferences" by (simp add: sel_def)
  ultimately show ?thesis using ss d' rewrite_lines_rest [OF out] unfolding lines' by (intro exI [of _ ss] conjI) (simp_all add: d'(1))
qed

section \<open>No description makes the browser panic\<close>

lemma accepted_media: "sdp_line l st = Inr st1 \<Longrightarrow> strip_prefix l (S ''a=group:BUNDLE '') = None \<Longrightarrow> starts_with l (S ''m='') \<Longrightarrow>
    length (ss_sections st1) = Suc (length (ss_sections st)) \<and> 3 \<le> length (split_whitespace l)"
  by (auto simp: sdp_line_def media_line_def media_refused_def simp del: S_simps split: if_splits)

lemma not_media_length: "sdp_line l st = Inr st1 \<Longrightarrow> \<not> starts_with l (S ''m='') \<Longrightarrow> length (ss_sections st1) = length (ss_sections st)"
  by (auto simp: sdp_line_def attribute_line_def simp del: S_simps split: option.splits if_splits)

lemma rewrite_lines_total:
  "sdp_lines ls st = Inr stf \<Longrightarrow> length (ss_sections stf) \<le> length sel \<Longrightarrow> rewrite_lines sel (section_index st) ls \<noteq> None"
proof (induction ls arbitrary: st)
  case (Cons l ls)
  then obtain st1 where st1: "sdp_line l st = Inr st1" "sdp_lines ls st1 = Inr stf" by auto
  obtain r where r: "rewrite_lines sel (section_index st1) ls = Some r" using Cons.IH [OF st1(2) Cons.prems(2)] by auto
  show ?case
  proof (cases "starts_with l (S ''m='')")
    case True
    then have m: "length (ss_sections st1) = Suc (length (ss_sections st))" "3 \<le> length (split_whitespace l)"
      using accepted_media [OF st1(1) _ True] bundle_line_kept by (metis not_None_eq)+
    then have "section_index st1 = Some (length (ss_sections st))" by (auto simp: section_index_def)
    moreover have "length (ss_sections st) < length sel" using sdp_lines_length [OF st1(2)] Cons.prems(2) m(1) by simp
    moreover have "(case section_index st of None \<Rightarrow> 0 | Some k \<Rightarrow> Suc k) = length (ss_sections st)" by (simp add: section_index_def)
    ultimately show ?thesis using True r m(2) by (simp add: Let_def rewrite_media_def del: S_simps)
  next
    case False
    then have "section_index st1 = section_index st"
      using not_media_length [OF st1(1) False] by (auto simp: section_index_def)
    then show ?thesis using False r by (auto simp del: S_simps split: option.splits sum.splits)
  qed
qed simp

text \<open>
  Rewriting a generated description never panics: the media lines it indexes the selected codecs by are the sections that were read, and each has the three
  fields that are copied.
\<close>

theorem local_description_never_panics: "local_description d preferences \<noteq> None"
proof (cases "sections d")
  case (Inl e)
  then show ?thesis by (simp add: local_description_def)
next
  case (Inr ss)
  obtain st where st: "sdp_lines (sdp_text_lines (de_sdp d)) start_state = Inr st" "list_all2 (\<lambda>x s. with_codecs x = Inr s) (ss_sections st) ss"
    using sections_InrE [OF Inr] by metis
  have i: "section_index start_state = None" by (simp add: section_index_def start_state_def)
  show ?thesis
  proof (cases "length ss = length preferences")
    case True
    then have "rewrite_lines (map2 selected_codecs ss preferences) None (sdp_text_lines (de_sdp d)) \<noteq> None"
      using rewrite_lines_total [OF st(1), of "map2 selected_codecs ss preferences"] list_all2_lengthD [OF st(2)] i by simp
    with Inr show ?thesis by (auto simp: local_description_def Let_def simp del: S_simps)
  next
    case False
    with Inr show ?thesis by (simp add: local_description_def)
  qed
qed

end
