(* ===== verification/Sdp_Example.thy ===== *)
theory Sdp_Example
  imports Sdp_Local
begin

text \<open>
  A session description as a peer sends it, read and rewritten: the witnesses of what \<open>Sdp_Props\<close> and \<open>Sdp_Local\<close> state.
\<close>

section \<open>An offer\<close>

definition example_lines :: "str list" where
  "example_lines = [S ''v=0'', S ''a=group:BUNDLE 0'', S ''m=audio 9 UDP/TLS/RTP/SAVPF 111 0'', S ''a=mid:0'', S ''a=ice-ufrag:abcd'',
     S ''a=ice-pwd:abcdefghijklmnopqrstuv'', S ''a=fingerprint:sha-256 0a:0a:0a:0a:0a:0a:0a:0a:0a:0a:0a:0a:0a:0a:0a:0a:0a:0a:0a:0a:0a:0a:0a:0a:0a:0a:0a:0a:0a:0a:0a:0a'', S ''a=setup:actpass'',
     S ''a=rtpmap:111 opus/48000/2'', S ''a=fmtp:111 minptime=10'', S ''a=rtpmap:0 PCMU/8000'']"

definition example_offer :: description where
  "example_offer = \<lparr>de_type = S ''offer'', de_sdp = written example_lines\<rparr>"

lemma example_plain: "list_all plain_line example_lines"
  unfolding example_lines_def by (simp add: plain_line_def)

lemma example_read: "sdp_text_lines (de_sdp example_offer) = example_lines"
  unfolding example_offer_def by (simp add: sdp_text_lines_written example_plain)

definition example_section :: sdp_section where
  "example_section = \<lparr>sc_video = False, sc_mid = S ''0'', sc_direction = S ''sendrecv'', sc_stream = None, sc_track = None,
     sc_ufrag = S ''abcd'', sc_password = S ''abcdefghijklmnopqrstuv'', sc_fingerprint = drop 14 (example_lines ! 6), sc_setup = S ''actpass'', sc_codecs = []\<rparr>"

definition example_mapping :: codec_mapping where
  "example_mapping = \<lparr>mp_payloads = [111, 0], mp_names = [111 \<mapsto> S ''opus/48000/2'', 0 \<mapsto> S ''PCMU/8000''],
     mp_formats = [111 \<mapsto> S ''minptime=10'']\<rparr>"

lemmas sdp_eval = sdp_line_def attribute_line_def attributes_def attribute_of_def mapping_attribute_def and_then_def ok_or_def
  strip_prefix_def starts_with_def payload_def parse_uint_def is_ascii_digit_def digits_value_def trim_def is_whitespace_def
  split_whitespace_def media_line_def media_refused_def SLOT_LIMIT_def

lemma example_state: "sdp_lines example_lines start_state =
    Inr \<lparr>ss_defaults = default_section, ss_sections = [(example_section, example_mapping)], ss_bundle = Some [S ''0'']\<rparr>"
  unfolding example_lines_def example_section_def example_mapping_def
  by (simp add: sdp_eval start_state_def default_section_def fun_eq_iff)

definition example_opus :: audio_codec where
  "example_opus = plain_codec 111 True False (S ''minptime=10'')"

definition example_pcmu :: audio_codec where
  "example_pcmu = plain_codec 0 False False []"

lemma example_format: "opus_parameters (format_entries (S ''minptime=10'')) [] example_opus = Inr example_opus"
  by (simp add: format_entries_def ascii_lower_def opus_parameter_def sdp_eval)

lemma example_names: "\<not> eq_ignore_ascii_case (S ''PCMU/8000'') (S ''opus/48000/2'')" "eq_ignore_ascii_case (S ''opus/48000/2'') (S ''opus/48000/2'')" "eq_ignore_ascii_case (S ''PCMU/8000'') (S ''PCMU/8000'')"
  by (simp_all add: eq_ignore_ascii_case_def ascii_lower_def)

lemma example_codecs: "audio_codecs example_mapping = Inr [example_opus, example_pcmu]"
  using example_format example_names
  by (simp add: audio_codecs_def example_mapping_def is_pcmu_def is_opus_def format_of_def Let_def example_opus_def example_pcmu_def and_then_def
      plain_codec_def del: S_simps)

lemma example_fingerprint: "strip_prefix (drop 14 (example_lines ! 6)) (S ''sha-256 '') = Some (drop 22 (example_lines ! 6))"
  "fingerprint_ok (drop 22 (example_lines ! 6))"
  by (simp_all add: example_lines_def strip_prefix_def starts_with_def fingerprint_ok_def parses_hex_byte_def hex_value_def is_ascii_digit_def)

lemma example_checks: "check_sections (S ''offer'') (example_section\<lparr>sc_codecs := cs\<rparr>) [] [example_section\<lparr>sc_codecs := cs\<rparr>] = Inr ()"
proof -
  have "mid_ok (S ''0'')" "ice_ok (example_section\<lparr>sc_codecs := cs\<rparr>)" "setup_ok (S ''offer'') (S ''actpass'')"
    by (simp_all add: mid_ok_def ice_ok_def setup_ok_def example_section_def is_ascii_alphanumeric_def is_ascii_alphabetic_def is_ascii_lower_def is_ascii_digit_def)
  moreover have "same_transport (example_section\<lparr>sc_codecs := cs\<rparr>) (example_section\<lparr>sc_codecs := cs\<rparr>)"
    by (simp add: same_transport_def eq_ignore_ascii_case_def)
  ultimately show ?thesis using example_fingerprint by (simp add: example_section_def del: S_simps)
qed

lemma utf8_len_bound: "utf8_len s \<le> 4 * length s"
proof (induction s)
  case (Cons c s)
  then show ?case using utf8_char_length [of c] by (simp add: utf8_len_def)
qed (simp add: utf8_len_def)

section \<open>The description generated from it\<close>

definition example_local_lines :: "str list" where
  "example_local_lines = take 2 example_lines @ [S ''m=audio 9 UDP/TLS/RTP/SAVPF 111''] @ take 5 (drop 3 example_lines)
     @ [S ''a=rtpmap:111 opus/48000/2'', S ''a=fmtp:111 minptime=10;useinbandfec=1;stereo=1;cbr=0'']"

definition example_local :: description where
  "example_local = example_offer\<lparr>de_sdp := written example_local_lines\<rparr>"

lemma dec_111: "dec 111 = S ''111''"
  by (simp add: dec.simps)

lemma example_rewrite: "rewrite_lines [[example_opus]] None example_lines = Some (Inr example_local_lines)"
  unfolding example_lines_def example_local_lines_def
  by (simp add: rewrite_media_def rewrite_attribute_def codec_attribute_def first_word_def split_whitespace_def is_whitespace_def starts_with_def
      strip_prefix_def example_opus_def plain_codec_def payload_def parse_uint_def is_ascii_digit_def digits_value_def and_then_def dec_111)

definition example_local_mapping :: codec_mapping where
  "example_local_mapping = \<lparr>mp_payloads = [111], mp_names = [111 \<mapsto> S ''opus/48000/2''],
     mp_formats = [111 \<mapsto> S ''minptime=10;useinbandfec=1;stereo=1;cbr=0'']\<rparr>"

lemma example_local_state: "sdp_lines example_local_lines start_state =
    Inr \<lparr>ss_defaults = default_section, ss_sections = [(example_section, example_local_mapping)], ss_bundle = Some [S ''0'']\<rparr>"
  unfolding example_local_lines_def example_lines_def example_section_def example_local_mapping_def
  by (simp add: sdp_eval start_state_def default_section_def fun_eq_iff)

lemma example_local_codecs: "audio_codecs example_local_mapping = Inr [local_codec example_opus]"
proof -
  have "S ''minptime=10;useinbandfec=1;stereo=1;cbr=0'' = local_format" by (simp add: local_format_def)
  then show ?thesis using local_format_read [of 111] example_names
    by (simp add: audio_codecs_def example_local_mapping_def is_pcmu_def is_opus_def format_of_def Let_def example_opus_def and_then_def
        plain_codec_def local_codec_def del: S_simps)
qed

lemma example_sections_of:
  assumes "sdp_text_lines (de_sdp d) = ls" and "de_type d = S ''offer''" and "utf8_len (de_sdp d) \<le> 128 * 1024"
    and "sdp_lines ls start_state = Inr \<lparr>ss_defaults = default_section, ss_sections = [(example_section, m)], ss_bundle = Some [S ''0'']\<rparr>"
    and "audio_codecs m = Inr cs"
  shows "sections d = Inr [example_section\<lparr>sc_codecs := cs\<rparr>]"
proof -
  have "with_codecs (example_section, m) = Inr (example_section\<lparr>sc_codecs := cs\<rparr>)"
    using assms(5) by (simp add: with_codecs_def example_section_def and_then_def)
  moreover have "sc_mid example_section = S ''0''" by (simp add: example_section_def)
  ultimately show ?thesis using assms(1-4) example_checks by (simp add: sections_def start_state_def and_then_def del: S_simps)
qed

lemma example_sections: "sections example_offer = Inr [example_section\<lparr>sc_codecs := [example_opus, example_pcmu]\<rparr>]"
proof (rule example_sections_of [OF example_read _ _ example_state example_codecs])
  show "de_type example_offer = S ''offer''" by (simp add: example_offer_def)
  show "utf8_len (de_sdp example_offer) \<le> 128 * 1024"
    using utf8_len_bound [of "written example_lines"] by (simp add: example_offer_def written_def example_lines_def)
qed

lemma example_local_sections: "sections example_local = Inr [example_section\<lparr>sc_codecs := [local_codec example_opus]\<rparr>]"
proof (rule example_sections_of [OF _ _ _ example_local_state example_local_codecs])
  have "list_all plain_line example_local_lines" using rewrite_lines_plain [OF example_rewrite example_plain] .
  then show "sdp_text_lines (de_sdp example_local) = example_local_lines" by (simp add: example_local_def sdp_text_lines_written)
  show "de_type example_local = S ''offer''" by (simp add: example_local_def example_offer_def)
  show "utf8_len (de_sdp example_local) \<le> 128 * 1024"
    using utf8_len_bound [of "written example_local_lines"]
    by (simp add: example_local_def written_def example_local_lines_def example_lines_def)
qed

lemma example_local_description: "local_description example_offer [[S ''opus'']] = Some (Inr example_local)"
proof -
  have "codec_name example_opus = S ''opus''" "codec_name example_pcmu = S ''pcmu''"
    by (simp_all add: codec_name_def example_opus_def example_pcmu_def plain_codec_def)
  then have "selected_codecs (example_section\<lparr>sc_codecs := [example_opus, example_pcmu]\<rparr>) [S ''opus''] = [example_opus]"
    by (simp add: selected_codecs_def)
  then show ?thesis using example_sections example_local_sections example_rewrite example_read
    by (simp add: local_description_def and_then_def Let_def example_local_def del: S_simps)
qed

section \<open>Witnesses\<close>


theorem local_description_exact_witness:
  "local_description example_offer [[S ''opus'']] = Some (Inr example_local)
   \<and> sections example_local = Inr [example_section\<lparr>sc_codecs := map local_codec (selected_codecs (example_section\<lparr>sc_codecs := [example_opus, example_pcmu]\<rparr>) [S ''opus''])\<rparr>]"
  using local_description_exact [OF example_local_description] example_local_description
  by (simp add: example_sections del: S_simps)

end
