(* ===== verification/Web_Locks.thy ===== *)
theory Web_Locks
  imports Text_Ops
begin

text \<open>
  The state that the realms of one process share (\<^verbatim>\<open>src/apps/chuzz/src/webapi.rs\<close>): the broadcast channels and the web locks.
  The map of channels is an association list in the order the map is iterated in; identifiers come from one 64-bit counter that wraps.
\<close>

section \<open>State\<close>

record channel =
  ch_owner :: nat
  ch_origin :: str
  ch_name :: str
  ch_incoming :: "str list"

record lease =
  le_id :: nat
  le_owner :: nat
  le_origin :: str
  le_name :: str
  le_shared :: bool
  le_held :: bool

record process =
  wp_next :: nat
  wp_channels :: "(nat \<times> channel) list"
  wp_leases :: "lease list"

record realm =
  re_id :: nat
  re_origin :: str
  re_public :: str
  re_secure :: bool

definition next_id :: "process \<Rightarrow> nat \<times> process" where
  "next_id p = (wp_next p, p\<lparr>wp_next := (wp_next p + 1) mod 2 ^ 64\<rparr>)"

section \<open>Web locks\<close>

definition same_lock :: "lease \<Rightarrow> lease \<Rightarrow> bool" where
  "same_lock a b \<longleftrightarrow> le_origin a = le_origin b \<and> le_name a = le_name b"

definition blocked :: "lease list \<Rightarrow> nat \<Rightarrow> bool" where
  "blocked ls i \<longleftrightarrow> list_ex (\<lambda>j. j \<noteq> i \<and> same_lock (ls ! j) (ls ! i)
     \<and> (\<not> le_held (ls ! j) \<and> j < i \<or> le_held (ls ! j) \<and> (\<not> le_shared (ls ! j) \<or> \<not> le_shared (ls ! i)))) [0..<length ls]"

definition grant_one :: "lease list \<Rightarrow> nat \<Rightarrow> lease list" where
  "grant_one ls i = (if le_held (ls ! i) then ls else if blocked ls i then ls else ls[i := (ls ! i)\<lparr>le_held := True\<rparr>])"

definition grant :: "lease list \<Rightarrow> lease list" where
  "grant ls = foldl grant_one ls [0..<length ls]"

definition lock_request :: "realm \<Rightarrow> str \<Rightarrow> bool \<Rightarrow> bool \<Rightarrow> process \<Rightarrow> nat option \<times> process" where
  "lock_request r name shared available p =
     (if available \<and> list_ex (\<lambda>l. le_origin l = re_origin r \<and> le_name l = name \<and> (\<not> le_held l \<or> \<not> shared \<or> \<not> le_shared l)) (wp_leases p)
      then (None, p)
      else let (nr, p) = next_id p;
               l = \<lparr>le_id = nr, le_owner = re_id r, le_origin = re_origin r, le_name = name, le_shared = shared, le_held = False\<rparr>
           in (Some nr, p\<lparr>wp_leases := grant (wp_leases p @ [l])\<rparr>))"

definition lock_status :: "realm \<Rightarrow> nat \<Rightarrow> process \<Rightarrow> bool" where
  "lock_status r nr p = list_ex (\<lambda>l. le_id l = nr \<and> le_owner l = re_id r \<and> le_held l) (wp_leases p)"

definition lock_release :: "realm \<Rightarrow> nat \<Rightarrow> process \<Rightarrow> process" where
  "lock_release r nr p = p\<lparr>wp_leases := grant (filter (\<lambda>l. le_id l \<noteq> nr \<or> le_owner l \<noteq> re_id r) (wp_leases p))\<rparr>"

text \<open>The entries of a query: the name, whether the mode is shared, and the client.\<close>

definition lock_entries :: "realm \<Rightarrow> bool \<Rightarrow> process \<Rightarrow> (str \<times> bool \<times> str) list" where
  "lock_entries r held p =
     map (\<lambda>l. (le_name l, le_shared l, dec (le_owner l))) (filter (\<lambda>l. le_origin l = re_origin r \<and> le_held l = held) (wp_leases p))"

section \<open>Broadcast channels\<close>

definition broadcast_open :: "realm \<Rightarrow> str \<Rightarrow> process \<Rightarrow> nat \<times> process" where
  "broadcast_open r name p =
     (let (nr, p) = next_id p;
          c = \<lparr>ch_owner = re_id r, ch_origin = re_origin r, ch_name = name, ch_incoming = []\<rparr>
      in (nr, p\<lparr>wp_channels := filter (\<lambda>(k, _). k \<noteq> nr) (wp_channels p) @ [(nr, c)]\<rparr>))"

definition broadcast_close :: "realm \<Rightarrow> nat \<Rightarrow> process \<Rightarrow> process" where
  "broadcast_close r nr p =
     (case map_of (wp_channels p) nr of
        Some c \<Rightarrow> if ch_owner c = re_id r then p\<lparr>wp_channels := filter (\<lambda>(k, _). k \<noteq> nr) (wp_channels p)\<rparr> else p
      | None \<Rightarrow> p)"

definition broadcast_post :: "realm \<Rightarrow> nat \<Rightarrow> str \<Rightarrow> process \<Rightarrow> str + process" where
  "broadcast_post r nr wire p =
     (case map_of (wp_channels p) nr of
        Some c \<Rightarrow>
          if ch_owner c = re_id r
          then Inr (p\<lparr>wp_channels := map (\<lambda>(k, d).
                 (k, if k \<noteq> nr \<and> ch_origin d = re_origin r \<and> ch_name d = ch_name c then d\<lparr>ch_incoming := ch_incoming d @ [wire]\<rparr> else d))
               (wp_channels p)\<rparr>)
          else Inl (S ''broadcast channel is closed'')
      | None \<Rightarrow> Inl (S ''broadcast channel is closed''))"

definition broadcast_read :: "realm \<Rightarrow> process \<Rightarrow> (nat \<times> str) list \<times> process" where
  "broadcast_read r p =
     (concat (map (\<lambda>(k, c). if ch_owner c = re_id r then map (Pair k) (take 64 (ch_incoming c)) else []) (wp_channels p)),
      p\<lparr>wp_channels := map (\<lambda>(k, c). (k, if ch_owner c = re_id r then c\<lparr>ch_incoming := drop 64 (ch_incoming c)\<rparr> else c)) (wp_channels p)\<rparr>)"

section \<open>Realms\<close>

text \<open>What the end of a realm does to the shared state.\<close>

definition drop_realm :: "realm \<Rightarrow> process \<Rightarrow> process" where
  "drop_realm r p = p\<lparr>wp_channels := filter (\<lambda>(_, c). ch_owner c \<noteq> re_id r) (wp_channels p),
     wp_leases := grant (filter (\<lambda>l. le_owner l \<noteq> re_id r) (wp_leases p))\<rparr>"

datatype operation =
    BroadcastOpen str
  | BroadcastClose nat
  | BroadcastPost nat str
  | BroadcastRead
  | LockRequest str bool bool
  | LockStatus nat
  | LockRelease nat
  | LockQuery

datatype answer_value =
    Null
  | Number nat
  | Truth bool
  | Deliveries "(nat \<times> str) list"
  | Locks "(str \<times> bool \<times> str) list" "(str \<times> bool \<times> str) list"

definition platform :: "realm \<Rightarrow> operation \<Rightarrow> process \<Rightarrow> str + answer_value \<times> process" where
  "platform r op p =
     (case op of
        BroadcastOpen name \<Rightarrow> (case broadcast_open r name p of (nr, p') \<Rightarrow> Inr (Number nr, p'))
      | BroadcastClose nr \<Rightarrow> Inr (Null, broadcast_close r nr p)
      | BroadcastPost nr wire \<Rightarrow> and_then (broadcast_post r nr wire p) (\<lambda>p'. Inr (Null, p'))
      | BroadcastRead \<Rightarrow> (case broadcast_read r p of (ds, p') \<Rightarrow> Inr (Deliveries ds, p'))
      | LockRequest name shared available \<Rightarrow>
          (case lock_request r name shared available p of (nr, p') \<Rightarrow> Inr (case nr of None \<Rightarrow> Null | Some n \<Rightarrow> Number n, p'))
      | LockStatus nr \<Rightarrow> Inr (Truth (lock_status r nr p), p)
      | LockRelease nr \<Rightarrow> Inr (Null, lock_release r nr p)
      | LockQuery \<Rightarrow> Inr (Locks (lock_entries r True p) (lock_entries r False p), p))"

text \<open>A step of the process: a call of a realm, or the end of one.\<close>

datatype event = Call realm operation | Ended realm

definition web_step :: "process \<Rightarrow> event \<Rightarrow> process" where
  "web_step p e = (case e of
     Call r op \<Rightarrow> (case platform r op p of Inl _ \<Rightarrow> p | Inr (_, p') \<Rightarrow> p')
   | Ended r \<Rightarrow> drop_realm r p)"

definition empty_process :: process where
  "empty_process = \<lparr>wp_next = 1, wp_channels = [], wp_leases = []\<rparr>"

section \<open>Who holds a lock\<close>

text \<open>The lease at \<open>i\<close> is the oldest of its lock, or it and all older ones are shared.\<close>

definition entitled :: "lease list \<Rightarrow> nat \<Rightarrow> bool" where
  "entitled ls i \<longleftrightarrow> (\<forall>j<i. \<not> same_lock (ls ! j) (ls ! i))
     \<or> le_shared (ls ! i) \<and> (\<forall>j<i. same_lock (ls ! j) (ls ! i) \<longrightarrow> le_shared (ls ! j))"

definition fair :: "lease list \<Rightarrow> bool" where
  "fair ls \<longleftrightarrow> (\<forall>i<length ls. le_held (ls ! i) \<longleftrightarrow> entitled ls i)"

definition rightful :: "lease list \<Rightarrow> bool" where
  "rightful ls \<longleftrightarrow> (\<forall>i<length ls. le_held (ls ! i) \<longrightarrow> entitled ls i)"

lemma fair_rightful: "fair ls \<Longrightarrow> rightful ls"
  by (simp add: fair_def rightful_def)

text \<open>What granting leaves as it is.\<close>

definition unheld :: "lease \<Rightarrow> lease" where "unheld l = l\<lparr>le_held := False\<rparr>"

lemma unheld_eq: "unheld a = unheld b \<Longrightarrow>
    le_id a = le_id b \<and> le_owner a = le_owner b \<and> le_origin a = le_origin b \<and> le_name a = le_name b \<and> le_shared a = le_shared b"
  by (cases a; cases b) (simp add: unheld_def)

lemma grant_one_unheld: "map unheld (grant_one ls i) = map unheld ls"
proof (cases "i < length ls")
  case True
  then show ?thesis by (simp add: grant_one_def map_update unheld_def list_update_same_conv)
next
  case False
  then show ?thesis by (simp add: grant_one_def list_update_beyond)
qed

lemma entitled_cong:
  assumes eq: "map unheld ls = map unheld ls'" and i: "i < length ls"
  shows "entitled ls i = entitled ls' i"
proof -
  have same: "same_lock (ls ! j) (ls ! i) = same_lock (ls' ! j) (ls' ! i)" "le_shared (ls ! j) = le_shared (ls' ! j)" if j: "j \<le> i" for j
  proof -
    have len: "length ls = length ls'" using eq by (rule map_eq_imp_length_eq)
    have "unheld (ls ! k) = unheld (ls' ! k)" if "k < length ls" for k using eq len that by (metis nth_map)
    then have "unheld (ls ! j) = unheld (ls' ! j)" "unheld (ls ! i) = unheld (ls' ! i)" using i j by simp_all
    then show "same_lock (ls ! j) (ls ! i) = same_lock (ls' ! j) (ls' ! i)" "le_shared (ls ! j) = le_shared (ls' ! j)"
      unfolding same_lock_def by (simp_all add: unheld_eq [of "ls ! j" "ls' ! j"] unheld_eq [of "ls ! i" "ls' ! i"])
  qed
  have "(\<forall>j<i. P j) = (\<forall>j<i. Q j)" if "\<And>j. j \<le> i \<Longrightarrow> P j = Q j" for P Q :: "nat \<Rightarrow> bool" using that by auto
  then show ?thesis using same i unfolding entitled_def by (metis le_refl nat_less_le)
qed

text \<open>A lease is passed over exactly when it is not entitled, once the older ones hold exactly what they are entitled to.\<close>

lemma same_lock_sym: "same_lock a b = same_lock b a"
  by (auto simp: same_lock_def)

lemma same_lock_trans: "same_lock a b \<Longrightarrow> same_lock b c \<Longrightarrow> same_lock a c"
  by (simp add: same_lock_def)

lemma blocked_entitled:
  assumes i: "i < length ls" and older: "\<And>j. j < i \<Longrightarrow> le_held (ls ! j) \<longleftrightarrow> entitled ls j" and ok: "rightful ls"
  shows "blocked ls i \<longleftrightarrow> \<not> entitled ls i"
proof
  assume "blocked ls i"
  then obtain j where j: "j < length ls" "j \<noteq> i" "same_lock (ls ! j) (ls ! i)"
      "\<not> le_held (ls ! j) \<and> j < i \<or> le_held (ls ! j) \<and> (\<not> le_shared (ls ! j) \<or> \<not> le_shared (ls ! i))"
    by (auto simp: blocked_def list_ex_iff)
  show "\<not> entitled ls i"
  proof
    assume e: "entitled ls i"
    show False
    proof (cases "j < i")
      case True
      then have all: "le_shared (ls ! i)" "\<And>k. k < i \<Longrightarrow> same_lock (ls ! k) (ls ! i) \<Longrightarrow> le_shared (ls ! k)"
        using e j(3) by (auto simp: entitled_def)
      have "entitled ls j" unfolding entitled_def using all True j(3) by (meson less_trans same_lock_trans)
      then show False using older [OF True] all True j(3,4) by blast
    next
      case False
      with j(2) have "i < j" by simp
      moreover have "le_held (ls ! j)" "\<not> le_shared (ls ! j) \<or> \<not> le_shared (ls ! i)" using j(4) False by auto
      ultimately show False using ok j(1,3) unfolding rightful_def entitled_def by (metis same_lock_sym)
    qed
  qed
next
  assume "\<not> entitled ls i"
  then obtain j where j: "j < i" "same_lock (ls ! j) (ls ! i)" "\<not> le_shared (ls ! i) \<or> \<not> le_shared (ls ! j)"
    unfolding entitled_def by blast
  then show "blocked ls i" using i unfolding blocked_def list_ex_iff by (intro bexI [of _ j]) auto
qed

lemma unheld_length: "map unheld ls = map unheld ls' \<Longrightarrow> length ls = length ls'"
  by (rule map_eq_imp_length_eq)

lemma grant_upto:
  assumes ok: "rightful ls" and k: "k \<le> length ls"
  shows "map unheld (foldl grant_one ls [0..<k]) = map unheld ls \<and> rightful (foldl grant_one ls [0..<k])
    \<and> (\<forall>i<k. le_held (foldl grant_one ls [0..<k] ! i) \<longleftrightarrow> entitled ls i)"
  using k
proof (induction k)
  case 0
  then show ?case using ok by simp
next
  case (Suc k)
  let ?ls = "foldl grant_one ls [0..<k]"
  have kl: "k < length ls" using Suc.prems by simp
  from Suc have eq: "map unheld ?ls = map unheld ls" and r: "rightful ?ls"
    and prev: "\<And>i. i < k \<Longrightarrow> le_held (?ls ! i) \<longleftrightarrow> entitled ls i" by simp_all
  have len: "length ?ls = length ls" using unheld_length [OF eq] .
  have same: "entitled ?ls i = entitled ls i" if "i < length ls" for i using entitled_cong [OF eq] that len by simp
  have b: "blocked ?ls k \<longleftrightarrow> \<not> entitled ls k"
    using blocked_entitled [of k ?ls] prev same kl len r by simp
  let ?g = "grant_one ?ls k"
  have step: "foldl grant_one ls [0..<Suc k] = ?g" by simp
  have eq': "map unheld ?g = map unheld ls" using grant_one_unheld eq by simp
  have same': "entitled ?g i = entitled ls i" if "i < length ls" for i
    using entitled_cong [OF eq'] that unheld_length [OF eq'] by simp
  have other: "?g ! i = ?ls ! i" if "i \<noteq> k" for i using that by (simp add: grant_one_def)
  have here: "le_held (?g ! k) \<longleftrightarrow> entitled ls k"
    using r b kl len same [OF kl] by (auto simp: grant_one_def rightful_def)
  have "rightful ?g"
    unfolding rightful_def
  proof (intro allI impI)
    fix i assume "i < length ?g" "le_held (?g ! i)"
    then show "entitled ?g i" using same' same other [of i] here r unheld_length [OF eq'] len unfolding rightful_def by metis
  qed
  moreover have "\<forall>i<Suc k. le_held (?g ! i) \<longleftrightarrow> entitled ls i" using prev other here by (auto simp: less_Suc_eq)
  ultimately show ?case using eq' unfolding step by blast
qed

lemma grant_fair: "rightful ls \<Longrightarrow> fair (grant ls)"
  and grant_unheld: "rightful ls \<Longrightarrow> map unheld (grant ls) = map unheld ls"
proof -
  assume ok: "rightful ls"
  note g = grant_upto [OF ok le_refl]
  show "map unheld (grant ls) = map unheld ls" using g by (simp add: grant_def)
  have "length (grant ls) = length ls" using unheld_length g unfolding grant_def by blast
  then show "fair (grant ls)" using g entitled_cong [of "grant ls" ls] unfolding fair_def grant_def by simp
qed

text \<open>Whoever is entitled stays so when other leases go away.\<close>

lemma rightful_append: "rightful ls \<Longrightarrow> \<not> le_held l \<Longrightarrow> rightful (ls @ [l])"
proof -
  assume r: "rightful ls" and l: "\<not> le_held l"
  have "entitled (ls @ [l]) i = entitled ls i" if "i < length ls" for i
    using that by (auto simp: entitled_def nth_append)
  with r l show ?thesis by (auto simp: rightful_def nth_append less_Suc_eq)
qed

lemma entitled_drop:
  assumes "entitled (xs @ a # ys) i" and "length xs < i"
  shows "entitled (xs @ ys) (i - 1)"
proof -
  let ?at = "\<lambda>j. if j < length xs then j else Suc j"
  have at: "(xs @ ys) ! j = (xs @ a # ys) ! ?at j" for j by (simp add: nth_append Suc_diff_le)
  have i: "?at (i - 1) = i" using assms(2) by auto
  have lt: "?at j < i" if "j < i - 1" for j using that assms(2) by auto
  show ?thesis using assms(1) unfolding entitled_def at i using lt by blast
qed

lemma rightful_drop: "rightful (xs @ a # ys) \<Longrightarrow> rightful (xs @ ys)"
proof -
  assume r: "rightful (xs @ a # ys)"
  show ?thesis
    unfolding rightful_def
  proof (intro allI impI)
    fix i assume i: "i < length (xs @ ys)" "le_held ((xs @ ys) ! i)"
    show "entitled (xs @ ys) i"
    proof (cases "i < length xs")
      case True
      then have "entitled (xs @ a # ys) i" using r i by (simp add: rightful_def nth_append)
      with True show ?thesis by (simp add: entitled_def nth_append)
    next
      case False
      then have "entitled (xs @ a # ys) (Suc i)" using r i by (simp add: rightful_def nth_append Suc_diff_le)
      then show ?thesis using entitled_drop [of xs a ys "Suc i"] False by simp
    qed
  qed
qed

lemma rightful_filter: "rightful (xs @ ys) \<Longrightarrow> rightful (xs @ filter P ys)"
proof (induction ys arbitrary: xs)
  case (Cons y ys)
  show ?case
  proof (cases "P y")
    case True
    then show ?thesis using Cons.IH [of "xs @ [y]"] Cons.prems by simp
  next
    case False
    then show ?thesis using Cons.IH [of xs] rightful_drop [OF Cons.prems] by simp
  qed
qed simp

lemma released_fair: "fair ls \<Longrightarrow> fair (grant (filter P ls))"
  using grant_fair rightful_filter [of "[]" ls P] fair_rightful by simp

lemma requested_fair: "fair ls \<Longrightarrow> \<not> le_held l \<Longrightarrow> fair (grant (ls @ [l]))"
  using grant_fair rightful_append fair_rightful by blast

section \<open>Runs\<close>

lemma platform_leases:
  assumes "platform r op p = Inr (a, p')"
  shows "wp_leases p' = wp_leases p \<or> (\<exists>P. wp_leases p' = grant (filter P (wp_leases p)))
    \<or> (\<exists>l. \<not> le_held l \<and> wp_leases p' = grant (wp_leases p @ [l]))"
proof (cases op)
  case (LockRequest name shared available)
  let ?l = "\<lparr>le_id = wp_next p, le_owner = re_id r, le_origin = re_origin r, le_name = name, le_shared = shared, le_held = False\<rparr>"
  have "wp_leases p' = wp_leases p \<or> wp_leases p' = grant (wp_leases p @ [?l])"
    using assms LockRequest by (auto simp: platform_def lock_request_def next_id_def Let_def split: if_splits option.splits)
  moreover have "\<not> le_held ?l" by simp
  ultimately show ?thesis by blast
qed (use assms in \<open>auto simp: platform_def broadcast_open_def broadcast_close_def broadcast_post_def broadcast_read_def lock_release_def next_id_def Let_def
  split: option.splits if_splits\<close>)

lemma web_step_fair: "fair (wp_leases p) \<Longrightarrow> fair (wp_leases (web_step p e))"
proof (cases e)
  case (Call r op)
  assume f: "fair (wp_leases p)"
  show ?thesis
  proof (cases "platform r op p")
    case (Inr x)
    then obtain a p' where x: "platform r op p = Inr (a, p')" by (cases x) auto
    with Call platform_leases [OF x] f released_fair requested_fair show ?thesis by (auto simp: web_step_def)
  qed (simp add: web_step_def Call f)
next
  case (Ended r)
  assume "fair (wp_leases p)"
  with Ended released_fair show ?thesis by (simp add: web_step_def drop_realm_def)
qed

definition web_run :: "event list \<Rightarrow> process \<Rightarrow> process" where
  "web_run es p = foldl web_step p es"

lemma web_run_fair: "fair (wp_leases p) \<Longrightarrow> fair (wp_leases (web_run es p))"
  unfolding web_run_def by (induction es arbitrary: p) (auto intro: web_step_fair)

section \<open>What a channel receives\<close>

text \<open>The messages that an event posts to the channel, and those it delivers from it.\<close>

definition posted_by :: "nat \<Rightarrow> process \<Rightarrow> event \<Rightarrow> str list" where
  "posted_by nr p e = (case e of
     Call r (BroadcastPost k wire) \<Rightarrow>
       (case (map_of (wp_channels p) k, map_of (wp_channels p) nr) of
          (Some s, Some c) \<Rightarrow> if ch_owner s = re_id r \<and> nr \<noteq> k \<and> ch_origin c = re_origin r \<and> ch_name c = ch_name s then [wire] else []
        | _ \<Rightarrow> [])
   | _ \<Rightarrow> [])"

definition delivered_by :: "nat \<Rightarrow> process \<Rightarrow> event \<Rightarrow> str list" where
  "delivered_by nr p e = (case e of
     Call r op \<Rightarrow> (case platform r op p of
         Inr (Deliveries ds, _) \<Rightarrow> map snd (filter (\<lambda>(k, _). k = nr) ds)
       | _ \<Rightarrow> [])
   | _ \<Rightarrow> [])"

fun posted :: "nat \<Rightarrow> process \<Rightarrow> event list \<Rightarrow> str list" where
  "posted nr p [] = []"
| "posted nr p (e # es) = posted_by nr p e @ posted nr (web_step p e) es"

fun delivered :: "nat \<Rightarrow> process \<Rightarrow> event list \<Rightarrow> str list" where
  "delivered nr p [] = []"
| "delivered nr p (e # es) = delivered_by nr p e @ delivered nr (web_step p e) es"

definition web_inv :: "process \<Rightarrow> bool" where
  "web_inv p \<longleftrightarrow> distinct (map fst (wp_channels p)) \<and> (\<forall>(k, c)\<in>set (wp_channels p). k < wp_next p)"

lemma map_of_filter_key: "map_of (filter (\<lambda>(k, _). k \<noteq> nr) xs) n = (if n = nr then None else map_of xs n)"
  by (induction xs) auto

lemma map_of_map_key: "map_of (map (\<lambda>(k, c). (k, f k c)) xs) n = map_option (f n) (map_of xs n)"
  by (induction xs) auto

lemma map_fst_map: "map fst (map (\<lambda>(k, c). (k, f k c)) xs) = map fst xs"
  by (induction xs) auto

lemma distinct_filter_fst: "distinct (map fst xs) \<Longrightarrow> distinct (map fst (filter P xs))"
  by (induction xs) auto

lemma map_of_filter_distinct:
  "distinct (map fst xs) \<Longrightarrow> map_of (filter (\<lambda>(_, c). Q c) xs) n = (case map_of xs n of Some c \<Rightarrow> if Q c then Some c else None | None \<Rightarrow> None)"
  by (induction xs) (force split: option.splits dest: map_of_SomeD)+

lemma read_channel:
  "distinct (map fst xs) \<Longrightarrow>
     map snd (filter (\<lambda>(k, _). k = nr) (concat (map (\<lambda>(k, c). if P c then map (Pair k) (f c) else []) xs)))
     = (case map_of xs nr of Some c \<Rightarrow> if P c then f c else [] | None \<Rightarrow> [])"
proof (induction xs)
  case (Cons x xs)
  obtain k c where x: "x = (k, c)" by (cases x)
  have pairs: "filter (\<lambda>(k', _). k' = nr) (map (Pair k) ys) = (if k = nr then map (Pair k) ys else [])" for ys :: "'c list"
    by (induction ys) auto
  show ?case
  proof (cases "k = nr")
    case True
    then have "map_of xs nr = None" using Cons.prems x by (auto simp: map_of_eq_None_iff)
    with Cons x True pairs show ?thesis by (auto simp: comp_def)
  next
    case False
    with Cons x pairs show ?thesis by auto
  qed
qed simp

lemma web_step_channel:
  assumes inv: "web_inv p" and room: "wp_next p < 2 ^ 64 - 1" and nr: "nr < wp_next p"
    and after: "map_of (wp_channels (web_step p e)) nr = Some c'"
  shows "\<exists>c. map_of (wp_channels p) nr = Some c \<and> ch_incoming c @ posted_by nr p e = delivered_by nr p e @ ch_incoming c'"
proof (cases e)
  case (Ended r)
  then show ?thesis using after inv
    by (auto simp: web_step_def drop_realm_def posted_by_def delivered_by_def web_inv_def map_of_filter_distinct split: option.splits if_splits)
next
  case (Call r op)
  show ?thesis
  proof (cases op)
    case (BroadcastOpen name)
    with Call after nr show ?thesis
      by (auto simp: web_step_def platform_def broadcast_open_def next_id_def Let_def posted_by_def delivered_by_def map_of_filter_key map_add_def
          split: option.splits if_splits)
  next
    case (BroadcastClose k)
    with Call after show ?thesis
      by (auto simp: web_step_def platform_def broadcast_close_def posted_by_def delivered_by_def map_of_filter_key split: option.splits if_splits)
  next
    case (BroadcastPost k wire)
    show ?thesis
    proof (cases "broadcast_post r k wire p")
      case (Inl x)
      with Call BroadcastPost after show ?thesis
        by (auto simp: web_step_def platform_def and_then_def broadcast_post_def posted_by_def delivered_by_def split: option.splits if_splits)
    next
      case (Inr p')
      then obtain s where s: "map_of (wp_channels p) k = Some s" "ch_owner s = re_id r"
          and p': "wp_channels p' = map (\<lambda>(k', d). (k', if k' \<noteq> k \<and> ch_origin d = re_origin r \<and> ch_name d = ch_name s
              then d\<lparr>ch_incoming := ch_incoming d @ [wire]\<rparr> else d)) (wp_channels p)"
        by (auto simp: broadcast_post_def split: option.splits if_splits)
      have step: "web_step p e = p'" using Call BroadcastPost Inr by (simp add: web_step_def platform_def and_then_def)
      obtain c where "map_of (wp_channels p) nr = Some c"
          "c' = (if nr \<noteq> k \<and> ch_origin c = re_origin r \<and> ch_name c = ch_name s then c\<lparr>ch_incoming := ch_incoming c @ [wire]\<rparr> else c)"
        using after unfolding step p' map_of_map_key by auto
      with s Call BroadcastPost Inr show ?thesis by (auto simp: posted_by_def delivered_by_def platform_def and_then_def)
    qed
  next
    case BroadcastRead
    have p': "wp_channels (web_step p e) = map (\<lambda>(k, c). (k, if ch_owner c = re_id r then c\<lparr>ch_incoming := drop 64 (ch_incoming c)\<rparr> else c)) (wp_channels p)"
      using Call BroadcastRead by (simp add: web_step_def platform_def broadcast_read_def)
    obtain c where c: "map_of (wp_channels p) nr = Some c"
        "c' = (if ch_owner c = re_id r then c\<lparr>ch_incoming := drop 64 (ch_incoming c)\<rparr> else c)"
      using after unfolding p' map_of_map_key by auto
    have "delivered_by nr p e = (if ch_owner c = re_id r then take 64 (ch_incoming c) else [])"
      using Call BroadcastRead read_channel [of "wp_channels p" nr "\<lambda>c. ch_owner c = re_id r" "\<lambda>c. take 64 (ch_incoming c)"] inv c(1)
      by (simp add: delivered_by_def platform_def broadcast_read_def web_inv_def)
    moreover have "posted_by nr p e = []" using Call BroadcastRead by (simp add: posted_by_def)
    ultimately show ?thesis using c by auto
  next
    case (LockRequest name shared available)
    with Call after show ?thesis
      by (auto simp: web_step_def platform_def lock_request_def next_id_def Let_def posted_by_def delivered_by_def split: option.splits if_splits)
  qed (use Call after in \<open>auto simp: web_step_def platform_def lock_release_def posted_by_def delivered_by_def\<close>)
qed

lemma web_inv_map: "web_inv p \<Longrightarrow> web_inv (p\<lparr>wp_channels := map (\<lambda>(k, c). (k, f k c)) (wp_channels p)\<rparr>)"
proof -
  have "fst \<circ> (\<lambda>(k, c). (k, f k c)) = fst" by auto
  then show "web_inv p \<Longrightarrow> web_inv (p\<lparr>wp_channels := map (\<lambda>(k, c). (k, f k c)) (wp_channels p)\<rparr>)" by (auto simp: web_inv_def)
qed

lemma web_inv_leases [simp]: "web_inv (p\<lparr>wp_leases := ls\<rparr>) = web_inv p"
  by (simp add: web_inv_def)

lemma web_step_inv:
  assumes inv: "web_inv p" and room: "wp_next p < 2 ^ 64 - 1"
  shows "web_inv (web_step p e) \<and> wp_next p \<le> wp_next (web_step p e) \<and> wp_next (web_step p e) \<le> Suc (wp_next p)"
proof -
  have succ: "(wp_next p + 1) mod 2 ^ 64 = wp_next p + 1" using room by simp
  have sub: "\<forall>(k, c)\<in>set (filter P (wp_channels p)). k < wp_next p" for P using inv by (auto simp: web_inv_def)
  show ?thesis
  proof (cases e)
    case (Ended r)
    then show ?thesis using inv sub by (auto simp: web_step_def drop_realm_def web_inv_def distinct_filter_fst)
  next
    case (Call r op)
    then show ?thesis
    proof (cases op)
      case (BroadcastOpen name)
      have "wp_next p \<notin> fst ` set (filter (\<lambda>(k, _). k \<noteq> wp_next p) (wp_channels p))" by auto
      then show ?thesis using Call BroadcastOpen inv succ
        by (fastforce simp: web_step_def platform_def broadcast_open_def next_id_def Let_def web_inv_def distinct_filter_fst)
    next
      case (BroadcastClose k)
      then show ?thesis using Call inv
        by (auto simp: web_step_def platform_def broadcast_close_def web_inv_def distinct_filter_fst split: option.splits)
    next
      case (BroadcastPost k wire)
      then show ?thesis using Call inv web_inv_map [OF inv]
        by (auto simp: web_step_def platform_def broadcast_post_def and_then_def split: option.splits)
    next
      case BroadcastRead
      then show ?thesis using Call web_inv_map [OF inv] by (simp add: web_step_def platform_def broadcast_read_def)
    next
      case (LockRequest name shared available)
      then show ?thesis using Call inv succ
        by (fastforce simp: web_step_def platform_def lock_request_def next_id_def Let_def web_inv_def split: option.splits)
    qed (auto simp: web_step_def platform_def lock_release_def inv)
  qed
qed

lemma web_run_inv:
  "web_inv p \<Longrightarrow> wp_next p + length es < 2 ^ 64 \<Longrightarrow>
     web_inv (web_run es p) \<and> wp_next p \<le> wp_next (web_run es p) \<and> wp_next (web_run es p) \<le> wp_next p + length es"
proof (induction es arbitrary: p)
  case (Cons e es)
  then have "web_inv (web_step p e) \<and> wp_next p \<le> wp_next (web_step p e) \<and> wp_next (web_step p e) \<le> Suc (wp_next p)"
    by (intro web_step_inv) simp_all
  with Cons.IH [of "web_step p e"] Cons.prems(2) show ?case by (simp add: web_run_def)
qed (simp add: web_run_def)

lemma web_run_channel:
  "web_inv p \<Longrightarrow> wp_next p + length es < 2 ^ 64 \<Longrightarrow> nr < wp_next p \<Longrightarrow> map_of (wp_channels (web_run es p)) nr = Some c' \<Longrightarrow>
     \<exists>c. map_of (wp_channels p) nr = Some c \<and> ch_incoming c @ posted nr p es = delivered nr p es @ ch_incoming c'"
proof (induction es arbitrary: p)
  case (Cons e es)
  let ?p = "web_step p e"
  have inv: "web_inv ?p \<and> wp_next p \<le> wp_next ?p \<and> wp_next ?p \<le> Suc (wp_next p)"
    using Cons.prems by (intro web_step_inv) simp_all
  have "wp_next ?p + length es < 2 ^ 64" "nr < wp_next ?p" "map_of (wp_channels (web_run es ?p)) nr = Some c'"
    using Cons.prems inv by (simp_all add: web_run_def)
  then obtain c1 where c1: "map_of (wp_channels ?p) nr = Some c1" "ch_incoming c1 @ posted nr ?p es = delivered nr ?p es @ ch_incoming c'"
    using Cons.IH [of ?p] inv by blast
  obtain c where "map_of (wp_channels p) nr = Some c" "ch_incoming c @ posted_by nr p e = delivered_by nr p e @ ch_incoming c1"
    using web_step_channel [OF Cons.prems(1) _ Cons.prems(3) c1(1)] Cons.prems(2) by auto
  moreover from this(2) c1(2) have "ch_incoming c @ posted nr p (e # es) = delivered nr p (e # es) @ ch_incoming c'"
    by (simp flip: append_assoc) (simp add: append_assoc)
  ultimately show ?case by blast
qed (simp add: web_run_def)

section \<open>The properties\<close>

text \<open>
  C22. Web locks are granted in order and to nobody else. After any sequence of calls and ended realms, a request holds its lock if and only if
  it is the oldest request for that lock, or it and every older one are shared; so no two holders conflict, no request is passed by a younger one, and none that could be granted waits.
\<close>

theorem web_locks_fair:
  fixes es :: "event list"
  defines "ls \<equiv> wp_leases (web_run es empty_process)"
  assumes "i < length ls"
  shows "(le_held (ls ! i) \<longleftrightarrow> (\<forall>j<i. \<not> same_lock (ls ! j) (ls ! i))
        \<or> le_shared (ls ! i) \<and> (\<forall>j<i. same_lock (ls ! j) (ls ! i) \<longrightarrow> le_shared (ls ! j)))
    \<and> (\<forall>j<length ls. i \<noteq> j \<longrightarrow> same_lock (ls ! i) (ls ! j) \<longrightarrow> le_held (ls ! i) \<longrightarrow> le_held (ls ! j) \<longrightarrow> le_shared (ls ! i))"
proof -
  have f: "fair ls" unfolding ls_def by (rule web_run_fair) (simp add: empty_process_def fair_def)
  have both: "le_shared (ls ! i)"
    if j: "j < length ls" "i \<noteq> j" and same: "same_lock (ls ! i) (ls ! j)" "le_held (ls ! i)" "le_held (ls ! j)" for j
  proof -
    have e: "entitled ls i" "entitled ls j" using f assms(2) j(1) same(2,3) by (simp_all add: fair_def)
    show ?thesis
    proof (cases "i < j")
      case True
      then show ?thesis using e(2) same(1) unfolding entitled_def by blast
    next
      case False
      with j(2) have "j < i" by simp
      then show ?thesis using e(1) same(1) same_lock_sym unfolding entitled_def by blast
    qed
  qed
  have "le_held (ls ! i) \<longleftrightarrow> entitled ls i" using f assms(2) by (simp add: fair_def)
  with both show ?thesis unfolding entitled_def by blast
qed

text \<open>
  A request made only if the lock is available never waits: it is answered with nothing and changes nothing exactly when another request for the lock holds or waits in
  conflict with it, and otherwise it holds the lock when the call returns, and no other request's state changes.
\<close>

theorem available_request_never_waits:
  assumes "fair (wp_leases p)" and "lock_request r name shared True p = (answer, p')"
  shows "if list_ex (\<lambda>l. le_origin l = re_origin r \<and> le_name l = name \<and> (\<not> le_held l \<or> \<not> shared \<or> \<not> le_shared l)) (wp_leases p)
    then answer = None \<and> p' = p
    else answer = Some (wp_next p) \<and> wp_leases p' = wp_leases p @
      [\<lparr>le_id = wp_next p, le_owner = re_id r, le_origin = re_origin r, le_name = name, le_shared = shared, le_held = True\<rparr>]"
proof (cases "list_ex (\<lambda>l. le_origin l = re_origin r \<and> le_name l = name \<and> (\<not> le_held l \<or> \<not> shared \<or> \<not> le_shared l)) (wp_leases p)")
  case True
  with assms(2) show ?thesis by (simp add: lock_request_def)
next
  case False
  let ?l = "\<lparr>le_id = wp_next p, le_owner = re_id r, le_origin = re_origin r, le_name = name, le_shared = shared, le_held = False\<rparr>"
  let ?ls = "wp_leases p @ [?l]"
  let ?h = "wp_leases p @ [?l\<lparr>le_held := True\<rparr>]"
  have p': "answer = Some (wp_next p)" "wp_leases p' = grant ?ls" using assms(2) False by (auto simp: lock_request_def next_id_def Let_def)
  have free: "le_held (wp_leases p ! j) \<and> shared \<and> le_shared (wp_leases p ! j)"
    if "j < length (wp_leases p)" "same_lock (wp_leases p ! j) ?l" for j
    using False that by (auto simp: list_ex_iff same_lock_def)
  have r: "rightful ?ls" using rightful_append [OF fair_rightful [OF assms(1)], of ?l] by simp
  have eq: "map unheld (grant ?ls) = map unheld ?h" using grant_unheld [OF r] by (simp add: unheld_def)
  have e: "entitled ?h i = (if i < length (wp_leases p) then entitled (wp_leases p) i else True)" if "i < length ?h" for i
  proof (cases "i < length (wp_leases p)")
    case True
    then show ?thesis by (simp add: entitled_def nth_append)
  next
    case False
    with that have i: "i = length (wp_leases p)" by simp
    have "entitled ?h i"
    proof (cases "\<exists>j<length (wp_leases p). same_lock (wp_leases p ! j) ?l")
      case True
      with free show ?thesis by (auto simp: entitled_def i nth_append same_lock_def)
    next
      case False
      then show ?thesis by (auto simp: entitled_def i nth_append same_lock_def)
    qed
    with i show ?thesis by simp
  qed
  have h: "fair ?h" using assms(1) e by (auto simp: fair_def nth_append)
  have "grant ?ls = ?h"
  proof (rule nth_equalityI)
    show len: "length (grant ?ls) = length ?h" using unheld_length [OF eq] .
    fix i assume i: "i < length (grant ?ls)"
    have u: "unheld (grant ?ls ! i) = unheld (?h ! i)" using eq i len by (metis nth_map)
    have "entitled (grant ?ls) i = entitled ?h i" using entitled_cong [OF eq] i by simp
    then have "le_held (grant ?ls ! i) = le_held (?h ! i)" using grant_fair [OF r] h i len unfolding fair_def by simp
    with u show "grant ?ls ! i = ?h ! i" by (cases "grant ?ls ! i"; cases "?h ! i") (simp add: unheld_def)
  qed
  with p' False show ?thesis by simp
qed

text \<open>
  A broadcast channel that is open at the end of a run has delivered to its owner, in the order they were posted and each once, the messages that other channels of its name and origin posted
  since the run began; what is not delivered yet is still queued, and nothing else is.
\<close>

theorem broadcast_in_order:
  assumes "length es0 + length es < 2 ^ 64 - 1"
    and "map_of (wp_channels (web_run es0 empty_process)) nr = Some c"
    and "map_of (wp_channels (web_run es (web_run es0 empty_process))) nr = Some c'"
  shows "ch_incoming c @ posted nr (web_run es0 empty_process) es = delivered nr (web_run es0 empty_process) es @ ch_incoming c'"
proof -
  let ?p = "web_run es0 empty_process"
  have start: "web_inv empty_process" "wp_next empty_process = 1" by (simp_all add: empty_process_def web_inv_def)
  then have p: "web_inv ?p" "wp_next ?p \<le> 1 + length es0" using web_run_inv [of empty_process es0] assms(1) by simp_all
  have "nr < wp_next ?p" using p(1) map_of_SomeD [OF assms(2)] by (auto simp: web_inv_def)
  then show ?thesis using web_run_channel [OF p(1) _ _ assms(3)] p(2) assms(1,2) by simp
qed

section \<open>Witnesses\<close>

definition example_realm :: "nat \<Rightarrow> realm" where
  "example_realm n = \<lparr>re_id = n, re_origin = S ''https://a'', re_public = S ''https://a'', re_secure = True\<rparr>"

definition example_events :: "event list" where
  "example_events = [Call (example_realm 1) (LockRequest (S ''m'') True False), Call (example_realm 2) (LockRequest (S ''m'') False False),
     Call (example_realm 3) (LockRequest (S ''m'') True False)]"

lemma example_leases: "wp_leases (web_run example_events empty_process) =
    [\<lparr>le_id = 1, le_owner = 1, le_origin = S ''https://a'', le_name = S ''m'', le_shared = True, le_held = True\<rparr>,
     \<lparr>le_id = 2, le_owner = 2, le_origin = S ''https://a'', le_name = S ''m'', le_shared = False, le_held = False\<rparr>,
     \<lparr>le_id = 3, le_owner = 3, le_origin = S ''https://a'', le_name = S ''m'', le_shared = True, le_held = False\<rparr>]"
  by (simp add: example_events_def web_run_def web_step_def platform_def lock_request_def next_id_def Let_def empty_process_def
      example_realm_def grant_def grant_one_def blocked_def same_lock_def)

theorem web_locks_fair_witness:
  "length (wp_leases (web_run example_events empty_process)) = 3 \<and> \<not> le_held (wp_leases (web_run example_events empty_process) ! 2)"
  using web_locks_fair [of 2 example_events] by (simp add: example_leases same_lock_def nth_Cons')

theorem available_request_never_waits_witness:
  "fst (lock_request (example_realm 4) (S ''m'') True True (web_run example_events empty_process)) = None
   \<and> snd (lock_request (example_realm 4) (S ''m'') True True (web_run example_events empty_process)) = web_run example_events empty_process"
proof -
  have "fair (wp_leases (web_run example_events empty_process))" by (rule web_run_fair) (simp add: empty_process_def fair_def)
  note w = available_request_never_waits [OF this, of "example_realm 4" "S ''m''" True]
  show ?thesis using w [OF prod.collapse [symmetric]] by (simp add: example_leases example_realm_def)
qed

definition example_channels :: "event list" where
  "example_channels = [Call (example_realm 1) (BroadcastOpen (S ''c'')), Call (example_realm 2) (BroadcastOpen (S ''c''))]"

definition example_posts :: "event list" where
  "example_posts = [Call (example_realm 1) (BroadcastPost 1 (S ''x'')), Call (example_realm 2) BroadcastRead, Call (example_realm 1) (BroadcastPost 1 (S ''y''))]"

lemmas web_eval = web_run_def web_step_def platform_def broadcast_open_def broadcast_post_def broadcast_read_def next_id_def Let_def and_then_def
  empty_process_def example_realm_def example_channels_def example_posts_def

theorem broadcast_in_order_witness:
  "posted 2 (web_run example_channels empty_process) example_posts = [S ''x'', S ''y'']
   \<and> delivered 2 (web_run example_channels empty_process) example_posts @ [S ''y''] = [S ''x'', S ''y'']"
proof -
  have 1: "map_of (wp_channels (web_run example_channels empty_process)) 2 =
      Some \<lparr>ch_owner = 2, ch_origin = S ''https://a'', ch_name = S ''c'', ch_incoming = []\<rparr>"
    by (simp add: web_eval)
  have 2: "map_of (wp_channels (web_run example_posts (web_run example_channels empty_process))) 2 =
      Some \<lparr>ch_owner = 2, ch_origin = S ''https://a'', ch_name = S ''c'', ch_incoming = [S ''y'']\<rparr>"
    by (simp add: web_eval)
  have 3: "posted 2 (web_run example_channels empty_process) example_posts = [S ''x'', S ''y'']"
    by (simp add: web_eval posted_by_def)
  have "length example_channels + length example_posts < 2 ^ 64 - 1" by (simp add: example_channels_def example_posts_def)
  from broadcast_in_order [OF this 1 2] 3 show ?thesis by simp
qed

end
