(* ===== verification/Webauthn.thy ===== *)
theory Webauthn
  imports Text_Ops
begin

unbundle bit_operations_syntax

text \<open>
  The client side of WebAuthn (\<^verbatim>\<open>src/apps/chuzz/src/webauthn.rs\<close>): which relying parties a page may name, the request that goes to the
  authenticator, and what is accepted of its response. The URL parser, the public-suffix list, SHA-256, the CBOR codec, P-256, the escaping of JSON strings and the constants of CTAP2
  are the fields of \<open>env\<close>; \<open>'v\<close> is the type of decoded CBOR values.
\<close>

section \<open>Errors\<close>

record wa_error =
  er_name :: str
  er_message :: str

definition new_error :: "string \<Rightarrow> string \<Rightarrow> wa_error" where
  "new_error name message = \<lparr>er_name = S name, er_message = S message\<rparr>"

definition denied :: wa_error where
  "denied = new_error ''NotAllowedError'' ''The authenticator did not allow the request''"

definition unknown :: wa_error where
  "unknown = new_error ''UnknownError'' ''The authenticator could not complete the request''"

definition security :: wa_error where
  "security = new_error ''SecurityError'' ''The relying party is not valid for this origin''"

section \<open>Options\<close>

record rp_options =
  rp_id :: "str option"
  rp_name :: str

record user =
  us_id :: bytes
  us_name :: str
  us_display_name :: str

record parameter =
  pa_kind :: str
  pa_alg :: int

record descriptor =
  dc_kind :: str
  dc_id :: bytes

record selection =
  sl_attachment :: "str option"
  sl_resident_key :: "str option"
  sl_require_resident_key :: bool
  sl_user_verification :: "str option"

record creation_options =
  co_challenge :: bytes
  co_rp :: rp_options
  co_user :: user
  co_params :: "parameter list"
  co_exclude :: "descriptor list"
  co_selection :: selection
  co_attestation :: "str option"
  co_timeout :: nat

record request_options =
  ro_challenge :: bytes
  ro_rp_id :: "str option"
  ro_allow :: "descriptor list"
  ro_user_verification :: "str option"
  ro_timeout :: nat

record prepared =
  pp_request :: bytes
  pp_client_data :: bytes
  pp_client_hash :: bytes
  pp_rp_id :: str
  pp_rp_hash :: bytes
  pp_create :: bool
  pp_anonymize :: bool
  pp_require_uv :: bool
  pp_allow :: "bytes list"
  pp_timeout :: nat

section \<open>Code that is not part of the repository\<close>

datatype url_host = Domain str | Ipv4 | Ipv6

datatype out = OMap "(out \<times> out) list" | OArray "out list" | OText str | OBytes bytes | OInt int | OBool bool

record 'v env =
  url_parse :: "str \<Rightarrow> (str \<times> url_host option) option"
  host_parse :: "str \<Rightarrow> url_host option"
  psl_domain :: "bytes \<Rightarrow> bool"
  sha256 :: "bytes \<Rightarrow> bytes"
  json_string :: "str \<Rightarrow> bytes"
  cbor_encode :: "out \<Rightarrow> bytes"
  cbor_decode :: "bytes \<Rightarrow> 'v option"
  v_get :: "'v \<Rightarrow> int \<Rightarrow> 'v option"
  v_get_text :: "'v \<Rightarrow> str \<Rightarrow> 'v option"
  v_bytes :: "'v \<Rightarrow> bytes option"
  v_text :: "'v \<Rightarrow> str option"
  v_int :: "'v \<Rightarrow> int option"
  max_msg_size :: nat
  make_credential :: byte
  get_assertion :: byte
  flag_up :: byte
  flag_uv :: byte
  flag_at :: byte
  flag_ed :: byte
  public_key_der :: "bytes \<Rightarrow> bytes option"

section \<open>Base64url\<close>

definition ALPHABET :: str where
  "ALPHABET = S ''ABCDEFGHIJKLMNOPQRSTUVWXYZabcdefghijklmnopqrstuvwxyz0123456789-_''"

definition word24 :: "byte \<Rightarrow> byte \<Rightarrow> byte \<Rightarrow> 32 word" where
  "word24 a b c = push_bit 16 (ucast a) OR push_bit 8 (ucast b) OR ucast c"

definition sextet :: "nat \<Rightarrow> 32 word \<Rightarrow> nat" where
  "sextet n w = ALPHABET ! unat (drop_bit n w AND 63)"

fun base64url :: "bytes \<Rightarrow> str" where
  "base64url [] = []"
| "base64url [a] = (let w = word24 a 0 0 in [sextet 18 w, sextet 12 w])"
| "base64url [a, b] = (let w = word24 a b 0 in [sextet 18 w, sextet 12 w, sextet 6 w])"
| "base64url (a # b # c # rest) = (let w = word24 a b c in [sextet 18 w, sextet 12 w, sextet 6 w, sextet 0 w] @ base64url rest)"

section \<open>The relying party\<close>

definition label_refused :: "str \<Rightarrow> bool" where
  "label_refused label \<longleftrightarrow> label = [] \<or> starts_with label [45] \<or> ends_with label [45]
     \<or> \<not> list_all (\<lambda>c. is_ascii_alphanumeric c \<or> c = 45) label"

definition effective_rp :: "'v env \<Rightarrow> str \<Rightarrow> bool \<Rightarrow> str option \<Rightarrow> wa_error + str" where
  "effective_rp e origin secure requested =
     (if \<not> secure then Inl security
      else case url_parse e origin of
             None \<Rightarrow> Inl security
           | Some (scheme, host) \<Rightarrow>
               if scheme \<notin> {S ''http'', S ''https''} then Inl security
               else case host of
                      Some (Domain host) \<Rightarrow>
                        (case host_parse e (case requested of None \<Rightarrow> host | Some r \<Rightarrow> r) of
                           Some (Domain rp) \<Rightarrow>
                             if rp = [] \<or> list_ex label_refused (split_on 46 rp) then Inl security
                             else if rp = host \<or> ends_with host (46 # rp) \<and> psl_domain e (utf8 rp) then Inr rp
                             else Inl security
                         | _ \<Rightarrow> Inl security)
                    | _ \<Rightarrow> Inl security)"

section \<open>Requests\<close>

definition require_uv :: "str option \<Rightarrow> wa_error + bool" where
  "require_uv v =
     (let v = (case v of None \<Rightarrow> S ''preferred'' | Some v \<Rightarrow> v)
      in if v = S ''required'' then Inr True
         else if v \<in> {S ''preferred'', S ''discouraged''} then Inr False
         else Inl (new_error ''TypeError'' ''Invalid userVerification value''))"

definition descriptor_out :: "descriptor \<Rightarrow> wa_error + out" where
  "descriptor_out d =
     (if dc_kind d \<noteq> S ''public-key'' then Inl (new_error ''TypeError'' ''Invalid credential descriptor type'')
      else Inr (OMap [(OText (S ''type''), OText (S ''public-key'')), (OText (S ''id''), OBytes (dc_id d))]))"

definition descriptors :: "descriptor list \<Rightarrow> wa_error + out" where
  "descriptors ds = and_then (collect_results descriptor_out ds) (\<lambda>os. Inr (OArray os))"

definition client_data_json :: "'v env \<Rightarrow> str \<Rightarrow> str \<Rightarrow> str \<Rightarrow> bytes" where
  "client_data_json e kind challenge origin =
     utf8 (S ''{\"type\":'') @ json_string e kind @ utf8 (S '',\"challenge\":'') @ json_string e challenge
     @ utf8 (S '',\"origin\":'') @ json_string e origin @ utf8 (S '',\"crossOrigin\":false}'')"

definition client_data :: "'v env \<Rightarrow> str \<Rightarrow> bytes \<Rightarrow> str \<Rightarrow> wa_error + bytes \<times> bytes" where
  "client_data e kind challenge origin =
     (if 65536 < length challenge then Inl (new_error ''ConstraintError'' ''The challenge is too large'')
      else let data = client_data_json e kind (base64url challenge) origin in Inr (data, sha256 e data))"

definition command :: "'v env \<Rightarrow> byte \<Rightarrow> out \<Rightarrow> wa_error + bytes" where
  "command e c parameters =
     (let request = c # cbor_encode e parameters
      in if max_msg_size e < length request then Inl (new_error ''ConstraintError'' ''The authenticator request is too large'')
         else Inr request)"

definition resident_key :: "selection \<Rightarrow> wa_error + bool" where
  "resident_key s =
     (case sl_resident_key s of
        None \<Rightarrow> Inr (sl_require_resident_key s)
      | Some v \<Rightarrow>
          if v \<in> {S ''required'', S ''preferred''} then Inr True
          else if v = S ''discouraged'' then Inr (sl_require_resident_key s)
          else Inl (new_error ''TypeError'' ''Invalid residentKey value''))"

definition attachment :: "selection \<Rightarrow> wa_error + unit" where
  "attachment s =
     (case sl_attachment s of
        None \<Rightarrow> Inr ()
      | Some v \<Rightarrow>
          if v = S ''platform'' then Inr () else if v = S ''cross-platform'' then Inl denied
          else Inl (new_error ''TypeError'' ''Invalid authenticatorAttachment value''))"

definition anonymized :: "str option \<Rightarrow> wa_error + bool" where
  "anonymized v =
     (let v = (case v of None \<Rightarrow> S ''none'' | Some v \<Rightarrow> v)
      in if v \<in> {S ''none'', S ''indirect''} then Inr True else if v \<in> {S ''direct'', S ''enterprise''} then Inr False
         else Inl (new_error ''TypeError'' ''Invalid attestation value''))"

definition create_parameters :: "creation_options \<Rightarrow> bytes \<Rightarrow> str \<Rightarrow> out \<Rightarrow> bool \<Rightarrow> bool \<Rightarrow> out" where
  "create_parameters opts hash rp excluded rk uv =
     OMap [(OInt 1, OBytes hash),
           (OInt 2, OMap [(OText (S ''id''), OText rp), (OText (S ''name''), OText (rp_name (co_rp opts)))]),
           (OInt 3, OMap [(OText (S ''id''), OBytes (us_id (co_user opts))), (OText (S ''name''), OText (us_name (co_user opts))),
                          (OText (S ''displayName''), OText (us_display_name (co_user opts)))]),
           (OInt 4, OArray [OMap [(OText (S ''type''), OText (S ''public-key'')), (OText (S ''alg''), OInt (- 7))]]),
           (OInt 5, excluded),
           (OInt 7, OMap [(OText (S ''rk''), OBool rk), (OText (S ''uv''), OBool uv)])]"

definition prepare_create :: "'v env \<Rightarrow> str \<Rightarrow> bool \<Rightarrow> creation_options \<Rightarrow> wa_error + prepared" where
  "prepare_create e origin secure opts =
     and_then (effective_rp e origin secure (rp_id (co_rp opts))) (\<lambda>rp.
     if us_id (co_user opts) = [] \<or> 64 < length (us_id (co_user opts))
     then Inl (new_error ''TypeError'' ''user.id must contain 1 through 64 bytes'')
     else if co_params opts \<noteq> [] \<and> \<not> list_ex (\<lambda>p. pa_kind p = S ''public-key'' \<and> pa_alg p = - 7) (co_params opts)
     then Inl (new_error ''NotSupportedError'' ''ES256 is required'')
     else and_then (attachment (co_selection opts)) (\<lambda>_.
       and_then (resident_key (co_selection opts)) (\<lambda>resident.
       and_then (require_uv (sl_user_verification (co_selection opts))) (\<lambda>uv.
       and_then (anonymized (co_attestation opts)) (\<lambda>anonymize.
       and_then (client_data e (S ''webauthn.create'') (co_challenge opts) origin) (\<lambda>(data, hash).
       and_then (descriptors (co_exclude opts)) (\<lambda>excluded.
       and_then (command e (make_credential e) (create_parameters opts hash rp excluded resident uv)) (\<lambda>request.
         Inr \<lparr>pp_request = request, pp_client_data = data, pp_client_hash = hash, pp_rp_id = rp, pp_rp_hash = sha256 e (utf8 rp),
              pp_create = True, pp_anonymize = anonymize, pp_require_uv = uv, pp_allow = [], pp_timeout = co_timeout opts\<rparr>))))))))"

definition get_parameters :: "bytes \<Rightarrow> str \<Rightarrow> out \<Rightarrow> bool \<Rightarrow> out" where
  "get_parameters hash rp allowed uv =
     OMap [(OInt 1, OText rp), (OInt 2, OBytes hash), (OInt 3, allowed), (OInt 5, OMap [(OText (S ''up''), OBool True), (OText (S ''uv''), OBool uv)])]"

definition prepare_get :: "'v env \<Rightarrow> str \<Rightarrow> bool \<Rightarrow> request_options \<Rightarrow> wa_error + prepared" where
  "prepare_get e origin secure opts =
     and_then (effective_rp e origin secure (ro_rp_id opts)) (\<lambda>rp.
     and_then (require_uv (ro_user_verification opts)) (\<lambda>uv.
     and_then (client_data e (S ''webauthn.get'') (ro_challenge opts) origin) (\<lambda>(data, hash).
     and_then (descriptors (ro_allow opts)) (\<lambda>allowed.
     and_then (command e (get_assertion e) (get_parameters hash rp allowed uv)) (\<lambda>request.
       Inr \<lparr>pp_request = request, pp_client_data = data, pp_client_hash = hash, pp_rp_id = rp, pp_rp_hash = sha256 e (utf8 rp),
            pp_create = False, pp_anonymize = False, pp_require_uv = uv, pp_allow = map dc_id (ro_allow opts), pp_timeout = ro_timeout opts\<rparr>)))))"

section \<open>Responses\<close>

definition field :: "'v env \<Rightarrow> 'v \<Rightarrow> int \<Rightarrow> wa_error + 'v" where
  "field e v k = ok_or (v_get e v k) unknown"

definition bytes_of :: "'v env \<Rightarrow> 'v \<Rightarrow> wa_error + bytes" where
  "bytes_of e v = ok_or (v_bytes e v) unknown"

definition text_of :: "'v env \<Rightarrow> 'v \<Rightarrow> wa_error + str" where
  "text_of e v = ok_or (v_text e v) unknown"

definition authenticator_data :: "'v env \<Rightarrow> prepared \<Rightarrow> bytes \<Rightarrow> bool \<Rightarrow> wa_error + unit" where
  "authenticator_data e p data create =
     (if length data < 37 \<or> take 32 data \<noteq> pp_rp_hash p \<or> data ! 32 AND flag_up e = 0
         \<or> (pp_require_uv p \<and> data ! 32 AND flag_uv e = 0) \<or> (create \<and> data ! 32 AND flag_at e = 0) \<or> data ! 32 AND flag_ed e \<noteq> 0
      then Inl unknown else Inr ())"

text \<open>\<open>slice::get\<close> on a range.\<close>

definition get_slice :: "nat \<Rightarrow> nat \<Rightarrow> bytes \<Rightarrow> bytes option" where
  "get_slice a b xs = (if a \<le> b \<and> b \<le> length xs then Some (take (b - a) (drop a xs)) else None)"

record registration_response =
  rg_id :: str
  rg_raw_id :: bytes
  rg_client_data :: bytes
  rg_attestation :: bytes
  rg_data :: bytes
  rg_public_key :: bytes

definition be16 :: "byte \<Rightarrow> byte \<Rightarrow> nat" where
  "be16 a b = unat a * 256 + unat b"

text \<open>The credential key must be an ES256 key on P-256; its uncompressed point.\<close>

definition cose_point :: "'v env \<Rightarrow> 'v \<Rightarrow> wa_error + bytes" where
  "cose_point e cose =
     (let integer = (\<lambda>k. case v_get e cose k of None \<Rightarrow> None | Some v \<Rightarrow> v_int e v)
      in if integer 1 \<noteq> Some 2 \<or> integer 3 \<noteq> Some (- 7) \<or> integer (- 1) \<noteq> Some 1 then Inl unknown
         else and_then (and_then (field e cose (- 2)) (bytes_of e)) (\<lambda>x.
              and_then (and_then (field e cose (- 3)) (bytes_of e)) (\<lambda>y.
                if length x \<noteq> 32 \<or> length y \<noteq> 32 then Inl unknown else Inr (4 # x @ y))))"

definition packed_signature :: "'v env \<Rightarrow> 'v \<Rightarrow> wa_error + bytes" where
  "packed_signature e body =
     and_then (and_then (field e body 1) (text_of e)) (\<lambda>format.
     and_then (field e body 3) (\<lambda>statement.
       if format \<noteq> S ''packed'' \<or> (case v_get_text e statement (S ''alg'') of None \<Rightarrow> None | Some v \<Rightarrow> v_int e v) \<noteq> Some (- 7)
          \<or> v_get_text e statement (S ''x5c'') \<noteq> None
       then Inl unknown
       else and_then (ok_or (v_get_text e statement (S ''sig'')) unknown) (bytes_of e)))"

definition registration :: "'v env \<Rightarrow> prepared \<Rightarrow> 'v \<Rightarrow> wa_error + registration_response" where
  "registration e p body =
     and_then (and_then (field e body 2) (bytes_of e)) (\<lambda>data.
     and_then (authenticator_data e p data True) (\<lambda>_.
     if length data < 55 then Inl unknown
     else let len = be16 (data ! 53) (data ! 54)
          in if len = 0 then Inl unknown
             else and_then (ok_or (get_slice 55 (55 + len) data) unknown) (\<lambda>raw_id.
                  and_then (ok_or (get_slice (55 + len) (length data) data) unknown) (\<lambda>key.
                  and_then (ok_or (cbor_decode e key) unknown) (\<lambda>cose.
                  and_then (cose_point e cose) (\<lambda>point.
                  and_then (ok_or (public_key_der e point) unknown) (\<lambda>der.
                  and_then (packed_signature e body) (\<lambda>signature.
                    let data' = (if pp_anonymize p then take 37 data @ replicate 16 0 @ drop 53 data else data);
                        format = (if pp_anonymize p then S ''none'' else S ''packed'');
                        statement = (if pp_anonymize p then OMap []
                                     else OMap [(OText (S ''alg''), OInt (- 7)), (OText (S ''sig''), OBytes signature)])
                    in Inr \<lparr>rg_id = base64url raw_id, rg_raw_id = raw_id, rg_client_data = pp_client_data p,
                            rg_attestation = cbor_encode e (OMap [(OText (S ''fmt''), OText format), (OText (S ''attStmt''), statement),
                                                                 (OText (S ''authData''), OBytes data')]),
                            rg_data = data', rg_public_key = der\<rparr>))))))))"

record assertion_response =
  as_id :: str
  as_raw_id :: bytes
  as_client_data :: bytes
  as_data :: bytes
  as_signature :: bytes
  as_user_handle :: "bytes option"

definition user_handle :: "'v env \<Rightarrow> 'v \<Rightarrow> wa_error + bytes option" where
  "user_handle e body =
     (case v_get e body 4 of
        None \<Rightarrow> Inr None
      | Some user \<Rightarrow>
          and_then (and_then (ok_or (v_get_text e user (S ''id'')) unknown) (bytes_of e)) (\<lambda>handle.
            if handle = [] \<or> 64 < length handle then Inl unknown else Inr (Some handle)))"

definition assertion :: "'v env \<Rightarrow> prepared \<Rightarrow> 'v \<Rightarrow> wa_error + assertion_response" where
  "assertion e p body =
     and_then (field e body 1) (\<lambda>descriptor.
     and_then (and_then (ok_or (v_get_text e descriptor (S ''type'')) unknown) (text_of e)) (\<lambda>kind.
     if kind \<noteq> S ''public-key'' then Inl unknown
     else and_then (and_then (ok_or (v_get_text e descriptor (S ''id'')) unknown) (bytes_of e)) (\<lambda>raw_id.
     if raw_id = [] \<or> (pp_allow p \<noteq> [] \<and> raw_id \<notin> set (pp_allow p)) then Inl unknown
     else and_then (and_then (field e body 2) (bytes_of e)) (\<lambda>data.
          and_then (authenticator_data e p data False) (\<lambda>_.
          if length data \<noteq> 37 \<or> data ! 32 AND flag_at e \<noteq> 0 then Inl unknown
          else and_then (and_then (field e body 3) (bytes_of e)) (\<lambda>signature.
               and_then (user_handle e body) (\<lambda>handle.
                 Inr \<lparr>as_id = base64url raw_id, as_raw_id = raw_id, as_client_data = pp_client_data p, as_data = data,
                      as_signature = signature, as_user_handle = handle\<rparr>)))))))"

section \<open>The authenticator\<close>

datatype outcome = Registered registration_response | Asserted assertion_response

definition status_error :: "byte \<Rightarrow> wa_error" where
  "status_error s =
     (if s = 0x19 then new_error ''InvalidStateError'' ''A credential is excluded''
      else if s = 0x26 then new_error ''NotSupportedError'' ''The algorithm is unavailable''
      else if s \<in> {0x05, 0x27, 0x2d, 0x2e, 0x2f, 0x30} then denied else unknown)"

text \<open>\<open>Job::check\<close> at a time, of a job that has been discarded or not.\<close>

definition job_check :: "nat \<Rightarrow> nat \<Rightarrow> bool \<Rightarrow> wa_error + unit" where
  "job_check deadline now discarded =
     (if deadline \<le> now then Inl denied
      else if discarded then Inl (new_error ''AbortError'' ''The request was aborted'') else Inr ())"

text \<open>
  \<open>Device::process\<close>. The two devices are what they answer to a request; the Secure Enclave one also has the outcome of its presence gate:
  whether an ephemeral key could be made and whether it signed. \<open>check n\<close> is what the n-th look at the job finds.
\<close>

datatype device = Software "bytes \<Rightarrow> bytes" | Secure_Enclave bool bool "bytes \<Rightarrow> bytes"

definition process_request :: "device \<Rightarrow> prepared \<Rightarrow> (nat \<Rightarrow> wa_error + unit) \<Rightarrow> nat \<Rightarrow> wa_error + bytes" where
  "process_request d p check n =
     and_then (check n) (\<lambda>_. case d of
        Software respond \<Rightarrow> Inr (respond (pp_request p))
      | Secure_Enclave key_made gate_signed respond \<Rightarrow>
          if \<not> key_made then Inl denied else if \<not> gate_signed then Inl denied
          else and_then (check (n + 1)) (\<lambda>_. Inr (respond (pp_request p))))"

definition perform :: "'v env \<Rightarrow> (wa_error + device) \<Rightarrow> prepared \<Rightarrow> (nat \<Rightarrow> wa_error + unit) \<Rightarrow> wa_error + outcome" where
  "perform e device p check =
     and_then (check 0) (\<lambda>_.
     and_then device (\<lambda>d.
     and_then (check 1) (\<lambda>_.
     and_then (process_request d p check 2) (\<lambda>response.
     and_then (check 4) (\<lambda>_.
       case response of
         [] \<Rightarrow> Inl unknown
       | status # body \<Rightarrow>
           if status \<noteq> 0 then Inl (status_error status)
           else and_then (ok_or (cbor_decode e body) unknown) (\<lambda>body.
                if pp_create p then and_then (registration e p body) (\<lambda>r. Inr (Registered r))
                else and_then (assertion e p body) (\<lambda>r. Inr (Asserted r))))))))"

end
