(* ===== verification/Webauthn_Props.thy ===== *)
theory Webauthn_Props
  imports Webauthn
begin

unbundle bit_operations_syntax

text \<open>
  What the client side of WebAuthn guarantees (\<^verbatim>\<open>src/apps/chuzz/src/webauthn.rs\<close>): relying parties a page may name, requests bound to them, and responses
  that are what was asked for.
\<close>

section \<open>Base64url\<close>

text \<open>The decoder that the encoding is read with.\<close>

definition value_of :: "nat \<Rightarrow> nat" where
  "value_of c = (if 65 \<le> c \<and> c \<le> 90 then c - 65 else if 97 \<le> c \<and> c \<le> 122 then c - 71
     else if 48 \<le> c \<and> c \<le> 57 then c + 4 else if c = 45 then 62 else 63)"

fun unbase64url :: "str \<Rightarrow> bytes" where
  "unbase64url (p # q # r # s # rest) =
     of_nat (value_of p * 4 + value_of q div 16) # of_nat (value_of q mod 16 * 16 + value_of r div 4)
       # of_nat (value_of r mod 4 * 64 + value_of s) # unbase64url rest"
| "unbase64url [p, q, r] = [of_nat (value_of p * 4 + value_of q div 16), of_nat (value_of q mod 16 * 16 + value_of r div 4)]"
| "unbase64url [p, q] = [of_nat (value_of p * 4 + value_of q div 16)]"
| "unbase64url _ = []"

lemma ALPHABET_values: "map value_of ALPHABET = [0..<64]"
  by (simp add: ALPHABET_def value_of_def upt_conv_Cons)

lemma ALPHABET_chars: "list_all (\<lambda>c. is_ascii_alphanumeric c \<or> c = 45 \<or> c = 95) ALPHABET"
  by (simp add: ALPHABET_def is_ascii_alphanumeric_def is_ascii_alphabetic_def is_ascii_lower_def is_ascii_digit_def)

lemma length_ALPHABET: "length ALPHABET = 64"
  by (simp add: ALPHABET_def)

lemma value_of_ALPHABET: "n < 64 \<Longrightarrow> value_of (ALPHABET ! n) = n"
proof -
  assume n: "n < 64"
  have "value_of (ALPHABET ! n) = map value_of ALPHABET ! n" using n length_ALPHABET by simp
  also have "\<dots> = n" unfolding ALPHABET_values using n by simp
  finally show ?thesis .
qed

lemma unat_word24: "unat (word24 a b c) = unat a * 65536 + unat b * 256 + unat c"
proof -
  have 1: "push_bit 16 (ucast a :: 32 word) AND (push_bit 8 (ucast b) OR ucast c) = 0"
    by (rule bit_word_eqI) (auto simp: bit_simps dest: bit_imp_le_length)
  have 2: "push_bit 8 (ucast b :: 32 word) AND ucast c = 0"
    by (rule bit_word_eqI) (auto simp: bit_simps dest: bit_imp_le_length)
  have small: "unat a < 256" "unat b < 256" "unat c < 256" using unsigned_less [of a] unsigned_less [of b] unsigned_less [of c] by simp_all
  have "word24 a b c = push_bit 16 (ucast a) + (push_bit 8 (ucast b) + ucast c)"
    using 1 2 by (simp add: word24_def disjunctive_add_eq_or or.assoc)
  also have "\<dots> = of_nat (unat a * 65536 + unat b * 256 + unat c)"
    by (simp add: push_bit_eq_mult algebra_simps)
  finally have "word24 a b c = of_nat (unat a * 65536 + unat b * 256 + unat c)" .
  then have "unat (word24 a b c) = (unat a * 65536 + unat b * 256 + unat c) mod 2 ^ 32"
    by (simp only: unat_of_nat) simp
  with small show ?thesis by simp
qed

lemma sextet_value: "value_of (sextet n w) = unat w div 2 ^ n mod 64" "sextet n w \<in> set ALPHABET"
proof -
  have "drop_bit n w AND 63 = take_bit 6 (drop_bit n w)" by (simp add: take_bit_eq_mask mask_eq_exp_minus_1)
  then have "unat (drop_bit n w AND 63) = take_bit 6 (drop_bit n (unat w))"
    by (simp only: unsigned_take_bit_eq unat_drop_bit_eq)
  then have u: "unat (drop_bit n w AND 63) = unat w div 2 ^ n mod 64" by (simp add: take_bit_eq_mod drop_bit_eq_div)
  then show "value_of (sextet n w) = unat w div 2 ^ n mod 64" using value_of_ALPHABET [of "unat w div 2 ^ n mod 64"] by (simp add: sextet_def)
  show "sextet n w \<in> set ALPHABET" using u length_ALPHABET by (simp add: sextet_def)
qed

lemma div_by: "w = k * q + r \<Longrightarrow> r < k \<Longrightarrow> w div k = (q :: nat)"
  by simp

lemma sextets:
  assumes "c < (256 :: nat)" "b < 256" "a < 256"
  shows "(a * 65536 + b * 256 + c) div 262144 mod 64 = a div 4"
    and "(a * 65536 + b * 256 + c) div 4096 mod 64 = a mod 4 * 16 + b div 16"
    and "(a * 65536 + b * 256 + c) div 64 mod 64 = b mod 16 * 4 + c div 64"
    and "(a * 65536 + b * 256 + c) mod 64 = c mod 64"
proof -
  define a1 a0 b1 b0 c1 c0 where "a1 = a div 4" "a0 = a mod 4" "b1 = b div 16" "b0 = b mod 16" "c1 = c div 64" "c0 = c mod 64"
  note defs = this
  have a: "a = 4 * a1 + a0" "a0 < 4" "a1 < 64" using assms by (simp_all add: defs)
  have b: "b = 16 * b1 + b0" "b0 < 16" "b1 < 16" using assms by (simp_all add: defs)
  have c: "c = 64 * c1 + c0" "c0 < 64" "c1 < 4" using assms by (simp_all add: defs)
  define w where "w = a * 65536 + b * 256 + c"
  have w: "w = 262144 * a1 + 65536 * a0 + 4096 * b1 + 256 * b0 + 64 * c1 + c0" by (simp add: w_def a(1) b(1) c(1))
  have "w div 262144 = a1"
    by (rule div_by [where r = "65536 * a0 + 4096 * b1 + 256 * b0 + 64 * c1 + c0"], simp add: w, use w a(2) b(2,3) c(2,3) in linarith)
  moreover have "w div 4096 = 64 * a1 + (a0 * 16 + b1)"
    by (rule div_by [where r = "256 * b0 + 64 * c1 + c0"], simp add: w, use w b(2,3) c(2,3) in linarith)
  moreover have "w div 64 mod 64 = b0 * 4 + c1"
  proof -
    have "w div 64 = 64 * (64 * a1 + 16 * a0 + b1) + (b0 * 4 + c1)"
      by (rule div_by [where r = c0], simp add: w, use w c(2,3) in linarith)
    moreover have "b0 * 4 + c1 < 64" using b(2) c(3) by linarith
    ultimately show ?thesis by (simp only: mod_mult_self4 mod_less)
  qed
  moreover have "w mod 64 = c0"
  proof -
    have "w = c0 + 64 * (4096 * a1 + 1024 * a0 + 64 * b1 + 4 * b0 + c1)" using w by simp
    then show ?thesis using c(2) by (metis mod_less mod_mult_self2)
  qed
  moreover have "a0 * 16 + b1 < 64" using a(2) b(3) by linarith
  ultimately show "(a * 65536 + b * 256 + c) div 262144 mod 64 = a div 4"
    "(a * 65536 + b * 256 + c) div 4096 mod 64 = a mod 4 * 16 + b div 16"
    "(a * 65536 + b * 256 + c) div 64 mod 64 = b mod 16 * 4 + c div 64"
    "(a * 65536 + b * 256 + c) mod 64 = c mod 64"
    using a(3) by (simp_all flip: w_def defs)
qed

lemma byte_of_nat: "n = unat (x :: byte) \<Longrightarrow> of_nat n = x"
  by simp

text \<open>The three bytes that the four values of a group stand for.\<close>

lemma group_bytes:
  fixes a b c :: byte
  defines "w \<equiv> unat a * 65536 + unat b * 256 + unat c"
  shows "of_nat (w div 262144 mod 64 * 4 + w div 4096 mod 64 div 16) = a"
    and "of_nat (w div 4096 mod 64 mod 16 * 16 + w div 64 mod 64 div 4) = b"
    and "of_nat (w div 64 mod 64 mod 4 * 64 + w mod 64) = c"
proof -
  have less: "unat c < 256" "unat b < 256" "unat a < 256" using unsigned_less [of a] unsigned_less [of b] unsigned_less [of c] by simp_all
  note s = sextets [OF less]
  have h: "(unat a mod 4 * 16 + unat b div 16) div 16 = unat a mod 4" "(unat a mod 4 * 16 + unat b div 16) mod 16 = unat b div 16"
    "(unat b mod 16 * 4 + unat c div 64) div 4 = unat b mod 16" "(unat b mod 16 * 4 + unat c div 64) mod 4 = unat c div 64"
  proof -
    have "unat b div 16 < 16" "unat c div 64 < 4" using less by simp_all
    then show "(unat a mod 4 * 16 + unat b div 16) div 16 = unat a mod 4" "(unat a mod 4 * 16 + unat b div 16) mod 16 = unat b div 16"
      "(unat b mod 16 * 4 + unat c div 64) div 4 = unat b mod 16" "(unat b mod 16 * 4 + unat c div 64) mod 4 = unat c div 64" by simp_all
  qed
  show "of_nat (w div 262144 mod 64 * 4 + w div 4096 mod 64 div 16) = a"
    by (rule byte_of_nat) (simp only: w_def s h, simp)
  show "of_nat (w div 4096 mod 64 mod 16 * 16 + w div 64 mod 64 div 4) = b"
    by (rule byte_of_nat) (simp only: w_def s h, simp)
  show "of_nat (w div 64 mod 64 mod 4 * 64 + w mod 64) = c"
    by (rule byte_of_nat) (simp only: w_def s h, simp)
qed

text \<open>The base64url text of a credential can be read back, and consists of the 64 characters of the alphabet.\<close>

lemma unbase64url_base64url: "unbase64url (base64url bs) = bs"
proof (induction bs rule: base64url.induct)
  case (2 a)
  show ?case using group_bytes(1) [of a 0 0] by (simp add: Let_def sextet_value unat_word24)
next
  case (3 a b)
  show ?case using group_bytes(1,2) [of a b 0] by (simp add: Let_def sextet_value unat_word24)
next
  case (4 a b c rest)
  then show ?case using group_bytes [of a b c] by (simp add: Let_def sextet_value unat_word24)
qed simp

lemma base64url_alphabet: "set (base64url bs) \<subseteq> set ALPHABET"
  using sextet_value(2) by (induction bs rule: base64url.induct) (auto simp: Let_def)

lemma length_base64url: "length (base64url bs) = (4 * length bs + 2) div 3"
  by (induction bs rule: base64url.induct) (auto simp: Let_def)

text \<open>
  The text that names a credential names it exactly: decoding it gives the bytes of its identifier, every character is one of the 64 of the base64url alphabet,
  and its length is what unpadded base64 takes.
\<close>

theorem credential_text_round_trip:
  "unbase64url (base64url bs) = bs \<and> set (base64url bs) \<subseteq> set ALPHABET \<and> length (base64url bs) = (4 * length bs + 2) div 3"
  using unbase64url_base64url base64url_alphabet length_base64url by blast

section \<open>The relying party\<close>

lemma ends_with_iff: "ends_with s p \<longleftrightarrow> (\<exists>t. s = t @ p)"
  unfolding ends_with_def by (metis append_eq_conv_conj append_take_drop_id diff_le_self le_add2 length_append add_diff_cancel_right')

lemma effective_rp_InrE:
  assumes "effective_rp e origin secure requested = Inr rp"
  obtains scheme host where "secure" "url_parse e origin = Some (scheme, Some (Domain host))" "scheme \<in> {S ''http'', S ''https''}"
    "host_parse e (case requested of None \<Rightarrow> host | Some r \<Rightarrow> r) = Some (Domain rp)" "list_all (\<lambda>l. \<not> label_refused l) (split_on 46 rp)"
    "rp = host \<or> ends_with host (46 # rp) \<and> psl_domain e (utf8 rp)"
  using assms unfolding effective_rp_def
  by (auto simp: list_all_iff list_ex_iff simp del: S_simps split: if_splits option.splits url_host.splits)

text \<open>What a page may name: its own host, or a suffix of it that begins at a label and that the public-suffix list knows a registered domain for.\<close>

definition may_name :: "'v env \<Rightarrow> str \<Rightarrow> str \<Rightarrow> bool" where
  "may_name e origin rp \<longleftrightarrow> (\<exists>scheme host. url_parse e origin = Some (scheme, Some (Domain host)) \<and> scheme \<in> {S ''http'', S ''https''}
     \<and> (rp = host \<or> (\<exists>sub. host = sub @ 46 # rp) \<and> psl_domain e (utf8 rp)))"

lemma label_ok: "\<not> label_refused l \<longleftrightarrow> l \<noteq> [] \<and> hd l \<noteq> 45 \<and> last l \<noteq> 45 \<and> list_all (\<lambda>c. is_ascii_alphanumeric c \<or> c = 45) l"
proof (cases "l = []")
  case False
  then have "starts_with l [45] \<longleftrightarrow> hd l = 45" by (cases l) (auto simp: starts_with_def)
  moreover have "ends_with l [45] \<longleftrightarrow> last l = 45" using False by (cases l rule: rev_cases) (auto simp: ends_with_iff)
  ultimately show ?thesis using False by (auto simp: label_refused_def)
qed (simp add: label_refused_def)

text \<open>
  C23. The relying party of a request is one that the page may name: the page is secure and of the web, the identifier is its host or a registrable suffix of the host at a
  label boundary, and each of its labels is made of letters, digits and inner hyphens.
\<close>

theorem relying_party_sound:
  assumes "effective_rp e origin secure requested = Inr rp"
  shows "secure \<and> may_name e origin rp
    \<and> (\<forall>l\<in>set (split_on 46 rp). l \<noteq> [] \<and> hd l \<noteq> 45 \<and> last l \<noteq> 45 \<and> list_all (\<lambda>c. is_ascii_alphanumeric c \<or> c = 45) l)"
proof -
  obtain scheme host where h: "secure" "url_parse e origin = Some (scheme, Some (Domain host))" "scheme \<in> {S ''http'', S ''https''}"
    "host_parse e (case requested of None \<Rightarrow> host | Some r \<Rightarrow> r) = Some (Domain rp)"
    "list_all (\<lambda>l. \<not> label_refused l) (split_on 46 rp)" "rp = host \<or> ends_with host (46 # rp) \<and> psl_domain e (utf8 rp)"
    by (rule effective_rp_InrE [OF assms])
  have "may_name e origin rp" unfolding may_name_def using h(2,3,6) ends_with_iff by blast
  with h(1,5) show ?thesis unfolding list_all_iff label_ok by blast
qed

section \<open>What reaches the page\<close>

definition user_checked :: "'v env \<Rightarrow> prepared \<Rightarrow> bytes \<Rightarrow> bool" where
  "user_checked e p data \<longleftrightarrow> 37 \<le> length data \<and> take 32 data = pp_rp_hash p \<and> data ! 32 AND flag_up e \<noteq> 0
     \<and> (pp_require_uv p \<longrightarrow> data ! 32 AND flag_uv e \<noteq> 0) \<and> data ! 32 AND flag_ed e = 0"

lemma authenticator_data_Inr:
  "authenticator_data e p data create = Inr u \<longleftrightarrow> user_checked e p data \<and> (create \<longrightarrow> data ! 32 AND flag_at e \<noteq> 0)"
  by (auto simp: authenticator_data_def user_checked_def)

lemma perform_InrE:
  assumes "perform e device p check = Inr r"
  obtains d response body v where "check 4 = Inr ()" "device = Inr d" "process_request d p check 2 = Inr response" "response = 0 # body"
    "cbor_decode e body = Some v"
    "if pp_create p then \<exists>g. registration e p v = Inr g \<and> r = Registered g else \<exists>a. assertion e p v = Inr a \<and> r = Asserted a"
proof -
  from assms obtain d response where 1: "device = Inr d" "process_request d p check 2 = Inr response" "check 4 = Inr ()"
    and 2: "(case response of [] \<Rightarrow> Inl unknown | status # body \<Rightarrow>
           if status \<noteq> 0 then Inl (status_error status)
           else and_then (ok_or (cbor_decode e body) unknown) (\<lambda>body.
                if pp_create p then and_then (registration e p body) (\<lambda>r. Inr (Registered r))
                else and_then (assertion e p body) (\<lambda>r. Inr (Asserted r)))) = Inr r"
    unfolding perform_def by auto
  show thesis
  proof (cases response)
    case (Cons status body)
    then have "status = 0" using 2 by (auto split: if_splits)
    moreover obtain v where "cbor_decode e body = Some v"
        "if pp_create p then \<exists>g. registration e p v = Inr g \<and> r = Registered g else \<exists>a. assertion e p v = Inr a \<and> r = Asserted a"
      using 2 Cons by (auto split: if_splits)
    ultimately show ?thesis using that 1 Cons by blast
  qed (use 2 in simp)
qed

text \<open>Only the request that was prepared reaches the device.\<close>

lemma process_request_Inr:
  "process_request d p check n = Inr response \<Longrightarrow>
     \<exists>respond. (d = Software respond \<or> d = Secure_Enclave True True respond) \<and> response = respond (pp_request p)"
  by (cases d) (auto simp: process_request_def split: if_splits)

lemma client_data_Inr: "client_data e kind challenge origin = Inr (data, hash) \<Longrightarrow>
    data = client_data_json e kind (base64url challenge) origin \<and> hash = sha256 e data \<and> length challenge \<le> 65536"
  by (auto simp: client_data_def Let_def split: if_splits)

lemma command_Inr: "command e c ps = Inr request \<Longrightarrow> request = c # cbor_encode e ps \<and> length request \<le> max_msg_size e"
  by (auto simp: command_def Let_def split: if_splits)

lemma prepare_create_InrE:
  assumes "prepare_create e origin secure opts = Inr p"
  obtains rp excluded rk where "effective_rp e origin secure (rp_id (co_rp opts)) = Inr rp" "pp_rp_id p = rp" "pp_rp_hash p = sha256 e (utf8 rp)"
    "pp_client_data p = client_data_json e (S ''webauthn.create'') (base64url (co_challenge opts)) origin"
    "pp_client_hash p = sha256 e (pp_client_data p)" "pp_create p" "descriptors (co_exclude opts) = Inr excluded"
    "pp_request p = make_credential e # cbor_encode e (create_parameters opts (pp_client_hash p) rp excluded rk (pp_require_uv p))"
    "length (pp_request p) \<le> max_msg_size e" "require_uv (sl_user_verification (co_selection opts)) = Inr (pp_require_uv p)"
    "anonymized (co_attestation opts) = Inr (pp_anonymize p)"
proof -
  from assms obtain rp rk uv an data hash excluded request where 1: "effective_rp e origin secure (rp_id (co_rp opts)) = Inr rp"
      "require_uv (sl_user_verification (co_selection opts)) = Inr uv" "anonymized (co_attestation opts) = Inr an"
      "client_data e (S ''webauthn.create'') (co_challenge opts) origin = Inr (data, hash)" "descriptors (co_exclude opts) = Inr excluded"
      "command e (make_credential e) (create_parameters opts hash rp excluded rk uv) = Inr request"
      "p = \<lparr>pp_request = request, pp_client_data = data, pp_client_hash = hash, pp_rp_id = rp, pp_rp_hash = sha256 e (utf8 rp),
              pp_create = True, pp_anonymize = an, pp_require_uv = uv, pp_allow = [], pp_timeout = co_timeout opts\<rparr>"
    unfolding prepare_create_def by (auto simp del: S_simps split: if_splits)
  then show thesis using that [of rp excluded rk] client_data_Inr [OF 1(4)] command_Inr [OF 1(6)] by (auto simp del: S_simps)
qed

lemma prepare_get_InrE:
  assumes "prepare_get e origin secure opts = Inr p"
  obtains rp allowed where "effective_rp e origin secure (ro_rp_id opts) = Inr rp" "pp_rp_id p = rp" "pp_rp_hash p = sha256 e (utf8 rp)"
    "pp_client_data p = client_data_json e (S ''webauthn.get'') (base64url (ro_challenge opts)) origin"
    "pp_client_hash p = sha256 e (pp_client_data p)" "\<not> pp_create p" "descriptors (ro_allow opts) = Inr allowed"
    "pp_request p = get_assertion e # cbor_encode e (get_parameters (pp_client_hash p) rp allowed (pp_require_uv p))"
    "length (pp_request p) \<le> max_msg_size e" "require_uv (ro_user_verification opts) = Inr (pp_require_uv p)" "pp_allow p = map dc_id (ro_allow opts)"
proof -
  from assms obtain rp uv data hash allowed request where 1: "effective_rp e origin secure (ro_rp_id opts) = Inr rp"
      "require_uv (ro_user_verification opts) = Inr uv"
      "client_data e (S ''webauthn.get'') (ro_challenge opts) origin = Inr (data, hash)" "descriptors (ro_allow opts) = Inr allowed"
      "command e (get_assertion e) (get_parameters hash rp allowed uv) = Inr request"
      "p = \<lparr>pp_request = request, pp_client_data = data, pp_client_hash = hash, pp_rp_id = rp, pp_rp_hash = sha256 e (utf8 rp),
            pp_create = False, pp_anonymize = False, pp_require_uv = uv, pp_allow = map dc_id (ro_allow opts), pp_timeout = ro_timeout opts\<rparr>"
    unfolding prepare_get_def by (auto simp del: S_simps)
  then show thesis using that [of rp allowed] client_data_Inr [OF 1(3)] command_Inr [OF 1(5)] by (auto simp del: S_simps)
qed

text \<open>An anonymised copy of authenticator data: the sixteen bytes of the AAGUID are zero.\<close>

definition without_aaguid :: "bytes \<Rightarrow> bytes" where
  "without_aaguid data = take 37 data @ replicate 16 0 @ drop 53 data"

lemma without_aaguid_nth:
  "55 \<le> length data \<Longrightarrow> length (without_aaguid data) = length data
     \<and> (\<forall>i<length data. without_aaguid data ! i = (if 37 \<le> i \<and> i < 53 then 0 else data ! i))"
  by (auto simp: without_aaguid_def nth_append)

lemma without_aaguid_head: "55 \<le> length data \<Longrightarrow> take 37 (without_aaguid data) = take 37 data \<and> drop 53 (without_aaguid data) = drop 53 data"
  by (simp add: without_aaguid_def)

lemma user_checked_head: "user_checked e p data \<Longrightarrow> take 37 data' = take 37 data \<Longrightarrow> 37 \<le> length data' \<Longrightarrow> user_checked e p data'"
proof -
  assume u: "user_checked e p data" and t: "take 37 data' = take 37 data" and l: "37 \<le> length data'"
  have "take 32 data' = take 32 data" using arg_cong [OF t, of "take 32"] by simp
  moreover have "data' ! 32 = data ! 32" using arg_cong [OF t, of "\<lambda>xs. xs ! 32"] by simp
  ultimately show ?thesis using u l by (simp add: user_checked_def)
qed

text \<open>What the reply says the authenticator data are, and how it signed them.\<close>

definition reply_data :: "'v env \<Rightarrow> 'v \<Rightarrow> bytes \<Rightarrow> bool" where
  "reply_data e v data \<longleftrightarrow> (\<exists>x. v_get e v 2 = Some x \<and> v_bytes e x = Some data)"

definition reply_signature :: "'v env \<Rightarrow> 'v \<Rightarrow> bytes \<Rightarrow> bool" where
  "reply_signature e v signature \<longleftrightarrow>
     (\<exists>f st alg x. v_get e v 1 = Some f \<and> v_text e f = Some (S ''packed'') \<and> v_get e v 3 = Some st
        \<and> v_get_text e st (S ''alg'') = Some alg \<and> v_int e alg = Some (- 7) \<and> v_get_text e st (S ''x5c'') = None
        \<and> v_get_text e st (S ''sig'') = Some x \<and> v_bytes e x = Some signature)"

text \<open>The attestation object handed to the page: the authenticator's own statement, or none of it.\<close>

definition attestation_object :: "bool \<Rightarrow> bytes \<Rightarrow> bytes \<Rightarrow> out" where
  "attestation_object anonymous signature data =
     OMap [(OText (S ''fmt''), OText (if anonymous then S ''none'' else S ''packed'')),
           (OText (S ''attStmt''), if anonymous then OMap [] else OMap [(OText (S ''alg''), OInt (- 7)), (OText (S ''sig''), OBytes signature)]),
           (OText (S ''authData''), OBytes data)]"

lemma packed_signature_Inr: "packed_signature e v = Inr s \<Longrightarrow> reply_signature e v s"
  by (auto simp: packed_signature_def reply_signature_def field_def bytes_of_def text_of_def simp del: S_simps split: option.splits if_splits)

lemma registration_InrE:
  assumes "registration e p v = Inr g"
  obtains data n key cose point signature where "reply_data e v data" "user_checked e p data" "data ! 32 AND flag_at e \<noteq> 0" "55 \<le> length data" "n = be16 (data ! 53) (data ! 54)" "n \<noteq> 0"
    "55 + n \<le> length data" "rg_raw_id g = take n (drop 55 data)" "key = drop (55 + n) data" "cbor_decode e key = Some cose"
    "cose_point e cose = Inr point" "public_key_der e point = Some (rg_public_key g)" "reply_signature e v signature"
    "rg_attestation g = cbor_encode e (attestation_object (pp_anonymize p) signature (rg_data g))"
    "rg_data g = (if pp_anonymize p then without_aaguid data else data)" "rg_id g = base64url (rg_raw_id g)" "rg_client_data g = pp_client_data p"
proof -
  from assms obtain data where 1: "and_then (field e v 2) (bytes_of e) = Inr data" "user_checked e p data" "data ! 32 AND flag_at e \<noteq> 0" "\<not> length data < 55"
      and rest: "(let len = be16 (data ! 53) (data ! 54)
          in if len = 0 then Inl unknown
             else and_then (ok_or (get_slice 55 (55 + len) data) unknown) (\<lambda>raw_id.
                  and_then (ok_or (get_slice (55 + len) (length data) data) unknown) (\<lambda>key.
                  and_then (ok_or (cbor_decode e key) unknown) (\<lambda>cose.
                  and_then (cose_point e cose) (\<lambda>point.
                  and_then (ok_or (public_key_der e point) unknown) (\<lambda>der.
                  and_then (packed_signature e v) (\<lambda>signature.
                    let data' = (if pp_anonymize p then take 37 data @ replicate 16 0 @ drop 53 data else data);
                        format = (if pp_anonymize p then S ''none'' else S ''packed'');
                        statement = (if pp_anonymize p then OMap []
                                     else OMap [(OText (S ''alg''), OInt (- 7)), (OText (S ''sig''), OBytes signature)])
                    in Inr \<lparr>rg_id = base64url raw_id, rg_raw_id = raw_id, rg_client_data = pp_client_data p,
                            rg_attestation = cbor_encode e (OMap [(OText (S ''fmt''), OText format), (OText (S ''attStmt''), statement),
                                                                 (OText (S ''authData''), OBytes data')]),
                            rg_data = data', rg_public_key = der\<rparr>))))))) = Inr g"
    unfolding registration_def by (auto simp: authenticator_data_Inr simp del: S_simps split: if_splits)
  from rest obtain key cose point signature where 2: "be16 (data ! 53) (data ! 54) \<noteq> 0"
      "get_slice 55 (55 + be16 (data ! 53) (data ! 54)) data = Some (rg_raw_id g)"
      "get_slice (55 + be16 (data ! 53) (data ! 54)) (length data) data = Some key" "cbor_decode e key = Some cose" "cose_point e cose = Inr point"
      "public_key_der e point = Some (rg_public_key g)" "packed_signature e v = Inr signature"
      "rg_data g = (if pp_anonymize p then without_aaguid data else data)"
      "rg_attestation g = cbor_encode e (attestation_object (pp_anonymize p) signature (rg_data g))"
      "rg_id g = base64url (rg_raw_id g)" "rg_client_data g = pp_client_data p"
    by (auto simp: Let_def without_aaguid_def attestation_object_def simp del: S_simps split: if_splits)
  moreover have "reply_data e v data" using 1(1) by (auto simp: reply_data_def field_def bytes_of_def)
  ultimately show thesis using that [of data "be16 (data ! 53) (data ! 54)" key cose point signature] 1(2-) packed_signature_Inr [OF 2(7)]
    by (auto simp: get_slice_def split: if_splits)
qed

text \<open>A P-256 key for ES256, as an uncompressed point.\<close>

definition es256_point :: "'v env \<Rightarrow> 'v \<Rightarrow> bytes \<Rightarrow> bool" where
  "es256_point e cose point \<longleftrightarrow>
     (\<exists>kty alg crv x y. v_get e cose 1 = Some kty \<and> v_int e kty = Some 2 \<and> v_get e cose 3 = Some alg \<and> v_int e alg = Some (- 7)
        \<and> v_get e cose (- 1) = Some crv \<and> v_int e crv = Some 1 \<and> length x = 32 \<and> length y = 32 \<and> point = 4 # x @ y
        \<and> (\<exists>vx vy. v_get e cose (- 2) = Some vx \<and> v_bytes e vx = Some x \<and> v_get e cose (- 3) = Some vy \<and> v_bytes e vy = Some y))"

lemma cose_point_es256: "cose_point e cose = Inr point \<Longrightarrow> es256_point e cose point"
  by (auto simp: cose_point_def es256_point_def field_def bytes_of_def Let_def split: if_splits option.splits)

text \<open>What a device answers to a request.\<close>

fun replies :: "device \<Rightarrow> bytes \<Rightarrow> bytes" where
  "replies (Software respond) request = respond request"
| "replies (Secure_Enclave key_made gate_signed respond) request = respond request"

lemma process_request_replies: "process_request d p check n = Inr response \<Longrightarrow> response = replies d (pp_request p)"
  by (cases d) (auto simp: process_request_def split: if_splits)

lemma cose_point_Inr:
  "cose_point e cose = Inr point \<Longrightarrow> length point = 65 \<and> hd point = 4
     \<and> (\<exists>v. v_get e cose 3 = Some v \<and> v_int e v = Some (- 7))"
  by (auto simp: cose_point_def Let_def split: if_splits option.splits)

text \<open>
  C24. A registration that reaches the page is the one it asked for. The request that went to the authenticator names a relying party the page may name and the hash of client data
  that carry the page's challenge and origin; the answer was still wanted when it came, is for that relying party, says that the user was present, and verified where that was required, and carries an ES256 key
  of 65 bytes. The authenticator data handed out, with the credential identifier and the key in them, are those of the field 2 of what the device replied to that very request; unless the page asked for attestation,
  the model of the authenticator is blanked out and nothing else is. The attestation object carries just these data, with the device's own packed signature, or with no statement when the page asked for none.
\<close>

theorem registration_bound_to_page:
  assumes "prepare_create e origin secure opts = Inr p" and "perform e device p check = Inr r"
  shows "\<exists>rp g data point. r = Registered g \<and> may_name e origin rp \<and> secure \<and> check 4 = Inr ()
    \<and> pp_client_data p = client_data_json e (S ''webauthn.create'') (base64url (co_challenge opts)) origin
    \<and> rg_client_data g = pp_client_data p
    \<and> (\<exists>excluded rk. pp_request p =
         make_credential e # cbor_encode e (create_parameters opts (sha256 e (pp_client_data p)) rp excluded rk (pp_require_uv p)))
    \<and> take 32 (rg_data g) = sha256 e (utf8 rp) \<and> rg_data g ! 32 AND flag_up e \<noteq> 0
    \<and> (require_uv (sl_user_verification (co_selection opts)) = Inr True \<longrightarrow> rg_data g ! 32 AND flag_uv e \<noteq> 0)
    \<and> rg_raw_id g = take (be16 (data ! 53) (data ! 54)) (drop 55 (rg_data g)) \<and> rg_raw_id g \<noteq> [] \<and> rg_id g = base64url (rg_raw_id g)
    \<and> (\<exists>cose. cbor_decode e (drop (55 + be16 (data ! 53) (data ! 54)) (rg_data g)) = Some cose \<and> cose_point e cose = Inr point \<and> es256_point e cose point)
    \<and> length point = 65 \<and> public_key_der e point = Some (rg_public_key g)
    \<and> rg_data g = (if anonymized (co_attestation opts) = Inr True then without_aaguid data else data)
    \<and> (\<exists>d body v signature. device = Inr d \<and> replies d (pp_request p) = 0 # body \<and> cbor_decode e body = Some v
         \<and> reply_data e v data \<and> reply_signature e v signature
         \<and> rg_attestation g = cbor_encode e (attestation_object (anonymized (co_attestation opts) = Inr True) signature (rg_data g)))"
proof -
  obtain rp excluded rk where c: "effective_rp e origin secure (rp_id (co_rp opts)) = Inr rp" "pp_rp_id p = rp" "pp_rp_hash p = sha256 e (utf8 rp)"
    "pp_client_data p = client_data_json e (S ''webauthn.create'') (base64url (co_challenge opts)) origin"
    "pp_client_hash p = sha256 e (pp_client_data p)" "pp_create p" "descriptors (co_exclude opts) = Inr excluded"
    "pp_request p = make_credential e # cbor_encode e (create_parameters opts (pp_client_hash p) rp excluded rk (pp_require_uv p))"
    "length (pp_request p) \<le> max_msg_size e" "require_uv (sl_user_verification (co_selection opts)) = Inr (pp_require_uv p)"
    "anonymized (co_attestation opts) = Inr (pp_anonymize p)"
    by (rule prepare_create_InrE [OF assms(1)])
  obtain d response body v where "check 4 = Inr ()" "device = Inr d" "process_request d p check 2 = Inr response" "response = 0 # body"
    "cbor_decode e body = Some v"
    and r: "if pp_create p then \<exists>g. registration e p v = Inr g \<and> r = Registered g else \<exists>a. assertion e p v = Inr a \<and> r = Asserted a"
    by (rule perform_InrE [OF assms(2)])
  from r c(6) obtain g where g: "registration e p v = Inr g" "r = Registered g" by auto
  obtain data n key cose point signature where from_reply: "reply_data e v data" and s: "user_checked e p data" "data ! 32 AND flag_at e \<noteq> 0" "55 \<le> length data" "n = be16 (data ! 53) (data ! 54)" "n \<noteq> 0"
    "55 + n \<le> length data" "rg_raw_id g = take n (drop 55 data)" "key = drop (55 + n) data" "cbor_decode e key = Some cose"
    "cose_point e cose = Inr point" "public_key_der e point = Some (rg_public_key g)"
    and sig: "reply_signature e v signature" "rg_attestation g = cbor_encode e (attestation_object (pp_anonymize p) signature (rg_data g))"
    and s': "rg_data g = (if pp_anonymize p then without_aaguid data else data)" "rg_id g = base64url (rg_raw_id g)" "rg_client_data g = pp_client_data p"
    by (rule registration_InrE [OF g(1)])
  note s = s s'
  have reply: "\<exists>d body v signature. device = Inr d \<and> replies d (pp_request p) = 0 # body \<and> cbor_decode e body = Some v
         \<and> reply_data e v data \<and> reply_signature e v signature
         \<and> rg_attestation g = cbor_encode e (attestation_object (anonymized (co_attestation opts) = Inr True) signature (rg_data g))"
    using \<open>device = Inr d\<close> \<open>response = 0 # body\<close> process_request_replies [OF \<open>process_request d p check 2 = Inr response\<close>]
      \<open>cbor_decode e body = Some v\<close> from_reply sig c(11) by auto
  note blank = without_aaguid_nth [OF s(3)] without_aaguid_head [OF s(3)]
  have u: "user_checked e p (rg_data g)"
    using user_checked_head [OF s(1), of "without_aaguid data"] blank s(1,3,12) by (cases "pp_anonymize p") simp_all
  have d: "drop 55 (rg_data g) = drop 55 data"
    using arg_cong [OF conjunct2 [OF blank(2)], of "drop 2"] s(12) by (cases "pp_anonymize p") simp_all
  have key: "cbor_decode e (drop (55 + n) (rg_data g)) = Some cose"
  proof -
    have "drop (55 + n) xs = drop n (drop 55 xs)" for xs :: bytes by (simp add: add.commute)
    with d s(8,9) show ?thesis by metis
  qed
  have raw: "rg_raw_id g = take n (drop 55 (rg_data g))" "rg_raw_id g \<noteq> []" using s(5,6,7) d by simp_all
  note rp = relying_party_sound [OF c(1)]
  have asked: "\<exists>excluded rk. pp_request p =
      make_credential e # cbor_encode e (create_parameters opts (sha256 e (pp_client_data p)) rp excluded rk (pp_require_uv p))"
    using c(5,8) by metis
  have user: "take 32 (rg_data g) = sha256 e (utf8 rp)" "rg_data g ! 32 AND flag_up e \<noteq> 0"
    "require_uv (sl_user_verification (co_selection opts)) = Inr True \<longrightarrow> rg_data g ! 32 AND flag_uv e \<noteq> 0"
    using u c(3,10) unfolding user_checked_def by simp_all
  have cose: "\<exists>cose. cbor_decode e (drop (55 + be16 (data ! 53) (data ! 54)) (rg_data g)) = Some cose \<and> cose_point e cose = Inr point \<and> es256_point e cose point"
    using key s(4,10) cose_point_es256 [OF s(10)] by blast
  have named: "rg_raw_id g = take (be16 (data ! 53) (data ! 54)) (drop 55 (rg_data g))" using raw(1) s(4) by simp
  have blanked: "rg_data g = (if anonymized (co_attestation opts) = Inr True then without_aaguid data else data)" using s(12) c(11) by simp
  note point = cose_point_Inr [OF s(10), THEN conjunct1]
  show ?thesis
    by (rule exI [of _ rp], rule exI [of _ g], rule exI [of _ data], rule exI [of _ point], intro conjI g(2) \<open>check 4 = Inr ()\<close> asked user cose named blanked
        reply raw(2) c(4) s(11) s(13) s(14) point rp [THEN conjunct1] rp [THEN conjunct2, THEN conjunct1])
qed

lemma assertion_InrE:
  assumes "assertion e p v = Inr a"
  obtains "user_checked e p (as_data a)" "length (as_data a) = 37" "as_data a ! 32 AND flag_at e = 0" "as_raw_id a \<noteq> []"
    "pp_allow p = [] \<or> as_raw_id a \<in> set (pp_allow p)" "as_id a = base64url (as_raw_id a)" "as_client_data a = pp_client_data p"
    "\<forall>h. as_user_handle a = Some h \<longrightarrow> h \<noteq> [] \<and> length h \<le> 64"
    "\<exists>s. v_get e v 3 = Some s \<and> v_bytes e s = Some (as_signature a)"
proof -
  have handle: "user_handle e v = Inr h \<Longrightarrow> \<forall>x. h = Some x \<longrightarrow> x \<noteq> [] \<and> length x \<le> 64" for h
    by (auto simp: user_handle_def split: option.splits if_splits)
  from assms show thesis
    unfolding assertion_def using handle that
    by (auto simp: authenticator_data_Inr field_def bytes_of_def simp del: S_simps split: if_splits)
qed

text \<open>
  C25. An assertion that reaches the page is the one it asked for: the request named a relying party the page may name and carried the hash of its challenge and origin, the answer
  was still wanted when it came, its authenticator data are exactly the 37 bytes for that relying party with the user present, and verified where that was required, the credential is one the page allowed,
  and the user handle, if there is one, has between one and 64 bytes.
\<close>

theorem assertion_bound_to_page:
  assumes "prepare_get e origin secure opts = Inr p" and "perform e device p check = Inr r"
  shows "\<exists>rp a. r = Asserted a \<and> may_name e origin rp \<and> secure \<and> check 4 = Inr ()
    \<and> as_client_data a = client_data_json e (S ''webauthn.get'') (base64url (ro_challenge opts)) origin
    \<and> (\<exists>allowed. pp_request p = get_assertion e # cbor_encode e (get_parameters (sha256 e (as_client_data a)) rp allowed (pp_require_uv p)))
    \<and> length (as_data a) = 37 \<and> take 32 (as_data a) = sha256 e (utf8 rp) \<and> as_data a ! 32 AND flag_up e \<noteq> 0
    \<and> (require_uv (ro_user_verification opts) = Inr True \<longrightarrow> as_data a ! 32 AND flag_uv e \<noteq> 0)
    \<and> as_raw_id a \<noteq> [] \<and> as_id a = base64url (as_raw_id a)
    \<and> (ro_allow opts = [] \<or> (\<exists>d\<in>set (ro_allow opts). as_raw_id a = dc_id d))
    \<and> (\<forall>h. as_user_handle a = Some h \<longrightarrow> h \<noteq> [] \<and> length h \<le> 64)"
proof -
  obtain rp allowed where c: "effective_rp e origin secure (ro_rp_id opts) = Inr rp" "pp_rp_id p = rp" "pp_rp_hash p = sha256 e (utf8 rp)"
    "pp_client_data p = client_data_json e (S ''webauthn.get'') (base64url (ro_challenge opts)) origin"
    "pp_client_hash p = sha256 e (pp_client_data p)" "\<not> pp_create p" "descriptors (ro_allow opts) = Inr allowed"
    "pp_request p = get_assertion e # cbor_encode e (get_parameters (pp_client_hash p) rp allowed (pp_require_uv p))"
    "length (pp_request p) \<le> max_msg_size e" "require_uv (ro_user_verification opts) = Inr (pp_require_uv p)" "pp_allow p = map dc_id (ro_allow opts)"
    by (rule prepare_get_InrE [OF assms(1)])
  obtain d response body v where "check 4 = Inr ()" "device = Inr d" "process_request d p check 2 = Inr response" "response = 0 # body"
    "cbor_decode e body = Some v"
    and r: "if pp_create p then \<exists>g. registration e p v = Inr g \<and> r = Registered g else \<exists>a. assertion e p v = Inr a \<and> r = Asserted a"
    by (rule perform_InrE [OF assms(2)])
  from r c(6) obtain a where a: "assertion e p v = Inr a" "r = Asserted a" by auto
  have s: "user_checked e p (as_data a)" "length (as_data a) = 37" "as_raw_id a \<noteq> []" "pp_allow p = [] \<or> as_raw_id a \<in> set (pp_allow p)"
    "as_id a = base64url (as_raw_id a)" "as_client_data a = pp_client_data p" "\<forall>h. as_user_handle a = Some h \<longrightarrow> h \<noteq> [] \<and> length h \<le> 64"
    using assertion_InrE [OF a(1)] by blast+
  have "ro_allow opts = [] \<or> (\<exists>d\<in>set (ro_allow opts). as_raw_id a = dc_id d)" using s(4) c(11) by auto
  then show ?thesis
    using a(2) relying_party_sound [OF c(1)] \<open>check 4 = Inr ()\<close> c s unfolding user_checked_def
    by (intro exI [of _ rp] exI [of _ a]) auto
qed

section \<open>A page and an authenticator\<close>

definition demo_cose :: out where
  "demo_cose = OMap [(OInt 1, OInt 2), (OInt 3, OInt (- 7)), (OInt (- 1), OInt 1), (OInt (- 2), OBytes (replicate 32 1)), (OInt (- 3), OBytes (replicate 32 2))]"

definition demo_registered :: bytes where
  "demo_registered = replicate 32 0 @ [0x45] @ replicate 20 7 @ [0, 1] @ [9]"

definition demo_body :: out where
  "demo_body = OMap [(OInt 1, OText (S ''packed'')), (OInt 2, OBytes demo_registered),
     (OInt 3, OMap [(OText (S ''alg''), OInt (- 7)), (OText (S ''sig''), OBytes [3])])]"

definition demo_assertion :: out where
  "demo_assertion = OMap [(OInt 1, OMap [(OText (S ''type''), OText (S ''public-key'')), (OText (S ''id''), OBytes [9])]),
     (OInt 2, OBytes (replicate 32 0 @ [0x05] @ replicate 4 0)), (OInt 3, OBytes [3])]"

definition demo_env :: "out env" where
  "demo_env = \<lparr>url_parse = (\<lambda>_. Some (S ''https'', Some (Domain (S ''a'')))), host_parse = (\<lambda>h. Some (Domain h)), psl_domain = (\<lambda>_. False),
     sha256 = (\<lambda>_. replicate 32 0), json_string = (\<lambda>s. 34 # utf8 s @ [34]), cbor_encode = (\<lambda>_. []),
     cbor_decode = (\<lambda>b. if b = [] then Some demo_cose else if b = [1] then Some demo_body else Some demo_assertion),
     v_get = (\<lambda>v k. case v of OMap m \<Rightarrow> map_of m (OInt k) | _ \<Rightarrow> None), v_get_text = (\<lambda>v k. case v of OMap m \<Rightarrow> map_of m (OText k) | _ \<Rightarrow> None),
     v_bytes = (\<lambda>v. case v of OBytes b \<Rightarrow> Some b | _ \<Rightarrow> None), v_text = (\<lambda>v. case v of OText t \<Rightarrow> Some t | _ \<Rightarrow> None),
     v_int = (\<lambda>v. case v of OInt n \<Rightarrow> Some n | _ \<Rightarrow> None), max_msg_size = 1200, make_credential = 1, get_assertion = 2,
     flag_up = 1, flag_uv = 4, flag_at = 64, flag_ed = 128, public_key_der = (\<lambda>k. Some k)\<rparr>"

definition demo_create :: creation_options where
  "demo_create = \<lparr>co_challenge = [1, 2, 3], co_rp = \<lparr>rp_id = None, rp_name = S ''A''\<rparr>, co_user = \<lparr>us_id = [5], us_name = S ''u'', us_display_name = S ''U''\<rparr>,
     co_params = [], co_exclude = [], co_selection = \<lparr>sl_attachment = None, sl_resident_key = None, sl_require_resident_key = False, sl_user_verification = Some (S ''required'')\<rparr>,
     co_attestation = None, co_timeout = 1000\<rparr>"

definition demo_get :: request_options where
  "demo_get = \<lparr>ro_challenge = [1, 2, 3], ro_rp_id = None, ro_allow = [\<lparr>dc_kind = S ''public-key'', dc_id = [9]\<rparr>], ro_user_verification = Some (S ''required''), ro_timeout = 1000\<rparr>"

lemma demo_rp: "effective_rp demo_env (S ''https://a'') True None = Inr (S ''a'')"
  by (simp add: effective_rp_def demo_env_def label_refused_def starts_with_def ends_with_def is_ascii_alphanumeric_def is_ascii_alphabetic_def is_ascii_lower_def)

theorem relying_party_sound_witness: "effective_rp demo_env (S ''https://a'') True None = Inr (S ''a'') \<and> may_name demo_env (S ''https://a'') (S ''a'')"
  using relying_party_sound [OF demo_rp] demo_rp by blast

lemma demo_create_prepared: "\<exists>p. prepare_create demo_env (S ''https://a'') True demo_create = Inr p \<and> pp_rp_hash p = replicate 32 0 \<and> pp_create p
    \<and> pp_require_uv p \<and> pp_anonymize p"
proof -
  have r: "effective_rp demo_env (S ''https://a'') True (rp_id (co_rp demo_create)) = Inr (S ''a'')" using demo_rp by (simp add: demo_create_def)
  show ?thesis
    unfolding prepare_create_def and_then_def r
    by (simp add: demo_create_def attachment_def resident_key_def require_uv_def anonymized_def client_data_def command_def descriptors_def and_then_def
        Let_def demo_env_def)
qed

lemma demo_registration:
  assumes "pp_rp_hash p = replicate 32 0" "pp_create p"
  shows "\<exists>r. perform demo_env (Inr (Software (\<lambda>_. [0, 1]))) p (\<lambda>_. Inr ()) = Inr r"
  using assms
  by (simp add: perform_def process_request_def and_then_def ok_or_def demo_env_def registration_def field_def bytes_of_def text_of_def demo_body_def
      authenticator_data_def demo_registered_def be16_def get_slice_def cose_point_def demo_cose_def packed_signature_def Let_def nth_append)

theorem registration_bound_to_page_witness:
  "\<exists>p g. prepare_create demo_env (S ''https://a'') True demo_create = Inr p
     \<and> perform demo_env (Inr (Software (\<lambda>_. [0, 1]))) p (\<lambda>_. Inr ()) = Inr (Registered g) \<and> take 32 (rg_data g) = replicate 32 0"
proof -
  obtain p where p: "prepare_create demo_env (S ''https://a'') True demo_create = Inr p" "pp_rp_hash p = replicate 32 0" "pp_create p"
    using demo_create_prepared by blast
  obtain r where r: "perform demo_env (Inr (Software (\<lambda>_. [0, 1]))) p (\<lambda>_. Inr ()) = Inr r" using demo_registration [OF p(2,3)] by blast
  have "sha256 demo_env x = replicate 32 0" for x by (simp add: demo_env_def)
  with registration_bound_to_page [OF p(1) r] p(1) r show ?thesis by auto
qed

lemma demo_get_prepared: "\<exists>p. prepare_get demo_env (S ''https://a'') True demo_get = Inr p \<and> pp_rp_hash p = replicate 32 0 \<and> \<not> pp_create p \<and> pp_allow p = [[9]]"
proof -
  have r: "effective_rp demo_env (S ''https://a'') True (ro_rp_id demo_get) = Inr (S ''a'')" using demo_rp by (simp add: demo_get_def)
  show ?thesis
    unfolding prepare_get_def and_then_def r
    by (simp add: demo_get_def require_uv_def client_data_def command_def descriptors_def descriptor_out_def and_then_def Let_def demo_env_def)
qed

lemma demo_asserted:
  assumes "pp_rp_hash p = replicate 32 0" "\<not> pp_create p" "pp_allow p = [[9]]"
  shows "\<exists>r. perform demo_env (Inr (Software (\<lambda>_. [0, 2]))) p (\<lambda>_. Inr ()) = Inr r"
  using assms
  by (simp add: perform_def process_request_def and_then_def ok_or_def demo_env_def assertion_def field_def bytes_of_def text_of_def demo_assertion_def
      authenticator_data_def user_handle_def nth_append)

theorem assertion_bound_to_page_witness:
  "\<exists>p a. prepare_get demo_env (S ''https://a'') True demo_get = Inr p
     \<and> perform demo_env (Inr (Software (\<lambda>_. [0, 2]))) p (\<lambda>_. Inr ()) = Inr (Asserted a) \<and> take 32 (as_data a) = replicate 32 0"
proof -
  obtain p where p: "prepare_get demo_env (S ''https://a'') True demo_get = Inr p" "pp_rp_hash p = replicate 32 0" "\<not> pp_create p" "pp_allow p = [[9]]"
    using demo_get_prepared by blast
  obtain r where r: "perform demo_env (Inr (Software (\<lambda>_. [0, 2]))) p (\<lambda>_. Inr ()) = Inr r" using demo_asserted [OF p(2,3,4)] by blast
  have "sha256 demo_env x = replicate 32 0" for x by (simp add: demo_env_def)
  with assertion_bound_to_page [OF p(1) r] p(1) r show ?thesis by auto
qed

end
