(* ===== verification/Webauthn_Requests.thy ===== *)
theory Webauthn_Requests
  imports Webauthn
begin

text \<open>
  The requests in flight (\<open>Requests\<close>, \<open>Job\<close>, \<open>Notifications\<close> in \<^verbatim>\<open>src/apps/chuzz/src/webauthn.rs\<close>): pages begin, poll and abort
  them, a worker thread computes each one's result, a timer denies it at its deadline, and completions reach the page through a ring. Jobs are shared by reference, so they live in a heap;
  an address is their identity. A step is what one thread does while it holds a lock, and a call that is between two reads of a job keeps the lock on the requests.
  \<open>room n\<close> says whether the ring of the queue library takes another entry when it holds \<open>n\<close>. A panic is \<open>None\<close>.
\<close>

section \<open>State\<close>

record 'r job =
  jb_id :: nat
  jb_owner :: nat
  jb_deadline :: nat
  jb_discarded :: bool
  jb_notified :: bool
  jb_result :: "'r option"
  jb_ring :: nat

record completion_ring =
  ri_items :: "nat list"
  ri_closed :: bool
  ri_alive :: bool

text \<open>A worker runs until it has computed its result, reports it, then completes the job and notifies the page; a timer waits, then does the last two.\<close>

datatype 'r phase = Running | Computed 'r | Completing 'r | Notifying | Ended

datatype role = Worker | Timer | Unspawned

record 'r thread =
  th_role :: role
  th_job :: nat
  th_phase :: "'r phase"

text \<open>What became of a request, for the one who asked.\<close>

datatype 'r notice = Delivered nat nat 'r | Expired nat nat | Dropped nat

record 'r requests =
  rq_now :: nat
  rq_next :: nat
  rq_active :: "nat option"
  rq_jobs :: "(nat \<times> nat) list"
  rq_heap :: "'r job list"
  rq_rings :: "completion_ring list"
  rq_threads :: "'r thread list"
  rq_status :: "(nat \<times> nat \<times> nat) option"
  rq_taking :: "(nat \<times> nat list) list"
  rq_log :: "'r notice list"

definition job_at :: "'r requests \<Rightarrow> nat \<Rightarrow> 'r job" where
  "job_at s a = rq_heap s ! a"

definition update_job :: "nat \<Rightarrow> ('r job \<Rightarrow> 'r job) \<Rightarrow> 'r requests \<Rightarrow> 'r requests" where
  "update_job a f s = s\<lparr>rq_heap := (rq_heap s)[a := f (rq_heap s ! a)]\<rparr>"

definition remove_job :: "nat \<Rightarrow> 'r requests \<Rightarrow> 'r requests" where
  "remove_job i s = s\<lparr>rq_jobs := filter (\<lambda>(k, _). k \<noteq> i) (rq_jobs s)\<rparr>"

definition set_phase :: "nat \<Rightarrow> 'r phase \<Rightarrow> 'r requests \<Rightarrow> 'r requests" where
  "set_phase t ph s = s\<lparr>rq_threads := (rq_threads s)[t := (rq_threads s ! t)\<lparr>th_phase := ph\<rparr>]\<rparr>"

definition note_of :: "'r notice \<Rightarrow> 'r requests \<Rightarrow> 'r requests" where
  "note_of n s = s\<lparr>rq_log := rq_log s @ [n]\<rparr>"

section \<open>Beginning\<close>

definition clamp_timeout :: "nat \<Rightarrow> nat" where
  "clamp_timeout t = max 1 (min t 120000)"

text \<open>\<open>begin\<close>: refused while a request is active or 64 are unanswered. \<open>spawned\<close> says whether the worker could be started.\<close>

definition begin_request :: "nat \<Rightarrow> nat \<Rightarrow> nat \<Rightarrow> bool \<Rightarrow> 'r requests \<Rightarrow> 'r requests" where
  "begin_request owner ring timeout spawned s =
     (if rq_active s \<noteq> None \<or> 64 \<le> length (rq_jobs s) then s
      else let i = rq_next s; a = length (rq_heap s);
               j = \<lparr>jb_id = i, jb_owner = owner, jb_deadline = rq_now s + clamp_timeout timeout, jb_discarded = False, jb_notified = False,
                    jb_result = None, jb_ring = ring\<rparr>
           in s\<lparr>rq_next := (i + 1) mod 2 ^ 64, rq_active := Some i, rq_heap := rq_heap s @ [j],
                rq_jobs := filter (\<lambda>(k, _). k \<noteq> i) (rq_jobs s) @ [(i, a)],
                rq_threads := rq_threads s @ (if spawned
                  then [\<lparr>th_role = Worker, th_job = a, th_phase = Running\<rparr>, \<lparr>th_role = Timer, th_job = a, th_phase = Running\<rparr>]
                  else [\<lparr>th_role = Unspawned, th_job = a, th_phase = Running\<rparr>])\<rparr>)"

definition clear_active :: "nat \<Rightarrow> 'r requests \<Rightarrow> 'r requests" where
  "clear_active i s = (if rq_active s = Some i then s\<lparr>rq_active := None\<rparr> else s)"

text \<open>The worker could not be started: the request is forgotten, unless that has happened already.\<close>

definition spawn_failed :: "nat \<Rightarrow> 'r requests \<Rightarrow> 'r requests" where
  "spawn_failed t s =
     (let a = th_job (rq_threads s ! t); i = jb_id (job_at s a);
          s = (if map_of (rq_jobs s) i \<noteq> None then note_of (Dropped a) (remove_job i s) else s)
      in set_phase t Ended (clear_active i s))"

section \<open>Completing\<close>

definition worker_report :: "nat \<Rightarrow> 'r \<Rightarrow> 'r requests \<Rightarrow> 'r requests" where
  "worker_report t r s =
     (let a = th_job (rq_threads s ! t); i = jb_id (job_at s a); s = clear_active i s;
          s = (if jb_discarded (job_at s a) then remove_job i s else s)
      in set_phase t (Completing r) s)"

definition complete :: "nat \<Rightarrow> 'r \<Rightarrow> 'r requests \<Rightarrow> 'r requests" where
  "complete t r s =
     (let a = th_job (rq_threads s ! t)
      in if jb_result (job_at s a) \<noteq> None \<or> jb_discarded (job_at s a) then set_phase t Ended s
         else set_phase t Notifying (update_job a (\<lambda>j. j\<lparr>jb_result := Some r, jb_notified := True\<rparr>) s))"

fun push_all :: "(nat \<Rightarrow> bool) \<Rightarrow> nat list \<Rightarrow> nat list \<Rightarrow> nat list option" where
  "push_all room items [] = Some items"
| "push_all room items (a # as) = (if room (length items) then push_all room (items @ [a]) as else None)"

definition live_entry :: "'r requests \<Rightarrow> nat \<Rightarrow> bool" where
  "live_entry s a \<longleftrightarrow> \<not> jb_discarded (job_at s a) \<and> jb_result (job_at s a) \<noteq> None"

definition enqueue :: "(nat \<Rightarrow> bool) \<Rightarrow> nat \<Rightarrow> completion_ring \<Rightarrow> 'r requests \<Rightarrow> completion_ring option" where
  "enqueue room a ring s =
     (if ri_closed ring then Some ring
      else if room (length (ri_items ring)) then Some (ring\<lparr>ri_items := ri_items ring @ [a]\<rparr>)
      else map_option (\<lambda>items. ring\<lparr>ri_items := items\<rparr>) (push_all room [] (filter (live_entry s) (ri_items ring) @ [a])))"

definition notify :: "(nat \<Rightarrow> bool) \<Rightarrow> nat \<Rightarrow> 'r requests \<Rightarrow> 'r requests option" where
  "notify room t s =
     (let a = th_job (rq_threads s ! t); n = jb_ring (job_at s a)
      in if n < length (rq_rings s) \<and> ri_alive (rq_rings s ! n)
         then map_option (\<lambda>ring. set_phase t Ended (s\<lparr>rq_rings := (rq_rings s)[n := ring]\<rparr>)) (enqueue room a (rq_rings s ! n) s)
         else Some (set_phase t Ended s))"

section \<open>The calls of a page\<close>

definition owned_job :: "nat \<Rightarrow> nat \<Rightarrow> 'r requests \<Rightarrow> nat option" where
  "owned_job owner i s = (case map_of (rq_jobs s) i of Some a \<Rightarrow> if jb_owner (job_at s a) = owner then Some a else None | None \<Rightarrow> None)"

text \<open>\<open>status\<close> takes the result if there is one; otherwise it goes on to look at the clock.\<close>

definition status_take :: "nat \<Rightarrow> nat \<Rightarrow> 'r requests \<Rightarrow> 'r requests" where
  "status_take owner i s =
     (case owned_job owner i s of
        None \<Rightarrow> s
      | Some a \<Rightarrow>
          (case jb_result (job_at s a) of
             Some r \<Rightarrow> note_of (Delivered a owner r) (remove_job i (update_job a (\<lambda>j. j\<lparr>jb_result := None\<rparr>) s))
           | None \<Rightarrow> s\<lparr>rq_status := Some (owner, i, a)\<rparr>))"

definition status_expire :: "nat \<times> nat \<times> nat \<Rightarrow> 'r requests \<Rightarrow> 'r requests" where
  "status_expire call s =
     (case call of (owner, i, a) \<Rightarrow>
        let s = s\<lparr>rq_status := None\<rparr>
        in if jb_deadline (job_at s a) \<le> rq_now s
           then note_of (Expired a owner) (remove_job i (update_job a (\<lambda>j. j\<lparr>jb_discarded := True\<rparr>) s))
           else s)"

definition abort_request :: "nat \<Rightarrow> nat \<Rightarrow> 'r requests \<Rightarrow> 'r requests" where
  "abort_request owner i s =
     (case owned_job owner i s of
        None \<Rightarrow> s
      | Some a \<Rightarrow> note_of (Dropped a) (update_job a (\<lambda>j. j\<lparr>jb_discarded := True, jb_notified := True\<rparr>) (remove_job i s)))"

fun release_jobs :: "nat \<Rightarrow> (nat \<times> nat) list \<Rightarrow> 'r requests \<Rightarrow> 'r requests" where
  "release_jobs owner [] s = s"
| "release_jobs owner ((i, a) # js) s =
     release_jobs owner js
       (if jb_owner (job_at s a) = owner
        then note_of (Dropped a) (update_job a (\<lambda>j. j\<lparr>jb_discarded := True, jb_notified := True\<rparr>) (remove_job i s))
        else s)"

definition release_realm :: "nat \<Rightarrow> 'r requests \<Rightarrow> 'r requests" where
  "release_realm owner s = release_jobs owner (rq_jobs s) s"

text \<open>\<open>take\<close> empties the ring, then answers what is still wanted.\<close>

definition drain :: "nat \<Rightarrow> nat \<Rightarrow> 'r requests \<Rightarrow> 'r requests" where
  "drain owner n s =
     s\<lparr>rq_rings := (rq_rings s)[n := (rq_rings s ! n)\<lparr>ri_items := []\<rparr>], rq_taking := rq_taking s @ [(owner, ri_items (rq_rings s ! n))]\<rparr>"

fun take_completed :: "nat \<Rightarrow> nat list \<Rightarrow> 'r requests \<Rightarrow> 'r requests" where
  "take_completed owner [] s = s"
| "take_completed owner (a # as) s =
     take_completed owner as
       (if jb_owner (job_at s a) \<noteq> owner \<or> map_of (rq_jobs s) (jb_id (job_at s a)) \<noteq> Some a then s
        else case jb_result (job_at s a) of
               None \<Rightarrow> s
             | Some r \<Rightarrow> note_of (Delivered a owner r) (remove_job (jb_id (job_at s a)) (update_job a (\<lambda>j. j\<lparr>jb_result := None\<rparr>) s)))"

definition close_ring :: "nat \<Rightarrow> 'r requests \<Rightarrow> 'r requests" where
  "close_ring n s = s\<lparr>rq_rings := (rq_rings s)[n := (rq_rings s ! n)\<lparr>ri_items := [], ri_closed := True\<rparr>]\<rparr>"

section \<open>Steps\<close>

datatype 'r move =
    Tick nat
  | New_Ring
  | Drop_Ring nat
  | Begin nat nat nat bool
  | Compute nat 'r
  | Report nat
  | Unspawn nat
  | Fire nat
  | Wake nat
  | Complete nat
  | Notify nat
  | Status nat nat
  | Status_End
  | Abort nat nat
  | Release nat
  | Close nat
  | Drain nat nat
  | Take nat

text \<open>A move that is not possible changes nothing. Moves that need the requests wait for a status call that is between its two reads.\<close>

definition thread_is :: "role \<Rightarrow> nat \<Rightarrow> 'r requests \<Rightarrow> bool" where
  "thread_is ro t s \<longleftrightarrow> t < length (rq_threads s) \<and> th_role (rq_threads s ! t) = ro"

definition wa_step :: "(nat \<Rightarrow> bool) \<Rightarrow> 'r \<Rightarrow> 'r move \<Rightarrow> 'r requests \<Rightarrow> 'r requests option" where
  "wa_step room late m s =
     (case m of
        Tick n \<Rightarrow> Some (s\<lparr>rq_now := rq_now s + n\<rparr>)
      | New_Ring \<Rightarrow> Some (s\<lparr>rq_rings := rq_rings s @ [\<lparr>ri_items = [], ri_closed = False, ri_alive = True\<rparr>]\<rparr>)
      | Drop_Ring n \<Rightarrow> Some (if n < length (rq_rings s) then s\<lparr>rq_rings := (rq_rings s)[n := (rq_rings s ! n)\<lparr>ri_alive := False\<rparr>]\<rparr> else s)
      | Begin owner ring timeout spawned \<Rightarrow> Some (if rq_status s = None then begin_request owner ring timeout spawned s else s)
      | Compute t r \<Rightarrow> Some (if thread_is Worker t s \<and> th_phase (rq_threads s ! t) = Running then set_phase t (Computed r) s else s)
      | Report t \<Rightarrow> Some (if thread_is Worker t s \<and> rq_status s = None
           then (case th_phase (rq_threads s ! t) of Computed r \<Rightarrow> worker_report t r s | _ \<Rightarrow> s) else s)
      | Unspawn t \<Rightarrow> Some (if thread_is Unspawned t s \<and> rq_status s = None \<and> th_phase (rq_threads s ! t) = Running then spawn_failed t s else s)
      | Fire t \<Rightarrow> Some (if thread_is Timer t s \<and> th_phase (rq_threads s ! t) = Running \<and> jb_deadline (job_at s (th_job (rq_threads s ! t))) \<le> rq_now s
           then set_phase t (Completing late) s else s)
      | Wake t \<Rightarrow> Some (if thread_is Timer t s \<and> th_phase (rq_threads s ! t) = Running \<and> jb_notified (job_at s (th_job (rq_threads s ! t)))
           then set_phase t Ended s else s)
      | Complete t \<Rightarrow> Some (if t < length (rq_threads s)
           then (case th_phase (rq_threads s ! t) of Completing r \<Rightarrow> complete t r s | _ \<Rightarrow> s) else s)
      | Notify t \<Rightarrow> (if t < length (rq_threads s) \<and> th_phase (rq_threads s ! t) = Notifying then notify room t s else Some s)
      | Status owner i \<Rightarrow> Some (if rq_status s = None then status_take owner i s else s)
      | Status_End \<Rightarrow> Some (case rq_status s of Some call \<Rightarrow> status_expire call s | None \<Rightarrow> s)
      | Abort owner i \<Rightarrow> Some (if rq_status s = None then abort_request owner i s else s)
      | Release owner \<Rightarrow> Some (if rq_status s = None then release_realm owner s else s)
      | Close n \<Rightarrow> Some (if n < length (rq_rings s) then close_ring n s else s)
      | Drain owner n \<Rightarrow> Some (if n < length (rq_rings s) then drain owner n s else s)
      | Take k \<Rightarrow> Some (if k < length (rq_taking s) \<and> rq_status s = None
           then (case rq_taking s ! k of (owner, as) \<Rightarrow> take_completed owner as (s\<lparr>rq_taking := remove_at k (rq_taking s)\<rparr>)) else s))"

fun wa_run :: "(nat \<Rightarrow> bool) \<Rightarrow> 'r \<Rightarrow> 'r move list \<Rightarrow> 'r requests \<Rightarrow> 'r requests option" where
  "wa_run room late [] s = Some s"
| "wa_run room late (m # ms) s = Option.bind (wa_step room late m s) (wa_run room late ms)"

definition no_requests :: "'r requests" where
  "no_requests = \<lparr>rq_now = 0, rq_next = 1, rq_active = None, rq_jobs = [], rq_heap = [], rq_rings = [], rq_threads = [], rq_status = None,
     rq_taking = [], rq_log = []\<rparr>"

end
