(* ===== verification/Webauthn_Flight.thy ===== *)
theory Webauthn_Flight
  imports Webauthn_Requests
begin

text \<open>
  What holds of the WebAuthn requests in flight, whatever the threads of the process do and in which order (\<^verbatim>\<open>src/apps/chuzz/src/webauthn.rs\<close>):
  every request has one outcome at most, for its owner only, and one request at a time uses the authenticator.
\<close>

section \<open>Requests and their outcomes\<close>

fun noted :: "'r notice \<Rightarrow> nat" where
  "noted (Delivered a _ _) = a"
| "noted (Expired a _) = a"
| "noted (Dropped a) = a"

text \<open>An answer went to the owner of the request, with a result that was computed for it or with the denial of a deadline.\<close>

fun answer_ok :: "(nat \<times> 'r) set \<Rightarrow> 'r \<Rightarrow> 'r job list \<Rightarrow> 'r notice \<Rightarrow> bool" where
  "answer_ok C late heap (Delivered a owner r) \<longleftrightarrow> jb_owner (heap ! a) = owner \<and> (r = late \<or> (a, r) \<in> C)"
| "answer_ok C late heap (Expired a owner) \<longleftrightarrow> jb_owner (heap ! a) = owner"
| "answer_ok C late heap (Dropped a) \<longleftrightarrow> True"

definition open_jobs :: "'r requests \<Rightarrow> nat list" where
  "open_jobs s = map snd (rq_jobs s)"

text \<open>The requests kept are numbered by their place in the heap, are not discarded, and are with those that have an outcome all there are.\<close>

definition jobs_ok :: "(nat \<times> 'r) set \<Rightarrow> 'r \<Rightarrow> 'r requests \<Rightarrow> bool" where
  "jobs_ok C late s \<longleftrightarrow>
     rq_next s = Suc (length (rq_heap s)) \<and> (\<forall>a<length (rq_heap s). jb_id (job_at s a) = Suc a)
     \<and> rq_jobs s = map (\<lambda>a. (Suc a, a)) (open_jobs s) \<and> length (open_jobs s) \<le> 64
     \<and> distinct (open_jobs s @ map noted (rq_log s)) \<and> set (open_jobs s @ map noted (rq_log s)) = {..<length (rq_heap s)}
     \<and> (\<forall>a\<in>set (open_jobs s). \<not> jb_discarded (job_at s a))
     \<and> (\<forall>n\<in>set (rq_log s). answer_ok C late (rq_heap s) n)
     \<and> (\<forall>a<length (rq_heap s). \<forall>r. jb_result (job_at s a) = Some r \<longrightarrow> r = late \<or> (a, r) \<in> C)"

definition status_ok :: "'r requests \<Rightarrow> bool" where
  "status_ok s \<longleftrightarrow> (case rq_status s of None \<Rightarrow> True
     | Some (owner, i, a) \<Rightarrow> a \<in> set (open_jobs s) \<and> i = Suc a \<and> jb_owner (job_at s a) = owner)"

lemma map_of_numbered: "map_of (map (\<lambda>a. (Suc a, a)) as) i = Some a \<longleftrightarrow> a \<in> set as \<and> i = Suc a"
  by (induction as) auto

lemma filter_numbered: "filter (\<lambda>(k, _). k \<noteq> Suc a) (map (\<lambda>a. (Suc a, a)) as) = map (\<lambda>a. (Suc a, a)) (filter (\<lambda>b. b \<noteq> a) as)"
  by (induction as) auto

lemma owned_jobD:
  "jobs_ok C late s \<Longrightarrow> owned_job owner i s = Some a \<Longrightarrow> a \<in> set (open_jobs s) \<and> i = Suc a \<and> jb_owner (job_at s a) = owner"
  using map_of_numbered [of "open_jobs s" i a] by (auto simp: owned_job_def jobs_ok_def split: option.splits if_splits)

lemma open_jobs_bound: "jobs_ok C late s \<Longrightarrow> a \<in> set (open_jobs s) \<Longrightarrow> a < length (rq_heap s)"
  unfolding jobs_ok_def by (metis Un_iff lessThan_iff set_append)

lemma remove_absent:
  assumes "jobs_ok C late s" and "a \<notin> set (open_jobs s)"
  shows "filter (\<lambda>(k, _). k \<noteq> Suc a) (rq_jobs s) = rq_jobs s"
proof (rule filter_True)
  have "rq_jobs s = map (\<lambda>a. (Suc a, a)) (open_jobs s)" using assms(1) by (simp add: jobs_ok_def)
  then have "set (rq_jobs s) = (\<lambda>a. (Suc a, a)) ` set (open_jobs s)" using arg_cong [of "rq_jobs s" _ set] by fastforce
  with assms(2) show "\<forall>(k, _)\<in>set (rq_jobs s). k \<noteq> Suc a" by auto
qed

text \<open>A change to a job that keeps its number and owner.\<close>

definition tame_change :: "('r job \<Rightarrow> 'r job) \<Rightarrow> bool" where
  "tame_change f \<longleftrightarrow> (\<forall>j. jb_id (f j) = jb_id j \<and> jb_owner (f j) = jb_owner j)"

lemma answer_ok_update:
  assumes "tame_change f"
  shows "answer_ok C late (h[a := f (h ! a)]) n = answer_ok C late h n"
proof -
  have "jb_owner (h[a := f (h ! a)] ! b) = jb_owner (h ! b)" for b
    using assms by (cases "a < length h"; cases "a = b") (simp_all add: tame_change_def list_update_beyond)
  then show ?thesis by (cases n) simp_all
qed

lemma answer_ok_append: "noted n < length h \<Longrightarrow> answer_ok C late (h @ k) n = answer_ok C late h n"
  by (cases n) (auto simp: nth_append)

lemma answer_ok_mono: "C \<subseteq> C' \<Longrightarrow> answer_ok C late h n \<Longrightarrow> answer_ok C' late h n"
  by (cases n) auto

text \<open>A request gets its outcome.\<close>

lemma settle_ok:
  assumes ok: "jobs_ok C late s" and a: "a \<in> set (open_jobs s)" and n: "noted n = a" "answer_ok C late (rq_heap s) n"
    and f: "tame_change f" "\<And>j. jb_result (f j) = None \<or> jb_result (f j) = jb_result j"
  shows "jobs_ok C late (note_of n (remove_job (Suc a) (update_job a f s)))"
proof -
  let ?s = "note_of n (remove_job (Suc a) (update_job a f s))"
  let ?as = "filter (\<lambda>b. b \<noteq> a) (open_jobs s)"
  have bound: "a < length (rq_heap s)" by (rule open_jobs_bound [OF ok a])
  have jobs: "rq_jobs ?s = map (\<lambda>a. (Suc a, a)) ?as"
    using ok filter_numbered [of a "open_jobs s"] by (simp add: jobs_ok_def note_of_def remove_job_def update_job_def)
  then have as: "open_jobs ?s = ?as" unfolding open_jobs_def by (simp add: comp_def)
  have heap: "rq_heap ?s = (rq_heap s)[a := f (rq_heap s ! a)]" "rq_next ?s = rq_next s" "rq_log ?s = rq_log s @ [n]"
    by (simp_all add: note_of_def remove_job_def update_job_def)
  have at: "job_at ?s b = (if b = a then f (job_at s a) else job_at s b)" for b
    using bound by (simp add: job_at_def heap)
  have dist: "distinct (open_jobs s @ map noted (rq_log s))" "set (open_jobs s @ map noted (rq_log s)) = {..<length (rq_heap s)}"
    using ok by (simp_all add: jobs_ok_def)
  have d: "distinct (?as @ map noted (rq_log ?s))" using dist(1) a n(1) heap(3) by auto
  have all: "set (?as @ map noted (rq_log ?s)) = {..<length (rq_heap ?s)}" using dist(2) a n(1) heap by auto
  have len: "length ?as \<le> 64" using ok length_filter_le [of "\<lambda>b. b \<noteq> a" "open_jobs s"] unfolding jobs_ok_def by linarith
  have answers: "\<forall>m\<in>set (rq_log ?s). answer_ok C late (rq_heap ?s) m"
    using ok n(2) answer_ok_update [OF f(1)] unfolding heap(1,3) by (auto simp: jobs_ok_def)
  have ids: "\<forall>b<length (rq_heap ?s). jb_id (job_at ?s b) = Suc b" using ok f(1) by (simp add: jobs_ok_def at heap tame_change_def)
  have res: "\<forall>b<length (rq_heap ?s). \<forall>r. jb_result (job_at ?s b) = Some r \<longrightarrow> r = late \<or> (b, r) \<in> C"
  proof (intro allI impI)
    fix b r assume b: "b < length (rq_heap ?s)" "jb_result (job_at ?s b) = Some r"
    then have "jb_result (job_at s b) = Some r" using f(2) [of "job_at s a"] by (cases "b = a") (auto simp: at)
    with ok b(1) show "r = late \<or> (b, r) \<in> C" by (simp add: jobs_ok_def heap)
  qed
  have disc: "\<forall>b\<in>set ?as. \<not> jb_discarded (job_at ?s b)" using ok by (simp add: jobs_ok_def at)
  show ?thesis
    unfolding jobs_ok_def as using jobs d all len answers ids res disc heap ok by (simp add: jobs_ok_def)
qed

lemma settle_open: "jobs_ok C late s \<Longrightarrow> open_jobs (note_of n (remove_job (Suc a) (update_job a f s))) = filter (\<lambda>b. b \<noteq> a) (open_jobs s)"
  using filter_numbered [of a "open_jobs s"] unfolding jobs_ok_def open_jobs_def note_of_def remove_job_def update_job_def
  by (simp add: comp_def)

lemma change_ok:
  assumes ok: "jobs_ok C late s" and f: "tame_change f" "\<And>j. jb_discarded (f j) = jb_discarded j"
    and r: "\<And>r. jb_result (f (job_at s a)) = Some r \<Longrightarrow> r = late \<or> (a, r) \<in> C"
  shows "jobs_ok C late (update_job a f s)"
proof (cases "a < length (rq_heap s)")
  case True
  have at: "job_at (update_job a f s) b = (if b = a then f (job_at s a) else job_at s b)" for b
    using True by (simp add: job_at_def update_job_def)
  have op: "open_jobs (update_job a f s) = open_jobs s" by (simp add: open_jobs_def update_job_def)
  have h: "rq_heap (update_job a f s) = (rq_heap s)[a := f (rq_heap s ! a)]" by (simp add: update_job_def)
  have answers: "\<forall>m\<in>set (rq_log s). answer_ok C late (rq_heap (update_job a f s)) m"
    unfolding h answer_ok_update [OF f(1)] using ok by (simp add: jobs_ok_def)
  have same: "rq_next (update_job a f s) = rq_next s" "rq_jobs (update_job a f s) = rq_jobs s" "rq_log (update_job a f s) = rq_log s"
    "length (rq_heap (update_job a f s)) = length (rq_heap s)"
    by (simp_all add: update_job_def)
  have "jb_id (job_at (update_job a f s) b) = jb_id (job_at s b)" "jb_discarded (job_at (update_job a f s) b) = jb_discarded (job_at s b)" for b
    using f unfolding at tame_change_def by simp_all
  moreover have "\<forall>b<length (rq_heap s). \<forall>r. jb_result (job_at (update_job a f s) b) = Some r \<longrightarrow> r = late \<or> (b, r) \<in> C"
    using ok r unfolding at jobs_ok_def by simp
  ultimately show ?thesis using ok answers unfolding jobs_ok_def op same by simp
next
  case False
  then have "update_job a f s = s" by (simp add: update_job_def list_update_beyond)
  with ok show ?thesis by simp
qed

text \<open>What the requests are does not depend on the threads, rings and clock.\<close>

lemma jobs_ok_cong:
  "rq_next s' = rq_next s \<Longrightarrow> rq_jobs s' = rq_jobs s \<Longrightarrow> rq_heap s' = rq_heap s \<Longrightarrow> rq_log s' = rq_log s \<Longrightarrow>
     jobs_ok C late s \<Longrightarrow> jobs_ok C late s'"
  by (simp add: jobs_ok_def open_jobs_def job_at_def)

lemma status_ok_cong:
  "rq_status s' = rq_status s \<Longrightarrow> rq_jobs s' = rq_jobs s \<Longrightarrow> rq_heap s' = rq_heap s \<Longrightarrow> status_ok s \<Longrightarrow> status_ok s'"
  by (auto simp: status_ok_def open_jobs_def job_at_def split: option.splits)

section \<open>Threads\<close>

text \<open>A thread that holds the authenticator for its request: a worker until it has reported, or one that could not be started until that is noticed.\<close>

fun busy :: "'r thread \<Rightarrow> bool" where
  "busy \<lparr>th_role = Worker, th_job = a, th_phase = Running\<rparr> = True"
| "busy \<lparr>th_role = Worker, th_job = a, th_phase = Computed r\<rparr> = True"
| "busy \<lparr>th_role = Unspawned, th_job = a, th_phase = Running\<rparr> = True"
| "busy _ = False"

lemma busy_iff: "busy th \<longleftrightarrow> th_role th = Worker \<and> (th_phase th = Running \<or> (\<exists>r. th_phase th = Computed r)) \<or> th_role th = Unspawned \<and> th_phase th = Running"
  by (cases th rule: busy.cases) auto

definition busy_at :: "'r requests \<Rightarrow> nat \<Rightarrow> bool" where
  "busy_at s t \<longleftrightarrow> t < length (rq_threads s) \<and> busy (rq_threads s ! t)"

definition thread_result_ok :: "(nat \<times> 'r) set \<Rightarrow> 'r \<Rightarrow> 'r thread \<Rightarrow> bool" where
  "thread_result_ok C late th \<longleftrightarrow> (case th_phase th of Computed r \<Rightarrow> (th_job th, r) \<in> C | Completing r \<Rightarrow> r = late \<or> (th_job th, r) \<in> C | _ \<Rightarrow> True)"

definition threads_ok :: "(nat \<times> 'r) set \<Rightarrow> 'r \<Rightarrow> 'r requests \<Rightarrow> bool" where
  "threads_ok C late s \<longleftrightarrow>
     (\<forall>t. busy_at s t \<longrightarrow> rq_active s = Some (Suc (th_job (rq_threads s ! t))))
     \<and> (\<forall>t t'. busy_at s t \<longrightarrow> busy_at s t' \<longrightarrow> t = t') \<and> (rq_active s \<noteq> None \<longrightarrow> (\<exists>t. busy_at s t))
     \<and> (\<forall>th\<in>set (rq_threads s). th_job th < length (rq_heap s) \<and> thread_result_ok C late th)"

lemma threads_ok_cong:
  "rq_threads s' = rq_threads s \<Longrightarrow> rq_active s' = rq_active s \<Longrightarrow> length (rq_heap s') = length (rq_heap s) \<Longrightarrow> threads_ok C late s \<Longrightarrow> threads_ok C late s'"
  by (simp add: threads_ok_def busy_at_def)

lemma busy_set_phase:
  "t < length (rq_threads s) \<Longrightarrow> busy_at (set_phase t ph s) u \<longleftrightarrow>
     (if u = t then busy ((rq_threads s ! t)\<lparr>th_phase := ph\<rparr>) else busy_at s u)"
  by (auto simp: busy_at_def set_phase_def nth_list_update)

lemma set_phase_ok:
  assumes ok: "threads_ok C late s" and t: "t < length (rq_threads s)"
    and same: "busy ((rq_threads s ! t)\<lparr>th_phase := ph\<rparr>) = busy (rq_threads s ! t)"
    and r: "thread_result_ok C late ((rq_threads s ! t)\<lparr>th_phase := ph\<rparr>)"
  shows "threads_ok C late (set_phase t ph s)"
proof -
  have b: "busy_at (set_phase t ph s) = busy_at s"
    using busy_set_phase [OF t] same t by (auto simp: fun_eq_iff busy_at_def)
  have job: "th_job (rq_threads (set_phase t ph s) ! u) = th_job (rq_threads s ! u)" for u
    using t by (cases "u = t") (simp_all add: set_phase_def)
  have "\<forall>th\<in>set (rq_threads (set_phase t ph s)). th_job th < length (rq_heap s) \<and> thread_result_ok C late th"
    using ok r t nth_mem [OF t] unfolding threads_ok_def set_phase_def by (auto dest!: set_update_subset_insert [THEN subsetD])
  moreover have "rq_active (set_phase t ph s) = rq_active s" "rq_heap (set_phase t ph s) = rq_heap s" by (simp_all add: set_phase_def)
  ultimately show ?thesis using ok unfolding threads_ok_def b job by simp
qed

text \<open>The busy thread is through.\<close>

lemma leave_ok:
  assumes ok: "threads_ok C late s" and t: "busy_at s t" and idle: "\<not> busy ((rq_threads s ! t)\<lparr>th_phase := ph\<rparr>)"
    and r: "thread_result_ok C late ((rq_threads s ! t)\<lparr>th_phase := ph\<rparr>)"
  shows "threads_ok C late (set_phase t ph (s\<lparr>rq_active := None\<rparr>))"
proof -
  have tl: "t < length (rq_threads (s\<lparr>rq_active := None\<rparr>))" using t by (simp add: busy_at_def)
  have "\<not> busy_at (set_phase t ph (s\<lparr>rq_active := None\<rparr>)) u" for u
    using busy_set_phase [OF tl, of ph u] idle ok t by (auto simp: busy_at_def threads_ok_def split: if_splits)
  moreover have "\<forall>th\<in>set (rq_threads (set_phase t ph s)). th_job th < length (rq_heap s) \<and> thread_result_ok C late th"
    using ok r tl nth_mem [of t "rq_threads s"] unfolding threads_ok_def set_phase_def by (auto dest!: set_update_subset_insert [THEN subsetD])
  ultimately show ?thesis by (simp add: threads_ok_def set_phase_def)
qed

section \<open>Steps\<close>

definition flight_ok :: "(nat \<times> 'r) set \<Rightarrow> 'r \<Rightarrow> 'r requests \<Rightarrow> bool" where
  "flight_ok C late s \<longleftrightarrow> jobs_ok C late s \<and> status_ok s \<and> threads_ok C late s"

lemma flight_ok_cong:
  assumes "flight_ok C late s" and "rq_next s' = rq_next s" "rq_jobs s' = rq_jobs s" "rq_heap s' = rq_heap s" "rq_log s' = rq_log s"
    "rq_status s' = rq_status s" "rq_threads s' = rq_threads s" "rq_active s' = rq_active s"
  shows "flight_ok C late s'"
proof -
  have "jobs_ok C late s" "status_ok s" "threads_ok C late s" using assms(1) by (simp_all add: flight_ok_def)
  then show ?thesis
    using jobs_ok_cong [OF assms(2-5)] status_ok_cong [OF assms(6,3,4)] threads_ok_cong [OF assms(7,8)] assms(4)
    by (simp add: flight_ok_def)
qed

lemma thread_flight_ok:
  assumes "flight_ok C late s" and t: "t < length (rq_threads s)"
    and "busy ((rq_threads s ! t)\<lparr>th_phase := ph\<rparr>) = busy (rq_threads s ! t)" "thread_result_ok C late ((rq_threads s ! t)\<lparr>th_phase := ph\<rparr>)"
  shows "flight_ok C late (set_phase t ph s)"
proof -
  have ok: "jobs_ok C late s" "status_ok s" "threads_ok C late s" using assms(1) by (simp_all add: flight_ok_def)
  have "jobs_ok C late (set_phase t ph s)" by (rule jobs_ok_cong [OF _ _ _ _ ok(1)]) (simp_all add: set_phase_def)
  moreover have "status_ok (set_phase t ph s)" by (rule status_ok_cong [OF _ _ _ ok(2)]) (simp_all add: set_phase_def)
  ultimately show ?thesis using set_phase_ok [OF ok(3) t assms(3,4)] by (simp add: flight_ok_def)
qed

lemma settle_flight_ok:
  assumes ok: "flight_ok C late s" and free: "rq_status s = None" and a: "a \<in> set (open_jobs s)" and n: "noted n = a" "answer_ok C late (rq_heap s) n"
    and f: "tame_change f" "\<And>j. jb_result (f j) = None \<or> jb_result (f j) = jb_result j"
  shows "flight_ok C late (note_of n (remove_job (Suc a) (update_job a f s)))"
proof -
  let ?s = "note_of n (remove_job (Suc a) (update_job a f s))"
  have "jobs_ok C late ?s" using settle_ok [OF _ a n f] ok by (simp add: flight_ok_def)
  moreover have "status_ok ?s" using free by (simp add: status_ok_def note_of_def remove_job_def update_job_def)
  moreover have "threads_ok C late ?s"
    by (rule threads_ok_cong [of _ s]) (use ok in \<open>simp_all add: flight_ok_def note_of_def remove_job_def update_job_def\<close>)
  ultimately show ?thesis by (simp add: flight_ok_def)
qed

lemma begin_flight_ok:
  fixes s :: "'r requests"
  assumes ok: "flight_ok C late s" and room: "Suc (Suc (length (rq_heap s))) < 2 ^ 64"
  shows "flight_ok C late (begin_request owner ring timeout spawned s)"
proof (cases "rq_active s \<noteq> None \<or> 64 \<le> length (rq_jobs s)")
  case True
  with ok show ?thesis by (simp add: begin_request_def)
next
  case False
  let ?s = "begin_request owner ring timeout spawned s" let ?a = "length (rq_heap s)"
  let ?j = "\<lparr>jb_id = Suc ?a, jb_owner = owner, jb_deadline = rq_now s + clamp_timeout timeout, jb_discarded = False, jb_notified = False,
                    jb_result = None, jb_ring = ring\<rparr> :: 'r job"
  let ?new = "(if spawned then [\<lparr>th_role = Worker, th_job = ?a, th_phase = Running\<rparr>, \<lparr>th_role = Timer, th_job = ?a, th_phase = Running\<rparr>]
                  else [\<lparr>th_role = Unspawned, th_job = ?a, th_phase = Running\<rparr>]) :: 'r thread list"
  have j: "jobs_ok C late s" and st: "status_ok s" and th: "threads_ok C late s" using ok by (simp_all add: flight_ok_def)
  have next_id: "rq_next s = Suc ?a" and jobs: "rq_jobs s = map (\<lambda>a. (Suc a, a)) (open_jobs s)"
    and all: "distinct (open_jobs s @ map noted (rq_log s))" "set (open_jobs s @ map noted (rq_log s)) = {..<?a}"
    using j by (simp_all add: jobs_ok_def)
  have fresh: "?a \<notin> set (open_jobs s)" "?a \<notin> noted ` set (rq_log s)" using all(2) by auto
  have "filter (\<lambda>(k, _). k \<noteq> Suc ?a) (rq_jobs s) = rq_jobs s" by (rule remove_absent [OF j fresh(1)])
  then have s': "?s = s\<lparr>rq_next := Suc (Suc ?a), rq_active := Some (Suc ?a), rq_heap := rq_heap s @ [?j], rq_jobs := rq_jobs s @ [(Suc ?a, ?a)],
      rq_threads := rq_threads s @ ?new\<rparr>"
    using False room by (simp add: begin_request_def Let_def next_id)
  have op: "open_jobs ?s = open_jobs s @ [?a]" by (simp add: s' open_jobs_def)
  have at: "job_at ?s b = (if b = ?a then ?j else job_at s b)" if "b < Suc ?a" for b using that by (simp add: job_at_def s' nth_append)
  have logged: "noted n < ?a" if "n \<in> set (rq_log s)" for n using all(2) that by auto
  have J: "jobs_ok C late ?s"
  proof -
    have "rq_jobs ?s = map (\<lambda>a. (Suc a, a)) (open_jobs ?s)" using jobs unfolding op by (simp add: s')
    moreover have "distinct (open_jobs ?s @ map noted (rq_log ?s))" using all(1) fresh unfolding op by (auto simp: s')
    moreover have "set (open_jobs ?s @ map noted (rq_log ?s)) = {..<length (rq_heap ?s)}"
    proof -
      have "set (open_jobs ?s @ map noted (rq_log ?s)) = insert ?a (set (open_jobs s @ map noted (rq_log s)))" unfolding op by (simp add: s')
      also have "\<dots> = {..<Suc ?a}" unfolding all(2) by (rule lessThan_Suc [symmetric])
      finally show ?thesis by (simp add: s')
    qed
    moreover have "length (open_jobs ?s) \<le> 64" using False unfolding op by (simp add: open_jobs_def)
    moreover have "\<forall>a\<in>set (open_jobs ?s). \<not> jb_discarded (job_at ?s a)"
      using j open_jobs_bound [OF j] unfolding op by (auto simp: at jobs_ok_def less_Suc_eq)
    moreover have "\<forall>n\<in>set (rq_log ?s). answer_ok C late (rq_heap ?s) n"
    proof
      fix n assume "n \<in> set (rq_log ?s)"
      then have n: "n \<in> set (rq_log s)" by (simp add: s')
      have "answer_ok C late (rq_heap s) n" using j n by (simp add: jobs_ok_def)
      then show "answer_ok C late (rq_heap ?s) n" using answer_ok_append [OF logged [OF n]] by (simp add: s')
    qed
    moreover have "\<forall>a<length (rq_heap ?s). (\<forall>r. jb_result (job_at ?s a) = Some r \<longrightarrow> r = late \<or> (a, r) \<in> C) \<and> jb_id (job_at ?s a) = Suc a"
    proof (intro allI impI)
      fix a assume "a < length (rq_heap ?s)"
      then have a: "a < Suc ?a" by (simp add: s')
      show "(\<forall>r. jb_result (job_at ?s a) = Some r \<longrightarrow> r = late \<or> (a, r) \<in> C) \<and> jb_id (job_at ?s a) = Suc a"
        using j a unfolding at [OF a] jobs_ok_def by (cases "a = ?a") simp_all
    qed
    ultimately show ?thesis unfolding jobs_ok_def by (simp add: s')
  qed
  have "status_ok ?s"
    using st open_jobs_bound [OF j] op unfolding status_ok_def by (auto simp: s' job_at_def nth_append split: option.splits)
  moreover have "threads_ok C late ?s"
  proof -
    have idle: "\<not> busy_at s t" for t using th False by (auto simp: threads_ok_def)
    have nth: "rq_threads ?s ! t = (if t < length (rq_threads s) then rq_threads s ! t else ?new ! (t - length (rq_threads s)))" for t
      by (simp add: s' nth_append)
    have b: "busy_at ?s t \<longleftrightarrow> t = length (rq_threads s)" for t
    proof (cases "t < length (rq_threads s)")
      case True
      then have "rq_threads ?s ! t = rq_threads s ! t" by (simp only: nth if_True)
      then show ?thesis using idle [of t] True by (simp add: busy_at_def)
    next
      case False
      then obtain k where t: "t = length (rq_threads s) + k" by (metis le_add_diff_inverse not_less)
      have "busy_at ?s t \<longleftrightarrow> k < length ?new \<and> busy (?new ! k)" unfolding busy_at_def nth by (simp add: t s')
      also have "\<dots> \<longleftrightarrow> k = 0" by (cases k) (auto simp: less_Suc_eq nth_Cons')
      finally show ?thesis by (simp add: t)
    qed
    have "\<forall>th\<in>set ?new. th_job th = ?a \<and> thread_result_ok C late th" by (simp add: thread_result_ok_def)
    moreover have "th_job (?new ! 0) = ?a" by simp
    ultimately show ?thesis using th unfolding threads_ok_def b by (auto simp: s' nth_append)
  qed
  ultimately show ?thesis using J by (simp add: flight_ok_def)
qed

lemma report_flight_ok:
  assumes ok: "flight_ok C late s" and t: "thread_is Worker t s" "th_phase (rq_threads s ! t) = Computed r"
  shows "flight_ok C late (worker_report t r s)"
proof -
  let ?a = "th_job (rq_threads s ! t)"
  have j: "jobs_ok C late s" and th: "threads_ok C late s" using ok by (simp_all add: flight_ok_def)
  have b: "busy_at s t" using t by (simp add: busy_at_def busy_iff thread_is_def)
  have res: "thread_result_ok C late (rq_threads s ! t)" and bound: "?a < length (rq_heap s)"
    using th t(1) nth_mem by (auto simp: threads_ok_def thread_is_def)
  have i: "jb_id (job_at s ?a) = Suc ?a" using j bound by (simp add: jobs_ok_def)
  have active: "rq_active s = Some (Suc ?a)" using th b by (simp add: threads_ok_def)
  have gone: "remove_job (Suc ?a) s' = s'" if "jb_discarded (job_at s ?a)" "rq_jobs s' = rq_jobs s" for s'
  proof -
    have "?a \<notin> set (open_jobs s)" using j that(1) by (auto simp: jobs_ok_def)
    then have "filter (\<lambda>(k, _). k \<noteq> Suc ?a) (rq_jobs s) = rq_jobs s" by (rule remove_absent [OF j])
    with that(2) show ?thesis by (simp add: remove_job_def)
  qed
  have same: "job_at (s\<lparr>rq_active := None\<rparr>) ?a = job_at s ?a" by (simp add: job_at_def)
  have eq: "worker_report t r s = set_phase t (Completing r) (s\<lparr>rq_active := None\<rparr>)"
    using gone [of "s\<lparr>rq_active := None\<rparr>"] by (simp add: worker_report_def Let_def i clear_active_def active same)
  have "threads_ok C late (set_phase t (Completing r) (s\<lparr>rq_active := None\<rparr>))"
    by (rule leave_ok [OF th b]) (use res t in \<open>simp_all add: busy_iff thread_result_ok_def thread_is_def\<close>)
  moreover have "jobs_ok C late (set_phase t (Completing r) (s\<lparr>rq_active := None\<rparr>))"
    by (rule jobs_ok_cong [OF _ _ _ _ j]) (simp_all add: set_phase_def)
  moreover have "status_ok (set_phase t (Completing r) (s\<lparr>rq_active := None\<rparr>))"
    by (rule status_ok_cong [of _ s]) (use ok in \<open>simp_all add: set_phase_def flight_ok_def\<close>)
  ultimately show ?thesis unfolding eq by (simp add: flight_ok_def)
qed

lemma change_flight_ok:
  assumes ok: "flight_ok C late s" and f: "tame_change f" "\<And>j. jb_discarded (f j) = jb_discarded j"
    and r: "\<And>r. jb_result (f (job_at s a)) = Some r \<Longrightarrow> r = late \<or> (a, r) \<in> C"
  shows "flight_ok C late (update_job a f s)"
proof -
  have "jobs_ok C late (update_job a f s)" using change_ok [OF _ f r] ok by (simp add: flight_ok_def)
  moreover have "status_ok (update_job a f s)"
  proof -
    have "jb_owner (job_at (update_job a f s) b) = jb_owner (job_at s b)" for b
      using f(1) by (cases "a < length (rq_heap s)"; cases "a = b") (simp_all add: job_at_def update_job_def tame_change_def list_update_beyond)
    moreover have "rq_status (update_job a f s) = rq_status s" "open_jobs (update_job a f s) = open_jobs s"
      by (simp_all add: update_job_def open_jobs_def)
    ultimately show ?thesis using ok unfolding flight_ok_def status_ok_def by (auto split: option.splits)
  qed
  moreover have "threads_ok C late (update_job a f s)"
    by (rule threads_ok_cong [of _ s]) (use ok in \<open>simp_all add: flight_ok_def update_job_def\<close>)
  ultimately show ?thesis by (simp add: flight_ok_def)
qed

lemma complete_flight_ok:
  assumes ok: "flight_ok C late s" and t: "t < length (rq_threads s)" "th_phase (rq_threads s ! t) = Completing r"
  shows "flight_ok C late (complete t r s)"
proof -
  let ?a = "th_job (rq_threads s ! t)" let ?f = "\<lambda>j :: 'a job. j\<lparr>jb_result := Some r, jb_notified := True\<rparr>"
  have idle: "\<not> busy (rq_threads s ! t)" using t by (simp add: busy_iff)
  have "thread_result_ok C late (rq_threads s ! t)" using ok nth_mem [OF t(1)] by (simp add: flight_ok_def threads_ok_def)
  then have res: "r = late \<or> (?a, r) \<in> C" by (simp add: thread_result_ok_def t(2))
  have "flight_ok C late (set_phase t Ended s)"
    by (rule thread_flight_ok [OF ok t(1)]) (use idle in \<open>simp_all add: busy_iff thread_result_ok_def\<close>)
  moreover have "flight_ok C late (set_phase t Notifying (update_job ?a ?f s))"
  proof (rule thread_flight_ok)
    show "flight_ok C late (update_job ?a ?f s)" by (rule change_flight_ok [OF ok]) (use res in \<open>auto simp: tame_change_def\<close>)
  qed (use idle t in \<open>simp_all add: busy_iff thread_result_ok_def update_job_def\<close>)
  ultimately show ?thesis by (simp add: complete_def Let_def)
qed

lemma spawn_failed_flight_ok:
  assumes ok: "flight_ok C late s" and free: "rq_status s = None" and t: "thread_is Unspawned t s" "th_phase (rq_threads s ! t) = Running"
  shows "flight_ok C late (spawn_failed t s)"
proof -
  let ?a = "th_job (rq_threads s ! t)"
  let ?s = "if map_of (rq_jobs s) (Suc ?a) \<noteq> None then note_of (Dropped ?a) (remove_job (Suc ?a) s) else s"
  have j: "jobs_ok C late s" and th: "threads_ok C late s" using ok by (simp_all add: flight_ok_def)
  have b: "busy_at s t" using t by (simp add: busy_at_def busy_iff thread_is_def)
  have bound: "?a < length (rq_heap s)" using th t(1) nth_mem by (auto simp: threads_ok_def thread_is_def)
  have i: "jb_id (job_at s ?a) = Suc ?a" using j bound by (simp add: jobs_ok_def)
  have active: "rq_active s = Some (Suc ?a)" using th b by (simp add: threads_ok_def)
  have same: "rq_active ?s = rq_active s" "rq_threads ?s = rq_threads s" "rq_heap ?s = rq_heap s" "rq_status ?s = None"
    using free by (simp_all add: note_of_def remove_job_def)
  have "flight_ok C late ?s"
  proof (cases "map_of (rq_jobs s) (Suc ?a)")
    case (Some x)
    then have "?a \<in> set (open_jobs s)" using j map_of_numbered [of "open_jobs s" "Suc ?a" x] by (auto simp: jobs_ok_def)
    then have "flight_ok C late (note_of (Dropped ?a) (remove_job (Suc ?a) (update_job ?a (\<lambda>j. j) s)))"
      by (intro settle_flight_ok [OF ok free]) (simp_all add: tame_change_def)
    with Some show ?thesis by (simp add: update_job_def)
  qed (use ok in simp)
  then have f: "jobs_ok C late ?s" "threads_ok C late ?s" by (simp_all add: flight_ok_def)
  have eq: "spawn_failed t s = set_phase t Ended (?s\<lparr>rq_active := None\<rparr>)"
    using active by (simp add: spawn_failed_def Let_def i clear_active_def note_of_def remove_job_def)
  have "busy_at ?s t" using b same by (simp add: busy_at_def)
  then have "threads_ok C late (set_phase t Ended (?s\<lparr>rq_active := None\<rparr>))"
    by (rule leave_ok [OF f(2)]) (simp_all add: busy_iff thread_result_ok_def)
  moreover have "jobs_ok C late (set_phase t Ended (?s\<lparr>rq_active := None\<rparr>))" by (rule jobs_ok_cong [OF _ _ _ _ f(1)]) (simp_all add: set_phase_def)
  moreover have "status_ok (set_phase t Ended (?s\<lparr>rq_active := None\<rparr>))" using same by (simp add: status_ok_def set_phase_def)
  ultimately show ?thesis unfolding eq by (simp add: flight_ok_def)
qed

lemma remove_update: "remove_job i (update_job a f s) = update_job a f (remove_job i s)"
  by (simp add: remove_job_def update_job_def)

lemma status_take_ok:
  assumes ok: "flight_ok C late s" and free: "rq_status s = None"
  shows "flight_ok C late (status_take owner i s)"
proof (cases "owned_job owner i s")
  case None
  with ok show ?thesis by (simp add: status_take_def)
next
  case (Some a)
  have j: "jobs_ok C late s" using ok by (simp add: flight_ok_def)
  note a = owned_jobD [OF j Some]
  show ?thesis
  proof (cases "jb_result (job_at s a)")
    case None
    have "jobs_ok C late (s\<lparr>rq_status := Some (owner, i, a)\<rparr>)" by (rule jobs_ok_cong [OF _ _ _ _ j]) simp_all
    moreover have "status_ok (s\<lparr>rq_status := Some (owner, i, a)\<rparr>)" using a by (simp add: status_ok_def open_jobs_def job_at_def)
    moreover have "threads_ok C late (s\<lparr>rq_status := Some (owner, i, a)\<rparr>)"
      by (rule threads_ok_cong [of _ s]) (use ok in \<open>simp_all add: flight_ok_def\<close>)
    ultimately show ?thesis using Some None by (simp add: status_take_def flight_ok_def)
  next
    case (Some r)
    have "r = late \<or> (a, r) \<in> C" using j Some open_jobs_bound [OF j] a by (auto simp: jobs_ok_def)
    then have "flight_ok C late (note_of (Delivered a owner r) (remove_job (Suc a) (update_job a (\<lambda>j. j\<lparr>jb_result := None\<rparr>) s)))"
      using a by (intro settle_flight_ok [OF ok free]) (simp_all add: tame_change_def job_at_def)
    then show ?thesis using Some a \<open>owned_job owner i s = Some a\<close> by (simp add: status_take_def)
  qed
qed

lemma status_expire_ok:
  assumes ok: "flight_ok C late s" and call: "rq_status s = Some call"
  shows "flight_ok C late (status_expire call s)"
proof -
  obtain owner i a where c: "call = (owner, i, a)" by (cases call) auto
  then have a: "a \<in> set (open_jobs s)" "i = Suc a" "jb_owner (job_at s a) = owner" using ok call by (auto simp: flight_ok_def status_ok_def)
  let ?s = "s\<lparr>rq_status := None\<rparr>"
  have s: "flight_ok C late ?s"
  proof -
    have "jobs_ok C late ?s" by (rule jobs_ok_cong [of _ s]) (use ok in \<open>simp_all add: flight_ok_def\<close>)
    moreover have "threads_ok C late ?s" by (rule threads_ok_cong [of _ s]) (use ok in \<open>simp_all add: flight_ok_def\<close>)
    ultimately show ?thesis by (simp add: flight_ok_def status_ok_def)
  qed
  have "flight_ok C late (note_of (Expired a owner) (remove_job (Suc a) (update_job a (\<lambda>j. j\<lparr>jb_discarded := True\<rparr>) ?s)))"
    using a by (intro settle_flight_ok [OF s]) (simp_all add: tame_change_def job_at_def open_jobs_def)
  with s show ?thesis by (simp add: status_expire_def c a(2) Let_def)
qed

lemma discard_ok:
  assumes ok: "flight_ok C late s" and free: "rq_status s = None" and a: "a \<in> set (open_jobs s)"
  shows "flight_ok C late (note_of (Dropped a) (update_job a (\<lambda>j. j\<lparr>jb_discarded := True, jb_notified := True\<rparr>) (remove_job (Suc a) s)))"
  unfolding remove_update [symmetric]
  by (rule settle_flight_ok [OF ok free a]) (simp_all add: tame_change_def)

lemma abort_ok: "flight_ok C late s \<Longrightarrow> rq_status s = None \<Longrightarrow> flight_ok C late (abort_request owner i s)"
  using discard_ok owned_jobD by (fastforce simp: abort_request_def flight_ok_def split: option.splits)

lemma discard_status: "rq_status (note_of n (update_job a f (remove_job i s))) = rq_status s"
  by (simp add: note_of_def update_job_def remove_job_def)

lemma discard_open: "jobs_ok C late s \<Longrightarrow> open_jobs (note_of n (update_job a f (remove_job (Suc a) s))) = filter (\<lambda>b. b \<noteq> a) (open_jobs s)"
  using settle_open [of C late s n a f] by (simp add: remove_update)

lemma release_jobs_ok:
  "flight_ok C late s \<Longrightarrow> rq_status s = None \<Longrightarrow> js = map (\<lambda>a. (Suc a, a)) as \<Longrightarrow> distinct as \<Longrightarrow> set as \<subseteq> set (open_jobs s) \<Longrightarrow>
     flight_ok C late (release_jobs owner js s)"
proof (induction as arbitrary: js s)
  case (Cons a as)
  let ?d = "note_of (Dropped a) (update_job a (\<lambda>j. j\<lparr>jb_discarded := True, jb_notified := True\<rparr>) (remove_job (Suc a) s))"
  let ?s = "if jb_owner (job_at s a) = owner then ?d else s"
  have j: "jobs_ok C late s" using Cons.prems(1) by (simp add: flight_ok_def)
  have d: "flight_ok C late ?d" using Cons.prems by (intro discard_ok) simp_all
  have "flight_ok C late (release_jobs owner (map (\<lambda>a. (Suc a, a)) as) ?s)"
  proof (rule Cons.IH)
    show "flight_ok C late ?s" using d Cons.prems(1) by simp
    show "rq_status ?s = None" using Cons.prems(2) by (simp add: discard_status)
    show "set as \<subseteq> set (open_jobs ?s)" using Cons.prems(4,5) discard_open [OF j] by auto
  qed (use Cons.prems in simp_all)
  then show ?case using Cons.prems(3) by simp
qed simp

lemma release_realm_ok: "flight_ok C late s \<Longrightarrow> rq_status s = None \<Longrightarrow> flight_ok C late (release_realm owner s)"
  unfolding release_realm_def
  by (rule release_jobs_ok [where as = "open_jobs s"]) (simp_all add: flight_ok_def jobs_ok_def)

lemma take_completed_ok:
  "flight_ok C late s \<Longrightarrow> rq_status s = None \<Longrightarrow> flight_ok C late (take_completed owner as s) \<and> rq_status (take_completed owner as s) = None"
proof (induction as arbitrary: s)
  case (Cons a as)
  let ?s = "if jb_owner (job_at s a) \<noteq> owner \<or> map_of (rq_jobs s) (jb_id (job_at s a)) \<noteq> Some a then s
        else case jb_result (job_at s a) of
               None \<Rightarrow> s
             | Some r \<Rightarrow> note_of (Delivered a owner r) (remove_job (jb_id (job_at s a)) (update_job a (\<lambda>j. j\<lparr>jb_result := None\<rparr>) s))"
  have j: "jobs_ok C late s" using Cons.prems(1) by (simp add: flight_ok_def)
  have "flight_ok C late ?s \<and> rq_status ?s = None"
  proof (cases "jb_owner (job_at s a) = owner \<and> map_of (rq_jobs s) (jb_id (job_at s a)) = Some a")
    case True
    have "rq_jobs s = map (\<lambda>a. (Suc a, a)) (open_jobs s)" using j by (simp add: jobs_ok_def)
    then have a: "a \<in> set (open_jobs s)" "jb_id (job_at s a) = Suc a"
      using True map_of_numbered [of "open_jobs s" "jb_id (job_at s a)" a] by metis+
    show ?thesis
    proof (cases "jb_result (job_at s a)")
      case None
      with True Cons.prems show ?thesis by simp
    next
      case (Some r)
      have "r = late \<or> (a, r) \<in> C" using j Some open_jobs_bound [OF j a(1)] by (auto simp: jobs_ok_def)
      then have "flight_ok C late (note_of (Delivered a owner r) (remove_job (Suc a) (update_job a (\<lambda>j. j\<lparr>jb_result := None\<rparr>) s)))"
        using a True by (intro settle_flight_ok [OF Cons.prems]) (simp_all add: tame_change_def job_at_def)
      with True Some a Cons.prems(2) show ?thesis by (simp add: note_of_def update_job_def remove_job_def)
    qed
  qed (use Cons.prems in auto)
  with Cons.IH [of ?s] show ?case by simp
qed simp

section \<open>Runs\<close>

text \<open>What workers have computed, for which request.\<close>

definition computed_by :: "'r move \<Rightarrow> 'r requests \<Rightarrow> (nat \<times> 'r) set" where
  "computed_by m s = (case m of Compute t r \<Rightarrow> if thread_is Worker t s \<and> th_phase (rq_threads s ! t) = Running
     then {(th_job (rq_threads s ! t), r)} else {} | _ \<Rightarrow> {})"

fun computed :: "(nat \<Rightarrow> bool) \<Rightarrow> 'r \<Rightarrow> 'r move list \<Rightarrow> 'r requests \<Rightarrow> (nat \<times> 'r) set" where
  "computed room late [] s = {}"
| "computed room late (m # ms) s = computed_by m s \<union> (case wa_step room late m s of None \<Rightarrow> {} | Some s' \<Rightarrow> computed room late ms s')"

lemma flight_ok_mono: "flight_ok C late s \<Longrightarrow> C \<subseteq> C' \<Longrightarrow> flight_ok C' late s"
proof -
  assume ok: "flight_ok C late s" and sub: "C \<subseteq> C'"
  have "jobs_ok C' late s" using ok sub answer_ok_mono [OF sub] unfolding flight_ok_def jobs_ok_def by blast
  moreover have "threads_ok C' late s"
  proof -
    have "thread_result_ok C late th \<Longrightarrow> thread_result_ok C' late th" for th using sub by (auto simp: thread_result_ok_def split: phase.splits)
    then show ?thesis using ok unfolding flight_ok_def threads_ok_def by blast
  qed
  ultimately show ?thesis using ok by (simp add: flight_ok_def)
qed

lemma step_flight_ok:
  assumes ok: "flight_ok C late s" and step: "wa_step room late m s = Some s'" and room: "Suc (Suc (length (rq_heap s))) < 2 ^ 64"
  shows "flight_ok (C \<union> computed_by m s) late s'"
proof (cases m)
  case (Compute t r)
  show ?thesis
  proof (cases "thread_is Worker t s \<and> th_phase (rq_threads s ! t) = Running")
    case True
    let ?C = "C \<union> {(th_job (rq_threads s ! t), r)}"
    have "flight_ok ?C late (set_phase t (Computed r) s)"
      using True by (intro thread_flight_ok [OF flight_ok_mono [OF ok]]) (auto simp: thread_is_def busy_iff thread_result_ok_def)
    with True step Compute show ?thesis by (simp add: wa_step_def computed_by_def)
  next
    case False
    with step Compute have "s' = s" "computed_by m s = {}" by (auto simp: wa_step_def computed_by_def split: if_splits)
    with ok show ?thesis by simp
  qed
next
  case (Report t)
  with step ok report_flight_ok [OF ok] show ?thesis
    by (auto simp: wa_step_def computed_by_def split: if_splits phase.splits)
next
  case (Complete t)
  with step ok complete_flight_ok [OF ok] show ?thesis
    by (auto simp: wa_step_def computed_by_def split: if_splits phase.splits)
next
  case (Notify t)
  have "flight_ok C late (set_phase t Ended (s\<lparr>rq_rings := rs\<rparr>))" if "t < length (rq_threads s)" "th_phase (rq_threads s ! t) = Notifying" for rs
  proof (rule thread_flight_ok)
    show "flight_ok C late (s\<lparr>rq_rings := rs\<rparr>)" by (rule flight_ok_cong [OF ok]) simp_all
  qed (use that in \<open>simp_all add: busy_iff thread_result_ok_def\<close>)
  moreover have "s\<lparr>rq_rings := rq_rings s\<rparr> = s" by simp
  ultimately have both: "flight_ok C late (set_phase t Ended (s\<lparr>rq_rings := rs\<rparr>))" "flight_ok C late (set_phase t Ended s)"
    if "t < length (rq_threads s)" "th_phase (rq_threads s ! t) = Notifying" for rs using that by metis+
  show ?thesis using step ok both Notify
    by (auto simp: wa_step_def computed_by_def notify_def Let_def split: if_splits)
next
  case (Fire t)
  have "flight_ok C late (set_phase t (Completing late) s)" if "thread_is Timer t s" "th_phase (rq_threads s ! t) = Running"
    using that by (intro thread_flight_ok [OF ok]) (auto simp: thread_is_def busy_iff thread_result_ok_def)
  with step ok Fire show ?thesis by (auto simp: wa_step_def computed_by_def split: if_splits)
next
  case (Wake t)
  have "flight_ok C late (set_phase t Ended s)" if "thread_is Timer t s" "th_phase (rq_threads s ! t) = Running"
    using that by (intro thread_flight_ok [OF ok]) (auto simp: thread_is_def busy_iff thread_result_ok_def)
  with step ok Wake show ?thesis by (auto simp: wa_step_def computed_by_def split: if_splits)
next
  case (Take k)
  have taken: "flight_ok C late (s\<lparr>rq_taking := x\<rparr>)" for x by (rule flight_ok_cong [OF ok]) simp_all
  have "flight_ok C late (take_completed owner as (s\<lparr>rq_taking := x\<rparr>))" if "rq_status s = None" for owner as x
    using take_completed_ok [OF taken] that by simp
  with step ok Take show ?thesis by (auto simp: wa_step_def computed_by_def split: if_splits prod.splits)
next
  case (Begin owner ring timeout spawned)
  with step ok begin_flight_ok [OF ok room] show ?thesis by (auto simp: wa_step_def computed_by_def split: if_splits)
next
  case (Unspawn t)
  with step ok spawn_failed_flight_ok [OF ok] show ?thesis by (auto simp: wa_step_def computed_by_def split: if_splits)
next
  case (Status owner i)
  with step ok status_take_ok [OF ok] show ?thesis by (auto simp: wa_step_def computed_by_def split: if_splits)
next
  case Status_End
  with step ok status_expire_ok [OF ok] show ?thesis by (auto simp: wa_step_def computed_by_def split: option.splits)
next
  case (Abort owner i)
  with step ok abort_ok [OF ok] show ?thesis by (auto simp: wa_step_def computed_by_def split: if_splits)
next
  case (Release owner)
  with step ok release_realm_ok [OF ok] show ?thesis by (auto simp: wa_step_def computed_by_def split: if_splits)
qed (use step in \<open>auto simp: wa_step_def computed_by_def close_ring_def drain_def intro!: flight_ok_cong [OF ok] split: if_splits\<close>)

text \<open>A step begins one request at most.\<close>

lemma release_jobs_heap: "length (rq_heap (release_jobs owner js s)) = length (rq_heap s)"
  by (induction owner js s rule: release_jobs.induct) (simp_all add: note_of_def update_job_def remove_job_def)

lemma take_completed_heap: "length (rq_heap (take_completed owner as s)) = length (rq_heap s)"
  by (induction owner as s rule: take_completed.induct) (simp_all add: note_of_def update_job_def remove_job_def split: option.split)

lemma step_heap: "wa_step room late m s = Some s' \<Longrightarrow> length (rq_heap s') \<le> Suc (length (rq_heap s))"
  by (cases m)
    (auto simp: wa_step_def begin_request_def Let_def set_phase_def worker_report_def clear_active_def remove_job_def spawn_failed_def note_of_def
      complete_def update_job_def notify_def status_take_def status_expire_def abort_request_def release_realm_def release_jobs_heap close_ring_def
      drain_def take_completed_heap split: if_splits option.splits phase.splits prod.splits)

lemma run_flight_ok:
  "flight_ok C late s \<Longrightarrow> wa_run room late ms s = Some s' \<Longrightarrow> length (rq_heap s) + length ms + 1 < 2 ^ 64 \<Longrightarrow>
     flight_ok (C \<union> computed room late ms s) late s'"
proof (induction ms arbitrary: C s)
  case (Cons m ms)
  then obtain u where u: "wa_step room late m s = Some u" "wa_run room late ms u = Some s'" by (auto simp: bind_eq_Some_conv)
  have "flight_ok (C \<union> computed_by m s) late u" by (rule step_flight_ok [OF Cons.prems(1) u(1)]) (use Cons.prems(3) in simp)
  then have "flight_ok (C \<union> computed_by m s \<union> computed room late ms u) late s'"
    by (rule Cons.IH [OF _ u(2)]) (use Cons.prems(3) step_heap [OF u(1)] in simp)
  then show ?case using u(1) by (simp add: Un_assoc)
qed simp

lemma no_requests_ok: "flight_ok {} late no_requests"
  by (simp add: flight_ok_def jobs_ok_def status_ok_def threads_ok_def busy_at_def no_requests_def open_jobs_def)

lemma reached_ok:
  assumes "wa_run room late ms no_requests = Some s" and "length ms < 2 ^ 63"
  shows "flight_ok (computed room late ms no_requests) late s"
  using run_flight_ok [OF no_requests_ok assms(1)] assms(2) by (simp add: no_requests_def)

lemma filter_single: "k < length xs \<Longrightarrow> P (xs ! k) \<Longrightarrow> (\<And>l. l < length xs \<Longrightarrow> P (xs ! l) \<Longrightarrow> l = k) \<Longrightarrow> filter P xs = [xs ! k]"
proof (induction xs arbitrary: k)
  case (Cons x xs)
  show ?case
  proof (cases k)
    case 0
    have "\<not> P (xs ! l)" if "l < length xs" for l using Cons.prems(3) [of "Suc l"] that 0 by auto
    then have "filter P xs = []" by (auto simp: filter_empty_conv in_set_conv_nth)
    with Cons.prems(2) 0 show ?thesis by simp
  next
    case (Suc l)
    have "filter P xs = [xs ! l]"
    proof (rule Cons.IH)
      show "l < length xs" "P (xs ! l)" using Cons.prems(1,2) Suc by simp_all
      show "m = l" if "m < length xs" "P (xs ! m)" for m using Cons.prems(3) [of "Suc m"] that Suc by simp
    qed
    moreover have "\<not> P x" using Cons.prems(3) [of 0] Suc by auto
    ultimately show ?thesis using Suc by simp
  qed
qed simp

section \<open>Properties\<close>

text \<open>
  C26. Whatever pages, workers and timers do and in which order, every request that was begun is either unanswered or has exactly one outcome. An answer
  goes to the owner of the request only, and carries a result that the worker of that very request computed, or the denial of its deadline; a request that was
  aborted or whose realm is gone is never answered.
\<close>

theorem request_answered_once:
  assumes "wa_run room late ms no_requests = Some s" and "length ms < 2 ^ 63"
  shows "distinct (map snd (rq_jobs s) @ map noted (rq_log s))
    \<and> set (map snd (rq_jobs s) @ map noted (rq_log s)) = {..<length (rq_heap s)}
    \<and> list_all (answer_ok (computed room late ms no_requests) late (rq_heap s)) (rq_log s)"
proof -
  have "jobs_ok (computed room late ms no_requests) late s" using reached_ok [OF assms] by (simp add: flight_ok_def)
  then show ?thesis by (simp add: jobs_ok_def open_jobs_def list_all_iff)
qed

text \<open>
  Mutual exclusion: at most one request at a time uses the authenticator, and it is the one recorded as active; while none is active no worker is at the
  authenticator, so that the next request can begin. At most 64 requests are unanswered.
\<close>

theorem one_authenticator_at_a_time:
  assumes "wa_run room late ms no_requests = Some s" and "length ms < 2 ^ 63"
  shows "length (rq_jobs s) \<le> 64
    \<and> (case rq_active s of
         None \<Rightarrow> filter busy (rq_threads s) = []
       | Some i \<Rightarrow> \<exists>th. filter busy (rq_threads s) = [th] \<and> i = Suc (th_job th))"
proof -
  let ?C = "computed room late ms no_requests"
  have j: "jobs_ok ?C late s" and t: "threads_ok ?C late s" using reached_ok [OF assms] by (simp_all add: flight_ok_def)
  have "length (rq_jobs s) = length (open_jobs s)" by (simp add: open_jobs_def)
  moreover have "case rq_active s of None \<Rightarrow> filter busy (rq_threads s) = [] | Some i \<Rightarrow> \<exists>th. filter busy (rq_threads s) = [th] \<and> i = Suc (th_job th)"
  proof (cases "rq_active s")
    case None
    with t show ?thesis by (auto simp: threads_ok_def busy_at_def filter_empty_conv in_set_conv_nth)
  next
    case (Some i)
    then obtain k where k: "busy_at s k" "i = Suc (th_job (rq_threads s ! k))" using t by (fastforce simp: threads_ok_def)
    have "filter busy (rq_threads s) = [rq_threads s ! k]"
      by (rule filter_single) (use t k(1) in \<open>auto simp: threads_ok_def busy_at_def\<close>)
    with Some k(2) show ?thesis by simp
  qed
  ultimately show ?thesis using j by (simp add: jobs_ok_def)
qed

text \<open>
  C27. The authenticator is given back: from every reachable state in which a request holds it, once no status call is between its two reads, the moves of that
  request's own thread free it, whatever result its worker comes to.
\<close>

theorem authenticator_is_freed:
  assumes "wa_run room late ms no_requests = Some s" and "length ms < 2 ^ 63" and "rq_status s = None" and "rq_active s = Some i"
  shows "\<exists>t<length (rq_threads s). i = Suc (th_job (rq_threads s ! t)) \<and>
    (case wa_run room late [Compute t r, Report t, Unspawn t] s of None \<Rightarrow> False | Some s' \<Rightarrow> rq_active s' = None \<and> rq_heap s' = rq_heap s)"
proof -
  let ?C = "computed room late ms no_requests"
  have j: "jobs_ok ?C late s" and th: "threads_ok ?C late s" using reached_ok [OF assms(1,2)] by (simp_all add: flight_ok_def)
  then obtain t where t: "busy_at s t" "i = Suc (th_job (rq_threads s ! t))" using assms(4) by (fastforce simp: threads_ok_def)
  have tl: "t < length (rq_threads s)" and b: "busy (rq_threads s ! t)" using t(1) by (simp_all add: busy_at_def)
  have bound: "th_job (rq_threads s ! t) < length (rq_heap s)" using th nth_mem [OF tl] by (simp add: threads_ok_def)
  then have i: "jb_id (rq_heap s ! th_job (rq_threads s ! t)) = i" using j t(2) by (simp add: jobs_ok_def job_at_def)
  have same: "jb_id (rq_heap s ! th_job ((rq_threads s)[t := (rq_threads s ! t)\<lparr>th_phase := ph\<rparr>] ! t)) = i" for ph using i tl by simp
  consider "th_role (rq_threads s ! t) = Worker" "th_phase (rq_threads s ! t) = Running"
    | r' where "th_role (rq_threads s ! t) = Worker" "th_phase (rq_threads s ! t) = Computed r'"
    | "th_role (rq_threads s ! t) = Unspawned" "th_phase (rq_threads s ! t) = Running"
    using b by (auto simp: busy_iff)
  then have "case wa_run room late [Compute t r, Report t, Unspawn t] s of None \<Rightarrow> False | Some s' \<Rightarrow> rq_active s' = None \<and> rq_heap s' = rq_heap s"
    by cases (use assms(3,4) tl i in \<open>simp_all add: wa_step_def thread_is_def set_phase_def worker_report_def spawn_failed_def Let_def job_at_def
      clear_active_def remove_job_def note_of_def\<close>)
  with tl t(2) show ?thesis by blast
qed

text \<open>
  A request does not hang: once its deadline has passed, asking for its status gives the owner an answer, its result if there is one and the denial otherwise,
  and the request is no longer open.
\<close>

theorem late_request_answered:
  assumes "rq_status s = None" and "owned_job owner i s = Some a" and "jb_deadline (job_at s a) \<le> rq_now s"
  shows "case wa_run room late [Status owner i, Status_End] s of
      None \<Rightarrow> False
    | Some s' \<Rightarrow> owned_job owner i s' = None \<and> rq_status s' = None
        \<and> rq_log s' = rq_log s @ [case jb_result (job_at s a) of Some r \<Rightarrow> Delivered a owner r | None \<Rightarrow> Expired a owner]"
proof -
  have gone: "map_of (filter (\<lambda>(k, _). k \<noteq> i) js) i = None" for js :: "(nat \<times> nat) list" by (induction js) auto
  show ?thesis
  proof (cases "jb_result (job_at s a)")
    case None
    then show ?thesis
      using assms gone by (simp add: wa_step_def status_take_def status_expire_def Let_def note_of_def remove_job_def update_job_def owned_job_def job_at_def)
  next
    case (Some r)
    then show ?thesis
      using assms gone by (simp add: wa_step_def status_take_def note_of_def remove_job_def update_job_def owned_job_def)
  qed
qed

section \<open>An example\<close>

text \<open>
  Realm 7 begins a request, whose worker answers 5 in time and whose page takes it. Its second request it aborts while the worker runs; realm 8 is refused meanwhile.
  After that worker has reported, realm 8 begins a request that nobody answers.
\<close>

definition example_moves :: "nat move list" where
  "example_moves = [New_Ring, Begin 7 0 50 True, Compute 0 5, Report 0, Complete 0, Wake 1, Notify 0, Drain 7 0, Take 0,
     Begin 7 0 50 True, Abort 7 2, Begin 8 0 50 True, Compute 2 6, Report 2, Complete 2, Begin 8 0 50 True, Tick 60]"

definition example_flight :: "nat requests" where
  "example_flight = \<lparr>rq_now = 60, rq_next = 4, rq_active = Some 3, rq_jobs = [(3, 2)],
     rq_heap = [\<lparr>jb_id = 1, jb_owner = 7, jb_deadline = 50, jb_discarded = False, jb_notified = True, jb_result = None, jb_ring = 0\<rparr>,
       \<lparr>jb_id = 2, jb_owner = 7, jb_deadline = 50, jb_discarded = True, jb_notified = True, jb_result = None, jb_ring = 0\<rparr>,
       \<lparr>jb_id = 3, jb_owner = 8, jb_deadline = 50, jb_discarded = False, jb_notified = False, jb_result = None, jb_ring = 0\<rparr>],
     rq_rings = [\<lparr>ri_items = [], ri_closed = False, ri_alive = True\<rparr>],
     rq_threads = [\<lparr>th_role = Worker, th_job = 0, th_phase = Ended\<rparr>, \<lparr>th_role = Timer, th_job = 0, th_phase = Ended\<rparr>,
       \<lparr>th_role = Worker, th_job = 1, th_phase = Ended\<rparr>, \<lparr>th_role = Timer, th_job = 1, th_phase = Running\<rparr>,
       \<lparr>th_role = Worker, th_job = 2, th_phase = Running\<rparr>, \<lparr>th_role = Timer, th_job = 2, th_phase = Running\<rparr>],
     rq_status = None, rq_taking = [], rq_log = [Delivered 0 7 5, Dropped 1]\<rparr>"

lemmas flight_defs = wa_step_def thread_is_def begin_request_def clamp_timeout_def set_phase_def worker_report_def clear_active_def complete_def
  notify_def enqueue_def update_job_def remove_job_def note_of_def job_at_def owned_job_def abort_request_def drain_def Let_def remove_at_def
  status_take_def status_expire_def

lemma example_run: "wa_run (\<lambda>n. n < 128) 0 example_moves no_requests = Some example_flight"
  by (simp add: example_moves_def no_requests_def example_flight_def flight_defs)

lemma example_short: "length example_moves < 2 ^ 63"
  by (simp add: example_moves_def)

theorem request_answered_once_witness:
  "wa_run (\<lambda>n. n < 128) 0 example_moves no_requests = Some example_flight
   \<and> rq_log example_flight = [Delivered 0 7 5, Dropped 1]
   \<and> distinct (map snd (rq_jobs example_flight) @ map noted (rq_log example_flight))
   \<and> set (map snd (rq_jobs example_flight) @ map noted (rq_log example_flight)) = {..<length (rq_heap example_flight)}
   \<and> list_all (answer_ok (computed (\<lambda>n. n < 128) 0 example_moves no_requests) 0 (rq_heap example_flight)) (rq_log example_flight)"
  using request_answered_once [OF example_run example_short] example_run by (simp add: example_flight_def)

theorem one_authenticator_at_a_time_witness:
  "wa_run (\<lambda>n. n < 128) 0 example_moves no_requests = Some example_flight
   \<and> length (rq_jobs example_flight) \<le> 64
   \<and> (\<exists>th. filter busy (rq_threads example_flight) = [th] \<and> 3 = Suc (th_job th))"
  using one_authenticator_at_a_time [OF example_run example_short] example_run by (simp add: example_flight_def)

theorem authenticator_is_freed_witness:
  "\<exists>t. t < length (rq_threads example_flight) \<and> 3 = Suc (th_job (rq_threads example_flight ! t))
   \<and> (case wa_run (\<lambda>n. n < 128) 0 [Compute t 9, Report t, Unspawn t] example_flight of
        None \<Rightarrow> False | Some s' \<Rightarrow> rq_active s' = None \<and> rq_heap s' = rq_heap example_flight)"
proof -
  have "rq_status example_flight = None" "rq_active example_flight = Some 3" by (simp_all add: example_flight_def)
  from authenticator_is_freed [OF example_run example_short this, of 9] show ?thesis by blast
qed

theorem late_request_answered_witness:
  "case wa_run (\<lambda>n. n < 128) 0 [Status 8 3, Status_End] example_flight of
      None \<Rightarrow> False
    | Some s' \<Rightarrow> owned_job 8 3 s' = None \<and> rq_status s' = None \<and> rq_log s' = [Delivered 0 7 5, Dropped 1, Expired 2 8]"
proof -
  have "rq_status example_flight = None" "owned_job 8 3 example_flight = Some 2" "jb_deadline (job_at example_flight 2) \<le> rq_now example_flight"
    "rq_log example_flight = [Delivered 0 7 5, Dropped 1]" "jb_result (job_at example_flight 2) = None"
    by (simp_all add: example_flight_def owned_job_def job_at_def)
  with late_request_answered [OF this(1-3), of "\<lambda>n. n < 128" 0] show ?thesis
    by (simp del: wa_run.simps split: option.splits)
qed

end
