(* ===== verification/Host_Address.thy ===== *)
theory Host_Address
  imports Text_Ops
begin

unbundle bit_operations_syntax

text \<open>
  Which addresses the headless host may connect to when it runs as the child of a bot (\<open>is_public_address\<close> and \<open>is_public_ipv4\<close> in
  \<^verbatim>\<open>src/apps/chuzz/src/serve.rs\<close>), with what they use of the standard library: the parser behind \<open>parse::<IpAddr>()\<close>
  and the tests of \<open>Ipv4Addr\<close> and \<open>Ipv6Addr\<close>. The segments of an IPv6 address are a list of eight.
\<close>

section \<open>Addresses\<close>

datatype ip = V4 byte byte byte byte | V6 "16 word list"

section \<open>The parser of the standard library\<close>

text \<open>A reader takes a prefix of a text, or fails and takes nothing.\<close>

definition read_given :: "nat \<Rightarrow> str \<Rightarrow> str option" where
  "read_given c s = (case s of [] \<Rightarrow> None | x # t \<Rightarrow> if x = c then Some t else None)"

definition decimal_digit :: "nat \<Rightarrow> nat option" where
  "decimal_digit c = (if is_ascii_digit c then Some (c - 48) else None)"

fun read_digits :: "(nat \<Rightarrow> nat option) \<Rightarrow> nat \<Rightarrow> nat \<Rightarrow> nat \<Rightarrow> nat \<Rightarrow> str \<Rightarrow> (nat \<times> nat \<times> str) option" where
  "read_digits digit radix most v n [] = Some (v, n, [])"
| "read_digits digit radix most v n (c # s) =
     (case digit c of
        None \<Rightarrow> Some (v, n, c # s)
      | Some d \<Rightarrow> if most < n + 1 then None else read_digits digit radix most (v * radix + d) (n + 1) s)"

definition read_number :: "(nat \<Rightarrow> nat option) \<Rightarrow> nat \<Rightarrow> nat \<Rightarrow> nat \<Rightarrow> bool \<Rightarrow> str \<Rightarrow> (nat \<times> str) option" where
  "read_number digit radix most limit zero_prefix s =
     (case read_digits digit radix most 0 0 s of
        None \<Rightarrow> None
      | Some (v, n, t) \<Rightarrow>
          if n = 0 then None else if \<not> zero_prefix \<and> hd s = 48 \<and> 1 < n then None else if v \<le> limit then Some (v, t) else None)"

definition read_octet :: "str \<Rightarrow> (nat \<times> str) option" where
  "read_octet = read_number decimal_digit 10 3 255 False"

definition read_ipv4 :: "str \<Rightarrow> ((nat \<times> nat \<times> nat \<times> nat) \<times> str) option" where
  "read_ipv4 s = do {
     (a, s) \<leftarrow> read_octet s; s \<leftarrow> read_given 46 s; (b, s) \<leftarrow> read_octet s; s \<leftarrow> read_given 46 s;
     (c, s) \<leftarrow> read_octet s; s \<leftarrow> read_given 46 s; (d, s) \<leftarrow> read_octet s; Some ((a, b, c, d), s) }"

definition read_after_colon :: "nat \<Rightarrow> (str \<Rightarrow> 'a option) \<Rightarrow> str \<Rightarrow> 'a option" where
  "read_after_colon i inner s = (if 0 < i then Option.bind (read_given 58 s) inner else inner s)"

text \<open>The groups of an IPv6 address up to a limit, of which \<open>n\<close> are left; the flag says that the last two were written as an IPv4 address.\<close>

fun read_groups :: "nat \<Rightarrow> nat \<Rightarrow> str \<Rightarrow> nat list \<times> bool \<times> str" where
  "read_groups 0 i s = ([], False, s)"
| "read_groups (Suc n) i s =
     (case (if 0 < n then read_after_colon i read_ipv4 s else None) of
        Some ((a, b, c, d), t) \<Rightarrow> ([a * 256 + b, c * 256 + d], True, t)
      | None \<Rightarrow>
          (case read_after_colon i (read_number hex_value 16 4 65535 True) s of
             Some (g, t) \<Rightarrow> (case read_groups n (i + 1) t of (gs, v4, u) \<Rightarrow> (g # gs, v4, u))
           | None \<Rightarrow> ([], False, s)))"

definition read_ipv6 :: "str \<Rightarrow> (nat list \<times> str) option" where
  "read_ipv6 s =
     (case read_groups 8 0 s of
        (head, v4, t) \<Rightarrow>
          if length head = 8 then Some (head, t) else if v4 then None
          else do {
            t \<leftarrow> read_given 58 t; t \<leftarrow> read_given 58 t;
            (case read_groups (8 - (length head + 1)) 0 t of
               (tail, _, u) \<Rightarrow> Some (head @ replicate (8 - length head - length tail) 0 @ tail, u)) })"

definition parse_ip :: "str \<Rightarrow> ip option" where
  "parse_ip s =
     (case read_ipv4 s of
        Some ((a, b, c, d), t) \<Rightarrow> if t = [] then Some (V4 (of_nat a) (of_nat b) (of_nat c) (of_nat d)) else None
      | None \<Rightarrow> (case read_ipv6 s of Some (gs, []) \<Rightarrow> Some (V6 (map of_nat gs)) | _ \<Rightarrow> None))"

section \<open>Public addresses\<close>

definition is_public_ipv4 :: "byte \<Rightarrow> byte \<Rightarrow> byte \<Rightarrow> byte \<Rightarrow> bool" where
  "is_public_ipv4 a b c d =
     (let shared = (a = 100 \<and> 64 \<le> b \<and> b \<le> 127);
          documentation = ((a = 192 \<and> b = 0 \<and> c = 2) \<or> (a = 198 \<and> b = 51 \<and> c = 100) \<or> (a = 203 \<and> b = 0 \<and> c = 113));
          special = (a = 0 \<or> a = 10 \<or> a = 127 \<or> shared \<or> (a = 169 \<and> b = 254) \<or> (a = 172 \<and> 16 \<le> b \<and> b \<le> 31)
            \<or> (a = 192 \<and> b = 168) \<or> (a = 192 \<and> b = 0 \<and> c = 0) \<or> (a = 192 \<and> b = 88 \<and> c = 99) \<or> (a = 198 \<and> 18 \<le> b \<and> b \<le> 19)
            \<or> documentation \<or> 224 \<le> a \<or> (a = 255 \<and> b = 255 \<and> c = 255 \<and> d = 255));
          private = (a = 10 \<or> (a = 172 \<and> 16 \<le> b \<and> b \<le> 31) \<or> (a = 192 \<and> b = 168));
          loopback = (a = 127);
          multicast = (224 \<le> a \<and> a \<le> 239)
      in \<not> (special \<or> private \<or> loopback \<or> multicast))"

text \<open>\<open>Ipv6Addr::to_ipv4\<close>, of a compatible or mapped address.\<close>

definition to_ipv4 :: "16 word list \<Rightarrow> (byte \<times> byte \<times> byte \<times> byte) option" where
  "to_ipv4 g =
     (if take 5 g = [0, 0, 0, 0, 0] \<and> (g ! 5 = 0 \<or> g ! 5 = 0xffff)
      then Some (ucast (drop_bit 8 (g ! 6)), ucast (g ! 6), ucast (drop_bit 8 (g ! 7)), ucast (g ! 7)) else None)"

definition is_public_address :: "ip \<Rightarrow> bool" where
  "is_public_address address =
     (case address of
        V4 a b c d \<Rightarrow> is_public_ipv4 a b c d
      | V6 g \<Rightarrow>
          (case to_ipv4 g of
             Some (a, b, c, d) \<Rightarrow> is_public_ipv4 a b c d
           | None \<Rightarrow>
               let special = (g ! 0 = 0x2001 \<and> (g ! 1 = 0 \<or> g ! 1 = 0x0db8)) \<or> g ! 0 = 0x2002 \<or> (g ! 0 = 0x0064 \<and> g ! 1 = 0xff9b);
                   loopback = (g = [0, 0, 0, 0, 0, 0, 0, 1]);
                   unique_local = (g ! 0 AND 0xfe00 = 0xfc00);
                   link_local = (g ! 0 AND 0xffc0 = 0xfe80);
                   unspecified = (g = [0, 0, 0, 0, 0, 0, 0, 0]);
                   multicast = (drop_bit 8 (g ! 0) = 0xff)
               in \<not> (loopback \<or> unique_local \<or> link_local \<or> unspecified \<or> multicast \<or> special)))"

section \<open>The reserved blocks\<close>

text \<open>
  The same by the number of an address: a block is a number and the length of the prefix that its addresses share. An IPv6 address that embeds an IPv4 address
  goes by that.
\<close>

definition in_block :: "nat \<Rightarrow> nat \<Rightarrow> nat \<times> nat \<Rightarrow> bool" where
  "in_block w v = (\<lambda>(p, n). v div 2 ^ (w - n) = p div 2 ^ (w - n))"

definition dotted :: "nat \<Rightarrow> nat \<Rightarrow> nat \<Rightarrow> nat \<Rightarrow> nat" where
  "dotted a b c d = ((a * 256 + b) * 256 + c) * 256 + d"

definition groups_number :: "nat list \<Rightarrow> nat" where
  "groups_number = foldl (\<lambda>v g. v * 65536 + g) 0"

definition RESERVED4 :: "(nat \<times> nat) list" where
  "RESERVED4 = [(dotted 0 0 0 0, 8), (dotted 10 0 0 0, 8), (dotted 100 64 0 0, 10), (dotted 127 0 0 0, 8), (dotted 169 254 0 0, 16),
     (dotted 172 16 0 0, 12), (dotted 192 0 0 0, 24), (dotted 192 0 2 0, 24), (dotted 192 88 99 0, 24), (dotted 192 168 0 0, 16),
     (dotted 198 18 0 0, 15), (dotted 198 51 100 0, 24), (dotted 203 0 113 0, 24), (dotted 224 0 0 0, 3)]"

definition RESERVED6 :: "(nat \<times> nat) list" where
  "RESERVED6 = [(groups_number [0x64, 0xff9b, 0, 0, 0, 0, 0, 0], 32), (groups_number [0x2001, 0, 0, 0, 0, 0, 0, 0], 32),
     (groups_number [0x2001, 0xdb8, 0, 0, 0, 0, 0, 0], 32), (groups_number [0x2002, 0, 0, 0, 0, 0, 0, 0], 16),
     (groups_number [0xfc00, 0, 0, 0, 0, 0, 0, 0], 7), (groups_number [0xfe80, 0, 0, 0, 0, 0, 0, 0], 10),
     (groups_number [0xff00, 0, 0, 0, 0, 0, 0, 0], 8)]"

definition reserved4 :: "nat \<Rightarrow> bool" where
  "reserved4 v \<longleftrightarrow> list_ex (in_block 32 v) RESERVED4"

definition reserved :: "ip \<Rightarrow> bool" where
  "reserved address = (case address of
     V4 a b c d \<Rightarrow> reserved4 (dotted (unat a) (unat b) (unat c) (unat d))
   | V6 g \<Rightarrow> let v = groups_number (map unat g)
       in if v div 2 ^ 32 = 0 \<or> v div 2 ^ 32 = 0xffff then reserved4 (v mod 2 ^ 32) else list_ex (in_block 128 v) RESERVED6)"

definition well_formed_ip :: "ip \<Rightarrow> bool" where
  "well_formed_ip address = (case address of V4 a b c d \<Rightarrow> True | V6 g \<Rightarrow> length g = 8)"

text \<open>The leading bits of a number put together from digits.\<close>

lemma shift_digit: "r < k \<Longrightarrow> (q * k + r) div k = (q::nat)"
  by simp

lemma digits_eq: "b < k \<Longrightarrow> q < k \<Longrightarrow> a * k + b = p * k + q \<longleftrightarrow> a = p \<and> b = (q::nat)"
  by (metis shift_digit add_left_cancel)

lemma dotted_div:
  assumes "b < 256" "c < 256" "d < 256"
  shows "dotted a b c d div 2 ^ 24 = a" "dotted a b c d div 2 ^ 16 = a * 256 + b" "dotted a b c d div 2 ^ 8 = (a * 256 + b) * 256 + c"
proof -
  show d8: "dotted a b c d div 2 ^ 8 = (a * 256 + b) * 256 + c" using assms by (simp add: dotted_def)
  have "dotted a b c d div 2 ^ 16 = dotted a b c d div 2 ^ 8 div 2 ^ 8" by (simp add: div_mult2_eq [symmetric])
  then show d16: "dotted a b c d div 2 ^ 16 = a * 256 + b" using assms by (simp only: d8) simp
  have "dotted a b c d div 2 ^ 24 = dotted a b c d div 2 ^ 16 div 2 ^ 8" by (simp add: div_mult2_eq [symmetric])
  then show "dotted a b c d div 2 ^ 24 = a" using assms by (simp only: d16) simp
qed

lemma dotted_part:
  assumes "b < 256" "c < 256" "d < 256"
  shows "dotted a b c d div 2 ^ 22 = a * 4 + b div 64" "dotted a b c d div 2 ^ 20 = a * 16 + b div 16" "dotted a b c d div 2 ^ 17 = a * 128 + b div 2"
    "dotted a b c d div 2 ^ 29 = a div 32"
proof -
  have "dotted a b c d div 2 ^ 22 = dotted a b c d div 2 ^ 16 div 64" by (simp add: div_mult2_eq [symmetric])
  also have "\<dots> = (a * 4 * 64 + b) div 64" using dotted_div [OF assms] by simp
  finally show "dotted a b c d div 2 ^ 22 = a * 4 + b div 64" by simp
  have "dotted a b c d div 2 ^ 20 = dotted a b c d div 2 ^ 16 div 16" by (simp add: div_mult2_eq [symmetric])
  also have "\<dots> = (a * 16 * 16 + b) div 16" using dotted_div [OF assms] by simp
  finally show "dotted a b c d div 2 ^ 20 = a * 16 + b div 16" by simp
  have "dotted a b c d div 2 ^ 17 = dotted a b c d div 2 ^ 16 div 2" by (simp add: div_mult2_eq [symmetric])
  also have "\<dots> = (a * 128 * 2 + b) div 2" using dotted_div [OF assms] by simp
  finally show "dotted a b c d div 2 ^ 17 = a * 128 + b div 2" by simp
  have "dotted a b c d div 2 ^ 29 = dotted a b c d div 2 ^ 24 div 32" by (simp add: div_mult2_eq [symmetric])
  then show "dotted a b c d div 2 ^ 29 = a div 32" using dotted_div [OF assms] by simp
qed

lemma reserved4_iff:
  assumes "a < 256" "b < 256" "c < 256" "d < 256"
  shows "reserved4 (dotted a b c d) \<longleftrightarrow>
    a = 0 \<or> a = 10 \<or> (a = 100 \<and> 64 \<le> b \<and> b \<le> 127) \<or> a = 127 \<or> (a = 169 \<and> b = 254) \<or> (a = 172 \<and> 16 \<le> b \<and> b \<le> 31)
    \<or> (a = 192 \<and> b = 0 \<and> c = 0) \<or> (a = 192 \<and> b = 0 \<and> c = 2) \<or> (a = 192 \<and> b = 88 \<and> c = 99) \<or> (a = 192 \<and> b = 168)
    \<or> (a = 198 \<and> 18 \<le> b \<and> b \<le> 19) \<or> (a = 198 \<and> b = 51 \<and> c = 100) \<or> (a = 203 \<and> b = 0 \<and> c = 113) \<or> 224 \<le> a"
proof -
  note d = dotted_div [of b c d a, OF assms(2-4), simplified] dotted_part [of b c d a, OF assms(2-4), simplified]
  have block: "in_block 32 (dotted a b c d) (dotted p q r 0, n) \<longleftrightarrow> dotted a b c d div 2 ^ m = dotted p q r 0 div 2 ^ m" if "32 - n = m" for p q r n m
    using that by (simp only: in_block_def prod.case)
  have l8: "in_block 32 (dotted a b c d) (dotted p 0 0 0, 8) \<longleftrightarrow> a = p" for p
    unfolding block [of 8 24, simplified] d(1) dotted_div(1) [of 0 0 0 p, simplified] ..
  have l16: "in_block 32 (dotted a b c d) (dotted p q 0 0, 16) \<longleftrightarrow> a = p \<and> b = q" if "q < 256" for p q
    unfolding block [of 16 16, simplified] d(2) dotted_div(2) [of q 0 0 p, OF that, simplified] by (rule digits_eq [OF assms(2) that])
  have l24: "in_block 32 (dotted a b c d) (dotted p q r 0, 24) \<longleftrightarrow> a = p \<and> b = q \<and> c = r" if q: "q < 256" and r: "r < 256" for p q r
  proof -
    have "dotted a b c d div 2 ^ 8 = dotted p q r 0 div 2 ^ 8 \<longleftrightarrow> (a * 256 + b) * 256 + c = (p * 256 + q) * 256 + r"
      unfolding dotted_div(3) [OF assms(2-4)] dotted_div(3) [OF q r, of 0 p, OF zero_less_numeral] ..
    also have "\<dots> \<longleftrightarrow> a = p \<and> b = q \<and> c = r" unfolding digits_eq [OF assms(3) r] digits_eq [OF assms(2) q] by blast
    finally show ?thesis using block [of 24 8] by simp
  qed
  have part: "a * k + e = v \<longleftrightarrow> a = v div k \<and> e = v mod k" if "e < k" for e k v :: nat
    using digits_eq [of e k "v mod k" a "v div k"] that by simp
  have l10: "in_block 32 (dotted a b c d) (dotted 100 64 0 0, 10) \<longleftrightarrow> a = 100 \<and> 64 \<le> b \<and> b \<le> 127"
  proof -
    have "b div 64 < 4" "b div 64 = 1 \<longleftrightarrow> 64 \<le> b \<and> b \<le> 127" using assms(2) by linarith+
    then show ?thesis unfolding block [of 10 22, simplified] d(4) dotted_part(1) [of 64 0 0 100, simplified] using part [of "b div 64" 4 401] by simp
  qed
  have l12: "in_block 32 (dotted a b c d) (dotted 172 16 0 0, 12) \<longleftrightarrow> a = 172 \<and> 16 \<le> b \<and> b \<le> 31"
  proof -
    have "b div 16 < 16" "b div 16 = 1 \<longleftrightarrow> 16 \<le> b \<and> b \<le> 31" using assms(2) by linarith+
    then show ?thesis unfolding block [of 12 20, simplified] d(5) dotted_part(2) [of 16 0 0 172, simplified] using part [of "b div 16" 16 2753] by simp
  qed
  have l15: "in_block 32 (dotted a b c d) (dotted 198 18 0 0, 15) \<longleftrightarrow> a = 198 \<and> 18 \<le> b \<and> b \<le> 19"
  proof -
    have "b div 2 < 128" "b div 2 = 9 \<longleftrightarrow> 18 \<le> b \<and> b \<le> 19" using assms(2) by linarith+
    then show ?thesis unfolding block [of 15 17, simplified] d(6) dotted_part(3) [of 18 0 0 198, simplified] using part [of "b div 2" 128 25353] by simp
  qed
  have l3: "in_block 32 (dotted a b c d) (dotted 224 0 0 0, 3) \<longleftrightarrow> 224 \<le> a"
  proof -
    have "a div 32 = 7 \<longleftrightarrow> 224 \<le> a" using assms(1) by linarith
    then show ?thesis unfolding block [of 3 29, simplified] d(7) dotted_part(4) [of 0 0 0 224, simplified] by simp
  qed
  show ?thesis unfolding reserved4_def RESERVED4_def by (simp add: l8 l16 l24 l10 l12 l15 l3 del: One_nat_def)
qed

lemma public_ipv4_reserved: "is_public_ipv4 a b c d \<longleftrightarrow> \<not> reserved4 (dotted (unat a) (unat b) (unat c) (unat d))"
proof -
  have bound: "unat (x :: 8 word) < 256" for x using unsigned_less [of x] by simp
  show ?thesis
    unfolding is_public_ipv4_def Let_def reserved4_iff [OF bound bound bound bound]
    by (simp add: word_unat_eq_iff word_le_nat_alt) (intro iffI; elim conjE; intro conjI; (assumption | simp))
qed

text \<open>The leading groups of an IPv6 address.\<close>

lemma groups_number_div:
  fixes gs :: "nat list"
  assumes "\<forall>g\<in>set gs. g < 65536"
  shows "foldl (\<lambda>v g. v * 65536 + g) v gs div 65536 ^ length gs = v"
  using assms
proof (induction gs rule: rev_induct)
  case (snoc g gs)
  let ?v = "foldl (\<lambda>v g. v * 65536 + g) v gs"
  have "foldl (\<lambda>v g. v * 65536 + g) v (gs @ [g]) div 65536 ^ length (gs @ [g]) = (?v * 65536 + g) div (65536 * 65536 ^ length gs)"
    by simp
  also have "\<dots> = (?v * 65536 + g) div 65536 div 65536 ^ length gs" by (rule div_mult2_eq)
  also have "\<dots> = ?v div 65536 ^ length gs" using snoc.prems shift_digit [of g 65536 ?v] by simp
  also have "\<dots> = v" using snoc by simp
  finally show ?case .
qed simp

lemma groups_number_take: "\<forall>g\<in>set gs. g < 65536 \<Longrightarrow> n \<le> length gs \<Longrightarrow> groups_number gs div 2 ^ (16 * (length gs - n)) = groups_number (take n gs)"
proof -
  assume b: "\<forall>g\<in>set gs. g < 65536" and n: "n \<le> length gs"
  have "groups_number gs = foldl (\<lambda>v g. v * 65536 + g) (groups_number (take n gs)) (drop n gs)"
    unfolding groups_number_def by (metis append_take_drop_id foldl_append)
  moreover have "\<forall>g\<in>set (drop n gs). g < 65536" using b by (meson in_set_dropD)
  ultimately show ?thesis using groups_number_div [of "drop n gs"] n by (simp add: power_mult)
qed

lemma groups_number_inj:
  "length gs = length hs \<Longrightarrow> \<forall>g\<in>set gs. g < 65536 \<Longrightarrow> \<forall>g\<in>set hs. g < 65536 \<Longrightarrow> groups_number gs = groups_number hs \<longleftrightarrow> gs = hs"
proof (induction gs arbitrary: hs rule: rev_induct)
  case (snoc g gs)
  then obtain hs' h where hs: "hs = hs' @ [h]" by (cases hs rule: rev_cases) auto
  have "groups_number (gs @ [g]) = groups_number hs \<longleftrightarrow> groups_number gs = groups_number hs' \<and> g = h"
    using digits_eq [of g 65536 h "groups_number gs" "groups_number hs'"] snoc.prems by (simp add: groups_number_def hs)
  also have "\<dots> \<longleftrightarrow> gs @ [g] = hs" using snoc by (simp add: hs)
  finally show ?case .
qed simp

lemma group_small: "unat (w :: 16 word) < 65536"
  using unsigned_less [of w] by simp

lemma group_octets:
  fixes w :: "16 word"
  shows "unat (ucast (drop_bit 8 w) :: 8 word) = unat w div 256" "unat (ucast w :: 8 word) = unat w mod 256"
proof -
  have "unat w div 256 < 256" using group_small [of w] by linarith
  then show "unat (ucast (drop_bit 8 w) :: 8 word) = unat w div 256"
    by (simp only: unsigned_ucast_eq unat_drop_bit_eq drop_bit_nat_def) (simp add: take_bit_eq_mod)
  show "unat (ucast w :: 8 word) = unat w mod 256" by (simp add: unsigned_ucast_eq take_bit_eq_mod)
qed

lemma embedded_octets:
  fixes s t :: "16 word"
  shows "dotted (unat (ucast (drop_bit 8 s) :: 8 word)) (unat (ucast s :: 8 word)) (unat (ucast (drop_bit 8 t) :: 8 word)) (unat (ucast t :: 8 word))
    = unat s * 65536 + unat t"
proof -
  have "(unat w div 256) * 256 + unat w mod 256 = unat w" for w :: "16 word" by simp
  then show ?thesis unfolding dotted_def group_octets(1) [of s] group_octets(1) [of t] group_octets(2) [of s] group_octets(2) [of t] by (simp add: algebra_simps)
qed

lemma high_bits:
  fixes s k :: "16 word"
  assumes "k = push_bit n (drop_bit n k)"
  shows "s AND NOT (mask n) = k \<longleftrightarrow> unat s div 2 ^ n = unat k div 2 ^ n"
proof -
  have c: "s AND NOT (mask n) = push_bit n (drop_bit n s)" by (rule bit_word_eqI) (auto simp: bit_simps)
  have d: "drop_bit n (push_bit n (drop_bit n w)) = drop_bit n w" for w :: "16 word"
    by (rule bit_word_eqI) (auto simp: bit_simps dest: bit_imp_le_length)
  have "s AND NOT (mask n) = k \<longleftrightarrow> drop_bit n s = drop_bit n k" unfolding c using assms d by metis
  also have "\<dots> \<longleftrightarrow> unat s div 2 ^ n = unat k div 2 ^ n" by (simp only: word_unat_eq_iff unat_drop_bit_eq drop_bit_nat_def)
  finally show ?thesis .
qed

lemma masked_bits:
  fixes s :: "16 word"
  shows "s AND 0xfe00 = 0xfc00 \<longleftrightarrow> unat s div 2 ^ 9 = 126" "s AND 0xffc0 = 0xfe80 \<longleftrightarrow> unat s div 2 ^ 6 = 1018"
    "drop_bit 8 s = 0xff \<longleftrightarrow> unat s div 2 ^ 8 = 255"
proof -
  have m: "(NOT (mask 9) :: 16 word) = 0xfe00" "(NOT (mask 6) :: 16 word) = 0xffc0" by code_simp+
  show "s AND 0xfe00 = 0xfc00 \<longleftrightarrow> unat s div 2 ^ 9 = 126" using high_bits [of "0xfc00" 9 s] unfolding m by simp
  show "s AND 0xffc0 = 0xfe80 \<longleftrightarrow> unat s div 2 ^ 6 = 1018" using high_bits [of "0xfe80" 6 s] unfolding m by simp
  show "drop_bit 8 s = 0xff \<longleftrightarrow> unat s div 2 ^ 8 = 255" by (simp only: word_unat_eq_iff unat_drop_bit_eq drop_bit_nat_def) simp
qed

lemma public_ipv6_reserved:
  assumes "length g = 8"
  shows "is_public_address (V6 g) \<longleftrightarrow> \<not> reserved (V6 g)"
proof -
  obtain a b c d e f s t where g: "g = [a, b, c, d, e, f, s, t]"
    using assms by (auto simp: numeral_eq_Suc length_Suc_conv)
  let ?gs = "map unat g" let ?v = "groups_number ?gs"
  have b: "\<forall>n\<in>set ?gs. n < 65536" using group_small by auto
  have lead: "?v div 2 ^ (16 * (8 - n)) = groups_number (take n ?gs)" if "n \<le> 8" for n
    using groups_number_take [OF b, of n] that assms by simp
  have six: "?v div 2 ^ 32 = groups_number (take 6 ?gs)" using lead [of 6] by simp
  have zero: "?v div 2 ^ 32 = 0 \<longleftrightarrow> take 6 ?gs = [0, 0, 0, 0, 0, 0]"
    using groups_number_inj [of "take 6 ?gs" "[0, 0, 0, 0, 0, 0]"] b assms group_small unfolding six by (simp add: groups_number_def g)
  have mapped: "?v div 2 ^ 32 = 0xffff \<longleftrightarrow> take 6 ?gs = [0, 0, 0, 0, 0, 65535]"
    using groups_number_inj [of "take 6 ?gs" "[0, 0, 0, 0, 0, 65535]"] b assms group_small unfolding six by (simp add: groups_number_def g)
  have embedded: "to_ipv4 g \<noteq> None \<longleftrightarrow> ?v div 2 ^ 32 = 0 \<or> ?v div 2 ^ 32 = 0xffff"
    unfolding zero mapped by (simp add: to_ipv4_def g word_unat_eq_iff) blast
  show ?thesis
  proof (cases "to_ipv4 g")
    case (Some q)
    have "?v = groups_number (take 6 ?gs) * 2 ^ 32 + (unat s * 65536 + unat t)" by (simp add: groups_number_def g algebra_simps)
    moreover have "unat s * 65536 + unat t < 2 ^ 32" using group_small [of s] group_small [of t] by simp
    ultimately have "?v mod 2 ^ 32 = unat s * 65536 + unat t" by simp
    then have "?v mod 2 ^ 32 = dotted (unat (ucast (drop_bit 8 s) :: 8 word)) (unat (ucast s :: 8 word)) (unat (ucast (drop_bit 8 t) :: 8 word)) (unat (ucast t :: 8 word))"
      by (simp only: embedded_octets)
    moreover have "q = (ucast (drop_bit 8 s), ucast s, ucast (drop_bit 8 t), ucast t)" using Some by (simp add: to_ipv4_def g split: if_splits)
    ultimately show ?thesis
      using Some embedded public_ipv4_reserved unfolding is_public_address_def reserved_def Let_def ip.case Some option.case by simp
  next
    case None
    have one: "?v div 2 ^ 112 = unat a" using lead [of 1] by (simp add: g groups_number_def)
    have two: "?v div 2 ^ 96 = unat a * 65536 + unat b" using lead [of 2] by (simp add: g groups_number_def take_Cons')
    have part: "?v div 2 ^ (112 + n) = unat a div 2 ^ n" for n unfolding one [symmetric] by (simp add: div_mult2_eq power_add)
    have b32: "in_block 128 ?v (groups_number [x, y, 0, 0, 0, 0, 0, 0], 32) \<longleftrightarrow> unat a = x \<and> unat b = y" if "y < 65536" for x y
    proof -
      have "groups_number [x, y, 0, 0, 0, 0, 0, 0] div 2 ^ 96 = x * 65536 + y" by (simp add: groups_number_def)
      then show ?thesis using two digits_eq [OF group_small that, of "unat a" b x] by (simp add: in_block_def)
    qed
    have b16: "in_block 128 ?v (groups_number [0x2002, 0, 0, 0, 0, 0, 0, 0], 16) \<longleftrightarrow> unat a = 0x2002"
      using one by (simp add: in_block_def groups_number_def)
    have b7: "in_block 128 ?v (groups_number [0xfc00, 0, 0, 0, 0, 0, 0, 0], 7) \<longleftrightarrow> unat a div 2 ^ 9 = 126"
      using part [of 9] by (simp add: in_block_def groups_number_def)
    have b10: "in_block 128 ?v (groups_number [0xfe80, 0, 0, 0, 0, 0, 0, 0], 10) \<longleftrightarrow> unat a div 2 ^ 6 = 1018"
      using part [of 6] by (simp add: in_block_def groups_number_def)
    have b8: "in_block 128 ?v (groups_number [0xff00, 0, 0, 0, 0, 0, 0, 0], 8) \<longleftrightarrow> unat a div 2 ^ 8 = 255"
      using part [of 8] by (simp add: in_block_def groups_number_def)
    have reserved: "reserved (V6 g) \<longleftrightarrow> list_ex (in_block 128 ?v) RESERVED6"
      using None embedded by (simp only: reserved_def Let_def ip.case) simp
    have blocks: "list_ex (in_block 128 ?v) RESERVED6 \<longleftrightarrow>
        (unat a = 0x64 \<and> unat b = 0xff9b) \<or> (unat a = 0x2001 \<and> unat b = 0) \<or> (unat a = 0x2001 \<and> unat b = 0xdb8) \<or> unat a = 0x2002
        \<or> unat a div 2 ^ 9 = 126 \<or> unat a div 2 ^ 6 = 1018 \<or> unat a div 2 ^ 8 = 255"
      using b32 [of "0xff9b" "0x64"] b32 [of 0 "0x2001"] b32 [of "0xdb8" "0x2001"] by (simp add: RESERVED6_def b16 b7 b10 b8)
    have special: "g \<noteq> [0, 0, 0, 0, 0, 0, 0, 1]" "g \<noteq> [0, 0, 0, 0, 0, 0, 0, 0]" using None by (auto simp: to_ipv4_def)
    have words: "a = 0x64 \<longleftrightarrow> unat a = 0x64" "b = 0xff9b \<longleftrightarrow> unat b = 0xff9b" "a = 0x2001 \<longleftrightarrow> unat a = 0x2001" "b = 0 \<longleftrightarrow> unat b = 0"
      "b = 0x0db8 \<longleftrightarrow> unat b = 0xdb8" "a = 0x2002 \<longleftrightarrow> unat a = 0x2002"
      by (simp_all add: word_unat_eq_iff)
    have nth: "g ! 0 = a" "g ! 1 = b" by (simp_all add: g)
    show ?thesis
      unfolding reserved blocks is_public_address_def ip.case None option.case Let_def nth masked_bits words using special by blast
  qed
qed

lemma public_iff_unreserved: "well_formed_ip address \<Longrightarrow> is_public_address address \<longleftrightarrow> \<not> reserved address"
  using public_ipv6_reserved public_ipv4_reserved
  by (cases address) (simp_all add: well_formed_ip_def is_public_address_def reserved_def)

lemma read_groups_length: "read_groups n i s = (gs, v4, t) \<Longrightarrow> length gs \<le> n"
proof (induction n arbitrary: i s gs v4 t)
  case (Suc n)
  show ?case
  proof (cases "if 0 < n then read_after_colon i read_ipv4 s else None")
    case None
    show ?thesis
    proof (cases "read_after_colon i (read_number hex_value 16 4 65535 True) s")
      case none: None
      with None Suc.prems show ?thesis by auto
    next
      case (Some r)
      obtain g u where r: "r = (g, u)" by (cases r)
      obtain hs w x where hs: "read_groups n (i + 1) u = (hs, w, x)" by (cases "read_groups n (i + 1) u") auto
      with Suc.IH [OF hs] None Some r Suc.prems show ?thesis by auto
    qed
  next
    case (Some r)
    then show ?thesis using Suc.prems by (auto split: if_splits prod.splits)
  qed
qed simp

lemma parse_ip_well_formed: "parse_ip s = Some address \<Longrightarrow> well_formed_ip address"
proof -
  assume a: "parse_ip s = Some address"
  show ?thesis
  proof (cases "read_ipv4 s")
    case (Some r)
    with a show ?thesis by (auto simp: parse_ip_def well_formed_ip_def split: if_splits prod.splits)
  next
    case None
    with a obtain gs where gs: "read_ipv6 s = Some (gs, [])" "address = V6 (map of_nat gs)" by (auto simp: parse_ip_def split: option.splits list.splits prod.splits)
    obtain head v4 t where h: "read_groups 8 0 s = (head, v4, t)" by (cases "read_groups 8 0 s") auto
    have "length gs = 8"
    proof (cases "length head = 8")
      case True
      with gs(1) h show ?thesis by (simp add: read_ipv6_def)
    next
      case False
      then obtain u where u: "gs = head @ replicate (8 - length head - length (fst (read_groups (8 - (length head + 1)) 0 u))) 0 @ fst (read_groups (8 - (length head + 1)) 0 u)"
        using gs(1) h by (auto simp: read_ipv6_def bind_eq_Some_conv case_prod_beta split: if_splits)
      obtain tail w x where tail: "read_groups (8 - (length head + 1)) 0 u = (tail, w, x)" by (cases "read_groups (8 - (length head + 1)) 0 u") auto
      then have "length tail \<le> 8 - (length head + 1)" by (rule read_groups_length)
      moreover have "length head \<le> 8" using h by (rule read_groups_length)
      ultimately show ?thesis using False u tail by simp
    qed
    with gs(2) show ?thesis by (simp add: well_formed_ip_def)
  qed
qed

end
