(* ===== verification/Host_Policy.thy ===== *)
theory Host_Policy
  imports Host_Address Utf8 "HOL-Library.List_Lexorder"
begin

text \<open>
  The policy of the headless host (\<open>HeadlessPolicy\<close> in \<^verbatim>\<open>src/apps/chuzz/src/serve.rs\<close>): how it is read from the environment, which
  pages it admits, and the addresses that its egress filter may connect to for a request. The URL parser and the resolver of the system are fields of
  \<open>host_env\<close>; a URL is the record of the accessors that the code calls. Environment variables are a function; their inner \<open>None\<close> is a value that is not UTF-8.
\<close>

section \<open>What the code calls\<close>

record host_url =
  hu_scheme :: str
  hu_username :: str
  hu_password :: "str option"
  hu_host :: "str option"
  hu_is_domain :: bool
  hu_port :: "nat option"
  hu_known_port :: "nat option"

record host_env =
  he_var :: "str \<Rightarrow> str option option"
  he_parse :: "str \<Rightarrow> host_url option"
  he_resolve :: "str \<Rightarrow> nat \<Rightarrow> (ip \<times> nat) list option"

definition optional_env :: "host_env \<Rightarrow> str \<Rightarrow> str + str option" where
  "optional_env e variable =
     (case he_var e variable of
        None \<Rightarrow> Inr None
      | Some None \<Rightarrow> Inl (variable @ S '' is not valid UTF-8'')
      | Some (Some v) \<Rightarrow> Inr (Some v))"

section \<open>The policy\<close>

text \<open>Times are in milliseconds.\<close>

definition BOT_CHILD_MAX_WALL_TIME :: nat where "BOT_CHILD_MAX_WALL_TIME = 20000"

definition BOT_CHILD_MAX_VIEWPORT_WIDTH :: nat where "BOT_CHILD_MAX_VIEWPORT_WIDTH = 1600"

definition BOT_CHILD_MAX_VIEWPORT_HEIGHT :: nat where "BOT_CHILD_MAX_VIEWPORT_HEIGHT = 1000"

definition BOT_CHILD_MAX_VIEWPORT_PIXELS :: nat where "BOT_CHILD_MAX_VIEWPORT_PIXELS = 1500000"

record headless_policy =
  bot_child :: bool
  allowed_domains :: "str list"
  allow_form_submit :: bool
  wall_time :: nat

definition parse_bool_env :: "host_env \<Rightarrow> str \<Rightarrow> bool \<Rightarrow> str + bool" where
  "parse_bool_env e variable default_value =
     and_then (optional_env e variable) (\<lambda>v. case v of
        None \<Rightarrow> Inr default_value
      | Some v \<Rightarrow>
          let w = ascii_lower (trim v)
          in if w \<in> {S ''1'', S ''true'', S ''yes''} then Inr True
             else if w \<in> {S ''0'', S ''false'', S ''no''} then Inr False
             else Inl (variable @ S '' must be a boolean value''))"

definition parse_wall_time :: "str option \<Rightarrow> str + nat" where
  "parse_wall_time v =
     (case v of
        None \<Rightarrow> Inr BOT_CHILD_MAX_WALL_TIME
      | Some v \<Rightarrow>
          (case parse_uint u64_max v of
             Some ms \<Rightarrow>
               if ms = 0 then Inl (S ''CHUZZ_HEADLESS_WALL_TIMEOUT_MS must be a positive integer'')
               else if BOT_CHILD_MAX_WALL_TIME < ms
               then Inl (S ''CHUZZ_HEADLESS_WALL_TIMEOUT_MS cannot exceed '' @ dec BOT_CHILD_MAX_WALL_TIME @ S ''ms'')
               else Inr ms
           | None \<Rightarrow> Inl (S ''CHUZZ_HEADLESS_WALL_TIMEOUT_MS must be a positive integer'')))"

definition dns_label :: "str \<Rightarrow> bool" where
  "dns_label l \<longleftrightarrow> l \<noteq> [] \<and> utf8_len l \<le> 63 \<and> is_ascii_alphanumeric (hd l) \<and> is_ascii_alphanumeric (last l)
     \<and> list_all (\<lambda>c. is_ascii_alphanumeric c \<or> c = 45) l"

definition is_dns_hostname :: "str \<Rightarrow> bool" where
  "is_dns_hostname host \<longleftrightarrow> utf8_len host \<le> 253 \<and> 2 \<le> length (split_on 46 host) \<and> list_all dns_label (split_on 46 host)"

definition domain_is_allowed :: "str \<Rightarrow> str list \<Rightarrow> bool" where
  "domain_is_allowed host domains \<longleftrightarrow>
     domains = [] \<or> list_ex (\<lambda>domain. host = domain \<or> (ends_with host domain \<and> ends_with (take (length host - length domain) host) [46])) domains"

definition is_local_hostname :: "str \<Rightarrow> bool" where
  "is_local_hostname host \<longleftrightarrow> host = S ''localhost'' \<or> ends_with host (S ''.localhost'') \<or> ends_with host (S ''.local'')
     \<or> ends_with host (S ''.internal'') \<or> ends_with host (S ''.lan'')"

definition allowed_domain :: "host_env \<Rightarrow> str \<Rightarrow> str + str" where
  "allowed_domain e raw =
     (let normalized = ascii_lower raw
      in case he_parse e (S ''https://'' @ normalized @ S ''/'') of
           None \<Rightarrow> Inl (S ''CHUZZ_HEADLESS_ALLOWED_DOMAINS contains an invalid host'')
         | Some parsed \<Rightarrow>
             if hu_host parsed \<noteq> Some normalized \<or> hu_port parsed \<noteq> None \<or> \<not> hu_is_domain parsed \<or> is_local_hostname normalized
                \<or> \<not> is_dns_hostname normalized
             then Inl (S ''CHUZZ_HEADLESS_ALLOWED_DOMAINS must contain DNS hostnames only'') else Inr normalized)"

definition parse_allowed_domains :: "host_env \<Rightarrow> str option \<Rightarrow> str + str list" where
  "parse_allowed_domains e v =
     (case v of
        None \<Rightarrow> Inr []
      | Some v \<Rightarrow> and_then (collect_results (allowed_domain e) (filter (\<lambda>w. w \<noteq> []) (map trim (split_on 44 v)))) (\<lambda>ds. Inr (remdups_adj (sort ds))))"

definition from_env :: "host_env \<Rightarrow> str + headless_policy" where
  "from_env e =
     and_then (optional_env e (S ''CHUZZ_HEADLESS_MODE'')) (\<lambda>mode.
       let mode = trim (case mode of None \<Rightarrow> S ''qa'' | Some m \<Rightarrow> m)
       in if mode = S ''qa'' then Inr \<lparr>bot_child = False, allowed_domains = [], allow_form_submit = False, wall_time = 0\<rparr>
          else if mode = S ''bot''
          then and_then (optional_env e (S ''CHUZZ_HEADLESS_ALLOWED_DOMAINS'')) (\<lambda>domains.
               and_then (parse_allowed_domains e domains) (\<lambda>domains.
               and_then (parse_bool_env e (S ''CHUZZ_HEADLESS_ALLOW_FORM_SUBMIT'') False) (\<lambda>submit.
               and_then (optional_env e (S ''CHUZZ_HEADLESS_WALL_TIMEOUT_MS'')) (\<lambda>timeout.
               and_then (parse_wall_time timeout) (\<lambda>wall.
                 Inr \<lparr>bot_child = True, allowed_domains = domains, allow_form_submit = submit, wall_time = wall\<rparr>)))))
          else Inl (S ''CHUZZ_HEADLESS_MODE must be either qa or bot''))"

section \<open>Pages and addresses\<close>

definition trim_end_dots :: "str \<Rightarrow> str" where
  "trim_end_dots s = rev (dropWhile (\<lambda>c. c = 46) (rev s))"

definition resolve_public_addresses :: "host_env \<Rightarrow> headless_policy \<Rightarrow> host_url \<Rightarrow> str + (ip \<times> nat) list" where
  "resolve_public_addresses e p url =
     (if hu_scheme url \<noteq> S ''https'' then Inl (S ''only HTTPS navigation is allowed in bot mode'')
      else if hu_username url \<noteq> [] \<or> hu_password url \<noteq> None then Inl (S ''URLs with credentials are not allowed in bot mode'')
      else and_then (ok_or (hu_host url) (S ''the URL has no host'')) (\<lambda>host.
        let host = ascii_lower (trim_end_dots host)
        in if host = [] \<or> is_local_hostname host then Inl (S ''local hostnames are not allowed in bot mode'')
           else if \<not> domain_is_allowed host (allowed_domains p) then Inl (S ''the URL host is outside the configured allowlist'')
           else and_then (ok_or (hu_known_port url) (S ''the URL has no known port'')) (\<lambda>port.
             case parse_ip host of
               Some address \<Rightarrow>
                 if \<not> is_public_address address then Inl (S ''local and non-public IP addresses are not allowed'') else Inr [(address, port)]
             | None \<Rightarrow>
                 and_then (ok_or (he_resolve e host port) (S ''the URL host could not be resolved'')) (\<lambda>addresses.
                   if addresses = [] \<or> list_ex (\<lambda>(address, _). \<not> is_public_address address) addresses
                   then Inl (S ''the URL host does not resolve exclusively to public IP addresses'') else Inr addresses))))"

definition validate_url :: "host_env \<Rightarrow> headless_policy \<Rightarrow> host_url \<Rightarrow> str + unit" where
  "validate_url e p url = (if \<not> bot_child p then Inr () else and_then (resolve_public_addresses e p url) (\<lambda>_. Inr ()))"

datatype target = Directory str | File str str | Page host_url

definition validate_target :: "host_env \<Rightarrow> headless_policy \<Rightarrow> target \<Rightarrow> str + unit" where
  "validate_target e p t =
     (if \<not> bot_child p then Inr ()
      else case t of
             Page url \<Rightarrow> (case validate_url e p url of Inl _ \<Rightarrow> Inl (S ''bot mode requires a public HTTPS page URL'') | Inr u \<Rightarrow> Inr u)
           | _ \<Rightarrow> Inl (S ''bot mode accepts one public HTTPS page URL''))"

definition dimension :: "host_env \<Rightarrow> (str \<Rightarrow> str) \<Rightarrow> str \<Rightarrow> nat \<Rightarrow> str + nat" where
  "dimension e debug variable default_value =
     and_then (optional_env e variable) (\<lambda>v. case v of
        None \<Rightarrow> Inr default_value
      | Some text \<Rightarrow>
          (case parse_uint 4294967295 text of
             Some n \<Rightarrow> if 0 < n then Inr n else Inl (variable @ S '' must be a positive integer, got '' @ debug text)
           | None \<Rightarrow> Inl (variable @ S '' must be a positive integer, got '' @ debug text)))"

definition view_dimensions :: "host_env \<Rightarrow> (str \<Rightarrow> str) \<Rightarrow> headless_policy \<Rightarrow> str + nat \<times> nat" where
  "view_dimensions e debug p =
     and_then (dimension e debug (S ''QA_HOST_WIDTH'') 1344) (\<lambda>width.
     and_then (dimension e debug (S ''QA_HOST_HEIGHT'') 900) (\<lambda>height.
       if bot_child p \<and> (BOT_CHILD_MAX_VIEWPORT_WIDTH < width \<or> BOT_CHILD_MAX_VIEWPORT_HEIGHT < height \<or> BOT_CHILD_MAX_VIEWPORT_PIXELS < width * height)
       then Inl (S ''bot viewport exceeds the '' @ dec BOT_CHILD_MAX_VIEWPORT_WIDTH @ S ''x'' @ dec BOT_CHILD_MAX_VIEWPORT_HEIGHT @ S '' and ''
                 @ dec BOT_CHILD_MAX_VIEWPORT_PIXELS @ S ''-pixel limits'')
       else Inr (width, height)))"

section \<open>The egress filter\<close>

definition MAX_PROXY_HEADER_BYTES :: nat where "MAX_PROXY_HEADER_BYTES = 16 * 1024"

definition is_ascii_whitespace :: "nat \<Rightarrow> bool" where
  "is_ascii_whitespace c \<longleftrightarrow> c = 9 \<or> c = 10 \<or> c = 12 \<or> c = 13 \<or> c = 32"

definition proxy_connect_url :: "host_env \<Rightarrow> str \<Rightarrow> host_url option" where
  "proxy_connect_url e request =
     (case lines_of request of
        [] \<Rightarrow> None
      | line # _ \<Rightarrow>
          (case filter (\<lambda>w. w \<noteq> []) (split_by is_ascii_whitespace line) of
             verb # authority # _ \<Rightarrow> if verb \<noteq> S ''CONNECT'' then None else he_parse e (S ''https://'' @ authority @ S ''/'')
           | _ \<Rightarrow> None))"

text \<open>\<open>read_head\<close>, on the bytes that the client sends before it stops or fails.\<close>

fun read_bytes :: "bytes \<Rightarrow> bytes \<Rightarrow> bytes option" where
  "read_bytes head incoming =
     (if drop (length head - 4) head = [13, 10, 13, 10] then Some head
      else if MAX_PROXY_HEADER_BYTES \<le> length head then None
      else case incoming of [] \<Rightarrow> None | b # rest \<Rightarrow> read_bytes (head @ [b]) rest)"

definition read_head :: "bytes \<Rightarrow> str option" where
  "read_head incoming = Option.bind (read_bytes [] incoming) from_utf8"

text \<open>What a connection does, in order: addresses it tries, then the tunnel to the one that answered, or a refusal.\<close>

datatype egress = Refused str | Connecting ip nat | Established ip nat

fun connect_first :: "(ip \<Rightarrow> nat \<Rightarrow> bool) \<Rightarrow> (ip \<times> nat) list \<Rightarrow> egress list" where
  "connect_first answers [] = [Refused (S ''502 Bad Gateway'')]"
| "connect_first answers ((a, port) # rest) =
     Connecting a port # (if answers a port then [Established a port] else connect_first answers rest)"

text \<open>\<open>in_time\<close> says whether the head of the request came within its two seconds.\<close>

definition handle_connection :: "host_env \<Rightarrow> headless_policy \<Rightarrow> (ip \<Rightarrow> nat \<Rightarrow> bool) \<Rightarrow> bool \<Rightarrow> bytes \<Rightarrow> egress list" where
  "handle_connection e p answers in_time incoming =
     (case (if in_time then read_head incoming else None) of
        None \<Rightarrow> []
      | Some head \<Rightarrow>
          (case proxy_connect_url e head of
             None \<Rightarrow> [Refused (S ''403 Forbidden'')]
           | Some url \<Rightarrow>
               (case resolve_public_addresses e p url of
                  Inl _ \<Rightarrow> [Refused (S ''403 Forbidden'')]
                | Inr addresses \<Rightarrow> connect_first answers addresses)))"

end
