(* ===== verification/Host_Egress.thy ===== *)
theory Host_Egress
  imports Host_Policy
begin

text \<open>
  The private egress filter of the headless host while it relays (\<open>EgressProxy\<close>, \<open>Relay\<close> and \<open>tunnel\<close> in
  \<^verbatim>\<open>src/apps/chuzz/src/serve_egress.rs\<close>, \<open>reserve_proxy_bytes\<close> in \<^verbatim>\<open>src/apps/chuzz/src/serve.rs\<close>). Connections run
  concurrently and share one counter of relayed bytes, so a move is one atomic piece of one connection: an accept, a poll of a socket, a load of the counter or a
  compare-exchange on it. \<open>ry_read\<close> and \<open>ry_sent\<close> record what a direction has taken from its reader and given to its writer.
\<close>

section \<open>State\<close>

definition MAX_PROXY_CONNECTIONS :: nat where "MAX_PROXY_CONNECTIONS = 16"

definition MAX_PROXY_BYTES :: nat where "MAX_PROXY_BYTES = 32 * 1024 * 1024"

text \<open>Between two polls, or in the loop of \<open>reserve_proxy_bytes\<close> for so many bytes, before the load or between the load and the exchange.\<close>

datatype reserving = Polling | Loading nat | Exchanging nat nat

record relay =
  ry_buffer :: bytes
  ry_length :: nat
  ry_written :: nat
  ry_ended :: bool
  ry_failed :: bool
  ry_exhausted :: bool
  ry_reserving :: reserving
  ry_read :: bytes
  ry_sent :: bytes

definition new_relay :: relay where
  "new_relay = \<lparr>ry_buffer = replicate 8192 0, ry_length = 0, ry_written = 0, ry_ended = False, ry_failed = False, ry_exhausted = False, ry_reserving = Polling,
     ry_read = [], ry_sent = []\<rparr>"

text \<open>The two directions of a connection, and whether its task is over. A refused connection never gets a tunnel.\<close>

record connection =
  cn_sending :: relay
  cn_receiving :: relay
  cn_tunnel :: bool
  cn_finished :: bool

record proxy =
  px_transferred :: nat
  px_active :: nat
  px_connections :: "connection list"
  px_refused :: nat

definition idle_proxy :: proxy where
  "idle_proxy = \<lparr>px_transferred = 0, px_active = 0, px_connections = [], px_refused = 0\<rparr>"

section \<open>One direction\<close>

datatype read_poll = Read_Pending | Read_Failed | Read_Bytes bytes

datatype write_poll = Write_Pending | Write_Failed | Wrote nat

definition write_turn :: "write_poll \<Rightarrow> relay \<Rightarrow> relay" where
  "write_turn w r =
     (case w of
        Write_Pending \<Rightarrow> r
      | Write_Failed \<Rightarrow> r\<lparr>ry_failed := True\<rparr>
      | Wrote n \<Rightarrow> if n = 0 then r\<lparr>ry_failed := True\<rparr>
          else r\<lparr>ry_written := ry_written r + n, ry_sent := ry_sent r @ take n (drop (ry_written r) (ry_buffer r))\<rparr>)"

definition overwrite :: "bytes \<Rightarrow> bytes \<Rightarrow> bytes" where
  "overwrite bs buffer = bs @ drop (length bs) buffer"

definition read_turn :: "read_poll \<Rightarrow> relay \<Rightarrow> relay" where
  "read_turn p r =
     (if ry_exhausted r then r\<lparr>ry_failed := True\<rparr>
      else case p of
             Read_Pending \<Rightarrow> r
           | Read_Failed \<Rightarrow> r\<lparr>ry_failed := True\<rparr>
           | Read_Bytes bs \<Rightarrow>
               if bs = [] then r\<lparr>ry_ended := True\<rparr>
               else r\<lparr>ry_buffer := overwrite bs (ry_buffer r), ry_reserving := Loading (length bs), ry_read := ry_read r @ bs\<rparr>)"

text \<open>A turn of the loop in \<open>Relay::step\<close>. The sockets write no more than they are given and read no more than the buffer holds.\<close>

definition poll_relay :: "read_poll \<Rightarrow> write_poll \<Rightarrow> relay \<Rightarrow> relay" where
  "poll_relay p w r =
     (if ry_failed r \<or> ry_ended r \<or> ry_reserving r \<noteq> Polling then r
      else if ry_written r < ry_length r then write_turn w r else read_turn p r)"

definition polls_fit :: "read_poll \<Rightarrow> write_poll \<Rightarrow> relay \<Rightarrow> bool" where
  "polls_fit p w r \<longleftrightarrow> (case p of Read_Bytes bs \<Rightarrow> length bs \<le> 8192 | _ \<Rightarrow> True) \<and> (case w of Wrote n \<Rightarrow> n \<le> ry_length r - ry_written r | _ \<Rightarrow> True)"

definition reserved_bytes :: "nat \<Rightarrow> nat \<Rightarrow> relay \<Rightarrow> relay" where
  "reserved_bytes allowed requested r = r\<lparr>ry_length := allowed, ry_written := 0, ry_exhausted := allowed < requested, ry_reserving := Polling\<rparr>"

definition load_counter :: "nat \<Rightarrow> relay \<Rightarrow> relay" where
  "load_counter transferred r =
     (case ry_reserving r of
        Loading requested \<Rightarrow>
          if MAX_PROXY_BYTES \<le> transferred then reserved_bytes 0 requested r else r\<lparr>ry_reserving := Exchanging requested transferred\<rparr>
      | _ \<Rightarrow> r)"

text \<open>The weak exchange may fail although the counter is as it was loaded.\<close>

definition exchange_counter :: "bool \<Rightarrow> nat \<Rightarrow> relay \<Rightarrow> nat \<times> relay" where
  "exchange_counter spurious transferred r =
     (case ry_reserving r of
        Exchanging requested current \<Rightarrow>
          let allowed = min requested (MAX_PROXY_BYTES - current)
          in if transferred = current \<and> \<not> spurious then (current + allowed, reserved_bytes allowed requested r)
             else (transferred, r\<lparr>ry_reserving := Loading requested\<rparr>)
      | _ \<Rightarrow> (transferred, r))"

section \<open>The proxy\<close>

datatype side = Sending | Receiving

definition relay_of :: "side \<Rightarrow> connection \<Rightarrow> relay" where
  "relay_of d c = (case d of Sending \<Rightarrow> cn_sending c | Receiving \<Rightarrow> cn_receiving c)"

definition put_relay :: "side \<Rightarrow> relay \<Rightarrow> connection \<Rightarrow> connection" where
  "put_relay d r c = (case d of Sending \<Rightarrow> c\<lparr>cn_sending := r\<rparr> | Receiving \<Rightarrow> c\<lparr>cn_receiving := r\<rparr>)"

datatype turn =
    Accept
  | Tunnel nat
  | Poll nat side read_poll write_poll
  | Load nat side
  | Exchange nat side bool
  | Finish nat

definition update_connection :: "nat \<Rightarrow> connection \<Rightarrow> proxy \<Rightarrow> proxy" where
  "update_connection k c s = s\<lparr>px_connections := (px_connections s)[k := c]\<rparr>"

definition finish_connection :: "nat \<Rightarrow> proxy \<Rightarrow> proxy" where
  "finish_connection k s =
     (let c = px_connections s ! k
      in if cn_finished c then s else (update_connection k (c\<lparr>cn_finished := True\<rparr>) s)\<lparr>px_active := px_active s - 1\<rparr>)"

definition running :: "nat \<Rightarrow> proxy \<Rightarrow> bool" where
  "running k s \<longleftrightarrow> k < length (px_connections s) \<and> cn_tunnel (px_connections s ! k) \<and> \<not> cn_finished (px_connections s ! k)"

text \<open>
  A connection is accepted if fewer than 16 are active. Its task may end or be cancelled between any two of its turns; when a direction fails it does so once the
  other one has had its poll.
\<close>

definition proxy_step :: "turn \<Rightarrow> proxy \<Rightarrow> proxy" where
  "proxy_step t s =
     (case t of
        Accept \<Rightarrow>
          if MAX_PROXY_CONNECTIONS \<le> px_active s then s\<lparr>px_refused := px_refused s + 1\<rparr>
          else s\<lparr>px_active := px_active s + 1, px_connections := px_connections s @
                 [\<lparr>cn_sending = new_relay, cn_receiving = new_relay, cn_tunnel = False, cn_finished = False\<rparr>]\<rparr>
      | Tunnel k \<Rightarrow>
          if k < length (px_connections s) \<and> \<not> cn_finished (px_connections s ! k)
          then update_connection k ((px_connections s ! k)\<lparr>cn_tunnel := True\<rparr>) s else s
      | Poll k d p w \<Rightarrow>
          if running k s \<and> polls_fit p w (relay_of d (px_connections s ! k))
          then update_connection k (put_relay d (poll_relay p w (relay_of d (px_connections s ! k))) (px_connections s ! k)) s else s
      | Load k d \<Rightarrow>
          if running k s
          then update_connection k (put_relay d (load_counter (px_transferred s) (relay_of d (px_connections s ! k))) (px_connections s ! k)) s else s
      | Exchange k d spurious \<Rightarrow>
          if running k s
          then (case exchange_counter spurious (px_transferred s) (relay_of d (px_connections s ! k)) of
                  (n, r) \<Rightarrow> (update_connection k (put_relay d r (px_connections s ! k)) s)\<lparr>px_transferred := n\<rparr>)
          else s
      | Finish k \<Rightarrow> if k < length (px_connections s) then finish_connection k s else s)"

definition proxy_run :: "turn list \<Rightarrow> proxy \<Rightarrow> proxy" where
  "proxy_run ts s = foldl (\<lambda>s t. proxy_step t s) s ts"

section \<open>What a direction keeps\<close>

text \<open>How many bytes a direction has been allowed to relay so far.\<close>

definition granted :: "relay \<Rightarrow> nat" where
  "granted r = length (ry_sent r) + (ry_length r - ry_written r)"

definition in_hand :: "relay \<Rightarrow> bytes" where
  "in_hand r = drop (ry_written r) (take (ry_length r) (ry_buffer r))"

text \<open>
  Everything that was read has been sent, is in hand to be sent, or is what the counter did not allow, in that order.
\<close>

definition relay_ok :: "relay \<Rightarrow> bool" where
  "relay_ok r \<longleftrightarrow> length (ry_buffer r) = 8192 \<and> ry_written r \<le> ry_length r \<and> ry_length r \<le> 8192
     \<and> (ry_reserving r \<noteq> Polling \<longrightarrow> ry_written r = ry_length r \<and> \<not> ry_exhausted r)
     \<and> (ry_ended r \<longrightarrow> ry_written r = ry_length r \<and> \<not> ry_exhausted r \<and> ry_reserving r = Polling)
     \<and> (case ry_reserving r of
          Polling \<Rightarrow> if ry_exhausted r then (\<exists>lost. ry_read r = ry_sent r @ in_hand r @ lost) else ry_read r = ry_sent r @ in_hand r
        | Loading n \<Rightarrow> 0 < n \<and> n \<le> 8192 \<and> ry_read r = ry_sent r @ take n (ry_buffer r)
        | Exchanging n current \<Rightarrow> 0 < n \<and> n \<le> 8192 \<and> current < MAX_PROXY_BYTES \<and> ry_read r = ry_sent r @ take n (ry_buffer r))"

lemma new_relay_ok: "relay_ok new_relay"
  by (simp add: relay_ok_def new_relay_def in_hand_def)

lemma failed_same [simp]: "relay_ok (r\<lparr>ry_failed := b\<rparr>) = relay_ok r" "granted (r\<lparr>ry_failed := b\<rparr>) = granted r"
  by (cases "ry_reserving r"; simp add: relay_ok_def granted_def in_hand_def)+

lemma write_turn_ok:
  assumes r: "relay_ok r" and turn: "ry_reserving r = Polling" "ry_written r < ry_length r" and fit: "polls_fit p w r"
  shows "relay_ok (write_turn w r) \<and> granted (write_turn w r) = granted r"
proof (cases w)
  case (Wrote n)
  show ?thesis
  proof (cases "n = 0")
    case False
    have n: "ry_written r + n \<le> ry_length r" using fit turn(2) Wrote unfolding polls_fit_def by simp linarith
    have len: "length (ry_buffer r) = 8192" "ry_length r \<le> 8192" using r by (simp_all add: relay_ok_def)
    have split: "in_hand r = take n (drop (ry_written r) (ry_buffer r)) @ drop (ry_written r + n) (take (ry_length r) (ry_buffer r))"
    proof -
      have "in_hand r = take n (in_hand r) @ drop n (in_hand r)" by simp
      moreover have "take n (in_hand r) = take n (drop (ry_written r) (ry_buffer r))"
        using n by (simp add: in_hand_def drop_take min_def)
      moreover have "drop n (in_hand r) = drop (ry_written r + n) (take (ry_length r) (ry_buffer r))"
        by (simp add: in_hand_def add.commute)
      ultimately show ?thesis by simp
    qed
    have "granted (write_turn w r) = granted r" using False Wrote n len turn(2) by (simp add: write_turn_def granted_def)
    moreover have "relay_ok (write_turn w r)"
      using r turn False Wrote n split by (simp add: relay_ok_def write_turn_def in_hand_def split: if_splits)
    ultimately show ?thesis by simp
  qed (use r Wrote in \<open>simp add: write_turn_def\<close>)
qed (use r in \<open>simp_all add: write_turn_def\<close>)

lemma read_turn_ok:
  assumes r: "relay_ok r" and turn: "ry_reserving r = Polling" "\<not> ry_written r < ry_length r" "\<not> ry_ended r" and fit: "polls_fit p w r"
  shows "relay_ok (read_turn p r) \<and> granted (read_turn p r) = granted r"
proof -
  have eq: "ry_written r = ry_length r" using r turn by (simp add: relay_ok_def)
  then have none: "in_hand r = []" by (simp add: in_hand_def)
  show ?thesis
  proof (cases "ry_exhausted r")
    case True
    with r show ?thesis by (simp add: read_turn_def)
  next
    case False
    then have read: "ry_read r = ry_sent r" using r turn(1) none by (simp add: relay_ok_def)
    show ?thesis
    proof (cases p)
      case (Read_Bytes bs)
      then have "length bs \<le> 8192" using fit by (simp add: polls_fit_def)
      with r turn False eq read Read_Bytes show ?thesis
        by (cases "bs = []") (simp_all add: relay_ok_def read_turn_def granted_def in_hand_def overwrite_def)
    qed (use r False in \<open>simp_all add: read_turn_def\<close>)
  qed
qed

lemma poll_relay_ok:
  assumes "relay_ok r" and "polls_fit p w r"
  shows "relay_ok (poll_relay p w r) \<and> granted (poll_relay p w r) = granted r"
  using write_turn_ok [OF assms(1) _ _ assms(2)] read_turn_ok [OF assms(1) _ _ _ assms(2)] assms(1) by (simp add: poll_relay_def)

text \<open>A grant is for the bytes at the start of the buffer.\<close>

lemma reserved_bytes_ok:
  assumes r: "relay_ok r" and w: "ry_written r = ry_length r" "\<not> ry_ended r" and read: "ry_read r = ry_sent r @ take n (ry_buffer r)"
    and n: "n \<le> 8192" "m \<le> n"
  shows "relay_ok (reserved_bytes m n r) \<and> granted (reserved_bytes m n r) = granted r + m"
proof -
  have "take n (ry_buffer r) = take m (ry_buffer r) @ take (n - m) (drop m (ry_buffer r))" using n(2) by (metis take_add le_add_diff_inverse)
  then have read: "ry_read r = ry_sent r @ take m (ry_buffer r) @ take (n - m) (drop m (ry_buffer r))" using read by simp
  have "relay_ok (reserved_bytes m n r)"
    unfolding relay_ok_def reserved_bytes_def in_hand_def using r w(2) n read by (simp add: relay_ok_def)
  moreover have "granted (reserved_bytes m n r) = granted r + m" using w(1) by (simp add: reserved_bytes_def granted_def)
  ultimately show ?thesis by simp
qed

lemma load_counter_ok: "relay_ok r \<Longrightarrow> relay_ok (load_counter n r) \<and> granted (load_counter n r) = granted r"
proof (cases "ry_reserving r")
  case (Loading k)
  assume r: "relay_ok r"
  with Loading have k: "ry_written r = ry_length r" "\<not> ry_ended r" "ry_read r = ry_sent r @ take k (ry_buffer r)" "0 < k" "k \<le> 8192" "\<not> ry_exhausted r"
    by (auto simp: relay_ok_def)
  show ?thesis
  proof (cases "MAX_PROXY_BYTES \<le> n")
    case True
    then show ?thesis using reserved_bytes_ok [OF r k(1,2,3,5), of 0] Loading by (simp add: load_counter_def)
  next
    case False
    then show ?thesis using r k Loading by (simp add: load_counter_def relay_ok_def granted_def)
  qed
qed (simp_all add: load_counter_def)

lemma exchange_counter_ok:
  assumes r: "relay_ok r" and ex: "exchange_counter spurious n r = (n', r')" and n: "n \<le> MAX_PROXY_BYTES"
  shows "relay_ok r' \<and> granted r' + n = granted r + n' \<and> n' \<le> MAX_PROXY_BYTES"
proof (cases "ry_reserving r")
  case (Exchanging k c)
  with r have k: "ry_written r = ry_length r" "\<not> ry_ended r" "ry_read r = ry_sent r @ take k (ry_buffer r)" "0 < k" "k \<le> 8192" "\<not> ry_exhausted r" "c < MAX_PROXY_BYTES"
    by (auto simp: relay_ok_def)
  show ?thesis
  proof (cases "n = c \<and> \<not> spurious")
    case True
    then have "n' = c + min k (MAX_PROXY_BYTES - c)" "r' = reserved_bytes (min k (MAX_PROXY_BYTES - c)) k r"
      using ex Exchanging by (simp_all add: exchange_counter_def Let_def)
    then show ?thesis using reserved_bytes_ok [OF r k(1,2,3,5), of "min k (MAX_PROXY_BYTES - c)"] True n by simp
  next
    case False
    then have "n' = n" "r' = r\<lparr>ry_reserving := Loading k\<rparr>" using ex Exchanging by (simp_all add: exchange_counter_def Let_def split: if_splits)
    then show ?thesis using r k n by (simp add: relay_ok_def granted_def)
  qed
qed (use assms in \<open>simp_all add: exchange_counter_def\<close>)

section \<open>What the proxy keeps\<close>

definition granted_to :: "connection \<Rightarrow> nat" where
  "granted_to c = granted (cn_sending c) + granted (cn_receiving c)"

definition connection_ok :: "connection \<Rightarrow> bool" where
  "connection_ok c \<longleftrightarrow> relay_ok (cn_sending c) \<and> relay_ok (cn_receiving c)"

definition unfinished :: "proxy \<Rightarrow> nat" where
  "unfinished s = length (filter (\<lambda>c. \<not> cn_finished c) (px_connections s))"

definition proxy_ok :: "proxy \<Rightarrow> bool" where
  "proxy_ok s \<longleftrightarrow> list_all connection_ok (px_connections s) \<and> px_transferred s = sum_list (map granted_to (px_connections s))
     \<and> px_transferred s \<le> MAX_PROXY_BYTES \<and> px_active s = unfinished s \<and> px_active s \<le> MAX_PROXY_CONNECTIONS"

lemma put_relay_simps [simp]:
  "connection_ok (put_relay d r c) \<longleftrightarrow> relay_ok r \<and> (case d of Sending \<Rightarrow> relay_ok (cn_receiving c) | Receiving \<Rightarrow> relay_ok (cn_sending c))"
  "cn_finished (put_relay d r c) = cn_finished c"
  by (auto simp: connection_ok_def put_relay_def split: side.splits)

lemma put_relay_granted: "granted_to (put_relay d r c) + granted (relay_of d c) = granted_to c + granted r"
  by (cases d) (simp_all add: granted_to_def put_relay_def relay_of_def)

lemma sum_list_replace: "k < length xs \<Longrightarrow> sum_list (map f (xs[k := x])) + f (xs ! k) = sum_list (map f xs) + (f x :: nat)"
proof (induction xs arbitrary: k)
  case (Cons a xs)
  then show ?case by (cases k) auto
qed simp

lemma filter_replace: "k < length xs \<Longrightarrow> p x = p (xs ! k) \<Longrightarrow> length (filter p (xs[k := x])) = length (filter p xs)"
proof (induction xs arbitrary: k)
  case (Cons a xs)
  then show ?case by (cases k) auto
qed simp

lemma filter_removed: "k < length xs \<Longrightarrow> p (xs ! k) \<Longrightarrow> \<not> p x \<Longrightarrow> Suc (length (filter p (xs[k := x]))) = length (filter p xs)"
proof (induction xs arbitrary: k)
  case (Cons a xs)
  then show ?case by (cases k) auto
qed simp

lemma update_relay_ok:
  assumes s: "proxy_ok s" and k: "running k s" and r: "relay_ok r"
    and n: "granted r + px_transferred s = granted (relay_of d (px_connections s ! k)) + n" "n \<le> MAX_PROXY_BYTES"
  shows "proxy_ok ((update_connection k (put_relay d r (px_connections s ! k)) s)\<lparr>px_transferred := n\<rparr>)"
proof -
  let ?c = "px_connections s ! k" let ?cs = "(px_connections s)[k := put_relay d r ?c]"
  have kl: "k < length (px_connections s)" using k by (simp add: running_def)
  have c: "connection_ok ?c" using s kl by (simp add: proxy_ok_def list_all_length)
  have ok: "connection_ok (put_relay d r ?c)" unfolding put_relay_simps(1) using c r by (simp add: connection_ok_def split: side.splits)
  have "list_all connection_ok ?cs" using s ok kl by (simp add: proxy_ok_def list_all_length nth_list_update)
  moreover have "n = sum_list (map granted_to ?cs)"
    using sum_list_replace [OF kl, of granted_to "put_relay d r ?c"] put_relay_granted [of d r ?c] n(1) s unfolding proxy_ok_def by linarith
  moreover have "length (filter (\<lambda>c. \<not> cn_finished c) ?cs) = unfinished s"
    unfolding unfinished_def by (rule filter_replace [OF kl]) simp
  ultimately show ?thesis using s n(2) by (simp add: proxy_ok_def update_connection_def unfinished_def)
qed

lemma update_connection_same: "(update_connection k c s)\<lparr>px_transferred := px_transferred s\<rparr> = update_connection k c s"
  by (simp add: update_connection_def)

lemma update_relay_same_ok:
  assumes "proxy_ok s" "running k s" "relay_ok r" "granted r = granted (relay_of d (px_connections s ! k))"
  shows "proxy_ok (update_connection k (put_relay d r (px_connections s ! k)) s)"
proof -
  have "px_transferred s \<le> MAX_PROXY_BYTES" using assms(1) by (simp add: proxy_ok_def)
  from update_relay_ok [OF assms(1-3) _ this] assms(4) show ?thesis unfolding update_connection_same by simp
qed

lemma running_relay: "proxy_ok s \<Longrightarrow> running k s \<Longrightarrow> relay_ok (relay_of d (px_connections s ! k))"
  by (cases d) (simp_all add: proxy_ok_def running_def list_all_length connection_ok_def relay_of_def)

lemma proxy_step_ok:
  assumes s: "proxy_ok s"
  shows "proxy_ok (proxy_step t s)"
proof (cases t)
  case Accept
  have "proxy_ok (s\<lparr>px_active := px_active s + 1, px_connections := px_connections s @
      [\<lparr>cn_sending = new_relay, cn_receiving = new_relay, cn_tunnel = False, cn_finished = False\<rparr>]\<rparr>)" if "\<not> MAX_PROXY_CONNECTIONS \<le> px_active s"
    using s that by (simp add: proxy_ok_def unfinished_def connection_ok_def new_relay_ok granted_to_def) (simp add: new_relay_def granted_def)
  moreover have "proxy_ok (s\<lparr>px_refused := px_refused s + 1\<rparr>)" using s by (simp add: proxy_ok_def unfinished_def)
  ultimately show ?thesis by (simp add: proxy_step_def Accept)
next
  case (Tunnel k)
  have "proxy_ok (update_connection k ((px_connections s ! k)\<lparr>cn_tunnel := True\<rparr>) s)" if k: "k < length (px_connections s)"
  proof -
    let ?c = "(px_connections s ! k)\<lparr>cn_tunnel := True\<rparr>"
    have "connection_ok (px_connections s ! k)" using s k by (simp add: proxy_ok_def list_all_length)
    then have "list_all connection_ok ((px_connections s)[k := ?c])"
      using s k by (simp add: proxy_ok_def list_all_length nth_list_update connection_ok_def)
    moreover have "sum_list (map granted_to ((px_connections s)[k := ?c])) = px_transferred s"
      using sum_list_replace [OF k, of granted_to ?c] s by (simp add: proxy_ok_def granted_to_def)
    moreover have "length (filter (\<lambda>c. \<not> cn_finished c) ((px_connections s)[k := ?c])) = unfinished s"
      unfolding unfinished_def by (rule filter_replace [OF k]) simp
    ultimately show ?thesis using s by (simp add: proxy_ok_def update_connection_def unfinished_def)
  qed
  with s show ?thesis by (simp add: proxy_step_def Tunnel)
next
  case (Poll k d p w)
  have "proxy_ok (update_connection k (put_relay d (poll_relay p w (relay_of d (px_connections s ! k))) (px_connections s ! k)) s)"
    if k: "running k s" and fit: "polls_fit p w (relay_of d (px_connections s ! k))"
    using update_relay_same_ok [OF s k] poll_relay_ok [OF running_relay [OF s k] fit] by blast
  with s show ?thesis by (simp add: proxy_step_def Poll)
next
  case (Load k d)
  have "proxy_ok (update_connection k (put_relay d (load_counter (px_transferred s) (relay_of d (px_connections s ! k))) (px_connections s ! k)) s)"
    if k: "running k s"
    using update_relay_same_ok [OF s k] load_counter_ok [OF running_relay [OF s k]] by blast
  with s show ?thesis by (simp add: proxy_step_def Load)
next
  case (Exchange k d spurious)
  have "proxy_ok ((update_connection k (put_relay d r (px_connections s ! k)) s)\<lparr>px_transferred := n\<rparr>)"
    if k: "running k s" and ex: "exchange_counter spurious (px_transferred s) (relay_of d (px_connections s ! k)) = (n, r)" for n r
  proof -
    have "px_transferred s \<le> MAX_PROXY_BYTES" using s by (simp add: proxy_ok_def)
    note moved = exchange_counter_ok [OF running_relay [OF s k] ex this]
    from update_relay_ok [OF s k] moved show ?thesis by blast
  qed
  with s show ?thesis by (simp add: proxy_step_def Exchange split: prod.split)
next
  case (Finish k)
  have "proxy_ok (finish_connection k s)" if k: "k < length (px_connections s)"
  proof (cases "cn_finished (px_connections s ! k)")
    case False
    let ?c = "(px_connections s ! k)\<lparr>cn_finished := True\<rparr>"
    have "connection_ok (px_connections s ! k)" using s k by (simp add: proxy_ok_def list_all_length)
    then have "list_all connection_ok ((px_connections s)[k := ?c])"
      using s k by (simp add: proxy_ok_def list_all_length nth_list_update connection_ok_def)
    moreover have "sum_list (map granted_to ((px_connections s)[k := ?c])) = px_transferred s"
      using sum_list_replace [OF k, of granted_to ?c] s by (simp add: proxy_ok_def granted_to_def)
    moreover have "Suc (length (filter (\<lambda>c. \<not> cn_finished c) ((px_connections s)[k := ?c]))) = unfinished s"
      unfolding unfinished_def by (rule filter_removed [OF k]) (simp_all add: False)
    ultimately show ?thesis using s False by (simp add: finish_connection_def Let_def proxy_ok_def update_connection_def unfinished_def) linarith
  qed (use s in \<open>simp add: finish_connection_def\<close>)
  with s show ?thesis by (simp add: proxy_step_def Finish)
qed

lemma proxy_run_ok: "proxy_ok s \<Longrightarrow> proxy_ok (proxy_run ts s)"
  unfolding proxy_run_def by (induction ts arbitrary: s) (simp_all add: proxy_step_ok)

lemma idle_proxy_ok: "proxy_ok idle_proxy"
  by (simp add: proxy_ok_def idle_proxy_def unfinished_def)

end
