(* ===== verification/Host_Actions.thy ===== *)
theory Host_Actions
  imports Host_Policy
begin

text \<open>
  What the headless host lets a bot do to a page and see of it (\<open>authorize_action\<close>, \<open>action_context\<close>, \<open>sensitive_surface\<close>,
  \<open>sanitize_inspection\<close>, \<open>RequestBudget\<close> in \<^verbatim>\<open>src/apps/chuzz/src/serve.rs\<close>). The document belongs to the
  engine: it is a function from node ids to what the code reads of a node. Joining a URL to that of the document and the length of an encoded snapshot are parameters.
\<close>

section \<open>The document\<close>

datatype node_data = Text_Node str | Element str "(str \<times> str) list" | Other_Node

record dom_node =
  dn_data :: node_data
  dn_parent :: "nat option"
  dn_children :: "nat list"

type_synonym dom = "nat \<Rightarrow> dom_node option"

definition element_attribute :: "(str \<times> str) list \<Rightarrow> string \<Rightarrow> str option" where
  "element_attribute attrs name = map_of attrs (S name)"

section \<open>Restricted words\<close>

definition word_is :: "str \<Rightarrow> string \<Rightarrow> bool" where
  "word_is word expected = eq_ignore_ascii_case word (S expected)"

definition pair_is :: "str \<Rightarrow> str \<Rightarrow> string \<times> string \<Rightarrow> bool" where
  "pair_is first second expected \<longleftrightarrow> word_is first (fst expected) \<and> word_is second (snd expected)"

definition RESTRICTED_WORDS :: "string list" where
  "RESTRICTED_WORDS = [''signin'', ''login'', ''password'', ''payment'', ''checkout'', ''reserve'', ''reservation'', ''purchase'', ''register'', ''billing'',
     ''email'', ''username'', ''phone'', ''telephone'', ''passport'', ''otp'', ''cc'', ''cvv'', ''cvc'', ''book'']"

definition RESTRICTED_PAIRS :: "(string \<times> string) list" where
  "RESTRICTED_PAIRS = [(''sign'', ''in''), (''log'', ''in''), (''pay'', ''now''), (''place'', ''order''), (''create'', ''account''), (''account'', ''creation''),
     (''sign'', ''up''), (''current'', ''password''), (''new'', ''password''), (''cc'', ''number''), (''credit'', ''card''), (''card'', ''number''),
     (''first'', ''name''), (''last'', ''name''), (''full'', ''name''), (''given'', ''name''), (''family'', ''name''), (''passenger'', ''name''),
     (''traveler'', ''name''), (''traveller'', ''name''), (''birth'', ''date'')]"

definition restricted_word :: "str \<Rightarrow> bool" where
  "restricted_word word \<longleftrightarrow> list_ex (word_is word) RESTRICTED_WORDS \<or> 7 \<le> length word \<and> word_is (take 7 word) ''booking''"

definition restricted_pair :: "str \<Rightarrow> str \<Rightarrow> bool" where
  "restricted_pair previous word \<longleftrightarrow> list_ex (pair_is previous word) RESTRICTED_PAIRS"

definition restricted_triple :: "str \<Rightarrow> str \<Rightarrow> str \<Rightarrow> bool" where
  "restricted_triple older previous word \<longleftrightarrow>
     pair_is older previous (''one'', ''time'') \<and> word_is word ''code'' \<or> pair_is older previous (''date'', ''of'') \<and> word_is word ''birth''"

fun sensitive_words :: "str \<Rightarrow> str \<Rightarrow> str list \<Rightarrow> bool" where
  "sensitive_words older previous [] = False"
| "sensitive_words older previous (word # ws) =
     (restricted_word word \<or> restricted_pair previous word \<or> restricted_triple older previous word \<or> sensitive_words previous word ws)"

definition surface_words :: "str \<Rightarrow> str list" where
  "surface_words s = filter (\<lambda>w. w \<noteq> []) (split_by (\<lambda>c. \<not> is_ascii_alphanumeric c) s)"

definition sensitive_surface :: "str \<Rightarrow> bool" where
  "sensitive_surface s = sensitive_words [] [] (surface_words s)"

section \<open>The text of an element\<close>

text \<open>A node costs more than all the children of it that are looked at.\<close>

definition pending_cost :: "(nat \<times> nat) list \<Rightarrow> nat" where
  "pending_cost pending = sum_list (map (\<lambda>(_, depth). 97 ^ (4 - depth)) pending)"

definition last_children :: "nat list \<Rightarrow> nat list" where
  "last_children cs = rev (take 96 (rev cs))"

lemma pending_cost_children: "depth < 3 \<Longrightarrow> pending_cost (map (\<lambda>c. (c, depth + 1)) (last_children cs)) < 97 ^ (4 - depth)"
proof -
  assume d: "depth < 3"
  have "pending_cost (map (\<lambda>c. (c, depth + 1)) (last_children cs)) = length (last_children cs) * 97 ^ (4 - (depth + 1))"
    by (simp add: pending_cost_def comp_def sum_list_triv)
  also have "\<dots> \<le> 96 * 97 ^ (4 - (depth + 1))" by (rule mult_right_mono) (simp_all add: last_children_def)
  also have "\<dots> < 97 * 97 ^ (4 - (depth + 1))" by simp
  also have "97 * 97 ^ (4 - (depth + 1)) = (97::nat) ^ (4 - depth)"
  proof -
    have "depth = 0 \<or> depth = 1 \<or> depth = 2" using d by linarith
    then show ?thesis by auto
  qed
  finally show ?thesis .
qed

text \<open>The pending nodes are a stack; its head is what is popped next.\<close>

function text_loop :: "dom \<Rightarrow> nat \<Rightarrow> str \<Rightarrow> (nat \<times> nat) list \<Rightarrow> str" where
  "text_loop doc most text [] = text"
| "text_loop doc most text ((nid, depth) # pending) =
     (if most \<le> length text \<or> 96 \<le> length pending then text
      else case doc nid of
             None \<Rightarrow> text_loop doc most text pending
           | Some node \<Rightarrow>
               (case dn_data node of
                  Text_Node content \<Rightarrow> text_loop doc most (text @ take (most - length text) content) pending
                | _ \<Rightarrow>
                    if depth < 3 then text_loop doc most text (map (\<lambda>c. (c, depth + 1)) (last_children (dn_children node)) @ pending)
                    else text_loop doc most text pending))"
  by pat_completeness auto
termination
  by (relation "measure (\<lambda>(_, _, _, pending). pending_cost pending)") (use pending_cost_children in \<open>auto simp: pending_cost_def\<close>)

definition bounded_descendant_text :: "dom \<Rightarrow> nat \<Rightarrow> nat \<Rightarrow> str" where
  "bounded_descendant_text doc root most = text_loop doc most [] [(root, 0)]"

section \<open>The context of an action\<close>

record act_context =
  ac_target_tag :: "str option"
  ac_target_type :: str
  ac_has_form :: bool
  ac_may_submit :: bool
  ac_sensitive :: bool
  ac_download :: bool
  ac_new_window :: bool
  ac_href :: "str option"
  ac_form_action :: "str option"
  ac_button_role :: bool
  ac_click_handler :: bool
  ac_submit_control :: bool

definition empty_context :: act_context where
  "empty_context = \<lparr>ac_target_tag = None, ac_target_type = [], ac_has_form = False, ac_may_submit = False, ac_sensitive = False, ac_download = False,
     ac_new_window = False, ac_href = None, ac_form_action = None, ac_button_role = False, ac_click_handler = False, ac_submit_control = False\<rparr>"

definition POLICY_ATTRIBUTES :: "string list" where
  "POLICY_ATTRIBUTES = [''type'', ''name'', ''id'', ''role'', ''aria-label'', ''title'', ''placeholder'', ''autocomplete'', ''href'', ''action'', ''formaction'',
     ''method'', ''formmethod'']"

text \<open>Whether an element is part of a restricted surface: by an attribute that the policy reads, or by the text under it.\<close>

definition sensitive_element :: "dom \<Rightarrow> nat \<Rightarrow> (str \<times> str) list \<Rightarrow> bool" where
  "sensitive_element doc nid attrs \<longleftrightarrow>
     list_ex (\<lambda>name. case element_attribute attrs name of Some v \<Rightarrow> sensitive_surface v | None \<Rightarrow> False) POLICY_ATTRIBUTES
     \<or> sensitive_surface (bounded_descendant_text doc nid 192)"

definition submit_control :: "str \<Rightarrow> str \<Rightarrow> bool" where
  "submit_control tag kind \<longleftrightarrow> (tag = S ''button'' \<and> kind \<notin> {S ''button'', S ''reset''}) \<or> (tag = S ''input'' \<and> kind \<in> {S ''submit'', S ''image''})"

definition read_element :: "dom \<Rightarrow> bool \<Rightarrow> nat \<Rightarrow> str \<Rightarrow> (str \<times> str) list \<Rightarrow> act_context \<Rightarrow> act_context" where
  "read_element doc target nid name attrs c =
     (let tag = ascii_lower name; attribute = element_attribute attrs;
          kind = ascii_lower (case attribute ''type'' of None \<Rightarrow> [] | Some v \<Rightarrow> v);
          action = (if ac_form_action c = None then attribute ''formaction'' else ac_form_action c)
      in c\<lparr>ac_target_tag := (case ac_target_tag c of None \<Rightarrow> Some tag | Some t \<Rightarrow> Some t),
           ac_target_type := (if target then kind else ac_target_type c),
           ac_sensitive := ac_sensitive c \<or> sensitive_element doc nid attrs,
           ac_has_form := ac_has_form c \<or> tag = S ''form'' \<or> attribute ''form'' \<noteq> None,
           ac_form_action := (if tag = S ''form'' \<and> action = None then attribute ''action'' else action),
           ac_href := (if ac_href c = None \<and> tag = S ''a'' then attribute ''href'' else ac_href c),
           ac_download := ac_download c \<or> attribute ''download'' \<noteq> None,
           ac_new_window := ac_new_window c \<or> attribute ''target'' = Some (S ''_blank''),
           ac_button_role := ac_button_role c \<or> (case attribute ''role'' of None \<Rightarrow> False | Some role \<Rightarrow> word_is role ''button'' \<or> word_is role ''menuitem''),
           ac_click_handler := ac_click_handler c \<or> attribute ''onclick'' \<noteq> None,
           ac_submit_control := ac_submit_control c \<or> submit_control tag kind\<rparr>)"

text \<open>From the target up through its ancestors, sixteen nodes at most.\<close>

fun walk_up :: "dom \<Rightarrow> nat \<Rightarrow> bool \<Rightarrow> nat option \<Rightarrow> act_context \<Rightarrow> act_context option" where
  "walk_up doc left target None c = Some c"
| "walk_up doc 0 target (Some nid) c = Some c"
| "walk_up doc (Suc left) target (Some nid) c =
     (case doc nid of
        None \<Rightarrow> None
      | Some node \<Rightarrow>
          walk_up doc left False (dn_parent node)
            (case dn_data node of Element name attrs \<Rightarrow> read_element doc target nid name attrs c | _ \<Rightarrow> c))"

definition action_context :: "dom \<Rightarrow> nat \<Rightarrow> act_context option" where
  "action_context doc nid =
     map_option (\<lambda>c. c\<lparr>ac_may_submit := ac_has_form c \<and> (ac_submit_control c \<or> ac_button_role c \<or> ac_click_handler c)\<rparr>)
       (walk_up doc 16 True (Some nid) empty_context)"

section \<open>Permission\<close>

definition submit_needs_permission :: "headless_policy \<Rightarrow> act_context \<Rightarrow> bool" where
  "submit_needs_permission p c \<longleftrightarrow> ac_may_submit c \<and> \<not> allow_form_submit p"

definition validate_action_url :: "host_env \<Rightarrow> headless_policy \<Rightarrow> (str \<Rightarrow> host_url option) \<Rightarrow> str \<Rightarrow> str + unit" where
  "validate_action_url e p join v =
     (case join v of
        None \<Rightarrow> Inl (S ''the action URL is invalid'')
      | Some destination \<Rightarrow>
          (case validate_url e p destination of Inl _ \<Rightarrow> Inl (S ''the action URL is outside the browser policy'') | Inr u \<Rightarrow> Inr u))"

datatype agent_action = Click nat | Set_Value nat str | Scroll_Into_View | Scroll_By | Other_Action

definition BOT_CHILD_MAX_FILL_BYTES :: nat where "BOT_CHILD_MAX_FILL_BYTES = 512"

definition editable_field :: "act_context \<Rightarrow> bool" where
  "editable_field c =
     (case ac_target_tag c of
        None \<Rightarrow> False
      | Some tag \<Rightarrow>
          tag \<in> {S ''textarea'', S ''select''}
          \<or> tag = S ''input'' \<and> ac_target_type c \<in> {[], S ''text'', S ''search'', S ''date'', S ''month'', S ''week'', S ''time'', S ''number''})"

definition authorize_action :: "host_env \<Rightarrow> headless_policy \<Rightarrow> dom \<Rightarrow> (str \<Rightarrow> host_url option) \<Rightarrow> agent_action \<Rightarrow> str + unit" where
  "authorize_action e p doc join action =
     (if \<not> bot_child p then Inr ()
      else case action of
        Click nid \<Rightarrow>
          and_then (ok_or (action_context doc nid) (S ''the live target could not be inspected'')) (\<lambda>c.
            if ac_sensitive c then Inl (S ''this control belongs to a restricted action'')
            else if ac_download c \<or> ac_new_window c then Inl (S ''downloads and new browsing contexts are disabled'')
            else if submit_needs_permission p c then Inl (S ''form submission requires explicit permission from the caller'')
            else and_then (case ac_href c of None \<Rightarrow> Inr () | Some href \<Rightarrow> validate_action_url e p join href) (\<lambda>_.
              case ac_form_action c of
                Some url \<Rightarrow> if ac_may_submit c \<and> url \<noteq> [] then validate_action_url e p join url else Inr ()
              | None \<Rightarrow> Inr ()))
      | Set_Value nid v \<Rightarrow>
          if BOT_CHILD_MAX_FILL_BYTES < utf8_len v then Inl (S ''the field value exceeds the input limit'')
          else and_then (ok_or (action_context doc nid) (S ''the live target could not be inspected'')) (\<lambda>c.
            if ac_sensitive c then Inl (S ''this field belongs to a restricted action'')
            else if \<not> editable_field c then Inl (S ''only ordinary search fields may be filled'')
            else Inr ())
      | Scroll_Into_View \<Rightarrow> Inr ()
      | Scroll_By \<Rightarrow> Inr ()
      | Other_Action \<Rightarrow> Inl (S ''this action is not part of the bot browser control surface''))"

section \<open>Inspection\<close>

definition BOT_CHILD_MAX_INSPECT_NODES :: nat where "BOT_CHILD_MAX_INSPECT_NODES = 512"

definition BOT_CHILD_MAX_INSPECT_BYTES :: nat where "BOT_CHILD_MAX_INSPECT_BYTES = 60 * 1024"

text \<open>A node of the semantic tree; \<open>'x\<close> is everything else that it and the snapshot hold.\<close>

record 'x semantic_node =
  sm_id :: nat
  sm_dom_id :: "str option"
  sm_role :: str
  sm_name :: str
  sm_value :: "str option"
  sm_slot :: "str option"
  sm_rest :: 'x

record 'x snapshot =
  sp_active_window :: "str option"
  sp_nodes :: "'x semantic_node list"
  sp_rest :: 'x

datatype 'x response = Agent_Snapshot "'x snapshot" | Other_Response 'x

text \<open>\<open>trim_text\<close>: the whole characters within a number of bytes, and what remains of the allowance.\<close>

fun prefix_within :: "nat \<Rightarrow> str \<Rightarrow> str" where
  "prefix_within n [] = []"
| "prefix_within n (c # s) = (if length (utf8_char c) \<le> n then c # prefix_within (n - length (utf8_char c)) s else [])"

definition trim_text :: "nat \<Rightarrow> str \<Rightarrow> nat \<Rightarrow> str \<times> nat" where
  "trim_text limit v remaining = (let t = prefix_within (min limit remaining) v in (t, remaining - utf8_len t))"

definition trim_optional_text :: "nat \<Rightarrow> str option \<Rightarrow> nat \<Rightarrow> str option \<times> nat" where
  "trim_optional_text limit v remaining =
     (case v of None \<Rightarrow> (None, remaining) | Some v \<Rightarrow> (case trim_text limit v remaining of (t, r) \<Rightarrow> (Some t, r)))"

definition trim_node :: "'x semantic_node \<Rightarrow> nat \<Rightarrow> 'x semantic_node \<times> nat" where
  "trim_node n remaining =
     (case trim_optional_text 128 (sm_dom_id n) remaining of (dom_id, remaining) \<Rightarrow>
      case trim_text 64 (sm_role n) remaining of (role, remaining) \<Rightarrow>
      case trim_text 512 (sm_name n) remaining of (name, remaining) \<Rightarrow>
      case trim_optional_text 512 (sm_value n) remaining of (v, remaining) \<Rightarrow>
      case trim_optional_text 128 (sm_slot n) remaining of (slot, remaining) \<Rightarrow>
        (n\<lparr>sm_dom_id := dom_id, sm_role := role, sm_name := name, sm_value := v, sm_slot := slot\<rparr>, remaining))"

fun trim_nodes :: "'x semantic_node list \<Rightarrow> nat \<Rightarrow> 'x semantic_node list" where
  "trim_nodes [] remaining = []"
| "trim_nodes (n # ns) remaining = (case trim_node n remaining of (m, remaining) \<Rightarrow> m # trim_nodes ns remaining)"

text \<open>Nodes are dropped from the end until the encoding fits; \<open>encoded\<close> is the length of the encoding, if there is one.\<close>

function shrink_to_fit :: "('x snapshot \<Rightarrow> nat option) \<Rightarrow> 'x snapshot \<Rightarrow> 'x snapshot" where
  "shrink_to_fit encoded s =
     (case encoded s of
        Some n \<Rightarrow>
          if n \<le> BOT_CHILD_MAX_INSPECT_BYTES then s
          else if sp_nodes s \<noteq> [] then shrink_to_fit encoded (s\<lparr>sp_nodes := butlast (sp_nodes s)\<rparr>)
          else s\<lparr>sp_nodes := [], sp_active_window := None\<rparr>
      | None \<Rightarrow> s\<lparr>sp_nodes := [], sp_active_window := None\<rparr>)"
  by pat_completeness auto
termination
  by (relation "measure (\<lambda>(_, s). length (sp_nodes s))") auto

declare shrink_to_fit.simps [simp del]

definition bound_inspection_snapshot :: "('x snapshot \<Rightarrow> nat option) \<Rightarrow> 'x snapshot \<Rightarrow> 'x snapshot" where
  "bound_inspection_snapshot encoded s =
     (case trim_optional_text 128 (sp_active_window s) BOT_CHILD_MAX_INSPECT_BYTES of
        (window, remaining) \<Rightarrow> shrink_to_fit encoded (s\<lparr>sp_active_window := window, sp_nodes := trim_nodes (sp_nodes s) remaining\<rparr>))"

definition redact :: "dom \<Rightarrow> 'x semantic_node \<Rightarrow> 'x semantic_node" where
  "redact doc n = (case action_context doc (sm_id n) of Some c \<Rightarrow> if ac_sensitive c then n\<lparr>sm_value := None\<rparr> else n | None \<Rightarrow> n)"

definition sanitize_inspection :: "('x snapshot \<Rightarrow> nat option) \<Rightarrow> headless_policy \<Rightarrow> dom \<Rightarrow> 'x response \<Rightarrow> 'x response" where
  "sanitize_inspection encoded p doc r =
     (if \<not> bot_child p then r
      else case r of
             Agent_Snapshot s \<Rightarrow>
               Agent_Snapshot (bound_inspection_snapshot encoded (s\<lparr>sp_nodes := map (redact doc) (take BOT_CHILD_MAX_INSPECT_NODES (sp_nodes s))\<rparr>))
           | _ \<Rightarrow> r)"

section \<open>The budget of requests\<close>

definition BOT_CHILD_MAX_ACTIONS :: nat where "BOT_CHILD_MAX_ACTIONS = 8"

definition BOT_CHILD_MAX_INSPECTIONS :: nat where "BOT_CHILD_MAX_INSPECTIONS = 16"

definition BOT_CHILD_MAX_REQUESTS :: nat where "BOT_CHILD_MAX_REQUESTS = 24"

record request_budget =
  rb_requests :: nat
  rb_actions :: nat
  rb_inspections :: nat

text \<open>Requests of an agent, and those for diagnostics.\<close>

datatype control_request = Inspect_Request | Act_Request agent_action | Navigate_Request str | Condense_Request | Other_Request | Diagnostics_Request

definition admit :: "headless_policy \<Rightarrow> control_request \<Rightarrow> request_budget \<Rightarrow> (str + unit) \<times> request_budget" where
  "admit p r b =
     (if \<not> bot_child p then (Inr (), b)
      else if BOT_CHILD_MAX_REQUESTS \<le> rb_requests b then (Inl (S ''the browser request budget is exhausted''), b)
      else let b = b\<lparr>rb_requests := rb_requests b + 1\<rparr>
           in case r of
                Inspect_Request \<Rightarrow>
                  if BOT_CHILD_MAX_INSPECTIONS \<le> rb_inspections b then (Inl (S ''the inspection budget is exhausted''), b)
                  else (Inr (), b\<lparr>rb_inspections := rb_inspections b + 1\<rparr>)
              | Act_Request _ \<Rightarrow>
                  if BOT_CHILD_MAX_ACTIONS \<le> rb_actions b then (Inl (S ''the action budget is exhausted''), b)
                  else (Inr (), b\<lparr>rb_actions := rb_actions b + 1\<rparr>)
              | _ \<Rightarrow> (Inr (), b))"

definition no_budget_used :: request_budget where
  "no_budget_used = \<lparr>rb_requests = 0, rb_actions = 0, rb_inspections = 0\<rparr>"

end
