(* ===== verification/Host_Control.thy ===== *)
theory Host_Control
  imports Host_Actions
begin

text \<open>
  The request loop of the headless host (\<open>serve_page\<close>, \<open>follow_navigation\<close>, \<open>RequestedNavigation\<close>, \<open>snapshot_storage\<close>,
  \<open>restore_script\<close> in \<^verbatim>\<open>src/apps/chuzz/src/serve.rs\<close>): requests are admitted by the budget and answered one at a time; between them the
  page runs, may ask to go elsewhere, and the host follows. The engine's documents are of a type \<open>'d\<close>; what the engine does with them and reads of them are
  the fields of \<open>engine\<close>: an action or an unload gives the document as it is then and the navigations that it asked for; a page is fetched with
  what the script run before its own puts into its stores. The environment is given with each turn, since what the resolver answers may change.
\<close>

text \<open>What a page put in storage, carried to the next document; the two texts are what the engine writes of the stores.\<close>

record stored_state =
  so_origin :: str
  so_local :: str
  so_session :: str

record 'd engine =
  en_dom :: "'d \<Rightarrow> dom"
  en_join :: "'d \<Rightarrow> str \<Rightarrow> host_url option"
  en_act :: "agent_action \<Rightarrow> 'd \<Rightarrow> (str + unit) \<times> 'd \<times> host_url list"
  en_unload :: "'d \<Rightarrow> 'd \<times> host_url list"
  en_fetch :: "host_url \<Rightarrow> stored_state option \<Rightarrow> 'd option"
  en_url :: "'d \<Rightarrow> host_url"
  en_nodes :: "'d \<Rightarrow> nat"
  en_origin :: "host_url \<Rightarrow> str"
  en_stores :: "'d \<Rightarrow> str \<times> str"

text \<open>What the host did on behalf of a request or of the page, with the environment of the time; a fetch with the document that it is to replace.\<close>

datatype 'd deed =
    Inspected
  | Performed agent_action 'd host_env
  | Fetched host_url "stored_state option" 'd host_env
  | Shown 'd host_env
  | Diagnosed

record 'd host =
  ho_doc :: 'd
  ho_origin :: str
  ho_destination :: "host_url option"
  ho_refused :: bool
  ho_budget :: request_budget
  ho_over :: bool
  ho_deeds :: "'d deed list"

definition start_host :: "'d engine \<Rightarrow> 'd \<Rightarrow> 'd host" where
  "start_host en doc = \<lparr>ho_doc = doc, ho_origin = en_origin en (en_url en doc), ho_destination = None, ho_refused = False, ho_budget = no_budget_used,
     ho_over = False, ho_deeds = []\<rparr>"

definition record_deed :: "'d deed \<Rightarrow> 'd host \<Rightarrow> 'd host" where
  "record_deed x h = h\<lparr>ho_deeds := ho_deeds h @ [x]\<rparr>"

section \<open>Navigation\<close>

text \<open>The page asks for a navigation; of two, the later one holds.\<close>

definition navigate_to :: "host_env \<Rightarrow> headless_policy \<Rightarrow> host_url \<Rightarrow> 'd host \<Rightarrow> 'd host" where
  "navigate_to e p url h = (case validate_url e p url of Inl _ \<Rightarrow> h\<lparr>ho_refused := True\<rparr> | Inr _ \<Rightarrow> h\<lparr>ho_destination := Some url\<rparr>)"

definition navigate_all :: "host_env \<Rightarrow> headless_policy \<Rightarrow> host_url list \<Rightarrow> 'd host \<Rightarrow> 'd host" where
  "navigate_all e p urls h = foldl (\<lambda>h url. navigate_to e p url h) h urls"

definition take_refusal :: "'d host \<Rightarrow> bool \<times> 'd host" where
  "take_refusal h = (ho_refused h, h\<lparr>ho_refused := False\<rparr>)"

definition snapshot_storage :: "'d engine \<Rightarrow> 'd \<Rightarrow> str \<Rightarrow> stored_state" where
  "snapshot_storage en doc origin = (case en_stores en doc of (l, s) \<Rightarrow> \<lparr>so_origin = origin, so_local = l, so_session = s\<rparr>)"

definition restored :: "'d engine \<Rightarrow> stored_state option \<Rightarrow> host_url \<Rightarrow> stored_state option" where
  "restored en stored url = (case stored of None \<Rightarrow> None | Some s \<Rightarrow> if so_origin s = en_origin en url then Some s else None)"

definition BOT_CHILD_MAX_PAGE_NODES :: nat where "BOT_CHILD_MAX_PAGE_NODES = 20000"

definition too_many_nodes :: "'d engine \<Rightarrow> headless_policy \<Rightarrow> 'd \<Rightarrow> bool" where
  "too_many_nodes en p doc \<longleftrightarrow> bot_child p \<and> BOT_CHILD_MAX_PAGE_NODES < en_nodes en doc"

definition load :: "'d engine \<Rightarrow> host_env \<Rightarrow> headless_policy \<Rightarrow> host_url \<Rightarrow> stored_state option \<Rightarrow> str + 'd" where
  "load en e p url carried =
     and_then (validate_url e p url) (\<lambda>_.
     and_then (ok_or (en_fetch en url (if bot_child p then None else restored en carried url)) (S ''could not load'')) (\<lambda>doc.
       case validate_url e p (en_url en doc) of
         Inl _ \<Rightarrow> Inl (S ''the loaded page redirected outside the browser policy'')
       | Inr _ \<Rightarrow> if too_many_nodes en p doc then Inl (S ''the page exceeded the bot browser node limit'') else Inr doc))"

definition follow_navigation :: "'d engine \<Rightarrow> host_env \<Rightarrow> headless_policy \<Rightarrow> host_url \<Rightarrow> 'd host \<Rightarrow> (str + unit) \<times> 'd host" where
  "follow_navigation en e p url h =
     (case validate_url e p url of
        Inl x \<Rightarrow> (Inl x, h)
      | Inr _ \<Rightarrow>
          (case en_unload en (ho_doc h) of
             (doc, urls) \<Rightarrow>
               let h = navigate_all e p urls (h\<lparr>ho_doc := doc\<rparr>);
                   carried = (if bot_child p then None else Some (snapshot_storage en doc (ho_origin h)));
                   h = record_deed (Fetched url (if bot_child p then None else restored en carried url) doc e) h
               in case load en e p url carried of
                    Inl x \<Rightarrow> (Inl x, h)
                  | Inr doc \<Rightarrow> (Inr (), record_deed (Shown doc e) (h\<lparr>ho_doc := doc, ho_origin := en_origin en (en_url en doc)\<rparr>))))"

section \<open>Requests\<close>

text \<open>The answer to a request, as far as a caller can tell it from a refusal.\<close>

datatype answer = Acknowledged | Snapshot_Sent | Diagnosis_Sent | Denied str | Failed str

definition answer_request :: "'d engine \<Rightarrow> host_env \<Rightarrow> headless_policy \<Rightarrow> control_request \<Rightarrow> 'd host \<Rightarrow> answer \<times> 'd host" where
  "answer_request en e p r h =
     (case r of
        Inspect_Request \<Rightarrow> (Snapshot_Sent, record_deed Inspected h)
      | Act_Request action \<Rightarrow>
          (case authorize_action e p (en_dom en (ho_doc h)) (en_join en (ho_doc h)) action of
             Inl x \<Rightarrow> (Denied x, h)
           | Inr _ \<Rightarrow>
               (case en_act en action (ho_doc h) of
                  (outcome, doc, urls) \<Rightarrow>
                    (case outcome of Inr _ \<Rightarrow> Acknowledged | Inl x \<Rightarrow> Failed x,
                     navigate_all e p urls (record_deed (Performed action (ho_doc h) e) (h\<lparr>ho_doc := doc\<rparr>)))))
      | Navigate_Request url \<Rightarrow>
          (case en_join en (ho_doc h) url of
             None \<Rightarrow> (Failed (S ''invalidArgument''), h)
           | Some destination \<Rightarrow>
               (case follow_navigation en e p destination h of
                  (Inl x, h') \<Rightarrow> (Failed (S ''navigationFailed''), h')
                | (Inr _, h') \<Rightarrow> (Acknowledged, h')))
      | Condense_Request \<Rightarrow>
          if bot_child p then (Denied (S ''page condensation is disabled in bot-child mode''), h) else (Snapshot_Sent, record_deed Inspected h)
      | Other_Request \<Rightarrow> (Failed (S ''unsupported''), h)
      | Diagnostics_Request \<Rightarrow> if bot_child p then (Failed (S ''unsupported''), h) else (Diagnosis_Sent, record_deed Diagnosed h))"

text \<open>A request that is over the budget ends the host.\<close>

definition serve_request :: "'d engine \<Rightarrow> host_env \<Rightarrow> headless_policy \<Rightarrow> control_request \<Rightarrow> 'd host \<Rightarrow> answer \<times> 'd host" where
  "serve_request en e p r h =
     (case admit p r (ho_budget h) of
        (Inl x, b) \<Rightarrow> (Denied x, h\<lparr>ho_budget := b, ho_over := True\<rparr>)
      | (Inr _, b) \<Rightarrow>
          (case answer_request en e p r (h\<lparr>ho_budget := b\<rparr>) of
             (a, h) \<Rightarrow>
               if bot_child p
               then (case take_refusal h of
                       (refused, h) \<Rightarrow>
                         (if refused \<and> (case r of Act_Request _ \<Rightarrow> True | _ \<Rightarrow> False)
                          then Denied (S ''the page requested navigation outside the browser policy'') else a, h))
               else (a, h)))"

definition follow_link :: "'d engine \<Rightarrow> host_env \<Rightarrow> headless_policy \<Rightarrow> 'd host \<Rightarrow> 'd host" where
  "follow_link en e p h =
     (case ho_destination h of None \<Rightarrow> h | Some url \<Rightarrow> snd (follow_navigation en e p url (h\<lparr>ho_destination := None\<rparr>)))"

text \<open>
  The page may change itself, though not its origin, and ask for navigations at any time. The host looks at what it asked for after a request, unless another one has come, and when it waited for one in
  vain. Before it takes a request it ends if a bot's page has grown too large.
\<close>

datatype 'd host_turn = Request host_env control_request | Page_Runs 'd | Page_Navigates host_env host_url | Follow host_env

definition host_step :: "'d engine \<Rightarrow> headless_policy \<Rightarrow> 'd host_turn \<Rightarrow> 'd host \<Rightarrow> 'd host" where
  "host_step en p t h =
     (if ho_over h then h
      else case t of
             Request e r \<Rightarrow> if too_many_nodes en p (ho_doc h) then h\<lparr>ho_over := True\<rparr> else snd (serve_request en e p r h)
           | Page_Runs doc \<Rightarrow> if en_origin en (en_url en doc) = en_origin en (en_url en (ho_doc h)) then h\<lparr>ho_doc := doc\<rparr> else h
           | Page_Navigates e url \<Rightarrow> navigate_to e p url h
           | Follow e \<Rightarrow> follow_link en e p h)"

definition host_run :: "'d engine \<Rightarrow> headless_policy \<Rightarrow> 'd host_turn list \<Rightarrow> 'd host \<Rightarrow> 'd host" where
  "host_run en p ts h = foldl (\<lambda>h t. host_step en p t h) h ts"

section \<open>What a bot's host keeps\<close>

fun performed :: "'d deed \<Rightarrow> bool" where
  "performed (Performed _ _ _) = True"
| "performed _ = False"

fun inspected :: "'d deed \<Rightarrow> bool" where
  "inspected Inspected = True"
| "inspected _ = False"

text \<open>
  An action was authorized against the document it was performed on, a page was fetched only from where the policy allows and without stored state, it was shown only if
  that is where it came from and it is not too large, and nothing was diagnosed.
\<close>

fun deed_ok :: "'d engine \<Rightarrow> headless_policy \<Rightarrow> 'd deed \<Rightarrow> bool" where
  "deed_ok en p Inspected = True"
| "deed_ok en p (Performed action doc e) = (authorize_action e p (en_dom en doc) (en_join en doc) action = Inr ())"
| "deed_ok en p (Fetched url s doc e) = (s = None \<and> (\<exists>addresses. resolve_public_addresses e p url = Inr addresses))"
| "deed_ok en p (Shown doc e) = (en_nodes en doc \<le> BOT_CHILD_MAX_PAGE_NODES \<and> (\<exists>addresses. resolve_public_addresses e p (en_url en doc) = Inr addresses))"
| "deed_ok en p Diagnosed = False"

definition host_ok :: "'d engine \<Rightarrow> headless_policy \<Rightarrow> 'd host \<Rightarrow> bool" where
  "host_ok en p h \<longleftrightarrow> list_all (deed_ok en p) (ho_deeds h) \<and> length (filter performed (ho_deeds h)) \<le> rb_actions (ho_budget h)
     \<and> length (filter inspected (ho_deeds h)) \<le> rb_inspections (ho_budget h)
     \<and> rb_actions (ho_budget h) \<le> BOT_CHILD_MAX_ACTIONS \<and> rb_inspections (ho_budget h) \<le> BOT_CHILD_MAX_INSPECTIONS
     \<and> rb_requests (ho_budget h) \<le> BOT_CHILD_MAX_REQUESTS"

lemma validated: "bot_child p \<Longrightarrow> validate_url e p url = Inr u \<Longrightarrow> \<exists>addresses. resolve_public_addresses e p url = Inr addresses"
  by (auto simp: validate_url_def)

lemma navigate_to_keeps [simp]:
  "ho_doc (navigate_to e p url h) = ho_doc h" "ho_origin (navigate_to e p url h) = ho_origin h" "ho_deeds (navigate_to e p url h) = ho_deeds h"
  "ho_budget (navigate_to e p url h) = ho_budget h" "ho_over (navigate_to e p url h) = ho_over h"
  by (simp_all add: navigate_to_def split: sum.split)

lemma navigate_all_keeps [simp]:
  "ho_doc (navigate_all e p urls h) = ho_doc h" "ho_origin (navigate_all e p urls h) = ho_origin h" "ho_deeds (navigate_all e p urls h) = ho_deeds h"
  "ho_budget (navigate_all e p urls h) = ho_budget h" "ho_over (navigate_all e p urls h) = ho_over h"
  by (induction urls arbitrary: h) (simp_all add: navigate_all_def)

lemma navigate_all_ok: "host_ok en p h \<Longrightarrow> host_ok en p (navigate_all e p urls h)"
  by (simp add: host_ok_def)

lemma loaded:
  assumes "load en e p url carried = Inr doc"
  shows "validate_url e p (en_url en doc) = Inr () \<and> \<not> too_many_nodes en p doc"
proof (cases "en_fetch en url (if bot_child p then None else restored en carried url)")
  case None
  with assms show ?thesis by (cases "validate_url e p url") (auto simp: load_def)
next
  case (Some d)
  with assms show ?thesis
    by (cases "validate_url e p url"; cases "validate_url e p (en_url en d)") (auto simp: load_def simp del: S_simps split: if_splits)
qed

lemma follow_navigation_deeds:
  "follow_navigation en e p url h = (x, g) \<Longrightarrow>
     ho_budget g = ho_budget h
     \<and> (ho_deeds g = ho_deeds h \<and> ho_doc g = ho_doc h \<and> ho_origin g = ho_origin h
        \<or> (\<exists>doc urls s. en_unload en (ho_doc h) = (doc, urls) \<and> validate_url e p url = Inr ()
             \<and> s = (if bot_child p then None else restored en (Some (snapshot_storage en doc (ho_origin h))) url)
             \<and> (ho_deeds g = ho_deeds h @ [Fetched url s doc e] \<and> ho_doc g = doc \<and> ho_origin g = ho_origin h
                \<or> (\<exists>next'. ho_deeds g = ho_deeds h @ [Fetched url s doc e, Shown next' e] \<and> ho_doc g = next' \<and> ho_origin g = en_origin en (en_url en next')
                     \<and> validate_url e p (en_url en next') = Inr () \<and> \<not> too_many_nodes en p next'))))"
proof (goal_cases)
  case 1
  obtain doc urls where un: "en_unload en (ho_doc h) = (doc, urls)" by (cases "en_unload en (ho_doc h)")
  show ?case
  proof (cases "validate_url e p url")
    case (Inl y)
    with 1 show ?thesis by (simp add: follow_navigation_def)
  next
    case (Inr u)
    let ?c = "if bot_child p then None else Some (snapshot_storage en doc (ho_origin h))"
    show ?thesis
    proof (cases "load en e p url ?c")
      case (Inl y)
      with 1 Inr un show ?thesis by (cases "bot_child p") (auto simp: follow_navigation_def Let_def record_deed_def)
    next
      case (Inr d)
      with 1 \<open>validate_url e p url = Inr u\<close> un loaded [OF Inr] show ?thesis
        by (cases "bot_child p") (auto simp: follow_navigation_def Let_def record_deed_def)
    qed
  qed
qed

lemma follow_navigation_ok:
  assumes "bot_child p" "host_ok en p h"
  shows "host_ok en p (snd (follow_navigation en e p url h))"
proof -
  obtain x g where g: "follow_navigation en e p url h = (x, g)" by (cases "follow_navigation en e p url h")
  show ?thesis
    using follow_navigation_deeds [OF g] assms validated [OF assms(1)] unfolding g by (auto simp: host_ok_def too_many_nodes_def)
qed

lemma admit_budget:
  assumes "bot_child p" "admit p r b = (a, b')" "rb_requests b \<le> BOT_CHILD_MAX_REQUESTS" "rb_actions b \<le> BOT_CHILD_MAX_ACTIONS" "rb_inspections b \<le> BOT_CHILD_MAX_INSPECTIONS"
  shows "rb_requests b' \<le> BOT_CHILD_MAX_REQUESTS \<and> rb_actions b' \<le> BOT_CHILD_MAX_ACTIONS \<and> rb_inspections b' \<le> BOT_CHILD_MAX_INSPECTIONS
    \<and> rb_actions b \<le> rb_actions b' \<and> rb_inspections b \<le> rb_inspections b'
    \<and> (a = Inr () \<longrightarrow> (case r of Act_Request _ \<Rightarrow> rb_actions b' = rb_actions b + 1 | Inspect_Request \<Rightarrow> rb_inspections b' = rb_inspections b + 1 | _ \<Rightarrow> True))"
  using assms by (cases r) (auto simp: admit_def Let_def split: if_splits)

lemma serve_request_ok:
  assumes bot: "bot_child p" and h: "host_ok en p h"
  shows "host_ok en p (snd (serve_request en e p r h))"
proof -
  obtain a b where ab: "admit p r (ho_budget h) = (a, b)" by (cases "admit p r (ho_budget h)")
  have b: "rb_requests b \<le> BOT_CHILD_MAX_REQUESTS" "rb_actions b \<le> BOT_CHILD_MAX_ACTIONS" "rb_inspections b \<le> BOT_CHILD_MAX_INSPECTIONS"
    "rb_actions (ho_budget h) \<le> rb_actions b" "rb_inspections (ho_budget h) \<le> rb_inspections b"
    "a = Inr () \<Longrightarrow> r = Inspect_Request \<Longrightarrow> rb_inspections b = rb_inspections (ho_budget h) + 1"
    "\<And>action. a = Inr () \<Longrightarrow> r = Act_Request action \<Longrightarrow> rb_actions b = rb_actions (ho_budget h) + 1"
    using admit_budget [OF bot ab] h by (auto simp: host_ok_def)
  let ?h = "h\<lparr>ho_budget := b\<rparr>"
  have hb: "host_ok en p ?h" using h b by (simp add: host_ok_def)
  have refusal: "host_ok en p (snd (take_refusal g))" if "host_ok en p g" for g using that by (simp add: take_refusal_def host_ok_def)
  have answered: "host_ok en p (snd (answer_request en e p r ?h))" if ok: "a = Inr ()"
  proof (cases r)
    case Inspect_Request
    then show ?thesis using h b(1-6) ok by (simp add: answer_request_def host_ok_def record_deed_def)
  next
    case (Act_Request action)
    obtain outcome doc urls where act: "en_act en action (ho_doc h) = (outcome, doc, urls)" by (cases "en_act en action (ho_doc h)")
    show ?thesis
    proof (cases "authorize_action e p (en_dom en (ho_doc h)) (en_join en (ho_doc h)) action")
      case (Inr u)
      have "host_ok en p (record_deed (Performed action (ho_doc h) e) (?h\<lparr>ho_doc := doc\<rparr>))"
        using h b(1-5) b(7) [OF ok Act_Request] Inr by (simp add: host_ok_def record_deed_def)
      from navigate_all_ok [OF this] show ?thesis using Act_Request act Inr by (simp add: answer_request_def)
    qed (use hb Act_Request in \<open>simp add: answer_request_def\<close>)
  next
    case (Navigate_Request url)
    have f: "host_ok en p (snd (follow_navigation en e p x ?h))" for x by (rule follow_navigation_ok [OF bot hb])
    show ?thesis
    proof (cases "en_join en (ho_doc h) url")
      case None
      with hb Navigate_Request show ?thesis by (simp add: answer_request_def)
    next
      case (Some x)
      obtain y g where y: "follow_navigation en e p x ?h = (y, g)" by (cases "follow_navigation en e p x ?h")
      with f [of x] Some Navigate_Request show ?thesis by (simp add: answer_request_def split: sum.splits)
    qed
  qed (use hb bot in \<open>simp_all add: answer_request_def\<close>)
  show ?thesis
  proof (cases a)
    case (Inl x)
    with hb ab show ?thesis by (simp add: serve_request_def host_ok_def)
  next
    case (Inr u)
    obtain x g where x: "answer_request en e p r ?h = (x, g)" by (cases "answer_request en e p r ?h")
    with answered refusal [of g] Inr ab bot show ?thesis by (cases "take_refusal g") (simp add: serve_request_def)
  qed
qed

lemma host_run_ok: "bot_child p \<Longrightarrow> host_ok en p h \<Longrightarrow> host_ok en p (host_run en p ts h)"
proof (induction ts arbitrary: h)
  case (Cons t ts)
  have "host_ok en p (host_step en p t h)"
  proof (cases t)
    case (Follow e)
    have "host_ok en p (h\<lparr>ho_destination := None\<rparr>)" using Cons.prems(2) by (simp add: host_ok_def)
    from follow_navigation_ok [OF Cons.prems(1) this] show ?thesis
      using Cons.prems(2) Follow by (simp add: host_step_def follow_link_def split: option.split)
  qed (use Cons.prems serve_request_ok [OF Cons.prems] in \<open>simp_all add: host_step_def host_ok_def\<close>)
  with Cons show ?case by (simp add: host_run_def)
qed (simp add: host_run_def)

lemma start_host_ok: "host_ok en p (start_host en doc)"
  by (simp add: host_ok_def start_host_def no_budget_used_def)

section \<open>Storage between documents\<close>

text \<open>The engine changes no document's origin.\<close>

definition keeps_origin :: "'d engine \<Rightarrow> bool" where
  "keeps_origin en \<longleftrightarrow> (\<forall>action doc. en_origin en (en_url en (fst (snd (en_act en action doc)))) = en_origin en (en_url en doc))
     \<and> (\<forall>doc. en_origin en (en_url en (fst (en_unload en doc))) = en_origin en (en_url en doc))"

fun stored_at_home :: "'d engine \<Rightarrow> 'd deed \<Rightarrow> bool" where
  "stored_at_home en (Fetched url (Some s) doc e) = (en_origin en (en_url en doc) = en_origin en url \<and> s = snapshot_storage en doc (en_origin en url))"
| "stored_at_home en _ = True"

definition origin_ok :: "'d engine \<Rightarrow> 'd host \<Rightarrow> bool" where
  "origin_ok en h \<longleftrightarrow> ho_origin h = en_origin en (en_url en (ho_doc h)) \<and> list_all (stored_at_home en) (ho_deeds h)"

lemma restored_home:
  "restored en (Some (snapshot_storage en doc origin)) url = Some s \<Longrightarrow> origin = en_origin en url \<and> s = snapshot_storage en doc (en_origin en url)"
  by (simp add: restored_def snapshot_storage_def split: prod.splits if_splits)

lemma follow_navigation_origin:
  assumes en: "keeps_origin en" and h: "origin_ok en h"
  shows "origin_ok en (snd (follow_navigation en e p url h))"
proof -
  obtain x g where g: "follow_navigation en e p url h = (x, g)" by (cases "follow_navigation en e p url h")
  obtain doc urls where un: "en_unload en (ho_doc h) = (doc, urls)" by (cases "en_unload en (ho_doc h)")
  have same: "en_origin en (en_url en doc) = ho_origin h" using en h un unfolding keeps_origin_def origin_ok_def by (metis fst_conv)
  let ?s = "if bot_child p then None else restored en (Some (snapshot_storage en doc (ho_origin h))) url"
  have home: "stored_at_home en (Fetched url ?s doc e)"
  proof (cases ?s)
    case (Some s)
    then have "restored en (Some (snapshot_storage en doc (ho_origin h))) url = Some s" by (simp split: if_splits)
    from restored_home [OF this] same show ?thesis unfolding Some by simp
  qed simp
  show ?thesis using follow_navigation_deeds [OF g] home h same unfolding g un by (auto simp: origin_ok_def)
qed

lemma answer_request_origin:
  assumes en: "keeps_origin en" and h: "origin_ok en h"
  shows "origin_ok en (snd (answer_request en e p r h))"
proof (cases r)
  case (Act_Request action)
  obtain outcome doc urls where act: "en_act en action (ho_doc h) = (outcome, doc, urls)" by (cases "en_act en action (ho_doc h)")
  then have "en_origin en (en_url en doc) = en_origin en (en_url en (ho_doc h))" using en unfolding keeps_origin_def by (metis fst_conv snd_conv)
  then show ?thesis using h Act_Request act by (simp add: answer_request_def origin_ok_def record_deed_def split: sum.split)
next
  case (Navigate_Request url)
  have "origin_ok en (snd (follow_navigation en e p x h))" for x by (rule follow_navigation_origin [OF en h])
  then have "origin_ok en (snd (case follow_navigation en e p x h of (Inl y, g) \<Rightarrow> (Failed f, g) | (Inr _, g) \<Rightarrow> (Acknowledged, g)))" for x f
    by (cases "follow_navigation en e p x h") (metis (lifting) case_prod_conv old.sum.exhaust old.sum.simps(5) old.sum.simps(6) snd_conv)
  then show ?thesis using h Navigate_Request by (simp add: answer_request_def split: option.split del: S_simps)
qed (use h in \<open>simp_all add: answer_request_def origin_ok_def record_deed_def\<close>)

lemma host_run_origin: "keeps_origin en \<Longrightarrow> origin_ok en h \<Longrightarrow> origin_ok en (host_run en p ts h)"
proof (induction ts arbitrary: h)
  case (Cons t ts)
  have "origin_ok en (host_step en p t h)"
  proof (cases t)
    case (Request e r)
    have "origin_ok en (snd (serve_request en e p r h))"
    proof (cases "admit p r (ho_budget h)")
      case (Pair a b)
      have "origin_ok en (h\<lparr>ho_budget := b\<rparr>)" using Cons.prems(2) by (simp add: origin_ok_def)
      from answer_request_origin [OF Cons.prems(1) this, of e p r] show ?thesis using Pair Cons.prems(2)
        by (cases "answer_request en e p r (h\<lparr>ho_budget := b\<rparr>)") (simp add: serve_request_def origin_ok_def take_refusal_def split: sum.split)
    qed
    with Request Cons.prems(2) show ?thesis by (simp add: host_step_def origin_ok_def)
  next
    case (Follow e)
    have "origin_ok en (h\<lparr>ho_destination := None\<rparr>)" using Cons.prems(2) by (simp add: origin_ok_def)
    from follow_navigation_origin [OF Cons.prems(1) this] show ?thesis
      using Cons.prems(2) Follow by (simp add: host_step_def follow_link_def split: option.split)
  qed (use Cons.prems in \<open>simp_all add: host_step_def origin_ok_def\<close>)
  with Cons show ?case by (simp add: host_run_def)
qed (simp add: host_run_def)

end
