(* ===== verification/Host_Claims.thy ===== *)
theory Host_Claims
  imports Host_Egress Host_Control "HOL-Library.Sublist"
begin

text \<open>
  What the policy of the headless host achieves for a bot: where its egress filter connects to, what it relays, which actions it performs and what it tells of a page
  (\<^verbatim>\<open>src/apps/chuzz/src/serve.rs\<close>, \<^verbatim>\<open>src/apps/chuzz/src/serve_egress.rs\<close>).
\<close>

section \<open>Hosts by their labels\<close>

lemma ends_with_suffix: "ends_with s p \<longleftrightarrow> (\<exists>t. s = t @ p)"
  by (metis append_eq_conv_conj append_take_drop_id diff_is_0_eq' drop_append ends_with_def length_append
      le_add2 add_diff_cancel_right' append_same_eq)

lemma split_on_append: "split_on d (a @ d # b) = split_on d a @ split_on d b"
  by (induction a) (auto simp: split_on_nonempty split: list.split)

lemma join_append: "ps \<noteq> [] \<Longrightarrow> qs \<noteq> [] \<Longrightarrow> join_strs sep (ps @ qs) = join_strs sep ps @ sep @ join_strs sep qs"
proof (induction ps)
  case (Cons p ps)
  then show ?case by (cases "ps = []") (simp_all add: join_Cons)
qed simp

text \<open>A host is under a domain if its labels end with the labels of the domain.\<close>

definition under_domain :: "str \<Rightarrow> str \<Rightarrow> bool" where
  "under_domain domain host \<longleftrightarrow> suffix (split_on 46 domain) (split_on 46 host)"

lemma under_domain_iff: "under_domain domain host \<longleftrightarrow> host = domain \<or> (\<exists>t. host = t @ 46 # domain)"
proof
  assume "under_domain domain host"
  then obtain ps where ps: "split_on 46 host = ps @ split_on 46 domain" by (auto simp: under_domain_def suffix_def)
  show "host = domain \<or> (\<exists>t. host = t @ 46 # domain)"
  proof (cases "ps = []")
    case True
    with ps show ?thesis by (metis append_Nil join_split)
  next
    case False
    have "host = join_strs [46] ps @ [46] @ domain" using ps join_append [OF False split_on_nonempty] by (metis join_split)
    then show ?thesis by auto
  qed
qed (auto simp: under_domain_def split_on_append suffix_def)

lemma domain_is_allowed_labels: "domain_is_allowed host domains \<longleftrightarrow> domains = [] \<or> list_ex (\<lambda>d. under_domain d host) domains"
proof -
  have "(ends_with host d \<and> ends_with (take (length host - length d) host) [46]) \<longleftrightarrow> (\<exists>t. host = t @ 46 # d)" for d
  proof
    assume l: "ends_with host d \<and> ends_with (take (length host - length d) host) [46]"
    then obtain t where t: "host = t @ d" by (auto simp: ends_with_suffix)
    with l obtain u where "t = u @ [46]" by (auto simp: ends_with_suffix)
    with t show "\<exists>t. host = t @ 46 # d" by simp
  next
    assume "\<exists>t. host = t @ 46 # d"
    then obtain t where t: "host = (t @ [46]) @ d" by auto
    then have "take (length host - length d) host = t @ [46]" by simp
    with t show "ends_with host d \<and> ends_with (take (length host - length d) host) [46]" unfolding ends_with_suffix by blast
  qed
  then show ?thesis by (simp add: domain_is_allowed_def under_domain_iff)
qed

section \<open>Egress\<close>

lemma resolved_public:
  assumes "resolve_public_addresses e p url = Inr addresses"
  shows "list_all (\<lambda>(a, _). is_public_address a) addresses \<and> hu_scheme url = S ''https''
    \<and> (\<exists>host. hu_host url = Some host \<and> \<not> is_local_hostname (ascii_lower (trim_end_dots host))
         \<and> domain_is_allowed (ascii_lower (trim_end_dots host)) (allowed_domains p)
         \<and> (case parse_ip (ascii_lower (trim_end_dots host)) of
              Some a \<Rightarrow> map fst addresses = [a]
            | None \<Rightarrow> \<exists>port. he_resolve e (ascii_lower (trim_end_dots host)) port = Some addresses))"
proof -
  let ?h = "\<lambda>host. ascii_lower (trim_end_dots host)"
  obtain host port where host: "hu_scheme url = S ''https''" "hu_host url = Some host" "\<not> is_local_hostname (?h host)"
    "domain_is_allowed (?h host) (allowed_domains p)"
    and answer: "(case parse_ip (?h host) of
               Some address \<Rightarrow>
                 if \<not> is_public_address address then Inl (S ''local and non-public IP addresses are not allowed'') else Inr [(address, port)]
             | None \<Rightarrow>
                 and_then (ok_or (he_resolve e (?h host) port) (S ''the URL host could not be resolved'')) (\<lambda>addresses.
                   if addresses = [] \<or> list_ex (\<lambda>(address, _). \<not> is_public_address address) addresses
                   then Inl (S ''the URL host does not resolve exclusively to public IP addresses'') else Inr addresses)) = Inr addresses"
    using assms unfolding resolve_public_addresses_def Let_def by (auto simp del: S_simps split: if_splits)
  show ?thesis
  proof (cases "parse_ip (?h host)")
    case None
    then have "list_all (\<lambda>(a, _). is_public_address a) addresses" "he_resolve e (?h host) port = Some addresses"
      using answer by (auto simp: list_all_iff list_ex_iff simp del: S_simps split: if_splits)
    with host None show ?thesis by auto
  next
    case (Some a)
    with answer host show ?thesis by (auto simp del: S_simps split: if_splits)
  qed
qed

lemma connect_first_set: "ev \<in> set (connect_first answers addresses) \<Longrightarrow> ev = Connecting a port \<or> ev = Established a port \<Longrightarrow> (a, port) \<in> set addresses"
  by (induction answers addresses rule: connect_first.induct) (auto split: if_splits)

text \<open>
  C28. Whatever a page makes the browser send to the egress filter, the filter connects to no address of a reserved block: loopback, private, link-local, shared,
  documentation, multicast, or an IPv6 address that embeds one of these. It connects only for a CONNECT to an HTTPS host that is not a local name and, when
  domains are configured, whose labels end with those of one of them; and to a host written as an address, to that address only.
\<close>

theorem egress_only_public:
  assumes "\<And>host port addresses. he_resolve e host port = Some addresses \<Longrightarrow> list_all (\<lambda>(a, _). well_formed_ip a) addresses"
    and "ev \<in> set (handle_connection e p answers in_time incoming)" and "ev = Connecting a port \<or> ev = Established a port"
  shows "\<not> reserved a \<and> (\<exists>head url host. read_head incoming = Some head \<and> proxy_connect_url e head = Some url \<and> hu_scheme url = S ''https''
    \<and> hu_host url = Some host \<and> \<not> is_local_hostname (ascii_lower (trim_end_dots host))
    \<and> (allowed_domains p = [] \<or> list_ex (\<lambda>d. under_domain d (ascii_lower (trim_end_dots host))) (allowed_domains p)))"
proof -
  obtain head where head: "read_head incoming = Some head" "in_time"
    using assms(2,3) by (cases "read_head incoming"; cases in_time) (auto simp: handle_connection_def)
  obtain url where url: "proxy_connect_url e head = Some url"
    using assms(2,3) head by (auto simp: handle_connection_def split: option.splits)
  obtain addresses where addresses: "resolve_public_addresses e p url = Inr addresses"
    using assms(2,3) head url by (auto simp: handle_connection_def split: sum.splits)
  then have "ev \<in> set (connect_first answers addresses)" using assms(2) head url by (simp add: handle_connection_def)
  then have a: "(a, port) \<in> set addresses" using assms(3) by (rule connect_first_set)
  note public = resolved_public [OF addresses]
  then obtain host where host: "hu_host url = Some host" "\<not> is_local_hostname (ascii_lower (trim_end_dots host))"
    "domain_is_allowed (ascii_lower (trim_end_dots host)) (allowed_domains p)"
    "case parse_ip (ascii_lower (trim_end_dots host)) of Some a \<Rightarrow> map fst addresses = [a]
       | None \<Rightarrow> \<exists>port. he_resolve e (ascii_lower (trim_end_dots host)) port = Some addresses" by blast
  have "well_formed_ip a"
  proof (cases "parse_ip (ascii_lower (trim_end_dots host))")
    case None
    then show ?thesis using host(4) assms(1) a by (fastforce simp: list_all_iff)
  next
    case (Some b)
    then have "b = a" using host(4) a by auto
    with Some show ?thesis using parse_ip_well_formed by blast
  qed
  moreover have "is_public_address a" using public a by (auto simp: list_all_iff)
  ultimately have "\<not> reserved a" using public_iff_unreserved by blast
  with head url public host show ?thesis unfolding domain_is_allowed_labels by blast
qed

text \<open>
  The test that the code makes octet by octet and segment by segment is membership in the reserved blocks of the address registries: an address counts as
  public if and only if its leading bits are those of no reserved block, an IPv6 address that embeds an IPv4 address going by that one.
\<close>

theorem public_means_unreserved:
  assumes "well_formed_ip address"
  shows "is_public_address address \<longleftrightarrow> \<not> reserved address"
  by (rule public_iff_unreserved [OF assms])

section \<open>Relaying\<close>

lemma reached_relay: "k < length (px_connections (proxy_run ts idle_proxy)) \<Longrightarrow> relay_ok (relay_of d (px_connections (proxy_run ts idle_proxy) ! k))"
  using proxy_run_ok [OF idle_proxy_ok, of ts] by (cases d) (simp_all add: proxy_ok_def list_all_length connection_ok_def relay_of_def)

lemma relay_sent_prefix:
  assumes "relay_ok r"
  shows "\<exists>rest. ry_read r = ry_sent r @ rest \<and> (ry_ended r \<longrightarrow> rest = [])"
proof -
  have "\<exists>rest. ry_read r = ry_sent r @ rest" using assms by (cases "ry_reserving r") (auto simp: relay_ok_def split: if_splits)
  moreover have "ry_read r = ry_sent r" if "ry_ended r"
  proof -
    have "ry_reserving r = Polling" "ry_written r = ry_length r" "\<not> ry_exhausted r" using assms that by (simp_all add: relay_ok_def)
    with assms show ?thesis by (simp add: relay_ok_def in_hand_def)
  qed
  ultimately show ?thesis by auto
qed

text \<open>
  C29. However connections interleave, each direction of a tunnel has given its writer exactly the first bytes that its reader gave it, in order, none lost and none
  twice; and when it has passed on the end of its stream it has given all of them.
\<close>

theorem relay_faithful:
  assumes "k < length (px_connections (proxy_run ts idle_proxy))"
  shows "case relay_of d (px_connections (proxy_run ts idle_proxy) ! k) of r \<Rightarrow>
    ry_sent r = take (length (ry_sent r)) (ry_read r) \<and> (if ry_ended r then ry_sent r = ry_read r else True)"
  using relay_sent_prefix [OF reached_relay [OF assms, of d]] by auto

lemma sum_list_le: "(\<And>x. x \<in> set xs \<Longrightarrow> f x \<le> (g x :: nat)) \<Longrightarrow> sum_list (map f xs) \<le> sum_list (map g xs)"
  by (rule sum_list_mono) simp

text \<open>
  C30. All connections together never relay more than 32 MiB, whatever they race for; what the shared counter says is what they were allowed. At most 16
  connections are active at a time, and the number kept is right.
\<close>

theorem proxy_limits_hold:
  shows "sum_list (map (\<lambda>c. length (ry_sent (cn_sending c)) + length (ry_sent (cn_receiving c))) (px_connections (proxy_run ts idle_proxy)))
      \<le> px_transferred (proxy_run ts idle_proxy)
    \<and> px_transferred (proxy_run ts idle_proxy) \<le> 32 * 1024 * 1024
    \<and> px_active (proxy_run ts idle_proxy) = length (filter (\<lambda>c. \<not> cn_finished c) (px_connections (proxy_run ts idle_proxy)))
    \<and> px_active (proxy_run ts idle_proxy) \<le> 16"
proof -
  have ok: "proxy_ok (proxy_run ts idle_proxy)" by (rule proxy_run_ok [OF idle_proxy_ok])
  have "sum_list (map (\<lambda>c. length (ry_sent (cn_sending c)) + length (ry_sent (cn_receiving c))) (px_connections (proxy_run ts idle_proxy)))
      \<le> sum_list (map granted_to (px_connections (proxy_run ts idle_proxy)))"
    by (rule sum_list_le) (simp add: granted_to_def granted_def)
  with ok show ?thesis by (simp add: proxy_ok_def unfinished_def MAX_PROXY_BYTES_def MAX_PROXY_CONNECTIONS_def)
qed

section \<open>Control\<close>

text \<open>
  C32. Whatever a bot asks for and the page does, in whichever order: every action that was performed was authorized against the document it was performed on; every page
  that was fetched, and the one it turned out to be when it was shown, is one that the policy resolves to public addresses only, given no stored state and at most 20000
  nodes large; no diagnostics were served, and at most 8 actions and 16 inspections were.
\<close>

theorem bot_run_confined:
  assumes "bot_child p"
  shows "list_all (deed_ok en p) (ho_deeds (host_run en p ts (start_host en doc)))
    \<and> length (filter performed (ho_deeds (host_run en p ts (start_host en doc)))) \<le> 8
    \<and> length (filter inspected (ho_deeds (host_run en p ts (start_host en doc)))) \<le> 16"
proof -
  have "host_ok en p (host_run en p ts (start_host en doc))" by (rule host_run_ok [OF assms start_host_ok])
  then show ?thesis by (auto simp: host_ok_def BOT_CHILD_MAX_ACTIONS_def BOT_CHILD_MAX_INSPECTIONS_def)
qed

text \<open>
  Where storage is carried from one document to the next it comes back only to its own origin: a page is fetched with what another one stored only if
  that one, the document it is to replace, has its origin, and then with all that it holds.
\<close>

theorem storage_stays_home:
  assumes "keeps_origin en"
  shows "list_all (stored_at_home en) (ho_deeds (host_run en p ts (start_host en doc)))"
proof -
  have "origin_ok en (start_host en doc)" by (simp add: origin_ok_def start_host_def)
  from host_run_origin [OF assms this] show ?thesis by (simp add: origin_ok_def)
qed

lemma followed:
  assumes "validate_url e p url = Inr ()" "en_unload en (ho_doc h) = (d, [])"
    and "load en e p url (if bot_child p then None else Some (snapshot_storage en d (ho_origin h))) = Inr doc"
  shows "fst (follow_navigation en e p url h) = Inr () \<and> ho_doc (snd (follow_navigation en e p url h)) = doc
    \<and> ho_destination (snd (follow_navigation en e p url h)) = ho_destination h \<and> ho_over (snd (follow_navigation en e p url h)) = ho_over h
    \<and> ho_origin (snd (follow_navigation en e p url h)) = en_origin en (en_url en doc)"
  using assms by (cases "bot_child p") (simp_all add: follow_navigation_def Let_def record_deed_def navigate_all_def)

text \<open>
  C34. A navigation that the caller asks for does not hold against a link that the page followed earlier: if the request for it had come before the host looked, the host loads the page that was asked for,
  acknowledges it, and then goes on to the earlier link.
\<close>

theorem earlier_link_overrides_navigation:
  assumes "\<not> bot_child p" "\<not> ho_over h" "ho_destination h = Some link" "\<And>d. en_unload en d = (d, [])"
    and "en_join en (ho_doc h) text' = Some asked" "\<And>url carried. en_fetch en url carried = Some (page url)"
  shows "fst (serve_request en e p (Navigate_Request text') h) = Acknowledged
    \<and> ho_doc (host_run en p [Request e (Navigate_Request text')] h) = page asked
    \<and> ho_doc (host_run en p [Request e (Navigate_Request text'), Follow e] h) = page link"
proof -
  have valid: "validate_url e p url = Inr ()" for url using assms(1) by (simp add: validate_url_def)
  have load: "load en e p url carried = Inr (page url)" for url carried
    using assms(1,6) valid by (simp add: load_def too_many_nodes_def)
  let ?f = "\<lambda>url h. follow_navigation en e p url h"
  have follow: "?f url g = (Inr (), snd (?f url g)) \<and> ho_doc (snd (?f url g)) = page url \<and> ho_destination (snd (?f url g)) = ho_destination g
      \<and> ho_over (snd (?f url g)) = ho_over g" for url g
    using followed [OF valid [of url] assms(4) load, of g] by (metis prod.collapse)
  have served: "serve_request en e p (Navigate_Request text') h = (Acknowledged, snd (?f asked h))"
    using follow [of asked h] assms(1,5) by (auto simp: serve_request_def admit_def answer_request_def split: prod.split sum.split)
  have first: "host_step en p (Request e (Navigate_Request text')) h = snd (?f asked h)"
    using assms(1,2) served by (simp add: host_step_def too_many_nodes_def)
  have second: "host_step en p (Follow e) (snd (?f asked h)) = snd (?f link ((snd (?f asked h))\<lparr>ho_destination := None\<rparr>))"
    using assms(2,3) follow [of asked h] by (simp add: host_step_def follow_link_def)
  show ?thesis using served follow unfolding host_run_def foldl.simps first second by simp
qed

text \<open>The nodes from a target up through its ancestors.\<close>

fun ancestry :: "dom \<Rightarrow> nat \<Rightarrow> nat option \<Rightarrow> nat list" where
  "ancestry doc left None = []"
| "ancestry doc 0 (Some nid) = []"
| "ancestry doc (Suc left) (Some nid) = nid # (case doc nid of None \<Rightarrow> [] | Some node \<Rightarrow> ancestry doc left (dn_parent node))"

definition element_at :: "dom \<Rightarrow> nat \<Rightarrow> (str \<Rightarrow> (str \<times> str) list \<Rightarrow> bool) \<Rightarrow> bool" where
  "element_at doc nid holds = (case doc nid of None \<Rightarrow> False | Some node \<Rightarrow> (case dn_data node of Element name attrs \<Rightarrow> holds name attrs | _ \<Rightarrow> False))"

definition in_form :: "str \<Rightarrow> (str \<times> str) list \<Rightarrow> bool" where
  "in_form name attrs \<longleftrightarrow> ascii_lower name = S ''form'' \<or> element_attribute attrs ''form'' \<noteq> None"

definition may_activate :: "str \<Rightarrow> (str \<times> str) list \<Rightarrow> bool" where
  "may_activate name attrs \<longleftrightarrow> submit_control (ascii_lower name) (ascii_lower (case element_attribute attrs ''type'' of None \<Rightarrow> [] | Some v \<Rightarrow> v))
     \<or> (case element_attribute attrs ''role'' of None \<Rightarrow> False | Some role \<Rightarrow> word_is role ''button'' \<or> word_is role ''menuitem'')
     \<or> element_attribute attrs ''onclick'' \<noteq> None"

definition leaves_page :: "str \<Rightarrow> (str \<times> str) list \<Rightarrow> bool" where
  "leaves_page name attrs \<longleftrightarrow> element_attribute attrs ''download'' \<noteq> None \<or> element_attribute attrs ''target'' = Some (S ''_blank'')"

lemma walk_up_collects:
  assumes "walk_up doc left target start c = Some c'"
  shows "(ac_sensitive c' \<longleftrightarrow> ac_sensitive c \<or> list_ex (\<lambda>n. element_at doc n (\<lambda>_. sensitive_element doc n)) (ancestry doc left start))
    \<and> (ac_has_form c' \<longleftrightarrow> ac_has_form c \<or> list_ex (\<lambda>n. element_at doc n in_form) (ancestry doc left start))
    \<and> (ac_download c' \<or> ac_new_window c' \<longleftrightarrow> ac_download c \<or> ac_new_window c \<or> list_ex (\<lambda>n. element_at doc n leaves_page) (ancestry doc left start))
    \<and> (ac_submit_control c' \<or> ac_button_role c' \<or> ac_click_handler c'
        \<longleftrightarrow> ac_submit_control c \<or> ac_button_role c \<or> ac_click_handler c \<or> list_ex (\<lambda>n. element_at doc n may_activate) (ancestry doc left start))"
  using assms
proof (induction doc left target start c arbitrary: c' rule: walk_up.induct)
  case (3 doc left target nid c)
  then obtain node where node: "doc nid = Some node" by (auto split: option.splits)
  show ?case
  proof (cases "dn_data node")
    case (Element name attrs)
    have step: "walk_up doc left False (dn_parent node) (read_element doc target nid name attrs c) = Some c'" using 3(2) node Element by simp
    note ih = 3(1) [OF node, unfolded Element node_data.case, OF step]
    let ?r = "read_element doc target nid name attrs c"
    have fields: "ac_sensitive ?r = (ac_sensitive c \<or> sensitive_element doc nid attrs)"
      "ac_has_form ?r = (ac_has_form c \<or> ascii_lower name = S ''form'' \<or> element_attribute attrs ''form'' \<noteq> None)"
      "ac_download ?r = (ac_download c \<or> element_attribute attrs ''download'' \<noteq> None)"
      "ac_new_window ?r = (ac_new_window c \<or> element_attribute attrs ''target'' = Some (S ''_blank''))"
      "ac_button_role ?r = (ac_button_role c \<or> (case element_attribute attrs ''role'' of None \<Rightarrow> False | Some role \<Rightarrow> word_is role ''button'' \<or> word_is role ''menuitem''))"
      "ac_click_handler ?r = (ac_click_handler c \<or> element_attribute attrs ''onclick'' \<noteq> None)"
      "ac_submit_control ?r = (ac_submit_control c \<or> submit_control (ascii_lower name) (ascii_lower (case element_attribute attrs ''type'' of None \<Rightarrow> [] | Some v \<Rightarrow> v)))"
      unfolding read_element_def Let_def by (simp_all del: S_simps)
    have read: "ac_sensitive ?r \<or> P \<longleftrightarrow> ac_sensitive c \<or> sensitive_element doc nid attrs \<or> P" "ac_has_form ?r \<or> P \<longleftrightarrow> ac_has_form c \<or> in_form name attrs \<or> P"
      "ac_download ?r \<or> ac_new_window ?r \<or> P \<longleftrightarrow> ac_download c \<or> ac_new_window c \<or> leaves_page name attrs \<or> P"
      "ac_submit_control ?r \<or> ac_button_role ?r \<or> ac_click_handler ?r \<or> P
        \<longleftrightarrow> ac_submit_control c \<or> ac_button_role c \<or> ac_click_handler c \<or> may_activate name attrs \<or> P" for P
      unfolding fields in_form_def leaves_page_def may_activate_def by blast+
    have here: "element_at doc nid holds = holds name attrs" for holds by (simp add: element_at_def node Element)
    have path: "ancestry doc (Suc left) (Some nid) = nid # ancestry doc left (dn_parent node)" by (simp add: node)
    show ?thesis unfolding path list_ex_Cons_iff here by (rule ih [unfolded read])
  qed (use 3 node in \<open>simp_all add: element_at_def\<close>)
qed auto

text \<open>The nearest link up from the target.\<close>

definition link_at :: "dom \<Rightarrow> nat \<Rightarrow> str option" where
  "link_at doc nid = (case doc nid of
     Some node \<Rightarrow> (case dn_data node of Element name attrs \<Rightarrow> if ascii_lower name = S ''a'' then element_attribute attrs ''href'' else None | _ \<Rightarrow> None)
   | None \<Rightarrow> None)"

fun first_link :: "dom \<Rightarrow> nat list \<Rightarrow> str option" where
  "first_link doc [] = None"
| "first_link doc (n # ns) = (case link_at doc n of Some href \<Rightarrow> Some href | None \<Rightarrow> first_link doc ns)"

lemma walk_up_link:
  "walk_up doc left target start c = Some c' \<Longrightarrow>
     ac_href c' = (case ac_href c of Some href \<Rightarrow> Some href | None \<Rightarrow> first_link doc (ancestry doc left start))"
proof (induction doc left target start c arbitrary: c' rule: walk_up.induct)
  case (3 doc left target nid c)
  then obtain node where node: "doc nid = Some node" by (auto split: option.splits)
  have path: "ancestry doc (Suc left) (Some nid) = nid # ancestry doc left (dn_parent node)" by (simp add: node)
  let ?c = "case dn_data node of Element name attrs \<Rightarrow> read_element doc target nid name attrs c | _ \<Rightarrow> c"
  have step: "walk_up doc left False (dn_parent node) ?c = Some c'" using 3(2) node by simp
  have href: "ac_href ?c = (case ac_href c of Some href \<Rightarrow> Some href | None \<Rightarrow> link_at doc nid)"
    by (cases "ac_href c"; cases "dn_data node") (simp_all add: read_element_def Let_def link_at_def node del: S_simps)
  show ?case using 3(1) [OF node step] unfolding path first_link.simps href by (cases "ac_href c") (simp_all split: option.split)
qed (auto split: option.split)

text \<open>Where a form that the target submits goes: the nearest \<open>formaction\<close>, or the action of the form if that is nearer.\<close>

definition form_action_at :: "dom \<Rightarrow> nat \<Rightarrow> str option" where
  "form_action_at doc nid = (case doc nid of
     Some node \<Rightarrow> (case dn_data node of
         Element name attrs \<Rightarrow> (case element_attribute attrs ''formaction'' of
             Some url \<Rightarrow> Some url
           | None \<Rightarrow> if ascii_lower name = S ''form'' then element_attribute attrs ''action'' else None)
       | _ \<Rightarrow> None)
   | None \<Rightarrow> None)"

fun first_form_action :: "dom \<Rightarrow> nat list \<Rightarrow> str option" where
  "first_form_action doc [] = None"
| "first_form_action doc (n # ns) = (case form_action_at doc n of Some url \<Rightarrow> Some url | None \<Rightarrow> first_form_action doc ns)"

lemma walk_up_form_action:
  "walk_up doc left target start c = Some c' \<Longrightarrow>
     ac_form_action c' = (case ac_form_action c of Some url \<Rightarrow> Some url | None \<Rightarrow> first_form_action doc (ancestry doc left start))"
proof (induction doc left target start c arbitrary: c' rule: walk_up.induct)
  case (3 doc left target nid c)
  then obtain node where node: "doc nid = Some node" by (auto split: option.splits)
  have path: "ancestry doc (Suc left) (Some nid) = nid # ancestry doc left (dn_parent node)" by (simp add: node)
  let ?c = "case dn_data node of Element name attrs \<Rightarrow> read_element doc target nid name attrs c | _ \<Rightarrow> c"
  have step: "walk_up doc left False (dn_parent node) ?c = Some c'" using 3(2) node by simp
  have url: "ac_form_action ?c = (case ac_form_action c of Some url \<Rightarrow> Some url | None \<Rightarrow> form_action_at doc nid)"
    by (cases "ac_form_action c"; cases "dn_data node")
      (simp_all add: read_element_def Let_def form_action_at_def node del: S_simps split: option.split)
  show ?case using 3(1) [OF node step] unfolding path first_form_action.simps url by (cases "ac_form_action c") (simp_all split: option.split)
qed (auto split: option.split)

definition restricted_path :: "dom \<Rightarrow> nat \<Rightarrow> bool" where
  "restricted_path doc nid \<longleftrightarrow> list_ex (\<lambda>n. element_at doc n (\<lambda>_. sensitive_element doc n)) (ancestry doc 16 (Some nid))"

lemma context_of_path:
  assumes "action_context doc nid = Some c"
  shows "ac_sensitive c \<longleftrightarrow> restricted_path doc nid"
    "ac_download c \<or> ac_new_window c \<longleftrightarrow> list_ex (\<lambda>n. element_at doc n leaves_page) (ancestry doc 16 (Some nid))"
    "ac_may_submit c \<longleftrightarrow> list_ex (\<lambda>n. element_at doc n in_form) (ancestry doc 16 (Some nid)) \<and> list_ex (\<lambda>n. element_at doc n may_activate) (ancestry doc 16 (Some nid))"
    "ac_href c = first_link doc (ancestry doc 16 (Some nid))"
    "ac_form_action c = first_form_action doc (ancestry doc 16 (Some nid))"
proof -
  obtain d where d: "walk_up doc 16 True (Some nid) empty_context = Some d"
    "c = d\<lparr>ac_may_submit := ac_has_form d \<and> (ac_submit_control d \<or> ac_button_role d \<or> ac_click_handler d)\<rparr>"
    using assms by (auto simp: action_context_def)
  have empty: "ac_sensitive empty_context = False" "ac_has_form empty_context = False" "ac_download empty_context = False" "ac_new_window empty_context = False"
    "ac_submit_control empty_context = False" "ac_button_role empty_context = False" "ac_click_handler empty_context = False" "ac_href empty_context = None" "ac_form_action empty_context = None"
    by (simp_all add: empty_context_def)
  note facts = walk_up_collects [OF d(1), unfolded empty simp_thms]
  show "ac_sensitive c \<longleftrightarrow> restricted_path doc nid" using facts [THEN conjunct1] by (simp add: d(2) restricted_path_def del: ancestry.simps)
  show "ac_download c \<or> ac_new_window c \<longleftrightarrow> list_ex (\<lambda>n. element_at doc n leaves_page) (ancestry doc 16 (Some nid))"
    using facts [THEN conjunct2, THEN conjunct2, THEN conjunct1] by (simp add: d(2) del: ancestry.simps)
  show "ac_may_submit c \<longleftrightarrow> list_ex (\<lambda>n. element_at doc n in_form) (ancestry doc 16 (Some nid)) \<and> list_ex (\<lambda>n. element_at doc n may_activate) (ancestry doc 16 (Some nid))"
    using facts [THEN conjunct2, THEN conjunct1] facts [THEN conjunct2, THEN conjunct2, THEN conjunct2] by (simp add: d(2) del: ancestry.simps)
  show "ac_href c = first_link doc (ancestry doc 16 (Some nid))" using walk_up_link [OF d(1)] by (simp add: d(2) empty del: ancestry.simps)
  show "ac_form_action c = first_form_action doc (ancestry doc 16 (Some nid))"
    using walk_up_form_action [OF d(1)] by (simp add: d(2) empty del: ancestry.simps)
qed


text \<open>
  A large container hides its text: once 96 nodes are pending the walk stops, with nothing if the first child that it looks at has two children of its own.
\<close>

lemma crowded_text_unseen:
  assumes "doc root = Some node" "case dn_data node of Text_Node _ \<Rightarrow> False | _ \<Rightarrow> True" "96 \<le> length (dn_children node)"
    and "doc (hd (last_children (dn_children node))) = Some child" "case dn_data child of Text_Node _ \<Rightarrow> False | _ \<Rightarrow> True" "2 \<le> length (dn_children child)"
  shows "bounded_descendant_text doc root most = []"
proof (cases most)
  case (Suc m)
  let ?cs = "last_children (dn_children node)"
  have len: "length ?cs = 96" using assms(3) by (simp add: last_children_def)
  then obtain c rest where cs: "?cs = c # rest" "length rest = 95" by (cases ?cs) auto
  obtain a b more' where ds: "last_children (dn_children child) = a # b # more'"
  proof -
    have "2 \<le> length (last_children (dn_children child))" using assms(6) by (simp add: last_children_def)
    then show thesis using that by (cases "last_children (dn_children child)"; cases "tl (last_children (dn_children child))") auto
  qed
  have root: "text_loop doc most [] [(root, 0)] = text_loop doc most [] (map (\<lambda>c. (c, 1)) ?cs)"
    using assms(1,2) Suc by (cases "dn_data node") (simp_all add: last_children_def)
  have first: "text_loop doc most [] (map (\<lambda>c. (c, 1)) ?cs)
      = text_loop doc most [] (map (\<lambda>c. (c, 2)) (last_children (dn_children child)) @ map (\<lambda>c. (c, 1)) rest)"
    using assms(4,5) cs Suc by (cases "dn_data child") (simp_all add: cs numeral_2_eq_2)
  show ?thesis unfolding bounded_descendant_text_def root first ds using cs(2) Suc by simp
qed (simp add: bounded_descendant_text_def)

section \<open>Inspection\<close>

lemma take_own_length: "zs = take n ys \<Longrightarrow> zs = take (length zs) ys"
  by (cases "n \<le> length ys") auto

definition optional_len :: "str option \<Rightarrow> nat" where
  "optional_len v = (case v of None \<Rightarrow> 0 | Some v \<Rightarrow> utf8_len v)"

definition node_text :: "'x semantic_node \<Rightarrow> nat" where
  "node_text n = optional_len (sm_dom_id n) + utf8_len (sm_role n) + utf8_len (sm_name n) + optional_len (sm_value n) + optional_len (sm_slot n)"

lemma prefix_within_len: "utf8_len (prefix_within n s) \<le> n"
  by (induction n s rule: prefix_within.induct) (auto simp: utf8_len_def)

lemma trim_text_len: "trim_text limit v remaining = (t, r) \<Longrightarrow> utf8_len t + r = remaining \<and> utf8_len t \<le> limit"
  using prefix_within_len [of "min limit remaining" v] by (auto simp: trim_text_def Let_def)

lemma trim_optional_len: "trim_optional_text limit v remaining = (t, r) \<Longrightarrow> optional_len t + r = remaining \<and> (v = None \<longrightarrow> t = None)"
  by (cases v) (auto simp: trim_optional_text_def optional_len_def dest: trim_text_len split: prod.splits)

lemma trim_node_len:
  assumes "trim_node n remaining = (m, r)"
  shows "node_text m + r = remaining \<and> sm_id m = sm_id n \<and> (sm_value n = None \<longrightarrow> sm_value m = None)"
proof -
  obtain d r1 where 1: "trim_optional_text 128 (sm_dom_id n) remaining = (d, r1)" by (cases "trim_optional_text 128 (sm_dom_id n) remaining")
  obtain o' r2 where 2: "trim_text 64 (sm_role n) r1 = (o', r2)" by (cases "trim_text 64 (sm_role n) r1")
  obtain a r3 where 3: "trim_text 512 (sm_name n) r2 = (a, r3)" by (cases "trim_text 512 (sm_name n) r2")
  obtain v r4 where 4: "trim_optional_text 512 (sm_value n) r3 = (v, r4)" by (cases "trim_optional_text 512 (sm_value n) r3")
  obtain s r5 where 5: "trim_optional_text 128 (sm_slot n) r4 = (s, r5)" by (cases "trim_optional_text 128 (sm_slot n) r4")
  have "m = n\<lparr>sm_dom_id := d, sm_role := o', sm_name := a, sm_value := v, sm_slot := s\<rparr>" "r = r5"
    using assms by (simp_all add: trim_node_def 1 2 3 4 5)
  then show ?thesis
    using trim_optional_len [OF 1] trim_text_len [OF 2] trim_text_len [OF 3] trim_optional_len [OF 4] trim_optional_len [OF 5] by (simp add: node_text_def)
qed

lemma trim_nodes_len:
  "sum_list (map node_text (trim_nodes ns remaining)) \<le> remaining \<and> map sm_id (trim_nodes ns remaining) = map sm_id ns
   \<and> list_all2 (\<lambda>n m. sm_id m = sm_id n \<and> (sm_value n = None \<longrightarrow> sm_value m = None)) ns (trim_nodes ns remaining)"
proof (induction ns remaining rule: trim_nodes.induct)
  case (2 n ns remaining)
  obtain m r where m: "trim_node n remaining = (m, r)" by (cases "trim_node n remaining")
  with trim_node_len [OF m] 2 [OF m [symmetric]] show ?case by simp
qed simp

lemma shrink_to_fit_spec:
  "(\<exists>k. shrink_to_fit encoded s = s\<lparr>sp_nodes := take k (sp_nodes s)\<rparr> \<and> (\<exists>n. encoded (shrink_to_fit encoded s) = Some n \<and> n \<le> BOT_CHILD_MAX_INSPECT_BYTES))
   \<or> sp_nodes (shrink_to_fit encoded s) = [] \<and> sp_active_window (shrink_to_fit encoded s) = None"
proof (induction encoded s rule: shrink_to_fit.induct)
  case (1 encoded s)
  show ?case
  proof (cases "encoded s")
    case None
    then show ?thesis by (simp add: shrink_to_fit.simps)
  next
    case (Some n)
    consider "n \<le> BOT_CHILD_MAX_INSPECT_BYTES" | "BOT_CHILD_MAX_INSPECT_BYTES < n" "sp_nodes s \<noteq> []" | "BOT_CHILD_MAX_INSPECT_BYTES < n" "sp_nodes s = []" by linarith
    then show ?thesis
    proof cases
      case 1
      with Some have "shrink_to_fit encoded s = s\<lparr>sp_nodes := take (length (sp_nodes s)) (sp_nodes s)\<rparr>" by (simp add: shrink_to_fit.simps)
      moreover have "shrink_to_fit encoded s = s" using Some 1 by (simp add: shrink_to_fit.simps)
      ultimately show ?thesis using Some 1 by metis
    next
      case 2
      then have eq: "shrink_to_fit encoded s = shrink_to_fit encoded (s\<lparr>sp_nodes := butlast (sp_nodes s)\<rparr>)" using Some by (simp add: shrink_to_fit.simps)
      from 1 [OF Some] 2 have "(\<exists>k. shrink_to_fit encoded (s\<lparr>sp_nodes := butlast (sp_nodes s)\<rparr>) = s\<lparr>sp_nodes := take k (butlast (sp_nodes s))\<rparr>
          \<and> (\<exists>n. encoded (shrink_to_fit encoded (s\<lparr>sp_nodes := butlast (sp_nodes s)\<rparr>)) = Some n \<and> n \<le> BOT_CHILD_MAX_INSPECT_BYTES))
        \<or> sp_nodes (shrink_to_fit encoded (s\<lparr>sp_nodes := butlast (sp_nodes s)\<rparr>)) = []
          \<and> sp_active_window (shrink_to_fit encoded (s\<lparr>sp_nodes := butlast (sp_nodes s)\<rparr>)) = None" by simp
      moreover have "take k (butlast (sp_nodes s)) = take (min k (length (sp_nodes s) - 1)) (sp_nodes s)" for k by (simp add: butlast_conv_take min.commute)
      ultimately show ?thesis unfolding eq by metis
    next
      case 3
      then show ?thesis using Some by (simp add: shrink_to_fit.simps)
    qed
  qed
qed

text \<open>
  C33. What a bot is told of a page fits in 60 KiB as it is encoded, unless even an empty snapshot does not, holds at most 512 nodes and 60 KiB of text, names the first nodes of the page
  in their order, and shows no value of a field that is, or is inside, a restricted surface.
\<close>

theorem inspection_bounded:
  assumes "bot_child p" and "sanitize_inspection encoded p doc (Agent_Snapshot s) = Agent_Snapshot s'"
  shows "((\<exists>n. encoded s' = Some n \<and> n \<le> 60 * 1024) \<or> sp_nodes s' = [] \<and> sp_active_window s' = None)
    \<and> length (sp_nodes s') \<le> 512
    \<and> optional_len (sp_active_window s') + sum_list (map node_text (sp_nodes s')) \<le> 60 * 1024
    \<and> map sm_id (sp_nodes s') = take (length (sp_nodes s')) (map sm_id (sp_nodes s))
    \<and> list_all (\<lambda>n. sm_value n = None \<or> action_context doc (sm_id n) = None \<or> \<not> restricted_path doc (sm_id n)) (sp_nodes s')"
proof -
  let ?ns = "map (redact doc) (take BOT_CHILD_MAX_INSPECT_NODES (sp_nodes s))"
  obtain w r where w: "trim_optional_text 128 (sp_active_window s) BOT_CHILD_MAX_INSPECT_BYTES = (w, r)"
    by (cases "trim_optional_text 128 (sp_active_window s) BOT_CHILD_MAX_INSPECT_BYTES")
  let ?t = "s\<lparr>sp_active_window := w, sp_nodes := trim_nodes ?ns r\<rparr>"
  have s': "s' = shrink_to_fit encoded ?t" using assms w by (simp add: sanitize_inspection_def bound_inspection_snapshot_def)
  have trimmed: "sum_list (map node_text (trim_nodes ?ns r)) \<le> r" "map sm_id (trim_nodes ?ns r) = map sm_id ?ns"
    "list_all2 (\<lambda>n m. sm_id m = sm_id n \<and> (sm_value n = None \<longrightarrow> sm_value m = None)) ?ns (trim_nodes ?ns r)"
    using trim_nodes_len [of ?ns r] by simp_all
  have ids: "map sm_id ?ns = take 512 (map sm_id (sp_nodes s))"
    by (simp add: BOT_CHILD_MAX_INSPECT_NODES_def take_map redact_def split: option.split)
  have len: "length (trim_nodes ?ns r) \<le> 512" using trimmed(2) by (metis length_map length_take min.cobounded2 BOT_CHILD_MAX_INSPECT_NODES_def)
  have hidden: "sm_value m = None \<or> action_context doc (sm_id m) = None \<or> \<not> restricted_path doc (sm_id m)" if mem: "m \<in> set (trim_nodes ?ns r)" for m
  proof -
    obtain i where i: "i < length (trim_nodes ?ns r)" "m = trim_nodes ?ns r ! i" using mem unfolding in_set_conv_nth by blast
    then have il: "i < length ?ns" using list_all2_lengthD [OF trimmed(3)] by (simp only:)
    have m: "sm_id m = sm_id (?ns ! i)" "sm_value (?ns ! i) = None \<longrightarrow> sm_value m = None"
      using list_all2_nthD [OF trimmed(3) il] unfolding i(2) by blast+
    obtain n where n: "?ns ! i = redact doc n" using nth_map [of i "take BOT_CHILD_MAX_INSPECT_NODES (sp_nodes s)" "redact doc"] il unfolding length_map by blast
    have "sm_id (redact doc n) = sm_id n" by (simp add: redact_def split: option.split)
    moreover have "sm_value (redact doc n) = None" if "action_context doc (sm_id n) = Some c" "restricted_path doc (sm_id n)" for c
      using that context_of_path(1) [OF that(1)] by (simp add: redact_def)
    ultimately show ?thesis using m n by (cases "action_context doc (sm_id n)") auto
  qed
  consider k where "s' = ?t\<lparr>sp_nodes := take k (trim_nodes ?ns r)\<rparr>" "\<exists>n. encoded s' = Some n \<and> n \<le> BOT_CHILD_MAX_INSPECT_BYTES"
    | "sp_nodes s' = []" "sp_active_window s' = None"
    using shrink_to_fit_spec [of encoded ?t] unfolding s' by auto
  then show ?thesis
  proof cases
    case 1
    have nodes: "sp_nodes s' = take k (trim_nodes ?ns r)" and window: "sp_active_window s' = w" using 1(1) by simp_all
    have "sum_list (map node_text (take k (trim_nodes ?ns r))) \<le> sum_list (map node_text (trim_nodes ?ns r))"
      by (metis append_take_drop_id le_add1 map_append sum_list_append)
    then have size_ok: "optional_len w + sum_list (map node_text (sp_nodes s')) \<le> 60 * 1024"
      using trimmed(1) trim_optional_len [OF w] unfolding nodes BOT_CHILD_MAX_INSPECT_BYTES_def by linarith
    have "map sm_id (sp_nodes s') = take k (map sm_id (trim_nodes ?ns r))" unfolding nodes by (rule take_map [symmetric])
    then have first: "map sm_id (sp_nodes s') = take (min k 512) (map sm_id (sp_nodes s))" unfolding trimmed(2) ids take_take .
    have order: "map sm_id (sp_nodes s') = take (length (sp_nodes s')) (map sm_id (sp_nodes s))"
      using take_own_length [OF first] unfolding length_map .
    have "list_all (\<lambda>n. sm_value n = None \<or> action_context doc (sm_id n) = None \<or> \<not> restricted_path doc (sm_id n)) (sp_nodes s')"
      using hidden unfolding nodes list_all_iff by (meson in_set_takeD)
    moreover have "length (sp_nodes s') \<le> 512" unfolding nodes using len by simp
    moreover have "\<exists>n. encoded s' = Some n \<and> n \<le> 60 * 1024" using 1(2) unfolding BOT_CHILD_MAX_INSPECT_BYTES_def .
    moreover have "optional_len (sp_active_window s') + sum_list (map node_text (sp_nodes s')) \<le> 60 * 1024" unfolding window by (rule size_ok)
    ultimately show ?thesis using order by blast
  next
    case 2
    then show ?thesis by (simp add: optional_len_def)
  qed
qed

end
