(* ===== verification/Host_Examples.thy ===== *)
theory Host_Examples
  imports Host_Claims
begin

text \<open>
  A host on concrete inputs: a tunnel that is opened, bytes that are relayed, a page that a bot reads and clicks on.
\<close>

section \<open>Egress\<close>

definition sample_url :: host_url where
  "sample_url = \<lparr>hu_scheme = S ''https'', hu_username = [], hu_password = None, hu_host = Some (S ''a.b''), hu_is_domain = True, hu_port = None, hu_known_port = Some 443\<rparr>"

definition sample_env :: host_env where
  "sample_env = \<lparr>he_var = (\<lambda>_. None), he_parse = (\<lambda>_. Some sample_url), he_resolve = (\<lambda>_ _. Some [(V4 8 8 4 4, 443)])\<rparr>"

definition sample_policy :: headless_policy where
  "sample_policy = \<lparr>bot_child = True, allowed_domains = [S ''b''], allow_form_submit = False, wall_time = 1000\<rparr>"

text \<open>\<open>CONNECT a.b\<close> and an empty line.\<close>

definition sample_head :: bytes where
  "sample_head = [67, 79, 78, 78, 69, 67, 84, 32, 97, 46, 98, 13, 10, 13, 10]"

lemma sample_no_address: "parse_ip (S ''a.b'') = None"
proof -
  have v4: "read_ipv4 t = None" if "t = S ''a.b'' \<or> t = []" for t
    using that by (auto simp: read_ipv4_def read_octet_def read_number_def decimal_digit_def is_ascii_digit_def)
  have first: "read_number hex_value 16 4 65535 True (S ''a.b'') = Some (10, [46, 98])" by (simp add: read_number_def hex_value_def is_ascii_digit_def)
  have stop: "read_after_colon 1 read_ipv4 [46, 98] = None" "read_after_colon 1 (read_number hex_value 16 4 65535 True) [46, 98] = None"
    by (simp_all add: read_after_colon_def read_given_def)
  have nats: "(8::nat) = Suc 7" "(7::nat) = Suc 6" by simp_all
  have "read_groups 7 1 [46, 98] = ([], False, [46, 98])" unfolding nats(2) read_groups.simps using stop by simp
  then have "read_groups 8 0 (S ''a.b'') = ([10], False, [46, 98])"
    unfolding nats(1) read_groups.simps using v4 [of "S ''a.b''"] first by (simp add: read_after_colon_def del: S_simps)
  then have "read_ipv6 (S ''a.b'') = None" by (simp add: read_ipv6_def read_given_def del: S_simps)
  with v4 show ?thesis by (simp add: parse_ip_def del: S_simps)
qed

lemma sample_host: "ascii_lower (trim_end_dots (S ''a.b'')) = S ''a.b''" "\<not> is_local_hostname (S ''a.b'')" "domain_is_allowed (S ''a.b'') [S ''b'']"
  by (simp_all add: ascii_lower_def trim_end_dots_def is_local_hostname_def domain_is_allowed_def ends_with_def)

lemma sample_resolves: "resolve_public_addresses sample_env sample_policy sample_url = Inr [(V4 8 8 4 4, 443)]"
proof -
  have "is_public_address (V4 8 8 4 4)" by (simp add: is_public_address_def is_public_ipv4_def)
  moreover have "trim_end_dots (S ''a.b'') \<noteq> []" by (simp add: trim_end_dots_def)
  ultimately show ?thesis
    by (simp add: sample_host sample_no_address resolve_public_addresses_def sample_url_def sample_env_def sample_policy_def Let_def del: S_simps)
qed

lemma sample_read: "read_head sample_head = Some (S ''CONNECT a.b'' @ [13, 10, 13, 10])"
proof -
  have "sample_head = utf8 (S ''CONNECT a.b'' @ [13, 10, 13, 10])" by (simp add: sample_head_def utf8_def utf8_char_def)
  moreover have "from_utf8 (utf8 (S ''CONNECT a.b'' @ [13, 10, 13, 10])) = Some (S ''CONNECT a.b'' @ [13, 10, 13, 10])"
    by (rule from_utf8_utf8) (simp add: scalar_value_def)
  moreover have "read_bytes [] sample_head = Some sample_head"
    by (simp add: sample_head_def MAX_PROXY_HEADER_BYTES_def)
  ultimately show ?thesis by (simp add: read_head_def)
qed

lemma sample_connects: "handle_connection sample_env sample_policy (\<lambda>_ _. True) True sample_head = [Connecting (V4 8 8 4 4) 443, Established (V4 8 8 4 4) 443]"
proof -
  have "proxy_connect_url sample_env (S ''CONNECT a.b'' @ [13, 10, 13, 10]) = Some sample_url"
    by (simp add: proxy_connect_url_def lines_of_def strip_cr_def is_ascii_whitespace_def sample_env_def)
  then show ?thesis by (simp add: handle_connection_def sample_read sample_resolves del: S_simps)
qed

theorem egress_only_public_witness: "\<not> reserved (V4 8 8 4 4)"
proof -
  have "Established (V4 8 8 4 4) 443 \<in> set (handle_connection sample_env sample_policy (\<lambda>_ _. True) True sample_head)"
    by (simp add: sample_connects)
  then have "\<not> reserved (V4 8 8 4 4) \<and> (\<exists>head url host. read_head sample_head = Some head \<and> proxy_connect_url sample_env head = Some url \<and> hu_scheme url = S ''https''
    \<and> hu_host url = Some host \<and> \<not> is_local_hostname (ascii_lower (trim_end_dots host))
    \<and> (allowed_domains sample_policy = [] \<or> list_ex (\<lambda>d. under_domain d (ascii_lower (trim_end_dots host))) (allowed_domains sample_policy)))"
    by (rule egress_only_public [rotated]) (simp_all add: sample_env_def well_formed_ip_def split: if_splits)
  then show ?thesis ..
qed

theorem public_means_unreserved_witness:
  "is_public_address (V6 [0, 0, 0, 0, 0, 0xffff, 0x0a00, 1]) \<longleftrightarrow> \<not> reserved (V6 [0, 0, 0, 0, 0, 0xffff, 0x0a00, 1])"
  by (rule public_means_unreserved) (simp add: well_formed_ip_def)

section \<open>Relaying\<close>

text \<open>Three bytes are read, allowed and written, the last one later.\<close>

definition sample_turns :: "turn list" where
  "sample_turns = [Accept, Tunnel 0, Poll 0 Sending (Read_Bytes [1, 2, 3]) Write_Pending, Load 0 Sending, Exchange 0 Sending True, Load 0 Sending,
     Exchange 0 Sending False, Poll 0 Sending Read_Pending (Wrote 2)]"

theorem relay_faithful_witness:
  "ry_sent (relay_of Sending (px_connections (proxy_run sample_turns idle_proxy) ! 0))
     = take 2 (ry_read (relay_of Sending (px_connections (proxy_run sample_turns idle_proxy) ! 0)))"
proof -
  have "0 < length (px_connections (proxy_run sample_turns idle_proxy))"
    and sent: "length (ry_sent (relay_of Sending (px_connections (proxy_run sample_turns idle_proxy) ! 0))) = 2"
    by (simp_all add: sample_turns_def proxy_run_def proxy_step_def idle_proxy_def update_connection_def running_def put_relay_def relay_of_def polls_fit_def
        new_relay_def poll_relay_def write_turn_def read_turn_def overwrite_def load_counter_def exchange_counter_def reserved_bytes_def MAX_PROXY_BYTES_def
        MAX_PROXY_CONNECTIONS_def Let_def)
  from relay_faithful [OF this(1), of Sending, unfolded Let_def] show ?thesis unfolding sent by simp
qed

section \<open>A page and a bot\<close>

text \<open>A link to \<open>/n\<close> with the text \<open>go\<close>.\<close>

definition sample_dom :: dom where
  "sample_dom nid =
     (if nid = 0 then Some \<lparr>dn_data = Element (S ''a'') [(S ''href'', S ''/n'')], dn_parent = None, dn_children = [1]\<rparr>
      else if nid = 1 then Some \<lparr>dn_data = Text_Node (S ''go''), dn_parent = Some 0, dn_children = []\<rparr> else None)"

lemma sample_texts: "\<not> sensitive_surface (S ''/n'')" "\<not> sensitive_surface (S ''go'')"
  by (simp_all add: sensitive_surface_def surface_words_def is_ascii_alphanumeric_def is_ascii_alphabetic_def is_ascii_digit_def restricted_word_def restricted_pair_def
      restricted_triple_def RESTRICTED_WORDS_def RESTRICTED_PAIRS_def word_is_def pair_is_def eq_ignore_ascii_case_def ascii_lower_def)

lemma sample_text: "bounded_descendant_text sample_dom 0 192 = S ''go''"
  by (simp add: bounded_descendant_text_def sample_dom_def last_children_def)

lemma sample_context: "action_context sample_dom 0 = Some (empty_context\<lparr>ac_target_tag := Some (S ''a''), ac_href := Some (S ''/n'')\<rparr>)"
proof -
  let ?attrs = "[(S ''href'', S ''/n'')]"
  have others: "list_all (\<lambda>name. element_attribute ?attrs name = None) (filter (\<lambda>name. name \<noteq> ''href'') POLICY_ATTRIBUTES @ [''form'', ''download'', ''target'', ''onclick''])"
    by (simp add: element_attribute_def POLICY_ATTRIBUTES_def)
  have "element_attribute ?attrs ''href'' = Some (S ''/n'')" by (simp add: element_attribute_def)
  moreover have "\<not> sensitive_element sample_dom 0 ?attrs"
    using others calculation by (simp add: sensitive_element_def sample_text sample_texts POLICY_ATTRIBUTES_def del: S_simps)
  moreover have "ascii_lower [] = []" "ascii_lower (S ''a'') = S ''a''" "S ''a'' \<noteq> S ''form''" "S ''a'' \<noteq> S ''button''" "S ''a'' \<noteq> S ''input''"
    by (simp_all add: ascii_lower_def)
  ultimately have "read_element sample_dom True 0 (S ''a'') ?attrs empty_context = empty_context\<lparr>ac_target_tag := Some (S ''a''), ac_href := Some (S ''/n'')\<rparr>"
    using others by (simp add: read_element_def Let_def empty_context_def submit_control_def POLICY_ATTRIBUTES_def del: S_simps)
  moreover have "(16::nat) = Suc 15" by simp
  moreover have "walk_up sample_dom (Suc 15) True (Some 0) empty_context = Some (read_element sample_dom True 0 (S ''a'') ?attrs empty_context)"
    unfolding walk_up.simps by (simp add: sample_dom_def del: S_simps)
  ultimately show ?thesis unfolding action_context_def by (simp add: empty_context_def del: S_simps)
qed

lemma sample_click: "authorize_action sample_env sample_policy sample_dom (\<lambda>_. Some sample_url) (Click 0) = Inr ()"
proof -
  have "validate_url sample_env sample_policy sample_url = Inr ()" by (simp add: validate_url_def sample_resolves)
  then show ?thesis
    by (simp add: authorize_action_def sample_context empty_context_def submit_needs_permission_def validate_action_url_def sample_policy_def del: S_simps)
qed


definition sample_engine :: "unit engine" where
  "sample_engine = \<lparr>en_dom = (\<lambda>_. sample_dom), en_join = (\<lambda>_ _. Some sample_url), en_act = (\<lambda>_ d. (Inr (), d, [sample_url])), en_unload = (\<lambda>d. (d, [])),
     en_fetch = (\<lambda>_ _. Some ()), en_url = (\<lambda>_. sample_url), en_nodes = (\<lambda>_. 2), en_origin = (\<lambda>_. S ''https://a.b''), en_stores = (\<lambda>_. (S ''{}'', S ''{}''))\<rparr>"

definition sample_host_turns :: "unit host_turn list" where
  "sample_host_turns = [Request sample_env (Act_Request (Click 0)), Follow sample_env, Request sample_env Inspect_Request, Request sample_env Diagnostics_Request]"

lemma sample_validate: "validate_url sample_env sample_policy sample_url = Inr ()"
  by (simp add: validate_url_def sample_resolves)

lemma sample_follow:
  assumes "validate_url sample_env p sample_url = Inr ()" "ho_origin h = S ''https://a.b''"
  shows "follow_navigation sample_engine sample_env p sample_url h
      = (Inr (), h\<lparr>ho_deeds := ho_deeds h @ [Fetched sample_url (if bot_child p then None else Some \<lparr>so_origin = S ''https://a.b'', so_local = S ''{}'', so_session = S ''{}''\<rparr>) () sample_env,
           Shown () sample_env]\<rparr>)"
proof -
  have load: "load sample_engine sample_env p sample_url carried = Inr ()" for carried
    using assms by (simp add: load_def too_many_nodes_def sample_engine_def BOT_CHILD_MAX_PAGE_NODES_def)
  have "restored sample_engine (Some (snapshot_storage sample_engine () (S ''https://a.b''))) sample_url
      = Some \<lparr>so_origin = S ''https://a.b'', so_local = S ''{}'', so_session = S ''{}''\<rparr>"
    by (simp add: restored_def snapshot_storage_def sample_engine_def del: S_simps)
  moreover have "en_unload sample_engine d = (d, [])" "en_origin sample_engine url = S ''https://a.b''" for d url by (simp_all add: sample_engine_def)
  ultimately show ?thesis
    using assms by (cases "bot_child p") (simp_all add: follow_navigation_def Let_def load record_deed_def navigate_all_def del: S_simps)
qed

lemma sample_start:
  "ho_origin (start_host sample_engine ()) = S ''https://a.b''" "ho_deeds (start_host sample_engine ()) = []" "\<not> ho_over (start_host sample_engine ())"
  "ho_budget (start_host sample_engine ()) = no_budget_used" "ho_doc (start_host sample_engine ()) = ()"
  by (simp_all add: start_host_def sample_engine_def)

lemma sample_engine_fields:
  "en_dom sample_engine d = sample_dom" "en_join sample_engine d = (\<lambda>_. Some sample_url)" "en_act sample_engine a d = (Inr (), d, [sample_url])" "en_nodes sample_engine d = 2"
  by (simp_all add: sample_engine_def)

lemma sample_deeds:
  "ho_deeds (host_run sample_engine sample_policy sample_host_turns (start_host sample_engine ()))
     = [Performed (Click 0) () sample_env, Fetched sample_url None () sample_env, Shown () sample_env, Inspected]"
proof -
  have bot: "bot_child sample_policy" by (simp add: sample_policy_def)
  with sample_validate show ?thesis
    by (simp add: sample_host_turns_def host_run_def host_step_def serve_request_def admit_def answer_request_def sample_click sample_engine_fields sample_start sample_follow
        record_deed_def navigate_all_def navigate_to_def follow_link_def too_many_nodes_def BOT_CHILD_MAX_PAGE_NODES_def take_refusal_def
        no_budget_used_def BOT_CHILD_MAX_REQUESTS_def BOT_CHILD_MAX_ACTIONS_def BOT_CHILD_MAX_INSPECTIONS_def Let_def del: S_simps)
qed

theorem bot_run_confined_witness:
  "list_all (deed_ok sample_engine sample_policy) [Performed (Click 0) () sample_env, Fetched sample_url None () sample_env, Shown () sample_env, Inspected]"
  using bot_run_confined [of sample_policy sample_engine sample_host_turns "()"] unfolding sample_deeds by (simp add: sample_policy_def)

text \<open>A host that is not a bot's follows a link and gives the page what the one before it stored.\<close>

lemma sample_carried:
  "ho_deeds (host_run sample_engine (sample_policy\<lparr>bot_child := False\<rparr>) [Request sample_env (Navigate_Request (S ''/n''))] (start_host sample_engine ()))
     = [Fetched sample_url (Some \<lparr>so_origin = S ''https://a.b'', so_local = S ''{}'', so_session = S ''{}''\<rparr>) () sample_env, Shown () sample_env]"
proof -
  have valid: "validate_url sample_env (sample_policy\<lparr>bot_child := False\<rparr>) sample_url = Inr ()" by (simp add: validate_url_def)
  show ?thesis
    by (simp add: host_run_def host_step_def serve_request_def admit_def answer_request_def too_many_nodes_def sample_engine_fields sample_start sample_follow [OF valid] del: S_simps)
qed

theorem storage_stays_home_witness:
  "stored_at_home sample_engine (Fetched sample_url (Some \<lparr>so_origin = S ''https://a.b'', so_local = S ''{}'', so_session = S ''{}''\<rparr>) () sample_env)"
proof -
  have "keeps_origin sample_engine" by (simp add: keeps_origin_def sample_engine_def)
  from storage_stays_home [OF this, of "sample_policy\<lparr>bot_child := False\<rparr>" "[Request sample_env (Navigate_Request (S ''/n''))]" "()"]
  show ?thesis unfolding sample_carried list.pred_inject by (rule conjunct1)
qed

text \<open>Documents are the hosts they come from here: the caller asks for \<open>b\<close>, and the host ends up at \<open>a\<close>.\<close>

definition sample_site :: "str \<Rightarrow> host_url" where
  "sample_site name = sample_url\<lparr>hu_host := Some name\<rparr>"

definition site_engine :: "str engine" where
  "site_engine = \<lparr>en_dom = (\<lambda>_ _. None), en_join = (\<lambda>_ t. Some (sample_site t)), en_act = (\<lambda>_ d. (Inr (), d, [])), en_unload = (\<lambda>d. (d, [])),
     en_fetch = (\<lambda>url _. Some (the (hu_host url))), en_url = sample_site, en_nodes = (\<lambda>_. 2), en_origin = (\<lambda>url. the (hu_host url)), en_stores = (\<lambda>_. ([], []))\<rparr>"

theorem earlier_link_overrides_navigation_witness:
  "ho_doc (host_run site_engine (sample_policy\<lparr>bot_child := False\<rparr>)
     [Request sample_env (Navigate_Request (S ''b'')), Follow sample_env] ((start_host site_engine (S ''c''))\<lparr>ho_destination := Some (sample_site (S ''a''))\<rparr>)) = S ''a''"
proof -
  have "ho_doc (host_run site_engine (sample_policy\<lparr>bot_child := False\<rparr>)
     [Request sample_env (Navigate_Request (S ''b'')), Follow sample_env] ((start_host site_engine (S ''c''))\<lparr>ho_destination := Some (sample_site (S ''a''))\<rparr>))
      = the (hu_host (sample_site (S ''a'')))"
    by (rule earlier_link_overrides_navigation [THEN conjunct2, THEN conjunct2]) (simp_all add: site_engine_def start_host_def del: S_simps)
  then show ?thesis by (simp add: sample_site_def del: S_simps)
qed

definition sample_snapshot :: "unit snapshot" where
  "sample_snapshot = \<lparr>sp_active_window = None, sp_nodes = [\<lparr>sm_id = 0, sm_dom_id = None, sm_role = S ''link'', sm_name = S ''go'', sm_value = None, sm_slot = None, sm_rest = ()\<rparr>],
     sp_rest = ()\<rparr>"

theorem inspection_bounded_witness:
  "map sm_id (sp_nodes (bound_inspection_snapshot (\<lambda>s. Some (length (sp_nodes s) * 100)) (sample_snapshot\<lparr>sp_nodes := map (redact sample_dom) (take 512 (sp_nodes sample_snapshot))\<rparr>)))
     = take (length (sp_nodes (bound_inspection_snapshot (\<lambda>s. Some (length (sp_nodes s) * 100)) (sample_snapshot\<lparr>sp_nodes := map (redact sample_dom) (take 512 (sp_nodes sample_snapshot))\<rparr>)))) [0]"
proof -
  have "map sm_id (sp_nodes sample_snapshot) = [0]" by (simp add: sample_snapshot_def)
  then show ?thesis
    using inspection_bounded [of sample_policy "\<lambda>s. Some (length (sp_nodes s) * 100)" sample_dom sample_snapshot
        "bound_inspection_snapshot (\<lambda>s. Some (length (sp_nodes s) * 100)) (sample_snapshot\<lparr>sp_nodes := map (redact sample_dom) (take 512 (sp_nodes sample_snapshot))\<rparr>)"]
    by (simp add: sample_policy_def sanitize_inspection_def BOT_CHILD_MAX_INSPECT_NODES_def)
qed

end
