(* ===== verification/Page_Files.thy ===== *)
theory Page_Files
  imports Page_Load Text_Ops "HOL-Library.Sublist"
begin

text \<open>
  The loopback origin of a built page (\<^verbatim>\<open>src/apps/chuzz/src/page_server.rs\<close>): which file answers a request, with which type, and
  what is sent over HTTP/1 and HTTP/2. Paths are the texts of Unix paths with the operations of \<open>std::path\<close> that the code uses; the file system is the
  record \<open>files\<close>, and the two ends of a socket are the bytes that come and the capacities that are granted.
\<close>

section \<open>Paths of the standard library\<close>

datatype path_part = Root_Dir | Cur_Dir | Parent_Dir | Normal str

fun parts_from :: "bool \<Rightarrow> str list \<Rightarrow> path_part list" where
  "parts_from first [] = []"
| "parts_from first (w # ws) =
     (if w = [] then [] else if w = [46] then (if first then [Cur_Dir] else []) else if w = [46, 46] then [Parent_Dir] else [Normal w]) @ parts_from False ws"

definition path_parts :: "str \<Rightarrow> path_part list" where
  "path_parts s =
     (case s of
        [] \<Rightarrow> []
      | c # t \<Rightarrow> if c = 47 then Root_Dir # parts_from False (split_by (\<lambda>c. c = 47) t) else parts_from True (split_by (\<lambda>c. c = 47) s))"

definition path_join :: "str \<Rightarrow> str \<Rightarrow> str" where
  "path_join root p =
     (if starts_with p [47] then p else if root = [] \<or> last root = 47 then root @ p else root @ [47] @ p)"

definition path_starts_with :: "str \<Rightarrow> str \<Rightarrow> bool" where
  "path_starts_with p root = prefix (path_parts root) (path_parts p)"

definition file_name :: "str \<Rightarrow> str option" where
  "file_name p = (if path_parts p = [] then None else case last (path_parts p) of Normal n \<Rightarrow> Some n | _ \<Rightarrow> None)"

definition extension :: "str \<Rightarrow> str option" where
  "extension p =
     Option.bind (file_name p) (\<lambda>n.
       let before = dropWhile (\<lambda>c. c \<noteq> 46) (rev n)
       in if length before \<le> 1 then None else Some (rev (takeWhile (\<lambda>c. c \<noteq> 46) (rev n))))"

section \<open>Which file answers\<close>

text \<open>A failed read is the text of its error.\<close>

record files =
  fs_is_file :: "str \<Rightarrow> bool"
  fs_is_dir :: "str \<Rightarrow> bool"
  fs_canonicalize :: "str \<Rightarrow> str option"
  fs_read :: "str \<Rightarrow> str + bytes"

definition climbs :: "path_part \<Rightarrow> bool" where
  "climbs c \<longleftrightarrow> c = Parent_Dir \<or> c = Root_Dir"

definition file_at :: "files \<Rightarrow> str \<Rightarrow> str option" where
  "file_at fs p = (if fs_is_file fs p then Some p else None)"

definition relative_path :: "str \<Rightarrow> str" where
  "relative_path target = dropWhile (\<lambda>c. c = 47) (hd (split_by (\<lambda>c. c = 63 \<or> c = 35) target))"

definition resolve :: "files \<Rightarrow> str \<Rightarrow> str \<Rightarrow> str option" where
  "resolve fs root target =
     (let relative = relative_path target; index = path_join root (S ''index.html''); candidate = path_join root relative
      in if list_ex climbs (path_parts relative) then None
         else if relative = [] then file_at fs index
         else if fs_is_file fs candidate
         then (case fs_canonicalize fs candidate of
                 None \<Rightarrow> None
               | Some resolved \<Rightarrow> if path_starts_with resolved root then Some resolved else None)
         else if fs_is_dir fs candidate then file_at fs (path_join candidate (S ''index.html''))
         else if extension relative = None then file_at fs index else None)"

definition content_type :: "str \<Rightarrow> str" where
  "content_type p =
     (let e = (case extension p of None \<Rightarrow> [] | Some e \<Rightarrow> e)
      in if e \<in> set [S ''html'', S ''htm''] then S ''text/html; charset=utf-8''
         else if e \<in> set [S ''css'', S ''mcss'', S ''scss'', S ''sass'', S ''less''] then S ''text/css; charset=utf-8''
         else if e \<in> set [S ''js'', S ''mjs''] then S ''text/javascript; charset=utf-8''
         else if e \<in> set [S ''json'', S ''map''] then S ''application/json; charset=utf-8''
         else if e = S ''svg'' then S ''image/svg+xml''
         else if e = S ''png'' then S ''image/png''
         else if e \<in> set [S ''jpg'', S ''jpeg''] then S ''image/jpeg''
         else if e = S ''gif'' then S ''image/gif''
         else if e = S ''webp'' then S ''image/webp''
         else if e = S ''avif'' then S ''image/avif''
         else if e = S ''ico'' then S ''image/x-icon''
         else if e = S ''woff2'' then S ''font/woff2''
         else if e = S ''woff'' then S ''font/woff''
         else if e = S ''ttf'' then S ''font/ttf''
         else if e = S ''wasm'' then S ''application/wasm''
         else if e = S ''txt'' then S ''text/plain; charset=utf-8''
         else if e = S ''xml'' then S ''application/xml''
         else S ''application/octet-stream'')"

definition contains_text :: "str \<Rightarrow> str \<Rightarrow> bool" where
  "contains_text s t = sublist t s"

definition decoded :: "codecs \<Rightarrow> str \<Rightarrow> bytes \<Rightarrow> bytes" where
  "decoded cd kind body =
     (if \<not> (starts_with kind (S ''text/'') \<or> starts_with kind (S ''application/json'') \<or> contains_text kind (S ''javascript'')) then body
      else case decode_body_if_compressed cd body of Some text \<Rightarrow> utf8 text | None \<Rightarrow> body)"

section \<open>HTTP/1\<close>

definition MAX_HEAD_BYTES :: nat where "MAX_HEAD_BYTES = 16 * 1024"

text \<open>The bytes that come, and the error that ends them if they do not end by the other side closing.\<close>

fun read_request_head :: "bytes \<Rightarrow> bytes \<Rightarrow> str option \<Rightarrow> str + bytes" where
  "read_request_head head incoming failure =
     (if drop (length head - 4) head = [13, 10, 13, 10] \<or> drop (length head - 2) head = [10, 10] then Inr head
      else if MAX_HEAD_BYTES \<le> length head then Inl (S ''request head is too long'')
      else case incoming of
             b # rest \<Rightarrow> read_request_head (head @ [b]) rest failure
           | [] \<Rightarrow> (case failure of None \<Rightarrow> Inr head | Some e \<Rightarrow> Inl (S ''reading the request: '' @ e)))"

declare read_request_head.simps [simp del]

definition request_head :: "bytes \<Rightarrow> str option \<Rightarrow> str + str" where
  "request_head incoming failure =
     and_then (read_request_head [] incoming failure) (\<lambda>head. ok_or (from_utf8 head) (S ''the request head is not UTF-8''))"

definition reason_phrase :: "nat \<Rightarrow> str" where
  "reason_phrase status =
     (if status = 200 then S ''OK'' else if status = 400 then S ''Bad Request'' else if status = 404 then S ''Not Found''
      else if status = 405 then S ''Method Not Allowed'' else S ''Internal Server Error'')"

definition head_lines :: "nat \<Rightarrow> str \<Rightarrow> bytes \<Rightarrow> str list" where
  "head_lines status kind body =
     [S ''HTTP/1.1 '' @ dec status @ S '' '' @ reason_phrase status, S ''Content-Type: '' @ kind, S ''Content-Length: '' @ dec (length body),
      S ''Cache-Control: no-store'', S ''Connection: close'']"

text \<open>
  What \<open>write_all\<close> comes to: everything is written, or an error after some of it. \<open>respond\<close> writes the head and then the body; its
  result goes with the bytes that were written.
\<close>

datatype write_end = Written | Write_Failed nat str

type_synonym reply = "bytes \<times> (str + unit)"

definition respond :: "nat \<Rightarrow> str \<Rightarrow> bytes \<Rightarrow> bool \<Rightarrow> write_end \<times> write_end \<Rightarrow> reply" where
  "respond status kind body head_only writes =
     (let head = utf8 (concat (map (\<lambda>l. l @ [13, 10]) (head_lines status kind body)) @ [13, 10])
      in case fst writes of
           Write_Failed n e \<Rightarrow> (take n head, Inl (S ''writing the response head: '' @ e))
         | Written \<Rightarrow>
             if head_only then (head, Inr ())
             else (case snd writes of
                     Write_Failed n e \<Rightarrow> (head @ take n body, Inl (S ''writing the response body: '' @ e))
                   | Written \<Rightarrow> (head @ body, Inr ())))"

definition plain_text :: "string \<Rightarrow> bytes" where
  "plain_text s = utf8 (S s)"

definition answer_target :: "files \<Rightarrow> codecs \<Rightarrow> str \<Rightarrow> str \<Rightarrow> bool \<Rightarrow> write_end \<times> write_end \<Rightarrow> reply" where
  "answer_target fs cd root target head_only writes =
     (case resolve fs root target of
        None \<Rightarrow> respond 404 (S ''text/plain'') (plain_text ''not found'') False writes
      | Some p \<Rightarrow>
          (case fs_read fs p of
             Inr body \<Rightarrow> respond 200 (content_type p) (decoded cd (content_type p) body) head_only writes
           | Inl e \<Rightarrow> respond 500 (S ''text/plain'') (utf8 (S ''could not read '' @ p @ S '': '' @ e)) False writes))"

definition answer_http1 :: "files \<Rightarrow> codecs \<Rightarrow> str \<Rightarrow> bytes \<Rightarrow> str option \<Rightarrow> write_end \<times> write_end \<Rightarrow> reply" where
  "answer_http1 fs cd root incoming failure writes =
     (case request_head incoming failure of
        Inl e \<Rightarrow> ([], Inl e)
      | Inr head \<Rightarrow>
          (case lines_of head of
             [] \<Rightarrow> respond 400 (S ''text/plain'') (plain_text ''no request line'') False writes
           | line # _ \<Rightarrow>
               (let parts = split_by (\<lambda>c. c = 32) line; verb = hd parts;
                    target = (case tl parts of [] \<Rightarrow> [] | target # _ \<Rightarrow> target)
                in if verb \<notin> {S ''GET'', S ''HEAD''} then respond 405 (S ''text/plain'') (plain_text ''method not allowed'') False writes
                   else answer_target fs cd root target (verb = S ''HEAD'') writes)))"

section \<open>HTTP/2\<close>

record h2_answer =
  ha_status :: nat
  ha_type :: str
  ha_length :: str
  ha_body :: bytes
  ha_ended :: bool

definition answer_h2 :: "files \<Rightarrow> codecs \<Rightarrow> str \<Rightarrow> str \<Rightarrow> str option \<Rightarrow> h2_answer" where
  "answer_h2 fs cd root verb path_and_query =
     (let target = (case path_and_query of None \<Rightarrow> S ''/'' | Some t \<Rightarrow> t);
          head_only = (verb = S ''HEAD'');
          (status, kind, body) =
            (if \<not> (head_only \<or> verb = S ''GET'') then (405, S ''text/plain'', plain_text ''method not allowed'')
             else case resolve fs root target of
                    Some p \<Rightarrow>
                      (case fs_read fs p of
                         Inr body \<Rightarrow> (200, content_type p, decoded cd (content_type p) body)
                       | Inl e \<Rightarrow> (500, S ''text/plain'', utf8 (S ''could not read '' @ p @ S '': '' @ e)))
                  | None \<Rightarrow> (404, S ''text/plain'', plain_text ''not found''))
      in \<lparr>ha_status = status, ha_type = kind, ha_length = dec (length body), ha_body = body, ha_ended = (head_only \<or> body = [])\<rparr>)"

definition TLS_READ_CHUNK :: nat where "TLS_READ_CHUNK = 16 * 1024"

text \<open>
  A capacity that is granted, with the error that sending into it meets, if it meets one; or the stream failing before. A list that ends is a stream that
  grants no more for now.
\<close>

datatype capacity = Capacity nat "str option" | Stream_Closed | Stream_Failed str

datatype sending = Sent_All | Waiting | Send_Error str

fun send_h2_body :: "bytes \<Rightarrow> nat \<Rightarrow> capacity list \<Rightarrow> (bytes \<times> bool) list \<times> sending" where
  "send_h2_body body sent events =
     (if length body \<le> sent then ([], Sent_All)
      else case events of
             [] \<Rightarrow> ([], Waiting)
           | Stream_Closed # _ \<Rightarrow> ([], Send_Error (S ''HTTP/2 response stream closed''))
           | Stream_Failed e # _ \<Rightarrow> ([], Send_Error (S ''waiting for HTTP/2 response capacity: '' @ e))
           | Capacity n refused # rest \<Rightarrow>
               (let count = min n (min (length body - sent) TLS_READ_CHUNK)
                in if count = 0 then send_h2_body body sent rest
                   else case refused of
                          Some e \<Rightarrow> ([], Send_Error (S ''sending the HTTP/2 response body: '' @ e))
                        | None \<Rightarrow>
                            (case send_h2_body body (sent + count) rest of
                               (frames, outcome) \<Rightarrow> ((take count (drop sent body), sent + count = length body) # frames, outcome))))"

declare send_h2_body.simps [simp del]

text \<open>The frames of the body, if any are sent; the head may be refused before them.\<close>

definition h2_frames :: "h2_answer \<Rightarrow> str option \<Rightarrow> capacity list \<Rightarrow> (bytes \<times> bool) list \<times> sending" where
  "h2_frames a refused events =
     (case refused of
        Some e \<Rightarrow> ([], Send_Error (S ''sending the HTTP/2 response head: '' @ e))
      | None \<Rightarrow> if ha_ended a then ([], Sent_All) else send_h2_body (ha_body a) 0 events)"

end
