(* ===== verification/Page_Claims.thy ===== *)
theory Page_Claims
  imports Page_Files
begin

text \<open>
  What the page server gives away: files under its root, except through the index of a directory; the same answer over both protocols; and bodies that
  arrive whole (\<^verbatim>\<open>src/apps/chuzz/src/page_server.rs\<close>).
\<close>

section \<open>Paths\<close>

lemma split_by_append_all: "p c \<Longrightarrow> split_by p (a @ c # s) = split_by p a @ split_by p s"
  by (induction a) (auto split: list.split)

lemma parts_from_append: "ws \<noteq> [] \<Longrightarrow> parts_from first (ws @ vs) = parts_from first ws @ parts_from False vs"
  by (induction first ws rule: parts_from.induct) (auto, (metis append_Nil parts_from.simps(1) append.assoc)+)

lemma parts_from_blank [simp]: "parts_from first [[]] = []"
  by simp

lemma parts_from_relative: "Root_Dir \<notin> set (parts_from first ws)"
  by (induction first ws rule: parts_from.induct) auto

lemma path_parts_slash:
  assumes "root \<noteq> []"
  shows "path_parts (root @ 47 # p) = path_parts root @ parts_from False (split_by (\<lambda>c. c = 47) p)"
proof (cases root)
  case (Cons c t)
  show ?thesis
  proof (cases "c = 47")
    case True
    then show ?thesis using split_by_append_all [of "\<lambda>c. c = 47" 47 t p] by (simp add: Cons path_parts_def parts_from_append)
  next
    case False
    then have "path_parts (c # u) = parts_from True (split_by (\<lambda>c. c = 47) (c # u))" for u by (simp add: path_parts_def del: split_by.simps)
    then show ?thesis using split_by_append_all [of "\<lambda>c. c = 47" 47 root p] unfolding Cons append_Cons by (simp add: parts_from_append del: split_by.simps)
  qed
qed (use assms in simp)

lemma not_in_tl: "x \<notin> set xs \<Longrightarrow> x \<notin> set (tl xs)"
  by (cases xs) auto

lemma path_parts_trailing: "path_parts (root @ [47]) = (if root = [] then [Root_Dir] else path_parts root)"
  using path_parts_slash [of root "[]"] by (auto simp: path_parts_def)

lemma path_parts_join:
  assumes "root \<noteq> []" "\<not> starts_with p [47]"
  shows "path_parts (path_join root p) = path_parts root @ parts_from False (split_by (\<lambda>c. c = 47) p)"
proof (cases "last root = 47")
  case True
  then obtain r where r: "root = r @ [47]" using assms(1) by (metis append_butlast_last_id)
  show ?thesis
  proof (cases "r = []")
    case False
    with assms(2) show ?thesis using path_parts_slash [OF False] path_parts_trailing [of r] by (simp add: path_join_def r)
  qed (use assms(2) in \<open>simp add: path_join_def r path_parts_def\<close>)
qed (use assms path_parts_slash in \<open>simp add: path_join_def\<close>)

lemma path_parts_relative: "\<not> starts_with p [47] \<Longrightarrow> path_parts p = parts_from True (split_by (\<lambda>c. c = 47) p)"
  by (cases p) (auto simp: path_parts_def starts_with_def)

lemma parts_first: "list_ex climbs (parts_from False ws) = list_ex climbs (parts_from True ws)"
  by (cases ws) (auto simp: climbs_def)

lemma relative_path_relative: "\<not> starts_with (relative_path target) [47]"
  unfolding relative_path_def by (metis (mono_tags, lifting) append_Nil hd_dropWhile hd_append2 list.sel(1) starts_with_iff list.distinct(1) append_Cons)

text \<open>What the file system owes the code: a canonical path does not climb, and is a file if what it stands for is.\<close>

definition canonical_paths :: "files \<Rightarrow> bool" where
  "canonical_paths fs \<longleftrightarrow> (\<forall>p r. fs_canonicalize fs p = Some r \<longrightarrow> Parent_Dir \<notin> set (path_parts r) \<and> fs_is_file fs r = fs_is_file fs p)"

definition below :: "str \<Rightarrow> str \<Rightarrow> bool" where
  "below root p \<longleftrightarrow> path_starts_with p root \<and> \<not> list_ex climbs (drop (length (path_parts root)) (path_parts p))"

lemma index_plain: "parts_from False (split_by (\<lambda>c. c = 47) (S ''index.html'')) = [Normal (S ''index.html'')]" "\<not> starts_with (S ''index.html'') [47]"
  by (simp_all add: starts_with_def)

lemma below_join:
  assumes "root \<noteq> []" "\<not> starts_with p [47]" "\<not> list_ex climbs (path_parts p)"
  shows "below root (path_join root p)"
  using assms by (simp add: below_def path_starts_with_def path_parts_join parts_first path_parts_relative)

lemma below_index:
  assumes "root \<noteq> []"
  shows "below root (path_join root (S ''index.html''))"
  by (rule below_join [OF assms index_plain(2)]) (simp add: path_parts_def climbs_def)

lemma path_join_nonempty: "root \<noteq> [] \<Longrightarrow> path_join root p \<noteq> []"
  by (auto simp: path_join_def starts_with_def)

lemma below_nested:
  assumes "root \<noteq> []" "below root p" "p \<noteq> []"
  shows "below root (path_join p (S ''index.html''))"
proof -
  have parts: "path_parts (path_join p (S ''index.html'')) = path_parts p @ [Normal (S ''index.html'')]"
    using path_parts_join [OF assms(3) index_plain(2)] unfolding index_plain(1) .
  obtain rest where rest: "path_parts p = path_parts root @ rest" using assms(2) by (auto simp: below_def path_starts_with_def prefix_def)
  show ?thesis using assms(2) unfolding below_def path_starts_with_def parts rest by (simp add: climbs_def)
qed

text \<open>
  C35. A file that answers a request is a file whose path leads to it from the root of the server downwards: it begins with the root and climbs nowhere after it, whatever the
  target of the request says.
\<close>

theorem served_path_confined:
  assumes "canonical_paths fs" "starts_with root [47]" "resolve fs root target = Some p"
  shows "below root p \<and> fs_is_file fs p"
proof -
  let ?r = "relative_path target"
  have root: "root \<noteq> []" using assms(2) by (auto simp: starts_with_def)
  have plain: "\<not> list_ex climbs (path_parts ?r)" using assms(3) by (auto simp: resolve_def Let_def split: if_splits)
  have at: "fs_is_file fs q \<and> q = p" if "file_at fs q = Some p" for q using that by (simp add: file_at_def split: if_splits)
  note resolved = assms(3) [unfolded resolve_def Let_def]
  have candidate: "below root (path_join root ?r)" by (rule below_join [OF root relative_path_relative plain])
  consider "file_at fs (path_join root (S ''index.html'')) = Some p"
    | "fs_is_file fs (path_join root ?r)" "fs_canonicalize fs (path_join root ?r) = Some p" "path_starts_with p root"
    | "file_at fs (path_join (path_join root ?r) (S ''index.html'')) = Some p"
    using resolved plain by (auto simp del: S_simps split: if_splits option.splits)
  then show ?thesis
  proof cases
    case 1
    from at [OF 1] below_index [OF root] show ?thesis by auto
  next
    case 2
    have "Parent_Dir \<notin> set (path_parts p)" "fs_is_file fs p" using assms(1) 2 by (auto simp: canonical_paths_def)
    moreover have "Root_Dir \<notin> set (drop (length (path_parts root)) (path_parts p))"
    proof -
      obtain t where "root = 47 # t" using assms(2) by (auto simp: starts_with_iff)
      then have "path_parts root = Root_Dir # parts_from False (split_by (\<lambda>c. c = 47) t)" by (simp add: path_parts_def)
      moreover have "Root_Dir \<notin> set (tl (path_parts p))"
        using parts_from_relative not_in_tl [OF parts_from_relative] by (cases p) (simp_all add: path_parts_def del: split_by.simps)
      moreover have "drop (length (path_parts root)) (path_parts p) = drop (length (path_parts root) - 1) (tl (path_parts p))" 
        using calculation(1) by (cases "path_parts p") auto
      ultimately show ?thesis by (metis in_set_dropD)
    qed
    ultimately show ?thesis using 2 unfolding below_def list_ex_iff climbs_def by (metis in_set_dropD)
  next
    case 3
    from at [OF 3] below_nested [OF root candidate path_join_nonempty [OF root]] show ?thesis by auto
  qed
qed


section \<open>Answers\<close>

text \<open>How a client reads a response: the head up to the first empty line, its lines, and what follows it.\<close>

fun split_head :: "bytes \<Rightarrow> (bytes \<times> bytes) option" where
  "split_head bs =
     (if take 4 bs = [13, 10, 13, 10] then Some ([], drop 4 bs)
      else case bs of [] \<Rightarrow> None | b # rest \<Rightarrow> map_option (map_prod ((#) b) (\<lambda>r. r)) (split_head rest))"

declare split_head.simps [simp del]

definition read_response :: "bytes \<Rightarrow> (str list \<times> bytes) option" where
  "read_response bs =
     Option.bind (split_head bs) (\<lambda>(head, body). map_option (\<lambda>h. (lines_of (h @ [13, 10]), body)) (from_utf8 head))"

lemma split_head_other: "b \<noteq> 13 \<Longrightarrow> split_head (b # bs) = map_option (map_prod ((#) b) (\<lambda>r. r)) (split_head bs)"
  by (subst split_head.simps) simp

lemma split_head_plain: "13 \<notin> set l \<Longrightarrow> split_head (l @ bs) = map_option (map_prod ((@) l) (\<lambda>r. r)) (split_head bs)"
proof (induction l)
  case (Cons b l)
  then show ?case by (cases "split_head bs") (auto simp: split_head_other)
qed (cases "split_head bs"; auto simp: map_prod_def split: prod.split)

lemma split_head_line: "b \<noteq> 13 \<Longrightarrow> split_head (13 # 10 # b # bs) = map_option (map_prod ((@) [13, 10]) (\<lambda>r. r)) (split_head (b # bs))"
  by (subst split_head.simps, subst split_head.simps) (cases "split_head (b # bs)"; auto)

lemma split_head_end: "split_head (13 # 10 # 13 # 10 # bs) = Some ([], bs)"
  by (subst split_head.simps) simp

lemma split_head_lines:
  assumes "ls \<noteq> []" "list_all (\<lambda>l. l \<noteq> [] \<and> 13 \<notin> set l) ls"
  shows "split_head (concat (map (\<lambda>l. l @ [13, 10]) ls) @ [13, 10] @ body) = Some (butlast (butlast (concat (map (\<lambda>l. l @ [13, 10]) ls))), body)"
  using assms
proof (induction ls)
  case (Cons l ls)
  show ?case
  proof (cases ls)
    case Nil
    with Cons.prems show ?thesis by (simp add: split_head_plain split_head_end butlast_append)
  next
    case (Cons m ms)
    let ?rest = "concat (map (\<lambda>l. l @ [13, 10]) ls)"
    have m: "m \<noteq> []" "hd m \<noteq> 13" using Cons.prems Cons by (auto simp: list_all_iff) (metis hd_in_set)
    then obtain b t where b: "?rest @ [13, 10] @ body = b # t" "b \<noteq> 13" unfolding Cons by (cases m) auto
    have "2 \<le> length ?rest" by (simp add: Cons)
    then have long: "?rest \<noteq> []" "butlast ?rest \<noteq> []" by (auto simp: Cons butlast_append)
    have "split_head (?rest @ [13, 10] @ body) = Some (butlast (butlast ?rest), body)" using Cons.IH Cons.prems Cons by simp
    then have "split_head (13 # 10 # ?rest @ [13, 10] @ body) = Some (13 # 10 # butlast (butlast ?rest), body)"
      using split_head_line [OF b(2), of t] unfolding b(1) by simp
    then have "split_head (l @ 13 # 10 # ?rest @ [13, 10] @ body) = Some (l @ 13 # 10 # butlast (butlast ?rest), body)"
      using Cons.prems by (simp add: split_head_plain)
    then show ?thesis using long by (simp add: butlast_append)
  qed
qed simp

definition head_text :: "str \<Rightarrow> bool" where
  "head_text s \<longleftrightarrow> list_all (\<lambda>c. c < 128 \<and> c \<noteq> 10 \<and> c \<noteq> 13) s"

lemma utf8_ascii: "list_all (\<lambda>c. c < 128) s \<Longrightarrow> utf8 s = map of_nat s"
  by (induction s) (simp_all add: utf8_char_def)

lemma head_text_bytes:
  assumes "head_text s"
  shows "13 \<notin> set (utf8 s)"
proof -
  have "(of_nat c :: byte) \<noteq> 13" if "c < 128" "c \<noteq> 13" for c
  proof
    assume "(of_nat c :: byte) = 13"
    then have "unat (of_nat c :: byte) = unat (13 :: byte)" by simp
    with that show False by (simp add: unat_of_nat)
  qed
  then show ?thesis using assms unfolding head_text_def by (subst utf8_ascii) (auto simp: list_all_iff)
qed

lemma dec_head_text: "head_text (dec n)"
proof (induction n rule: dec.induct)
  case (1 n)
  then show ?case by (subst dec.simps) (auto simp: head_text_def)
qed

lemma read_response_respond:
  assumes "head_text kind" "respond status kind body head_only writes = (out, Inr u)"
  shows "read_response out = Some (head_lines status kind body, if head_only then [] else body)"
proof -
  let ?ls = "head_lines status kind body"
  have texts: "list_all (\<lambda>l. l \<noteq> [] \<and> head_text l) ?ls"
    using assms(1) dec_head_text [of status] dec_head_text [of "length body"] by (auto simp: head_lines_def head_text_def reason_phrase_def)
  have lines: "list_all (\<lambda>l. l \<noteq> [] \<and> 13 \<notin> set l) (map utf8 ?ls)" 
    using texts head_text_bytes by (auto simp: list_all_iff utf8_def)
  have joined: "utf8 (concat (map (\<lambda>l. l @ [13, 10]) ls)) = concat (map (\<lambda>l. l @ [13, 10]) (map utf8 ls))" for ls
    by (induction ls) (simp_all add: utf8_char_def)
  let ?X = "concat (map (\<lambda>l. l @ [13, 10]) ?ls)"
  have ends: "?X = butlast (butlast ?X) @ [13, 10]" by (simp add: head_lines_def butlast_append)
  define Y where "Y = butlast (butlast ?X)"
  have X: "?X = Y @ [13, 10]" using ends unfolding Y_def .
  have "butlast (butlast (concat (map (\<lambda>l. l @ [13, 10]) (map utf8 ?ls)))) = utf8 Y"
    unfolding joined [symmetric] X by (simp add: utf8_char_def butlast_append)
  moreover have "out = utf8 (?X @ [13, 10]) @ (if head_only then [] else body)"
    using assms(2) by (auto simp: respond_def Let_def split: write_end.splits if_splits)
  then have "out = concat (map (\<lambda>l. l @ [13, 10]) (map utf8 ?ls)) @ [13, 10] @ (if head_only then [] else body)"
    unfolding utf8_simps(3) joined by (simp add: utf8_char_def)
  moreover have "split_head (concat (map (\<lambda>l. l @ [13, 10]) (map utf8 ?ls)) @ [13, 10] @ b)
      = Some (butlast (butlast (concat (map (\<lambda>l. l @ [13, 10]) (map utf8 ?ls)))), b)" for b
    by (rule split_head_lines [OF _ lines]) (simp add: head_lines_def)
  moreover have "from_utf8 (utf8 Y) = Some Y"
  proof (rule from_utf8_utf8)
    have "\<forall>c\<in>set Y. c < 128"
    proof
      fix c assume "c \<in> set Y"
      then have "c \<in> set ?X" unfolding X by simp
      then show "c < 128" using texts unfolding head_text_def list_all_iff by (auto split: if_splits)
    qed
    then show "list_all scalar_value Y" by (auto simp: list_all_iff scalar_value_def)
  qed
  moreover have "lines_of (Y @ [13, 10]) = ?ls"
  proof -
    have "list_all plain_line ?ls" using texts unfolding list_all_iff plain_line_def head_text_def by (metis last_in_set)
    from lines_of_written [OF this] show ?thesis unfolding X .
  qed
  ultimately show ?thesis unfolding read_response_def by simp
qed

lemma content_type_text: "head_text (content_type p)"
  by (simp add: content_type_def Let_def head_text_def)

lemma answer_h2_type: "head_text (ha_type (answer_h2 fs cd root verb t))"
proof -
  have "head_text (S ''text/plain'')" by (simp add: head_text_def)
  then show ?thesis by (auto simp: answer_h2_def Let_def content_type_text simp del: S_simps split: option.split sum.split)
qed

lemma first_line:
  assumes "10 \<notin> set line" "last line \<noteq> 13" "line \<noteq> []"
  shows "\<exists>ls. lines_of (line @ [13, 10] @ rest) = line # ls"
proof -
  have "split_by (\<lambda>c. c = 10) ((line @ [13]) @ 10 # rest) = (line @ [13]) # split_by (\<lambda>c. c = 10) rest"
    by (rule split_by_append) (use assms in \<open>auto simp: list_ex_iff\<close>)
  then show ?thesis by (cases "split_by (\<lambda>c. c = 10) rest") (auto simp: lines_of_def strip_cr_def)
qed

text \<open>What a client finds in the lines of a head: the number of its first line, and every value that it has for a name.\<close>

definition status_of :: "str list \<Rightarrow> nat option" where
  "status_of ls =
     (case ls of
        [] \<Rightarrow> None
      | l # _ \<Rightarrow> Option.bind (strip_prefix l (S ''HTTP/1.1 '')) (\<lambda>r.
          let code = takeWhile (\<lambda>c. c \<noteq> 32) r in if code \<noteq> [] \<and> list_all is_ascii_digit code then Some (digits_value code) else None))"

definition header_values :: "string \<Rightarrow> str list \<Rightarrow> str list" where
  "header_values name ls = List.map_filter (\<lambda>l. strip_prefix l (S name @ S '': '')) (tl ls)"

lemma status_of_lines: "status_of (head_lines status kind body) = Some status"
proof -
  have code: "takeWhile (\<lambda>c. c \<noteq> 32) (dec status @ 32 # r) = dec status" for r
    using dec_digits [of status] by (subst takeWhile_tail) (auto simp: takeWhile_eq_all_conv list_all_iff is_ascii_digit_def)
  show ?thesis using dec_digits [of status] by (simp add: status_of_def head_lines_def strip_prefix_def starts_with_def code Let_def)
qed

lemma header_values_lines:
  "header_values ''Content-Type'' (head_lines status kind body) = [kind]"
  "header_values ''Content-Length'' (head_lines status kind body) = [dec (length body)]"
  "header_values ''Cache-Control'' (head_lines status kind body) = [S ''no-store'']"
  "header_values ''Connection'' (head_lines status kind body) = [S ''close'']"
  by (simp_all add: header_values_def head_lines_def strip_prefix_def starts_with_def map_filter_def)

lemma respond_writes:
  "respond status kind body head_only (Written, Written) = (out, r) \<Longrightarrow> r = Inr ()"
  by (auto simp: respond_def Let_def split: if_splits)

text \<open>
  C37. To a GET or a HEAD the server answers over HTTP/1 what it answers over HTTP/2. When the response could be written, a client that reads its bytes finds in the head the status of that
  answer, one type and one length, those of that answer, that nothing is to be stored, and that the connection closes; the length is the number of bytes of the answer's body; and after the head
  comes this body. The body is left out for a HEAD that succeeds; one that is refused is given the body of the refusal all the same, which HTTP/2 leaves out.
\<close>

theorem http1_answers_as_http2:
  assumes "request_head incoming failure = Inr (verb @ [32] @ target @ [32] @ S ''HTTP/1.1'' @ [13, 10] @ rest)"
    and "verb = S ''GET'' \<or> verb = S ''HEAD''" "\<not> list_ex (\<lambda>c. c = 32 \<or> c = 10) target"
    and "answer_http1 fs cd root incoming failure writes = (out, r)" "r = Inr () \<or> writes = (Written, Written)"
  shows "\<exists>a head. a = answer_h2 fs cd root verb (Some target)
    \<and> read_response out = Some (head, if verb = S ''HEAD'' \<and> ha_status a = 200 then [] else ha_body a)
    \<and> status_of head = Some (ha_status a) \<and> header_values ''Content-Type'' head = [ha_type a] \<and> header_values ''Content-Length'' head = [ha_length a]
    \<and> header_values ''Cache-Control'' head = [S ''no-store''] \<and> header_values ''Connection'' head = [S ''close'']
    \<and> list_all is_ascii_digit (ha_length a) \<and> digits_value (ha_length a) = length (ha_body a)
    \<and> ha_ended a = (verb = S ''HEAD'' \<or> ha_body a = [])"
proof -
  let ?line = "verb @ [32] @ target @ [32] @ S ''HTTP/1.1''"
  have "10 \<notin> set ?line" "last ?line \<noteq> 13" "?line \<noteq> []" using assms(2,3) by (auto simp: list_ex_iff)
  from first_line [OF this, of rest] obtain ls where ls: "lines_of (?line @ [13, 10] @ rest) = ?line # ls" by blast
  have words: "\<exists>ws. split_by (\<lambda>c. c = 32) ?line = verb # target # ws"
  proof -
    have "\<not> list_ex (\<lambda>c. c = 32) verb" using assms(2) by auto
    then have "split_by (\<lambda>c. c = 32) (verb @ 32 # target @ [32] @ S ''HTTP/1.1'') = verb # split_by (\<lambda>c. c = 32) (target @ [32] @ S ''HTTP/1.1'')"
      by (rule split_by_append) simp
    moreover have "\<not> list_ex (\<lambda>c. c = 32) target" using assms(3) by (auto simp: list_ex_iff)
    then have "split_by (\<lambda>c. c = 32) (target @ 32 # S ''HTTP/1.1'') = target # split_by (\<lambda>c. c = 32) (S ''HTTP/1.1'')"
      by (rule split_by_append) simp
    ultimately show ?thesis by simp
  qed
  let ?a = "answer_h2 fs cd root verb (Some target)"
  have "answer_http1 fs cd root incoming failure writes = answer_target fs cd root target (verb = S ''HEAD'') writes"
    using words ls assms(1,2) by (auto simp: answer_http1_def Let_def simp del: S_simps)
  moreover have "answer_target fs cd root target (verb = S ''HEAD'') writes
      = respond (ha_status ?a) (ha_type ?a) (ha_body ?a) (verb = S ''HEAD'' \<and> ha_status ?a = 200) writes"
    using assms(2) by (auto simp: answer_target_def answer_h2_def Let_def simp del: S_simps split: option.split sum.split)
  ultimately have sent: "respond (ha_status ?a) (ha_type ?a) (ha_body ?a) (verb = S ''HEAD'' \<and> ha_status ?a = 200) writes = (out, r)"
    using assms(4) by simp
  then have "r = Inr ()" using assms(5) respond_writes by blast
  with sent have head: "read_response out = Some (head_lines (ha_status ?a) (ha_type ?a) (ha_body ?a), if verb = S ''HEAD'' \<and> ha_status ?a = 200 then [] else ha_body ?a)"
    by (intro read_response_respond [OF answer_h2_type]) simp
  have "ha_ended ?a = (verb = S ''HEAD'' \<or> ha_body ?a = [])" "ha_length ?a = dec (length (ha_body ?a))" by (simp_all add: answer_h2_def Let_def split: prod.split)
  with head dec_digits [of "length (ha_body ?a)"] status_of_lines header_values_lines show ?thesis
    by (intro exI [of _ ?a] exI [of _ "head_lines (ha_status ?a) (ha_type ?a) (ha_body ?a)"]) simp
qed

section \<open>Bodies over HTTP/2\<close>

definition portion :: "bytes \<Rightarrow> nat \<Rightarrow> nat \<Rightarrow> nat" where
  "portion body sent n = min n (min (length body - sent) TLS_READ_CHUNK)"

text \<open>
  What a stream gives and takes: an event lets the sending go on if it grants nothing or takes the frame sent into it; what it grants, at most 16 KiB of which is used;
  and why an event that does not let the sending go on ends it.
\<close>

fun taken :: "capacity \<Rightarrow> bool" where
  "taken (Capacity n refused) \<longleftrightarrow> n = 0 \<or> refused = None"
| "taken Stream_Closed \<longleftrightarrow> False"
| "taken (Stream_Failed e) \<longleftrightarrow> False"

fun grant :: "capacity \<Rightarrow> nat" where
  "grant (Capacity n refused) = min n (16 * 1024)"
| "grant Stream_Closed = 0"
| "grant (Stream_Failed e) = 0"

fun reason :: "capacity \<Rightarrow> str" where
  "reason (Capacity n refused) = S ''sending the HTTP/2 response body: '' @ (case refused of None \<Rightarrow> [] | Some e \<Rightarrow> e)"
| "reason Stream_Closed = S ''HTTP/2 response stream closed''"
| "reason (Stream_Failed e) = S ''waiting for HTTP/2 response capacity: '' @ e"

definition granted :: "capacity list \<Rightarrow> nat" where
  "granted events = sum_list (map grant (takeWhile taken events))"

lemma send_over: "length body \<le> sent \<Longrightarrow> send_h2_body body sent events = ([], Sent_All)"
  by (simp add: send_h2_body.simps [of body sent events])

lemma send_event:
  assumes "sent < length body"
  shows "send_h2_body body sent [] = ([], Waiting)"
    "send_h2_body body sent (Stream_Closed # events) = ([], Send_Error (S ''HTTP/2 response stream closed''))"
    "send_h2_body body sent (Stream_Failed e # events) = ([], Send_Error (S ''waiting for HTTP/2 response capacity: '' @ e))"
    "send_h2_body body sent (Capacity 0 refused # events) = send_h2_body body sent events"
  using assms by (simp_all add: send_h2_body.simps [of body sent "[]"] send_h2_body.simps [of body sent "c # events" for c])

lemma send_refused:
  assumes "sent < length body" "n \<noteq> 0"
  shows "send_h2_body body sent (Capacity n (Some e) # events) = ([], Send_Error (S ''sending the HTTP/2 response body: '' @ e))"
proof -
  have "portion body sent n \<noteq> 0" using assms by (simp add: portion_def TLS_READ_CHUNK_def)
  then show ?thesis using assms
    by (simp add: send_h2_body.simps [of body sent "Capacity n (Some e) # events"] portion_def [symmetric] Let_def del: min_def S_simps)
qed

lemma send_portion:
  assumes "sent < length body" "n \<noteq> 0"
  shows "send_h2_body body sent (Capacity n None # events) =
     ((take (portion body sent n) (drop sent body), sent + portion body sent n = length body) # fst (send_h2_body body (sent + portion body sent n) events),
      snd (send_h2_body body (sent + portion body sent n) events))"
proof -
  have "portion body sent n \<noteq> 0" using assms by (simp add: portion_def TLS_READ_CHUNK_def)
  then show ?thesis using assms
    by (cases "send_h2_body body (sent + portion body sent n) events")
       (simp add: send_h2_body.simps [of body sent "Capacity n None # events"] portion_def [symmetric] Let_def del: min_def)
qed

lemmas send_simps = send_over send_event send_refused send_portion

lemma portion_bounds: "sent < length body \<Longrightarrow> n \<noteq> 0 \<Longrightarrow> 0 < portion body sent n \<and> sent + portion body sent n \<le> length body \<and> portion body sent n \<le> 16 * 1024"
  by (auto simp: portion_def TLS_READ_CHUNK_def min_def)

text \<open>The events of a sending, one by one: it is over, it waits, it fails, it is granted nothing, or it sends a portion.\<close>

lemma send_induct [consumes 1, case_names over waits fails none sends]:
  assumes "sent \<le> length body"
    and "\<And>events. P (length body) events ([], Sent_All)"
    and "\<And>sent. sent < length body \<Longrightarrow> P sent [] ([], Waiting)"
    and "\<And>sent c events. sent < length body \<Longrightarrow> \<not> taken c \<Longrightarrow> P sent (c # events) ([], Send_Error (reason c))"
    and "\<And>sent refused events. sent < length body \<Longrightarrow> P sent events (send_h2_body body sent events) \<Longrightarrow> P sent (Capacity 0 refused # events) (send_h2_body body sent events)"
    and "\<And>sent n events frames x. sent < length body \<Longrightarrow> n \<noteq> 0 \<Longrightarrow> send_h2_body body (sent + portion body sent n) events = (frames, x)
        \<Longrightarrow> P (sent + portion body sent n) events (frames, x)
        \<Longrightarrow> P sent (Capacity n None # events) ((take (portion body sent n) (drop sent body), sent + portion body sent n = length body) # frames, x)"
  shows "P sent events (send_h2_body body sent events)"
  using assms(1)
proof (induction events arbitrary: sent)
  case Nil
  then show ?case using assms(2,3) by (cases "sent = length body") (simp_all add: send_simps)
next
  case (Cons c events)
  show ?case
  proof (cases "sent = length body")
    case False
    with Cons.prems have lt: "sent < length body" by simp
    show ?thesis
    proof (cases c)
      case (Capacity n refused)
      show ?thesis
      proof (cases "n = 0")
        case pos: False
        show ?thesis
        proof (cases refused)
          case (Some x)
          with assms(4) [OF lt, of c events] pos lt Capacity show ?thesis by (simp add: send_simps del: S_simps)
        next
          case None
        have "P (sent + portion body sent n) events (send_h2_body body (sent + portion body sent n) events)"
          using Cons.IH portion_bounds [OF lt pos] by blast
          with assms(6) [OF lt pos] show ?thesis unfolding Capacity None send_portion [OF lt pos] by (metis prod.collapse)
        qed
      qed (use assms(5) [OF lt] Cons.IH [OF Cons.prems] lt Capacity in \<open>simp add: send_simps\<close>)
    qed (use assms(4) [OF lt, of c events] lt in \<open>simp_all add: send_simps del: S_simps\<close>)
  qed (use assms(2) in \<open>simp add: send_simps\<close>)
qed

lemma drop_portion: "take k (drop sent body) @ drop (sent + k) body = drop sent body"
  by (metis append_take_drop_id drop_drop add.commute)

lemma frames_prefix:
  "sent \<le> length body \<Longrightarrow> (\<exists>rest. concat (map fst (fst (send_h2_body body sent events))) @ rest = drop sent body \<and> (snd (send_h2_body body sent events) = Sent_All \<longrightarrow> rest = []))"
proof (induction rule: send_induct)
  case (sends sent n events frames x)
  then obtain rest where rest: "concat (map fst frames) @ rest = drop (sent + portion body sent n) body" "x = Sent_All \<longrightarrow> rest = []" by auto
  have "concat (map fst ((take (portion body sent n) (drop sent body), sent + portion body sent n = length body) # frames)) @ rest = drop sent body"
    using drop_portion [of "portion body sent n" sent body] rest(1) by simp
  with rest(2) show ?case by auto
qed auto

lemma frames_small:
  "sent \<le> length body \<Longrightarrow> list_all (\<lambda>(f, _). f \<noteq> [] \<and> length f \<le> 16 * 1024) (fst (send_h2_body body sent events))"
proof (induction rule: send_induct)
  case (sends sent n events frames x)
  with portion_bounds [OF sends(1,2)] show ?case by (simp add: min_def)
qed simp_all

lemma frames_end:
  "sent \<le> length body \<Longrightarrow>
     (if snd (send_h2_body body sent events) = Sent_All
      then map snd (fst (send_h2_body body sent events)) = (if sent = length body then [] else replicate (length (fst (send_h2_body body sent events)) - 1) False @ [True])
      else list_all (\<lambda>(_, ended). \<not> ended) (fst (send_h2_body body sent events)))"
proof (induction rule: send_induct)
  case (sends sent n events frames x)
  show ?case
  proof (cases "x = Sent_All")
    case True
    show ?thesis
    proof (cases "sent + portion body sent n = length body")
      case True
      then have "frames = []" using sends(3) by (simp add: send_simps)
      with True \<open>x = Sent_All\<close> sends(1) show ?thesis by simp
    next
      case False
      then have flags: "map snd frames = replicate (length frames - 1) False @ [True]" using sends(4) True by simp
      then obtain f fs where "frames = f # fs" by (cases frames) auto
      with flags False True sends(1) show ?thesis by simp
    qed
  next
    case False
    then have "sent + portion body sent n \<noteq> length body" using sends(3) by (auto simp: send_simps)
    with False sends(4) show ?thesis by simp
  qed
qed auto

definition sent_as_granted :: "bytes \<Rightarrow> nat \<Rightarrow> capacity list \<Rightarrow> (bytes \<times> bool) list \<times> sending \<Rightarrow> bool" where
  "sent_as_granted body sent events r \<longleftrightarrow>
     length (concat (map fst (fst r))) = min (length body - sent) (granted events)
     \<and> snd r = (if length body - sent \<le> granted events then Sent_All
         else case dropWhile taken events of [] \<Rightarrow> Waiting | c # _ \<Rightarrow> Send_Error (reason c))"

lemma frames_amount: "sent \<le> length body \<Longrightarrow> sent_as_granted body sent events (send_h2_body body sent events)"
proof (induction rule: send_induct)
  case (sends sent n events frames x)
  have k: "portion body sent n = min (length body - sent) (min n (16 * 1024))" by (simp add: portion_def TLS_READ_CHUNK_def)
  have g: "granted (Capacity n None # events) = min n (16 * 1024) + granted events" by (simp add: granted_def)
  have len: "length (take (portion body sent n) (drop sent body)) = portion body sent n" using k by simp
  have "min (length body - sent) (min n (16 * 1024) + granted events)
      = portion body sent n + min (length body - (sent + portion body sent n)) (granted events)" unfolding k by linarith
  moreover have "length body - sent \<le> min n (16 * 1024) + granted events \<longleftrightarrow> length body - (sent + portion body sent n) \<le> granted events"
    unfolding k by linarith
  ultimately show ?case using sends(4) unfolding sent_as_granted_def g by (simp add: len)
qed (simp_all add: sent_as_granted_def granted_def del: S_simps split: list.split)

text \<open>
  C38. The frames of a body that is sent over HTTP/2 are, in order, a part of it from its start, none empty and none over 16 KiB. As much of it is sent as the stream grants, in portions of at most 16 KiB, before it
  fails or refuses a frame; when that is the whole body the sending has succeeded, otherwise it waits, or it is the error of that failure or refusal. The last frame of a whole body and no other ends the
  stream; no frame ends a stream that is cut short.
\<close>

theorem h2_body_arrives:
  assumes "body \<noteq> []" "send_h2_body body 0 events = (frames, outcome)"
  shows "concat (map fst frames) = take (granted events) body \<and> list_all (\<lambda>(f, _). f \<noteq> [] \<and> length f \<le> 16 * 1024) frames
    \<and> outcome = (if length body \<le> granted events then Sent_All
         else case dropWhile taken events of [] \<Rightarrow> Waiting | c # _ \<Rightarrow> Send_Error (reason c))
    \<and> (if outcome = Sent_All then concat (map fst frames) = body \<and> map snd frames = replicate (length frames - 1) False @ [True]
       else list_all (\<lambda>(_, ended). \<not> ended) frames)"
proof (intro conjI)
  note sent = assms(2)
  obtain rest where rest: "concat (map fst frames) @ rest = body" "outcome = Sent_All \<longrightarrow> rest = []" using frames_prefix [of 0 body events] sent by auto
  have amount: "length (concat (map fst frames)) = min (length body) (granted events)" using frames_amount [of 0 body events] sent by (simp add: sent_as_granted_def)
  have "concat (map fst frames) = take (length (concat (map fst frames))) body" using rest(1) by (metis append_eq_conv_conj)
  then show "concat (map fst frames) = take (granted events) body" unfolding amount by (simp add: min_def split: if_splits)
  show "list_all (\<lambda>(f, _). f \<noteq> [] \<and> length f \<le> 16 * 1024) frames" using frames_small [of 0 body events] sent by simp
  show "outcome = (if length body \<le> granted events then Sent_All
         else case dropWhile taken events of [] \<Rightarrow> Waiting | c # _ \<Rightarrow> Send_Error (reason c))"
    using frames_amount [of 0 body events] unfolding sent sent_as_granted_def by simp
  show "if outcome = Sent_All then concat (map fst frames) = body \<and> map snd frames = replicate (length frames - 1) False @ [True] else list_all (\<lambda>(_, ended). \<not> ended) frames"
    using frames_end [of 0 body events] sent rest assms(1) by auto
qed

end
