(* ===== verification/Page_Examples.thy ===== *)
theory Page_Examples
  imports Page_Claims
begin

text \<open>
  A small site on concrete requests: a script, and a directory that is a link to the outside.
\<close>

definition site_files :: files where
  "site_files =
     \<lparr>fs_is_file = (\<lambda>p. p \<in> {S ''/s/a.js'', S ''/s/d/index.html'', S ''/o/index.html''}),
      fs_is_dir = (\<lambda>p. p = S ''/s/d''),
      fs_canonicalize = (\<lambda>p. if p = S ''/s/a.js'' then Some p else if p \<in> {S ''/s/d/index.html'', S ''/o/index.html''} then Some (S ''/o/index.html'') else None),
      fs_read = (\<lambda>p. Inr (if p = S ''/s/a.js'' then [59] else [60]))\<rparr>"

definition no_codecs :: codecs where
  "no_codecs = \<lparr>cd_gunzip = (\<lambda>_. None), cd_brotli = (\<lambda>_. None)\<rparr>"

lemma site_canonical: "canonical_paths site_files"
  by (auto simp: canonical_paths_def site_files_def path_parts_def split: if_splits)

lemma site_script: "resolve site_files (S ''/s'') (S ''/a.js?v=1'') = Some (S ''/s/a.js'')"
proof -
  have "relative_path (S ''/a.js?v=1'') = S ''a.js''" by (simp add: relative_path_def)
  moreover have "path_join (S ''/s'') (S ''a.js'') = S ''/s/a.js''" by (simp add: path_join_def starts_with_def)
  moreover have "\<not> list_ex climbs (path_parts (S ''a.js''))" "path_starts_with (S ''/s/a.js'') (S ''/s'')" "S ''a.js'' \<noteq> []"
    by (simp_all add: path_parts_def climbs_def path_starts_with_def)
  ultimately show ?thesis by (simp add: resolve_def Let_def site_files_def del: S_simps)
qed

theorem served_path_confined_witness: "below (S ''/s'') (S ''/s/a.js'') \<and> fs_is_file site_files (S ''/s/a.js'')"
  by (rule served_path_confined [OF site_canonical _ site_script]) (simp add: starts_with_def)


text \<open>\<open>GET /a.js HTTP/1.1\<close> and an empty line.\<close>

definition site_request :: bytes where
  "site_request = map of_nat (S ''GET /a.js HTTP/1.1'' @ [13, 10, 13, 10])"

lemma site_request_head: "request_head site_request None = Inr (S ''GET'' @ [32] @ S ''/a.js'' @ [32] @ S ''HTTP/1.1'' @ [13, 10] @ [13, 10])"
proof -
  let ?t = "S ''GET /a.js HTTP/1.1'' @ [13, 10, 13, 10]"
  have "site_request = utf8 ?t" unfolding site_request_def by (rule utf8_ascii [symmetric]) simp
  moreover have "from_utf8 (utf8 ?t) = Some ?t" by (rule from_utf8_utf8) (simp add: scalar_value_def)
  moreover have "read_request_head [] site_request None = Inr site_request"
    by (simp add: site_request_def read_request_head.simps MAX_HEAD_BYTES_def)
  ultimately show ?thesis by (simp add: request_head_def)
qed

theorem http1_answers_as_http2_witness:
  "\<exists>a head. a = answer_h2 site_files no_codecs (S ''/s'') (S ''GET'') (Some (S ''/a.js''))
    \<and> read_response (fst (answer_http1 site_files no_codecs (S ''/s'') site_request None (Written, Written))) = Some (head, ha_body a)
    \<and> status_of head = Some (ha_status a) \<and> header_values ''Content-Length'' head = [ha_length a]
    \<and> digits_value (ha_length a) = length (ha_body a)"
proof -
  have get: "S ''GET'' = S ''GET'' \<or> S ''GET'' = S ''HEAD''" "\<not> list_ex (\<lambda>c. c = 32 \<or> c = 10) (S ''/a.js'')" "S ''GET'' \<noteq> S ''HEAD''" by simp_all
  obtain out r where r: "answer_http1 site_files no_codecs (S ''/s'') site_request None (Written, Written) = (out, r)" by (rule prod.exhaust)
  from http1_answers_as_http2 [OF site_request_head get(1,2) r] get(3) show ?thesis by (auto simp: r simp del: S_simps)
qed

text \<open>A body of three bytes whose second frame the stream refuses.\<close>

theorem h2_body_arrives_witness:
  "\<exists>frames outcome. send_h2_body [1, 2, 3] 0 [Capacity 2 None, Capacity 0 (Some []), Capacity 9 (Some [7])] = (frames, outcome)
     \<and> concat (map fst frames) = [1, 2] \<and> outcome = Send_Error (S ''sending the HTTP/2 response body: '' @ [7])
     \<and> list_all (\<lambda>(_, ended). \<not> ended) frames"
proof -
  let ?events = "[Capacity 2 None, Capacity 0 (Some []), Capacity 9 (Some [7])]"
  obtain frames outcome where s: "send_h2_body [1, 2, 3] 0 ?events = (frames, outcome)" by (rule prod.exhaust)
  have "granted ?events = 2" by (simp add: granted_def)
  with h2_body_arrives [OF _ s] s show ?thesis by (simp del: S_simps)
qed

end
