(* ===== verification/Page_Channel.thy ===== *)
theory Page_Channel
  imports Chuzz_Prelude
begin

text \<open>
  The channel between the control socket and the page of a headless host (\<^verbatim>\<open>src/apps/chuzz/src/serve_page_control.rs\<close>): requests in
  a ring with one producer and one consumer, a lock around the two flags that say which ends are open, a flag that the page has work, and one notification. The
  sender, the receiver and any number of document wakers run concurrently, so a move is one atomic piece of one of them. The ring and the notification are
  other crates: a ring takes and gives in order up to its capacity; notifying wakes the one waiter or else leaves a permit, and of a waiter that gives up after it
  was notified the permit may be left or lost.
\<close>

section \<open>State\<close>

datatype waiter = No_Waiter | Registered | Notified

text \<open>Where the sender is: it holds the lock from its push until it has notified. Then the receiver's place in \<open>receive\<close>, with what \<open>enable\<close> gave, in \<open>try_recv\<close> and in its \<open>drop\<close>.\<close>

datatype sender_at = Sender_Idle | Sender_Pushed | Sender_Closed | Sender_Gone

datatype receiver_at =
    Receiver_Idle
  | Receiver_Enabled bool
  | Receiver_Popped bool
  | Receiver_Checked bool
  | Receiver_Waits
  | Receiver_Tried
  | Receiver_Closing
  | Receiver_Gone

datatype 'r received = Got 'r | Timed_Out | Nothing_Yet | Disconnected

record 'r channel =
  ch_capacity :: nat
  ch_queue :: "'r list"
  ch_producer_open :: bool
  ch_consumer_open :: bool
  ch_page :: bool
  ch_permit :: bool
  ch_waiter :: waiter
  ch_sender :: sender_at
  ch_receiver :: receiver_at
  ch_wakes :: nat
  ch_accepted :: "'r list"
  ch_results :: "'r received list"
  ch_abandoned :: "'r list"

definition new_channel :: "nat \<Rightarrow> 'r channel" where
  "new_channel capacity =
     \<lparr>ch_capacity = capacity, ch_queue = [], ch_producer_open = True, ch_consumer_open = True, ch_page = False, ch_permit = False, ch_waiter = No_Waiter,
      ch_sender = Sender_Idle, ch_receiver = Receiver_Idle, ch_wakes = 0, ch_accepted = [], ch_results = [], ch_abandoned = []\<rparr>"

section \<open>The notification\<close>

definition notify_one :: "'r channel \<Rightarrow> 'r channel" where
  "notify_one s = (case ch_waiter s of Registered \<Rightarrow> s\<lparr>ch_waiter := Notified\<rparr> | _ \<Rightarrow> s\<lparr>ch_permit := True\<rparr>)"

definition enable :: "'r channel \<Rightarrow> bool \<times> 'r channel" where
  "enable s = (if ch_permit s then (True, s\<lparr>ch_permit := False\<rparr>) else (False, s\<lparr>ch_waiter := Registered\<rparr>))"

text \<open>The future of the notification goes away.\<close>

definition forget_waiter :: "bool \<Rightarrow> 'r channel \<Rightarrow> 'r channel" where
  "forget_waiter keeps s = (if ch_waiter s = Notified \<and> keeps then s\<lparr>ch_waiter := No_Waiter, ch_permit := True\<rparr> else s\<lparr>ch_waiter := No_Waiter\<rparr>)"

section \<open>Sending\<close>

datatype send_result = Sent | Send_Full | Send_Disconnected

definition try_push :: "'r \<Rightarrow> 'r channel \<Rightarrow> send_result \<times> 'r channel" where
  "try_push r s =
     (if \<not> ch_consumer_open s then (Send_Disconnected, s)
      else if ch_capacity s \<le> length (ch_queue s) then (Send_Full, s)
      else (Sent, s\<lparr>ch_queue := ch_queue s @ [r], ch_accepted := ch_accepted s @ [r], ch_sender := Sender_Pushed\<rparr>))"

definition close_sender :: "'r channel \<Rightarrow> 'r channel" where
  "close_sender s = s\<lparr>ch_producer_open := False, ch_sender := Sender_Closed\<rparr>"

definition sender_notifies :: "'r channel \<Rightarrow> 'r channel" where
  "sender_notifies s =
     (case ch_sender s of
        Sender_Pushed \<Rightarrow> (notify_one s)\<lparr>ch_sender := Sender_Idle\<rparr>
      | Sender_Closed \<Rightarrow> (notify_one s)\<lparr>ch_sender := Sender_Gone\<rparr>
      | _ \<Rightarrow> s)"

section \<open>Receiving\<close>

text \<open>What the sender does between its push and its notification is under the lock that the looks at the flags and the drops take too.\<close>

definition lock_free :: "'r channel \<Rightarrow> bool" where
  "lock_free s \<longleftrightarrow> ch_sender s \<noteq> Sender_Pushed"

definition give :: "bool \<Rightarrow> 'r received \<Rightarrow> 'r channel \<Rightarrow> 'r channel" where
  "give keeps x s = (forget_waiter keeps s)\<lparr>ch_results := ch_results s @ [x], ch_receiver := Receiver_Idle\<rparr>"

text \<open>One piece of the loop in \<open>receive\<close>: enabling the notification, the pop, the look at the flag of the producer, the swap of the page's flag, and the wait.\<close>

definition receive_piece :: "bool \<Rightarrow> 'r channel \<Rightarrow> 'r channel" where
  "receive_piece keeps s =
     (case ch_receiver s of
        Receiver_Idle \<Rightarrow> (case enable s of (enabled, s) \<Rightarrow> s\<lparr>ch_receiver := Receiver_Enabled enabled\<rparr>)
      | Receiver_Enabled enabled \<Rightarrow>
          (case ch_queue s of
             r # rest \<Rightarrow> give keeps (Got r) (s\<lparr>ch_queue := rest\<rparr>)
           | [] \<Rightarrow> s\<lparr>ch_receiver := Receiver_Popped enabled\<rparr>)
      | Receiver_Popped enabled \<Rightarrow>
          if \<not> lock_free s then s
          else if \<not> ch_producer_open s then give keeps Disconnected s else s\<lparr>ch_receiver := Receiver_Checked enabled\<rparr>
      | Receiver_Checked enabled \<Rightarrow>
          if ch_page s then give keeps Timed_Out (s\<lparr>ch_page := False\<rparr>)
          else if enabled then s\<lparr>ch_receiver := Receiver_Idle\<rparr> else s\<lparr>ch_receiver := Receiver_Waits\<rparr>
      | Receiver_Waits \<Rightarrow> if ch_waiter s = Notified then s\<lparr>ch_waiter := No_Waiter, ch_receiver := Receiver_Idle\<rparr> else s
      | _ \<Rightarrow> s)"

definition receive_times_out :: "bool \<Rightarrow> 'r channel \<Rightarrow> 'r channel" where
  "receive_times_out keeps s = (if ch_receiver s = Receiver_Waits then give keeps Timed_Out s else s)"

text \<open>\<open>try_recv\<close>, the pop and then the look at the flag.\<close>

definition try_recv :: "'r channel \<Rightarrow> 'r channel" where
  "try_recv s =
     (case ch_receiver s of
        Receiver_Idle \<Rightarrow>
          (case ch_queue s of
             r # rest \<Rightarrow> s\<lparr>ch_queue := rest, ch_results := ch_results s @ [Got r]\<rparr>
           | [] \<Rightarrow> s\<lparr>ch_receiver := Receiver_Tried\<rparr>)
      | Receiver_Tried \<Rightarrow>
          if \<not> lock_free s then s
          else s\<lparr>ch_results := ch_results s @ [if ch_producer_open s then Nothing_Yet else Disconnected], ch_receiver := Receiver_Idle\<rparr>
      | _ \<Rightarrow> s)"

definition close_receiver :: "'r channel \<Rightarrow> 'r channel" where
  "close_receiver s = s\<lparr>ch_consumer_open := False, ch_receiver := Receiver_Closing\<rparr>"

definition drain_piece :: "'r channel \<Rightarrow> 'r channel" where
  "drain_piece s =
     (case ch_queue s of
        r # rest \<Rightarrow> s\<lparr>ch_queue := rest, ch_abandoned := ch_abandoned s @ [r]\<rparr>
      | [] \<Rightarrow> s\<lparr>ch_receiver := Receiver_Gone\<rparr>)"

section \<open>Interleaving\<close>

datatype 'r channel_move =
    Send 'r
  | Sender_Drops
  | Sender_Notifies
  | Page_Wakes
  | Wake_Notifies
  | Receive bool
  | Receive_Times_Out bool
  | Try_Receive
  | Receiver_Drops
  | Receiver_Drains

definition channel_step :: "'r channel_move \<Rightarrow> 'r channel \<Rightarrow> 'r channel" where
  "channel_step m s =
     (case m of
        Send r \<Rightarrow> if ch_sender s = Sender_Idle then snd (try_push r s) else s
      | Sender_Drops \<Rightarrow> if ch_sender s = Sender_Idle then close_sender s else s
      | Sender_Notifies \<Rightarrow> sender_notifies s
      | Page_Wakes \<Rightarrow> s\<lparr>ch_page := True, ch_wakes := ch_wakes s + 1\<rparr>
      | Wake_Notifies \<Rightarrow> if 0 < ch_wakes s then (notify_one s)\<lparr>ch_wakes := ch_wakes s - 1\<rparr> else s
      | Receive keeps \<Rightarrow> receive_piece keeps s
      | Receive_Times_Out keeps \<Rightarrow> receive_times_out keeps s
      | Try_Receive \<Rightarrow> try_recv s
      | Receiver_Drops \<Rightarrow> if ch_receiver s = Receiver_Idle \<and> lock_free s then close_receiver s else s
      | Receiver_Drains \<Rightarrow> if ch_receiver s = Receiver_Closing then drain_piece s else s)"

definition channel_run :: "'r channel_move list \<Rightarrow> 'r channel \<Rightarrow> 'r channel" where
  "channel_run ms s = foldl (\<lambda>s m. channel_step m s) s ms"

section \<open>What the channel keeps\<close>

definition requests_of :: "'r received list \<Rightarrow> 'r list" where
  "requests_of xs = concat (map (\<lambda>x. case x of Got r \<Rightarrow> [r] | _ \<Rightarrow> []) xs)"

lemma requests_of_simps [simp]:
  "requests_of [] = []" "requests_of (xs @ ys) = requests_of xs @ requests_of ys" "requests_of [Got r] = [r]"
  "requests_of [Timed_Out] = []" "requests_of [Nothing_Yet] = []" "requests_of [Disconnected] = []"
  by (simp_all add: requests_of_def)

text \<open>Every accepted request was given out, was abandoned or is in the ring, in this order; none is abandoned before the receiver closes, none stays after.\<close>

definition requests_ok :: "'r channel \<Rightarrow> bool" where
  "requests_ok s \<longleftrightarrow> ch_accepted s = requests_of (ch_results s) @ ch_abandoned s @ ch_queue s \<and> length (ch_queue s) \<le> ch_capacity s
     \<and> (ch_consumer_open s \<longleftrightarrow> ch_receiver s \<noteq> Receiver_Closing \<and> ch_receiver s \<noteq> Receiver_Gone)
     \<and> (ch_consumer_open s \<longrightarrow> ch_abandoned s = []) \<and> (ch_receiver s = Receiver_Gone \<longrightarrow> ch_queue s = [])
     \<and> (ch_sender s = Sender_Pushed \<longrightarrow> ch_consumer_open s)"

text \<open>
  While the receiver is in its loop and its registered notification is not there yet, everything that it has looked at in vain since it registered is either still so or about to be notified.
\<close>

definition looked_in_vain :: "'r channel \<Rightarrow> bool \<Rightarrow> bool \<Rightarrow> bool \<Rightarrow> bool" where
  "looked_in_vain s ring flag page \<longleftrightarrow> ch_waiter s = Notified
     \<or> ch_waiter s = Registered \<and> (ring \<longrightarrow> ch_queue s = [] \<or> ch_sender s = Sender_Pushed)
         \<and> (flag \<longrightarrow> ch_producer_open s \<or> ch_sender s = Sender_Closed) \<and> (page \<longrightarrow> \<not> ch_page s \<or> 0 < ch_wakes s)"

definition wakes_ok :: "'r channel \<Rightarrow> bool" where
  "wakes_ok s \<longleftrightarrow>
     (case ch_receiver s of
        Receiver_Enabled False \<Rightarrow> looked_in_vain s False False False
      | Receiver_Popped False \<Rightarrow> looked_in_vain s True False False
      | Receiver_Checked False \<Rightarrow> looked_in_vain s True True False
      | Receiver_Waits \<Rightarrow> looked_in_vain s True True True
      | _ \<Rightarrow> ch_waiter s = No_Waiter)
     \<and> (ch_producer_open s \<longleftrightarrow> ch_sender s \<noteq> Sender_Closed \<and> ch_sender s \<noteq> Sender_Gone)"

lemmas channel_defs = channel_step_def try_push_def close_sender_def sender_notifies_def notify_one_def enable_def receive_piece_def receive_times_out_def give_def
  forget_waiter_def try_recv_def close_receiver_def drain_piece_def lock_free_def

lemma new_channel_ok: "requests_ok (new_channel capacity)" "wakes_ok (new_channel capacity)"
  by (simp_all add: requests_ok_def wakes_ok_def new_channel_def)

lemma channel_step_requests: "requests_ok s \<Longrightarrow> requests_ok (channel_step m s)"
  unfolding requests_ok_def
  by (cases m) (auto simp: channel_defs split: receiver_at.splits sender_at.splits list.splits waiter.splits)

lemma channel_step_wakes: "wakes_ok s \<Longrightarrow> wakes_ok (channel_step m s)"
  unfolding wakes_ok_def looked_in_vain_def
  by (cases m) (auto simp: channel_defs split: receiver_at.splits sender_at.splits list.splits waiter.splits bool.splits)

end
