(* ===== verification/Channel_Claims.thy ===== *)
theory Channel_Claims
  imports Page_Channel
begin

text \<open>
  What the channel between the control socket and the page guarantees (\<^verbatim>\<open>src/apps/chuzz/src/serve_page_control.rs\<close>).
\<close>

lemma channel_run_keeps:
  assumes "\<And>s m. P s \<Longrightarrow> P (channel_step m s)" "P s"
  shows "P (channel_run ms s)"
  using assms(2) by (induction ms arbitrary: s) (simp_all add: channel_run_def assms(1))

text \<open>
  C39. However the sender, the receiver and the document's wakers interleave: the requests that were accepted are those that were given out, then those that were abandoned, then those
  still in the ring, in the order they were sent, each once; the ring stays within its capacity; none is abandoned while the receiver is there, and none is left when it has gone.
\<close>

theorem channel_requests_kept:
  shows "ch_accepted (channel_run ms (new_channel capacity))
       = requests_of (ch_results (channel_run ms (new_channel capacity))) @ ch_abandoned (channel_run ms (new_channel capacity)) @ ch_queue (channel_run ms (new_channel capacity))
     \<and> length (ch_queue (channel_run ms (new_channel capacity))) \<le> ch_capacity (channel_run ms (new_channel capacity))
     \<and> (if ch_consumer_open (channel_run ms (new_channel capacity)) then ch_abandoned (channel_run ms (new_channel capacity)) = [] else True)
     \<and> (if ch_receiver (channel_run ms (new_channel capacity)) = Receiver_Gone then ch_queue (channel_run ms (new_channel capacity)) = [] else True)"
proof -
  have "requests_ok (channel_run ms (new_channel capacity))" by (rule channel_run_keeps [OF channel_step_requests new_channel_ok(1)])
  then show ?thesis by (simp add: requests_ok_def)
qed

text \<open>Nothing is about to notify, and there is something for the receiver.\<close>

definition quiet :: "'r channel \<Rightarrow> bool" where
  "quiet s \<longleftrightarrow> ch_sender s \<noteq> Sender_Pushed \<and> ch_sender s \<noteq> Sender_Closed \<and> ch_wakes s = 0"

definition wanted :: "'r channel \<Rightarrow> bool" where
  "wanted s \<longleftrightarrow> ch_queue s \<noteq> [] \<or> ch_page s \<or> \<not> ch_producer_open s"

definition receiving :: "'r channel \<Rightarrow> bool" where
  "receiving s \<longleftrightarrow> ch_receiver s \<notin> {Receiver_Tried, Receiver_Closing, Receiver_Gone}"

definition receives :: "nat \<Rightarrow> 'r channel \<Rightarrow> 'r channel" where
  "receives n s = channel_run (replicate n (Receive True)) s"

lemma receives_simps: "receives 0 s = s" "receives (Suc n) s = receives n (receive_piece True s)"
  by (simp_all add: receives_def channel_run_def channel_step_def)

text \<open>From enabling the notification the loop comes to a result in three more pieces.\<close>

lemma enabled_receives:
  assumes "ch_receiver s = Receiver_Enabled enabled" "quiet s" "wanted s"
  shows "length (ch_results s) < length (ch_results (receives 1 s)) \<or> length (ch_results s) < length (ch_results (receives 2 s))
    \<or> length (ch_results s) < length (ch_results (receives 3 s))"
proof (cases "ch_queue s")
  case Nil
  show ?thesis
  proof (cases "ch_producer_open s")
    case True
    have "length (ch_results s) < length (ch_results (receives 3 s))"
      using assms Nil True by (simp add: numeral_eq_Suc receives_simps channel_defs quiet_def wanted_def)
    then show ?thesis by blast
  next
    case False
    have "length (ch_results s) < length (ch_results (receives 2 s))"
      using assms Nil False by (simp add: numeral_eq_Suc receives_simps channel_defs quiet_def wanted_def)
    then show ?thesis by blast
  qed
next
  case (Cons r rest)
  have "length (ch_results s) < length (ch_results (receives 1 s))"
    using assms Cons by (simp add: receives_simps channel_defs)
  then show ?thesis by blast
qed

lemma receives_add: "receives (m + n) s = receives n (receives m s)"
  by (simp add: receives_def channel_run_def replicate_add)

lemma enabled_receives': 
  assumes "ch_receiver s = Receiver_Enabled enabled" "quiet s" "wanted s"
  shows "\<exists>n\<le>3. length (ch_results s) < length (ch_results (receives n s))"
proof -
  have "(1 :: nat) \<le> 3" "(2 :: nat) \<le> 3" "(3 :: nat) \<le> 3" by simp_all
  then show ?thesis using enabled_receives [OF assms] by blast
qed

lemma idle_receives:
  assumes "ch_receiver s = Receiver_Idle" "quiet s" "wanted s"
  shows "\<exists>n\<le>4. length (ch_results s) < length (ch_results (receives n s))"
proof -
  let ?t = "receive_piece True s"
  have "\<exists>e. ch_receiver ?t = Receiver_Enabled e" "quiet ?t" "wanted ?t" "ch_results ?t = ch_results s"
    using assms by (auto simp: channel_defs quiet_def wanted_def)
  then obtain n where "n \<le> 3" "length (ch_results s) < length (ch_results (receives n ?t))" using enabled_receives' [of ?t] by metis
  then have "Suc n \<le> 4" "length (ch_results s) < length (ch_results (receives (Suc n) s))" by (simp_all add: receives_simps)
  then show ?thesis by blast
qed

lemma later_receives:
  assumes "\<exists>n\<le>k. length (ch_results s) < length (ch_results (receives n (receive_piece True s)))"
  shows "\<exists>n\<le>Suc k. length (ch_results s) < length (ch_results (receives n s))"
  using assms by (metis Suc_le_mono receives_simps(2))

lemma waiting_receives:
  assumes "ch_receiver s = Receiver_Waits" "wakes_ok s" "quiet s" "wanted s"
  shows "\<exists>n\<le>5. length (ch_results s) < length (ch_results (receives n s))"
proof -
  let ?t = "receive_piece True s"
  have "ch_waiter s = Notified" using assms by (auto simp: wakes_ok_def looked_in_vain_def quiet_def wanted_def)
  then have t: "ch_receiver ?t = Receiver_Idle" "quiet ?t" "wanted ?t" "ch_results ?t = ch_results s"
    using assms by (simp_all add: channel_defs quiet_def wanted_def)
  have "\<exists>n\<le>Suc 4. length (ch_results s) < length (ch_results (receives n s))"
    by (rule later_receives) (use idle_receives [OF t(1-3)] t(4) in simp)
  then show ?thesis by simp
qed

lemma wakes_piece: "wakes_ok s \<Longrightarrow> wakes_ok (receive_piece True s)"
  using channel_step_wakes [of s "Receive True"] by (simp add: channel_step_def)

lemma checked_receives:
  assumes "ch_receiver s = Receiver_Checked e" "wakes_ok s" "quiet s" "wanted s"
  shows "\<exists>n\<le>6. length (ch_results s) < length (ch_results (receives n s))"
proof -
  let ?t = "receive_piece True s"
  consider "ch_page s" | "\<not> ch_page s" "e" | "\<not> ch_page s" "\<not> e" by blast
  then have "\<exists>n\<le>Suc 5. length (ch_results s) < length (ch_results (receives n s))"
  proof cases
    case 1
    then have "length (ch_results s) < length (ch_results (receives 1 s))" using assms by (simp add: receives_simps channel_defs)
    then show ?thesis by (metis one_le_numeral le_SucI)
  next
    case 2
    then have t: "ch_receiver ?t = Receiver_Idle" "quiet ?t" "wanted ?t" "ch_results ?t = ch_results s"
      using assms by (simp_all add: channel_defs quiet_def wanted_def)
    obtain n where "n \<le> 4" "length (ch_results ?t) < length (ch_results (receives n ?t))" using idle_receives [OF t(1-3)] by blast
    then have "n \<le> 5" "length (ch_results s) < length (ch_results (receives n ?t))" using t(4) by simp_all
    then show ?thesis by (blast intro: later_receives)
  next
    case 3
    then have t: "ch_receiver ?t = Receiver_Waits" "quiet ?t" "wanted ?t" "ch_results ?t = ch_results s"
      using assms by (simp_all add: channel_defs quiet_def wanted_def)
    show ?thesis by (rule later_receives) (use waiting_receives [OF t(1) wakes_piece [OF assms(2)] t(2,3)] t(4) in simp)
  qed
  then show ?thesis by simp
qed

lemma popped_receives:
  assumes "ch_receiver s = Receiver_Popped e" "wakes_ok s" "quiet s" "wanted s"
  shows "\<exists>n\<le>7. length (ch_results s) < length (ch_results (receives n s))"
proof (cases "ch_producer_open s")
  case False
  then have "length (ch_results s) < length (ch_results (receives 1 s))" using assms by (simp add: receives_simps channel_defs quiet_def)
  then show ?thesis by (metis one_le_numeral)
next
  case True
  let ?t = "receive_piece True s"
  have t: "ch_receiver ?t = Receiver_Checked e" "quiet ?t" "wanted ?t" "ch_results ?t = ch_results s"
    using assms True by (simp_all add: channel_defs quiet_def wanted_def)
  have "\<exists>n\<le>Suc 6. length (ch_results s) < length (ch_results (receives n s))"
    by (rule later_receives) (use checked_receives [OF t(1) wakes_piece [OF assms(2)] t(2,3)] t(4) in simp)
  then show ?thesis by simp
qed

text \<open>
  C40. No wake-up is lost. In every state that the channel can reach, once the notifications that are on their way have been made, a receiver in \<open>receive\<close> that has something to
  see, be it a request, work of the page or a sender that has gone, returns within seven more pieces of its loop, whatever it has looked at before.
\<close>

theorem no_wake_up_lost:
  assumes "s = channel_run ms (new_channel capacity)" "quiet s" "receiving s" "wanted s"
  shows "\<exists>n. n \<le> 7 \<and> length (ch_results s) < length (ch_results (channel_run (replicate n (Receive True)) s))"
proof -
  have ok: "wakes_ok s" unfolding assms(1) by (rule channel_run_keeps [OF channel_step_wakes new_channel_ok(2)])
  have more: "k \<le> 7 \<Longrightarrow> \<exists>n\<le>k. length (ch_results s) < length (ch_results (receives n s)) \<Longrightarrow> \<exists>n\<le>7. length (ch_results s) < length (ch_results (receives n s))" for k
    by (meson le_trans)
  have "\<exists>n\<le>7. length (ch_results s) < length (ch_results (receives n s))"
  proof (cases "ch_receiver s")
    case Receiver_Idle
    show ?thesis by (rule more [OF _ idle_receives [OF Receiver_Idle assms(2,4)]]) simp
  next
    case (Receiver_Enabled e)
    show ?thesis by (rule more [OF _ enabled_receives' [OF Receiver_Enabled assms(2,4)]]) simp
  next
    case (Receiver_Popped e)
    show ?thesis by (rule popped_receives [OF Receiver_Popped ok assms(2,4)])
  next
    case (Receiver_Checked e)
    show ?thesis by (rule more [OF _ checked_receives [OF Receiver_Checked ok assms(2,4)]]) simp
  next
    case Receiver_Waits
    show ?thesis by (rule more [OF _ waiting_receives [OF Receiver_Waits ok assms(2,4)]]) simp
  qed (use assms(3) in \<open>simp_all add: receiving_def\<close>)
  then show ?thesis unfolding receives_def .
qed

text \<open>A page's work, a request and its notification while the receiver waits.\<close>

theorem no_wake_up_lost_witness:
  "\<exists>n. n \<le> 7 \<and> length (ch_results (channel_run [Receive True, Receive True, Receive True, Receive True, Send (1 :: nat), Sender_Notifies] (new_channel 2)))
     < length (ch_results (channel_run (replicate n (Receive True))
         (channel_run [Receive True, Receive True, Receive True, Receive True, Send (1 :: nat), Sender_Notifies] (new_channel 2))))"
proof -
  let ?ms = "[Receive True, Receive True, Receive True, Receive True, Send (1 :: nat), Sender_Notifies]"
  have "quiet (channel_run ?ms (new_channel 2))" "receiving (channel_run ?ms (new_channel 2))" "wanted (channel_run ?ms (new_channel 2))"
    by (simp_all add: channel_run_def channel_defs new_channel_def quiet_def receiving_def wanted_def)
  then show ?thesis by (rule no_wake_up_lost [OF refl])
qed

end
