(* ===== verification/Spec2Isabelle.thy ===== *)
theory Spec2Isabelle
  imports Lifecycle_Props Page_Load Cookie_Jar Fragment_Chunks Languages Mse_Claims Sdp_Example Web_Locks Webauthn_Props Webauthn_Flight Host_Examples Page_Examples Channel_Claims
begin

text \<open>
  \<^bold>\<open>Chuzz, a browser shell: the parts that keep state of their own.\<close>

  Chuzz (\<^verbatim>\<open>src/apps/chuzz\<close>) puts a rendering engine into a window: it owns the tabs and their
  history, loads pages for them, puts hidden tabs to sleep and wakes them, keeps cookies and session storage, and feeds
  media to decoders. The engine, the network provider, the window toolkit and the codecs are other
  crates. This development models the shell's own state machines and parsers and proves what they guarantee.

  \<^bold>\<open>Conventions\<close> (\<open>Chuzz_Prelude\<close>). A Rust string is a list of Unicode scalar values (\<open>str\<close>) with
  \<open>utf8\<close> its bytes; \<open>u64\<close> and \<open>usize\<close> are natural numbers whose checked and saturating operations are written
  out, and words are kept at their width where the code masks and shifts. A panic is the value \<open>None\<close> (in \<open>Fragments\<close>, a failure \<open>Panic\<close> of its own), a
  \<open>Result\<close> a sum with the error on the left. Code outside the repository is a parameter: a record of functions that
  the definitions take, with a predicate for the laws they rely on. Loops are recursion with a measure; where a loop
  may not end (\<open>snapshot_slices\<close>, \<open>read_rows\<close>, \<open>delete_stale\<close>) it is a partial function and theorems show that it does.

  \<^bold>\<open>The browser.\<close> \<open>Nav\<close> is the address bar (\<^verbatim>\<open>nav.rs\<close>): what typed text navigates to. \<open>Internal_Pages\<close> holds
  the pages the browser writes itself (\<^verbatim>\<open>internal_pages.rs\<close>, \<^verbatim>\<open>tls_status.rs\<close>) and shows that escaping leaves no
  markup. \<open>Tab_Records\<close> is the registry of tab records (\<^verbatim>\<open>tab_records.rs\<close>) behind the interface \<open>tab_registry\<close>.
  \<open>Browser_State\<close>, \<open>Browser_Ops\<close> and \<open>Tab_Lifecycle\<close> are the state of \<^verbatim>\<open>browser.rs\<close> and \<^verbatim>\<open>tab_lifecycle.rs\<close>
  and all that changes it: opening, closing, selecting, navigating, going back and forward, scheduling loads, attaching finished
  pages, arming and cancelling deadlines, committing a sleep, discarding a page, waking, restore timeouts and
  teardown receipts. What the window or a page answers is an observation passed in. \<open>Browser_Inv\<close> is the invariant,
  \<open>Browser_Keeps\<close> and \<open>Lifecycle_Keeps\<close> show operation by operation that it is kept, and \<open>Browser_Machine\<close> puts
  the operations together as the actions of a machine whose reachable states are an inductive predicate. \<open>Browser_Props\<close> and
  \<open>Lifecycle_Props\<close> conclude: no reachable state panics while 64-bit counters have room, the state stays well formed, history
  refines a bounded zipper, superseded loads are ignored, a shown tab stays awake, a discarded POST is never resent, a wake
  during a discard is honoured, a closed tab does not come back; and two behaviours that look unintended are
  proved as they are. \<open>Debug_Log\<close> is the ring behind the debugging panel.

  \<^bold>\<open>Loading.\<close> \<open>Utf8\<close> is decoding of bytes as the standard library does it, \<open>Page_Load\<close> is \<open>fetch_page\<close> of
  \<^verbatim>\<open>browser.rs\<close> with the body sniffing of \<^verbatim>\<open>decode.rs\<close>: text passes through unchanged, and the outcome shown on
  the tab is what happened.

  \<^bold>\<open>Sleeping tabs.\<close> \<open>Tab_Stash\<close> and \<open>Page_Stash\<close> (\<^verbatim>\<open>tab_stash.rs\<close>, \<^verbatim>\<open>atomic_update.rs\<close>) are what is kept of a
  sleeping page and the byte budget it is charged to, behind the interface \<open>charge_budget\<close>; \<open>Tab_Session\<close>
  (\<^verbatim>\<open>tab_session.rs\<close>) is session storage behind \<open>storage_area\<close>; \<open>Tab_Native\<close> (\<^verbatim>\<open>tab_native.rs\<close>) is the capture of forms
  and of a preview. Their theorems are the budget, the round trips and what must not be kept.

  \<^bold>\<open>Cookies\<close> (\<^verbatim>\<open>cookie_store.rs\<close>). \<open>Cookie_Table\<close> slices a jar into rows and reads it back; \<open>Cookie_Persist\<close> is the
  writer task and its clients as an interleaving of steps, where a flush is a barrier, no wake-up is lost and everything
  asked for is answered within \<open>work_left\<close> moves (a bound computed from the queue, at most 128 commands); \<open>Cookie_Jar\<close> is admission, the
  two views of the jar, and opening a profile again. Publishing a snapshot and waking the writer are one step, where the code wakes it after it has released the lock. That a string is UTF-8 is used for termination: a boundary is at most three bytes
  back, so a slice of 8192 bytes always moves forward.

  \<^bold>\<open>Media\<close> (\<^verbatim>\<open>video/fragments.rs\<close>). \<open>Fragments\<close> is the incremental indexer of fragmented MP4 with every error;
  \<open>Fragment_Props\<close> shows that no bytes make it panic, that extents lie in their buffer, that the stream is accounted for and
  that runs are contiguous; \<open>Fragment_Chunks\<close> that cutting the stream differently changes nothing.

  \<open>Mse_Presentation\<close>, \<open>Mse_Buffer\<close> and \<open>Mse_Host\<close> are media source extensions (\<^verbatim>\<open>video/mse.rs\<close>) over that indexer: the presentations
  of a document as a heap, since a decoder keeps one that the document has closed; their source buffers with appends, removals, garbage collection and quotas;
  and every native command with every refusal. \<open>Mse_Memory\<close>, \<open>Mse_Props\<close>, \<open>Mse_Sound\<close> and \<open>Mse_Claims\<close> show that the limits hold and every
  stored packet can be read after any run, that no command panics in a run of fewer than \<open>2^39\<close> calls (so no counter of bytes or ids reaches its width), and
  what a removal takes.

  \<^bold>\<open>Session descriptions\<close> (\<^verbatim>\<open>webrtc/sdp.rs\<close>). \<open>Text_Ops\<close> is the text processing of the standard library that the code calls, \<open>Sdp\<close> the profile
  checks and the rewriting of a generated description; \<open>Sdp_Props\<close> shows what an accepted description satisfies, \<open>Sdp_Local\<close> that a local description
  keeps every line that is not about codecs, is accepted again and offers exactly the selected codecs, \<open>Sdp_Example\<close> does both on a written-out description.

  \<^bold>\<open>Web locks\<close> (\<^verbatim>\<open>webapi.rs\<close>). \<open>Web_Locks\<close> is the table of locks and broadcast channels; a request holds its lock exactly when it is the oldest,
  or it and all older ones are shared.

  \<^bold>\<open>WebAuthn\<close> (\<^verbatim>\<open>webauthn.rs\<close>). \<open>Webauthn\<close> is the checks of the relying party and the options, the CTAP2 requests, and the checks of what an authenticator
  returned; \<open>Webauthn_Props\<close> binds what a page gets to the page, its challenge, its relying party and the authenticator's own reply. \<open>Webauthn_Requests\<close> and \<open>Webauthn_Flight\<close> are the
  requests in flight: the page, worker threads and timers interleave as moves on the shared tables, each lock held for one move (a status call is two, since
  it reads the clock in between while it holds the lock; a scan of the ring is one). A request has one outcome at most, one request uses the authenticator, and
  its own thread frees it. A run ends where the code would panic (the ring being full), although the process would go on without that thread.

  \<^bold>\<open>The headless host\<close> (\<^verbatim>\<open>serve.rs\<close>, \<^verbatim>\<open>serve_egress.rs\<close>). \<open>Host_Address\<close> decides whether an address is public and proves the octet tests
  equivalent to membership in the reserved blocks; \<open>Host_Policy\<close> is the policy read from the environment, the pages it admits and where the egress filter
  connects; \<open>Host_Egress\<close> is the filter while it relays, an interleaving of polls, loads of the shared byte counter and compare-exchanges on it (which may fail
  spuriously); \<open>Host_Actions\<close> what a bot may do to a page and see of it; \<open>Host_Control\<close> the request loop with budgets, navigations and the storage carried between documents.
  The environment is given with each turn, as what a resolver answers may change. \<open>Host_Claims\<close> concludes, \<open>Host_Examples\<close> runs a host on concrete inputs.

  \<^bold>\<open>Around the headless page.\<close> \<open>Page_Files\<close> is the loopback server of a built page (\<^verbatim>\<open>page_server.rs\<close>): which file answers, and the
  exchanges over HTTP/1 and HTTP/2, with writes and frames that fail; \<open>Page_Claims\<close> shows that paths stay below the root, that a client reads from the bytes of HTTP/1 what HTTP/2
  answers, how much of a body arrives, and two behaviours that look unintended; \<open>Page_Examples\<close> runs it. \<open>Page_Channel\<close> is the channel from the control socket to the page (\<^verbatim>\<open>serve_page_control.rs\<close>) as an
  interleaving of its ends and of wakers; \<open>Channel_Claims\<close> shows that no request and no wake-up is lost. A receiver's loop needs seven pieces at most once
  something is there.

  \<^bold>\<open>Languages\<close> (\<^verbatim>\<open>languages.rs\<close>). Canonical BCP 47 tags as an instance of the interface \<open>canonical_form\<close>, the
  preference list and the header.

  \<^bold>\<open>Parameters.\<close> URL and host parsing, the public-suffix list, name resolution, files, SHA-256, CBOR and JSON encoding, codecs, the engine's documents and its scripts
  are records of functions or arguments. Times of media are 64-bit floats, kept symbolic with the operations the code applies. What such code must satisfy
  is a named predicate (for example \<open>keeps_origin\<close>: a document keeps its origin; resolved addresses are well formed).

  \<^bold>\<open>Not modelled.\<close> The document loader, the bridges to the network and script engines, WebGPU and canvas, audio, capture, the WebRTC
  transport, workers, the sandbox, the control crate and the entry points. Most of it is I/O, floating-point rendering, or calls into other crates whose behaviour is
  not in the repository. Within modelled files: the hooks that register page targets and
  diagnostics with the window toolkit, the redraw shell, the user-agent and diagnostics commands of \<^verbatim>\<open>browser.rs\<close>, the
  drawing of a preview in \<^verbatim>\<open>tab_native.rs\<close>, the opening of authenticators and their key stores in \<^verbatim>\<open>webauthn.rs\<close>, streams and decompression in \<^verbatim>\<open>webapi.rs\<close>,
  the TLS adapter in \<^verbatim>\<open>page_server.rs\<close>, launch targets, process set-up, diagnostics, requests addressed to another target and the pacing of page turns in \<^verbatim>\<open>serve.rs\<close> (a host
  starts with its first page loaded), and test-only features. Elsewhere than in the cookie writer, the
  WebAuthn requests, the egress relay and the page channel, locks are taken to make each operation one step.

  \<^bold>\<open>What could come next.\<close> The signalling state of \<^verbatim>\<open>webrtc/transport.rs\<close>, the track states of \<^verbatim>\<open>media/track.rs\<close>, the mapping states of
  \<^verbatim>\<open>webgpu/buffer.rs\<close> and the resource policy of \<^verbatim>\<open>document_loader.rs\<close>.
\<close>

end
